(* ===== verification/Go_Prelude.thy ===== *)
theory Go_Prelude
  imports
    Main
    "HOL-Library.Word"
    "HOL-Library.Monad_Syntax"
    "HOL-Library.Char_ord"
    "HOL-Library.List_Lexorder"
begin

text \<open>
  The vocabulary every component theory shares: names for Go's integer widths, the result type of
  a function that returns a value or an error, iteration over a Go map, and the generic lemmas on
  words, lists, maps and options that carry the component proofs.

  Conventions of the development.
  \<^item> A Go \<open>uint64\<close> is a \<open>64 word\<close>, a \<open>uint32\<close> a \<open>32 word\<close>: \<open>+\<close>, \<open>-\<close> and \<open>*\<close> wrap around as in Go, and
    \<open>div\<close> is Go's unsigned division (division by zero is a run-time panic of the source and is a
    branch of its own wherever the divisor is not a constant).
  \<^item> A Go \<open>string\<close> is a \<open>string\<close>: a list of 8-bit characters, compared bytewise.
  \<^item> A Go map is a partial function. A \<open>range\<close> loop over a map visits its keys in an unspecified
    order: the order is an explicit argument \<open>ks\<close>, and \<open>iteration m ks\<close> says that \<open>ks\<close> is one of the
    orders Go may choose. What a theorem shows for every such \<open>ks\<close> does not depend on the order.
  \<^item> A method with a pointer receiver takes the receiver's state and returns the new state; the
    mutex that brackets the method body is what makes one call one step.
\<close>

named_theorems unat_arith_rules
  \<open>unsigned values of word operations whose result fits\<close>

named_theorems state_frame
  \<open>fields and keys an operation leaves alone\<close>

type_synonym u64 = "64 word"
type_synonym u32 = "32 word"
type_synonym u16 = "16 word"
type_synonym u8 = "8 word"

abbreviation max_u64 :: u64 where
  "max_u64 \<equiv> - 1"

subsection \<open>Words as naturals\<close>

lemma unat_bound: "unat (x :: 'a::len word) < 2 ^ LENGTH('a)"
  by (rule unsigned_less)

lemma le_unat_fits: "n \<le> unat (x :: 'a::len word) \<Longrightarrow> n < 2 ^ LENGTH('a)"
  by (rule le_less_trans [OF _ unat_bound])

lemma le_unat_u64: "n \<le> unat (x :: u64) \<Longrightarrow> n < 18446744073709551616"
  using le_unat_fits [of n x] by simp

lemma unat_max_u64 [simp]: "unat max_u64 = 18446744073709551615"
  by (simp add: unsigned_minus_1_eq_mask mask_eq_exp_minus_1)

lemma unat_minus_le [unat_arith_rules]:
  fixes a b :: "'a::len word"
  shows "b \<le> a \<Longrightarrow> unat (a - b) = unat a - unat b"
  by (simp add: unat_sub)

lemma unat_plus_fits [unat_arith_rules]:
  fixes a b :: "'a::len word"
  shows "unat a + unat b < 2 ^ LENGTH('a) \<Longrightarrow> unat (a + b) = unat a + unat b"
  by (simp add: unat_word_ariths)

lemma unat_times_fits [unat_arith_rules]:
  fixes a b :: "'a::len word"
  shows "unat a * unat b < 2 ^ LENGTH('a) \<Longrightarrow> unat (a * b) = unat a * unat b"
  by (simp add: unat_word_ariths)

lemma unat_Suc_fits [unat_arith_rules]:
  fixes a :: "'a::len word"
  shows "unat a + 1 < 2 ^ LENGTH('a) \<Longrightarrow> unat (a + 1) = unat a + 1"
  by (simp add: unat_word_ariths)

lemma unat_of_nat_fits: "n < 2 ^ LENGTH('a) \<Longrightarrow> unat (of_nat n :: 'a::len word) = n"
  by (simp only: unat_of_nat mod_less)

text \<open>The overflow test the source uses on a sum: \<open>a + b < a\<close> exactly when the sum wraps.\<close>

lemma word_plus_wraps_iff:
  fixes a b :: "'a::len word"
  shows "a + b < a \<longleftrightarrow> 2 ^ LENGTH('a) \<le> unat a + unat b"
proof (cases "unat a + unat b < 2 ^ LENGTH('a)")
  case True
  then show ?thesis by (simp add: word_less_nat_alt unat_plus_fits)
next
  case False
  moreover from unat_bound [of a] unat_bound [of b]
  have "unat a + unat b - 2 ^ LENGTH('a) < 2 ^ LENGTH('a)" by linarith
  ultimately have "unat (a + b) = unat a + unat b - 2 ^ LENGTH('a)"
    by (simp add: unat_word_ariths le_mod_geq)
  moreover from unat_bound [of b] have "unat a + unat b - 2 ^ LENGTH('a) < unat a"
    using False by linarith
  ultimately show ?thesis using False by (simp add: word_less_nat_alt)
qed

lemma word_neq_Suc [simp]:
  fixes a :: "'a::len word"
  shows "a + 1 \<noteq> a" and "a \<noteq> a + 1"
  by simp_all

subsection \<open>Iteration over a Go map\<close>

definition iteration :: "('k \<rightharpoonup> 'v) \<Rightarrow> 'k list \<Rightarrow> bool" where
  "iteration m ks \<longleftrightarrow> distinct ks \<and> set ks = dom m"

lemma iterationD:
  assumes "iteration m ks"
  shows "distinct ks" and "set ks = dom m" and "finite (dom m)"
  using assms by (auto simp: iteration_def intro: finite_subset [of _ "set ks"])

lemma iteration_ex: "finite (dom m) \<Longrightarrow> \<exists>ks. iteration m ks"
  unfolding iteration_def using finite_distinct_list by metis

lemma iteration_length:
  assumes "iteration m ks" and "iteration m ks'"
  shows "length ks = length ks'"
  using assms by (metis distinct_card iteration_def)

text \<open>Sorting the keys gives one list, whatever order the map was ranged over in.\<close>

lemma iteration_sort_unique:
  fixes ks :: "'k::linorder list"
  assumes "iteration m ks" and "iteration m ks'"
  shows "sort ks = sort ks'"
  using assms
  by (metis distinct_sort iteration_def set_sort sorted_distinct_set_unique sorted_sort)

subsection \<open>Sums over the values of a finite map\<close>

definition sum_over :: "('v \<Rightarrow> nat) \<Rightarrow> ('k \<rightharpoonup> 'v) \<Rightarrow> nat" where
  "sum_over f m = (\<Sum>k\<in>dom m. f (the (m k)))"

lemma sum_over_upd:
  assumes "finite (dom m)"
  shows "sum_over f (m(k \<mapsto> v)) + (case m k of None \<Rightarrow> 0 | Some w \<Rightarrow> f w) = sum_over f m + f v"
proof -
  have same: "(\<Sum>j\<in>dom m - {k}. f (the ((m(k \<mapsto> v)) j))) = (\<Sum>j\<in>dom m - {k}. f (the (m j)))"
    by (rule sum.cong) auto
  have new: "sum_over f (m(k \<mapsto> v)) = f v + (\<Sum>j\<in>dom m - {k}. f (the (m j)))"
    using assms same by (simp add: sum_over_def sum.insert_remove)
  show ?thesis
  proof (cases "m k")
    case None
    then have "dom m - {k} = dom m" by auto
    with new None show ?thesis by (simp add: sum_over_def)
  next
    case (Some w)
    then have "sum_over f m = f w + (\<Sum>j\<in>dom m - {k}. f (the (m j)))"
      using assms by (simp add: sum_over_def sum.remove [of "dom m" k] domIff)
    with new Some show ?thesis by simp
  qed
qed

lemma sum_over_del:
  assumes "finite (dom m)"
  shows "sum_over f (m(k := None)) + (case m k of None \<Rightarrow> 0 | Some w \<Rightarrow> f w) = sum_over f m"
proof (cases "m k")
  case None
  then have "m(k := None) = m" by (simp add: fun_upd_idem)
  with None show ?thesis by simp
next
  case (Some w)
  have "sum_over f (m(k := None)) = (\<Sum>j\<in>dom m - {k}. f (the (m j)))"
    unfolding sum_over_def by (rule sum.cong) auto
  moreover have "sum_over f m = f w + (\<Sum>j\<in>dom m - {k}. f (the (m j)))"
    using assms Some by (simp add: sum_over_def sum.remove [of "dom m" k] domIff)
  ultimately show ?thesis using Some by simp
qed

lemma sum_over_empty [simp]: "sum_over f Map.empty = 0"
  by (simp add: sum_over_def)

lemma sum_over_member_le: "finite (dom m) \<Longrightarrow> m k = Some v \<Longrightarrow> f v \<le> sum_over f m"
  using sum_over_del [of m f k] by simp

subsection \<open>Lists\<close>

lemma length_filter_partition:
  "length (filter P xs) + length (filter (\<lambda>x. \<not> P x) xs) = length xs"
  by (induction xs) auto

subsection \<open>Runs of a machine\<close>

text \<open>
  What one step keeps, a run keeps: an invariant of the state, and a reflexive and transitive relation
  between the state before and the state after.
\<close>

locale invariant_kept =
  fixes step :: "'s \<Rightarrow> 'c \<Rightarrow> 's" and inv :: "'s \<Rightarrow> bool"
  assumes inv_step: "inv s \<Longrightarrow> inv (step s c)"
begin

lemma run_inv: "inv s \<Longrightarrow> inv (foldl step s cs)"
  by (induction cs arbitrary: s) (simp_all add: inv_step)

end

locale relation_kept =
  fixes step :: "'s \<Rightarrow> 'c \<Rightarrow> 's" and rel :: "'s \<Rightarrow> 's \<Rightarrow> bool"
  assumes rel_refl: "rel s s" and rel_trans: "rel s t \<Longrightarrow> rel t u \<Longrightarrow> rel s u"
    and rel_step: "rel s (step s c)"
begin

lemma run_rel: "rel s (foldl step s cs)"
proof (induction cs arbitrary: s)
  case Nil
  show ?case by (simp add: rel_refl)
next
  case (Cons c cs)
  show ?case using rel_trans [OF rel_step Cons.IH, of s c] by simp
qed

end

lemma map_le_lookup: "m \<subseteq>\<^sub>m m' \<Longrightarrow> m k = Some v \<Longrightarrow> m' k = Some v"
  by (auto simp: map_le_def dom_def)

text \<open>
  An account that every step feeds by \<open>paid_in\<close> and drains by \<open>paid_out\<close>. The law of one step gives
  the balance of a whole run.
\<close>

primrec flow_sum :: "('s \<Rightarrow> 'c \<Rightarrow> 's) \<Rightarrow> ('s \<Rightarrow> 'c \<Rightarrow> nat) \<Rightarrow> 's \<Rightarrow> 'c list \<Rightarrow> nat" where
  "flow_sum step f s [] = 0"
| "flow_sum step f s (c # cs) = f s c + flow_sum step f (step s c) cs"

locale conserving = invariant_kept step inv
  for step :: "'s \<Rightarrow> 'c \<Rightarrow> 's" and inv :: "'s \<Rightarrow> bool" +
  fixes held :: "'s \<Rightarrow> nat" and paid_in :: "'s \<Rightarrow> 'c \<Rightarrow> nat" and paid_out :: "'s \<Rightarrow> 'c \<Rightarrow> nat"
  assumes balanced: "inv s \<Longrightarrow> held (step s c) + paid_out s c = held s + paid_in s c"
begin

lemma run_conserves:
  "inv s \<Longrightarrow> held (foldl step s cs) + flow_sum step paid_out s cs = held s + flow_sum step paid_in s cs"
proof (induction cs arbitrary: s)
  case (Cons c cs)
  from Cons.IH [OF inv_step [OF Cons.prems, of c]] balanced [OF Cons.prems, of c] show ?case by simp
qed simp

lemma never_overdrawn:
  "inv s \<Longrightarrow> flow_sum step paid_out s cs \<le> held s + flow_sum step paid_in s cs"
  using run_conserves [of s cs] by simp

end

end
