(* ===== verification/Emission.thy ===== *)
theory Emission
  imports Go_Prelude
begin

text \<open>
  The Cell emission schedule (\<open>pkg/chain/emission.go\<close>): the validated schedule, the epoch of a
  height, the per-block reward, the closed form of what mining has emitted, the halving heights and
  the convergence check. Go's run-time panic (a zero \<open>BlocksPerEpoch\<close> in a division, the explicit
  panic of \<open>ConvergenceCheck\<close>) is the value \<^const>\<open>None\<close>.
\<close>

section \<open>Constants and the schedule\<close>

definition CellDecimals :: nat where "CellDecimals = 8"
definition DustPerCell :: u64 where "DustPerCell = 100000000"
definition CellMiningCapWhole :: u64 where "CellMiningCapWhole = 90000000"
definition CellMiningCapDust :: u64 where "CellMiningCapDust = 9000000000000000"
definition EpochLengthSeconds :: u64 where "EpochLengthSeconds = 126230400"
definition DefaultTargetBlockTimeSeconds :: u64 where "DefaultTargetBlockTimeSeconds = 10"
definition MaxHalvings :: u32 where "MaxHalvings = 64"

lemmas emission_consts =
  CellDecimals_def DustPerCell_def CellMiningCapWhole_def CellMiningCapDust_def
  EpochLengthSeconds_def DefaultTargetBlockTimeSeconds_def MaxHalvings_def

record EmissionSchedule =
  es_MiningCapDust :: u64
  es_EpochLengthSeconds :: u64
  es_TargetBlockTimeSeconds :: u64
  es_BlocksPerEpoch :: u64

datatype emission_error =
    ErrMiningCapZero
  | ErrEpochLengthZero
  | ErrBlockTimeZero
  | ErrBlockTimeNotDivisor

definition NewEmissionSchedule :: "u64 \<Rightarrow> u64 \<Rightarrow> u64 \<Rightarrow> emission_error + EmissionSchedule" where
  "NewEmissionSchedule miningCapDust epochLengthSec targetBlockTimeSec =
     (if miningCapDust = 0 then Inl ErrMiningCapZero
      else if epochLengthSec = 0 then Inl ErrEpochLengthZero
      else if targetBlockTimeSec = 0 then Inl ErrBlockTimeZero
      else if epochLengthSec mod targetBlockTimeSec \<noteq> 0 then Inl ErrBlockTimeNotDivisor
      else Inr \<lparr> es_MiningCapDust = miningCapDust,
                 es_EpochLengthSeconds = epochLengthSec,
                 es_TargetBlockTimeSeconds = targetBlockTimeSec,
                 es_BlocksPerEpoch = epochLengthSec div targetBlockTimeSec \<rparr>)"

text \<open>\<^const>\<open>None\<close> is the panic of an invalid default, which \<open>DefaultEmissionSchedule_ok\<close> excludes.\<close>

definition DefaultEmissionSchedule :: "EmissionSchedule option" where
  "DefaultEmissionSchedule =
     (case NewEmissionSchedule CellMiningCapDust EpochLengthSeconds DefaultTargetBlockTimeSeconds of
        Inl _ \<Rightarrow> None
      | Inr s \<Rightarrow> Some s)"

section \<open>Operations\<close>

definition EpochForHeight :: "EmissionSchedule \<Rightarrow> u64 \<Rightarrow> u32 option" where
  "EpochForHeight s height =
     (if height = 0 then Some 0
      else if es_BlocksPerEpoch s = 0 then None
      else (let e = (height - 1) div es_BlocksPerEpoch s
            in if ucast MaxHalvings \<le> e then Some MaxHalvings else Some (ucast e)))"

definition EpochAllocationDust :: "EmissionSchedule \<Rightarrow> u32 \<Rightarrow> u64" where
  "EpochAllocationDust s epoch =
     (if 63 \<le> epoch then 0
      else (let divisor = push_bit (unat (ucast epoch + 1 :: u64)) (1 :: u64)
            in es_MiningCapDust s div divisor))"

definition BlockRewardDust :: "EmissionSchedule \<Rightarrow> u64 \<Rightarrow> u64 option" where
  "BlockRewardDust s height =
     (if height = 0 then Some 0
      else do {
        epoch \<leftarrow> EpochForHeight s height;
        if MaxHalvings \<le> epoch then Some 0
        else (let alloc = EpochAllocationDust s epoch in Some (alloc div es_BlocksPerEpoch s))
      })"

text \<open>The loop over full epochs, \<open>e = 0, 1, \<dots>\<close> below \<open>n\<close>; \<open>n\<close> is at most \<^const>\<open>MaxHalvings\<close>.\<close>

definition full_epochs :: "EmissionSchedule \<Rightarrow> nat \<Rightarrow> u64" where
  "full_epochs s n =
     fold (\<lambda>e total. (let reward = EpochAllocationDust s (of_nat e) div es_BlocksPerEpoch s
                      in total + reward * es_BlocksPerEpoch s)) [0..<n] 0"

definition CumulativeEmittedDust :: "EmissionSchedule \<Rightarrow> u64 \<Rightarrow> u64 option" where
  "CumulativeEmittedDust s height =
     (if height = 0 then Some 0
      else do {
        currentEpoch \<leftarrow> EpochForHeight s height;
        let total = full_epochs s (unat (min currentEpoch MaxHalvings));
        if currentEpoch < MaxHalvings
        then (let blocksIntoEpoch = height - ucast currentEpoch * es_BlocksPerEpoch s;
                  reward = EpochAllocationDust s currentEpoch div es_BlocksPerEpoch s
              in Some (total + reward * blocksIntoEpoch))
        else Some total
      })"

definition RemainingSupplyDust :: "EmissionSchedule \<Rightarrow> u64 \<Rightarrow> u64 option" where
  "RemainingSupplyDust s height = do {
     emitted \<leftarrow> CumulativeEmittedDust s height;
     if es_MiningCapDust s \<le> emitted then Some 0 else Some (es_MiningCapDust s - emitted)
   }"

definition NextHalvingHeight :: "EmissionSchedule \<Rightarrow> u64 \<Rightarrow> u64 option" where
  "NextHalvingHeight s height = do {
     currentEpoch \<leftarrow> EpochForHeight s height;
     if MaxHalvings \<le> currentEpoch then Some 0
     else Some (ucast (currentEpoch + 1) * es_BlocksPerEpoch s + 1)
   }"

definition NextHalvingETA :: "EmissionSchedule \<Rightarrow> u64 \<Rightarrow> u64 option" where
  "NextHalvingETA s height = do {
     nxt \<leftarrow> NextHalvingHeight s height;
     if nxt = 0 \<or> nxt \<le> height then Some 0
     else Some ((nxt - height) * es_TargetBlockTimeSeconds s)
   }"

definition UltimateCumulativeEmissionDust :: "EmissionSchedule \<Rightarrow> u64 option" where
  "UltimateCumulativeEmissionDust s =
     (if es_BlocksPerEpoch s = 0 then None else Some (full_epochs s (unat MaxHalvings)))"

definition ConvergenceCheck :: "EmissionSchedule \<Rightarrow> u64 option" where
  "ConvergenceCheck s = do {
     ultimate \<leftarrow> UltimateCumulativeEmissionDust s;
     if es_MiningCapDust s < ultimate then None else Some (es_MiningCapDust s - ultimate)
   }"

section \<open>The schedule on naturals\<close>

text \<open>
  The reference the closed forms are compared with: \<open>block_reward c b e\<close> is the reward of a block of
  epoch \<open>e\<close> for cap \<open>c\<close> and \<open>b\<close> blocks per epoch, in unbounded arithmetic.
\<close>

definition epoch_alloc :: "nat \<Rightarrow> nat \<Rightarrow> nat" where
  "epoch_alloc c e = (if 63 \<le> e then 0 else c div 2 ^ Suc e)"

definition block_reward :: "nat \<Rightarrow> nat \<Rightarrow> nat \<Rightarrow> nat" where
  "block_reward c b e = epoch_alloc c e div b"

lemma sum_halves_le: "(\<Sum>e<n. c div 2 ^ Suc e) + c div 2 ^ n \<le> (c :: nat)"
proof (induction n)
  case (Suc n)
  have "2 * (c div 2 ^ Suc n) \<le> c div 2 ^ n"
    using div_mult2_eq [of c "2 ^ n" 2] by (simp add: mult.commute)
  with Suc.IH show ?case by simp
qed simp

lemma sum_epoch_alloc_le: "(\<Sum>e<n. epoch_alloc c e) \<le> c"
proof -
  have "(\<Sum>e<n. epoch_alloc c e) \<le> (\<Sum>e<n. c div 2 ^ Suc e)"
    by (rule sum_mono) (simp add: epoch_alloc_def)
  with sum_halves_le [of c n] show ?thesis by linarith
qed

lemma sum_epoch_rewards_le: "(\<Sum>e<n. block_reward c b e * b) \<le> c"
proof -
  have "(\<Sum>e<n. block_reward c b e * b) \<le> (\<Sum>e<n. epoch_alloc c e)"
    by (rule sum_mono) (simp add: block_reward_def)
  with sum_epoch_alloc_le [of c n] show ?thesis by linarith
qed

lemma sum_full_blocks: "(\<Sum>i<k * b. f (i div b)) = (\<Sum>e<k. f e * (b :: nat))"
proof (induction k)
  case (Suc k)
  have split: "{..<Suc k * b} = {..<k * b} \<union> {k * b..<Suc k * b}"
    by auto
  have "(\<Sum>i = k * b..<Suc k * b. f (i div b)) = (\<Sum>i = k * b..<Suc k * b. f k)"
  proof (rule sum.cong)
    fix i assume "i \<in> {k * b..<Suc k * b}"
    then have "i div b = k"
      by (intro div_nat_eqI) (auto simp: mult.commute)
    then show "f (i div b) = f k" by simp
  qed simp
  then have "(\<Sum>i<Suc k * b. f (i div b)) = (\<Sum>i<k * b. f (i div b)) + f k * b"
    unfolding split by (subst sum.union_disjoint) (auto simp: mult.commute)
  with Suc.IH show ?case by simp
qed simp

lemma sum_blocks_prefix:
  assumes "k * b \<le> n" and "n \<le> Suc k * b"
  shows "(\<Sum>i<n. f (i div b)) = (\<Sum>e<k. f e * b) + f k * (n - k * (b :: nat))"
proof -
  have split: "{..<n} = {..<k * b} \<union> {k * b..<n}"
    using assms by auto
  have "(\<Sum>i = k * b..<n. f (i div b)) = (\<Sum>i = k * b..<n. f k)"
  proof (rule sum.cong)
    fix i assume "i \<in> {k * b..<n}"
    with assms(2) have "i div b = k"
      by (intro div_nat_eqI) (auto simp: mult.commute)
    then show "f (i div b) = f k" by simp
  qed simp
  then have "(\<Sum>i<n. f (i div b)) = (\<Sum>i<k * b. f (i div b)) + f k * (n - k * b)"
    unfolding split by (subst sum.union_disjoint) (auto simp: mult.commute)
  then show ?thesis by (simp add: sum_full_blocks)
qed

section \<open>The operations compute the reference\<close>

definition valid_schedule :: "EmissionSchedule \<Rightarrow> bool" where
  "valid_schedule s \<longleftrightarrow> (\<exists>c l t. NewEmissionSchedule c l t = Inr s)"

abbreviation cap_n :: "EmissionSchedule \<Rightarrow> nat" where
  "cap_n s \<equiv> unat (es_MiningCapDust s)"

abbreviation blocks_n :: "EmissionSchedule \<Rightarrow> nat" where
  "blocks_n s \<equiv> unat (es_BlocksPerEpoch s)"

lemma valid_schedule_blocks:
  assumes "valid_schedule s"
  shows "es_BlocksPerEpoch s \<noteq> 0" and "0 < blocks_n s"
proof -
  from assms obtain l t where t: "l \<noteq> 0" "l mod t = 0" "es_BlocksPerEpoch s = l div t"
    unfolding valid_schedule_def NewEmissionSchedule_def
    by (metis Inl_Inr_False Inr_inject select_convs(4))
  have "unat l = unat (l div t) * unat t + unat (l mod t)"
    by (simp add: unat_div unat_mod)
  with t(1,2) have "unat (l div t) \<noteq> 0"
    by (metis add_0_right mult_zero_left unat_eq_zero)
  with t(3) show "0 < blocks_n s" by simp
  then show "es_BlocksPerEpoch s \<noteq> 0" by auto
qed

lemma EpochForHeight_unat:
  assumes "es_BlocksPerEpoch s \<noteq> 0"
  shows "\<exists>e. EpochForHeight s h = Some e \<and> unat e = min 64 ((unat h - 1) div blocks_n s)"
proof (cases "h = 0")
  case True
  then show ?thesis by (simp add: EpochForHeight_def)
next
  case False
  then have h: "unat (h - 1) = unat h - 1"
    by (simp add: unat_minus_one)
  let ?e = "(h - 1) div es_BlocksPerEpoch s"
  have e: "unat ?e = (unat h - 1) div blocks_n s"
    by (simp add: unat_div h)
  show ?thesis
  proof (cases "64 \<le> unat ?e")
    case True
    then have "(64 :: u64) \<le> ?e" by (simp add: word_le_nat_alt)
    with True e False assms show ?thesis
      by (simp add: EpochForHeight_def MaxHalvings_def)
  next
    case small: False
    then have "\<not> (64 :: u64) \<le> ?e" by (simp add: word_le_nat_alt)
    moreover have "unat (ucast ?e :: u32) = unat ?e"
      using small by (simp add: unsigned_ucast_eq take_bit_nat_eq_self)
    ultimately show ?thesis
      using e False assms small by (simp add: EpochForHeight_def MaxHalvings_def)
  qed
qed

lemma EpochAllocationDust_unat: "unat (EpochAllocationDust s e) = epoch_alloc (cap_n s) (unat e)"
proof (cases "63 \<le> e")
  case True
  then show ?thesis
    by (simp add: EpochAllocationDust_def epoch_alloc_def word_le_nat_alt)
next
  case False
  then have e: "unat e < 63" by (simp add: word_le_nat_alt)
  have uc: "unat (ucast e :: u64) = unat e"
    using e by (simp add: unsigned_ucast_eq take_bit_nat_eq_self)
  then have "unat (ucast e + 1 :: u64) = Suc (unat e)"
    using e by (subst unat_Suc_fits) auto
  moreover have "unat (push_bit (Suc (unat e)) (1 :: u64)) = 2 ^ Suc (unat e)"
  proof -
    have "(2 :: nat) ^ Suc (unat e) < 2 ^ 64"
      using e by (intro power_strict_increasing) auto
    then have "unat (of_nat (2 ^ Suc (unat e)) :: u64) = 2 ^ Suc (unat e)"
      by (simp add: unat_of_nat del: power_Suc of_nat_power)
    then show ?thesis
      by (simp add: push_bit_eq_mult del: power_Suc)
  qed
  ultimately show ?thesis
    using False e by (simp add: EpochAllocationDust_def epoch_alloc_def unat_div del: power_Suc)
qed

lemma full_epochs_Suc:
  "full_epochs s (Suc n) =
     full_epochs s n + EpochAllocationDust s (of_nat n) div es_BlocksPerEpoch s * es_BlocksPerEpoch s"
  by (simp add: full_epochs_def)

lemma full_epochs_unat:
  assumes "n \<le> 64"
  shows "unat (full_epochs s n) = (\<Sum>e<n. block_reward (cap_n s) (blocks_n s) e * blocks_n s)"
  using assms
proof (induction n)
  case 0
  show ?case by (simp add: full_epochs_def)
next
  case (Suc n)
  let ?c = "cap_n s" and ?b = "blocks_n s"
  let ?r = "EpochAllocationDust s (of_nat n) div es_BlocksPerEpoch s"
  have "unat (of_nat n :: u32) = n"
    using Suc.prems by (simp add: unat_of_nat)
  then have r: "unat ?r = block_reward ?c ?b n"
    by (simp add: unat_div EpochAllocationDust_unat block_reward_def)
  have le: "(\<Sum>e<Suc n. block_reward ?c ?b e * ?b) \<le> ?c"
    by (rule sum_epoch_rewards_le)
  then have fits: "(\<Sum>e<n. block_reward ?c ?b e * ?b) + block_reward ?c ?b n * ?b < 2 ^ LENGTH(64)"
    using le_unat_fits [OF le] by simp
  then have rb: "unat (?r * es_BlocksPerEpoch s) = block_reward ?c ?b n * ?b"
    by (subst unat_times_fits) (simp_all add: r)
  have "unat (full_epochs s (Suc n)) = unat (full_epochs s n) + block_reward ?c ?b n * ?b"
    unfolding full_epochs_Suc using Suc fits rb by (subst unat_plus_fits) simp_all
  with Suc show ?case by simp
qed

lemma block_reward_late: "63 \<le> e \<Longrightarrow> block_reward c b e = 0"
  by (simp add: block_reward_def epoch_alloc_def)

text \<open>Every operation is total on a valid schedule and computes the reference.\<close>

lemma BlockRewardDust_unat:
  assumes "valid_schedule s"
  shows "\<exists>r. BlockRewardDust s h = Some r \<and>
    unat r = (if h = 0 then 0 else block_reward (cap_n s) (blocks_n s) ((unat h - 1) div blocks_n s))"
proof -
  from EpochForHeight_unat valid_schedule_blocks(1) [OF assms]
  obtain e where e: "EpochForHeight s h = Some e" "unat e = min 64 ((unat h - 1) div blocks_n s)"
    by blast
  show ?thesis
  proof (cases "64 \<le> unat e")
    case True
    then have "64 \<le> e" by (simp add: word_le_nat_alt)
    with True e show ?thesis
      by (simp add: BlockRewardDust_def MaxHalvings_def block_reward_late)
  next
    case False
    then have "\<not> 64 \<le> e" by (simp add: word_le_nat_alt)
    with False e show ?thesis
      by (simp add: BlockRewardDust_def MaxHalvings_def unat_div EpochAllocationDust_unat
          block_reward_def)
  qed
qed

lemma CumulativeEmittedDust_unat:
  assumes "valid_schedule s"
  shows "\<exists>t. CumulativeEmittedDust s h = Some t \<and>
    unat t = (\<Sum>i<unat h. block_reward (cap_n s) (blocks_n s) (i div blocks_n s))"
proof (cases "h = 0")
  case True
  then show ?thesis by (simp add: CumulativeEmittedDust_def)
next
  case False
  let ?c = "cap_n s" and ?b = "blocks_n s" and ?n = "unat h"
  let ?r = "block_reward ?c ?b"
  let ?k = "(?n - 1) div ?b"
  from False have n: "0 < ?n" by (simp add: unat_gt_0)
  have b: "0 < ?b" by (rule valid_schedule_blocks(2) [OF assms])
  obtain e where e: "EpochForHeight s h = Some e" "unat e = min 64 ?k"
    using EpochForHeight_unat valid_schedule_blocks(1) [OF assms] by blast
  have k: "?k * ?b \<le> ?n" "?n \<le> Suc ?k * ?b"
    using n div_times_less_eq_dividend [of "?n - 1" ?b] dividend_less_div_times [OF b, of "?n - 1"]
    by (simp_all del: div_times_less_eq_dividend)
  have sum_le: "(\<Sum>e<m. ?r e * ?b) \<le> ?c" for m
    by (rule sum_epoch_rewards_le)
  show ?thesis
  proof (cases "64 \<le> ?k")
    case True
    with e(2) have "unat e = unat (64 :: u32)" by simp
    then have eq: "e = 64" by (simp only: word_unat_eq_iff)
    have "(\<Sum>i<?n. ?r (i div ?b)) = (\<Sum>e<?k. ?r e * ?b)"
      using sum_blocks_prefix [OF k, of ?r] True by (simp add: block_reward_late)
    also have "\<dots> = (\<Sum>e<64. ?r e * ?b)"
      using True by (intro sum.mono_neutral_right) (auto simp: block_reward_late)
    finally show ?thesis
      using False e(1) eq by (simp add: CumulativeEmittedDust_def MaxHalvings_def full_epochs_unat)
  next
    case False
    then have lt: "unat e < 64" and ue: "unat e = ?k" using e(2) by auto
    then have e64: "e < 64" "min e 64 = e"
      by (simp_all add: word_less_nat_alt min_def word_le_nat_alt)
    have uc: "unat (ucast e :: u64) = ?k"
      using lt ue by (simp add: unsigned_ucast_eq take_bit_nat_eq_self)
    have mul: "unat (ucast e * es_BlocksPerEpoch s :: u64) = ?k * ?b"
      using le_unat_u64 [OF k(1)] uc by (subst unat_times_fits) simp_all
    then have into: "unat (h - ucast e * es_BlocksPerEpoch s) = ?n - ?k * ?b"
      using k(1) by (simp add: unat_minus_le word_le_nat_alt)
    let ?w = "EpochAllocationDust s e div es_BlocksPerEpoch s"
    have w: "unat ?w = ?r ?k"
      by (simp add: unat_div EpochAllocationDust_unat block_reward_def ue)
    have "?r ?k * (?n - ?k * ?b) \<le> ?r ?k * ?b"
      using k(2) by (intro mult_le_mono) auto
    then have tot: "(\<Sum>e<?k. ?r e * ?b) + ?r ?k * (?n - ?k * ?b) \<le> ?c"
      using sum_le [of "Suc ?k"] by (simp only: sum.lessThan_Suc)
    from le_unat_u64 [OF tot]
    have part: "unat (?w * (h - ucast e * es_BlocksPerEpoch s)) = ?r ?k * (?n - ?k * ?b)"
      using w into by (subst unat_times_fits) simp_all
    have "unat (full_epochs s (unat e) + ?w * (h - ucast e * es_BlocksPerEpoch s)) =
        (\<Sum>e<?k. ?r e * ?b) + ?r ?k * (?n - ?k * ?b)"
      using part le_unat_u64 [OF tot] ue lt
      by (subst unat_plus_fits) (simp_all add: full_epochs_unat)
    then show ?thesis
      using \<open>h \<noteq> 0\<close> e(1) e64 sum_blocks_prefix [OF k, of ?r]
      by (simp add: CumulativeEmittedDust_def MaxHalvings_def Let_def)
  qed
qed

lemma DefaultEmissionSchedule_ok:
  "\<exists>s. DefaultEmissionSchedule = Some s \<and> valid_schedule s \<and>
     es_MiningCapDust s = CellMiningCapDust \<and> es_BlocksPerEpoch s = 12623040"
proof -
  have "\<exists>s. NewEmissionSchedule CellMiningCapDust EpochLengthSeconds DefaultTargetBlockTimeSeconds = Inr s
      \<and> es_MiningCapDust s = CellMiningCapDust \<and> es_BlocksPerEpoch s = 12623040"
    by (simp add: NewEmissionSchedule_def emission_consts)
  then show ?thesis
    unfolding DefaultEmissionSchedule_def valid_schedule_def by (metis sum.case(2))
qed

lemma valid_scheduleI: "NewEmissionSchedule c l t = Inr s \<Longrightarrow> valid_schedule s"
  by (auto simp: valid_schedule_def)

lemma NewEmissionSchedule_cap: "NewEmissionSchedule c l t = Inr s \<Longrightarrow> es_MiningCapDust s = c"
  by (auto simp: NewEmissionSchedule_def split: if_splits)

lemma unat_of_nat_le: "i \<le> unat (h :: u64) \<Longrightarrow> unat (of_nat i :: u64) = i"
  using le_unat_u64 [of i h] by (simp add: unat_of_nat)

lemma sum_of_rewards:
  fixes h :: u64
  assumes "valid_schedule s"
  shows "(\<Sum>i = 1..unat h. unat (the (BlockRewardDust s (of_nat i)))) =
         (\<Sum>i<unat h. block_reward (cap_n s) (blocks_n s) (i div blocks_n s))"
proof -
  have "(\<Sum>i = 1..unat h. unat (the (BlockRewardDust s (of_nat i)))) =
        (\<Sum>i = 1..unat h. block_reward (cap_n s) (blocks_n s) ((i - 1) div blocks_n s))"
  proof (rule sum.cong)
    fix i assume i: "i \<in> {1..unat h}"
    then have u: "unat (of_nat i :: u64) = i" using unat_of_nat_le [of i h] by simp
    then have "(of_nat i :: u64) \<noteq> 0" using i by (metis atLeastAtMost_iff not_one_le_zero unat_0)
    with BlockRewardDust_unat [OF assms, of "of_nat i"] u
    show "unat (the (BlockRewardDust s (of_nat i))) =
        block_reward (cap_n s) (blocks_n s) ((i - 1) div blocks_n s)"
      by auto
  qed simp
  also have "\<dots> = (\<Sum>i<unat h. block_reward (cap_n s) (blocks_n s) (i div blocks_n s))"
    by (rule sum.reindex_bij_witness [of _ Suc "\<lambda>i. i - 1"]) auto
  finally show ?thesis .
qed

lemma sum_rewards_le_cap:
  "(\<Sum>i<n. block_reward c b (i div b)) \<le> c" if "0 < (b :: nat)"
proof -
  let ?k = "n div b"
  have "?k * b \<le> n" "n \<le> Suc ?k * b"
    using that dividend_less_div_times [OF that, of n] by (simp_all add: less_imp_le)
  then have "(\<Sum>i<n. block_reward c b (i div b)) =
      (\<Sum>e<?k. block_reward c b e * b) + block_reward c b ?k * (n - ?k * b)"
    by (rule sum_blocks_prefix)
  also have "\<dots> \<le> (\<Sum>e<Suc ?k. block_reward c b e * b)"
    using \<open>n \<le> Suc ?k * b\<close> by (simp add: le_diff_conv)
  also have "\<dots> \<le> c" by (rule sum_epoch_rewards_le)
  finally show ?thesis .
qed

section \<open>Properties\<close>

text \<open>
  C13. The closed form \<open>CumulativeEmittedDust\<close> (at most 64 iterations) is exactly the sum of the
  per-block rewards \<open>BlockRewardDust\<close> of heights 1 to \<open>h\<close>: for every schedule \<open>NewEmissionSchedule\<close>
  accepts and every height it returns (no division by zero), and no 64-bit product or sum of the
  walk wraps around.
\<close>

theorem cumulative_is_sum_of_rewards:
  assumes "NewEmissionSchedule c l t = Inr s"
  shows "\<exists>e. CumulativeEmittedDust s h = Some e \<and>
    unat e = (\<Sum>i = 1..unat h. unat (the (BlockRewardDust s (of_nat i))))"
  using CumulativeEmittedDust_unat [OF valid_scheduleI [OF assms], of h]
    sum_of_rewards [OF valid_scheduleI [OF assms], of h]
  by simp

theorem cumulative_is_sum_of_rewards_witness:
  "NewEmissionSchedule CellMiningCapDust EpochLengthSeconds DefaultTargetBlockTimeSeconds =
     Inr \<lparr>es_MiningCapDust = 9000000000000000, es_EpochLengthSeconds = 126230400,
          es_TargetBlockTimeSeconds = 10, es_BlocksPerEpoch = 12623040\<rparr> \<and>
   (\<exists>e. CumulativeEmittedDust \<lparr>es_MiningCapDust = 9000000000000000,
          es_EpochLengthSeconds = 126230400, es_TargetBlockTimeSeconds = 10,
          es_BlocksPerEpoch = 12623040\<rparr> 2 = Some e \<and>
     unat e = (\<Sum>i = 1..unat (2 :: u64). unat (the (BlockRewardDust
       \<lparr>es_MiningCapDust = 9000000000000000, es_EpochLengthSeconds = 126230400,
        es_TargetBlockTimeSeconds = 10, es_BlocksPerEpoch = 12623040\<rparr> (of_nat i)))))"
proof -
  have h: "NewEmissionSchedule CellMiningCapDust EpochLengthSeconds DefaultTargetBlockTimeSeconds =
     Inr \<lparr>es_MiningCapDust = 9000000000000000, es_EpochLengthSeconds = 126230400,
          es_TargetBlockTimeSeconds = 10, es_BlocksPerEpoch = 12623040\<rparr>"
    by (simp add: NewEmissionSchedule_def emission_consts)
  show ?thesis using h cumulative_is_sum_of_rewards [OF h, of 2] by blast
qed

text \<open>
  C14. Mining never emits more than the cap: on every schedule \<open>NewEmissionSchedule\<close> accepts and at
  every height, what has been emitted and what \<open>RemainingSupplyDust\<close> reports add up to exactly the
  schedule's cap, so the remainder is never clamped. What has been emitted never falls as the height grows.
\<close>

theorem emission_within_cap:
  assumes "NewEmissionSchedule c l t = Inr s"
  shows "\<exists>e r. CumulativeEmittedDust s h = Some e \<and> RemainingSupplyDust s h = Some r \<and>
    e \<le> c \<and> unat e + unat r = unat c \<and>
    (\<forall>h' \<ge> h. \<exists>e'. CumulativeEmittedDust s h' = Some e' \<and> e \<le> e')"
proof -
  have v: "valid_schedule s" and c: "es_MiningCapDust s = c"
    using assms by (auto intro: valid_scheduleI NewEmissionSchedule_cap)
  obtain e where e: "CumulativeEmittedDust s h = Some e"
      "unat e = (\<Sum>i<unat h. block_reward (cap_n s) (blocks_n s) (i div blocks_n s))"
    using CumulativeEmittedDust_unat [OF v] by blast
  have "unat e \<le> unat c"
    using e(2) c sum_rewards_le_cap [OF valid_schedule_blocks(2) [OF v]] by simp
  then have le: "e \<le> c" by (simp add: word_le_nat_alt)
  moreover have "\<exists>e'. CumulativeEmittedDust s h' = Some e' \<and> e \<le> e'" if "h \<le> h'" for h'
  proof -
    obtain e' where e': "CumulativeEmittedDust s h' = Some e'"
        "unat e' = (\<Sum>i<unat h'. block_reward (cap_n s) (blocks_n s) (i div blocks_n s))"
      using CumulativeEmittedDust_unat [OF v] by blast
    have "unat e \<le> unat e'"
      unfolding e(2) e'(2) using that by (intro sum_mono2) (auto simp: word_le_nat_alt)
    with e'(1) show ?thesis by (simp add: word_le_nat_alt)
  qed
  ultimately show ?thesis
    using e(1) c by (cases "c \<le> e") (auto simp: RemainingSupplyDust_def unat_minus_le word_le_nat_alt)
qed

theorem emission_within_cap_witness:
  "NewEmissionSchedule 1000 100 10 = Inr \<lparr>es_MiningCapDust = 1000, es_EpochLengthSeconds = 100,
      es_TargetBlockTimeSeconds = 10, es_BlocksPerEpoch = 10\<rparr> \<and>
   (\<exists>e r. CumulativeEmittedDust \<lparr>es_MiningCapDust = 1000, es_EpochLengthSeconds = 100,
      es_TargetBlockTimeSeconds = 10, es_BlocksPerEpoch = 10\<rparr> 25 = Some e \<and>
     RemainingSupplyDust \<lparr>es_MiningCapDust = 1000, es_EpochLengthSeconds = 100,
      es_TargetBlockTimeSeconds = 10, es_BlocksPerEpoch = 10\<rparr> 25 = Some r \<and>
     e \<le> 1000 \<and> unat e + unat r = unat (1000 :: u64) \<and>
     (\<exists>e'. CumulativeEmittedDust \<lparr>es_MiningCapDust = 1000, es_EpochLengthSeconds = 100,
        es_TargetBlockTimeSeconds = 10, es_BlocksPerEpoch = 10\<rparr> 30 = Some e' \<and> e \<le> e'))"
proof -
  have h: "NewEmissionSchedule 1000 100 10 = Inr \<lparr>es_MiningCapDust = 1000,
      es_EpochLengthSeconds = 100, es_TargetBlockTimeSeconds = 10, es_BlocksPerEpoch = 10\<rparr>"
    by (simp add: NewEmissionSchedule_def)
  have "(25 :: u64) \<le> 30" by simp
  then show ?thesis using h emission_within_cap [OF h, of 25] by metis
qed

lemma EpochForHeight_eqI:
  assumes "valid_schedule s" and "min 64 ((unat h - 1) div blocks_n s) = unat e"
  shows "EpochForHeight s h = Some e"
proof -
  obtain e' where "EpochForHeight s h = Some e'" "unat e' = unat e"
    using EpochForHeight_unat [OF valid_schedule_blocks(1) [OF assms(1)], of h] assms(2) by auto
  then show ?thesis by (simp only: option.inject word_unat_eq_iff)
qed

text \<open>
  \<open>NextHalvingHeight\<close> names the first block of the next epoch: below the final halving, and
  where that height fits 64 bits, the block at the returned height is in the epoch after the one of
  \<open>h\<close>, the block just before it is still in the epoch of \<open>h\<close>, and the height lies above \<open>h\<close>.
\<close>

theorem next_halving_is_boundary:
  assumes "NewEmissionSchedule c l t = Inr s" and "EpochForHeight s h = Some e" and "e < MaxHalvings"
    and fits: "(unat e + 1) * unat (es_BlocksPerEpoch s) + 1 < 2 ^ 64"
  shows "\<exists>n. NextHalvingHeight s h = Some n \<and> h < n \<and>
    EpochForHeight s n = Some (e + 1) \<and> EpochForHeight s (n - 1) = Some e"
proof -
  let ?b = "blocks_n s"
  have v: "valid_schedule s" by (rule valid_scheduleI [OF assms(1)])
  note b = valid_schedule_blocks [OF v]
  from assms(2,3) EpochForHeight_unat [OF b(1), of h]
  have ue: "unat e = (unat h - 1) div ?b" and e64: "unat e < 64"
    by (auto simp: MaxHalvings_def word_less_nat_alt)
  have ue1: "unat (e + 1) = unat e + 1"
    using e64 by (subst unat_Suc_fits) simp_all
  then have uc: "unat (ucast (e + 1) :: u64) = unat e + 1"
    using e64 by (simp add: unsigned_ucast_eq take_bit_nat_eq_self)
  let ?n = "ucast (e + 1) * es_BlocksPerEpoch s + 1"
  have mul: "unat (ucast (e + 1) * es_BlocksPerEpoch s :: u64) = (unat e + 1) * ?b"
    using fits uc by (subst unat_times_fits) simp_all
  then have n: "unat ?n = (unat e + 1) * ?b + 1"
    using fits by (subst unat_Suc_fits) simp_all
  have "\<not> MaxHalvings \<le> e" using assms(3) by simp
  then have nxt: "NextHalvingHeight s h = Some ?n"
    using assms(2) by (simp add: NextHalvingHeight_def)
  have "unat h - 1 < (unat e + 1) * ?b"
    using ue dividend_less_div_times [OF b(2), of "unat h - 1"] by simp
  then have above: "h < ?n" using n by (simp add: word_less_nat_alt)
  have "min 64 ((unat ?n - 1) div ?b) = unat (e + 1)"
    using n b(2) e64 ue1 by simp
  then have at: "EpochForHeight s ?n = Some (e + 1)"
    by (rule EpochForHeight_eqI [OF v])
  have "((unat e + 1) * ?b - 1) div ?b = unat e"
    using b(2) by (intro div_nat_eqI) (auto simp: mult.commute)
  then have "min 64 ((unat (?n - 1) - 1) div ?b) = unat e"
    using mul e64 by simp
  then have "EpochForHeight s (?n - 1) = Some e"
    by (rule EpochForHeight_eqI [OF v])
  with nxt above at show ?thesis by blast
qed

theorem next_halving_is_boundary_witness:
  "\<exists>s. NewEmissionSchedule 1000 100 10 = Inr s \<and> EpochForHeight s 7 = Some 0 \<and> 0 < MaxHalvings \<and>
     (unat (0 :: u32) + 1) * unat (es_BlocksPerEpoch s) + 1 < 2 ^ 64 \<and>
     (\<exists>n. NextHalvingHeight s 7 = Some n \<and> 7 < n \<and>
        EpochForHeight s n = Some (0 + 1) \<and> EpochForHeight s (n - 1) = Some 0)"
proof -
  let ?s = "\<lparr>es_MiningCapDust = 1000, es_EpochLengthSeconds = 100,
      es_TargetBlockTimeSeconds = 10, es_BlocksPerEpoch = 10\<rparr>"
  have h: "NewEmissionSchedule 1000 100 10 = Inr ?s" "EpochForHeight ?s 7 = Some 0"
      "0 < MaxHalvings" "(unat (0 :: u32) + 1) * unat (es_BlocksPerEpoch ?s) + 1 < 2 ^ 64"
    by (simp_all add: NewEmissionSchedule_def EpochForHeight_def MaxHalvings_def)
  show ?thesis using h next_halving_is_boundary [OF h] by blast
qed

lemma sum_rewards_lower:
  "c * (2 ^ n - 1) \<le> 2 ^ n * ((\<Sum>e<n. c div 2 ^ Suc e div b * b) + n * b)" if "0 < (b :: nat)"
proof (induction n)
  case (Suc n)
  let ?q = "c div 2 ^ Suc n" and ?S = "\<Sum>e<n. c div 2 ^ Suc e div b * b"
  have "c < 2 ^ Suc n * (c div (2 ^ Suc n * b) * b + b)"
    using dividend_less_div_times [of "2 ^ Suc n * b" c] that by (simp add: algebra_simps)
  then have "c \<le> 2 ^ Suc n * (?q div b * b + b)"
    by (simp add: div_mult2_eq)
  moreover have "c * (2 ^ Suc n - 1) = 2 * (c * (2 ^ n - 1)) + c"
    by (simp add: diff_mult_distrib2 algebra_simps)
  moreover have "2 * (c * (2 ^ n - 1)) \<le> 2 ^ Suc n * (?S + n * b)"
    using Suc.IH by simp
  ultimately have "c * (2 ^ Suc n - 1) \<le> 2 ^ Suc n * (?S + n * b) + 2 ^ Suc n * (?q div b * b + b)"
    by linarith
  then show ?case by (simp add: algebra_simps)
qed simp

text \<open>
  \<open>ConvergenceCheck\<close> never panics on a schedule \<open>NewEmissionSchedule\<close> accepts: emission run to the
  last halving stays within the cap, and what integer division forfeits is at most \<open>MaxHalvings\<close>
  times \<open>BlocksPerEpoch\<close> dust, the truncation budget the source states.
\<close>

theorem convergence_check_remainder:
  assumes "NewEmissionSchedule c l t = Inr s"
  shows "\<exists>r. ConvergenceCheck s = Some r \<and>
    unat r \<le> unat MaxHalvings * unat (es_BlocksPerEpoch s)"
proof -
  have v: "valid_schedule s" by (rule valid_scheduleI [OF assms])
  note b = valid_schedule_blocks [OF v]
  let ?c = "cap_n s" and ?b = "blocks_n s" and ?u = "full_epochs s 64"
  let ?S = "\<Sum>e<63. ?c div 2 ^ Suc e div ?b * ?b"
  have u: "unat ?u = (\<Sum>e<64. block_reward ?c ?b e * ?b)"
    by (simp add: full_epochs_unat)
  have "(\<Sum>e<64. block_reward ?c ?b e * ?b) = (\<Sum>e<63. block_reward ?c ?b e * ?b)"
    by (intro sum.mono_neutral_right) (auto simp: block_reward_late)
  also have "\<dots> = ?S"
    by (rule sum.cong) (simp_all add: block_reward_def epoch_alloc_def)
  finally have uS: "unat ?u = ?S" using u by simp
  have le: "unat ?u \<le> ?c"
    using u sum_epoch_rewards_le [of ?c ?b 64] by simp
  have "?c * (2 ^ 63 - 1) \<le> 2 ^ 63 * (?S + 63 * ?b)"
    using sum_rewards_lower [OF b(2), of ?c 63] by simp
  moreover have "?c < 2 ^ 64" using unat_bound [of "es_MiningCapDust s"] by simp
  ultimately have "?c \<le> ?S + 63 * ?b + 1" by simp
  then have "unat (es_MiningCapDust s - ?u) \<le> 64 * ?b"
    using le uS b(2) by (simp add: unat_minus_le word_le_nat_alt)
  moreover have "ConvergenceCheck s = Some (es_MiningCapDust s - ?u)"
    using b(1) le
    by (simp add: ConvergenceCheck_def UltimateCumulativeEmissionDust_def MaxHalvings_def
        word_less_nat_alt)
  ultimately show ?thesis by (simp add: MaxHalvings_def)
qed

theorem convergence_check_remainder_witness:
  "\<exists>s. NewEmissionSchedule CellMiningCapDust EpochLengthSeconds DefaultTargetBlockTimeSeconds = Inr s \<and>
     (\<exists>r. ConvergenceCheck s = Some r \<and> unat r \<le> unat MaxHalvings * unat (es_BlocksPerEpoch s))"
proof -
  have "\<exists>s. NewEmissionSchedule CellMiningCapDust EpochLengthSeconds DefaultTargetBlockTimeSeconds = Inr s"
    by (simp add: NewEmissionSchedule_def emission_consts)
  then show ?thesis using convergence_check_remainder by blast
qed

end
