(* ===== verification/Float64.thy ===== *)
theory Float64
  imports Go_Prelude "HOL-Library.Log_Nat"
begin

text \<open>
  Go's \<open>float64\<close>: IEEE 754 binary64 with rounding to nearest, ties to even. A finite value is its
  exact rational; every operation computes the exact rational result and rounds it once (\<open>rnd\<close>), so
  the arithmetic is executable and the loss of precision the account layer is about is visible. The
  two zeros are one value: no comparison, sum, difference or conversion the source performs on a
  balance tells them apart. Comparisons with NaN are false, as in Go.
\<close>

section \<open>Rounding\<close>

subsection \<open>Round half to even\<close>

definition rne :: "rat \<Rightarrow> int" where
  "rne x = (let f = \<lfloor>x\<rfloor>; d = x - of_int f
            in if d < 1 / 2 then f else if 1 / 2 < d then f + 1 else if even f then f else f + 1)"

lemma rne_int [simp]: "rne (of_int n) = n"
  by (simp add: rne_def)

lemma rne_bounds: "of_int (rne x) \<le> x + 1 / 2" "x - 1 / 2 \<le> of_int (rne x)"
proof -
  have f: "of_int \<lfloor>x\<rfloor> \<le> x" "x < of_int \<lfloor>x\<rfloor> + 1"
    using floor_correct [of x] by simp_all
  show "of_int (rne x) \<le> x + 1 / 2" "x - 1 / 2 \<le> of_int (rne x)"
    unfolding rne_def Let_def using f by (simp_all only: of_int_add of_int_1 split: if_split) linarith+
qed

lemma rne_floor_cases: "rne x = \<lfloor>x\<rfloor> \<or> rne x = \<lfloor>x\<rfloor> + 1"
  by (simp add: rne_def Let_def)

lemma rne_mono:
  assumes "x \<le> y"
  shows "rne x \<le> rne y"
proof (cases "\<lfloor>x\<rfloor> = \<lfloor>y\<rfloor>")
  case True
  then show ?thesis using assms by (auto simp: rne_def Let_def)
next
  case False
  with floor_mono [OF assms] have "\<lfloor>x\<rfloor> + 1 \<le> \<lfloor>y\<rfloor>" by simp
  then show ?thesis using rne_floor_cases [of x] rne_floor_cases [of y] by auto
qed

lemma rne_le_int: "x \<le> of_int n \<Longrightarrow> rne x \<le> n"
  using rne_mono [of x "of_int n"] by simp

lemma int_le_rne: "of_int n \<le> x \<Longrightarrow> n \<le> rne x"
  using rne_mono [of "of_int n" x] by simp

subsection \<open>The binary exponent of a rational\<close>

definition ilog2 :: "rat \<Rightarrow> int" where
  "ilog2 x = (case quotient_of x of (p, q) \<Rightarrow>
     (let k = bitlen p - bitlen q in if 2 powi k \<le> x then k else k - 1))"

lemma bitlen_powi:
  assumes "0 < n"
  shows "(2 :: rat) powi (bitlen n - 1) \<le> of_int n" and "of_int n < (2 :: rat) powi (bitlen n)"
proof -
  have b: "2 ^ nat (bitlen n - 1) \<le> n \<and> n < 2 ^ nat (bitlen n)"
    by (rule bitlen_bounds [OF assms])
  have "0 < bitlen n" 
    using assms bitlen_nonneg [of n] bitlen_eq_zero_iff [of n] by linarith
  then have e: "(2 :: rat) powi (bitlen n - 1) = of_int (2 ^ nat (bitlen n - 1))"
      "(2 :: rat) powi (bitlen n) = of_int (2 ^ nat (bitlen n))"
    by (simp_all add: power_int_def)
  show "(2 :: rat) powi (bitlen n - 1) \<le> of_int n" and "of_int n < (2 :: rat) powi (bitlen n)"
    unfolding e of_int_le_iff of_int_less_iff using b by simp_all
qed

lemma ilog2_bounds:
  assumes "0 < x"
  shows "2 powi ilog2 x \<le> x" and "x < 2 powi (ilog2 x + 1)"
proof -
  obtain p q where pq: "quotient_of x = (p, q)" by fastforce
  have q: "0 < q" using quotient_of_denom_pos [OF pq] .
  have x: "x = of_int p / of_int q" using quotient_of_div [OF pq] .
  with assms q have p: "0 < p" by (simp add: zero_less_divide_iff)
  let ?k = "bitlen p - bitlen q"
  have "of_int p < (2 :: rat) powi bitlen p" by (rule bitlen_powi(2) [OF p])
  also have "(2 :: rat) powi bitlen p = 2 powi (?k + 1) * 2 powi (bitlen q - 1)"
    by (simp flip: power_int_add)
  also have "\<dots> \<le> 2 powi (?k + 1) * of_int q"
    using bitlen_powi(1) [OF q] by (intro mult_left_mono) simp_all
  finally have up: "x < 2 powi (?k + 1)"
    using q by (simp add: x divide_less_eq)
  have "(2 :: rat) powi (?k - 1) * of_int q \<le> 2 powi (?k - 1) * 2 powi bitlen q"
    using bitlen_powi(2) [OF q] by (intro mult_left_mono) simp_all
  also have "\<dots> = 2 powi (bitlen p - 1)"
    by (simp flip: power_int_add)
  also have "\<dots> \<le> of_int p" by (rule bitlen_powi(1) [OF p])
  finally have low: "2 powi (?k - 1) \<le> x"
    using q by (simp add: x le_divide_eq)
  show "2 powi ilog2 x \<le> x" and "x < 2 powi (ilog2 x + 1)"
    using up low by (auto simp: ilog2_def pq Let_def)
qed

lemma powi2_le_iff [simp]: "(2 :: rat) powi a \<le> 2 powi b \<longleftrightarrow> a \<le> b"
  by (metis linorder_not_less power_int_increasing power_int_strict_increasing one_le_numeral one_less_numeral_iff semiring_norm(76))

lemma powi2_less_iff [simp]: "(2 :: rat) powi a < 2 powi b \<longleftrightarrow> a < b"
  by (simp flip: not_le)

lemma ilog2_mono:
  assumes "0 < x" and "x \<le> y"
  shows "ilog2 x \<le> ilog2 y"
proof -
  have "2 powi ilog2 x < (2 :: rat) powi (ilog2 y + 1)"
    using ilog2_bounds(1) [of x] ilog2_bounds(2) [of y] assms by linarith
  then show ?thesis by simp
qed

lemma ilog2_unique:
  assumes "2 powi k \<le> x" and "x < 2 powi (k + 1)"
  shows "ilog2 x = k"
proof -
  have "(0 :: rat) < 2 powi k" by simp
  with assms(1) have x: "0 < x" by linarith
  have "2 powi ilog2 x < (2 :: rat) powi (k + 1)" "2 powi k < (2 :: rat) powi (ilog2 x + 1)"
    using assms ilog2_bounds [OF x] by linarith+
  then show ?thesis by simp
qed

subsection \<open>Rounding to binary64\<close>

text \<open>\<open>ulp_exp x\<close> is the exponent of the last mantissa bit of a value of magnitude \<open>x\<close>: 52 below the
  binary exponent, and never below the subnormal \<open>-1074\<close>.\<close>

definition ulp_exp :: "rat \<Rightarrow> int" where
  "ulp_exp x = max (ilog2 x - 52) (- 1074)"

definition rnd_mag :: "rat \<Rightarrow> rat" where
  "rnd_mag x = (let u = 2 powi ulp_exp x in of_int (rne (x / u)) * u)"

definition rnd_q :: "rat \<Rightarrow> rat" where
  "rnd_q x = (if x = 0 then 0 else if 0 < x then rnd_mag x else - rnd_mag (- x))"

lemma rnd_q_0 [simp]: "rnd_q 0 = 0"
  by (simp add: rnd_q_def)

lemma rnd_q_uminus: "rnd_q (- x) = - rnd_q x"
  by (auto simp: rnd_q_def)

lemma powi2_pos [simp]: "(0 :: rat) < 2 powi k"
  by simp

lemma rnd_mag_nonneg: "0 < x \<Longrightarrow> 0 \<le> rnd_mag x"
  unfolding rnd_mag_def Let_def
  by (intro mult_nonneg_nonneg) (auto intro!: int_le_rne [of 0, simplified])

lemma rnd_mag_bounds:
  assumes "0 < x"
  shows "rnd_mag x \<le> 2 powi (ulp_exp x + 53)"
    and "- 1074 < ulp_exp x \<Longrightarrow> 2 powi (ulp_exp x + 52) \<le> rnd_mag x"
proof -
  let ?u = "2 powi ulp_exp x :: rat"
  have p53: "(2 :: rat) powi (ulp_exp x + 53) = of_int (2 ^ 53) * ?u"
    and p52: "(2 :: rat) powi (ulp_exp x + 52) = of_int (2 ^ 52) * ?u"
    by (simp_all add: power_int_add)
  have "x < 2 powi (ilog2 x + 1)" by (rule ilog2_bounds(2) [OF assms])
  also have "\<dots> \<le> 2 powi (ulp_exp x + 53)" by (simp add: ulp_exp_def)
  finally have "x / ?u \<le> of_int (2 ^ 53)"
    unfolding p53 by (simp add: divide_le_eq)
  then have "rne (x / ?u) \<le> 2 ^ 53" by (rule rne_le_int)
  then have "(of_int (rne (x / ?u)) :: rat) \<le> of_int (2 ^ 53)" by (simp only: of_int_le_iff)
  then show "rnd_mag x \<le> 2 powi (ulp_exp x + 53)"
    unfolding p53 rnd_mag_def Let_def by (intro mult_right_mono) simp_all
  assume "- 1074 < ulp_exp x"
  then have "ulp_exp x + 52 = ilog2 x" by (auto simp: ulp_exp_def max_def split: if_splits)
  then have "2 powi (ulp_exp x + 52) \<le> x" using ilog2_bounds(1) [OF assms] by simp
  then have "of_int (2 ^ 52) \<le> x / ?u"
    unfolding p52 by (simp add: le_divide_eq)
  then have "2 ^ 52 \<le> rne (x / ?u)" by (rule int_le_rne)
  then have "(of_int (2 ^ 52) :: rat) \<le> of_int (rne (x / ?u))" by (simp only: of_int_le_iff)
  then show "2 powi (ulp_exp x + 52) \<le> rnd_mag x"
    unfolding p52 rnd_mag_def Let_def by (intro mult_right_mono) simp_all
qed

lemma rnd_mag_mono:
  assumes "0 < x" and "x \<le> y"
  shows "rnd_mag x \<le> rnd_mag y"
proof -
  have y: "0 < y" using assms by linarith
  have le: "ulp_exp x \<le> ulp_exp y"
    using ilog2_mono [OF assms] by (auto simp: ulp_exp_def)
  show ?thesis
  proof (cases "ulp_exp x = ulp_exp y")
    case True
    let ?u = "2 powi ulp_exp y :: rat"
    have "rne (x / ?u) \<le> rne (y / ?u)"
      using assms(2) by (intro rne_mono divide_right_mono) simp_all
    then have "(of_int (rne (x / ?u)) :: rat) \<le> of_int (rne (y / ?u))" by simp
    then show ?thesis
      unfolding rnd_mag_def Let_def True by (intro mult_right_mono) simp_all
  next
    case False
    with le have lt: "ulp_exp x < ulp_exp y" by simp
    moreover have "- 1074 \<le> ulp_exp x" by (simp add: ulp_exp_def)
    ultimately have "- 1074 < ulp_exp y" by simp
    have "rnd_mag x \<le> 2 powi (ulp_exp x + 53)" by (rule rnd_mag_bounds(1) [OF assms(1)])
    also have "\<dots> \<le> 2 powi (ulp_exp y + 52)" using lt by simp
    also have "\<dots> \<le> rnd_mag y" by (rule rnd_mag_bounds(2) [OF y]) fact
    finally show ?thesis .
  qed
qed

lemma rnd_q_nonneg: "0 \<le> x \<Longrightarrow> 0 \<le> rnd_q x"
  by (simp add: rnd_q_def rnd_mag_nonneg)

lemma rnd_q_mono:
  assumes "x \<le> y"
  shows "rnd_q x \<le> rnd_q y"
proof -
  consider "0 < x" | "x \<le> 0" "0 \<le> y" | "y < 0" using assms by linarith
  then show ?thesis
  proof cases
    case 1
    then show ?thesis using assms by (simp add: rnd_q_def rnd_mag_mono)
  next
    case 2
    then have "0 \<le> rnd_q y" "0 \<le> - rnd_q x"
      using rnd_q_nonneg [of "- x"] by (simp_all add: rnd_q_nonneg rnd_q_uminus)
    then show ?thesis by linarith
  next
    case 3
    then have "rnd_mag (- y) \<le> rnd_mag (- x)" using assms by (intro rnd_mag_mono) simp_all
    then show ?thesis using 3 assms by (simp add: rnd_q_def)
  qed
qed

text \<open>A rational is representable when it has a 53-bit mantissa and an exponent in range; rounding
  keeps such values and the error of rounding is at most half a unit in the last place.\<close>

definition representable :: "rat \<Rightarrow> bool" where
  "representable x \<longleftrightarrow> x = 0 \<or> (\<exists>m. x = of_int m * 2 powi ulp_exp \<bar>x\<bar>)"

lemma rnd_q_representable: "representable x \<Longrightarrow> rnd_q x = x"
proof (cases "x = 0")
  case False
  assume "representable x"
  with False obtain m where m: "x = of_int m * 2 powi ulp_exp \<bar>x\<bar>"
    by (auto simp: representable_def)
  let ?u = "2 powi ulp_exp \<bar>x\<bar> :: rat"
  have q: "x / ?u = of_int m" by (subst m) simp
  show ?thesis
  proof (cases "0 < x")
    case True
    with q m show ?thesis by (simp add: rnd_q_def rnd_mag_def)
  next
    case False
    have "- x / ?u = of_int (- m)" using q by simp
    with False \<open>x \<noteq> 0\<close> m show ?thesis by (simp add: rnd_q_def rnd_mag_def del: of_int_minus minus_divide_left)
  qed
qed simp

lemma rnd_mag_error:
  assumes "0 < x"
  shows "\<bar>rnd_mag x - x\<bar> \<le> 2 powi (ulp_exp x - 1)"
proof -
  let ?u = "2 powi ulp_exp x :: rat"
  have "\<bar>of_int (rne (x / ?u)) - x / ?u\<bar> \<le> 1 / 2"
    using rne_bounds [of "x / ?u"] unfolding abs_le_iff by linarith
  then have "\<bar>of_int (rne (x / ?u)) - x / ?u\<bar> * ?u \<le> 1 / 2 * ?u"
    by (intro mult_right_mono) simp_all
  moreover have "\<bar>of_int (rne (x / ?u)) - x / ?u\<bar> * ?u = \<bar>rnd_mag x - x\<bar>"
  proof -
    have "rnd_mag x - x = (of_int (rne (x / ?u)) - x / ?u) * ?u"
      by (simp add: rnd_mag_def Let_def left_diff_distrib)
    then show ?thesis by (simp add: abs_mult)
  qed
  moreover have "(2 :: rat) powi (ulp_exp x - 1) = 1 / 2 * ?u"
    by (simp add: power_int_diff)
  ultimately show ?thesis by simp
qed

section \<open>The type and its operations\<close>

datatype float64 = NaN | NInf | PInf | Fin rat

definition rnd :: "rat \<Rightarrow> float64" where
  "rnd x = (let y = rnd_q x
            in if 2 ^ 1024 \<le> y then PInf else if y \<le> - (2 ^ 1024) then NInf else Fin y)"

definition is_nan :: "float64 \<Rightarrow> bool" where
  "is_nan x \<longleftrightarrow> x = NaN"

definition is_inf :: "float64 \<Rightarrow> bool" where
  "is_inf x \<longleftrightarrow> x = PInf \<or> x = NInf"

instantiation float64 :: "{zero, one, plus, uminus, minus, times, inverse, ord}"
begin

definition zero_float64 :: float64 where "0 = Fin 0"

definition one_float64 :: float64 where "1 = Fin 1"

fun plus_float64 :: "float64 \<Rightarrow> float64 \<Rightarrow> float64" where
  "NaN + y = NaN"
| "x + NaN = NaN"
| "PInf + y = (if y = NInf then NaN else PInf)"
| "NInf + y = (if y = PInf then NaN else NInf)"
| "Fin a + PInf = PInf"
| "Fin a + NInf = NInf"
| "Fin a + Fin b = rnd (a + b)"

fun uminus_float64 :: "float64 \<Rightarrow> float64" where
  "- NaN = NaN"
| "- PInf = NInf"
| "- NInf = PInf"
| "- Fin a = Fin (- a)"

definition minus_float64 :: "float64 \<Rightarrow> float64 \<Rightarrow> float64" where
  "x - y = x + (- y :: float64)"

fun times_float64 :: "float64 \<Rightarrow> float64 \<Rightarrow> float64" where
  "Fin a * Fin b = rnd (a * b)"
| "NaN * y = NaN"
| "x * NaN = NaN"
| "Fin a * PInf = (if a = 0 then NaN else if 0 < a then PInf else NInf)"
| "Fin a * NInf = (if a = 0 then NaN else if 0 < a then NInf else PInf)"
| "PInf * Fin b = (if b = 0 then NaN else if 0 < b then PInf else NInf)"
| "NInf * Fin b = (if b = 0 then NaN else if 0 < b then NInf else PInf)"
| "PInf * PInf = PInf"
| "PInf * NInf = NInf"
| "NInf * PInf = NInf"
| "NInf * NInf = PInf"

fun divide_float64 :: "float64 \<Rightarrow> float64 \<Rightarrow> float64" where
  "divide_float64 (Fin a) (Fin b) =
     (if b = 0 then (if a = 0 then NaN else if 0 < a then PInf else NInf) else rnd (a / b))"
| "divide_float64 NaN y = NaN"
| "divide_float64 x NaN = NaN"
| "divide_float64 (Fin a) y = Fin 0"
| "divide_float64 PInf (Fin b) = (if 0 \<le> b then PInf else NInf)"
| "divide_float64 NInf (Fin b) = (if 0 \<le> b then NInf else PInf)"
| "divide_float64 x y = NaN"

definition inverse_float64 :: "float64 \<Rightarrow> float64" where
  "inverse_float64 x = 1 div x"

fun less_float64 :: "float64 \<Rightarrow> float64 \<Rightarrow> bool" where
  "NaN < y \<longleftrightarrow> False"
| "x < NaN \<longleftrightarrow> False"
| "PInf < y \<longleftrightarrow> False"
| "x < NInf \<longleftrightarrow> False"
| "NInf < y \<longleftrightarrow> True"
| "x < PInf \<longleftrightarrow> True"
| "Fin a < Fin b \<longleftrightarrow> a < b"

definition less_eq_float64 :: "float64 \<Rightarrow> float64 \<Rightarrow> bool" where
  "x \<le> y \<longleftrightarrow> x < y \<or> (x = y \<and> x \<noteq> (NaN :: float64))"

instance ..

end

text \<open>Go's \<open>==\<close>: equal values, and never NaN.\<close>

definition feq :: "float64 \<Rightarrow> float64 \<Rightarrow> bool" where
  "feq x y \<longleftrightarrow> x = y \<and> x \<noteq> NaN"

text \<open>\<open>float64(n)\<close> of an unsigned integer, and the literal \<open>q\<close>: both round to nearest.\<close>

definition f64_of_u64 :: "u64 \<Rightarrow> float64" where
  "f64_of_u64 n = rnd (of_nat (unat n))"

text \<open>\<open>uint64(x)\<close>: truncation; outside the range of the target Go leaves the value to the
  implementation, and \<open>oob\<close> stands for its choice.\<close>

definition f64_to_u64 :: "(float64 \<Rightarrow> u64) \<Rightarrow> float64 \<Rightarrow> u64" where
  "f64_to_u64 oob x = (case x of
     Fin a \<Rightarrow> if - 1 < a \<and> a < 2 ^ 64 then (if a < 0 then 0 else of_int \<lfloor>a\<rfloor>) else oob x
   | _ \<Rightarrow> oob x)"

subsection \<open>Package math\<close>

fun math_Floor :: "float64 \<Rightarrow> float64" where
  "math_Floor (Fin a) = Fin (of_int \<lfloor>a\<rfloor>)"
| "math_Floor x = x"

text \<open>Half away from zero.\<close>

fun math_Round :: "float64 \<Rightarrow> float64" where
  "math_Round (Fin a) = (if 0 \<le> a then Fin (of_int \<lfloor>a + 1 / 2\<rfloor>) else Fin (- of_int \<lfloor>- a + 1 / 2\<rfloor>))"
| "math_Round x = x"

fun math_Abs :: "float64 \<Rightarrow> float64" where
  "math_Abs (Fin a) = Fin \<bar>a\<bar>"
| "math_Abs NInf = PInf"
| "math_Abs x = x"

definition math_Max :: "float64 \<Rightarrow> float64 \<Rightarrow> float64" where
  "math_Max x y = (if x = PInf \<or> y = PInf then PInf
                   else if x = NaN \<or> y = NaN then NaN
                   else if y < x then x else y)"

text \<open>\<open>math.Nextafter(x, +Inf)\<close>: the least float64 above \<open>x\<close>.\<close>

fun math_NextUp :: "float64 \<Rightarrow> float64" where
  "math_NextUp (Fin a) =
     (if a = 0 then Fin (2 powi (- 1074))
      else if 0 < a then rnd (a + 2 powi ulp_exp a)
      else (let e = ulp_exp (- a)
            in if - a = 2 powi (e + 52) \<and> - 1074 < e then Fin (a + 2 powi (e - 1))
               else Fin (a + 2 powi e)))"
| "math_NextUp NInf = Fin (- (2 ^ 1024 - 2 ^ 971))"
| "math_NextUp x = x"

section \<open>Exact values\<close>

lemma representableI:
  assumes "\<bar>m\<bar> < 2 ^ 53" and "- 1074 \<le> e"
  shows "representable (of_int m * 2 powi e)"
proof (cases "m = 0")
  case False
  let ?x = "of_int m * 2 powi e :: rat"
  have pos: "0 < \<bar>?x\<bar>" using False by simp
  have "of_int \<bar>m\<bar> < (of_int (2 ^ 53) :: rat)" using assms(1) by (simp only: of_int_less_iff)
  then have "\<bar>?x\<bar> < 2 powi (e + 53)" by (simp add: abs_mult power_int_add)
  then have "2 powi ilog2 \<bar>?x\<bar> < (2 :: rat) powi (e + 53)"
    using ilog2_bounds(1) [OF pos] by linarith
  then have le: "ulp_exp \<bar>?x\<bar> \<le> e" using assms(2) by (simp add: ulp_exp_def)
  let ?d = "nat (e - ulp_exp \<bar>?x\<bar>)"
  define u where "u = ulp_exp \<bar>?x\<bar>"
  have "(2 :: rat) powi e = 2 powi (int ?d) * 2 powi u"
    using le unfolding u_def by (simp flip: power_int_add)
  then have "(2 :: rat) powi e = 2 ^ ?d * 2 powi u"
    by (simp only: power_int_of_nat)
  then have "?x = of_int (m * 2 ^ ?d) * 2 powi u" by simp
  then show ?thesis unfolding representable_def u_def by blast
qed (simp add: representable_def)

lemma representable_int:
  assumes "\<bar>n\<bar> \<le> 2 ^ 53"
  shows "representable (of_int n)"
proof (cases "\<bar>n\<bar> = 2 ^ 53")
  case True
  then have "n = 2 ^ 53 \<or> n = - (2 ^ 53)" by linarith
  then have "(of_int n :: rat) = of_int (2 ^ 52) * 2 powi 1 \<or>
      (of_int n :: rat) = of_int (- (2 ^ 52)) * 2 powi 1" by auto
  then show ?thesis
    using representableI [of "2 ^ 52" 1] representableI [of "- (2 ^ 52)" 1] by auto
next
  case False
  with assms representableI [of n 0] show ?thesis by simp
qed

lemma rnd_small: "representable x \<Longrightarrow> \<bar>x\<bar> < 2 ^ 1024 \<Longrightarrow> rnd x = Fin x"
  by (auto simp: rnd_def rnd_q_representable)

lemma rnd_of_int: "\<bar>n\<bar> \<le> 2 ^ 53 \<Longrightarrow> rnd (of_int n) = Fin (of_int n)"
proof (rule rnd_small)
  assume n: "\<bar>n\<bar> \<le> 2 ^ 53"
  then show "representable (of_int n)" by (rule representable_int)
  have "(2 :: rat) ^ 53 < 2 ^ 1024" by (rule power_strict_increasing) simp_all
  moreover have "of_int \<bar>n\<bar> \<le> (of_int (2 ^ 53) :: rat)" using n by (simp only: of_int_le_iff)
  ultimately show "\<bar>of_int n :: rat\<bar> < 2 ^ 1024" by simp
qed

lemma rnd_0 [simp]: "rnd 0 = Fin 0"
  using rnd_of_int [of 0] by simp

lemma rnd_1 [simp]: "rnd 1 = Fin 1"
  using rnd_of_int [of 1] by simp

lemma rnd_numeral [simp]: "(numeral n :: int) \<le> 2 ^ 53 \<Longrightarrow> rnd (numeral n) = Fin (numeral n)"
  using rnd_of_int [of "numeral n"] by simp

text \<open>A rounding is certified by its mantissa and exponent, whatever way they were found.\<close>

lemma rnd_certified:
  assumes "2 powi (e + 52) \<le> x" and "x < 2 powi (e + 53)" and "- 1074 \<le> e" and "e \<le> 970"
    and "\<bar>x - of_int m * 2 powi e\<bar> < 2 powi e / 2"
  shows "rnd x = Fin (of_int m * 2 powi e)"
proof -
  have "e + 52 + 1 = e + 53" by simp
  then have k: "ilog2 x = e + 52" using assms(1,2) by (intro ilog2_unique) (simp_all only:)
  then have u: "ulp_exp x = e" using assms(3) by (simp add: ulp_exp_def)
  have pos: "0 < x" using assms(1) powi2_pos [of "e + 52"] by linarith
  have "x / 2 powi e - of_int m = (x - of_int m * 2 powi e) / 2 powi e"
    by (simp add: diff_divide_distrib)
  then have "\<bar>x / 2 powi e - of_int m\<bar> = \<bar>x - of_int m * 2 powi e\<bar> / 2 powi e"
    by simp
  then have near: "\<bar>x / 2 powi e - of_int m\<bar> < 1 / 2"
    using assms(5) by (simp add: divide_less_eq)
  have "rne (x / 2 powi e) = m"
  proof -
    have "of_int (rne (x / 2 powi e)) < (of_int m :: rat) + 1" "(of_int m :: rat) < of_int (rne (x / 2 powi e)) + 1"
      using near rne_bounds [of "x / 2 powi e"] unfolding abs_less_iff by linarith+
    then show ?thesis by linarith
  qed
  then have q: "rnd_q x = of_int m * 2 powi e" using pos u by (simp add: rnd_q_def rnd_mag_def)
  have "rnd_q x \<le> 2 powi (e + 53)"
    using rnd_mag_bounds(1) [OF pos] pos u by (simp add: rnd_q_def)
  also have "\<dots> < 2 powi 1024" using assms(4) by (simp del: power_int_numeral)
  finally have "rnd_q x < 2 ^ 1024" by simp
  moreover have "0 \<le> rnd_q x" using pos by (simp add: rnd_q_nonneg)
  ultimately show ?thesis by (simp add: rnd_def q)
qed

section \<open>Order\<close>

text \<open>On values that are not NaN, \<open><\<close> and \<open>\<le>\<close> are a linear order, and rounding respects it.\<close>

lemma float_less_irrefl [simp]: "\<not> x < (x :: float64)"
  by (cases x) auto

lemma float_less_trans: "x < y \<Longrightarrow> y < z \<Longrightarrow> x < (z :: float64)"
  by (cases x; cases y; cases z) auto

lemma float_less_not_nan: "x < y \<Longrightarrow> \<not> is_nan x \<and> \<not> is_nan (y :: float64)"
  by (cases x; cases y) (auto simp: is_nan_def)

lemma float_linear: "\<not> is_nan x \<Longrightarrow> \<not> is_nan y \<Longrightarrow> x < y \<or> x = y \<or> y < (x :: float64)"
  by (cases x; cases y) (auto simp: is_nan_def)

lemma float_not_less: "\<not> is_nan x \<Longrightarrow> \<not> is_nan y \<Longrightarrow> \<not> x < y \<longleftrightarrow> y \<le> (x :: float64)"
  by (cases x; cases y) (auto simp: is_nan_def less_eq_float64_def)

lemma float_le_Fin [simp]: "Fin a \<le> Fin b \<longleftrightarrow> a \<le> b"
  by (auto simp: less_eq_float64_def)

lemma float_le_cases:
  "0 \<le> x \<longleftrightarrow> x = PInf \<or> (\<exists>a. x = Fin a \<and> 0 \<le> a)"
  by (cases x) (auto simp: less_eq_float64_def zero_float64_def)

lemma rnd_cases: "rnd x = PInf \<or> rnd x = NInf \<or> rnd x = Fin (rnd_q x)"
  by (simp add: rnd_def Let_def)

lemma rnd_nonneg: "0 \<le> x \<Longrightarrow> 0 \<le> rnd x"
proof -
  assume "0 \<le> x"
  then have "0 \<le> rnd_q x" by (rule rnd_q_nonneg)
  moreover have "- (2 ^ 1024) < (0 :: rat)" by simp
  ultimately show ?thesis
    by (auto simp: rnd_def Let_def float_le_cases simp del: neg_less_0_iff_less)
qed

text \<open>Subtracting at most the balance from a finite balance never goes below zero, and never above
  the balance.\<close>

lemma float_sub_nonneg:
  assumes "0 \<le> x" and "\<not> b < x" and "b = Fin q"
  shows "x = NaN \<or> 0 \<le> b - x"
proof (cases x)
  case (Fin a)
  with assms have "0 \<le> q - a" by (auto simp: less_eq_float64_def)
  then have "0 \<le> rnd (q - a)" by (rule rnd_nonneg)
  with Fin assms(3) show ?thesis by (simp add: minus_float64_def)
qed (use assms in \<open>auto simp: float_le_cases\<close>)

lemma float_add_nonneg: "0 \<le> x \<Longrightarrow> 0 \<le> y \<Longrightarrow> 0 \<le> x + (y :: float64)"
proof -
  assume "0 \<le> x" "0 \<le> y"
  then consider "x = PInf \<or> y = PInf" "x \<noteq> NInf" "y \<noteq> NInf" "x \<noteq> NaN" "y \<noteq> NaN"
    | a b where "x = Fin a" "y = Fin b" "0 \<le> a" "0 \<le> b"
    by (auto simp: float_le_cases)
  then show ?thesis
  proof cases
    case 1
    then show ?thesis by (cases x; cases y) (auto simp: float_le_cases)
  next
    case 2
    then show ?thesis by (simp add: rnd_nonneg)
  qed
qed

section \<open>Bit patterns\<close>

text \<open>
  \<open>math.Float64bits\<close>. A finite value of exponent \<open>e\<close> (at least -1022) and mantissa \<open>m\<close> has the bits
  \<open>(e + 1022) * 2 ^ 52 + m\<close>, for normal and subnormal values alike; the sign is the top bit.
\<close>

definition mag_bits :: "rat \<Rightarrow> int" where
  "mag_bits x = (let u = ulp_exp x in (u + 1074) * 2 ^ 52 + \<lfloor>x / 2 powi u\<rfloor>)"

definition Float64bits :: "float64 \<Rightarrow> u64" where
  "Float64bits x = (case x of
       Fin q \<Rightarrow> if q = 0 then 0 else if 0 < q then of_int (mag_bits q) else of_int (2 ^ 63 + mag_bits (- q))
     | PInf \<Rightarrow> of_int (2047 * 2 ^ 52)
     | NInf \<Rightarrow> of_int (2 ^ 63 + 2047 * 2 ^ 52)
     | NaN \<Rightarrow> of_int (2047 * 2 ^ 52 + 2 ^ 51 + 1))"

definition finite_ok :: "rat \<Rightarrow> bool" where
  "finite_ok q \<longleftrightarrow> representable q \<and> \<bar>q\<bar> < 2 ^ 1024"

definition float_ok :: "float64 \<Rightarrow> bool" where
  "float_ok x \<longleftrightarrow> (case x of Fin q \<Rightarrow> finite_ok q | _ \<Rightarrow> True)"

lemma mantissa_of:
  assumes "0 < q" and "finite_ok q"
  obtains m where "q = of_int m * 2 powi ulp_exp q" and "\<lfloor>q / 2 powi ulp_exp q\<rfloor> = m"
    and "0 < m" and "m < 2 ^ 53" and "- 1074 < ulp_exp q \<Longrightarrow> 2 ^ 52 \<le> m" and "- 1074 \<le> ulp_exp q" and "ulp_exp q \<le> 971"
proof -
  let ?u = "ulp_exp q"
  from assms obtain m where m: "q = of_int m * 2 powi ?u" by (auto simp: finite_ok_def representable_def)
  have up: "(0 :: rat) < 2 powi ?u" by simp
  have qm: "q / 2 powi ?u = of_int m" using up by (subst (1) m) simp
  have "0 < (of_int m :: rat)" using assms(1) up qm by (metis zero_less_divide_iff)
  then have pos: "0 < m" by simp
  have le: "ilog2 q \<le> ?u + 52" by (simp add: ulp_exp_def)
  have "(2 :: rat) powi (ilog2 q + 1) \<le> 2 powi (?u + 53)" using le by simp
  then have "q < 2 powi (?u + 53)" using ilog2_bounds(2) [OF assms(1)] by linarith
  then have "q / 2 powi ?u < 2 powi 53" using up by (simp add: divide_less_eq power_int_add)
  then have "(of_int m :: rat) < of_int (2 ^ 53)" using qm by simp
  then have hi: "m < 2 ^ 53" by (simp only: of_int_less_iff)
  have lo: "2 ^ 52 \<le> m" if "- 1074 < ?u"
  proof -
    from that have e: "?u + 52 = ilog2 q" by (auto simp: ulp_exp_def max_def split: if_splits)
    have "2 powi (?u + 52) \<le> q" using ilog2_bounds(1) [OF assms(1)] e by simp
    then have "2 powi 52 \<le> q / 2 powi ?u" using up by (simp add: le_divide_eq power_int_add)
    then have "(of_int (2 ^ 52) :: rat) \<le> of_int m" using qm by simp
    then show ?thesis by (simp only: of_int_le_iff)
  qed
  have "2 powi ilog2 q < (2 :: rat) powi 1024"
    using ilog2_bounds(1) [OF assms(1)] assms by (auto simp: finite_ok_def)
  then have "ilog2 q < 1024" by (simp only: powi2_less_iff)
  then have top: "?u \<le> 971" by (simp add: ulp_exp_def)
  show ?thesis using that [OF m _ pos hi lo _ top] qm by (simp add: ulp_exp_def)
qed

lemma mag_bits_range:
  assumes "0 < q" and "finite_ok q"
  shows "0 < mag_bits q" and "mag_bits q < 2047 * 2 ^ 52"
proof -
  from assms show "0 < mag_bits q"
    by (rule mantissa_of) (simp add: mag_bits_def Let_def)
  from assms show "mag_bits q < 2047 * 2 ^ 52"
    by (rule mantissa_of) (simp add: mag_bits_def Let_def)
qed

lemma mag_bits_inj:
  assumes "0 < p" "finite_ok p" "0 < q" "finite_ok q" "mag_bits p = mag_bits q"
  shows "p = q"
proof -
  obtain m where m: "p = of_int m * 2 powi ulp_exp p" "\<lfloor>p / 2 powi ulp_exp p\<rfloor> = m"
    "0 < m" "m < 2 ^ 53" "- 1074 < ulp_exp p \<Longrightarrow> 2 ^ 52 \<le> m" "- 1074 \<le> ulp_exp p"
    using mantissa_of [OF assms(1,2)] by metis
  obtain n where n: "q = of_int n * 2 powi ulp_exp q" "\<lfloor>q / 2 powi ulp_exp q\<rfloor> = n"
    "0 < n" "n < 2 ^ 53" "- 1074 < ulp_exp q \<Longrightarrow> 2 ^ 52 \<le> n" "- 1074 \<le> ulp_exp q"
    using mantissa_of [OF assms(3,4)] by metis
  from assms(5) m(2) n(2) have eq: "(ulp_exp p + 1074) * 2 ^ 52 + m = (ulp_exp q + 1074) * 2 ^ 52 + n"
    by (simp add: mag_bits_def Let_def)
  have "ulp_exp p = ulp_exp q"
  proof (rule linorder_cases [of "ulp_exp p" "ulp_exp q"])
    assume less: "ulp_exp p < ulp_exp q"
    with n m have "2 ^ 52 \<le> n" "ulp_exp p + 1 \<le> ulp_exp q" by linarith+
    with eq m(4) show ?thesis by (simp add: algebra_simps)
  next
    assume less: "ulp_exp q < ulp_exp p"
    with n m have "2 ^ 52 \<le> m" "ulp_exp q + 1 \<le> ulp_exp p" by linarith+
    with eq n(4) show ?thesis by (simp add: algebra_simps)
  qed
  with eq m(1) n(1) show ?thesis by simp
qed


lemma of_int_u64_inj:
  assumes "(of_int a :: u64) = of_int b" and "0 \<le> a" "a < 2 ^ 64" "0 \<le> b" "b < 2 ^ 64"
  shows "a = b"
proof -
  have "take_bit 64 a = take_bit 64 b" using assms(1) by (simp add: word_of_int_eq_iff)
  with assms(2-5) show ?thesis by (simp add: take_bit_eq_mod)
qed

definition float_key :: "float64 \<Rightarrow> int" where
  "float_key z = (case z of
       Fin q \<Rightarrow> if q = 0 then 0 else if 0 < q then mag_bits q else 2 ^ 63 + mag_bits (- q)
     | PInf \<Rightarrow> 2047 * 2 ^ 52
     | NInf \<Rightarrow> 2 ^ 63 + 2047 * 2 ^ 52
     | NaN \<Rightarrow> 2047 * 2 ^ 52 + 2 ^ 51 + 1)"

lemma Float64bits_key: "Float64bits z = of_int (float_key z)"
  by (simp add: Float64bits_def float_key_def split: float64.split)

lemma finite_ok_neg: "finite_ok q \<Longrightarrow> finite_ok (- q)"
  unfolding finite_ok_def representable_def
  by (metis abs_minus_cancel minus_mult_left neg_equal_0_iff_equal of_int_minus)

lemma float_key_range: "float_ok z \<Longrightarrow> 0 \<le> float_key z \<and> float_key z < 2 ^ 64"
proof (cases z)
  case (Fin q)
  assume "float_ok z"
  with Fin have ok: "finite_ok q" by (simp add: float_ok_def)
  show ?thesis
  proof (rule linorder_cases [of 0 q])
    assume "0 < q"
    with mag_bits_range [OF this ok] Fin show ?thesis by (simp add: float_key_def)
  next
    assume "q < 0"
    with mag_bits_range [of "- q"] finite_ok_neg [OF ok] Fin show ?thesis by (simp add: float_key_def)
  qed (simp add: Fin float_key_def)
qed (simp_all add: float_key_def)

lemma float_key_Fin:
  assumes "finite_ok q"
  shows "float_key (Fin q) = 0 \<and> q = 0 \<or>
    0 < float_key (Fin q) \<and> float_key (Fin q) < 2047 * 2 ^ 52 \<and> 0 < q \<and> float_key (Fin q) = mag_bits q \<or>
    2 ^ 63 < float_key (Fin q) \<and> float_key (Fin q) < 2 ^ 63 + 2047 * 2 ^ 52 \<and> q < 0 \<and>
      float_key (Fin q) = 2 ^ 63 + mag_bits (- q)"
proof (rule linorder_cases [of 0 q])
  assume "0 < q"
  with mag_bits_range [OF this assms] show ?thesis by (simp add: float_key_def)
next
  assume "q < 0"
  with mag_bits_range [of "- q"] finite_ok_neg [OF assms] show ?thesis by (simp add: float_key_def)
qed (simp add: float_key_def)

lemma float_key_Fin_inj:
  assumes "finite_ok p" and "finite_ok q" and "float_key (Fin p) = float_key (Fin q)"
  shows "p = q"
  using float_key_Fin [OF assms(1)] float_key_Fin [OF assms(2)] assms
    mag_bits_inj [of p q] mag_bits_inj [of "- p" "- q"] finite_ok_neg [OF assms(1)] finite_ok_neg [OF assms(2)]
  by (elim disjE conjE) simp_all

lemma Float64bits_inj:
  assumes "float_ok x" and "float_ok y" and "Float64bits x = Float64bits y"
  shows "x = y"
proof -
  from float_key_range [OF assms(1)] float_key_range [OF assms(2)] assms(3) have key: "float_key x = float_key y"
    by (intro of_int_u64_inj) (simp_all add: Float64bits_key)
  have special: "float_key PInf = 2047 * 2 ^ 52" "float_key NInf = 2 ^ 63 + 2047 * 2 ^ 52"
    "float_key NaN = 2047 * 2 ^ 52 + 2 ^ 51 + 1" by (simp_all add: float_key_def)
  have ok: "x = Fin q \<Longrightarrow> finite_ok q" "y = Fin q \<Longrightarrow> finite_ok q" for q
    using assms(1,2) by (simp_all add: float_ok_def)
  show ?thesis
  proof (cases x)
    case (Fin p)
    note x = Fin
    show ?thesis
    proof (cases y)
      case (Fin q)
      with x key ok float_key_Fin_inj [of p q] show ?thesis by simp
    qed (use x key special float_key_Fin [OF ok(1) [OF x]] in simp_all)
  next
    case NaN
    then show ?thesis using key special float_key_Fin [OF ok(2)] by (cases y) fastforce+
  next
    case PInf
    then show ?thesis using key special float_key_Fin [OF ok(2)] by (cases y) fastforce+
  next
    case NInf
    then show ?thesis using key special float_key_Fin [OF ok(2)] by (cases y) fastforce+
  qed
qed

end
