(* ===== verification/Accounts.thy ===== *)
theory Accounts
  imports Float64
begin

text \<open>
  The account layer: \<open>pkg/chain/account.go\<close>, the integer-dust fork of \<open>account_dust.go\<close> and
  \<open>dustfork.go\<close>, and the transaction record of \<open>pkg/mempool\<close>. The store is a map from addresses to
  accounts; every mutating method takes the store and returns the new store and the error it
  reports (\<^const>\<open>None\<close> is Go's \<open>nil\<close>), so what a failing call leaves behind is part of the model.

  The package variable \<open>forkDustHeight\<close> is the argument \<open>fork\<close>. \<open>heightFn\<close> is the height it returns
  at the call, \<^const>\<open>None\<close> when no function is installed.
\<close>

section \<open>Transactions\<close>

text \<open>A \<open>time.Time\<close> is an instant in nanoseconds since Go's zero time, so \<open>IsZero\<close> is \<open>= 0\<close>.\<close>

record Tx =
  tx_ID :: string
  tx_Sender :: string
  tx_Recipient :: string
  tx_Amount :: float64
  tx_Fee :: float64
  tx_GasLimit :: int
  tx_Nonce :: u64
  tx_Payload :: string
  tx_ContractID :: string
  tx_Signature :: string
  tx_PublicKey :: string
  tx_AddedAt :: int

section \<open>The store\<close>

record Account =
  acc_Address :: string
  acc_Balance :: float64
  acc_Nonce :: u64
  acc_BalanceDust :: u64

record AccountStore =
  as_accounts :: "string \<rightharpoonup> Account"
  as_heightFn :: "u64 option"
  as_dustMigrated :: bool

datatype account_error =
    NilTx
  | DebitNotPositive
  | ChargeNegative
  | InvalidLiquidReward
  | AccountNotFound string
  | NonceMismatch string u64 u64
  | InsufficientBalance
  | DustOverflow
  | DustUnrepresentable string
  | RestoreTypeMismatch

definition new_account :: "string \<Rightarrow> Account" where
  "new_account address = \<lparr>acc_Address = address, acc_Balance = 0, acc_Nonce = 0, acc_BalanceDust = 0\<rparr>"

definition NewAccountStore :: AccountStore where
  "NewAccountStore = \<lparr>as_accounts = Map.empty, as_heightFn = None, as_dustMigrated = False\<rparr>"

abbreviation put_account :: "AccountStore \<Rightarrow> string \<Rightarrow> Account \<Rightarrow> AccountStore" where
  "put_account s a acc \<equiv> s\<lparr>as_accounts := (as_accounts s)(a \<mapsto> acc)\<rparr>"

definition GetOrCreate :: "AccountStore \<Rightarrow> string \<Rightarrow> AccountStore \<times> Account" where
  "GetOrCreate s address =
     (case as_accounts s address of
        Some acc \<Rightarrow> (s, acc)
      | None \<Rightarrow> (put_account s address (new_account address), new_account address))"

definition GetAccount :: "AccountStore \<Rightarrow> string \<Rightarrow> Account option" where
  "GetAccount s address = as_accounts s address"

section \<open>Dust\<close>

definition DustPerCellInt :: u64 where "DustPerCellInt = 100000000"

definition IsDustAccounting :: "u64 \<Rightarrow> u64 \<Rightarrow> bool" where
  "IsDustAccounting fork height \<longleftrightarrow> fork \<le> height"

definition dustActive :: "u64 \<Rightarrow> AccountStore \<Rightarrow> bool" where
  "dustActive fork s =
     (case as_heightFn s of None \<Rightarrow> False | Some h \<Rightarrow> IsDustAccounting fork h)"

definition SetHeightFn :: "AccountStore \<Rightarrow> u64 option \<Rightarrow> AccountStore" where
  "SetHeightFn s fn = s\<lparr>as_heightFn := fn\<rparr>"

definition DustToCell :: "u64 \<Rightarrow> float64" where
  "DustToCell dust = f64_of_u64 dust / f64_of_u64 DustPerCellInt"

datatype dust_error = NotFinite | Negative | OverflowsDust | NotWholeDust

text \<open>\<open>float64(math.MaxUint64)\<close> rounds up to two to the 64th.\<close>

definition maxUint64_f :: float64 where
  "maxUint64_f = f64_of_u64 max_u64"

definition CellToDust :: "(float64 \<Rightarrow> u64) \<Rightarrow> float64 \<Rightarrow> dust_error + u64" where
  "CellToDust oob cell =
     (if is_nan cell \<or> is_inf cell then Inl NotFinite
      else if cell < 0 then Inl Negative
      else (let scaled = cell * f64_of_u64 DustPerCellInt
            in if maxUint64_f \<le> scaled then Inl OverflowsDust
               else (let rounded = math_Round scaled;
                         ulp = math_NextUp scaled - scaled
                     in if math_Max (rnd (1 / 1000000)) (Fin 4 * ulp) < math_Abs (scaled - rounded)
                        then Inl NotWholeDust
                        else Inr (f64_to_u64 oob rounded))))"

definition floorToDust :: "float64 \<Rightarrow> u64" where
  "floorToDust cell =
     (if cell \<le> 0 \<or> is_nan cell then 0
      else (let scaled = cell * f64_of_u64 DustPerCellInt
            in if maxUint64_f \<le> scaled then max_u64
               else f64_to_u64 (\<lambda>_. 0) (math_Floor scaled)))"

text \<open>The conversions of \<open>enrollment_apply.go\<close>: towards dust by truncation, with \<open>oob\<close> for a product out of range.\<close>

definition balanceToDust :: "(float64 \<Rightarrow> u64) \<Rightarrow> float64 \<Rightarrow> u64" where
  "balanceToDust oob bal =
     (if bal \<le> 0 \<or> is_nan bal then 0
      else (let scaled = bal * f64_of_u64 DustPerCellInt
            in if maxUint64_f \<le> scaled then max_u64 else f64_to_u64 oob scaled))"

definition dustToBalance :: "u64 \<Rightarrow> float64" where
  "dustToBalance dust = f64_of_u64 dust / f64_of_u64 DustPerCellInt"

definition setBalanceDustLocked :: "Account \<Rightarrow> u64 \<Rightarrow> Account" where
  "setBalanceDustLocked acc dust = acc\<lparr>acc_BalanceDust := dust, acc_Balance := DustToCell dust\<rparr>"

section \<open>Charging, debiting, crediting\<close>

definition ChargeAndBumpNonce ::
  "AccountStore \<Rightarrow> string \<Rightarrow> float64 \<Rightarrow> u64 \<Rightarrow> AccountStore \<times> account_error option" where
  "ChargeAndBumpNonce s sender amount expectedNonce =
     (if amount < 0 then (s, Some ChargeNegative)
      else (case as_accounts s sender of
          None \<Rightarrow> (s, Some (AccountNotFound sender))
        | Some acc \<Rightarrow>
            if acc_Nonce acc \<noteq> expectedNonce
            then (s, Some (NonceMismatch sender (acc_Nonce acc) expectedNonce))
            else if acc_Balance acc < amount then (s, Some InsufficientBalance)
            else (put_account s sender
                    (acc\<lparr>acc_Balance := acc_Balance acc - amount, acc_Nonce := acc_Nonce acc + 1\<rparr>),
                  None)))"

definition DebitAndBumpNonce ::
  "AccountStore \<Rightarrow> string \<Rightarrow> float64 \<Rightarrow> u64 \<Rightarrow> AccountStore \<times> account_error option" where
  "DebitAndBumpNonce s sender amount expectedNonce =
     (if amount \<le> 0 then (s, Some DebitNotPositive)
      else ChargeAndBumpNonce s sender amount expectedNonce)"

definition ChargeAndBumpNonceAllowCreate ::
  "AccountStore \<Rightarrow> string \<Rightarrow> float64 \<Rightarrow> u64 \<Rightarrow> AccountStore \<times> account_error option" where
  "ChargeAndBumpNonceAllowCreate s sender amount expectedNonce =
     (if amount < 0 then (s, Some ChargeNegative)
      else if as_accounts s sender = None \<and> (\<not> feq amount 0 \<or> expectedNonce \<noteq> 0)
      then (s, Some (AccountNotFound sender))
      else (let s1 = (case as_accounts s sender of
                        None \<Rightarrow> put_account s sender (new_account sender)
                      | Some _ \<Rightarrow> s);
                acc = the (as_accounts s1 sender)
            in if acc_Nonce acc \<noteq> expectedNonce
               then (s1, Some (NonceMismatch sender (acc_Nonce acc) expectedNonce))
               else if acc_Balance acc < amount then (s1, Some InsufficientBalance)
               else (put_account s1 sender
                       (acc\<lparr>acc_Balance := acc_Balance acc - amount, acc_Nonce := acc_Nonce acc + 1\<rparr>),
                     None)))"

definition ApplyProtocolReward ::
  "AccountStore \<Rightarrow> Tx option \<Rightarrow> float64 \<Rightarrow> AccountStore \<times> account_error option" where
  "ApplyProtocolReward s txp liquidAmount =
     (case txp of
        None \<Rightarrow> (s, Some NilTx)
      | Some tx \<Rightarrow>
          if liquidAmount < 0 \<or> tx_Amount tx < liquidAmount then (s, Some InvalidLiquidReward)
          else (case as_accounts s (tx_Sender tx) of
              None \<Rightarrow> (s, Some (AccountNotFound (tx_Sender tx)))
            | Some sender \<Rightarrow>
                if tx_Nonce tx \<noteq> acc_Nonce sender
                then (s, Some (NonceMismatch (tx_Sender tx) (acc_Nonce sender) (tx_Nonce tx)))
                else (let total = tx_Amount tx + tx_Fee tx
                      in if acc_Balance sender < total then (s, Some InsufficientBalance)
                         else (let s1 = put_account s (tx_Sender tx)
                                     (sender\<lparr>acc_Balance := acc_Balance sender - total,
                                             acc_Nonce := acc_Nonce sender + 1\<rparr>)
                               in if 0 < liquidAmount
                                  then (let recipient = (case as_accounts s1 (tx_Recipient tx) of
                                              None \<Rightarrow> new_account (tx_Recipient tx)
                                            | Some r \<Rightarrow> r)
                                        in (put_account s1 (tx_Recipient tx)
                                              (recipient\<lparr>acc_Balance := acc_Balance recipient + liquidAmount\<rparr>),
                                            None))
                                  else (s1, None)))))"

definition Debit :: "AccountStore \<Rightarrow> string \<Rightarrow> float64 \<Rightarrow> AccountStore \<times> account_error option" where
  "Debit s address amount =
     (if amount \<le> 0 then (s, Some DebitNotPositive)
      else (case as_accounts s address of
          None \<Rightarrow> (s, Some (AccountNotFound address))
        | Some acc \<Rightarrow>
            if acc_Balance acc < amount then (s, Some InsufficientBalance)
            else (put_account s address (acc\<lparr>acc_Balance := acc_Balance acc - amount\<rparr>), None)))"

definition Credit ::
  "(float64 \<Rightarrow> u64) \<Rightarrow> u64 \<Rightarrow> AccountStore \<Rightarrow> string \<Rightarrow> float64 \<Rightarrow> AccountStore" where
  "Credit oob fork s address amount =
     (let acc = (case as_accounts s address of None \<Rightarrow> new_account address | Some acc \<Rightarrow> acc)
      in if dustActive fork s
         then (let d = (case CellToDust oob amount of
                          Inr d \<Rightarrow> d
                        | Inl _ \<Rightarrow> f64_to_u64 oob
                            (math_Max 0 (math_Floor (amount * f64_of_u64 DustPerCellInt))))
               in put_account s address (setBalanceDustLocked acc (acc_BalanceDust acc + d)))
         else put_account s address (acc\<lparr>acc_Balance := acc_Balance acc + amount\<rparr>))"

definition ApplyTx :: "u64 \<Rightarrow> AccountStore \<Rightarrow> Tx \<Rightarrow> AccountStore \<times> account_error option" where
  "ApplyTx fork s tx =
     (case as_accounts s (tx_Sender tx) of
        None \<Rightarrow> (s, Some (AccountNotFound (tx_Sender tx)))
      | Some sender \<Rightarrow>
          if tx_Nonce tx \<noteq> acc_Nonce sender
          then (s, Some (NonceMismatch (tx_Sender tx) (acc_Nonce sender) (tx_Nonce tx)))
          else if dustActive fork s
          then (let amountDust = floorToDust (tx_Amount tx);
                    feeDust = floorToDust (tx_Fee tx);
                    totalDust = amountDust + feeDust
                in if totalDust < amountDust then (s, Some DustOverflow)
                   else (let haveDust = acc_BalanceDust sender
                         in if haveDust < totalDust then (s, Some InsufficientBalance)
                            else (let s1 = put_account s (tx_Sender tx)
                                        (setBalanceDustLocked sender (haveDust - totalDust)
                                           \<lparr>acc_Nonce := acc_Nonce sender + 1\<rparr>);
                                      recipient = (case as_accounts s1 (tx_Recipient tx) of
                                          None \<Rightarrow> new_account (tx_Recipient tx)
                                        | Some r \<Rightarrow> r)
                                  in (put_account s1 (tx_Recipient tx)
                                        (setBalanceDustLocked recipient
                                           (acc_BalanceDust recipient + amountDust)), None))))
          else (let total = tx_Amount tx + tx_Fee tx
                in if acc_Balance sender < total then (s, Some InsufficientBalance)
                   else (let s1 = put_account s (tx_Sender tx)
                               (sender\<lparr>acc_Balance := acc_Balance sender - total,
                                       acc_Nonce := acc_Nonce sender + 1\<rparr>);
                             recipient = (case as_accounts s1 (tx_Recipient tx) of
                                 None \<Rightarrow> new_account (tx_Recipient tx)
                               | Some r \<Rightarrow> r)
                         in (put_account s1 (tx_Recipient tx)
                               (recipient\<lparr>acc_Balance := acc_Balance recipient + tx_Amount tx\<rparr>), None))))"

section \<open>Snapshots\<close>

definition CloneStore :: "AccountStore \<Rightarrow> AccountStore" where
  "CloneStore s =
     \<lparr>as_accounts = as_accounts s, as_heightFn = as_heightFn s, as_dustMigrated = as_dustMigrated s\<rparr>"

definition RestoreFrom :: "AccountStore \<Rightarrow> AccountStore \<Rightarrow> AccountStore" where
  "RestoreFrom s snap = s\<lparr>as_accounts := as_accounts snap, as_dustMigrated := as_dustMigrated snap\<rparr>"

section \<open>Migration to integer dust\<close>

text \<open>The validation pass over the sorted addresses: the pending dust of every account and the total
  dropped by flooring, or the first account whose balance has no dust value.\<close>

fun migrate_pending ::
  "(string \<rightharpoonup> Account) \<Rightarrow> string list \<Rightarrow> (string \<rightharpoonup> u64) \<Rightarrow> float64 \<Rightarrow>
     account_error + (string \<rightharpoonup> u64) \<times> float64" where
  "migrate_pending accts [] pending totalDropped = Inr (pending, totalDropped)"
| "migrate_pending accts (addr # addrs) pending totalDropped =
     (let b = acc_Balance (the (accts addr))
      in if b \<le> 0 \<or> is_nan b then migrate_pending accts addrs (pending(addr \<mapsto> 0)) totalDropped
         else (let scaled = b * f64_of_u64 DustPerCellInt
               in if maxUint64_f \<le> scaled then Inl (DustUnrepresentable addr)
                  else migrate_pending accts addrs
                         (pending(addr \<mapsto> f64_to_u64 (\<lambda>_. 0) (math_Floor scaled)))
                         (totalDropped + (scaled - math_Floor scaled))))"

fun migrate_write :: "(string \<rightharpoonup> u64) \<Rightarrow> string list \<Rightarrow> (string \<rightharpoonup> Account) \<Rightarrow> (string \<rightharpoonup> Account)" where
  "migrate_write pending [] accts = accts"
| "migrate_write pending (addr # addrs) accts =
     migrate_write pending addrs
       (accts(addr \<mapsto> setBalanceDustLocked (the (accts addr)) (the (pending addr))))"

definition MigrateToDust ::
  "(float64 \<Rightarrow> u64) \<Rightarrow> string list \<Rightarrow> AccountStore \<Rightarrow> AccountStore \<times> u64 \<times> account_error option" where
  "MigrateToDust oob ks s =
     (if as_dustMigrated s then (s, 0, None)
      else (let addrs = sort ks
            in case migrate_pending (as_accounts s) addrs Map.empty 0 of
                 Inl e \<Rightarrow> (s, 0, Some e)
               | Inr (pending, totalDropped) \<Rightarrow>
                   (s\<lparr>as_accounts := migrate_write pending addrs (as_accounts s),
                      as_dustMigrated := True\<rparr>,
                    f64_to_u64 oob totalDropped, None)))"

section \<open>Supply\<close>

text \<open>\<open>SupplySnapshot\<close>: the compensated sum over the accounts in the order the map is ranged over, and
  the number of negative balances.\<close>

fun kahan :: "(string \<rightharpoonup> Account) \<Rightarrow> string list \<Rightarrow> float64 \<Rightarrow> float64 \<Rightarrow> nat \<Rightarrow> float64 \<times> nat" where
  "kahan accts [] tot cmp neg = (tot, neg)"
| "kahan accts (a # ks) tot cmp neg =
     (let b = acc_Balance (the (accts a)); y = b - cmp; t = tot + y
      in kahan accts ks t ((t - tot) - y) (if b < 0 then neg + 1 else neg))"

definition SupplySnapshot :: "string list \<Rightarrow> AccountStore \<Rightarrow> nat \<times> float64 \<times> nat" where
  "SupplySnapshot ks s = (length ks, kahan (as_accounts s) ks 0 0 0)"

definition CellSupplyCapDust :: u64 where "CellSupplyCapDust = 90000000 * 100000000"

record SupplyLedger =
  sl_issued :: u64
  sl_cap :: u64

definition NewSupplyLedger :: SupplyLedger where
  "NewSupplyLedger = \<lparr>sl_issued = 0, sl_cap = CellSupplyCapDust\<rparr>"

definition NewSupplyLedgerWithCap :: "u64 \<Rightarrow> SupplyLedger option" where
  "NewSupplyLedgerWithCap capDust =
     (if capDust = 0 then None else Some \<lparr>sl_issued = 0, sl_cap = capDust\<rparr>)"

definition SupplyRemaining :: "SupplyLedger \<Rightarrow> u64" where
  "SupplyRemaining s = (if sl_cap s \<le> sl_issued s then 0 else sl_cap s - sl_issued s)"

text \<open>
  \<open>Mint\<close> and \<open>Burn\<close> are compare-and-swap loops. One iteration loads the counter, checks, and swaps
  only if the counter still has the loaded value; between the load and the swap other callers run.
  \<open>mint_check\<close> and \<open>burn_next\<close> are the bodies between load and swap.
\<close>

definition mint_check :: "u64 \<Rightarrow> u64 \<Rightarrow> u64 \<Rightarrow> u64 option" where
  "mint_check capDust cur dust = (if capDust - cur < dust then None else Some (cur + dust))"

definition burn_next :: "u64 \<Rightarrow> u64 \<Rightarrow> u64" where
  "burn_next cur dust = (if dust < cur then cur - dust else 0)"

text \<open>The sequential behaviour: the first swap succeeds. \<^const>\<open>None\<close> is \<open>ErrSupplyCapExceeded\<close>.\<close>

definition Mint :: "SupplyLedger \<Rightarrow> u64 \<Rightarrow> SupplyLedger option" where
  "Mint s dust =
     (if dust = 0 then Some s
      else map_option (\<lambda>n. s\<lparr>sl_issued := n\<rparr>) (mint_check (sl_cap s) (sl_issued s) dust))"

definition Burn :: "SupplyLedger \<Rightarrow> u64 \<Rightarrow> SupplyLedger" where
  "Burn s dust = s\<lparr>sl_issued := burn_next (sl_issued s) dust\<rparr>"

text \<open>
  The interleaved behaviour: any number of callers, each idle or between its load and its swap.
  \<open>Minting dust cap cur\<close> is a \<open>Mint\<close> call that has loaded \<open>cur\<close>, \<open>Burning dust cur\<close> a \<open>Burn\<close> call.
\<close>

datatype caller = Idle | Minting u64 u64 | Burning u64 u64

type_synonym supply_sys = "SupplyLedger \<times> (nat \<Rightarrow> caller)"

inductive supply_step :: "supply_sys \<Rightarrow> supply_sys \<Rightarrow> bool" where
  mint_load: "c i = Idle \<Longrightarrow> dust \<noteq> 0 \<Longrightarrow>
     supply_step (s, c) (s, c(i := Minting dust (sl_issued s)))"
| mint_refuse: "c i = Minting dust cur \<Longrightarrow> mint_check (sl_cap s) cur dust = None \<Longrightarrow>
     supply_step (s, c) (s, c(i := Idle))"
| mint_swap: "c i = Minting dust cur \<Longrightarrow> mint_check (sl_cap s) cur dust = Some n \<Longrightarrow>
     sl_issued s = cur \<Longrightarrow> supply_step (s, c) (s\<lparr>sl_issued := n\<rparr>, c(i := Idle))"
| mint_retry: "c i = Minting dust cur \<Longrightarrow> mint_check (sl_cap s) cur dust = Some n \<Longrightarrow>
     sl_issued s \<noteq> cur \<Longrightarrow> supply_step (s, c) (s, c(i := Minting dust (sl_issued s)))"
| burn_load: "c i = Idle \<Longrightarrow> supply_step (s, c) (s, c(i := Burning dust (sl_issued s)))"
| burn_swap: "c i = Burning dust cur \<Longrightarrow> sl_issued s = cur \<Longrightarrow>
     supply_step (s, c) (s\<lparr>sl_issued := burn_next cur dust\<rparr>, c(i := Idle))"
| burn_retry: "c i = Burning dust cur \<Longrightarrow> sl_issued s \<noteq> cur \<Longrightarrow>
     supply_step (s, c) (s, c(i := Burning dust (sl_issued s)))"

inductive supply_reach :: "SupplyLedger \<Rightarrow> supply_sys \<Rightarrow> bool" for s0 where
  start: "supply_reach s0 (s0, \<lambda>_. Idle)"
| step: "supply_reach s0 x \<Longrightarrow> supply_step x y \<Longrightarrow> supply_reach s0 y"

section \<open>The state root\<close>

text \<open>Decimal rendering (\<open>%d\<close>), and \<open>%f\<close>: six decimals, the exact binary value rounded half to even.\<close>

fun show_nat :: "nat \<Rightarrow> string" where
  "show_nat n = (if n < 10 then [char_of (48 + n)] else show_nat (n div 10) @ [char_of (48 + n mod 10)])"

declare show_nat.simps [simp del]

definition pad0 :: "nat \<Rightarrow> string \<Rightarrow> string" where
  "pad0 w s = replicate (w - length s) (CHR ''0'') @ s"

definition fmt_f :: "float64 \<Rightarrow> string" where
  "fmt_f x = (case x of
     NaN \<Rightarrow> ''NaN'' | PInf \<Rightarrow> ''+Inf'' | NInf \<Rightarrow> ''-Inf''
   | Fin q \<Rightarrow> (let n = nat (rne (\<bar>q\<bar> * 1000000))
              in (if q < 0 then ''-'' else []) @ show_nat (n div 1000000) @ ''.'' @
                 pad0 6 (show_nat (n mod 1000000))))"

definition dustStateRootSegment :: "Account \<Rightarrow> string" where
  "dustStateRootSegment acc =
     acc_Address acc @ '':'' @ show_nat (unat (acc_BalanceDust acc)) @ '':'' @
     show_nat (unat (acc_Nonce acc)) @ '';''"

definition floatStateRootSegment :: "Account \<Rightarrow> string" where
  "floatStateRootSegment acc =
     acc_Address acc @ '':'' @ fmt_f (acc_Balance acc) @ '':'' @
     show_nat (unat (acc_Nonce acc)) @ '';''"

text \<open>\<open>hash\<close> is the lower-case hex SHA-256 of the written bytes; \<open>ks\<close> is the order the map was ranged
  over in before the addresses are sorted.\<close>

definition state_root_preimage :: "u64 \<Rightarrow> string list \<Rightarrow> AccountStore \<Rightarrow> string" where
  "state_root_preimage fork ks s =
     concat (map (\<lambda>a. (if dustActive fork s then dustStateRootSegment else floatStateRootSegment)
                        (the (as_accounts s a))) (sort ks))"

definition AccountStateRoot :: "(string \<Rightarrow> string) \<Rightarrow> u64 \<Rightarrow> string list \<Rightarrow> AccountStore \<Rightarrow> string" where
  "AccountStateRoot hash fork ks s = hash (state_root_preimage fork ks s)"

definition AllAccounts :: "string list \<Rightarrow> AccountStore \<Rightarrow> Account list" where
  "AllAccounts ks s = sort_key acc_Address (map (\<lambda>a. the (as_accounts s a)) ks)"

text \<open>\<open>Load\<close> after the file is read and decoded: later entries win, and the count is of distinct
  addresses of the file.\<close>

definition LoadAccounts :: "Account list \<Rightarrow> AccountStore \<Rightarrow> AccountStore \<times> nat" where
  "LoadAccounts accounts s =
     (fold (\<lambda>acc s. put_account s (acc_Address acc) acc) accounts s,
      length (remdups (map acc_Address accounts)))"

section \<open>Nonce discipline\<close>

text \<open>The operations of the store as one type of commands.\<close>

datatype acct_op =
    OpCharge string float64 u64
  | OpDebitBump string float64 u64
  | OpChargeCreate string float64 u64
  | OpReward "Tx option" float64
  | OpDebit string float64
  | OpCredit string float64
  | OpApplyTx Tx

fun run_acct ::
  "(float64 \<Rightarrow> u64) \<Rightarrow> u64 \<Rightarrow> AccountStore \<Rightarrow> acct_op \<Rightarrow> AccountStore \<times> account_error option" where
  "run_acct oob fork s (OpCharge a x n) = ChargeAndBumpNonce s a x n"
| "run_acct oob fork s (OpDebitBump a x n) = DebitAndBumpNonce s a x n"
| "run_acct oob fork s (OpChargeCreate a x n) = ChargeAndBumpNonceAllowCreate s a x n"
| "run_acct oob fork s (OpReward tx x) = ApplyProtocolReward s tx x"
| "run_acct oob fork s (OpDebit a x) = Debit s a x"
| "run_acct oob fork s (OpCredit a x) = (Credit oob fork s a x, None)"
| "run_acct oob fork s (OpApplyTx tx) = ApplyTx fork s tx"

fun run_accts :: "(float64 \<Rightarrow> u64) \<Rightarrow> u64 \<Rightarrow> AccountStore \<Rightarrow> acct_op list \<Rightarrow> AccountStore" where
  "run_accts oob fork s [] = s"
| "run_accts oob fork s (p # ps) = run_accts oob fork (fst (run_acct oob fork s p)) ps"

text \<open>
  A counter that every step leaves alone or advances by one. It comes back to an earlier value only
  after going all the way round.
\<close>

locale nonce_counter =
  fixes step :: "'s \<Rightarrow> 'p \<Rightarrow> 's"
    and nonce_at :: "'s \<Rightarrow> string \<Rightarrow> u64"
  assumes step_nonce: "nonce_at (step s p) a = nonce_at s a \<or> nonce_at (step s p) a = nonce_at s a + 1"
begin

lemma nonce_advance:
  "\<exists>k \<le> length ps. nonce_at (foldl step s ps) a = nonce_at s a + of_nat k"
proof (induction ps arbitrary: s)
  case Nil
  show ?case by (simp add: exI [of _ 0])
next
  case (Cons p ps)
  from Cons.IH obtain k where k: "k \<le> length ps"
      "nonce_at (foldl step (step s p) ps) a = nonce_at (step s p) a + of_nat k" by blast
  from step_nonce [of s p a] show ?case
  proof
    assume "nonce_at (step s p) a = nonce_at s a"
    with k show ?thesis by (intro exI [of _ k]) simp
  next
    assume "nonce_at (step s p) a = nonce_at s a + 1"
    with k show ?thesis by (intro exI [of _ "Suc k"]) (simp add: algebra_simps)
  qed
qed

lemma nonce_gone:
  assumes "nonce_at s a = n + 1" and "length ps < 2 ^ 64 - 1"
  shows "nonce_at (foldl step s ps) a \<noteq> n"
proof
  assume *: "nonce_at (foldl step s ps) a = n"
  obtain k where k: "k \<le> length ps" "nonce_at (foldl step s ps) a = nonce_at s a + of_nat k"
    using nonce_advance by blast
  with * assms(1) have "n = n + of_nat (Suc k)" by (simp add: algebra_simps)
  then have "(of_nat (Suc k) :: u64) = 0" by (metis add_cancel_right_right)
  then have "unat (of_nat (Suc k) :: u64) = 0" by (simp only: unat_0)
  moreover have "unat (of_nat (Suc k) :: u64) = Suc k"
    using k(1) assms(2) by (intro unat_of_nat_fits) simp
  ultimately show False by simp
qed

end

text \<open>
  What a client of the store relies on: a command names a sender and a nonce, it succeeds only if
  the nonce is the sender's current one, success advances exactly that nonce by one, and a failing
  command changes nothing.
\<close>

locale nonce_ledger =
  fixes run_cmd :: "'s \<Rightarrow> 'c \<Rightarrow> 's \<times> 'e option"
    and nonce_at :: "'s \<Rightarrow> string \<Rightarrow> u64"
    and cmd_sender :: "'c \<Rightarrow> string"
    and cmd_nonce :: "'c \<Rightarrow> u64"
  assumes run_ok_nonce: "run_cmd s c = (s', None) \<Longrightarrow> nonce_at s (cmd_sender c) = cmd_nonce c"
    and run_ok_bump: "run_cmd s c = (s', None) \<Longrightarrow>
      nonce_at s' a = (if a = cmd_sender c then nonce_at s a + 1 else nonce_at s a)"
    and run_err_same: "run_cmd s c = (s', Some e) \<Longrightarrow> s' = s"
begin

lemma run_cmd_nonce:
  "nonce_at (fst (run_cmd s c)) a = nonce_at s a \<or> nonce_at (fst (run_cmd s c)) a = nonce_at s a + 1"
proof -
  obtain s' r where step: "run_cmd s c = (s', r)" by fastforce
  show ?thesis
  proof (cases r)
    case None
    with run_ok_bump [of s c s' a] step show ?thesis by (simp split: if_splits)
  next
    case (Some e)
    with run_err_same [of s c s' e] step show ?thesis by simp
  qed
qed

lemma accepted_nonce: "run_cmd s c = (s', None) \<Longrightarrow> nonce_at s' (cmd_sender c) = cmd_nonce c + 1"
  using run_ok_bump [of s c s' "cmd_sender c"] run_ok_nonce [of s c s'] by simp

lemma refused: "nonce_at s (cmd_sender c) \<noteq> cmd_nonce c \<Longrightarrow> snd (run_cmd s c) \<noteq> None"
  using run_ok_nonce [of s c "fst (run_cmd s c)"] by (metis prod.collapse)

end

sublocale nonce_ledger \<subseteq> counter: nonce_counter "\<lambda>s c. fst (run_cmd s c)" nonce_at
  by unfold_locales (rule run_cmd_nonce)

definition nonce_of :: "AccountStore \<Rightarrow> string \<Rightarrow> u64" where
  "nonce_of s a = (case as_accounts s a of None \<Rightarrow> 0 | Some acc \<Rightarrow> acc_Nonce acc)"

lemmas charge_defs = ChargeAndBumpNonce_def DebitAndBumpNonce_def ChargeAndBumpNonceAllowCreate_def

interpretation charge_nonce: nonce_ledger
  "\<lambda>s (a, x, n). ChargeAndBumpNonce s a x n" nonce_of fst "\<lambda>c. snd (snd c)"
  by unfold_locales
    (auto simp: ChargeAndBumpNonce_def nonce_of_def split: if_splits option.splits)

interpretation debit_nonce: nonce_ledger
  "\<lambda>s (a, x, n). DebitAndBumpNonce s a x n" nonce_of fst "\<lambda>c. snd (snd c)"
  by unfold_locales
    (auto simp: DebitAndBumpNonce_def ChargeAndBumpNonce_def nonce_of_def split: if_splits option.splits)

lemma create_charge_ok:
  "feq x 0 \<Longrightarrow> \<not> acc_Balance (new_account a) < x"
  by (auto simp: feq_def new_account_def)

interpretation create_nonce: nonce_ledger
  "\<lambda>s (a, x, n). ChargeAndBumpNonceAllowCreate s a x n" nonce_of fst "\<lambda>c. snd (snd c)"
  by unfold_locales
    (auto simp: ChargeAndBumpNonceAllowCreate_def nonce_of_def Let_def new_account_def feq_def
      split: if_splits option.splits)

interpretation tx_nonce: nonce_ledger "ApplyTx fork" nonce_of tx_Sender tx_Nonce for fork
  by unfold_locales
    (auto simp: ApplyTx_def nonce_of_def Let_def new_account_def setBalanceDustLocked_def
      split: if_splits option.splits)

text \<open>The remaining operations leave every nonce alone.\<close>

lemma nonce_of_put:
  "nonce_of (put_account s a acc) b = (if b = a then acc_Nonce acc else nonce_of s b)"
  by (simp add: nonce_of_def)

lemma reward_nonce:
  "nonce_of (fst (ApplyProtocolReward s txp x)) a = nonce_of s a \<or>
   nonce_of (fst (ApplyProtocolReward s txp x)) a = nonce_of s a + 1"
  by (auto simp: ApplyProtocolReward_def Let_def nonce_of_def new_account_def split: option.split)

lemma debit_credit_nonce:
  "nonce_of (fst (Debit s b x)) a = nonce_of s a" "nonce_of (Credit oob fork s b x) a = nonce_of s a"
  by (auto simp: Debit_def Credit_def Let_def nonce_of_def new_account_def setBalanceDustLocked_def
      split: option.split)

lemmas bump_nonces =
  charge_nonce.run_cmd_nonce [of s "(b, x, n)" a for s b x n a, simplified]
  debit_nonce.run_cmd_nonce [of s "(b, x, n)" a for s b x n a, simplified]
  create_nonce.run_cmd_nonce [of s "(b, x, n)" a for s b x n a, simplified]
  tx_nonce.run_cmd_nonce

interpretation store_nonce: nonce_counter "\<lambda>s p. fst (run_acct oob fork s p)" nonce_of for oob fork
proof
  fix s p a
  show "nonce_of (fst (run_acct oob fork s p)) a = nonce_of s a \<or>
        nonce_of (fst (run_acct oob fork s p)) a = nonce_of s a + 1"
    by (cases p) (simp_all add: bump_nonces reward_nonce debit_credit_nonce)
qed

lemma run_accts_foldl: "run_accts oob fork s ps = foldl (\<lambda>s p. fst (run_acct oob fork s p)) s ps"
  by (induction ps arbitrary: s) simp_all

section \<open>Non-negative balances\<close>

definition amount_ok :: "float64 \<Rightarrow> bool" where
  "amount_ok x \<longleftrightarrow> (case x of Fin q \<Rightarrow> 0 \<le> q | _ \<Rightarrow> False)"

definition nonneg_store :: "AccountStore \<Rightarrow> bool" where
  "nonneg_store s \<longleftrightarrow> (\<forall>a acc. as_accounts s a = Some acc \<longrightarrow> 0 \<le> acc_Balance acc)"

lemma amount_ok_nonneg: "amount_ok x \<Longrightarrow> 0 \<le> x"
  by (cases x) (auto simp: amount_ok_def float_le_cases)

lemma sub_amount_nonneg: "0 \<le> b \<Longrightarrow> amount_ok x \<Longrightarrow> \<not> b < x \<Longrightarrow> 0 \<le> b - x"
  using float_sub_nonneg [of x b]
  by (cases x; cases b) (auto simp: amount_ok_def float_le_cases minus_float64_def)

lemma f64_dust_unit [simp]: "f64_of_u64 DustPerCellInt = Fin 100000000"
  by (simp add: f64_of_u64_def DustPerCellInt_def)

lemma DustToCell_nonneg: "0 \<le> DustToCell d"
proof -
  have "0 \<le> f64_of_u64 d" unfolding f64_of_u64_def by (rule rnd_nonneg) (rule of_nat_0_le_iff)
  then have "f64_of_u64 d = PInf \<or> (\<exists>a. f64_of_u64 d = Fin a \<and> 0 \<le> a)"
    by (simp add: float_le_cases)
  then show ?thesis
  proof
    assume "f64_of_u64 d = PInf"
    then show ?thesis by (simp add: DustToCell_def float_le_cases)
  next
    assume "\<exists>a. f64_of_u64 d = Fin a \<and> 0 \<le> a"
    then show ?thesis by (auto simp: DustToCell_def intro!: rnd_nonneg)
  qed
qed

lemma nonneg_put:
  "nonneg_store s \<Longrightarrow> 0 \<le> acc_Balance acc \<Longrightarrow> nonneg_store (put_account s a acc)"
  by (simp add: nonneg_store_def)

lemma nonneg_get: "nonneg_store s \<Longrightarrow> as_accounts s a = Some acc \<Longrightarrow> 0 \<le> acc_Balance acc"
  by (simp add: nonneg_store_def)

lemma new_account_nonneg: "0 \<le> acc_Balance (new_account a)"
  by (simp add: new_account_def float_le_cases zero_float64_def)

lemma nonneg_get_or_new:
  "nonneg_store s \<Longrightarrow>
     0 \<le> acc_Balance (case as_accounts s a of None \<Rightarrow> new_account a | Some r \<Rightarrow> r)"
  using new_account_nonneg by (cases "as_accounts s a") (simp_all add: nonneg_get)

definition tx_amounts_ok :: "Tx \<Rightarrow> bool" where
  "tx_amounts_ok tx \<longleftrightarrow>
     amount_ok (tx_Amount tx) \<and> amount_ok (tx_Fee tx) \<and> amount_ok (tx_Amount tx + tx_Fee tx)"

fun op_amounts_ok :: "acct_op \<Rightarrow> bool" where
  "op_amounts_ok (OpCharge a x n) = amount_ok x"
| "op_amounts_ok (OpDebitBump a x n) = amount_ok x"
| "op_amounts_ok (OpChargeCreate a x n) = amount_ok x"
| "op_amounts_ok (OpReward None x) = True"
| "op_amounts_ok (OpReward (Some tx) x) = (tx_amounts_ok tx \<and> amount_ok x)"
| "op_amounts_ok (OpDebit a x) = amount_ok x"
| "op_amounts_ok (OpCredit a x) = amount_ok x"
| "op_amounts_ok (OpApplyTx tx) = tx_amounts_ok tx"

lemma charge_nonneg:
  "nonneg_store s \<Longrightarrow> amount_ok x \<Longrightarrow> nonneg_store (fst (ChargeAndBumpNonce s a x n))"
  by (auto simp: ChargeAndBumpNonce_def split: option.split
      intro!: nonneg_put sub_amount_nonneg dest: nonneg_get)

lemma charge_create_nonneg:
  "nonneg_store s \<Longrightarrow> amount_ok x \<Longrightarrow> nonneg_store (fst (ChargeAndBumpNonceAllowCreate s a x n))"
  by (auto simp: ChargeAndBumpNonceAllowCreate_def Let_def split: option.split
      intro!: nonneg_put sub_amount_nonneg dest: nonneg_get intro: new_account_nonneg)

lemma debit_nonneg:
  "nonneg_store s \<Longrightarrow> amount_ok x \<Longrightarrow> nonneg_store (fst (Debit s a x))"
  by (auto simp: Debit_def split: option.split
      intro!: nonneg_put sub_amount_nonneg dest: nonneg_get)

lemma credit_nonneg:
  "nonneg_store s \<Longrightarrow> amount_ok x \<Longrightarrow> nonneg_store (Credit oob fork s a x)"
  by (auto simp: Credit_def Let_def setBalanceDustLocked_def DustToCell_nonneg
      intro!: nonneg_put float_add_nonneg nonneg_get_or_new dest: amount_ok_nonneg)

lemma nonneg_put2:
  "nonneg_store s \<Longrightarrow> 0 \<le> acc_Balance x \<Longrightarrow> 0 \<le> acc_Balance y \<Longrightarrow>
     nonneg_store (s\<lparr>as_accounts := (as_accounts s)(a \<mapsto> x, b \<mapsto> y)\<rparr>)"
  by (simp add: nonneg_store_def)

lemma reward_nonneg:
  assumes "nonneg_store s" and "op_amounts_ok (OpReward txp x)"
  shows "nonneg_store (fst (ApplyProtocolReward s txp x))"
proof (cases txp)
  case None
  with assms show ?thesis by (simp add: ApplyProtocolReward_def)
next
  case (Some tx)
  with assms have ok: "amount_ok (tx_Amount tx + tx_Fee tx)" "0 \<le> x"
    by (auto simp: tx_amounts_ok_def dest: amount_ok_nonneg)
  show ?thesis
    using Some ok assms(1)
    by (auto simp: ApplyProtocolReward_def Let_def split: option.split
        intro!: nonneg_put nonneg_put2 float_add_nonneg sub_amount_nonneg dest: nonneg_get
        intro: new_account_nonneg)
qed

lemma apply_tx_nonneg:
  assumes "nonneg_store s" and "tx_amounts_ok tx"
  shows "nonneg_store (fst (ApplyTx fork s tx))"
proof -
  have ok: "amount_ok (tx_Amount tx + tx_Fee tx)" "0 \<le> tx_Amount tx"
    using assms(2) by (auto simp: tx_amounts_ok_def dest: amount_ok_nonneg)
  show ?thesis
    using ok assms(1)
    by (auto simp: ApplyTx_def Let_def setBalanceDustLocked_def DustToCell_nonneg split: option.split
        intro!: nonneg_put nonneg_put2 float_add_nonneg sub_amount_nonneg dest: nonneg_get
        intro: new_account_nonneg)
qed

lemma run_acct_nonneg:
  "nonneg_store s \<Longrightarrow> op_amounts_ok p \<Longrightarrow> nonneg_store (fst (run_acct oob fork s p))"
  by (cases p)
    (simp_all add: charge_nonneg charge_create_nonneg debit_nonneg credit_nonneg reward_nonneg
      apply_tx_nonneg DebitAndBumpNonce_def)

text \<open>
  C12. No sequence of store operations whose amounts are finite and non-negative (amount plus fee
  included) takes a balance below zero or to NaN, before or after the dust fork: every guard compares
  the balance with the amount before subtracting it, in the rounded arithmetic the subtraction uses.
  The restriction is needed: \<open>ApplyTx\<close> does not check the sign of an amount (\<open>negative_transfer_overdraws\<close>).
\<close>

theorem balances_stay_nonneg:
  assumes "nonneg_store s" and "\<forall>p \<in> set ps. op_amounts_ok p"
  shows "nonneg_store (run_accts oob fork s ps)"
  using assms by (induction ps arbitrary: s) (simp_all add: run_acct_nonneg)

definition demo_store :: AccountStore where
  "demo_store = (put_account NewAccountStore ''a''
     \<lparr>acc_Address = ''a'', acc_Balance = Fin 10, acc_Nonce = 4, acc_BalanceDust = 1000000000\<rparr>)"

definition demo_tx :: Tx where
  "demo_tx = \<lparr>tx_ID = ''t'', tx_Sender = ''a'', tx_Recipient = ''b'', tx_Amount = Fin 3, tx_Fee = Fin 1,
     tx_GasLimit = 0, tx_Nonce = 4, tx_Payload = [], tx_ContractID = [], tx_Signature = [],
     tx_PublicKey = [], tx_AddedAt = 0\<rparr>"

lemma demo_amounts: "op_amounts_ok (OpApplyTx demo_tx)"
  by (simp add: demo_tx_def tx_amounts_ok_def amount_ok_def)

lemma demo_nonneg: "nonneg_store demo_store"
  by (simp add: demo_store_def nonneg_store_def NewAccountStore_def float_le_cases)

theorem balances_stay_nonneg_witness:
  "nonneg_store (run_accts (\<lambda>_. 0) 100 demo_store [OpApplyTx demo_tx, OpDebit ''b'' (Fin 2)])"
  by (rule balances_stay_nonneg) (use demo_amounts in \<open>auto simp: demo_nonneg amount_ok_def\<close>)

text \<open>
  A transfer of a negative amount that the store is handed before the dust fork is applied: it takes the
  amount from the recipient, whose balance may become negative, and gives it to the sender. The
  pre-admission validator of the memory pool refuses such a transfer; the code that applies a block does not.
\<close>

lemma negative_transfer_overdraws:
  "as_accounts (fst (ApplyTx 100 demo_store (demo_tx\<lparr>tx_Amount := Fin (- 3)\<rparr>))) ''b'' =
     Some \<lparr>acc_Address = ''b'', acc_Balance = Fin (- 3), acc_Nonce = 0, acc_BalanceDust = 0\<rparr>"
  using rnd_of_int [of "- 2"] rnd_of_int [of "- 3"]
  by (simp add: ApplyTx_def demo_store_def demo_tx_def dustActive_def NewAccountStore_def Let_def new_account_def zero_float64_def)

text \<open>
  A store operation that reports an error changes nothing, the account creation of
  \<open>ChargeAndBumpNonceAllowCreate\<close> included: a freshly created account always passes the checks
  that follow.
\<close>

theorem acct_error_changes_nothing:
  "run_acct oob fork s p = (s', Some e) \<Longrightarrow> s' = s"
  by (cases p)
    (auto simp: charge_defs ApplyProtocolReward_def Debit_def ApplyTx_def Let_def new_account_def feq_def
      split: if_splits option.splits)

theorem acct_error_changes_nothing_witness:
  "run_acct (\<lambda>_. 0) 100 demo_store (OpDebit ''a'' (Fin 11)) = (demo_store, Some InsufficientBalance) \<and>
   demo_store = demo_store"
  using acct_error_changes_nothing
    [of "\<lambda>_. 0" 100 demo_store "OpDebit ''a'' (Fin 11)" demo_store InsufficientBalance]
  by (simp add: Debit_def demo_store_def NewAccountStore_def less_eq_float64_def zero_float64_def)

text \<open>
  C4. A transaction that was applied is never applied again, and neither is another one of the same
  sender and nonce, whatever store operations run in between (until the sender's 64-bit nonce has
  wrapped, which takes that many operations).
\<close>

theorem tx_replay_refused:
  assumes "ApplyTx fork s tx = (s', None)"
    and "tx_Sender tx' = tx_Sender tx" and "tx_Nonce tx' = tx_Nonce tx"
    and "length ps < 2 ^ 64 - 1"
  shows "snd (ApplyTx fork (run_accts oob fork s' ps) tx') \<noteq> None"
  using store_nonce.nonce_gone [OF tx_nonce.accepted_nonce [OF assms(1)] assms(4), of oob fork]
  by (intro tx_nonce.refused) (simp add: assms(2,3) run_accts_foldl)

theorem tx_replay_refused_witness:
  "snd (ApplyTx 100 (run_accts (\<lambda>_. 0) 100 (fst (ApplyTx 100 demo_store demo_tx))
          [OpCredit ''a'' (Fin 5)]) demo_tx) \<noteq> None"
proof (rule tx_replay_refused)
  show "ApplyTx 100 demo_store demo_tx = (fst (ApplyTx 100 demo_store demo_tx), None)"
    by (simp add: ApplyTx_def demo_store_def demo_tx_def dustActive_def NewAccountStore_def Let_def)
qed simp_all

section \<open>Conservation of dust\<close>

definition dust_supply :: "AccountStore \<Rightarrow> nat" where
  "dust_supply s = sum_over (\<lambda>acc. unat (acc_BalanceDust acc)) (as_accounts s)"

abbreviation dust_at :: "AccountStore \<Rightarrow> string \<Rightarrow> nat" where
  "dust_at s a \<equiv> (case as_accounts s a of None \<Rightarrow> 0 | Some acc \<Rightarrow> unat (acc_BalanceDust acc))"

lemma dust_supply_put:
  "finite (dom (as_accounts s)) \<Longrightarrow>
     dust_supply (put_account s a acc) + dust_at s a = dust_supply s + unat (acc_BalanceDust acc)"
  using sum_over_upd [of "as_accounts s" "\<lambda>acc. unat (acc_BalanceDust acc)" a acc]
  by (simp add: dust_supply_def)

lemma dust_at_le: "finite (dom (as_accounts s)) \<Longrightarrow> dust_at s a \<le> dust_supply s"
  using sum_over_member_le [of "as_accounts s" a _ "\<lambda>acc. unat (acc_BalanceDust acc)"]
  by (cases "as_accounts s a") (simp_all add: dust_supply_def)

text \<open>The recipient half of a transfer adds exactly the amount when the supply leaves room for it.\<close>

lemma dust_supply_receive:
  assumes "finite (dom (as_accounts s))" and "dust_supply s + unat d < 2 ^ 64"
    and "r = (case as_accounts s a of None \<Rightarrow> new_account a | Some r \<Rightarrow> r)"
  shows "dust_supply (put_account s a (setBalanceDustLocked r (acc_BalanceDust r + d)))
         = dust_supply s + unat d"
proof -
  have at: "dust_at s a = unat (acc_BalanceDust r)"
    using assms(3) by (simp add: new_account_def split: option.split)
  then have "unat (acc_BalanceDust r) + unat d < 2 ^ 64"
    using dust_at_le [OF assms(1), of a] assms(2) by simp
  then have "unat (acc_BalanceDust r + d) = unat (acc_BalanceDust r) + unat d"
    by (intro unat_plus_fits) simp
  then show ?thesis
    using dust_supply_put [OF assms(1), of a "setBalanceDustLocked r (acc_BalanceDust r + d)"] at
    by (simp add: setBalanceDustLocked_def)
qed

lemma ApplyTx_dust_ok:
  assumes "dustActive fork s" and "ApplyTx fork s tx = (s', None)"
  obtains sender where "as_accounts s (tx_Sender tx) = Some sender"
    and "unat (floorToDust (tx_Amount tx)) + unat (floorToDust (tx_Fee tx)) \<le> unat (acc_BalanceDust sender)"
    and "s' = (let s1 = put_account s (tx_Sender tx)
                     (setBalanceDustLocked sender
                        (acc_BalanceDust sender - (floorToDust (tx_Amount tx) + floorToDust (tx_Fee tx)))
                        \<lparr>acc_Nonce := acc_Nonce sender + 1\<rparr>);
                   r = (case as_accounts s1 (tx_Recipient tx) of
                          None \<Rightarrow> new_account (tx_Recipient tx) | Some r \<Rightarrow> r)
               in put_account s1 (tx_Recipient tx)
                    (setBalanceDustLocked r (acc_BalanceDust r + floorToDust (tx_Amount tx))))"
proof -
  obtain sender where s: "as_accounts s (tx_Sender tx) = Some sender"
    using assms(2) by (auto simp: ApplyTx_def split: option.splits)
  let ?a = "floorToDust (tx_Amount tx)" and ?f = "floorToDust (tx_Fee tx)"
  have nowrap: "\<not> ?a + ?f < ?a" and fits: "\<not> acc_BalanceDust sender < ?a + ?f"
    using assms s by (auto simp: ApplyTx_def Let_def split: if_splits)
  have "unat (?a + ?f) = unat ?a + unat ?f"
    using nowrap word_plus_wraps_iff [of ?a ?f] by (intro unat_plus_fits) simp
  with fits have "unat ?a + unat ?f \<le> unat (acc_BalanceDust sender)"
    by (simp add: word_less_nat_alt)
  moreover have "s' = (let s1 = put_account s (tx_Sender tx)
                     (setBalanceDustLocked sender (acc_BalanceDust sender - (?a + ?f))
                        \<lparr>acc_Nonce := acc_Nonce sender + 1\<rparr>);
                   r = (case as_accounts s1 (tx_Recipient tx) of
                          None \<Rightarrow> new_account (tx_Recipient tx) | Some r \<Rightarrow> r)
               in put_account s1 (tx_Recipient tx) (setBalanceDustLocked r (acc_BalanceDust r + ?a)))"
    using assms s nowrap fits by (auto simp: ApplyTx_def Let_def split: if_splits)
  ultimately show ?thesis using that s by blast
qed

text \<open>
  C15. On the dust fork a transfer conserves dust exactly: the total over all accounts falls by the
  fee and by nothing else, for a self-transfer and for a new recipient too, as long as the supply
  itself fits in 64 bits.
\<close>

theorem dust_transfer_conserves:
  assumes fin: "finite (dom (as_accounts s))" and "dustActive fork s"
    and "ApplyTx fork s tx = (s', None)" and cap: "dust_supply s < 2 ^ 64"
  shows "dust_supply s' + unat (floorToDust (tx_Fee tx)) = dust_supply s"
  using assms(2,3)
proof (rule ApplyTx_dust_ok)
  fix sender
  let ?a = "floorToDust (tx_Amount tx)" and ?f = "floorToDust (tx_Fee tx)"
  let ?acc = "setBalanceDustLocked sender (acc_BalanceDust sender - (?a + ?f))
                \<lparr>acc_Nonce := acc_Nonce sender + 1\<rparr>"
  let ?s1 = "put_account s (tx_Sender tx) ?acc"
  let ?r = "case as_accounts ?s1 (tx_Recipient tx) of None \<Rightarrow> new_account (tx_Recipient tx) | Some r \<Rightarrow> r"
  assume s: "as_accounts s (tx_Sender tx) = Some sender"
    and le: "unat ?a + unat ?f \<le> unat (acc_BalanceDust sender)"
    and s': "s' = (let s1 = ?s1; r = (case as_accounts s1 (tx_Recipient tx) of
                          None \<Rightarrow> new_account (tx_Recipient tx) | Some r \<Rightarrow> r)
               in put_account s1 (tx_Recipient tx) (setBalanceDustLocked r (acc_BalanceDust r + ?a)))"
  have sum: "unat (?a + ?f) = unat ?a + unat ?f"
    using le_unat_fits [OF le] by (intro unat_plus_fits) simp
  with le have "unat (acc_BalanceDust sender - (?a + ?f)) = unat (acc_BalanceDust sender) - (unat ?a + unat ?f)"
    by (subst unat_minus_le) (simp_all add: word_le_nat_alt)
  then have s1: "dust_supply ?s1 + (unat ?a + unat ?f) = dust_supply s"
    using dust_supply_put [OF fin, of "tx_Sender tx" ?acc] s le
    by (simp add: setBalanceDustLocked_def)
  have "dust_supply s' = dust_supply ?s1 + unat ?a"
    unfolding s' Let_def using fin s1 cap by (intro dust_supply_receive) simp_all
  with s1 show ?thesis by simp
qed

lemma maxUint64_f_eq: "maxUint64_f = Fin (2 ^ 64)"
proof -
  have "rnd 18446744073709551615 = Fin (of_int (2 ^ 53) * 2 powi 11)"
    by (rule rnd_certified) simp_all
  then show ?thesis by (simp add: maxUint64_f_def f64_of_u64_def)
qed

lemma floorToDust_whole:
  assumes "n * 100000000 \<le> 2 ^ 53"
  shows "floorToDust (Fin (of_nat n)) = of_nat (n * 100000000)"
proof (cases "n = 0")
  case True
  then show ?thesis by (simp add: floorToDust_def less_eq_float64_def zero_float64_def)
next
  case False
  have le: "int n * 100000000 \<le> 2 ^ 53" using assms by simp
  have "rnd (of_int (int n * 100000000)) = Fin (of_int (int n * 100000000))"
    using le by (intro rnd_of_int) simp
  then have r: "rnd (of_nat n * 100000000) = Fin (of_nat n * 100000000)" by simp
  have "(of_int (int n * 100000000) :: rat) \<le> of_int (2 ^ 53)" using le by (simp only: of_int_le_iff)
  then have small: "(of_nat n * 100000000 :: rat) < 2 ^ 64" by simp
  have fl: "\<lfloor>of_nat n * 100000000 :: rat\<rfloor> = int n * 100000000"
    by (metis floor_of_int of_int_mult of_int_numeral of_int_of_nat_eq)
  show ?thesis
    using False small
    by (simp add: floorToDust_def r fl maxUint64_f_eq f64_to_u64_def is_nan_def zero_float64_def)
qed

theorem dust_transfer_conserves_witness:
  "let s = SetHeightFn demo_store (Some 200) in
   dust_supply (fst (ApplyTx 100 s demo_tx)) + unat (floorToDust (Fin 1)) = dust_supply s"
proof -
  let ?s = "SetHeightFn demo_store (Some 200)"
  have [simp]: "floorToDust (Fin 3) = 300000000" "floorToDust (Fin 1) = 100000000"
    using floorToDust_whole [of 3] floorToDust_whole [of 1] by simp_all
  have "ApplyTx 100 ?s demo_tx = (fst (ApplyTx 100 ?s demo_tx), None)"
    by (simp add: ApplyTx_def SetHeightFn_def demo_store_def demo_tx_def dustActive_def
        IsDustAccounting_def NewAccountStore_def Let_def)
  then have "dust_supply (fst (ApplyTx 100 ?s demo_tx)) + unat (floorToDust (tx_Fee demo_tx)) = dust_supply ?s"
    by (intro dust_transfer_conserves [of _ 100])
      (simp_all add: SetHeightFn_def demo_store_def NewAccountStore_def dustActive_def IsDustAccounting_def
        dust_supply_def sum_over_def)
  then show ?thesis by (simp add: demo_tx_def Let_def)
qed

section \<open>Migration\<close>

definition dust_fits :: "float64 \<Rightarrow> bool" where
  "dust_fits b \<longleftrightarrow> b \<le> 0 \<or> is_nan b \<or> \<not> maxUint64_f \<le> b * f64_of_u64 DustPerCellInt"

lemma migrate_pending_step:
  "dust_fits (acc_Balance (the (accts a))) \<Longrightarrow>
     \<exists>t'. migrate_pending accts (a # addrs) p t =
          migrate_pending accts addrs (p(a \<mapsto> floorToDust (acc_Balance (the (accts a))))) t'"
  by (auto simp: Let_def floorToDust_def dust_fits_def)

lemma migrate_pending_ok:
  assumes "\<forall>a \<in> set addrs. dust_fits (acc_Balance (the (accts a)))"
  shows "\<exists>t'. migrate_pending accts addrs p t =
     Inr (\<lambda>a. if a \<in> set addrs then Some (floorToDust (acc_Balance (the (accts a)))) else p a, t')"
  using assms
proof (induction addrs arbitrary: p t)
  case (Cons a addrs)
  let ?p = "p(a \<mapsto> floorToDust (acc_Balance (the (accts a))))"
  obtain t1 where t1: "migrate_pending accts (a # addrs) p t = migrate_pending accts addrs ?p t1"
    using migrate_pending_step [of accts a] Cons.prems by fastforce
  have "\<forall>a \<in> set addrs. dust_fits (acc_Balance (the (accts a)))" using Cons.prems by simp
  from Cons.IH [OF this, of ?p t1] obtain t2 where
    "migrate_pending accts addrs ?p t1 = Inr (\<lambda>a. if a \<in> set addrs
      then Some (floorToDust (acc_Balance (the (accts a)))) else ?p a, t2)" by blast
  moreover have "(\<lambda>a. if a \<in> set addrs then Some (floorToDust (acc_Balance (the (accts a)))) else ?p a) =
      (\<lambda>b. if b \<in> set (a # addrs) then Some (floorToDust (acc_Balance (the (accts b)))) else p b)"
    by auto
  ultimately show ?case using t1 by auto
qed simp

lemma migrate_pending_err:
  assumes "\<exists>a \<in> set addrs. \<not> dust_fits (acc_Balance (the (accts a)))"
  shows "\<exists>a \<in> set addrs. migrate_pending accts addrs p t = Inl (DustUnrepresentable a)"
  using assms
proof (induction addrs arbitrary: p t)
  case (Cons a addrs)
  then show ?case by (cases "dust_fits (acc_Balance (the (accts a)))") (auto simp: Let_def dust_fits_def)
qed simp

lemma migrate_write_eq:
  assumes "distinct addrs"
  shows "migrate_write pending addrs accts a =
    (if a \<in> set addrs then Some (setBalanceDustLocked (the (accts a)) (the (pending a))) else accts a)"
  using assms by (induction addrs arbitrary: accts) auto

definition dust_account :: "Account \<Rightarrow> Account" where
  "dust_account acc = setBalanceDustLocked acc (floorToDust (acc_Balance acc))"

text \<open>
  C16. Migration is all or nothing and does not depend on the order the account map is ranged over. If
  every balance has a dust value, each account keeps its address and nonce, gets the floor of its
  balance in dust and the balance that dust is worth; otherwise it reports an account and the store
  is untouched.
\<close>

theorem migration_all_or_nothing:
  assumes "iteration (as_accounts s) ks" and "\<not> as_dustMigrated s"
  shows "(if \<forall>a acc. as_accounts s a = Some acc \<longrightarrow> dust_fits (acc_Balance acc)
          then \<exists>dropped. MigrateToDust oob ks s =
                 (s\<lparr>as_accounts := map_option dust_account \<circ> as_accounts s, as_dustMigrated := True\<rparr>, dropped, None)
          else \<exists>a. MigrateToDust oob ks s = (s, 0, Some (DustUnrepresentable a)))
         \<and> (\<forall>ks'. iteration (as_accounts s) ks' \<longrightarrow> MigrateToDust oob ks' s = MigrateToDust oob ks s)"
    (is "?main \<and> ?order")
proof (intro conjI)
  have keys: "set (sort ks) = dom (as_accounts s)" "distinct (sort ks)"
    using iterationD [OF assms(1)] by simp_all
  show ?main
  proof (cases "\<forall>a acc. as_accounts s a = Some acc \<longrightarrow> dust_fits (acc_Balance acc)")
    case True
    then have "\<forall>a \<in> set (sort ks). dust_fits (acc_Balance (the (as_accounts s a)))" using keys by auto
    from migrate_pending_ok [OF this] obtain t where
      t: "migrate_pending (as_accounts s) (sort ks) Map.empty 0 = Inr (\<lambda>a. if a \<in> set (sort ks)
            then Some (floorToDust (acc_Balance (the (as_accounts s a)))) else None, t)" by blast
    have "migrate_write (\<lambda>a. if a \<in> set (sort ks) then Some (floorToDust (acc_Balance (the (as_accounts s a))))
            else None) (sort ks) (as_accounts s) = map_option dust_account \<circ> as_accounts s"
      using keys by (auto simp: migrate_write_eq dust_account_def fun_eq_iff domIff)
    then have "\<exists>dropped. MigrateToDust oob ks s =
        (s\<lparr>as_accounts := map_option dust_account \<circ> as_accounts s, as_dustMigrated := True\<rparr>, dropped, None)"
      using assms(2) t by (simp add: MigrateToDust_def Let_def)
    with True show ?thesis by simp
  next
    case False
    then have "\<exists>a \<in> set (sort ks). \<not> dust_fits (acc_Balance (the (as_accounts s a)))" using keys by force
    from migrate_pending_err [OF this, of Map.empty 0] have "\<exists>a. MigrateToDust oob ks s = (s, 0, Some (DustUnrepresentable a))"
      using assms(2) by (auto simp: MigrateToDust_def Let_def)
    then show ?thesis by (subst if_not_P [OF False])
  qed
  show ?order
  proof (intro allI impI)
    fix ks' assume "iteration (as_accounts s) ks'"
    then have "sort ks' = sort ks" using assms(1) by (rule iteration_sort_unique)
    then show "MigrateToDust oob ks' s = MigrateToDust oob ks s" by (simp only: MigrateToDust_def)
  qed
qed

theorem migration_all_or_nothing_witness:
  "\<exists>dropped. MigrateToDust (\<lambda>_. 0) [''a''] demo_store =
     (demo_store\<lparr>as_accounts := map_option dust_account \<circ> as_accounts demo_store, as_dustMigrated := True\<rparr>,
      dropped, None)"
proof -
  have "iteration (as_accounts demo_store) [''a'']" "\<not> as_dustMigrated demo_store"
    by (simp_all add: iteration_def demo_store_def NewAccountStore_def)
  moreover have "\<forall>a acc. as_accounts demo_store a = Some acc \<longrightarrow> dust_fits (acc_Balance acc)"
    by (simp add: demo_store_def NewAccountStore_def dust_fits_def maxUint64_f_eq)
  ultimately show ?thesis
    using conjunct1 [OF migration_all_or_nothing [of demo_store "[''a'']" "\<lambda>_. 0"]] by (simp only: if_P not_False_eq_True)
qed

section \<open>The supply counter\<close>

inductive_simps supply_step_simps: "supply_step (s, c) y"

lemma mint_check_cap:
  assumes "mint_check m cur dust = Some n" and "cur \<le> m"
  shows "n \<le> m" and "unat n = unat cur + unat dust"
proof -
  have "\<not> m - cur < dust" and n: "n = cur + dust" using assms(1) by (simp_all add: mint_check_def split: if_splits)
  then have "unat dust \<le> unat m - unat cur"
    using assms(2) by (simp add: word_less_nat_alt unat_minus_le)
  then have le: "unat cur + unat dust \<le> unat m" using assms(2) by (simp add: word_le_nat_alt)
  then show "unat n = unat cur + unat dust"
    unfolding n using le_unat_fits [OF le] by (intro unat_plus_fits) simp
  with le show "n \<le> m" by (simp add: word_le_nat_alt)
qed

lemma burn_next_le: "burn_next cur dust \<le> cur"
  using unat_minus_le [of dust cur] by (auto simp: burn_next_def word_le_nat_alt word_less_nat_alt)

lemma supply_step_cap:
  assumes "supply_step x y" and "sl_issued (fst x) \<le> sl_cap (fst x)"
  shows "sl_issued (fst y) \<le> sl_cap (fst y) \<and> sl_cap (fst y) = sl_cap (fst x)"
  using assms
  by (cases rule: supply_step.cases) (auto dest: mint_check_cap(1) intro: order_trans [OF burn_next_le])

text \<open>
  C17. Whatever the interleaving of \<open>Mint\<close> and \<open>Burn\<close> calls, each of them anywhere between its load and
  its compare-and-swap, the issued amount never exceeds the cap, and the cap never moves. A call that
  runs alone is refused exactly when it would exceed the cap, and otherwise adds its amount.
\<close>

theorem supply_cap_never_exceeded:
  assumes "sl_issued s0 \<le> sl_cap s0" and "supply_reach s0 x"
  shows "sl_issued (fst x) \<le> sl_cap (fst x) \<and> sl_cap (fst x) = sl_cap s0 \<and>
         (case Mint (fst x) dust of
            None \<Rightarrow> unat (sl_cap s0) < unat (sl_issued (fst x)) + unat dust
          | Some s' \<Rightarrow> unat (sl_issued s') = unat (sl_issued (fst x)) + unat dust \<and> sl_issued s' \<le> sl_cap s')"
proof -
  have inv: "sl_issued (fst x) \<le> sl_cap (fst x) \<and> sl_cap (fst x) = sl_cap s0"
    using assms(2,1) by (induction rule: supply_reach.induct) (auto dest: supply_step_cap)
  moreover have "unat (sl_cap s0) < unat (sl_issued (fst x)) + unat dust"
    if "mint_check (sl_cap (fst x)) (sl_issued (fst x)) dust = None"
    using that inv by (auto simp: mint_check_def word_less_nat_alt unat_minus_le split: if_splits)
  ultimately show ?thesis
    by (auto simp: Mint_def split: option.split dest: mint_check_cap)
qed

theorem supply_cap_never_exceeded_witness:
  "let s = NewSupplyLedger\<lparr>sl_issued := 5\<rparr> in
   sl_issued s \<le> sl_cap s \<and> unat (sl_issued (the (Mint s 7))) = 12"
proof -
  let ?init = NewSupplyLedger and ?s = "NewSupplyLedger\<lparr>sl_issued := 5\<rparr>"
  have "supply_step (?init, \<lambda>_. Idle) (?init, (\<lambda>_. Idle)(0 := Minting 5 (sl_issued ?init)))"
    by (rule mint_load) simp_all
  then have "supply_reach ?init (?init, (\<lambda>_. Idle)(0 := Minting 5 (sl_issued ?init)))"
    by (rule supply_reach.step [OF supply_reach.start])
  moreover have "supply_step (?init, (\<lambda>_. Idle)(0 := Minting 5 (sl_issued ?init)))
      (?s, ((\<lambda>_. Idle)(0 := Minting 5 (sl_issued ?init)))(0 := Idle))"
    by (rule mint_swap [where dust = 5 and cur = 0])
      (simp_all add: mint_check_def NewSupplyLedger_def CellSupplyCapDust_def)
  ultimately have "supply_reach ?init (?s, ((\<lambda>_. Idle)(0 := Minting 5 (sl_issued ?init)))(0 := Idle))"
    by (rule supply_reach.step)
  from supply_cap_never_exceeded [OF _ this, of 7] show ?thesis
    by (simp add: Mint_def mint_check_def NewSupplyLedger_def CellSupplyCapDust_def Let_def)
qed

section \<open>What the state root binds\<close>

lemma digit_code: "m < 10 \<Longrightarrow> of_char (char_of (48 + m) :: char) = (48 + m :: nat)"
  by (simp add: take_bit_eq_mod)

lemma digit_inj: "m < 10 \<Longrightarrow> n < 10 \<Longrightarrow> (char_of (48 + m) :: char) = char_of (48 + n) \<Longrightarrow> m = (n::nat)"
  using digit_code [of m] digit_code [of n] by simp

lemma digit_no_sep:
  assumes "m < 10"
  shows "(char_of (48 + m :: nat) :: char) \<notin> {CHR '':'', CHR '';''}"
  using assms by (auto simp: char_of_eq_iff take_bit_eq_mod)

lemma show_nat_digits: "c \<in> set (show_nat n) \<Longrightarrow> c \<notin> {CHR '':'', CHR '';''}"
proof (induction n rule: show_nat.induct)
  case (1 n)
  then show ?case
    using digit_no_sep [of n] digit_no_sep [of "n mod 10"]
    by (subst (asm) (2) show_nat.simps) (auto split: if_splits)
qed

lemma show_nat_sep: "CHR '':'' \<notin> set (show_nat n)" "CHR '';'' \<notin> set (show_nat n)"
  using show_nat_digits by blast+

lemma show_nat_small: "n < 10 \<Longrightarrow> show_nat n = [char_of (48 + n)]"
  by (subst show_nat.simps) simp

lemma show_nat_large: "\<not> n < 10 \<Longrightarrow> show_nat n = show_nat (n div 10) @ [char_of (48 + n mod 10)]"
  by (subst show_nat.simps) simp

lemma show_nat_nonempty: "show_nat n \<noteq> []"
  by (subst show_nat.simps) simp

lemma show_nat_length: "length (show_nat n) = 1 \<longleftrightarrow> n < 10"
  using show_nat_nonempty [of "n div 10"]
  by (cases "n < 10") (simp_all add: show_nat_small show_nat_large)

lemma show_nat_inj: "show_nat m = show_nat n \<Longrightarrow> m = n"
proof (induction m arbitrary: n rule: show_nat.induct)
  case (1 m)
  then have same: "m < 10 \<longleftrightarrow> n < 10" using show_nat_length [of m] show_nat_length [of n] by simp
  show ?case
  proof (cases "m < 10")
    case True
    with 1(2) same show ?thesis by (auto simp: show_nat_small intro: digit_inj)
  next
    case False
    with 1(2) same have "show_nat (m div 10) = show_nat (n div 10)"
        "(char_of (48 + m mod 10) :: char) = char_of (48 + n mod 10)"
      by (simp_all only: show_nat_large append1_eq_conv simp_thms)
    then have "m div 10 = n div 10" "m mod 10 = n mod 10"
      using 1(1) [OF False] digit_inj [of "m mod 10" "n mod 10"] by simp_all
    then show ?thesis by (metis div_mult_mod_eq)
  qed
qed

text \<open>A field that does not contain its terminator is read back uniquely.\<close>

lemma field_unique:
  assumes "c \<notin> set xs" and "c \<notin> set ys" and "xs @ c # us = ys @ c # vs"
  shows "xs = ys \<and> us = vs"
  using assms by (auto simp: append_eq_append_conv2 append_eq_Cons_conv Cons_eq_append_conv)

lemma segment_unique:
  assumes "CHR '':'' \<notin> set (acc_Address x)" and "CHR '':'' \<notin> set (acc_Address y)"
    and "dustStateRootSegment x @ us = dustStateRootSegment y @ vs"
  shows "acc_Address x = acc_Address y \<and> acc_BalanceDust x = acc_BalanceDust y \<and>
         acc_Nonce x = acc_Nonce y \<and> us = vs"
proof -
  let ?d = "\<lambda>acc. show_nat (unat (acc_BalanceDust acc))" and ?n = "\<lambda>acc. show_nat (unat (acc_Nonce acc))"
  have e: "acc_Address x @ CHR '':'' # ?d x @ CHR '':'' # ?n x @ CHR '';'' # us =
        acc_Address y @ CHR '':'' # ?d y @ CHR '':'' # ?n y @ CHR '';'' # vs"
    using assms(3) by (simp add: dustStateRootSegment_def)
  from field_unique [OF assms(1,2) this]
  have a: "acc_Address x = acc_Address y"
    and e2: "?d x @ CHR '':'' # ?n x @ CHR '';'' # us = ?d y @ CHR '':'' # ?n y @ CHR '';'' # vs" by simp_all
  from field_unique [OF _ _ e2] have d: "?d x = ?d y"
    and e3: "?n x @ CHR '';'' # us = ?n y @ CHR '';'' # vs" by (simp_all add: show_nat_sep)
  from field_unique [OF _ _ e3] have n: "?n x = ?n y" and "us = vs" by (simp_all add: show_nat_sep)
  with a show_nat_inj [OF d] show_nat_inj [OF n] show ?thesis
    by (simp only: word_unat_eq_iff simp_thms)
qed

definition addressed :: "AccountStore \<Rightarrow> bool" where
  "addressed s \<longleftrightarrow> (\<forall>a acc. as_accounts s a = Some acc \<longrightarrow> acc_Address acc = a \<and> CHR '':'' \<notin> set a)"

lemma segments_unique:
  assumes "\<forall>a \<in> set xs. \<exists>acc. m a = Some acc \<and> acc_Address acc = a \<and> CHR '':'' \<notin> set a"
    and "\<forall>a \<in> set ys. \<exists>acc. n a = Some acc \<and> acc_Address acc = a \<and> CHR '':'' \<notin> set a"
    and "concat (map (\<lambda>a. dustStateRootSegment (the (m a))) xs) =
         concat (map (\<lambda>a. dustStateRootSegment (the (n a))) ys)"
  shows "xs = ys \<and> (\<forall>a \<in> set xs. acc_BalanceDust (the (m a)) = acc_BalanceDust (the (n a)) \<and>
                              acc_Nonce (the (m a)) = acc_Nonce (the (n a)))"
  using assms
proof (induction xs arbitrary: ys)
  case Nil
  then show ?case by (cases ys) (simp_all add: dustStateRootSegment_def)
next
  case (Cons x xs)
  then obtain y ys' where ys: "ys = y # ys'" by (cases ys) (simp_all add: dustStateRootSegment_def)
  obtain p q where p: "m x = Some p" "acc_Address p = x" "CHR '':'' \<notin> set x"
    and q: "n y = Some q" "acc_Address q = y" "CHR '':'' \<notin> set y"
    using Cons.prems(1,2) ys by auto
  from segment_unique [of p q] p q Cons.prems(3) ys
  have "x = y" "acc_BalanceDust p = acc_BalanceDust q" "acc_Nonce p = acc_Nonce q"
    "concat (map (\<lambda>a. dustStateRootSegment (the (m a))) xs) =
     concat (map (\<lambda>a. dustStateRootSegment (the (n a))) ys')" by auto
  with Cons.IH [of ys'] Cons.prems(1,2) ys p q show ?case by auto
qed

text \<open>
  On the dust fork the bytes hashed into the state root determine the ledger: two stores whose
  addresses contain no colon and whose root preimages agree have the same accounts, with the same
  dust and the same nonces, whatever the order their maps were ranged over. So two ledgers that
  differ share a state root only if SHA-256 collides on these two preimages.
\<close>

theorem dust_state_root_binding:
  assumes "iteration (as_accounts s) ks" and "iteration (as_accounts t) ls"
    and "dustActive fork s" and "dustActive fork t" and "addressed s" and "addressed t"
    and "state_root_preimage fork ks s = state_root_preimage fork ls t"
  shows "map_option (\<lambda>acc. (acc_Address acc, acc_BalanceDust acc, acc_Nonce acc)) (as_accounts s a) =
         map_option (\<lambda>acc. (acc_Address acc, acc_BalanceDust acc, acc_Nonce acc)) (as_accounts t a)"
proof -
  have keys: "set (sort ks) = dom (as_accounts s)" "set (sort ls) = dom (as_accounts t)"
    using iterationD [OF assms(1)] iterationD [OF assms(2)] by simp_all
  have "sort ks = sort ls \<and> (\<forall>a \<in> set (sort ks).
      acc_BalanceDust (the (as_accounts s a)) = acc_BalanceDust (the (as_accounts t a)) \<and>
      acc_Nonce (the (as_accounts s a)) = acc_Nonce (the (as_accounts t a)))"
  proof (rule segments_unique)
    show "concat (map (\<lambda>a. dustStateRootSegment (the (as_accounts s a))) (sort ks)) =
          concat (map (\<lambda>a. dustStateRootSegment (the (as_accounts t a))) (sort ls))"
      using assms(3,4,7) by (simp add: state_root_preimage_def)
  qed (use keys assms(5,6) in \<open>auto simp: addressed_def\<close>)
  then have same: "dom (as_accounts s) = dom (as_accounts t)"
    and vals: "\<forall>a \<in> dom (as_accounts s).
      acc_BalanceDust (the (as_accounts s a)) = acc_BalanceDust (the (as_accounts t a)) \<and>
      acc_Nonce (the (as_accounts s a)) = acc_Nonce (the (as_accounts t a))"
    using keys by (simp_all only: simp_thms) blast+
  show ?thesis
  proof (cases "a \<in> dom (as_accounts s)")
    case True
    then obtain x y where "as_accounts s a = Some x" "as_accounts t a = Some y"
      using same by (metis domD)
    with bspec [OF vals True] assms(5,6) show ?thesis by (auto simp: addressed_def)
  next
    case False
    then have "a \<notin> dom (as_accounts t)" using same by blast
    with False show ?thesis by (simp add: domIff)
  qed
qed

theorem dust_state_root_binding_witness:
  "let s = SetHeightFn demo_store (Some 200) in
   map_option (\<lambda>acc. (acc_Address acc, acc_BalanceDust acc, acc_Nonce acc)) (as_accounts s ''a'') =
   map_option (\<lambda>acc. (acc_Address acc, acc_BalanceDust acc, acc_Nonce acc))
     (as_accounts (s\<lparr>as_dustMigrated := True\<rparr>) ''a'')"
  unfolding Let_def
  by (rule dust_state_root_binding [of _ "[''a'']" _ "[''a'']" 100])
    (simp_all add: iteration_def SetHeightFn_def demo_store_def NewAccountStore_def dustActive_def
      IsDustAccounting_def addressed_def state_root_preimage_def)

text \<open>
  On the dust fork a debit does not last: \<open>Debit\<close> lowers only the float balance, the next credit
  recomputes it from the dust balance, and the account is then as if nothing had been debited.
\<close>

theorem dust_debit_lost_at_next_credit:
  assumes "dustActive fork s" and "Debit s a x = (s', None)"
  shows "as_accounts (Credit oob fork s' a y) a = as_accounts (Credit oob fork s a y) a"
  using assms
  by (auto simp: Debit_def Credit_def dustActive_def setBalanceDustLocked_def Let_def split: if_splits option.splits sum.splits)

theorem dust_debit_lost_at_next_credit_witness:
  "let s = demo_store\<lparr>as_heightFn := Some 200\<rparr>; s' = fst (Debit s ''a'' (Fin 2)) in
     as_accounts s' ''a'' \<noteq> as_accounts s ''a'' \<and>
     as_accounts (Credit (\<lambda>_. 0) 100 s' ''a'' (Fin 1)) ''a'' = as_accounts (Credit (\<lambda>_. 0) 100 s ''a'' (Fin 1)) ''a''"
proof -
  let ?s = "demo_store\<lparr>as_heightFn := Some 200\<rparr>"
  let ?s' = "fst (Debit ?s ''a'' (Fin 2))"
  have act: "dustActive 100 ?s" by (simp add: dustActive_def IsDustAccounting_def)
  have "snd (Debit ?s ''a'' (Fin 2)) = None"
    by (simp add: Debit_def demo_store_def zero_float64_def)
  then have deb: "Debit ?s ''a'' (Fin 2) = (?s', None)" by (metis prod.collapse)
  have "as_accounts ?s' ''a'' \<noteq> as_accounts ?s ''a''"
    by (simp add: Debit_def demo_store_def zero_float64_def minus_float64_def)
  with dust_debit_lost_at_next_credit [OF act deb] show ?thesis by (simp add: Let_def)
qed

end
