(* ===== verification/Go_Heap.thy ===== *)
theory Go_Heap
  imports Go_Prelude "HOL-Library.Multiset"
begin

text \<open>
  The part of Go's \<open>container/heap\<close> that the memory pool uses, on lists: sift up, sift down, \<open>Push\<close>,
  \<open>Pop\<close> and \<open>Remove\<close>, with the element order as the argument \<open>lt\<close> (the \<open>Less\<close> of \<open>heap.Interface\<close>).
  The locale \<open>heap_order\<close> is what the algorithms need of the order, on the elements that satisfy
  \<open>ok\<close>: it is asymmetric and its complement is transitive, which a comparison of floats is exactly
  when no element is NaN. Under it every operation keeps the heap property and the multiset of elements.
\<close>

section \<open>Operations\<close>

definition list_swap :: "'a list \<Rightarrow> nat \<Rightarrow> nat \<Rightarrow> 'a list" where
  "list_swap xs i j = xs[i := xs ! j, j := xs ! i]"

abbreviation parent :: "nat \<Rightarrow> nat" where
  "parent j \<equiv> (j - 1) div 2"

function heap_up :: "('a \<Rightarrow> 'a \<Rightarrow> bool) \<Rightarrow> 'a list \<Rightarrow> nat \<Rightarrow> 'a list" where
  "heap_up lt xs j =
     (let i = parent j
      in if i = j \<or> \<not> lt (xs ! j) (xs ! i) then xs else heap_up lt (list_swap xs i j) i)"
  by pat_completeness auto
termination by (relation "measure (\<lambda>(_, _, j). j)") auto

declare heap_up.simps [simp del]

lemma heap_up_stop: "j = 0 \<or> \<not> lt (xs ! j) (xs ! parent j) \<Longrightarrow> heap_up lt xs j = xs"
  by (subst heap_up.simps) (auto simp: Let_def)

lemma heap_up_step:
  "0 < j \<Longrightarrow> lt (xs ! j) (xs ! parent j) \<Longrightarrow> heap_up lt xs j = heap_up lt (list_swap xs (parent j) j) (parent j)"
  by (subst heap_up.simps) (auto simp: Let_def)

text \<open>The child that sifting down compares with: the right one only if it is strictly before the left.\<close>

definition best_child :: "('a \<Rightarrow> 'a \<Rightarrow> bool) \<Rightarrow> 'a list \<Rightarrow> nat \<Rightarrow> nat \<Rightarrow> nat" where
  "best_child lt xs i n =
     (let j1 = 2 * i + 1; j2 = j1 + 1 in if j2 < n \<and> lt (xs ! j2) (xs ! j1) then j2 else j1)"

lemma best_child_gt: "i < best_child lt xs i n"
  by (simp add: best_child_def Let_def)

text \<open>Sifting down also returns the position it stopped at; the Go function returns whether it moved.\<close>

function heap_down_pos :: "('a \<Rightarrow> 'a \<Rightarrow> bool) \<Rightarrow> 'a list \<Rightarrow> nat \<Rightarrow> nat \<Rightarrow> 'a list \<times> nat" where
  "heap_down_pos lt xs i n =
     (if n \<le> 2 * i + 1 then (xs, i)
      else (let j = best_child lt xs i n
            in if \<not> lt (xs ! j) (xs ! i) then (xs, i)
               else heap_down_pos lt (list_swap xs i j) j n))"
  by pat_completeness auto
termination
proof (relation "measure (\<lambda>(_, _, i, n). n - i)")
  fix lt :: "'a \<Rightarrow> 'a \<Rightarrow> bool" and xs i n j
  assume "\<not> n \<le> 2 * i + 1" "j = best_child lt xs i n"
  then show "((lt, list_swap xs i j, j, n), (lt, xs, i, n)) \<in> measure (\<lambda>(_, _, i, n). n - i)"
    using best_child_gt [of i lt xs n] by simp
qed simp

declare heap_down_pos.simps [simp del]

lemma heap_down_stop:
  "n \<le> 2 * i + 1 \<or> \<not> lt (xs ! best_child lt xs i n) (xs ! i) \<Longrightarrow> heap_down_pos lt xs i n = (xs, i)"
  by (subst heap_down_pos.simps) (auto simp: Let_def)

lemma heap_down_step:
  "\<not> n \<le> 2 * i + 1 \<Longrightarrow> lt (xs ! best_child lt xs i n) (xs ! i) \<Longrightarrow>
     heap_down_pos lt xs i n =
       heap_down_pos lt (list_swap xs i (best_child lt xs i n)) (best_child lt xs i n) n"
  by (subst heap_down_pos.simps) (auto simp: Let_def)

definition heap_down :: "('a \<Rightarrow> 'a \<Rightarrow> bool) \<Rightarrow> 'a list \<Rightarrow> nat \<Rightarrow> nat \<Rightarrow> 'a list \<times> bool" where
  "heap_down lt xs i0 n = (let (ys, i) = heap_down_pos lt xs i0 n in (ys, i0 < i))"

definition heap_Push :: "('a \<Rightarrow> 'a \<Rightarrow> bool) \<Rightarrow> 'a list \<Rightarrow> 'a \<Rightarrow> 'a list" where
  "heap_Push lt xs x = heap_up lt (xs @ [x]) (length xs)"

text \<open>\<open>Pop\<close> and \<open>Remove\<close> are called on a non-empty heap and on a position inside it.\<close>

definition heap_Pop :: "('a \<Rightarrow> 'a \<Rightarrow> bool) \<Rightarrow> 'a list \<Rightarrow> 'a list \<times> 'a" where
  "heap_Pop lt xs =
     (let n = length xs - 1;
          ys = fst (heap_down lt (list_swap xs 0 n) 0 n)
      in (butlast ys, last ys))"

definition heap_Remove :: "('a \<Rightarrow> 'a \<Rightarrow> bool) \<Rightarrow> 'a list \<Rightarrow> nat \<Rightarrow> 'a list \<times> 'a" where
  "heap_Remove lt xs i =
     (let n = length xs - 1;
          ys = (if n \<noteq> i
                then (let (zs, moved) = heap_down lt (list_swap xs i n) i n
                      in if moved then zs else heap_up lt zs i)
                else xs)
      in (butlast ys, last ys))"

section \<open>Permutation\<close>

lemma parent_less: "0 < k \<Longrightarrow> parent k < k"
  by auto

lemma list_swap_length [simp]: "length (list_swap xs i j) = length xs"
  by (simp add: list_swap_def)

lemma list_swap_nth:
  "i < length xs \<Longrightarrow> j < length xs \<Longrightarrow>
     list_swap xs i j ! k = (if k = i then xs ! j else if k = j then xs ! i else xs ! k)"
  by (auto simp: list_swap_def nth_list_update)

lemma list_swap_mset: "i < length xs \<Longrightarrow> j < length xs \<Longrightarrow> mset (list_swap xs i j) = mset xs"
  by (simp add: list_swap_def mset_swap)

lemma best_child_bound: "\<not> n \<le> 2 * i + 1 \<Longrightarrow> best_child lt xs i n < n"
  by (simp add: best_child_def Let_def)

lemma heap_up_mset:
  "j < length xs \<Longrightarrow> mset (heap_up lt xs j) = mset xs"
proof (induction lt xs j rule: heap_up.induct)
  case (1 lt xs j)
  then show ?case by (subst heap_up.simps) (auto simp: Let_def list_swap_mset)
qed

lemma heap_up_length [simp]: "length (heap_up lt xs j) = length xs"
proof (induction lt xs j rule: heap_up.induct)
  case (1 lt xs j)
  then show ?case by (subst heap_up.simps) (auto simp: Let_def)
qed

lemma heap_up_beyond:
  "j < k \<Longrightarrow> k < length xs \<Longrightarrow> heap_up lt xs j ! k = xs ! k"
proof (induction lt xs j rule: heap_up.induct)
  case (1 lt xs j)
  then show ?case by (subst heap_up.simps) (auto simp: Let_def list_swap_nth)
qed

lemma heap_down_pos_perm:
  "n \<le> length xs \<Longrightarrow>
     mset (fst (heap_down_pos lt xs i n)) = mset xs \<and>
     length (fst (heap_down_pos lt xs i n)) = length xs \<and>
     (\<forall>k. n \<le> k \<longrightarrow> fst (heap_down_pos lt xs i n) ! k = xs ! k) \<and>
     i \<le> snd (heap_down_pos lt xs i n)"
proof (induction lt xs i n rule: heap_down_pos.induct)
  case (1 lt xs i n)
  show ?case
  proof (cases "n \<le> 2 * i + 1 \<or> \<not> lt (xs ! best_child lt xs i n) (xs ! i)")
    case True
    then show ?thesis by (simp add: heap_down_stop)
  next
    case False
    let ?j = "best_child lt xs i n"
    have j: "?j < n" "i < ?j" using False best_child_bound [of n i] best_child_gt [of i] by auto
    have step: "heap_down_pos lt xs i n = heap_down_pos lt (list_swap xs i ?j) ?j n"
      using False by (simp add: heap_down_step)
    show ?thesis
      using "1.IH" [of ?j] False "1.prems" j
      by (simp add: step list_swap_mset list_swap_nth)
  qed
qed

section \<open>The heap property\<close>

definition heap_edge :: "('a \<Rightarrow> 'a \<Rightarrow> bool) \<Rightarrow> 'a list \<Rightarrow> nat \<Rightarrow> bool" where
  "heap_edge lt xs k \<longleftrightarrow> \<not> lt (xs ! k) (xs ! parent k)"

definition is_heap :: "('a \<Rightarrow> 'a \<Rightarrow> bool) \<Rightarrow> 'a list \<Rightarrow> nat \<Rightarrow> bool" where
  "is_heap lt xs n \<longleftrightarrow> (\<forall>k. 0 < k \<and> k < n \<longrightarrow> heap_edge lt xs k)"

text \<open>A heap with a hole at \<open>i\<close>: every edge that does not touch \<open>i\<close> is in order, and the children of
  \<open>i\<close> are in order with the parent of \<open>i\<close>.\<close>

definition hole_at :: "('a \<Rightarrow> 'a \<Rightarrow> bool) \<Rightarrow> 'a list \<Rightarrow> nat \<Rightarrow> nat \<Rightarrow> bool" where
  "hole_at lt xs i n \<longleftrightarrow>
     (\<forall>k. 0 < k \<and> k < n \<and> k \<noteq> i \<and> parent k \<noteq> i \<longrightarrow> heap_edge lt xs k) \<and>
     (0 < i \<longrightarrow> (\<forall>c. 0 < c \<and> c < n \<and> parent c = i \<longrightarrow> \<not> lt (xs ! c) (xs ! parent i)))"

locale heap_order =
  fixes lt :: "'a \<Rightarrow> 'a \<Rightarrow> bool" and ok :: "'a \<Rightarrow> bool"
  assumes lt_asym: "ok x \<Longrightarrow> ok y \<Longrightarrow> lt x y \<Longrightarrow> \<not> lt y x"
    and not_lt_trans: "ok x \<Longrightarrow> ok y \<Longrightarrow> ok z \<Longrightarrow> \<not> lt y x \<Longrightarrow> \<not> lt z y \<Longrightarrow> \<not> lt z x"
begin

lemma children: "0 < c \<Longrightarrow> parent c = i \<longleftrightarrow> c = 2 * i + 1 \<or> c = 2 * i + 2"
  by auto

lemma best_child_le:
  assumes "0 < c" and "c < n" and "parent c = i" and "\<forall>x \<in> set xs. ok x" and "n \<le> length xs"
  shows "\<not> lt (xs ! c) (xs ! best_child lt xs i n)"
proof -
  have in_set: "ok (xs ! k)" if "k < n" for k using that assms(4,5) by simp
  have "c = 2 * i + 1 \<or> c = 2 * i + 2" using assms(1,3) children by blast
  then show ?thesis
    using assms(2) lt_asym [of "xs ! (2 * i + 2)" "xs ! (2 * i + 1)"] in_set
      lt_asym [of "xs ! c" "xs ! c"]
    by (auto simp: best_child_def Let_def)
qed

text \<open>One step of sifting up moves the hole to the parent.\<close>

lemma up_step:
  assumes j: "0 < j" "j < n" "n \<le> length xs" and ok: "\<forall>x \<in> set xs. ok x"
    and hole: "hole_at lt xs j n" and below: "\<forall>c. 0 < c \<and> c < n \<and> parent c = j \<longrightarrow> heap_edge lt xs c"
    and swap: "lt (xs ! j) (xs ! parent j)"
  defines "ys \<equiv> list_swap xs (parent j) j"
  shows "hole_at lt ys (parent j) n" and "\<forall>c. 0 < c \<and> c < n \<and> parent c = parent j \<longrightarrow> heap_edge lt ys c"
proof -
  let ?i = "parent j"
  have i: "?i < j" using j(1) by auto
  have okn: "ok (xs ! k)" if "k < n" for k using that j(3) ok by simp
  have ysn: "ys ! k = (if k = ?i then xs ! j else if k = j then xs ! ?i else xs ! k)" for k
    unfolding ys_def using i j by (intro list_swap_nth) simp_all
  have edge: "\<not> lt (xs ! k) (xs ! parent k)" if "0 < k" "k < n" "k \<noteq> j" "parent k \<noteq> j" for k
    using hole that by (simp add: hole_at_def heap_edge_def)
  have par_i: "parent ?i \<noteq> j" using i by simp
  have grand: "\<not> lt (xs ! c) (xs ! ?i)" if "0 < c" "c < n" "parent c = j" for c
    using hole that j(1) by (simp add: hole_at_def)
  have rev: "\<not> lt (xs ! ?i) (xs ! j)"
    using lt_asym swap okn i j by (meson less_trans)
  have sib: "\<not> lt (xs ! c) (xs ! ?i)" if "0 < c" "c < n" "parent c = ?i" "c \<noteq> j" for c
    using edge [of c] that i by simp
  show "\<forall>c. 0 < c \<and> c < n \<and> parent c = ?i \<longrightarrow> heap_edge lt ys c"
  proof (intro allI impI, elim conjE)
    fix c assume c: "0 < c" "c < n" "parent c = ?i"
    have ci: "c \<noteq> ?i" using c by auto
    show "heap_edge lt ys c"
    proof (cases "c = j")
      case True
      with rev i show ?thesis by (simp add: heap_edge_def ysn)
    next
      case False
      with c sib [of c] rev not_lt_trans [of "xs ! j" "xs ! ?i" "xs ! c"] okn i j ci
      show ?thesis by (simp add: heap_edge_def ysn)
    qed
  qed
  show "hole_at lt ys ?i n"
    unfolding hole_at_def
  proof (intro conjI allI impI, elim conjE)
    fix k assume k: "0 < k" "k < n" "k \<noteq> ?i" "parent k \<noteq> ?i"
    then have "k \<noteq> j" by auto
    with k edge [of k] grand [of k] i show "heap_edge lt ys k"
      by (cases "parent k = j") (simp_all add: heap_edge_def ysn)
  next
    fix c assume "0 < ?i" and "0 < c \<and> c < n \<and> parent c = ?i"
    then have c: "0 < c" "c < n" "parent c = ?i" "0 < ?i" by simp_all
    have up: "\<not> lt (xs ! ?i) (xs ! parent ?i)" using edge [of ?i] c(4) i j par_i by simp
    have "parent ?i < ?i" "parent c < c" using c by (simp_all only: parent_less)
    then have ne: "parent ?i \<noteq> ?i" "parent ?i < n" "c \<noteq> ?i" using c(3) i j by linarith+
    show "\<not> lt (ys ! c) (ys ! parent ?i)"
    proof (cases "c = j")
      case True
      with up ne par_i i show ?thesis by (simp add: ysn)
    next
      case False
      have "?i < n" using i j(2) by linarith
      then have "\<not> lt (xs ! c) (xs ! parent ?i)"
        by (rule not_lt_trans [OF okn [OF ne(2)] okn okn [OF c(2)] up sib [OF c(1-3) False]])
      with ne par_i False show ?thesis by (simp only: ysn if_False not_False_eq_True)
    qed
  qed
qed

lemma up_heap:
  assumes "j < n" and "n \<le> length xs" and "\<forall>x \<in> set xs. ok x" and "hole_at lt xs j n"
    and "\<forall>c. 0 < c \<and> c < n \<and> parent c = j \<longrightarrow> heap_edge lt xs c"
  shows "is_heap lt (heap_up lt xs j) n"
  using assms
proof (induction j arbitrary: xs rule: less_induct)
  case (less j)
  show ?case
  proof (cases "j = 0 \<or> \<not> lt (xs ! j) (xs ! parent j)")
    case True
    have "heap_edge lt xs k" if "0 < k" "k < n" for k
    proof (cases "k = j \<or> parent k = j")
      case False
      with that less.prems(4) show ?thesis by (simp add: hole_at_def)
    next
      case on: True
      show ?thesis
      proof (cases "k = j")
        case True
        with that \<open>j = 0 \<or> \<not> lt (xs ! j) (xs ! parent j)\<close> show ?thesis by (simp add: heap_edge_def)
      next
        case False
        with on that less.prems(5) show ?thesis by simp
      qed
    qed
    with True show ?thesis by (simp add: heap_up_stop is_heap_def)
  next
    case False
    then have j: "0 < j" "lt (xs ! j) (xs ! parent j)" by simp_all
    have i: "parent j < j" using j(1) by (rule parent_less)
    note step = up_step [OF j(1) less.prems(1-5) j(2)]
    have "mset (list_swap xs (parent j) j) = mset xs"
      using i less.prems(1,2) by (intro list_swap_mset) linarith+
    then have "\<forall>x \<in> set (list_swap xs (parent j) j). ok x"
      using less.prems(3) by (metis set_mset_mset)
    then have "is_heap lt (heap_up lt (list_swap xs (parent j) j) (parent j)) n"
      using i less.prems(1,2) step by (intro less.IH) simp_all
    then show ?thesis by (simp only: heap_up_step [where lt = lt, OF j])
  qed
qed

text \<open>One step of sifting down moves the hole to the child, and the edge above the child is in order.\<close>

lemma down_step:
  assumes i: "\<not> n \<le> 2 * i + 1" "n \<le> length xs" and ok: "\<forall>x \<in> set xs. ok x"
    and hole: "hole_at lt xs i n" and j: "j = best_child lt xs i n"
    and swap: "lt (xs ! j) (xs ! i)"
  defines "ys \<equiv> list_swap xs i j"
  shows "hole_at lt ys j n" and "heap_edge lt ys j"
proof -
  have j': "j < n" "i < j" "parent j = i" "0 < j"
    using i(1) j best_child_bound [of n i lt xs] best_child_gt [of i lt xs n]
    by (auto simp: best_child_def Let_def)
  have okn: "ok (xs ! k)" if "k < n" for k using that i(2) ok by simp
  have ysn: "ys ! k = (if k = i then xs ! j else if k = j then xs ! i else xs ! k)" for k
    unfolding ys_def using i j' by (intro list_swap_nth) simp_all
  have edge: "\<not> lt (xs ! k) (xs ! parent k)" if "0 < k" "k < n" "k \<noteq> i" "parent k \<noteq> i" for k
    using hole that by (simp add: hole_at_def heap_edge_def)
  have best: "\<not> lt (xs ! c) (xs ! j)" if "0 < c" "c < n" "parent c = i" for c
    unfolding j using that ok i(2) by (rule best_child_le)
  have up: "\<not> lt (xs ! c) (xs ! parent i)" if "0 < i" "0 < c" "c < n" "parent c = i" for c
    using hole that by (simp add: hole_at_def)
  have rev: "\<not> lt (xs ! i) (xs ! j)"
    using lt_asym [OF okn okn swap] j' by simp
  show "heap_edge lt ys j" using rev j' by (simp add: heap_edge_def ysn)
  show "hole_at lt ys j n"
    unfolding hole_at_def
  proof (intro conjI allI impI, elim conjE)
    fix k assume k: "0 < k" "k < n" "k \<noteq> j" "parent k \<noteq> j"
    have pk: "parent k < k" using k(1) by (rule parent_less)
    consider "k = i" | "k \<noteq> i" "parent k = i" | "k \<noteq> i" "parent k \<noteq> i" by blast
    then show "heap_edge lt ys k"
    proof cases
      case 1
      with k pk up [of j] j' show ?thesis by (simp add: heap_edge_def ysn)
    next
      case 2
      with k best [of k] show ?thesis by (simp add: heap_edge_def ysn)
    next
      case 3
      with k edge [of k] show ?thesis by (simp add: heap_edge_def ysn)
    qed
  next
    fix c assume "0 < c \<and> c < n \<and> parent c = j"
    then have c: "0 < c" "c < n" "parent c = j" by simp_all
    have "j < c" using parent_less [OF c(1)] c(3) by simp
    with c edge [of c] j' show "\<not> lt (ys ! c) (ys ! parent j)" by (simp add: ysn)
  qed
qed

lemma down_heap:
  assumes "n \<le> length xs" and "\<forall>x \<in> set xs. ok x" and "hole_at lt xs i n"
    and "0 < i \<Longrightarrow> i < n \<Longrightarrow> heap_edge lt xs i"
  shows "is_heap lt (fst (heap_down_pos lt xs i n)) n"
  using assms
proof (induction "n - i" arbitrary: xs i rule: less_induct)
  case (less i)
  let ?j = "best_child lt xs i n"
  show ?case
  proof (cases "n \<le> 2 * i + 1 \<or> \<not> lt (xs ! ?j) (xs ! i)")
    case True
    have "heap_edge lt xs k" if k: "0 < k" "k < n" for k
    proof (cases "k = i \<or> parent k = i")
      case False
      with k less.prems(3) show ?thesis by (simp add: hole_at_def)
    next
      case on: True
      show ?thesis
      proof (cases "k = i")
        case True
        with k less.prems(4) show ?thesis by simp
      next
        case False
        with on k have p: "parent k = i" by simp
        then have "\<not> n \<le> 2 * i + 1" using k children [of k i] by linarith
        then have j: "\<not> lt (xs ! ?j) (xs ! i)" "?j < n" "i < ?j"
          using True best_child_bound [of n i lt xs] best_child_gt [of i lt xs n] by auto
        have "\<not> lt (xs ! k) (xs ! ?j)" using k p less.prems(1,2) by (intro best_child_le) simp_all
        then have "\<not> lt (xs ! k) (xs ! i)"
          using j k less.prems(1,2) not_lt_trans [of "xs ! i" "xs ! ?j" "xs ! k"] by simp
        with p show ?thesis by (simp add: heap_edge_def)
      qed
    qed
    with True show ?thesis by (simp add: heap_down_stop is_heap_def)
  next
    case False
    then have i: "\<not> n \<le> 2 * i + 1" "lt (xs ! ?j) (xs ! i)" by simp_all
    have j: "?j < n" "i < ?j" using i(1) best_child_bound [of n i lt xs] best_child_gt [of i lt xs n] by auto
    note step = down_step [OF i(1) less.prems(1-3) refl i(2)]
    have "mset (list_swap xs i ?j) = mset xs" using j less.prems(1) by (intro list_swap_mset) linarith+
    then have "\<forall>x \<in> set (list_swap xs i ?j). ok x" using less.prems(2) by (metis set_mset_mset)
    then have "is_heap lt (fst (heap_down_pos lt (list_swap xs i ?j) ?j n)) n"
      using j less.prems(1) step by (intro less.hyps) simp_all
    then show ?thesis by (simp only: heap_down_step [where lt = lt, OF i])
  qed
qed

lemma heap_root:
  assumes "is_heap lt xs n" and "n \<le> length xs" and "\<forall>x \<in> set xs. ok x" and "k < n"
  shows "\<not> lt (xs ! k) (xs ! 0)"
  using assms(4)
proof (induction k rule: less_induct)
  case (less k)
  have okn: "ok (xs ! j)" if "j < n" for j using that assms(2,3) by simp
  show ?case
  proof (cases "k = 0")
    case True
    with lt_asym [of "xs ! 0" "xs ! 0"] okn [of 0] less.prems show ?thesis by auto
  next
    case False
    then have p: "parent k < k" by (intro parent_less) simp
    have "\<not> lt (xs ! k) (xs ! parent k)"
      using False assms(1) less.prems by (simp add: is_heap_def heap_edge_def)
    moreover have "\<not> lt (xs ! parent k) (xs ! 0)" using less.IH [OF p] p less.prems by linarith
    ultimately show ?thesis
      using p less.prems by (intro not_lt_trans [of "xs ! 0" "xs ! parent k" "xs ! k"]) (auto intro: okn)
  qed
qed

text \<open>Taking an element out of a heap leaves a hole where the last one is moved in.\<close>

lemma swap_last_hole:
  assumes heap: "is_heap lt xs (length xs)" and ok: "\<forall>x \<in> set xs. ok x"
    and i: "i < n" and n: "n = length xs - 1"
  shows "hole_at lt (list_swap xs i n) i n"
proof -
  have len: "n < length xs" using i n by linarith
  have nth: "list_swap xs i n ! k = xs ! k" if "k < n" "k \<noteq> i" for k
    using that i len by (simp add: list_swap_nth)
  have edge: "\<not> lt (xs ! k) (xs ! parent k)" if "0 < k" "k < n" for k
    using heap that len by (simp add: is_heap_def heap_edge_def)
  have okn: "ok (xs ! k)" if "k < n" for k using that len ok by simp
  show ?thesis
    unfolding hole_at_def
  proof (intro conjI allI impI, elim conjE)
    fix k assume k: "0 < k" "k < n" "k \<noteq> i" "parent k \<noteq> i"
    moreover from k(1,2) have "parent k < n" using parent_less [of k] by linarith
    ultimately show "heap_edge lt (list_swap xs i n) k" using edge [of k] by (simp add: heap_edge_def nth)
  next
    fix c assume "0 < i" and "0 < c \<and> c < n \<and> parent c = i"
    then have c: "0 < c" "c < n" "parent c = i" "0 < i" by simp_all
    have p: "parent i < i" "i < c" using parent_less [OF c(4)] parent_less [OF c(1)] c(3) by simp_all
    have "\<not> lt (xs ! c) (xs ! i)" "\<not> lt (xs ! i) (xs ! parent i)" using edge [of c] edge [of i] c i by simp_all
    then have "\<not> lt (xs ! c) (xs ! parent i)"
      using p c i by (intro not_lt_trans [of "xs ! parent i" "xs ! i" "xs ! c"]) (auto intro: okn)
    moreover have "list_swap xs i n ! c = xs ! c" "list_swap xs i n ! parent i = xs ! parent i"
      using p c i by (intro nth; linarith)+
    ultimately show "\<not> lt (list_swap xs i n ! c) (list_swap xs i n ! parent i)" by simp
  qed
qed

lemma heap_butlast: "is_heap lt zs n \<Longrightarrow> length zs = Suc n \<Longrightarrow> is_heap lt (butlast zs) (length (butlast zs))"
  by (auto simp: is_heap_def heap_edge_def nth_butlast)

lemma mset_butlast: "zs \<noteq> [] \<Longrightarrow> add_mset (last zs) (mset (butlast zs)) = mset zs"
  by (metis append_butlast_last_id mset.simps(1) mset.simps(2) union_mset_add_mset_right add_0_right mset_append)

theorem Push_correct:
  assumes "is_heap lt xs (length xs)" and "\<forall>y \<in> set (x # xs). ok y"
  shows "is_heap lt (heap_Push lt xs x) (length (heap_Push lt xs x))"
    and "mset (heap_Push lt xs x) = add_mset x (mset xs)"
proof -
  let ?n = "length xs"
  have "is_heap lt (heap_up lt (xs @ [x]) ?n) (Suc ?n)"
  proof (rule up_heap)
    have none: False if "0 < c" "c < Suc ?n" "parent c = ?n" for c
      using parent_less [OF that(1)] that(2,3) by linarith
    then show "\<forall>c. 0 < c \<and> c < Suc ?n \<and> parent c = ?n \<longrightarrow> heap_edge lt (xs @ [x]) c" by blast
    show "hole_at lt (xs @ [x]) ?n (Suc ?n)"
      unfolding hole_at_def
    proof (intro conjI allI impI, elim conjE)
      fix k assume k: "0 < k" "k < Suc ?n" "k \<noteq> ?n"
      then have "parent k < ?n" "k < ?n" using parent_less [OF k(1)] by linarith+
      then show "heap_edge lt (xs @ [x]) k"
        using assms(1) k(1) by (simp add: is_heap_def heap_edge_def nth_append)
    qed (use none in blast)
  qed (use assms(2) in auto)
  then show "is_heap lt (heap_Push lt xs x) (length (heap_Push lt xs x))" by (simp add: heap_Push_def)
  show "mset (heap_Push lt xs x) = add_mset x (mset xs)" by (simp add: heap_Push_def heap_up_mset)
qed

lemma swap_last_facts:
  assumes "i < n" and "n = length xs - 1" and "\<forall>x \<in> set xs. ok x"
  shows "mset (list_swap xs i n) = mset xs" and "\<forall>x \<in> set (list_swap xs i n). ok x"
    and "list_swap xs i n ! n = xs ! i" and "length (list_swap xs i n) = Suc n"
proof -
  show m: "mset (list_swap xs i n) = mset xs" using assms(1,2) by (intro list_swap_mset) linarith+
  show "\<forall>x \<in> set (list_swap xs i n). ok x" using assms(3) mset_eq_setD [OF m] by simp
  show "list_swap xs i n ! n = xs ! i" using assms(1,2) by (subst list_swap_nth) auto
  show "length (list_swap xs i n) = Suc n" using assms(1,2) by simp
qed

text \<open>Sifting down from a hole either stays, and then the edges below the hole are in order, or moves,
  and then the result is a heap.\<close>

lemma stop_edges_below:
  assumes "n \<le> length zs" and "\<forall>x \<in> set zs. ok x" and "i < n"
    and "n \<le> 2 * i + 1 \<or> \<not> lt (zs ! best_child lt zs i n) (zs ! i)"
    and c: "0 < c" "c < n" "parent c = i"
  shows "heap_edge lt zs c"
proof -
  let ?j = "best_child lt zs i n"
  have n: "\<not> n \<le> 2 * i + 1" using c children [of c i] by linarith
  with assms(4) have j: "\<not> lt (zs ! ?j) (zs ! i)" "?j < n" using best_child_bound [OF n] by simp_all
  have "\<not> lt (zs ! c) (zs ! ?j)" using c assms(1,2) by (intro best_child_le) simp_all
  with j have "\<not> lt (zs ! c) (zs ! i)"
    using assms(1,2,3) c(2) not_lt_trans [of "zs ! i" "zs ! ?j" "zs ! c"] by simp
  with c(3) show ?thesis by (simp add: heap_edge_def)
qed

lemma down_from_hole:
  assumes n: "n \<le> length zs" and ok: "\<forall>x \<in> set zs. ok x" and hole: "hole_at lt zs i n" and i: "i < n"
  shows "heap_down_pos lt zs i n = (zs, i) \<and>
           (\<forall>c. 0 < c \<and> c < n \<and> parent c = i \<longrightarrow> heap_edge lt zs c) \<or>
         i < snd (heap_down_pos lt zs i n) \<and> is_heap lt (fst (heap_down_pos lt zs i n)) n"
proof (cases "n \<le> 2 * i + 1 \<or> \<not> lt (zs ! best_child lt zs i n) (zs ! i)")
  case True
  with stop_edges_below [OF n ok i] heap_down_stop [where lt = lt, OF True] show ?thesis by blast
next
  case False
  let ?j = "best_child lt zs i n"
  let ?zs = "list_swap zs i ?j"
  from False have c: "\<not> n \<le> 2 * i + 1" "lt (zs ! ?j) (zs ! i)" by simp_all
  have j: "i < ?j" "?j < n" using best_child_gt best_child_bound [OF c(1)] by auto
  have "mset ?zs = mset zs" using j n by (intro list_swap_mset) linarith+
  from mset_eq_setD [OF this] have ok': "\<forall>x \<in> set ?zs. ok x" using ok by simp
  have step: "heap_down_pos lt zs i n = heap_down_pos lt ?zs ?j n"
    by (rule heap_down_step [where lt = lt, OF c])
  have "is_heap lt (fst (heap_down_pos lt ?zs ?j n)) n"
    using down_step [OF c(1) n ok hole refl c(2)] n ok' by (intro down_heap) simp_all
  moreover have "?j \<le> snd (heap_down_pos lt ?zs ?j n)"
    using heap_down_pos_perm [of n ?zs lt ?j] n by simp
  ultimately show ?thesis using step j(1) by simp
qed

definition fill_hole :: "'a list \<Rightarrow> nat \<Rightarrow> nat \<Rightarrow> 'a list" where
  "fill_hole zs i n = (let (ws, moved) = heap_down lt zs i n in if moved then ws else heap_up lt ws i)"

lemma fill_hole_correct:
  assumes n: "n < length zs" and ok: "\<forall>x \<in> set zs. ok x" and hole: "hole_at lt zs i n" and i: "i < n"
  shows "is_heap lt (fill_hole zs i n) n" and "mset (fill_hole zs i n) = mset zs"
    and "length (fill_hole zs i n) = length zs" and "fill_hole zs i n ! n = zs ! n"
proof -
  let ?d = "heap_down_pos lt zs i n"
  have fh: "fill_hole zs i n = (if i < snd ?d then fst ?d else heap_up lt (fst ?d) i)"
    by (simp add: fill_hole_def heap_down_def case_prod_beta Let_def)
  have perm: "mset (fst ?d) = mset zs" "length (fst ?d) = length zs" "fst ?d ! n = zs ! n"
    using heap_down_pos_perm [of n zs lt i] n by simp_all
  have len: "n \<le> length zs" using n by simp
  show "is_heap lt (fill_hole zs i n) n"
    using down_from_hole [OF len ok hole i] up_heap [OF i len ok hole] by (auto simp: fh)
  show "mset (fill_hole zs i n) = mset zs"
    using perm heap_up_mset [of i "fst ?d" lt] i n by (simp add: fh)
  show "length (fill_hole zs i n) = length zs" using perm by (simp add: fh)
  show "fill_hole zs i n ! n = zs ! n"
    using perm heap_up_beyond [of i n "fst ?d" lt] i n by (simp add: fh)
qed

lemma take_last:
  assumes "mset zs = mset xs" and "length zs = Suc n" and "zs ! n = x" and "is_heap lt zs n"
  shows "last zs = x" and "add_mset x (mset (butlast zs)) = mset xs"
    and "is_heap lt (butlast zs) (length (butlast zs))"
proof -
  have ne: "zs \<noteq> []" using assms(2) by auto
  with assms(2,3) show l: "last zs = x" by (simp add: last_conv_nth)
  show "add_mset x (mset (butlast zs)) = mset xs" using mset_butlast [OF ne] l assms(1) by simp
  show "is_heap lt (butlast zs) (length (butlast zs))" using assms(4,2) by (rule heap_butlast)
qed

theorem Remove_correct:
  assumes heap: "is_heap lt xs (length xs)" and ok: "\<forall>x \<in> set xs. ok x" and i: "i < length xs"
  shows "snd (heap_Remove lt xs i) = xs ! i"
    and "add_mset (xs ! i) (mset (fst (heap_Remove lt xs i))) = mset xs"
    and "is_heap lt (fst (heap_Remove lt xs i)) (length (fst (heap_Remove lt xs i)))"
proof -
  define n where "n = length xs - 1"
  define zs where "zs = (if n \<noteq> i then fill_hole (list_swap xs i n) i n else xs)"
  have r: "heap_Remove lt xs i = (butlast zs, last zs)"
    by (simp add: heap_Remove_def fill_hole_def zs_def n_def Let_def)
  have z: "mset zs = mset xs \<and> length zs = Suc n \<and> zs ! n = xs ! i \<and> is_heap lt zs n"
  proof (cases "i = n")
    case True
    with i heap show ?thesis by (auto simp: zs_def n_def is_heap_def)
  next
    case False
    then have lt: "i < n" using i n_def by linarith
    note swap = swap_last_facts [OF lt n_def ok]
    have "n < length (list_swap xs i n)" using swap(4) by simp
    from fill_hole_correct [OF this swap(2) swap_last_hole [OF heap ok lt n_def] lt]
    show ?thesis using False swap by (simp add: zs_def)
  qed
  then show "snd (heap_Remove lt xs i) = xs ! i"
    and "add_mset (xs ! i) (mset (fst (heap_Remove lt xs i))) = mset xs"
    and "is_heap lt (fst (heap_Remove lt xs i)) (length (fst (heap_Remove lt xs i)))"
    using take_last [of zs xs n "xs ! i"] by (simp_all add: r)
qed

theorem Pop_correct:
  assumes heap: "is_heap lt xs (length xs)" and ok: "\<forall>x \<in> set xs. ok x" and ne: "xs \<noteq> []"
  shows "snd (heap_Pop lt xs) = xs ! 0"
    and "add_mset (xs ! 0) (mset (fst (heap_Pop lt xs))) = mset xs"
    and "is_heap lt (fst (heap_Pop lt xs)) (length (fst (heap_Pop lt xs)))"
    and "y \<in> set (fst (heap_Pop lt xs)) \<Longrightarrow> \<not> lt y (xs ! 0)"
proof -
  define n where "n = length xs - 1"
  define zs where "zs = fst (heap_down_pos lt (list_swap xs 0 n) 0 n)"
  have r: "heap_Pop lt xs = (butlast zs, last zs)"
    by (simp add: heap_Pop_def zs_def n_def Let_def heap_down_def case_prod_beta)
  have len: "length xs = Suc n" using ne n_def by (cases xs) simp_all
  have z: "mset zs = mset xs \<and> length zs = Suc n \<and> zs ! n = xs ! 0 \<and> is_heap lt zs n"
  proof (cases "n = 0")
    case True
    with len show ?thesis
      by (simp add: zs_def heap_down_stop list_swap_def is_heap_def)
  next
    case False
    then have lt: "0 < n" by simp
    note swap = swap_last_facts [OF lt n_def ok]
    have "is_heap lt zs n"
      unfolding zs_def using swap(2,4) swap_last_hole [OF heap ok lt n_def] by (intro down_heap) simp_all
    then show ?thesis
      using heap_down_pos_perm [of n "list_swap xs 0 n" lt 0] swap by (simp add: zs_def)
  qed
  then have rest: "add_mset (xs ! 0) (mset (fst (heap_Pop lt xs))) = mset xs"
    using take_last [of zs xs n "xs ! 0"] by (simp add: r)
  then show "add_mset (xs ! 0) (mset (fst (heap_Pop lt xs))) = mset xs" .
  show "snd (heap_Pop lt xs) = xs ! 0"
    and "is_heap lt (fst (heap_Pop lt xs)) (length (fst (heap_Pop lt xs)))"
    using z take_last [of zs xs n "xs ! 0"] by (simp_all add: r)
  assume "y \<in> set (fst (heap_Pop lt xs))"
  then have "y \<in> set xs" using rest by (metis insert_iff set_mset_add_mset_insert set_mset_mset)
  then show "\<not> lt y (xs ! 0)" using heap_root [OF heap _ ok] by (auto simp: in_set_conv_nth)
qed

text \<open>Every element has a leaf below it that is no better: the last element of the order is a leaf.\<close>

lemma heap_leaf:
  assumes "is_heap lt xs n" and "n \<le> length xs" and "\<forall>x \<in> set xs. ok x" and "k < n"
  shows "\<exists>l. n div 2 \<le> l \<and> l < n \<and> \<not> lt (xs ! l) (xs ! k)"
  using assms(4)
proof (induction "n - k" arbitrary: k rule: less_induct)
  case less
  have okn: "ok (xs ! j)" if "j < n" for j using that assms(2,3) by simp
  show ?case
  proof (cases "n div 2 \<le> k")
    case True
    with less.prems lt_asym [of "xs ! k" "xs ! k"] okn show ?thesis by blast
  next
    case False
    then have c: "2 * k + 1 < n" "parent (2 * k + 1) = k" by simp_all
    then have "n - (2 * k + 1) < n - k" by linarith
    from less.hyps [OF this c(1)] obtain l
      where l: "n div 2 \<le> l" "l < n" "\<not> lt (xs ! l) (xs ! (2 * k + 1))" by blast
    have "\<not> lt (xs ! (2 * k + 1)) (xs ! k)"
      using assms(1) c by (fastforce simp: is_heap_def heap_edge_def)
    with l have "\<not> lt (xs ! l) (xs ! k)"
      using c(1) less.prems by (intro not_lt_trans [of "xs ! k" "xs ! (2 * k + 1)" "xs ! l"]) (auto intro: okn)
    with l show ?thesis by blast
  qed
qed

end

end
