(* ===== verification/Mempool.thy ===== *)
theory Mempool
  imports Accounts Go_Heap
begin

text \<open>
  The memory pool (\<open>pkg/mempool/mempool.go\<close>) and the pre-admission validator in front of it
  (\<open>pkg/chain/poolvalidator.go\<close>). The queue is the list the Go heap works on; an entry is its
  transaction (the \<open>index\<close> fields of the queue entries and of the pool are written and never read).
  The clock is an argument \<open>now\<close>, in nanoseconds since Go's zero time; ranging over the lookup map is
  an explicit list of its keys. The background goroutine only calls \<open>EvictStale\<close>, an operation here.
\<close>

section \<open>The pool\<close>

record Config =
  cfg_MaxSize :: int
  cfg_MaxTxAge :: int
  cfg_EvictInterval :: int

datatype pool_error =
    MempoolFull float64
  | DuplicateTx
  | NonceAlreadyPending string u64 string
  | AdmissionRefused string

record Mempool =
  mp_pq :: "Tx list"
  mp_lookup :: "string \<rightharpoonup> Tx"
  mp_senderNonces :: "string \<rightharpoonup> (u64 \<rightharpoonup> string)"
  mp_cfg :: Config
  mp_admitErr :: "(Tx \<Rightarrow> string option) option"

definition tx_priority :: "Tx \<Rightarrow> float64" where
  "tx_priority t = tx_Fee t"

text \<open>\<open>txPQ.Less\<close>: the higher fee comes first.\<close>

definition fee_before :: "Tx \<Rightarrow> Tx \<Rightarrow> bool" where
  "fee_before x y \<longleftrightarrow> tx_priority y < tx_priority x"

definition DefaultConfig :: Config where
  "DefaultConfig = \<lparr>cfg_MaxSize = 10000, cfg_MaxTxAge = 30 * 60 * 1000000000,
     cfg_EvictInterval = 15 * 1000000000\<rparr>"

definition NewMempool :: "Config \<Rightarrow> Mempool" where
  "NewMempool cfg =
     \<lparr>mp_pq = [], mp_lookup = Map.empty, mp_senderNonces = Map.empty,
      mp_cfg = \<lparr>cfg_MaxSize = (if cfg_MaxSize cfg \<le> 0 then 10000 else cfg_MaxSize cfg),
                cfg_MaxTxAge = (if cfg_MaxTxAge cfg \<le> 0 then 30 * 60 * 1000000000 else cfg_MaxTxAge cfg),
                cfg_EvictInterval =
                  (if cfg_EvictInterval cfg \<le> 0 then 15 * 1000000000 else cfg_EvictInterval cfg)\<rparr>,
      mp_admitErr = None\<rparr>"

definition SetAdmissionChecker :: "Mempool \<Rightarrow> (Tx \<Rightarrow> string option) option \<Rightarrow> Mempool" where
  "SetAdmissionChecker m fn = m\<lparr>mp_admitErr := fn\<rparr>"

section \<open>The nonce index\<close>

definition tracksConsensusNonce :: "Tx \<Rightarrow> bool" where
  "tracksConsensusNonce tx \<longleftrightarrow> tx_Sender tx \<noteq> [] \<and> tx_ContractID tx \<noteq> []"

definition pendingNonceLocked :: "Mempool \<Rightarrow> Tx \<Rightarrow> string option" where
  "pendingNonceLocked m tx =
     (if \<not> tracksConsensusNonce tx then None
      else (case mp_senderNonces m (tx_Sender tx) of
              None \<Rightarrow> None
            | Some byNonce \<Rightarrow> byNonce (tx_Nonce tx)))"

definition trackNonceLocked :: "Mempool \<Rightarrow> Tx \<Rightarrow> Mempool" where
  "trackNonceLocked m tx =
     (if \<not> tracksConsensusNonce tx then m
      else (let byNonce = (case mp_senderNonces m (tx_Sender tx) of None \<Rightarrow> Map.empty | Some b \<Rightarrow> b)
            in m\<lparr>mp_senderNonces :=
                   (mp_senderNonces m)(tx_Sender tx \<mapsto> byNonce(tx_Nonce tx \<mapsto> tx_ID tx))\<rparr>))"

text \<open>A missing entry of \<open>byNonce\<close> reads as the empty string; deleting the last entry of a sender
  deletes the sender.\<close>

definition untrackNonceLocked :: "Mempool \<Rightarrow> Tx \<Rightarrow> Mempool" where
  "untrackNonceLocked m tx =
     (if \<not> tracksConsensusNonce tx then m
      else (case mp_senderNonces m (tx_Sender tx) of
              None \<Rightarrow> m
            | Some byNonce \<Rightarrow>
                if (case byNonce (tx_Nonce tx) of None \<Rightarrow> [] | Some i \<Rightarrow> i) \<noteq> tx_ID tx then m
                else (let b = byNonce(tx_Nonce tx := None)
                      in if b = Map.empty
                         then m\<lparr>mp_senderNonces := (mp_senderNonces m)(tx_Sender tx := None)\<rparr>
                         else m\<lparr>mp_senderNonces := (mp_senderNonces m)(tx_Sender tx \<mapsto> b)\<rparr>)))"

section \<open>Adding and removing\<close>

fun index_of_id :: "string \<Rightarrow> Tx list \<Rightarrow> nat option" where
  "index_of_id i [] = None"
| "index_of_id i (t # ts) = (if tx_ID t = i then Some 0 else map_option Suc (index_of_id i ts))"

definition removeLocked :: "Mempool \<Rightarrow> string \<Rightarrow> Mempool \<times> bool" where
  "removeLocked m txid =
     (case mp_lookup m txid of
        None \<Rightarrow> (m, False)
      | Some tx \<Rightarrow>
          (case index_of_id txid (mp_pq m) of
             Some i \<Rightarrow>
               (untrackNonceLocked
                  (m\<lparr>mp_pq := fst (heap_Remove fee_before (mp_pq m) i),
                     mp_lookup := (mp_lookup m)(txid := None)\<rparr>) (mp_pq m ! i), True)
           | None \<Rightarrow>
               ((untrackNonceLocked m tx)\<lparr>mp_lookup := (mp_lookup m)(txid := None)\<rparr>, False)))"

text \<open>The scan for the lowest fee among the leaves, from the middle of the queue on.\<close>

function min_scan :: "Tx list \<Rightarrow> nat \<Rightarrow> nat \<Rightarrow> nat" where
  "min_scan pq i minIdx =
     (if length pq \<le> i then minIdx
      else min_scan pq (i + 1) (if tx_priority (pq ! i) < tx_priority (pq ! minIdx) then i else minIdx))"
  by pat_completeness auto
termination by (relation "measure (\<lambda>(pq, i, _). length pq - i)") auto

declare min_scan.simps [simp del]

definition lowest_tx :: "Tx list \<Rightarrow> Tx" where
  "lowest_tx pq = pq ! min_scan pq (length pq div 2 + 1) (length pq div 2)"

text \<open>The common tail of \<open>Add\<close> and \<open>RestoreTransactions\<close>: stamp, evict if full, push and index.\<close>

definition stamp :: "int \<Rightarrow> Tx \<Rightarrow> Tx" where
  "stamp now tx = (if tx_AddedAt tx = 0 then tx\<lparr>tx_AddedAt := now\<rparr> else tx)"

definition push_entry :: "Mempool \<Rightarrow> Tx \<Rightarrow> Mempool" where
  "push_entry m tx =
     trackNonceLocked
       (m\<lparr>mp_pq := heap_Push fee_before (mp_pq m) tx,
          mp_lookup := (mp_lookup m)(tx_ID tx \<mapsto> tx)\<rparr>) tx"

definition make_room_and_push :: "Mempool \<Rightarrow> Tx \<Rightarrow> Mempool \<times> pool_error option" where
  "make_room_and_push m tx =
     (if cfg_MaxSize (mp_cfg m) \<le> int (length (mp_pq m))
      then (let lowest = lowest_tx (mp_pq m)
            in if tx_priority tx \<le> tx_priority lowest
               then (m, Some (MempoolFull (tx_priority lowest)))
               else (push_entry (fst (removeLocked m (tx_ID lowest))) tx, None))
      else (push_entry m tx, None))"

definition AddTx :: "int \<Rightarrow> Mempool \<Rightarrow> Tx \<Rightarrow> Mempool \<times> pool_error option" where
  "AddTx now m tx =
     (if mp_lookup m (tx_ID tx) \<noteq> None then (m, Some DuplicateTx)
      else (case pendingNonceLocked m tx of
          Some existingID \<Rightarrow> (m, Some (NonceAlreadyPending (tx_Sender tx) (tx_Nonce tx) existingID))
        | None \<Rightarrow>
            (case (case mp_admitErr m of None \<Rightarrow> None | Some fn \<Rightarrow> fn tx) of
               Some err \<Rightarrow> (m, Some (AdmissionRefused err))
             | None \<Rightarrow> make_room_and_push m (stamp now tx))))"

fun RestoreTransactions :: "int \<Rightarrow> Mempool \<Rightarrow> Tx option list \<Rightarrow> Mempool" where
  "RestoreTransactions now m [] = m"
| "RestoreTransactions now m (None # txs) = RestoreTransactions now m txs"
| "RestoreTransactions now m (Some tx # txs) =
     (if mp_lookup m (tx_ID tx) \<noteq> None \<or> pendingNonceLocked m tx \<noteq> None
      then RestoreTransactions now m txs
      else RestoreTransactions now (fst (make_room_and_push m (stamp now tx))) txs)"

definition PopTx :: "Mempool \<Rightarrow> Mempool \<times> Tx option" where
  "PopTx m =
     (if mp_pq m = [] then (m, None)
      else (let (rest, tx) = heap_Pop fee_before (mp_pq m)
            in (untrackNonceLocked
                  (m\<lparr>mp_pq := rest, mp_lookup := (mp_lookup m)(tx_ID tx := None)\<rparr>) tx, Some tx)))"

definition PeekTx :: "Mempool \<Rightarrow> Tx option" where
  "PeekTx m = (if mp_pq m = [] then None else Some (mp_pq m ! 0))"

definition GetTx :: "Mempool \<Rightarrow> string \<Rightarrow> Tx option" where
  "GetTx m txid = mp_lookup m txid"

definition RemoveTx :: "Mempool \<Rightarrow> string \<Rightarrow> Mempool \<times> bool" where
  "RemoveTx m txid = removeLocked m txid"

definition PoolSize :: "Mempool \<Rightarrow> nat" where
  "PoolSize m = length (mp_pq m)"

definition stale_ids :: "int \<Rightarrow> string list \<Rightarrow> Mempool \<Rightarrow> string list" where
  "stale_ids now ks m =
     filter (\<lambda>txid. tx_AddedAt (the (mp_lookup m txid)) < now - cfg_MaxTxAge (mp_cfg m)) ks"

definition EvictStale :: "int \<Rightarrow> string list \<Rightarrow> Mempool \<Rightarrow> Mempool \<times> nat" where
  "EvictStale now ks m =
     (foldl (\<lambda>m txid. fst (removeLocked m txid)) m (stale_ids now ks m), length (stale_ids now ks m))"

fun drain_loop :: "nat \<Rightarrow> Mempool \<Rightarrow> Tx list \<Rightarrow> Mempool \<times> Tx list" where
  "drain_loop 0 m result = (m, result)"
| "drain_loop (Suc n) m result =
     (let (m', tx) = PopTx m in drain_loop n m' (result @ [the tx]))"

definition Drain :: "Mempool \<Rightarrow> int \<Rightarrow> Mempool \<times> Tx list" where
  "Drain m mx =
     (if mx \<le> 0 \<or> mp_pq m = [] then (m, [])
      else drain_loop (if int (length (mp_pq m)) < mx then length (mp_pq m) else nat mx) m [])"

definition PoolStats :: "Mempool \<Rightarrow> nat \<times> int \<times> float64" where
  "PoolStats m =
     (length (mp_pq m), cfg_MaxSize (mp_cfg m), if mp_pq m = [] then 0 else tx_Fee (mp_pq m ! 0))"

section \<open>The validator\<close>

record TxValidator =
  tv_pending :: "string \<rightharpoonup> u64"
  tv_reserved :: "string \<rightharpoonup> float64"

datatype validate_error =
    EmptySender | EmptyRecipient | NegativeAmount | NegativeFee | SenderNotFound string
  | PendingNonceMismatch string u64 u64 | InsufficientAvailable | PoolRefused pool_error

definition NewTxValidator :: TxValidator where
  "NewTxValidator = \<lparr>tv_pending = Map.empty, tv_reserved = Map.empty\<rparr>"

definition ReservedBalance :: "TxValidator \<Rightarrow> string \<Rightarrow> float64" where
  "ReservedBalance tv address = (case tv_reserved tv address of None \<Rightarrow> 0 | Some r \<Rightarrow> r)"

definition expected_nonce :: "TxValidator \<Rightarrow> Account \<Rightarrow> string \<Rightarrow> u64" where
  "expected_nonce tv acc sender =
     (case tv_pending tv sender of
        None \<Rightarrow> acc_Nonce acc
      | Some pending \<Rightarrow> if acc_Nonce acc < pending then pending else acc_Nonce acc)"

definition Validate :: "AccountStore \<Rightarrow> TxValidator \<Rightarrow> Tx \<Rightarrow> validate_error option" where
  "Validate s tv tx =
     (if tx_Sender tx = [] then Some EmptySender
      else if tx_Recipient tx = [] then Some EmptyRecipient
      else if tx_Amount tx < 0 then Some NegativeAmount
      else if tx_Fee tx < 0 then Some NegativeFee
      else (case GetAccount s (tx_Sender tx) of
          None \<Rightarrow> Some (SenderNotFound (tx_Sender tx))
        | Some acc \<Rightarrow>
            (let expectedNonce = expected_nonce tv acc (tx_Sender tx)
             in if tx_Nonce tx \<noteq> expectedNonce
                then Some (PendingNonceMismatch (tx_Sender tx) expectedNonce (tx_Nonce tx))
                else if acc_Balance acc - ReservedBalance tv (tx_Sender tx) < tx_Amount tx + tx_Fee tx
                then Some InsufficientAvailable
                else None)))"

definition Accept :: "TxValidator \<Rightarrow> Tx \<Rightarrow> TxValidator" where
  "Accept tv tx =
     (let nextNonce = tx_Nonce tx + 1;
          tv1 = (case tv_pending tv (tx_Sender tx) of
                   None \<Rightarrow> tv\<lparr>tv_pending := (tv_pending tv)(tx_Sender tx \<mapsto> nextNonce)\<rparr>
                 | Some current \<Rightarrow>
                     if current < nextNonce
                     then tv\<lparr>tv_pending := (tv_pending tv)(tx_Sender tx \<mapsto> nextNonce)\<rparr> else tv)
      in tv1\<lparr>tv_reserved := (tv_reserved tv1)
               (tx_Sender tx \<mapsto> ReservedBalance tv1 (tx_Sender tx) + (tx_Amount tx + tx_Fee tx))\<rparr>)"

definition RemovePending :: "TxValidator \<Rightarrow> Tx \<Rightarrow> TxValidator" where
  "RemovePending tv tx =
     (let r = ReservedBalance tv (tx_Sender tx) - (tx_Amount tx + tx_Fee tx)
      in if r \<le> 0 then tv\<lparr>tv_reserved := (tv_reserved tv)(tx_Sender tx := None)\<rparr>
         else tv\<lparr>tv_reserved := (tv_reserved tv)(tx_Sender tx \<mapsto> r)\<rparr>)"

definition ResetValidator :: "TxValidator \<Rightarrow> TxValidator" where
  "ResetValidator tv = NewTxValidator"

definition ValidateAndAdd ::
  "AccountStore \<Rightarrow> int \<Rightarrow> TxValidator \<times> Mempool \<Rightarrow> Tx \<Rightarrow> (TxValidator \<times> Mempool) \<times> validate_error option" where
  "ValidateAndAdd s now st tx =
     (let (tv, pool) = st
      in case Validate s tv tx of
           Some e \<Rightarrow> (st, Some e)
         | None \<Rightarrow>
             (case AddTx now pool tx of
                (pool', Some e) \<Rightarrow> ((tv, pool'), Some (PoolRefused e))
              | (pool', None) \<Rightarrow> ((Accept tv tx, pool'), None)))"

definition PendingNonce :: "AccountStore \<Rightarrow> TxValidator \<Rightarrow> string \<Rightarrow> u64" where
  "PendingNonce s tv address =
     (case tv_pending tv address of
        Some n \<Rightarrow> n
      | None \<Rightarrow> (case GetAccount s address of None \<Rightarrow> 0 | Some acc \<Rightarrow> acc_Nonce acc))"

section \<open>The pool invariant\<close>

abbreviation fee_ok :: "Tx \<Rightarrow> bool" where
  "fee_ok t \<equiv> \<not> is_nan (tx_Fee t)"

interpretation fee: heap_order fee_before fee_ok
proof
  fix x y z :: Tx
  show "fee_ok x \<Longrightarrow> fee_ok y \<Longrightarrow> fee_before x y \<Longrightarrow> \<not> fee_before y x"
    using float_less_trans [of "tx_Fee x" "tx_Fee y" "tx_Fee x"] by (auto simp: fee_before_def tx_priority_def)
  show "fee_ok x \<Longrightarrow> fee_ok y \<Longrightarrow> fee_ok z \<Longrightarrow> \<not> fee_before y x \<Longrightarrow> \<not> fee_before z y \<Longrightarrow> \<not> fee_before z x"
    using float_linear [of "tx_Fee x" "tx_Fee y"] float_linear [of "tx_Fee y" "tx_Fee z"]
      float_less_trans [of "tx_Fee x" "tx_Fee z" "tx_Fee y"] float_less_trans [of "tx_Fee x" "tx_Fee y" "tx_Fee z"]
    by (auto simp: fee_before_def tx_priority_def)
qed

text \<open>What the nonce index says of a sender and a nonce.\<close>

definition nonce_entry :: "Mempool \<Rightarrow> string \<Rightarrow> u64 \<Rightarrow> string option" where
  "nonce_entry m s n = (case mp_senderNonces m s of None \<Rightarrow> None | Some b \<Rightarrow> b n)"

definition pool_wf :: "Mempool \<Rightarrow> bool" where
  "pool_wf m \<longleftrightarrow>
     is_heap fee_before (mp_pq m) (length (mp_pq m)) \<and>
     (\<forall>t \<in> set (mp_pq m). fee_ok t) \<and>
     distinct (map tx_ID (mp_pq m)) \<and>
     (\<forall>i t. mp_lookup m i = Some t \<longleftrightarrow> t \<in> set (mp_pq m) \<and> tx_ID t = i) \<and>
     (\<forall>s n i. nonce_entry m s n = Some i \<longleftrightarrow>
        (\<exists>t \<in> set (mp_pq m). tracksConsensusNonce t \<and> tx_Sender t = s \<and> tx_Nonce t = n \<and> tx_ID t = i)) \<and>
     (\<forall>s. mp_senderNonces m s \<noteq> Some Map.empty)"

definition pool_inv :: "Mempool \<Rightarrow> bool" where
  "pool_inv m \<longleftrightarrow> pool_wf m \<and> 0 < cfg_MaxSize (mp_cfg m) \<and> int (length (mp_pq m)) \<le> cfg_MaxSize (mp_cfg m)"

lemma pool_wfD:
  assumes "pool_wf m"
  shows "is_heap fee_before (mp_pq m) (length (mp_pq m))" and "\<forall>t \<in> set (mp_pq m). fee_ok t"
    and "distinct (map tx_ID (mp_pq m))"
    and "\<And>i t. mp_lookup m i = Some t \<longleftrightarrow> t \<in> set (mp_pq m) \<and> tx_ID t = i"
    and "\<And>s n i. nonce_entry m s n = Some i \<longleftrightarrow>
        (\<exists>t \<in> set (mp_pq m). tracksConsensusNonce t \<and> tx_Sender t = s \<and> tx_Nonce t = n \<and> tx_ID t = i)"
    and "\<And>s. mp_senderNonces m s \<noteq> Some Map.empty"
  using assms unfolding pool_wf_def by blast+

lemma same_id_same_tx:
  "pool_wf m \<Longrightarrow> t \<in> set (mp_pq m) \<Longrightarrow> u \<in> set (mp_pq m) \<Longrightarrow> tx_ID t = tx_ID u \<Longrightarrow> t = u"
  using pool_wfD(3) [of m] by (simp add: distinct_map inj_on_def)

lemma pending_iff: "pendingNonceLocked m t = (if tracksConsensusNonce t then nonce_entry m (tx_Sender t) (tx_Nonce t) else None)"
  by (simp add: pendingNonceLocked_def nonce_entry_def)

lemma nonce_entry_track:
  "nonce_entry (trackNonceLocked m t) s n =
     (if tracksConsensusNonce t \<and> s = tx_Sender t \<and> n = tx_Nonce t then Some (tx_ID t) else nonce_entry m s n)"
  by (simp add: trackNonceLocked_def nonce_entry_def Let_def split: option.split)

lemma nonce_entry_untrack:
  assumes "tracksConsensusNonce t \<Longrightarrow> nonce_entry m (tx_Sender t) (tx_Nonce t) = Some (tx_ID t)"
  shows "nonce_entry (untrackNonceLocked m t) s n =
     (if tracksConsensusNonce t \<and> s = tx_Sender t \<and> n = tx_Nonce t then None else nonce_entry m s n)"
proof (cases "tracksConsensusNonce t")
  case True
  with assms obtain b where b: "mp_senderNonces m (tx_Sender t) = Some b" "b (tx_Nonce t) = Some (tx_ID t)"
    by (auto simp: nonce_entry_def split: option.splits)
  have "nonce_entry m (tx_Sender t) n = None" if "b(tx_Nonce t := None) = Map.empty" "n \<noteq> tx_Nonce t" for n
    using that b by (simp add: nonce_entry_def) (metis fun_upd_other)
  with True b show ?thesis
    by (auto simp: untrackNonceLocked_def nonce_entry_def Let_def split: option.split)
qed (simp add: untrackNonceLocked_def)

lemma track_frame [simp]:
  "mp_pq (trackNonceLocked m t) = mp_pq m" "mp_lookup (trackNonceLocked m t) = mp_lookup m"
  "mp_cfg (trackNonceLocked m t) = mp_cfg m" "mp_admitErr (trackNonceLocked m t) = mp_admitErr m"
  by (simp_all add: trackNonceLocked_def Let_def)

lemma untrack_frame [simp]:
  "mp_pq (untrackNonceLocked m t) = mp_pq m" "mp_lookup (untrackNonceLocked m t) = mp_lookup m"
  "mp_cfg (untrackNonceLocked m t) = mp_cfg m" "mp_admitErr (untrackNonceLocked m t) = mp_admitErr m"
  by (simp_all add: untrackNonceLocked_def Let_def split: option.split)

lemma nonce_entry_frame [simp]:
  "nonce_entry (m\<lparr>mp_pq := q, mp_lookup := l\<rparr>) s n = nonce_entry m s n"
  by (simp add: nonce_entry_def)

text \<open>No sender is left with an empty set of nonces.\<close>

lemma track_nonempty:
  "(\<And>s. mp_senderNonces m s \<noteq> Some Map.empty) \<Longrightarrow> mp_senderNonces (trackNonceLocked m t) s \<noteq> Some Map.empty"
  by (auto simp: trackNonceLocked_def Let_def)

lemma untrack_nonempty:
  "(\<And>s. mp_senderNonces m s \<noteq> Some Map.empty) \<Longrightarrow> mp_senderNonces (untrackNonceLocked m t) s \<noteq> Some Map.empty"
  by (auto simp: untrackNonceLocked_def Let_def split: option.split)

text \<open>Pushing a transaction whose ID and whose sender and nonce are free.\<close>

lemma push_entry_wf:
  assumes wf: "pool_wf m" and ok: "fee_ok t" and free: "mp_lookup m (tx_ID t) = None"
    and pend: "pendingNonceLocked m t = None"
  shows "pool_wf (push_entry m t)" and "mset (mp_pq (push_entry m t)) = add_mset t (mset (mp_pq m))"
proof -
  note w = pool_wfD [OF wf]
  let ?q = "heap_Push fee_before (mp_pq m) t"
  have all: "\<forall>y \<in> set (t # mp_pq m). fee_ok y" using ok w(2) by simp
  have m: "mset ?q = add_mset t (mset (mp_pq m))" using w(1) all by (rule fee.Push_correct)
  then show "mset (mp_pq (push_entry m t)) = add_mset t (mset (mp_pq m))" by (simp add: push_entry_def)
  from mset_eq_setD [of ?q "t # mp_pq m"] m have s: "set ?q = insert t (set (mp_pq m))" by simp
  have new: "\<forall>u \<in> set (mp_pq m). tx_ID u \<noteq> tx_ID t"
  proof
    fix u assume "u \<in> set (mp_pq m)"
    then have "mp_lookup m (tx_ID u) = Some u" using w(4) by simp
    then show "tx_ID u \<noteq> tx_ID t" using free by auto
  qed
  have "mset (map tx_ID ?q) = mset (map tx_ID (t # mp_pq m))" using m by simp
  moreover have "distinct (map tx_ID (t # mp_pq m))" using new w(3) by auto
  ultimately have "distinct (map tx_ID ?q)" using mset_eq_imp_distinct_iff by blast
  moreover have "is_heap fee_before ?q (length ?q)" using w(1) all by (rule fee.Push_correct)
  moreover have "((mp_lookup m)(tx_ID t \<mapsto> t)) i = Some u \<longleftrightarrow> u \<in> set ?q \<and> tx_ID u = i" for i u
    using w(4) free new s by auto
  moreover have clash: "\<not> (tx_Sender u = tx_Sender t \<and> tx_Nonce u = tx_Nonce t)"
    if "u \<in> set (mp_pq m)" "tracksConsensusNonce u" "tracksConsensusNonce t" for u
    using w(5) [of "tx_Sender u" "tx_Nonce u" "tx_ID u"] that pend by (auto simp: pending_iff)
  moreover have "nonce_entry (push_entry m t) a n = Some i \<longleftrightarrow>
      (\<exists>u \<in> set ?q. tracksConsensusNonce u \<and> tx_Sender u = a \<and> tx_Nonce u = n \<and> tx_ID u = i)" for a n i
    using w(5) [of a n i] clash by (auto simp: push_entry_def nonce_entry_track s)
  moreover have "mp_senderNonces (push_entry m t) a \<noteq> Some Map.empty" for a
    unfolding push_entry_def using w(6) by (intro track_nonempty) simp
  ultimately show "pool_wf (push_entry m t)"
    using s all by (simp add: pool_wf_def) (simp add: push_entry_def)
qed

text \<open>Taking a transaction out: the queue loses it, the two indexes forget it.\<close>

definition take_out :: "Mempool \<Rightarrow> Tx list \<Rightarrow> Tx \<Rightarrow> Mempool" where
  "take_out m q t = untrackNonceLocked (m\<lparr>mp_pq := q, mp_lookup := (mp_lookup m)(tx_ID t := None)\<rparr>) t"

lemma take_out_wf:
  assumes wf: "pool_wf m" and m: "add_mset t (mset q) = mset (mp_pq m)" and heap: "is_heap fee_before q (length q)"
  shows "pool_wf (take_out m q t)" and "set q = set (mp_pq m) - {t}" and "Suc (length q) = length (mp_pq m)"
proof -
  note w = pool_wfD [OF wf]
  have "mset (map tx_ID (t # q)) = mset (map tx_ID (mp_pq m))" using m by (metis mset_map mset.simps(2))
  then have d: "distinct (map tx_ID (t # q))" using mset_eq_imp_distinct_iff w(3) by blast
  have s: "set (mp_pq m) = insert t (set q)" using mset_eq_setD [of "t # q" "mp_pq m"] m by simp
  have new: "\<forall>u \<in> set q. tx_ID u \<noteq> tx_ID t" using d by (auto simp: image_iff)
  then show q: "set q = set (mp_pq m) - {t}" using s by auto
  show "Suc (length q) = length (mp_pq m)" using mset_eq_length [of "t # q" "mp_pq m"] m by simp
  have entry: "tracksConsensusNonce t \<Longrightarrow>
      nonce_entry (m\<lparr>mp_pq := q, mp_lookup := (mp_lookup m)(tx_ID t := None)\<rparr>) (tx_Sender t) (tx_Nonce t) = Some (tx_ID t)"
    using w(5) s by auto
  have uniq: "\<not> (tx_Sender u = tx_Sender t \<and> tx_Nonce u = tx_Nonce t)"
    if "u \<in> set q" "tracksConsensusNonce u" "tracksConsensusNonce t" for u
  proof
    assume "tx_Sender u = tx_Sender t \<and> tx_Nonce u = tx_Nonce t"
    then have "Some (tx_ID u) = Some (tx_ID t)" using that w(5) s by (metis insert_iff)
    then show False using that(1) new by simp
  qed
  have "((mp_lookup m)(tx_ID t := None)) i = Some u \<longleftrightarrow> u \<in> set q \<and> tx_ID u = i" for i u
    using w(4) new s by auto
  moreover have "nonce_entry (take_out m q t) a n = Some i \<longleftrightarrow>
      (\<exists>u \<in> set q. tracksConsensusNonce u \<and> tx_Sender u = a \<and> tx_Nonce u = n \<and> tx_ID u = i)" for a n i
    using w(5) [of a n i] uniq s by (auto simp: take_out_def nonce_entry_untrack [OF entry])
  moreover have "mp_senderNonces (take_out m q t) a \<noteq> Some Map.empty" for a
    unfolding take_out_def using w(6) by (intro untrack_nonempty) simp
  ultimately show "pool_wf (take_out m q t)"
    using s w(2) d heap by (simp add: pool_wf_def) (simp add: take_out_def)
qed

lemma index_of_id_Some:
  "index_of_id i q = Some k \<Longrightarrow> k < length q \<and> tx_ID (q ! k) = i"
  by (induction q arbitrary: k) (auto split: if_splits)

lemma index_of_id_ex: "t \<in> set q \<Longrightarrow> \<exists>k. index_of_id (tx_ID t) q = Some k"
  by (induction q) auto

lemma removeLocked_absent: "mp_lookup m i = None \<Longrightarrow> removeLocked m i = (m, False)"
  by (simp add: removeLocked_def)

lemma removeLocked_present:
  assumes wf: "pool_wf m" and t: "t \<in> set (mp_pq m)"
  shows "pool_wf (fst (removeLocked m (tx_ID t)))" and "snd (removeLocked m (tx_ID t))"
    and "set (mp_pq (fst (removeLocked m (tx_ID t)))) = set (mp_pq m) - {t}"
    and "Suc (length (mp_pq (fst (removeLocked m (tx_ID t))))) = length (mp_pq m)"
    and "mp_cfg (fst (removeLocked m (tx_ID t))) = mp_cfg m"
proof -
  note w = pool_wfD [OF wf]
  obtain k where k: "index_of_id (tx_ID t) (mp_pq m) = Some k" using index_of_id_ex [OF t] by blast
  then have kt: "k < length (mp_pq m)" "mp_pq m ! k = t"
    using index_of_id_Some [OF k] same_id_same_tx [OF wf _ t] by auto
  let ?q = "fst (heap_Remove fee_before (mp_pq m) k)"
  have r: "removeLocked m (tx_ID t) = (take_out m ?q t, True)"
    using k kt t w(4) [of "tx_ID t" t] by (simp add: removeLocked_def take_out_def)
  have q: "add_mset t (mset ?q) = mset (mp_pq m)" "is_heap fee_before ?q (length ?q)"
    using fee.Remove_correct [OF w(1,2) kt(1)] kt(2) by simp_all
  from take_out_wf [OF wf q] r
  show "pool_wf (fst (removeLocked m (tx_ID t)))" "snd (removeLocked m (tx_ID t))"
    "set (mp_pq (fst (removeLocked m (tx_ID t)))) = set (mp_pq m) - {t}"
    "Suc (length (mp_pq (fst (removeLocked m (tx_ID t))))) = length (mp_pq m)"
    "mp_cfg (fst (removeLocked m (tx_ID t))) = mp_cfg m"
    by (simp_all add: take_out_def)
qed

lemma removeLocked_inv: "pool_inv m \<Longrightarrow> pool_inv (fst (removeLocked m i))"
proof (cases "mp_lookup m i")
  case (Some t)
  assume inv: "pool_inv m"
  then have wf: "pool_wf m" by (simp add: pool_inv_def)
  with Some have t: "t \<in> set (mp_pq m)" "tx_ID t = i" using pool_wfD(4) by blast+
  from removeLocked_present [OF wf t(1)] inv show ?thesis
    by (simp add: pool_inv_def t(2))
qed (simp add: removeLocked_absent)

text \<open>The scan finds a transaction of the lowest fee, because in the heap the lowest fee is at a leaf.\<close>

lemma min_scan_bounds:
  "m < length q \<Longrightarrow> \<forall>t \<in> set q. fee_ok t \<Longrightarrow>
     min_scan q i m < length q \<and> \<not> fee_before (q ! min_scan q i m) (q ! m) \<and>
     (\<forall>k. i \<le> k \<and> k < length q \<longrightarrow> \<not> fee_before (q ! min_scan q i m) (q ! k))"
proof (induction q i m rule: min_scan.induct)
  case (1 q i m)
  note ok = "1.prems"
  show ?case
  proof (cases "length q \<le> i")
    case True
    with ok show ?thesis by (subst (1 2 3) min_scan.simps) (auto simp: fee_before_def)
  next
    case False
    let ?m = "if tx_priority (q ! i) < tx_priority (q ! m) then i else m"
    let ?r = "min_scan q (i + 1) ?m"
    have r: "min_scan q i m = ?r" using False by (subst min_scan.simps) simp
    have IH: "?r < length q" "\<not> fee_before (q ! ?r) (q ! ?m)"
      "\<And>k. i + 1 \<le> k \<Longrightarrow> k < length q \<Longrightarrow> \<not> fee_before (q ! ?r) (q ! k)"
      using "1.IH" [OF False] False ok by (auto split: if_splits)
    have m: "\<not> fee_before (q ! ?m) (q ! m)" "\<not> fee_before (q ! ?m) (q ! i)"
      using False ok fee.lt_asym [of "q ! m" "q ! i"] by (auto simp: fee_before_def)
    have trans: "\<not> fee_before (q ! ?r) (q ! k)" if "k < length q" "\<not> fee_before (q ! ?m) (q ! k)" for k
      using that IH(1,2) False ok by (intro fee.not_lt_trans [of "q ! k" "q ! ?m" "q ! ?r"]) auto
    have "\<not> fee_before (q ! ?r) (q ! k)" if "i \<le> k" "k < length q" for k
      using that IH(3) [of k] trans [OF _ m(2)] False by (cases "k = i") auto
    with IH(1) trans [OF _ m(1)] ok(1) show ?thesis by (simp only: r) blast
  qed
qed

lemma lowest_tx_least:
  assumes heap: "is_heap fee_before q (length q)" and ok: "\<forall>t \<in> set q. fee_ok t" and ne: "q \<noteq> []"
  shows "lowest_tx q \<in> set q" and "t \<in> set q \<Longrightarrow> tx_Fee (lowest_tx q) \<le> tx_Fee t"
proof -
  let ?h = "length q div 2"
  let ?r = "min_scan q (?h + 1) ?h"
  have h: "?h < length q" using ne by simp
  note scan = min_scan_bounds [OF h ok, of "?h + 1"]
  then have r: "?r < length q" by blast
  then show "lowest_tx q \<in> set q" by (simp add: lowest_tx_def)
  assume "t \<in> set q"
  then obtain k where k: "k < length q" "t = q ! k" by (auto simp: in_set_conv_nth)
  from fee.heap_leaf [OF heap _ ok k(1)] obtain l
    where l: "?h \<le> l" "l < length q" "\<not> fee_before (q ! l) (q ! k)" by auto
  have "\<not> fee_before (q ! ?r) (q ! l)" using scan l by (cases "l = ?h") auto
  with l k r ok have "\<not> fee_before (lowest_tx q) t"
    using fee.not_lt_trans [of "q ! k" "q ! l" "q ! ?r"] by (simp add: lowest_tx_def)
  with r k ok show "tx_Fee (lowest_tx q) \<le> tx_Fee t"
    by (simp add: fee_before_def tx_priority_def float_not_less lowest_tx_def)
qed

lemma stamp_frame [simp]:
  "tx_ID (stamp now t) = tx_ID t" "tx_Sender (stamp now t) = tx_Sender t" "tx_Fee (stamp now t) = tx_Fee t"
  "tx_Nonce (stamp now t) = tx_Nonce t" "tx_ContractID (stamp now t) = tx_ContractID t"
  by (simp_all add: stamp_def)

lemma tracks_stamp [simp]: "tracksConsensusNonce (stamp now t) = tracksConsensusNonce t"
  by (simp add: tracksConsensusNonce_def)

lemma pending_stamp [simp]: "pendingNonceLocked m (stamp now t) = pendingNonceLocked m t"
  by (simp add: pendingNonceLocked_def split: option.split)

lemma push_entry_cfg [simp]: "mp_cfg (push_entry m t) = mp_cfg m"
  by (simp add: push_entry_def)

text \<open>What making room and pushing does to a pool, on each of its three branches.\<close>

lemma make_room_full:
  assumes inv: "pool_inv m" and ok: "fee_ok t" and free: "mp_lookup m (tx_ID t) = None"
    and pend: "pendingNonceLocked m t = None"
    and full: "cfg_MaxSize (mp_cfg m) \<le> int (length (mp_pq m))"
    and pays: "\<not> tx_Fee t \<le> tx_Fee (lowest_tx (mp_pq m))"
    and r: "make_room_and_push m t = (m', e)"
  shows "e = None" and "pool_inv m'"
    and "set (mp_pq m') = insert t (set (mp_pq m) - {lowest_tx (mp_pq m)})"
proof -
  let ?low = "lowest_tx (mp_pq m)"
  let ?m = "fst (removeLocked m (tx_ID ?low))"
  have wf: "pool_wf m" and ne: "mp_pq m \<noteq> []" using inv full by (auto simp: pool_inv_def)
  note w = pool_wfD [OF wf]
  note low = lowest_tx_least [OF w(1,2) ne]
  note rem = removeLocked_present [OF wf low(1)]
  have free': "mp_lookup ?m (tx_ID t) = None"
  proof (rule ccontr)
    assume "mp_lookup ?m (tx_ID t) \<noteq> None"
    then obtain u where "u \<in> set (mp_pq ?m)" "tx_ID u = tx_ID t" using pool_wfD(4) [OF rem(1)] by blast
    then have "mp_lookup m (tx_ID t) = Some u" using rem(3) w(4) by blast
    with free show False by simp
  qed
  have pend': "pendingNonceLocked ?m t = None"
  proof (rule ccontr)
    assume "pendingNonceLocked ?m t \<noteq> None"
    then obtain i where i: "tracksConsensusNonce t" "nonce_entry ?m (tx_Sender t) (tx_Nonce t) = Some i"
      by (auto simp: pending_iff split: if_splits)
    then have "nonce_entry m (tx_Sender t) (tx_Nonce t) = Some i"
      using pool_wfD(5) [OF rem(1)] w(5) rem(3) by auto
    with i(1) pend show False by (simp add: pending_iff)
  qed
  note push = push_entry_wf [OF rem(1) ok free' pend']
  have m': "m' = push_entry ?m t" "e = None"
    using r full pays by (simp_all add: make_room_and_push_def Let_def tx_priority_def)
  then show "e = None" by simp
  have len: "length (mp_pq m') = length (mp_pq m)"
    using mset_eq_length [of "mp_pq m'" "t # mp_pq ?m"] push(2) rem(4) m' by simp
  then show "pool_inv m'" using push(1) rem(5) inv m' by (simp add: pool_inv_def)
  have "set (mp_pq m') = insert t (set (mp_pq ?m))"
    using mset_eq_setD [of "mp_pq m'" "t # mp_pq ?m"] push(2) m' by simp
  then show "set (mp_pq m') = insert t (set (mp_pq m) - {?low})" using rem(3) by simp
qed

lemma make_room_free:
  assumes inv: "pool_inv m" and ok: "fee_ok t" and free: "mp_lookup m (tx_ID t) = None"
    and pend: "pendingNonceLocked m t = None"
    and room: "\<not> cfg_MaxSize (mp_cfg m) \<le> int (length (mp_pq m))"
    and r: "make_room_and_push m t = (m', e)"
  shows "e = None" and "pool_inv m'" and "set (mp_pq m') = insert t (set (mp_pq m))"
proof -
  have wf: "pool_wf m" using inv by (simp add: pool_inv_def)
  note push = push_entry_wf [OF wf ok free pend]
  have m': "m' = push_entry m t" "e = None"
    using r room by (simp_all add: make_room_and_push_def)
  then show "e = None" by simp
  have "length (mp_pq m') = Suc (length (mp_pq m))"
    using mset_eq_length [of "mp_pq m'" "t # mp_pq m"] push(2) m' by simp
  then show "pool_inv m'" using push(1) inv room m' by (simp add: pool_inv_def)
  show "set (mp_pq m') = insert t (set (mp_pq m))"
    using mset_eq_setD [of "mp_pq m'" "t # mp_pq m"] push(2) m' by simp
qed

lemma make_room_refuse:
  "cfg_MaxSize (mp_cfg m) \<le> int (length (mp_pq m)) \<Longrightarrow> tx_Fee t \<le> tx_Fee (lowest_tx (mp_pq m)) \<Longrightarrow>
     make_room_and_push m t = (m, Some (MempoolFull (tx_Fee (lowest_tx (mp_pq m)))))"
  by (simp add: make_room_and_push_def Let_def tx_priority_def)

lemma make_room_inv:
  assumes "pool_inv m" and "fee_ok t" and "mp_lookup m (tx_ID t) = None" and "pendingNonceLocked m t = None"
  shows "pool_inv (fst (make_room_and_push m t))"
  using make_room_full [OF assms] make_room_free [OF assms] make_room_refuse [of m t] assms(1)
  by (metis fst_conv surj_pair)

lemma AddTx_inv: "pool_inv m \<Longrightarrow> fee_ok t \<Longrightarrow> pool_inv (fst (AddTx now m t))"
  by (auto simp: AddTx_def make_room_inv split: option.split)

lemma Restore_inv:
  "pool_inv m \<Longrightarrow> \<forall>t. Some t \<in> set ts \<longrightarrow> fee_ok t \<Longrightarrow> pool_inv (RestoreTransactions now m ts)"
  by (induction now m ts rule: RestoreTransactions.induct) (auto simp: make_room_inv)

lemma PopTx_correct:
  assumes inv: "pool_inv m" and ne: "mp_pq m \<noteq> []" and r: "PopTx m = (m', r)"
  obtains t where "r = Some t" "t \<in> set (mp_pq m)" "\<And>u. u \<in> set (mp_pq m) \<Longrightarrow> tx_Fee u \<le> tx_Fee t"
    "pool_inv m'" "add_mset t (mset (mp_pq m')) = mset (mp_pq m)"
proof -
  have wf: "pool_wf m" using inv by (simp add: pool_inv_def)
  note w = pool_wfD [OF wf]
  note pop = fee.Pop_correct [OF w(1,2) ne]
  let ?q = "fst (heap_Pop fee_before (mp_pq m))" and ?t = "mp_pq m ! 0"
  have m': "m' = take_out m ?q ?t" "r = Some ?t"
    using r ne pop(1) by (auto simp: PopTx_def take_out_def Let_def case_prod_beta)
  note out = take_out_wf [OF wf pop(2,3)]
  have t: "?t \<in> set (mp_pq m)" using ne by simp
  have max: "tx_Fee u \<le> tx_Fee ?t" if u: "u \<in> set (mp_pq m)" for u
  proof -
    obtain k where "k < length (mp_pq m)" "u = mp_pq m ! k"
      using u unfolding in_set_conv_nth by metis
    then have "\<not> fee_before u ?t" using fee.heap_root [OF w(1) _ w(2)] by simp
    then show ?thesis using u t w(2) by (simp add: fee_before_def tx_priority_def float_not_less)
  qed
  have q: "mp_pq m' = ?q" "mp_cfg m' = mp_cfg m" using m' by (simp_all add: take_out_def)
  have "pool_inv m'" using out(1,3) inv m' q by (simp add: pool_inv_def)
  then show ?thesis using that [OF m'(2) t max] pop(2) q by simp
qed

lemma PopTx_inv: "pool_inv m \<Longrightarrow> pool_inv (fst (PopTx m))"
proof (cases "mp_pq m = []")
  case False
  assume "pool_inv m"
  then show ?thesis using False prod.collapse [symmetric] by (rule PopTx_correct)
qed (simp add: PopTx_def)

text \<open>Draining: the fees come out in descending order, nothing left behind pays more, and what came out
  and what is left make up the pool.\<close>

lemma drain_loop_correct:
  assumes "pool_inv m" and "n \<le> length (mp_pq m)"
    and "sorted_wrt (\<lambda>x y. tx_Fee y \<le> tx_Fee x) acc"
    and "\<forall>x \<in> set acc. \<forall>u \<in> set (mp_pq m). tx_Fee u \<le> tx_Fee x"
    and "drain_loop n m acc = (m', ts)"
  shows "pool_inv m' \<and> sorted_wrt (\<lambda>x y. tx_Fee y \<le> tx_Fee x) ts \<and>
         (\<forall>x \<in> set ts. \<forall>u \<in> set (mp_pq m'). tx_Fee u \<le> tx_Fee x) \<and>
         length ts = length acc + n \<and> mset ts + mset (mp_pq m') = mset acc + mset (mp_pq m)"
  using assms
proof (induction n arbitrary: m acc)
  case (Suc n)
  have ne: "mp_pq m \<noteq> []" using Suc.prems(2) by auto
  obtain m1 r where p: "PopTx m = (m1, r)" by fastforce
  obtain t where t: "r = Some t" "t \<in> set (mp_pq m)" "\<And>u. u \<in> set (mp_pq m) \<Longrightarrow> tx_Fee u \<le> tx_Fee t"
      and m1: "pool_inv m1" "add_mset t (mset (mp_pq m1)) = mset (mp_pq m)"
    by (rule PopTx_correct [OF Suc.prems(1) ne p]) blast
  have sub: "set (mp_pq m) = insert t (set (mp_pq m1))"
    using mset_eq_setD [of "t # mp_pq m1" "mp_pq m"] m1(2) by simp
  have len: "Suc (length (mp_pq m1)) = length (mp_pq m)"
    using mset_eq_length [of "t # mp_pq m1" "mp_pq m"] m1(2) by simp
  have d: "drain_loop n m1 (acc @ [t]) = (m', ts)" using Suc.prems(5) p t(1) by simp
  have s: "sorted_wrt (\<lambda>x y. tx_Fee y \<le> tx_Fee x) (acc @ [t])"
    using Suc.prems(3,4) t(2) by (simp add: sorted_wrt_append)
  have b: "\<forall>x \<in> set (acc @ [t]). \<forall>u \<in> set (mp_pq m1). tx_Fee u \<le> tx_Fee x"
    using Suc.prems(4) t(3) sub by simp
  have "n \<le> length (mp_pq m1)" using len Suc.prems(2) by simp
  from Suc.IH [OF m1(1) this s b d] m1(2) show ?case by simp
qed simp

lemma Drain_correct:
  assumes inv: "pool_inv m" and d: "Drain m mx = (m', ts)"
  shows "pool_inv m' \<and> sorted_wrt (\<lambda>x y. tx_Fee y \<le> tx_Fee x) ts \<and>
         (\<forall>x \<in> set ts. \<forall>u \<in> set (mp_pq m'). tx_Fee u \<le> tx_Fee x) \<and>
         length ts = min (nat mx) (length (mp_pq m)) \<and> mset ts + mset (mp_pq m') = mset (mp_pq m)"
proof (cases "mx \<le> 0 \<or> mp_pq m = []")
  case True
  with d inv show ?thesis by (auto simp: Drain_def)
next
  case False
  define n where "n = (if int (length (mp_pq m)) < mx then length (mp_pq m) else nat mx)"
  have n: "n \<le> length (mp_pq m)" "n = min (nat mx) (length (mp_pq m))" by (auto simp: n_def)
  have "drain_loop n m [] = (m', ts)" using d False by (simp add: Drain_def n_def)
  from drain_loop_correct [OF inv n(1) _ _ this] show ?thesis using n(2) by simp
qed

lemma Drain_inv: "pool_inv m \<Longrightarrow> pool_inv (fst (Drain m mx))"
  using Drain_correct [of m mx "fst (Drain m mx)" "snd (Drain m mx)"] by simp

lemma foldl_remove_inv: "pool_inv m \<Longrightarrow> pool_inv (foldl (\<lambda>m i. fst (removeLocked m i)) m is)"
  by (induction "is" arbitrary: m) (simp_all add: removeLocked_inv)

section \<open>Reachable pools\<close>

datatype pool_op =
    PAdd int Tx
  | PRestore int "Tx option list"
  | PPop
  | PRemove string
  | PEvict int "string list"
  | PDrain int
  | PSetAdmission "(Tx \<Rightarrow> string option) option"

fun run_pool :: "Mempool \<Rightarrow> pool_op \<Rightarrow> Mempool" where
  "run_pool m (PAdd now t) = fst (AddTx now m t)"
| "run_pool m (PRestore now ts) = RestoreTransactions now m ts"
| "run_pool m PPop = fst (PopTx m)"
| "run_pool m (PRemove i) = fst (RemoveTx m i)"
| "run_pool m (PEvict now ks) = fst (EvictStale now ks m)"
| "run_pool m (PDrain mx) = fst (Drain m mx)"
| "run_pool m (PSetAdmission fn) = SetAdmissionChecker m fn"

fun pool_op_ok :: "pool_op \<Rightarrow> bool" where
  "pool_op_ok (PAdd now t) = fee_ok t"
| "pool_op_ok (PRestore now ts) = (\<forall>t. Some t \<in> set ts \<longrightarrow> fee_ok t)"
| "pool_op_ok _ = True"

inductive pool_reach :: "Config \<Rightarrow> Mempool \<Rightarrow> bool" for cfg where
  pool_start: "pool_reach cfg (NewMempool cfg)"
| pool_step: "pool_reach cfg m \<Longrightarrow> pool_op_ok p \<Longrightarrow> pool_reach cfg (run_pool m p)"

lemma New_inv: "pool_inv (NewMempool cfg)"
  by (simp add: NewMempool_def pool_inv_def pool_wf_def is_heap_def nonce_entry_def)

lemma SetAdmission_inv: "pool_inv m \<Longrightarrow> pool_inv (SetAdmissionChecker m fn)"
  by (simp add: SetAdmissionChecker_def pool_inv_def pool_wf_def nonce_entry_def)

lemma run_pool_inv: "pool_inv m \<Longrightarrow> pool_op_ok p \<Longrightarrow> pool_inv (run_pool m p)"
  by (cases p) (simp_all add: AddTx_inv Restore_inv PopTx_inv removeLocked_inv RemoveTx_def EvictStale_def
      foldl_remove_inv Drain_inv SetAdmission_inv)

lemma pool_reach_inv: "pool_reach cfg m \<Longrightarrow> pool_inv m"
  by (induction rule: pool_reach.induct) (simp_all add: New_inv run_pool_inv)

text \<open>The transactions an operation offers to the pool, and pools as the outcome of a list of operations.\<close>

fun op_txs :: "pool_op \<Rightarrow> Tx set" where
  "op_txs (PAdd now t) = {t}"
| "op_txs (PRestore now ts) = {t. Some t \<in> set ts}"
| "op_txs _ = {}"

lemma pool_run_reach:
  "\<forall>p \<in> set ps. \<forall>t \<in> op_txs p. \<not> is_nan (tx_Fee t) \<Longrightarrow> pool_reach cfg (foldl run_pool (NewMempool cfg) ps)"
proof (induction ps rule: rev_induct)
  case (snoc p ps)
  then have "pool_op_ok p" by (cases p) auto
  with snoc show ?case by (auto intro: pool_step)
qed (simp add: pool_start)

text \<open>
  C6. After any list of operations on a new pool, provided no transaction offered to it has a fee that is not
  a number: the queue is a heap on the fee, it holds at most \<open>MaxSize\<close> transactions, no ID twice; the lookup
  table holds exactly the queued transactions; the nonce index holds exactly the senders and nonces of
  the queued contract transactions, with no entry left behind for a transaction or a sender that is gone; and no two
  queued contract transactions share a sender and a nonce.
\<close>

theorem reachable_pool_consistent:
  assumes "\<forall>p \<in> set ps. \<forall>t \<in> op_txs p. \<not> is_nan (tx_Fee t)" and "m = foldl run_pool (NewMempool cfg) ps"
  shows "is_heap fee_before (mp_pq m) (length (mp_pq m)) \<and> distinct (map tx_ID (mp_pq m)) \<and>
         int (PoolSize m) \<le> cfg_MaxSize (mp_cfg m) \<and>
         (\<forall>i t. GetTx m i = Some t \<longleftrightarrow> t \<in> set (mp_pq m) \<and> tx_ID t = i) \<and>
         (\<forall>s byNonce n i. mp_senderNonces m s = Some byNonce \<longrightarrow> byNonce \<noteq> Map.empty \<and> (byNonce n = Some i \<longrightarrow>
            (\<exists>t \<in> set (mp_pq m). tracksConsensusNonce t \<and> tx_Sender t = s \<and> tx_Nonce t = n \<and> tx_ID t = i))) \<and>
         (\<forall>t \<in> set (mp_pq m). tracksConsensusNonce t \<longrightarrow> pendingNonceLocked m t = Some (tx_ID t)) \<and>
         (\<forall>t \<in> set (mp_pq m). \<forall>u \<in> set (mp_pq m).
            tracksConsensusNonce t \<and> tracksConsensusNonce u \<and>
            tx_Sender t = tx_Sender u \<and> tx_Nonce t = tx_Nonce u \<longrightarrow> t = u)"
proof -
  have inv: "pool_inv m" and wf: "pool_wf m"
    using pool_reach_inv [OF pool_run_reach [OF assms(1)]] assms(2) by (auto simp: pool_inv_def)
  note w = pool_wfD [OF wf]
  have "t = u" if "t \<in> set (mp_pq m)" "u \<in> set (mp_pq m)" "tracksConsensusNonce t" "tracksConsensusNonce u"
    "tx_Sender t = tx_Sender u" "tx_Nonce t = tx_Nonce u" for t u
  proof -
    have "nonce_entry m (tx_Sender t) (tx_Nonce t) = Some (tx_ID t)"
      "nonce_entry m (tx_Sender t) (tx_Nonce t) = Some (tx_ID u)" using that w(5) by auto
    then show ?thesis using same_id_same_tx [OF wf that(1,2)] by simp
  qed
  moreover have "\<exists>t \<in> set (mp_pq m). tracksConsensusNonce t \<and> tx_Sender t = s \<and> tx_Nonce t = n \<and> tx_ID t = i"
    if "mp_senderNonces m s = Some b" "b n = Some i" for s b n i
    using w(5) [of s n i] that by (simp add: nonce_entry_def)
  moreover have "pendingNonceLocked m t = Some (tx_ID t)" if "t \<in> set (mp_pq m)" "tracksConsensusNonce t" for t
    using w(5) [of "tx_Sender t" "tx_Nonce t" "tx_ID t"] that by (auto simp: pending_iff)
  ultimately show ?thesis using w(1,3,4,6) inv by (auto simp: pool_inv_def PoolSize_def GetTx_def)
qed

definition pool_tx :: "string \<Rightarrow> rat \<Rightarrow> u64 \<Rightarrow> Tx" where
  "pool_tx i fee n = demo_tx\<lparr>tx_ID := i, tx_Fee := Fin fee, tx_Nonce := n, tx_ContractID := ''c''\<rparr>"

lemma pool_tx_ok: "fee_ok (pool_tx i fee n)"
  by (simp add: pool_tx_def is_nan_def)

abbreviation demo_cfg :: Config where
  "demo_cfg \<equiv> DefaultConfig\<lparr>cfg_MaxSize := 2\<rparr>"

abbreviation demo_pool :: Mempool where
  "demo_pool \<equiv> run_pool (run_pool (NewMempool demo_cfg) (PAdd 1 (pool_tx ''x'' 5 1))) (PAdd 2 (pool_tx ''y'' 7 2))"

lemma demo_pool_reach: "pool_reach demo_cfg demo_pool"
  by (intro pool_reach.intros) (simp_all add: pool_tx_ok)

theorem reachable_pool_consistent_witness:
  "let m = foldl run_pool (NewMempool demo_cfg) [PAdd 1 (pool_tx ''x'' 5 1), PAdd 2 (pool_tx ''y'' 7 2), PPop]
   in int (PoolSize m) \<le> cfg_MaxSize (mp_cfg m) \<and>
     (\<forall>t \<in> set (mp_pq m). tracksConsensusNonce t \<longrightarrow> pendingNonceLocked m t = Some (tx_ID t)) \<and>
     mp_senderNonces m ''a'' \<noteq> Some Map.empty"
proof -
  have "\<forall>p \<in> set [PAdd 1 (pool_tx ''x'' 5 1), PAdd 2 (pool_tx ''y'' 7 2), PPop]. \<forall>t \<in> op_txs p. \<not> is_nan (tx_Fee t)"
    using pool_tx_ok by simp
  from reachable_pool_consistent [OF this refl, of demo_cfg] show ?thesis unfolding Let_def by blast
qed

text \<open>
  C18. \<open>Drain\<close> returns the requested number of transactions (or all there are), in descending order of
  fee, none of which pays less than any transaction left in the pool; and it neither loses nor
  duplicates a transaction.
\<close>

theorem drain_takes_highest_fees:
  assumes "pool_reach cfg m" and "Drain m mx = (m', ts)"
  shows "length ts = min (nat mx) (PoolSize m) \<and>
         sorted_wrt (\<lambda>x y. tx_Fee y \<le> tx_Fee x) ts \<and>
         (\<forall>x \<in> set ts. \<forall>u \<in> set (mp_pq m'). tx_Fee u \<le> tx_Fee x) \<and>
         mset ts + mset (mp_pq m') = mset (mp_pq m)"
  using Drain_correct [OF pool_reach_inv [OF assms(1)] assms(2)] by (simp add: PoolSize_def)

theorem drain_takes_highest_fees_witness:
  "length (snd (Drain demo_pool 1)) = min (nat 1) (PoolSize demo_pool)"
  using drain_takes_highest_fees [OF demo_pool_reach, of 1 "fst (Drain demo_pool 1)" "snd (Drain demo_pool 1)"]
  by simp

text \<open>
  Adding to a full pool either replaces a transaction of the lowest fee in the whole pool by the
  new one, which then pays strictly more, or is refused and changes nothing; a refusal for lack of room
  names the lowest fee and means the newcomer does not beat it. The leaf scan of the heap is enough to
  find the lowest fee.
\<close>

theorem add_replaces_cheapest:
  assumes reach: "pool_reach cfg m" and ok: "\<not> is_nan (tx_Fee t)"
    and full: "cfg_MaxSize (mp_cfg m) \<le> int (PoolSize m)" and r: "AddTx now m t = (m', e)"
  shows "case e of
           None \<Rightarrow> \<exists>low \<in> set (mp_pq m). (\<forall>u \<in> set (mp_pq m). tx_Fee low \<le> tx_Fee u) \<and>
                     tx_Fee low < tx_Fee t \<and> set (mp_pq m') = insert (stamp now t) (set (mp_pq m) - {low})
         | Some (MempoolFull f) \<Rightarrow> m' = m \<and> tx_Fee t \<le> f \<and>
                     (\<exists>low \<in> set (mp_pq m). tx_Fee low = f \<and> (\<forall>u \<in> set (mp_pq m). f \<le> tx_Fee u))
         | Some _ \<Rightarrow> m' = m"
proof -
  have inv: "pool_inv m" by (rule pool_reach_inv [OF reach])
  then have ne: "mp_pq m \<noteq> []" and wf: "pool_wf m" using full by (auto simp: pool_inv_def PoolSize_def)
  note w = pool_wfD [OF wf]
  note low = lowest_tx_least [OF w(1,2) ne]
  have room: "cfg_MaxSize (mp_cfg m) \<le> int (length (mp_pq m))" using full by (simp add: PoolSize_def)
  show ?thesis
  proof (cases "mp_lookup m (tx_ID t) = None \<and> pendingNonceLocked m t = None \<and>
      (case mp_admitErr m of None \<Rightarrow> None | Some fn \<Rightarrow> fn t) = None")
    case False
    with r show ?thesis by (auto simp: AddTx_def split: option.splits if_splits)
  next
    case True
    then have mk: "make_room_and_push m (stamp now t) = (m', e)" using r by (simp add: AddTx_def)
    show ?thesis
    proof (cases "tx_Fee t \<le> tx_Fee (lowest_tx (mp_pq m))")
      case le: True
      with mk make_room_refuse [OF room, of "stamp now t"] low show ?thesis by auto
    next
      case False
      have st: "fee_ok (stamp now t)" "mp_lookup m (tx_ID (stamp now t)) = None"
        "pendingNonceLocked m (stamp now t) = None" "\<not> tx_Fee (stamp now t) \<le> tx_Fee (lowest_tx (mp_pq m))"
        using ok True False by simp_all
      have "tx_Fee (lowest_tx (mp_pq m)) < tx_Fee t"
        using False float_linear [of "tx_Fee t" "tx_Fee (lowest_tx (mp_pq m))"] ok w(2) low(1)
        by (auto simp: less_eq_float64_def is_nan_def)
      with make_room_full [OF inv st(1-3) room st(4) mk] low show ?thesis by auto
    qed
  qed
qed

theorem add_replaces_cheapest_witness:
  "let m = run_pool (NewMempool (DefaultConfig\<lparr>cfg_MaxSize := 1\<rparr>)) (PAdd 1 (pool_tx ''x'' 5 1));
       t = pool_tx ''y'' 7 2; (m', e) = AddTx 2 m t
   in case e of
           None \<Rightarrow> \<exists>low \<in> set (mp_pq m). (\<forall>u \<in> set (mp_pq m). tx_Fee low \<le> tx_Fee u) \<and>
                     tx_Fee low < tx_Fee t \<and> set (mp_pq m') = insert (stamp 2 t) (set (mp_pq m) - {low})
         | Some (MempoolFull f) \<Rightarrow> m' = m \<and> tx_Fee t \<le> f \<and>
                     (\<exists>low \<in> set (mp_pq m). tx_Fee low = f \<and> (\<forall>u \<in> set (mp_pq m). f \<le> tx_Fee u))
         | Some _ \<Rightarrow> m' = m"
proof -
  let ?cfg = "DefaultConfig\<lparr>cfg_MaxSize := 1\<rparr>"
  let ?m = "run_pool (NewMempool ?cfg) (PAdd 1 (pool_tx ''x'' 5 1))"
  have reach: "pool_reach ?cfg ?m" by (intro pool_reach.intros) (simp add: pool_tx_ok)
  have full: "cfg_MaxSize (mp_cfg ?m) \<le> int (PoolSize ?m)"
    by (simp add: PoolSize_def AddTx_def NewMempool_def pendingNonceLocked_def make_room_and_push_def
        push_entry_def heap_Push_def)
  show ?thesis
    unfolding Let_def case_prod_beta
    by (rule add_replaces_cheapest [OF reach pool_tx_ok full]) simp
qed

section \<open>The validator keeps nonces consecutive\<close>

text \<open>A batch of submissions against a fixed account store, and the transactions that were accepted.\<close>

fun submit_all ::
  "AccountStore \<Rightarrow> int \<Rightarrow> TxValidator \<times> Mempool \<Rightarrow> Tx list \<Rightarrow> (TxValidator \<times> Mempool) \<times> Tx list" where
  "submit_all s now st [] = (st, [])"
| "submit_all s now st (t # ts) =
     (let (st1, e) = ValidateAndAdd s now st t; (st2, acc) = submit_all s now st1 ts
      in (st2, if e = None then t # acc else acc))"

lemma ValidateAndAdd_ok:
  "ValidateAndAdd s now (tv, pool) t = (st, None) \<Longrightarrow> Validate s tv t = None \<and> fst st = Accept tv t"
  by (auto simp: ValidateAndAdd_def split: option.splits prod.splits)

lemma ValidateAndAdd_err:
  "ValidateAndAdd s now (tv, pool) t = (st, Some e) \<Longrightarrow> fst st = tv"
  by (auto simp: ValidateAndAdd_def split: option.splits prod.splits)

lemma accept_expected:
  assumes "GetAccount s (tx_Sender t) = Some acc" and "Validate s tv t = None"
    and "unat (expected_nonce tv acc (tx_Sender t)) + 1 < 2 ^ 64"
  shows "tx_Nonce t = expected_nonce tv acc (tx_Sender t)"
    and "expected_nonce (Accept tv t) acc (tx_Sender t) = expected_nonce tv acc (tx_Sender t) + 1"
proof -
  let ?n = "expected_nonce tv acc (tx_Sender t)"
  show n: "tx_Nonce t = ?n" using assms(1,2) by (auto simp: Validate_def Let_def split: if_splits)
  have suc: "unat (?n + 1) = unat ?n + 1" using assms(3) by (intro unat_Suc_fits) simp
  have le: "acc_Nonce acc \<le> ?n" "\<And>p. tv_pending tv (tx_Sender t) = Some p \<Longrightarrow> p \<le> ?n"
    by (auto simp: expected_nonce_def split: option.splits)
  have lt: "x < ?n + 1" if "x \<le> ?n" for x using that suc by (simp add: word_le_nat_alt word_less_nat_alt)
  have "tv_pending (Accept tv t) (tx_Sender t) = Some (?n + 1)"
    using lt le n by (auto simp: Accept_def Let_def split: option.split)
  then show "expected_nonce (Accept tv t) acc (tx_Sender t) = ?n + 1"
    using lt [OF le(1)] by (simp add: expected_nonce_def [of "Accept tv t"])
qed

lemma accept_other: "a \<noteq> tx_Sender t \<Longrightarrow> expected_nonce (Accept tv t) acc a = expected_nonce tv acc a"
  by (simp add: Accept_def Let_def expected_nonce_def split: option.split)

text \<open>
  Between resets, and while the account store does not change, the transactions of one sender that
  the validator lets into the pool carry consecutive nonces, starting at the first nonce that is neither
  used nor pending: no gap and no duplicate.
\<close>

theorem accepted_nonces_consecutive:
  assumes "GetAccount s a = Some acc" and "submit_all s now (tv, pool) ts = (st, accepted)"
    and "unat (expected_nonce tv acc a) + length ts < 2 ^ 64"
  shows "map tx_Nonce (filter (\<lambda>t. tx_Sender t = a) accepted) =
         map (\<lambda>i. expected_nonce tv acc a + of_nat i) [0..<length (filter (\<lambda>t. tx_Sender t = a) accepted)]"
  using assms(2,3)
proof (induction ts arbitrary: tv pool accepted)
  case (Cons t ts)
  obtain tv1 pool1 e where r: "ValidateAndAdd s now (tv, pool) t = ((tv1, pool1), e)" by (metis surj_pair)
  obtain acc1 where rest: "submit_all s now (tv1, pool1) ts = (st, acc1)"
    and a: "accepted = (if e = None then t # acc1 else acc1)"
    using Cons.prems(1) r by (auto split: prod.splits)
  show ?case
  proof (cases e)
    case (Some e)
    with r have "tv1 = tv" using ValidateAndAdd_err by fastforce
    with Cons.IH [OF rest] Cons.prems(2) a Some show ?thesis by simp
  next
    case None
    then have v: "Validate s tv t = None" "tv1 = Accept tv t" using ValidateAndAdd_ok r by fastforce+
    show ?thesis
    proof (cases "tx_Sender t = a")
      case False
      with accept_other [of a t tv acc] Cons.IH [OF rest] Cons.prems(2) a None v show ?thesis by simp
    next
      case True
      have fit: "unat (expected_nonce tv acc (tx_Sender t)) + 1 < 2 ^ 64" using Cons.prems(2) True by simp
      note next1 = accept_expected [OF _ v(1) fit, unfolded True, OF assms(1)]
      have "unat (expected_nonce tv1 acc a) = unat (expected_nonce tv acc a) + 1"
        using next1(2) fit v(2) True by (simp add: unat_Suc_fits)
      then have "unat (expected_nonce tv1 acc a) + length ts < 2 ^ 64" using Cons.prems(2) by simp
      from Cons.IH [OF rest this] next1 v(2) show ?thesis
        by (simp add: a None True upt_conv_Cons map_Suc_upt [symmetric] algebra_simps del: upt_Suc)
    qed
  qed
qed simp

theorem accepted_nonces_consecutive_witness:
  "let accepted = snd (submit_all demo_store 9 (NewTxValidator, NewMempool DefaultConfig) [demo_tx, demo_tx]);
       mine = filter (\<lambda>t. tx_Sender t = ''a'') accepted
   in map tx_Nonce mine = map (\<lambda>i. 4 + of_nat i) [0..<length mine]"
proof -
  let ?acc = "the (as_accounts demo_store ''a'')" and ?pool = "NewMempool DefaultConfig"
  have acc: "GetAccount demo_store ''a'' = Some ?acc" by (simp add: GetAccount_def demo_store_def)
  have n: "expected_nonce NewTxValidator ?acc ''a'' = 4"
    by (simp add: expected_nonce_def NewTxValidator_def demo_store_def)
  show ?thesis
    using accepted_nonces_consecutive
      [OF acc, of 9 NewTxValidator ?pool "[demo_tx, demo_tx]"
        "fst (submit_all demo_store 9 (NewTxValidator, ?pool) [demo_tx, demo_tx])"
        "snd (submit_all demo_store 9 (NewTxValidator, ?pool) [demo_tx, demo_tx])"]
    unfolding n Let_def prod.collapse by simp
qed

end
