(* ===== verification/Go_Strings.thy ===== *)
theory Go_Strings
  imports Go_Prelude
begin

text \<open>
  The string functions of Go's standard library that the transaction checks use, on byte strings:
  \<open>strings.TrimSpace\<close> with the UTF-8 encodings of Unicode white space, \<open>strings.ToLower\<close> and
  \<open>strings.EqualFold\<close> on ASCII (the strings they are applied to are hexadecimal or are refused by a
  later test), and \<open>encoding/hex\<close>.
\<close>

section \<open>White space and case\<close>

definition byte :: "nat \<Rightarrow> char" where "byte n = char_of n"

definition ascii_space :: "char \<Rightarrow> bool" where
  "ascii_space c \<longleftrightarrow> c \<in> {byte 9, byte 10, byte 11, byte 12, byte 13, byte 32}"

text \<open>The white space of two and of three bytes.\<close>

definition space2 :: "char \<Rightarrow> char \<Rightarrow> bool" where
  "space2 a b \<longleftrightarrow> a = byte 194 \<and> (b = byte 133 \<or> b = byte 160)"

definition space3 :: "char \<Rightarrow> char \<Rightarrow> char \<Rightarrow> bool" where
  "space3 a b c \<longleftrightarrow>
     (a = byte 225 \<and> b = byte 154 \<and> c = byte 128) \<or>
     (a = byte 226 \<and> b = byte 128 \<and> (of_char c \<in> {128..138::nat} \<or> of_char c \<in> {168, 169, 175::nat})) \<or>
     (a = byte 226 \<and> b = byte 129 \<and> c = byte 159) \<or>
     (a = byte 227 \<and> b = byte 128 \<and> c = byte 128)"

fun trim_left :: "string \<Rightarrow> string" where
  "trim_left [] = []"
| "trim_left [a] = (if ascii_space a then [] else [a])"
| "trim_left [a, b] = (if ascii_space a then trim_left [b] else if space2 a b then [] else [a, b])"
| "trim_left (a # b # c # s) =
     (if ascii_space a then trim_left (b # c # s)
      else if space2 a b then trim_left (c # s)
      else if space3 a b c then trim_left s
      else a # b # c # s)"

text \<open>The same from the other end, on the reversed string.\<close>

fun trim_rev :: "string \<Rightarrow> string" where
  "trim_rev [] = []"
| "trim_rev [a] = (if ascii_space a then [] else [a])"
| "trim_rev [b, a] = (if ascii_space b then trim_rev [a] else if space2 a b then [] else [b, a])"
| "trim_rev (c # b # a # s) =
     (if ascii_space c then trim_rev (b # a # s)
      else if space2 b c then trim_rev (a # s)
      else if space3 a b c then trim_rev s
      else c # b # a # s)"

definition TrimSpace :: "string \<Rightarrow> string" where
  "TrimSpace s = rev (trim_rev (rev (trim_left s)))"

definition lower_char :: "char \<Rightarrow> char" where
  "lower_char c = (if CHR ''A'' \<le> c \<and> c \<le> CHR ''Z'' then char_of (of_char c + (32::nat)) else c)"

definition ToLower :: "string \<Rightarrow> string" where
  "ToLower s = map lower_char s"

definition EqualFold :: "string \<Rightarrow> string \<Rightarrow> bool" where
  "EqualFold s t \<longleftrightarrow> ToLower s = ToLower t"

section \<open>Hexadecimal\<close>

definition hex_digit :: "nat \<Rightarrow> char" where
  "hex_digit n = (if n < 10 then char_of (48 + n) else char_of (87 + n))"

definition hex_byte :: "char \<Rightarrow> string" where
  "hex_byte c = (let n = of_char c in [hex_digit (n div 16), hex_digit (n mod 16)])"

definition EncodeToString :: "string \<Rightarrow> string" where
  "EncodeToString bs = concat (map hex_byte bs)"

definition hex_value :: "char \<Rightarrow> nat option" where
  "hex_value c =
     (let n = of_char c
      in if 48 \<le> n \<and> n \<le> 57 then Some (n - 48)
         else if 97 \<le> n \<and> n \<le> 102 then Some (n - 87)
         else if 65 \<le> n \<and> n \<le> 70 then Some (n - 55)
         else None)"

fun DecodeHex :: "string \<Rightarrow> string option" where
  "DecodeHex [] = Some []"
| "DecodeHex [a] = None"
| "DecodeHex (a # b # s) =
     (case (hex_value a, hex_value b, DecodeHex s) of
        (Some x, Some y, Some r) \<Rightarrow> Some (char_of (16 * x + y) # r)
      | _ \<Rightarrow> None)"

text \<open>The bytes that \<open>hex.DecodeString\<close> returns whether or not it reports an error: those before the first fault.\<close>

fun DecodedHex :: "string \<Rightarrow> string" where
  "DecodedHex (a # b # s) =
     (case (hex_value a, hex_value b) of (Some x, Some y) \<Rightarrow> char_of (16 * x + y) # DecodedHex s | _ \<Rightarrow> [])"
| "DecodedHex _ = []"

lemma DecodedHex_Some: "DecodeHex s = Some bs \<Longrightarrow> DecodedHex s = bs"
  by (induction s arbitrary: bs rule: DecodeHex.induct) (auto split: option.splits)

lemma hex_value_digit: "n < 16 \<Longrightarrow> hex_value (hex_digit n) = Some n"
  by (auto simp: hex_value_def hex_digit_def Let_def take_bit_eq_mod)

lemma DecodeHex_byte: "DecodeHex (hex_byte c @ s) = map_option ((#) c) (DecodeHex s)"
proof -
  have "of_char c div 16 < (16 :: nat)" by (rule less_mult_imp_div_less) simp
  then show ?thesis
    by (auto simp: hex_byte_def Let_def hex_value_digit split: option.split)
qed

text \<open>Decoding undoes encoding.\<close>

lemma DecodeHex_Encode [simp]: "DecodeHex (EncodeToString bs) = Some bs"
  by (induction bs) (simp_all add: EncodeToString_def DecodeHex_byte)

lemma DecodedHex_Encode [simp]: "DecodedHex (EncodeToString bs) = bs"
  by (rule DecodedHex_Some) simp

lemma EncodeToString_inj: "EncodeToString a = EncodeToString b \<Longrightarrow> a = b"
  by (metis DecodeHex_Encode option.inject)

lemma EncodeToString_length: "length (EncodeToString bs) = 2 * length bs"
  by (induction bs) (simp_all add: EncodeToString_def hex_byte_def Let_def)

section \<open>Strings that trimming and lower-casing leave alone\<close>

definition plain_char :: "char \<Rightarrow> bool" where
  "plain_char c \<longleftrightarrow> of_char c \<in> {33..127::nat}"

lemma plain_no_space:
  assumes "plain_char c"
  shows "\<not> ascii_space c" and "\<not> space2 c b" and "\<not> space2 a c" and "\<not> space3 c a b" and "\<not> space3 a b c"
  using assms by (auto simp: plain_char_def ascii_space_def space2_def space3_def byte_def)

lemma trim_left_plain: "list_all plain_char s \<Longrightarrow> trim_left s = s"
  by (cases s rule: trim_left.cases) (simp_all add: plain_no_space)

lemma trim_rev_plain: "list_all plain_char s \<Longrightarrow> trim_rev s = s"
  by (cases s rule: trim_rev.cases) (simp_all add: plain_no_space)

lemma TrimSpace_plain [simp]: "list_all plain_char s \<Longrightarrow> TrimSpace s = s"
  by (simp add: TrimSpace_def trim_left_plain trim_rev_plain)

lemma hex_digit_plain:
  assumes "n < 16"
  shows "plain_char (hex_digit n)" and "lower_char (hex_digit n) = hex_digit n"
  using assms by (auto simp: plain_char_def lower_char_def hex_digit_def less_eq_char_def take_bit_eq_mod)

lemma hex_byte_plain: "list_all plain_char (hex_byte c)" "map lower_char (hex_byte c) = hex_byte c"
proof -
  have "of_char c div 16 < (16 :: nat)" by (rule less_mult_imp_div_less) simp
  then show "list_all plain_char (hex_byte c)" "map lower_char (hex_byte c) = hex_byte c"
    by (simp_all add: hex_byte_def Let_def hex_digit_plain)
qed

lemma EncodeToString_plain: "list_all plain_char (EncodeToString bs)"
  by (induction bs) (simp_all add: EncodeToString_def hex_byte_plain)

lemma TrimSpace_Encode [simp]: "TrimSpace (EncodeToString bs) = EncodeToString bs"
  by (simp add: EncodeToString_plain)

lemma ToLower_Encode [simp]: "ToLower (EncodeToString bs) = EncodeToString bs"
  by (induction bs) (simp_all add: EncodeToString_def ToLower_def hex_byte_plain)

section \<open>Length-prefixed fields\<close>

definition be64 :: "u64 \<Rightarrow> string" where
  "be64 n = map (\<lambda>i. char_of (unat (drop_bit i n) mod 256)) [56, 48, 40, 32, 24, 16, 8, 0]"

lemma be64_length [simp]: "length (be64 n) = 8"
  by (simp add: be64_def)

lemma mod_byte_step:
  fixes a b :: nat
  assumes "a mod k = b mod k" and "a div k mod 256 = b div k mod 256"
  shows "a mod (k * 256) = b mod (k * 256)"
  using assms by (simp add: mod_mult2_eq)

lemma be64_inj: "be64 a = be64 b \<longleftrightarrow> a = b"
proof
  assume eq: "be64 a = be64 b"
  have byte: "unat a div 2 ^ i mod 256 = unat b div 2 ^ i mod 256" if "i \<in> {56, 48, 40, 32, 24, 16, 8, 0}" for i
  proof -
    have "char_of (unat (drop_bit i a) mod 256) = (char_of (unat (drop_bit i b) mod 256) :: char)"
      using eq that by (auto simp: be64_def)
    then have "of_char (char_of (unat (drop_bit i a) mod 256)) = (of_char (char_of (unat (drop_bit i b) mod 256)) :: nat)"
      by (simp only:)
    then have "unat (drop_bit i a) mod 256 = unat (drop_bit i b) mod 256" by simp
    then have "drop_bit i (unat a) mod 256 = drop_bit i (unat b) mod 256" by (simp only: unat_drop_bit_eq)
    then show ?thesis by (simp only: drop_bit_eq_div)
  qed
  have "unat a mod 256 = unat b mod 256" using byte [of 0] by simp
  from mod_byte_step [OF this] byte [of 8] have "unat a mod 2 ^ 16 = unat b mod 2 ^ 16" by simp
  from mod_byte_step [OF this] byte [of 16] have "unat a mod 2 ^ 24 = unat b mod 2 ^ 24" by simp
  from mod_byte_step [OF this] byte [of 24] have "unat a mod 2 ^ 32 = unat b mod 2 ^ 32" by simp
  from mod_byte_step [OF this] byte [of 32] have "unat a mod 2 ^ 40 = unat b mod 2 ^ 40" by simp
  from mod_byte_step [OF this] byte [of 40] have "unat a mod 2 ^ 48 = unat b mod 2 ^ 48" by simp
  from mod_byte_step [OF this] byte [of 48] have "unat a mod 2 ^ 56 = unat b mod 2 ^ 56" by simp
  from mod_byte_step [OF this] byte [of 56] have "unat a mod 2 ^ 64 = unat b mod 2 ^ 64" by simp
  moreover have "unat a < 2 ^ 64" "unat b < 2 ^ 64" using unat_bound [of a] unat_bound [of b] by simp_all
  ultimately have "unat a = unat b" by simp
  then show "a = b" by (simp only: word_unat_eq_iff)
qed simp

lemma prefixed_unique:
  assumes "be64 (of_nat (length a)) @ a @ r = be64 (of_nat (length b)) @ b @ t"
    and "length a < 2 ^ 64" and "length b < 2 ^ 64"
  shows "a = b \<and> r = t"
proof -
  have "be64 (of_nat (length a)) = be64 (of_nat (length b)) \<and> a @ r = b @ t"
    using assms(1) by (subst (asm) append_eq_append_conv) simp_all
  then have "be64 (of_nat (length a)) = be64 (of_nat (length b))" and tail: "a @ r = b @ t" by simp_all
  then have "(of_nat (length a) :: u64) = of_nat (length b)" by (simp add: be64_inj)
  then have "unat (of_nat (length a) :: u64) = unat (of_nat (length b) :: u64)" by simp
  with assms(2,3) have "length a = length b" by (simp add: unat_of_nat_fits)
  with tail show ?thesis by simp
qed

section \<open>Trimming and lower-casing commute and are idempotent\<close>

lemma lower_char_byte: "n < 65 \<or> 122 < n \<Longrightarrow> n < 256 \<Longrightarrow> lower_char c = byte n \<longleftrightarrow> c = byte n"
proof -
  assume n: "n < 65 \<or> 122 < n" "n < 256"
  have c: "CHR ''A'' \<le> c \<and> c \<le> CHR ''Z'' \<longleftrightarrow> of_char c \<in> {65..90::nat}"
    by (simp add: less_eq_char_def)
  show ?thesis
  proof (cases "of_char c \<in> {65..90::nat}")
    case True
    then have "of_char (lower_char c) = (of_char c + 32 :: nat)"
      using c by (simp add: lower_char_def take_bit_eq_mod)
    moreover have "of_char (byte n) = n" using n by (simp add: byte_def take_bit_eq_mod)
    ultimately have "lower_char c \<noteq> byte n" "c \<noteq> byte n" using True n by auto
    then show ?thesis by simp
  next
    case False
    then have "lower_char c = c" using c by (auto simp: lower_char_def)
    then show ?thesis by simp
  qed
qed

lemma lower_char_idem: "lower_char (lower_char c) = lower_char c"
proof (cases "CHR ''A'' \<le> c \<and> c \<le> CHR ''Z''")
  case True
  then have "of_char c \<in> {65..90::nat}" by (simp add: less_eq_char_def)
  then have "of_char (lower_char c) \<in> {97..122::nat}" using True by (simp add: lower_char_def take_bit_eq_mod)
  then have "\<not> lower_char c \<le> CHR ''Z''" by (simp add: less_eq_char_def)
  then show ?thesis by (simp add: lower_char_def [of "lower_char c"])
next
  case False
  then have "lower_char c = c" by (auto simp: lower_char_def)
  then show ?thesis by simp
qed

lemma space_lower:
  "ascii_space (lower_char a) = ascii_space a" "space2 (lower_char a) (lower_char b) = space2 a b"
  "space3 (lower_char a) (lower_char b) (lower_char c) = space3 a b c"
proof -
  have "of_char (lower_char c) = (if of_char c \<in> {65..90::nat} then of_char c + 32 else of_char c :: nat)"
    by (auto simp: lower_char_def less_eq_char_def take_bit_eq_mod)
  then have r: "of_char (lower_char c) \<in> {128..138::nat} \<longleftrightarrow> of_char c \<in> {128..138::nat}"
    "of_char (lower_char c) \<in> {168, 169, 175::nat} \<longleftrightarrow> of_char c \<in> {168, 169, 175::nat}" by auto
  show "ascii_space (lower_char a) = ascii_space a" by (simp add: ascii_space_def lower_char_byte)
  show "space2 (lower_char a) (lower_char b) = space2 a b" by (simp add: space2_def lower_char_byte)
  show "space3 (lower_char a) (lower_char b) (lower_char c) = space3 a b c"
    unfolding space3_def r by (simp add: lower_char_byte)
qed

lemma trim_left_lower: "trim_left (map lower_char s) = map lower_char (trim_left s)"
  by (induction s rule: trim_left.induct) (simp_all add: space_lower)

lemma trim_rev_lower: "trim_rev (map lower_char s) = map lower_char (trim_rev s)"
  by (induction s rule: trim_rev.induct) (simp_all add: space_lower)

lemma TrimSpace_ToLower: "TrimSpace (ToLower s) = ToLower (TrimSpace s)"
  by (simp add: TrimSpace_def ToLower_def trim_left_lower trim_rev_lower rev_map)

lemma ToLower_idem [simp]: "ToLower (ToLower s) = ToLower s"
  by (simp add: ToLower_def comp_def lower_char_idem)

lemma trim_left_idem: "trim_left (trim_left s) = trim_left s"
  by (induction s rule: trim_left.induct) simp_all

lemma trim_rev_idem: "trim_rev (trim_rev s) = trim_rev s"
  by (induction s rule: trim_rev.induct) simp_all

lemma trim_rev_suffix: "\<exists>d. s = d @ trim_rev s"
proof (induction s rule: trim_rev.induct)
  case (3 b a)
  then show ?case by (auto intro: exI [of _ "[]"])
next
  case (4 c b a s)
  then show ?case by auto (metis append_Cons)+
qed auto

lemma trim_left_length: "length (trim_left s) \<le> length s"
  by (induction s rule: trim_left.induct) auto

definition starts_space :: "string \<Rightarrow> bool" where
  "starts_space t = (case t of [] \<Rightarrow> False | a # r \<Rightarrow> ascii_space a \<or>
     (case r of [] \<Rightarrow> False | b # r' \<Rightarrow> space2 a b \<or> (case r' of [] \<Rightarrow> False | c # _ \<Rightarrow> space3 a b c)))"

lemma trim_left_fixed: "trim_left t = t \<longleftrightarrow> \<not> starts_space t"
proof (cases t rule: trim_left.cases)
  case (2 a)
  then show ?thesis by (simp add: starts_space_def)
next
  case (3 a b)
  then show ?thesis using trim_left_length [of "[b]"] by (auto simp: starts_space_def)
next
  case (4 a b c s)
  have "trim_left (b # c # s) \<noteq> a # b # c # s" "trim_left (c # s) \<noteq> a # b # c # s" "trim_left s \<noteq> a # b # c # s"
    using trim_left_length [of "b # c # s"] trim_left_length [of "c # s"] trim_left_length [of s] by auto
  then show ?thesis using 4 by (simp add: starts_space_def)
qed (simp add: starts_space_def)

lemma starts_space_append: "starts_space p \<Longrightarrow> starts_space (p @ q)"
  by (auto simp: starts_space_def split: list.splits)

lemma TrimSpace_idem [simp]: "TrimSpace (TrimSpace s) = TrimSpace s"
proof -
  let ?l = "trim_left s"
  obtain d where d: "rev ?l = d @ trim_rev (rev ?l)" using trim_rev_suffix by blast
  then have l: "?l = TrimSpace s @ rev d" unfolding TrimSpace_def by (metis rev_append rev_rev_ident)
  have "trim_left ?l = ?l" by (rule trim_left_idem)
  then have "\<not> starts_space (TrimSpace s)" using l starts_space_append trim_left_fixed by metis
  then have "trim_left (TrimSpace s) = TrimSpace s" by (simp add: trim_left_fixed)
  then show ?thesis by (simp add: TrimSpace_def [of "TrimSpace s"]) (simp add: TrimSpace_def trim_rev_idem)
qed

end
