(* ===== verification/Merkle.thy ===== *)
theory Merkle
  imports Accounts Go_Strings
begin

text \<open>
  Blocks and what their transaction root commits to: \<open>pkg/chain/merkle.go\<close>, \<open>tx_content_root.go\<close> and, of
  \<open>block.go\<close>, the types \<open>Block\<close> and \<open>BlockHeader\<close>, \<open>Header\<close> and \<open>computeTxRoot\<close>. SHA-256 is the
  argument \<open>sha256\<close>; where a theorem needs it, that digests are 32 bytes long and that no two of the
  strings hashed collide are hypotheses. The activation height of the content root is an argument.

  Shown: proofs exist for every position and verify, a verified proof proves inclusion, and the content
  root binds every transaction field that is digested.
\<close>

section \<open>The tree\<close>

record ProofNode =
  pn_Hash :: string
  pn_IsRight :: bool

record MerkleTree =
  mt_Root :: string
  mt_Leaves :: "string list"
  mt_nodes :: "string list list"

record MerkleProof =
  mp_LeafHash :: string
  mp_Index :: int
  mp_Siblings :: "ProofNode list"
  mp_Root :: string

datatype merkle_error = IndexOutOfRange int nat | RowIndexPanic

definition hashLeaf :: "(string \<Rightarrow> string) \<Rightarrow> string \<Rightarrow> string" where
  "hashLeaf sha256 data = EncodeToString (sha256 data)"

definition hashPair :: "(string \<Rightarrow> string) \<Rightarrow> string \<Rightarrow> string \<Rightarrow> string" where
  "hashPair sha256 left right = EncodeToString (sha256 (left @ right))"

definition emptyHash :: "(string \<Rightarrow> string) \<Rightarrow> string" where
  "emptyHash sha256 = EncodeToString (sha256 [])"

text \<open>A row of odd length gets its last node twice.\<close>

definition even_row :: "string list \<Rightarrow> string list" where
  "even_row row = (if odd (length row) then row @ [last row] else row)"

fun pair_row :: "(string \<Rightarrow> string) \<Rightarrow> string list \<Rightarrow> string list" where
  "pair_row sha256 (a # b # row) = hashPair sha256 a b # pair_row sha256 row"
| "pair_row sha256 _ = []"

lemma pair_row_length: "length (pair_row sha256 row) = length row div 2"
  by (induction sha256 row rule: pair_row.induct) auto

lemma even_row_length: "length (even_row row) = 2 * ((length row + 1) div 2)"
  by (auto simp: even_row_def elim: oddE)

lemma next_row_length: "length (pair_row sha256 (even_row row)) = (length row + 1) div 2"
  by (simp add: pair_row_length even_row_length)

function merkle_levels :: "(string \<Rightarrow> string) \<Rightarrow> string list \<Rightarrow> string list list" where
  "merkle_levels sha256 current =
     (if 1 < length current then current # merkle_levels sha256 (pair_row sha256 (even_row current)) else [current])"
  by pat_completeness auto
termination
  by (relation "measure (\<lambda>(_, row). length row)") (auto simp: next_row_length)

declare merkle_levels.simps [simp del]

definition BuildMerkleTree :: "(string \<Rightarrow> string) \<Rightarrow> string list \<Rightarrow> MerkleTree" where
  "BuildMerkleTree sha256 items =
     (if items = [] then \<lparr>mt_Root = emptyHash sha256, mt_Leaves = [], mt_nodes = []\<rparr>
      else (let leaves = map (hashLeaf sha256) items; levels = merkle_levels sha256 leaves
            in \<lparr>mt_Root = hd (last levels), mt_Leaves = leaves, mt_nodes = levels\<rparr>))"

text \<open>The loop over all levels but the last. An index outside a row is a panic (\<open>None\<close>).\<close>

fun proof_path :: "nat \<Rightarrow> string list list \<Rightarrow> ProofNode list option" where
  "proof_path idx (row # upper # levels) =
     (let r = even_row row; j = (if even idx then idx + 1 else idx - 1)
      in if length r \<le> j then None
         else map_option ((#) \<lparr>pn_Hash = r ! j, pn_IsRight = even idx\<rparr>) (proof_path (idx div 2) (upper # levels)))"
| "proof_path idx _ = Some []"

definition GenerateProof :: "MerkleTree \<Rightarrow> int \<Rightarrow> merkle_error + MerkleProof" where
  "GenerateProof mt index =
     (if index < 0 \<or> int (length (mt_Leaves mt)) \<le> index then Inl (IndexOutOfRange index (length (mt_Leaves mt)))
      else (case proof_path (nat index) (mt_nodes mt) of
          None \<Rightarrow> Inl RowIndexPanic
        | Some siblings \<Rightarrow>
            Inr \<lparr>mp_LeafHash = mt_Leaves mt ! nat index, mp_Index = index, mp_Siblings = siblings, mp_Root = mt_Root mt\<rparr>))"

fun fold_proof :: "(string \<Rightarrow> string) \<Rightarrow> string \<Rightarrow> ProofNode list \<Rightarrow> string" where
  "fold_proof sha256 current [] = current"
| "fold_proof sha256 current (sibling # siblings) =
     fold_proof sha256
       (if pn_IsRight sibling then hashPair sha256 current (pn_Hash sibling) else hashPair sha256 (pn_Hash sibling) current)
       siblings"

definition VerifyProof :: "(string \<Rightarrow> string) \<Rightarrow> MerkleProof \<Rightarrow> string \<Rightarrow> bool" where
  "VerifyProof sha256 pf expectedRoot \<longleftrightarrow> fold_proof sha256 (mp_LeafHash pf) (mp_Siblings pf) = expectedRoot"

text \<open>\<open>bits.Len(uint(n - 1))\<close>: the number of halvings until nothing is left, on a 64-bit word.\<close>

fun bits_Len :: "nat \<Rightarrow> nat" where
  "bits_Len n = (if n = 0 then 0 else Suc (bits_Len (n div 2)))"

declare bits_Len.simps [simp del]

definition merkleDepth :: "int \<Rightarrow> nat" where
  "merkleDepth n = bits_Len (unat (of_int (n - 1) :: u64))"

section \<open>Rows and levels\<close>

lemma pair_row_nth: "i < length row div 2 \<Longrightarrow> pair_row sha256 row ! i = hashPair sha256 (row ! (2 * i)) (row ! (2 * i + 1))"
proof (induction sha256 row arbitrary: i rule: pair_row.induct)
  case (1 sha256 a b row)
  then show ?case by (cases i) auto
qed simp_all

lemma even_row_nth: "i < length row \<Longrightarrow> even_row row ! i = row ! i"
  by (simp add: even_row_def nth_append)

lemma even_row_set [simp]: "row \<noteq> [] \<Longrightarrow> set (even_row row) = set row"
  by (auto simp: even_row_def)

lemma merkle_levels_step:
  "1 < length row \<Longrightarrow> merkle_levels sha256 row = row # merkle_levels sha256 (pair_row sha256 (even_row row))"
  "\<not> 1 < length row \<Longrightarrow> merkle_levels sha256 row = [row]"
  by (subst merkle_levels.simps; simp)+

lemma merkle_levels_Cons: "\<exists>rest. merkle_levels sha256 row = row # rest"
  by (cases "1 < length row") (auto simp: merkle_levels_step)

lemma next_row_nonempty: "1 < length row \<Longrightarrow> pair_row sha256 (even_row row) \<noteq> []"
  using next_row_length [of sha256 row] by (cases "pair_row sha256 (even_row row)") auto

lemma bits_Len_step: "0 < n \<Longrightarrow> bits_Len n = Suc (bits_Len (n div 2))" "bits_Len 0 = 0"
  by (simp_all add: bits_Len.simps [of n] bits_Len.simps [of 0])

lemma merkle_levels_length:
  "row \<noteq> [] \<Longrightarrow> length (merkle_levels sha256 row) = Suc (bits_Len (length row - 1))"
proof (induction sha256 row rule: merkle_levels.induct)
  case (1 sha256 row)
  show ?case
  proof (cases "1 < length row")
    case True
    from "1.IH" [OF True next_row_nonempty [OF True]] have "length (merkle_levels sha256 row) = Suc (Suc (bits_Len ((length row + 1) div 2 - 1)))"
      by (simp add: merkle_levels_step(1) [OF True] next_row_length)
    also have "(length row + 1) div 2 - 1 = (length row - 1) div 2" by linarith
    also have "Suc (bits_Len ((length row - 1) div 2)) = bits_Len (length row - 1)"
      using True by (simp add: bits_Len_step)
    finally show ?thesis .
  next
    case False
    with 1 have "length row = 1" by (cases row) auto
    then show ?thesis by (simp add: merkle_levels_step(2) bits_Len_step)
  qed
qed


lemma merkle_root_single: "merkle_levels sha256 row \<noteq> []" "row \<noteq> [] \<Longrightarrow> length (last (merkle_levels sha256 row)) = 1"
proof -
  show "merkle_levels sha256 row \<noteq> []" using merkle_levels_Cons [of sha256 row] by auto
  show "row \<noteq> [] \<Longrightarrow> length (last (merkle_levels sha256 row)) = 1"
  proof (induction sha256 row rule: merkle_levels.induct)
    case (1 sha256 row)
    show ?case
    proof (cases "1 < length row")
      case True
      with "1.IH" [OF True next_row_nonempty [OF True]] merkle_levels_Cons [of sha256 "pair_row sha256 (even_row row)"]
      show ?thesis by (auto simp: merkle_levels_step(1))
    next
      case False
      with 1 show ?thesis by (cases row) (auto simp: merkle_levels_step(2))
    qed
  qed
qed

section \<open>Completeness\<close>

text \<open>From any position of a row, the generated path exists, has one node per level above, and leads to the root.\<close>

lemma proof_path_complete:
  assumes "idx < length row"
  shows "\<exists>ns. proof_path idx (merkle_levels sha256 row) = Some ns \<and>
    length ns = bits_Len (length row - 1) \<and>
    fold_proof sha256 (row ! idx) ns = hd (last (merkle_levels sha256 row))"
  using assms
proof (induction sha256 row arbitrary: idx rule: merkle_levels.induct)
  case (1 sha256 row)
  show ?case
  proof (cases "1 < length row")
    case True
    let ?next = "pair_row sha256 (even_row row)"
    let ?j = "if even idx then idx + 1 else idx - 1"
    from 1(2) have half: "idx div 2 < length ?next" by (simp add: next_row_length)
    with "1.IH" [OF True half] obtain ns where ns: "proof_path (idx div 2) (merkle_levels sha256 ?next) = Some ns"
      "length ns = bits_Len (length ?next - 1)"
      "fold_proof sha256 (?next ! (idx div 2)) ns = hd (last (merkle_levels sha256 ?next))" by blast
    have j: "?j < length (even_row row)" using 1(2) unfolding even_row_length by presburger
    obtain rest where rest: "merkle_levels sha256 ?next = ?next # rest" using merkle_levels_Cons by blast
    have node: "?next ! (idx div 2) =
        (if even idx then hashPair sha256 (row ! idx) (even_row row ! ?j) else hashPair sha256 (even_row row ! ?j) (row ! idx))"
    proof -
      have h: "idx div 2 < length (even_row row) div 2" using half by (simp add: pair_row_length)
      show ?thesis
        using 1(2) even_row_nth [of idx row]
        by (auto simp: pair_row_nth [OF h] elim!: oddE)
    qed
    have "(length row + 1) div 2 - 1 = (length row - 1) div 2" by linarith
    then have len: "Suc (bits_Len (length ?next - 1)) = bits_Len (length row - 1)"
      using True by (simp add: bits_Len_step next_row_length)
    let ?n = "\<lparr>pn_Hash = even_row row ! ?j, pn_IsRight = even idx\<rparr>"
    have "proof_path idx (merkle_levels sha256 row) = Some (?n # ns)"
      using j ns(1) by (simp add: merkle_levels_step(1) [OF True] rest Let_def)
    moreover have "fold_proof sha256 (row ! idx) (?n # ns) = hd (last (merkle_levels sha256 row))"
      using node ns(3) by (cases "even idx") (simp_all add: merkle_levels_step(1) [OF True] merkle_root_single(1))
    ultimately show ?thesis using ns(2) len by (intro exI [of _ "?n # ns"]) simp
  next
    case False
    with 1(2) have "length row = 1" "idx = 0" by auto
    then show ?thesis by (cases row) (simp_all add: merkle_levels_step(2) bits_Len_step)
  qed
qed

section \<open>Transactions of a block\<close>

text \<open>
  The bytes of a field, with its length in front. A transaction decoded from JSON may be null
  (\<open>None\<close>). The bit pattern of a float is that of its value; the second pattern of zero and the
  payloads of NaN, which decode to the same value, are left out.
\<close>

definition writeTxField :: "string \<Rightarrow> string" where
  "writeTxField b = be64 (of_nat (length b)) @ b"

definition writeTxUint :: "u64 \<Rightarrow> string" where
  "writeTxUint v = writeTxField (be64 v)"

definition tx_content :: "Tx \<Rightarrow> string" where
  "tx_content tx =
     writeTxField (tx_ID tx) @ writeTxField (tx_Sender tx) @ writeTxField (tx_Recipient tx) @
     writeTxUint (Float64bits (tx_Amount tx)) @ writeTxUint (Float64bits (tx_Fee tx)) @
     writeTxUint (of_int (tx_GasLimit tx)) @ writeTxUint (tx_Nonce tx) @ writeTxField (tx_Payload tx) @
     writeTxField (tx_ContractID tx) @ writeTxField (tx_Signature tx) @ writeTxField (tx_PublicKey tx)"

definition TxContentDigest :: "(string \<Rightarrow> string) \<Rightarrow> Tx option \<Rightarrow> string" where
  "TxContentDigest sha256 txo = EncodeToString (sha256 (case txo of None \<Rightarrow> [] | Some tx \<Rightarrow> tx_content tx))"

definition txContentRootActiveAt :: "u64 \<Rightarrow> u64 \<Rightarrow> bool" where
  "txContentRootActiveAt txContentRootHeight height \<longleftrightarrow> txContentRootHeight \<noteq> 0 \<and> txContentRootHeight \<le> height"

record BFTWireAuth =
  ba_PublicKey :: string
  ba_Signature :: string

record Block =
  b_Height :: u64
  b_PrevHash :: string
  b_Hash :: string
  b_Timestamp :: int
  b_Transactions :: "Tx option list"
  b_StateRoot :: string
  b_TotalFees :: float64
  b_GasUsed :: int
  b_ProducerID :: string
  b_ProducerAuth :: BFTWireAuth

record BlockHeader =
  h_Height :: u64
  h_PrevHash :: string
  h_Hash :: string
  h_StateRoot :: string
  h_TxRoot :: string
  h_Timestamp :: int
  h_TxCount :: int

definition tx_leaves :: "(string \<Rightarrow> string) \<Rightarrow> u64 \<Rightarrow> Tx option list \<Rightarrow> u64 \<Rightarrow> string list" where
  "tx_leaves sha256 act txs height =
     (if txContentRootActiveAt act height then map (TxContentDigest sha256) txs
      else map (\<lambda>txo. case txo of None \<Rightarrow> [] | Some tx \<Rightarrow> tx_ID tx) txs)"

definition computeTxRoot :: "(string \<Rightarrow> string) \<Rightarrow> u64 \<Rightarrow> Tx option list \<Rightarrow> u64 \<Rightarrow> string" where
  "computeTxRoot sha256 act txs height =
     (if txs = [] then emptyHash sha256 else mt_Root (BuildMerkleTree sha256 (tx_leaves sha256 act txs height)))"

definition HeaderOf :: "(string \<Rightarrow> string) \<Rightarrow> u64 \<Rightarrow> Block \<Rightarrow> BlockHeader" where
  "HeaderOf sha256 act b =
     \<lparr>h_Height = b_Height b, h_PrevHash = b_PrevHash b, h_Hash = b_Hash b, h_StateRoot = b_StateRoot b,
      h_TxRoot = computeTxRoot sha256 act (b_Transactions b) (b_Height b), h_Timestamp = b_Timestamp b,
      h_TxCount = int (length (b_Transactions b))\<rparr>"

definition VerifyTxInBlock ::
  "(string \<Rightarrow> string) \<Rightarrow> u64 \<Rightarrow> string \<Rightarrow> MerkleProof \<Rightarrow> BlockHeader \<Rightarrow> bool" where
  "VerifyTxInBlock sha256 act txID pf header \<longleftrightarrow>
     (if txContentRootActiveAt act (h_Height header) then False
      else if h_TxCount header < 1 \<or> length (mp_Siblings pf) \<noteq> merkleDepth (h_TxCount header) then False
      else if mp_LeafHash pf \<noteq> hashLeaf sha256 txID then False
      else VerifyProof sha256 pf (h_TxRoot header))"

definition VerifyTxContentInBlock ::
  "(string \<Rightarrow> string) \<Rightarrow> u64 \<Rightarrow> Tx option \<Rightarrow> MerkleProof \<Rightarrow> BlockHeader \<Rightarrow> bool" where
  "VerifyTxContentInBlock sha256 act txo pf header \<longleftrightarrow>
     (if txo = None \<or> \<not> txContentRootActiveAt act (h_Height header) then False
      else if mp_LeafHash pf \<noteq> hashLeaf sha256 (TxContentDigest sha256 txo) then False
      else VerifyProof sha256 pf (h_TxRoot header))"

lemma tx_leaves_length [simp]: "length (tx_leaves sha256 act txs h) = length txs"
  by (simp add: tx_leaves_def)

lemma merkleDepth_nat: "0 < n \<Longrightarrow> n < 2 ^ 63 \<Longrightarrow> merkleDepth (int n) = bits_Len (n - 1)"
proof -
  assume n: "0 < n" "n < 2 ^ 63"
  then have "int n - 1 = int (n - 1)" by simp
  then have "(of_int (int n - 1) :: u64) = of_nat (n - 1)" by (simp only: of_int_of_nat_eq)
  moreover have "unat (of_nat (n - 1) :: u64) = n - 1" using n by (intro unat_of_nat_fits) simp
  ultimately show ?thesis by (simp only: merkleDepth_def)
qed

section \<open>Soundness\<close>

text \<open>The strings that building the tree and checking a proof hash.\<close>

fun pair_inputs :: "string list \<Rightarrow> string list" where
  "pair_inputs (a # b # row) = (a @ b) # pair_inputs row"
| "pair_inputs _ = []"

definition level_inputs :: "string list list \<Rightarrow> string list" where
  "level_inputs levels = concat (map (\<lambda>row. if 1 < length row then pair_inputs (even_row row) else []) levels)"

definition tree_inputs :: "(string \<Rightarrow> string) \<Rightarrow> string list \<Rightarrow> string list" where
  "tree_inputs sha256 items = items @ level_inputs (merkle_levels sha256 (map (hashLeaf sha256) items))"

fun proof_inputs :: "(string \<Rightarrow> string) \<Rightarrow> string \<Rightarrow> ProofNode list \<Rightarrow> string list" where
  "proof_inputs sha256 current [] = []"
| "proof_inputs sha256 current (sibling # siblings) =
     (let joined = (if pn_IsRight sibling then current @ pn_Hash sibling else pn_Hash sibling @ current)
      in joined # proof_inputs sha256 (EncodeToString (sha256 joined)) siblings)"

definition sha256_digests :: "(string \<Rightarrow> string) \<Rightarrow> bool" where
  "sha256_digests sha256 \<longleftrightarrow> (\<forall>x. length (sha256 x) = 32)"

lemma pair_row_inputs: "pair_row sha256 row = map (\<lambda>x. EncodeToString (sha256 x)) (pair_inputs row)"
  by (induction row rule: pair_inputs.induct) (simp_all add: hashPair_def)

lemma pair_inputs_parts:
  "x \<in> set (pair_inputs row) \<Longrightarrow> \<exists>a b. x = a @ b \<and> a \<in> set row \<and> b \<in> set row"
  by (induction row rule: pair_inputs.induct) auto

lemma fold_proof_Cons:
  "fold_proof sha256 cur (n # ns) =
     fold_proof sha256 (EncodeToString (sha256 (if pn_IsRight n then cur @ pn_Hash n else pn_Hash n @ cur))) ns"
  by (simp add: hashPair_def)

lemma fold_proof_sound:
  assumes "sha256_digests sha256"
    and "fold_proof sha256 cur ns = hd (last (merkle_levels sha256 row))"
    and "length ns = bits_Len (length row - 1)" and "row \<noteq> []"
    and "\<forall>x \<in> set row. length x = 64" and "length cur = 64"
    and "inj_on sha256 (set (level_inputs (merkle_levels sha256 row)) \<union> set (proof_inputs sha256 cur ns))"
  shows "cur \<in> set row"
  using assms
proof (induction sha256 row arbitrary: cur ns rule: merkle_levels.induct)
  case (1 sha256 row)
  have len: "length (EncodeToString (sha256 x)) = 64" for x
    using "1.prems"(1) by (simp add: sha256_digests_def EncodeToString_length)
  show ?case
  proof (cases "1 < length row")
    case True
    let ?next = "pair_row sha256 (even_row row)"
    have "(length row + 1) div 2 - 1 = (length row - 1) div 2" by linarith
    with "1.prems"(3) True obtain n ms where ns: "ns = n # ms" "length ms = bits_Len (length ?next - 1)"
      by (cases ns) (simp_all add: bits_Len_step next_row_length)
    define joined where "joined = (if pn_IsRight n then cur @ pn_Hash n else pn_Hash n @ cur)"
    have inj: "inj_on sha256 (insert joined (set (pair_inputs (even_row row)) \<union>
        set (level_inputs (merkle_levels sha256 ?next)) \<union> set (proof_inputs sha256 (EncodeToString (sha256 joined)) ms)))"
      using "1.prems"(7)
      using True by (simp add: ns merkle_levels_step(1) [OF True] level_inputs_def joined_def Let_def Un_ac)
    have "fold_proof sha256 (EncodeToString (sha256 joined)) ms = hd (last (merkle_levels sha256 ?next))"
      using "1.prems"(2)
      by (simp add: ns(1) fold_proof_Cons joined_def merkle_levels_step(1) [OF True] merkle_root_single(1) del: fold_proof.simps(2))
    then have "EncodeToString (sha256 joined) \<in> set ?next"
      using "1.prems"(1) ns(2) next_row_nonempty [OF True] len
      by (intro "1.IH" [OF True, of "EncodeToString (sha256 joined)" ms]) (auto simp: pair_row_inputs intro: inj_on_subset [OF inj])
    then obtain x where x: "x \<in> set (pair_inputs (even_row row))" "EncodeToString (sha256 joined) = EncodeToString (sha256 x)"
      by (auto simp: pair_row_inputs)
    then have "joined = x" using inj x(1) by (auto dest!: EncodeToString_inj simp: inj_on_def)
    moreover obtain a b where ab: "x = a @ b" "a \<in> set row" "b \<in> set row"
      using pair_inputs_parts [OF x(1)] even_row_set [OF "1.prems"(4)] by blast
    ultimately have "joined = a @ b" by simp
    moreover have "length a = 64" "length b = 64" using ab "1.prems"(5) by simp_all
    ultimately have "cur = a \<or> cur = b"
      using "1.prems"(6) unfolding joined_def
      by (auto simp: append_eq_append_conv append_eq_append_conv2 split: if_splits)
    with ab show ?thesis by blast
  next
    case False
    with "1.prems"(4) have "length row = 1" by (cases row) auto
    with "1.prems"(2,3) show ?thesis by (cases row) (simp_all add: merkle_levels_step(2) bits_Len_step)
  qed
qed

section \<open>Inclusion proofs\<close>

lemma tree_of_leaves:
  assumes "ls \<noteq> []"
  shows "mt_Leaves (BuildMerkleTree sha256 ls) = map (hashLeaf sha256) ls"
    and "mt_nodes (BuildMerkleTree sha256 ls) = merkle_levels sha256 (map (hashLeaf sha256) ls)"
    and "mt_Root (BuildMerkleTree sha256 ls) = hd (last (merkle_levels sha256 (map (hashLeaf sha256) ls)))"
  using assms by (simp_all add: BuildMerkleTree_def Let_def)

lemma GenerateProof_ok:
  assumes "i < length ls"
  shows "\<exists>pf. GenerateProof (BuildMerkleTree sha256 ls) (int i) = Inr pf \<and> mp_LeafHash pf = hashLeaf sha256 (ls ! i) \<and>
    length (mp_Siblings pf) = bits_Len (length ls - 1) \<and> VerifyProof sha256 pf (mt_Root (BuildMerkleTree sha256 ls))"
proof -
  from assms have ne: "ls \<noteq> []" by auto
  from proof_path_complete [of i "map (hashLeaf sha256) ls" sha256] assms show ?thesis
    by (auto simp: GenerateProof_def tree_of_leaves [OF ne] VerifyProof_def)
qed

text \<open>
  C22. Every transaction of a block has a proof, and it verifies. For each position the proof generator
  succeeds (no row is indexed out of range), yields exactly one sibling per level of the tree, and
  the proof passes the check that applies at the block's height: by transaction ID below the
  activation of the content root, by transaction content from there on.
\<close>

theorem merkle_proof_complete:
  assumes "i < length (b_Transactions b)" and "length (b_Transactions b) < 2 ^ 63" and "b_Transactions b ! i = Some tx"
  shows "\<exists>pf. GenerateProof (BuildMerkleTree sha256 (tx_leaves sha256 act (b_Transactions b) (b_Height b))) (int i) = Inr pf \<and>
    length (mp_Siblings pf) = merkleDepth (int (length (b_Transactions b))) \<and>
    (if txContentRootActiveAt act (b_Height b) then VerifyTxContentInBlock sha256 act (Some tx) pf (HeaderOf sha256 act b)
     else VerifyTxInBlock sha256 act (tx_ID tx) pf (HeaderOf sha256 act b))"
proof -
  let ?ls = "tx_leaves sha256 act (b_Transactions b) (b_Height b)"
  have i: "i < length ?ls" and ne: "b_Transactions b \<noteq> []" using assms(1) by auto
  from GenerateProof_ok [OF i, of sha256] obtain pf where pf:
    "GenerateProof (BuildMerkleTree sha256 ?ls) (int i) = Inr pf" "mp_LeafHash pf = hashLeaf sha256 (?ls ! i)"
    "length (mp_Siblings pf) = bits_Len (length ?ls - 1)" "VerifyProof sha256 pf (mt_Root (BuildMerkleTree sha256 ?ls))" by blast
  have depth: "merkleDepth (int (length (b_Transactions b))) = bits_Len (length ?ls - 1)"
    using merkleDepth_nat [of "length (b_Transactions b)"] ne assms(2) by simp
  have "?ls ! i = (if txContentRootActiveAt act (b_Height b) then TxContentDigest sha256 (Some tx) else tx_ID tx)"
    using assms(1,3) by (simp add: tx_leaves_def)
  with pf depth ne show ?thesis
    by (auto simp: VerifyTxInBlock_def VerifyTxContentInBlock_def HeaderOf_def computeTxRoot_def Suc_le_eq intro!: exI [of _ pf])
qed

definition demo_block :: Block where
  "demo_block =
     \<lparr>b_Height = 5, b_PrevHash = ''p'', b_Hash = ''h'', b_Timestamp = 0,
      b_Transactions = [Some demo_tx, Some (demo_tx\<lparr>tx_ID := ''t2''\<rparr>), Some (demo_tx\<lparr>tx_ID := ''t3''\<rparr>)],
      b_StateRoot = [], b_TotalFees = 0, b_GasUsed = 0, b_ProducerID = ''v'',
      b_ProducerAuth = \<lparr>ba_PublicKey = [], ba_Signature = []\<rparr>\<rparr>"

theorem merkle_proof_complete_witness:
  "\<exists>pf. GenerateProof (BuildMerkleTree (\<lambda>x. x) (tx_leaves (\<lambda>x. x) 0 (b_Transactions demo_block) 5)) 2 = Inr pf \<and>
     length (mp_Siblings pf) = 2 \<and> VerifyTxInBlock (\<lambda>x. x) 0 ''t3'' pf (HeaderOf (\<lambda>x. x) 0 demo_block)"
proof -
  have h: "2 < length (b_Transactions demo_block)" "length (b_Transactions demo_block) < 2 ^ 63"
    "b_Transactions demo_block ! 2 = Some (demo_tx\<lparr>tx_ID := ''t3''\<rparr>)" by (simp_all add: demo_block_def)
  have d: "merkleDepth (int (length (b_Transactions demo_block))) = 2"
    using merkleDepth_nat [of "length (b_Transactions demo_block)"]
    by (simp add: demo_block_def bits_Len_step)
  from merkle_proof_complete [OF h, of "\<lambda>x. x" 0] show ?thesis
    unfolding d by (simp add: txContentRootActiveAt_def) (simp add: demo_block_def)
qed

lemma leaf_sound:
  assumes "sha256_digests sha256" and "ls \<noteq> []"
    and "VerifyProof sha256 pf (mt_Root (BuildMerkleTree sha256 ls))" and "mp_LeafHash pf = hashLeaf sha256 x"
    and "length (mp_Siblings pf) = bits_Len (length ls - 1)"
    and "inj_on sha256 (insert x (set (tree_inputs sha256 ls) \<union> set (proof_inputs sha256 (mp_LeafHash pf) (mp_Siblings pf))))"
  shows "x \<in> set ls"
proof -
  have len: "length (hashLeaf sha256 y) = 64" for y
    using assms(1) by (simp add: sha256_digests_def hashLeaf_def EncodeToString_length)
  have "hashLeaf sha256 x \<in> set (map (hashLeaf sha256) ls)"
    using assms(2-5) len
    by (intro fold_proof_sound [OF assms(1)])
      (auto simp: VerifyProof_def tree_of_leaves tree_inputs_def intro: inj_on_subset [OF assms(6)])
  then obtain y where "y \<in> set ls" "sha256 x = sha256 y" by (auto simp: hashLeaf_def dest!: EncodeToString_inj)
  with assms(6) have "x = y" by (auto simp: inj_on_def tree_inputs_def)
  with \<open>y \<in> set ls\<close> show ?thesis by simp
qed

text \<open>
  C11. A proof that verifies proves inclusion. Unless two different strings among those hashed for the
  block's tree and for the proof have the same SHA-256 digest: a proof accepted for an ID below the
  activation height names an ID of the block, and a content proof as long as the tree is deep names
  the digest of a transaction of the block.
\<close>

theorem merkle_proof_sound:
  assumes "sha256_digests sha256" and "length (b_Transactions b) < 2 ^ 63"
    and "length (mp_Siblings pf) = merkleDepth (int (length (b_Transactions b)))"
    and "ls = tx_leaves sha256 act (b_Transactions b) (b_Height b)"
    and "inj_on sha256 (insert x (set (tree_inputs sha256 ls) \<union> set (proof_inputs sha256 (mp_LeafHash pf) (mp_Siblings pf))))"
    and "VerifyTxInBlock sha256 act x pf (HeaderOf sha256 act b) \<or>
      VerifyTxContentInBlock sha256 act txo pf (HeaderOf sha256 act b) \<and> b_Transactions b \<noteq> [] \<and>
        x = TxContentDigest sha256 txo"
  shows "x \<in> set ls"
proof -
  have ls: "length ls = length (b_Transactions b)" using assms(4) by simp
  have sound: "x \<in> set ls"
    if "VerifyProof sha256 pf (h_TxRoot (HeaderOf sha256 act b))" "mp_LeafHash pf = hashLeaf sha256 x" "b_Transactions b \<noteq> []"
  proof (rule leaf_sound [OF assms(1) _ _ that(2) _ assms(5)])
    show "ls \<noteq> []" using that(3) ls by auto
    show "VerifyProof sha256 pf (mt_Root (BuildMerkleTree sha256 ls))"
      using that(1,3) by (simp add: HeaderOf_def computeTxRoot_def assms(4))
    show "length (mp_Siblings pf) = bits_Len (length ls - 1)"
      using assms(2,3) ls that(3) merkleDepth_nat [of "length ls"] by simp
  qed
  from assms(6) show ?thesis
  proof
    assume "VerifyTxInBlock sha256 act x pf (HeaderOf sha256 act b)"
    then show ?thesis using sound by (auto simp: VerifyTxInBlock_def HeaderOf_def split: if_splits)
  next
    assume "VerifyTxContentInBlock sha256 act txo pf (HeaderOf sha256 act b) \<and> b_Transactions b \<noteq> [] \<and>
        x = TxContentDigest sha256 txo"
    then show ?thesis using sound by (auto simp: VerifyTxContentInBlock_def split: if_splits)
  qed
qed

text \<open>A small function of 32-byte values to try the theorems with: the tail of its argument.\<close>

definition demo_sha :: "string \<Rightarrow> string" where
  "demo_sha x = take 32 (rev x @ replicate 32 CHR ''0'')"

theorem merkle_proof_sound_witness:
  "VerifyTxInBlock demo_sha 0 ''t1'' \<lparr>mp_LeafHash = hashLeaf demo_sha ''t1'', mp_Index = 0, mp_Siblings = [], mp_Root = []\<rparr>
     (HeaderOf demo_sha 0 (demo_block\<lparr>b_Transactions := [Some (demo_tx\<lparr>tx_ID := ''t1''\<rparr>)]\<rparr>)) \<and>
   ''t1'' \<in> set (tx_leaves demo_sha 0 [Some (demo_tx\<lparr>tx_ID := ''t1''\<rparr>)] 5)"
proof -
  let ?b = "demo_block\<lparr>b_Transactions := [Some (demo_tx\<lparr>tx_ID := ''t1''\<rparr>)]\<rparr>"
  let ?p = "\<lparr>mp_LeafHash = hashLeaf demo_sha ''t1'', mp_Index = 0, mp_Siblings = [], mp_Root = []\<rparr>"
  have act: "\<not> txContentRootActiveAt 0 h" for h by (simp add: txContentRootActiveAt_def)
  have sha: "sha256_digests demo_sha" by (auto simp: sha256_digests_def demo_sha_def)
  have depth: "merkleDepth 1 = 0" by (simp add: merkleDepth_def bits_Len_step)
  have ver: "VerifyTxInBlock demo_sha 0 ''t1'' ?p (HeaderOf demo_sha 0 ?b)"
    by (simp add: VerifyTxInBlock_def act HeaderOf_def depth VerifyProof_def computeTxRoot_def BuildMerkleTree_def
        tx_leaves_def merkle_levels_step(2) Let_def)
  have "inj_on demo_sha (insert ''t1'' (set (tree_inputs demo_sha (tx_leaves demo_sha 0 (b_Transactions ?b) (b_Height ?b))) \<union>
      set (proof_inputs demo_sha (mp_LeafHash ?p) (mp_Siblings ?p))))"
    by (simp add: tree_inputs_def tx_leaves_def act merkle_levels_step(2) level_inputs_def even_row_def)
  from merkle_proof_sound [OF sha _ _ refl this disjI1 [OF ver]] ver show ?thesis by (simp add: depth demo_block_def)
qed

section \<open>What the transaction root binds\<close>

definition tx_wf :: "Tx \<Rightarrow> bool" where
  "tx_wf tx \<longleftrightarrow>
     list_all (\<lambda>f. length f < 2 ^ 64) [tx_ID tx, tx_Sender tx, tx_Recipient tx, tx_Payload tx, tx_ContractID tx, tx_Signature tx, tx_PublicKey tx] \<and>
     float_ok (tx_Amount tx) \<and> float_ok (tx_Fee tx) \<and> - (2 ^ 63) \<le> tx_GasLimit tx \<and> tx_GasLimit tx < 2 ^ 63"

lemma writeTxField_unique:
  "writeTxField a @ r = writeTxField b @ t \<Longrightarrow> length a < 2 ^ 64 \<Longrightarrow> length b < 2 ^ 64 \<Longrightarrow> a = b \<and> r = t"
  using prefixed_unique [of a r b t] by (simp add: writeTxField_def)

lemma writeTxFields_unique:
  assumes "concat (map writeTxField xs) = concat (map writeTxField ys)" and "length xs = length ys"
    and "list_all (\<lambda>f. length f < 2 ^ 64) xs" and "list_all (\<lambda>f. length f < 2 ^ 64) ys"
  shows "xs = ys"
  using assms(2,1,3,4)
proof (induction xs ys rule: list_induct2)
  case (Cons x xs y ys)
  from writeTxField_unique [of x "concat (map writeTxField xs)" y "concat (map writeTxField ys)"] Cons.prems
  have "x = y \<and> concat (map writeTxField xs) = concat (map writeTxField ys)" by simp
  with Cons.IH Cons.prems show ?case by simp
qed simp

text \<open>The fields in the order they are written.\<close>

definition tx_fields :: "Tx \<Rightarrow> string list" where
  "tx_fields tx =
     [tx_ID tx, tx_Sender tx, tx_Recipient tx, be64 (Float64bits (tx_Amount tx)), be64 (Float64bits (tx_Fee tx)),
      be64 (of_int (tx_GasLimit tx)), be64 (tx_Nonce tx), tx_Payload tx, tx_ContractID tx, tx_Signature tx, tx_PublicKey tx]"

lemma tx_content_fields: "tx_content tx = concat (map writeTxField (tx_fields tx))"
  by (simp add: tx_content_def tx_fields_def writeTxUint_def)

lemma of_int_i64_inj:
  assumes "(of_int a :: u64) = of_int b" and "- (2 ^ 63) \<le> a" "a < 2 ^ 63" "- (2 ^ 63) \<le> b" "b < 2 ^ 63"
  shows "a = b"
proof -
  have "take_bit 64 a = take_bit 64 b" using assms(1) by (simp add: word_of_int_eq_iff)
  then have "a mod 2 ^ 64 = b mod 2 ^ 64" by (simp add: take_bit_eq_mod)
  then have "(2 ^ 64) dvd (a - b)" by (simp add: mod_eq_dvd_iff)
  then obtain k where k: "a - b = 2 ^ 64 * k" by blast
  with assms(2-5) have "k = 0" by simp
  with k show ?thesis by simp
qed

lemma tx_content_inj:
  assumes "tx_wf t" and "tx_wf u" and "tx_content t = tx_content u"
  shows "u = t\<lparr>tx_AddedAt := tx_AddedAt u\<rparr>"
proof -
  have "tx_fields t = tx_fields u"
    using assms by (intro writeTxFields_unique) (simp_all add: tx_content_fields tx_wf_def tx_fields_def)
  then have eq: "tx_ID t = tx_ID u" "tx_Sender t = tx_Sender u" "tx_Recipient t = tx_Recipient u"
    "Float64bits (tx_Amount t) = Float64bits (tx_Amount u)" "Float64bits (tx_Fee t) = Float64bits (tx_Fee u)"
    "(of_int (tx_GasLimit t) :: u64) = of_int (tx_GasLimit u)" "tx_Nonce t = tx_Nonce u" "tx_Payload t = tx_Payload u"
    "tx_ContractID t = tx_ContractID u" "tx_Signature t = tx_Signature u" "tx_PublicKey t = tx_PublicKey u"
    unfolding tx_fields_def list.inject be64_inj by blast+
  have "tx_Amount t = tx_Amount u"
    by (rule Float64bits_inj [OF _ _ eq(4)]) (use assms(1,2) in \<open>simp_all add: tx_wf_def\<close>)
  moreover have "tx_Fee t = tx_Fee u"
    by (rule Float64bits_inj [OF _ _ eq(5)]) (use assms(1,2) in \<open>simp_all add: tx_wf_def\<close>)
  moreover have "tx_GasLimit t = tx_GasLimit u"
    by (rule of_int_i64_inj [OF eq(6)]) (use assms(1,2) in \<open>simp_all add: tx_wf_def\<close>)
  ultimately show ?thesis by (intro Tx.equality) (simp_all add: eq)
qed

lemma pair_inputs_Nil: "[] = pair_inputs ys \<Longrightarrow> even (length ys) \<Longrightarrow> ys = []"
  by (cases ys rule: pair_inputs.cases) auto

lemma pair_inputs_unique:
  assumes "pair_inputs xs = pair_inputs ys" and "even (length xs)" and "even (length ys)"
    and "\<forall>x \<in> set xs. length x = 64" and "\<forall>x \<in> set ys. length x = 64"
  shows "xs = ys"
  using assms
proof (induction xs arbitrary: ys rule: pair_inputs.induct)
  case (1 a b xs)
  from 1(2,4) obtain c d zs where "ys = c # d # zs" by (cases ys rule: pair_inputs.cases) auto
  with 1 show ?case by auto
qed (auto dest: pair_inputs_Nil)

lemma pair_inputs_length: "length (pair_inputs row) = length row div 2"
  by (induction row rule: pair_inputs.induct) auto

lemma even_row_unique: "even_row xs = even_row ys \<Longrightarrow> length xs = length ys \<Longrightarrow> xs = ys"
  by (auto simp: even_row_def split: if_splits)

lemma even_row_even: "even (length (even_row xs))"
  by (simp add: even_row_length)

lemma merkle_rows_unique:
  assumes "sha256_digests sha256"
    and "hd (last (merkle_levels sha256 xs)) = hd (last (merkle_levels sha256 ys))" and "length xs = length ys" and "xs \<noteq> []"
    and "\<forall>x \<in> set xs. length x = 64" and "\<forall>x \<in> set ys. length x = 64"
    and "inj_on sha256 (set (level_inputs (merkle_levels sha256 xs)) \<union> set (level_inputs (merkle_levels sha256 ys)))"
  shows "xs = ys"
  using assms
proof (induction sha256 xs arbitrary: ys rule: merkle_levels.induct)
  case (1 sha256 xs)
  have len: "length (EncodeToString (sha256 x)) = 64" for x
    using "1.prems"(1) by (simp add: sha256_digests_def EncodeToString_length)
  show ?case
  proof (cases "1 < length xs")
    case True
    then have True': "1 < length ys" using "1.prems"(3) by simp
    let ?X = "pair_inputs (even_row xs)" and ?Y = "pair_inputs (even_row ys)"
    have inj: "inj_on sha256 (set ?X \<union> set ?Y)"
      using "1.prems"(7) True True' by (auto simp: merkle_levels_step(1) level_inputs_def intro: inj_on_subset)
    have "pair_row sha256 (even_row xs) = pair_row sha256 (even_row ys)"
    proof (rule "1.IH" [OF True "1.prems"(1)])
      show "hd (last (merkle_levels sha256 (pair_row sha256 (even_row xs)))) =
          hd (last (merkle_levels sha256 (pair_row sha256 (even_row ys))))"
        using "1.prems"(2) by (simp add: merkle_levels_step(1) [OF True] merkle_levels_step(1) [OF True'] merkle_root_single(1))
      show "inj_on sha256 (set (level_inputs (merkle_levels sha256 (pair_row sha256 (even_row xs)))) \<union>
          set (level_inputs (merkle_levels sha256 (pair_row sha256 (even_row ys)))))"
        using "1.prems"(7) True True' by (auto simp: merkle_levels_step(1) level_inputs_def intro: inj_on_subset)
    qed (use next_row_nonempty [OF True] "1.prems"(3) len in \<open>auto simp: pair_row_inputs pair_inputs_length even_row_length\<close>)
    moreover have "inj_on (\<lambda>x. EncodeToString (sha256 x)) (set ?X \<union> set ?Y)"
      using inj by (auto simp: inj_on_def dest!: EncodeToString_inj)
    ultimately have "?X = ?Y" unfolding pair_row_inputs by (simp add: inj_on_map_eq_map)
    moreover have "set (even_row xs) = set xs" "set (even_row ys) = set ys" using True True' even_row_set [of xs] even_row_set [of ys]
      by (cases xs; cases ys; simp)+
    ultimately have "even_row xs = even_row ys"
      using "1.prems"(5,6) by (intro pair_inputs_unique [OF _ even_row_even even_row_even]) (simp_all only:)
    then show ?thesis using even_row_unique "1.prems"(3) by blast
  next
    case False
    with "1.prems"(4) have "length xs = 1" by (cases xs) auto
    with "1.prems"(2,3) show ?thesis by (cases xs; cases ys) (simp_all add: merkle_levels_step(2))
  qed
qed


text \<open>
  C23. Two blocks of the same height and the same number of transactions with the same content root have
  the same transactions, field by field; only the local admission times, which are not part of the
  digest, may differ. (Collision-freeness of SHA-256 is needed only on the strings hashed for the two
  roots.)
\<close>

theorem content_root_binds_transactions:
  assumes "sha256_digests sha256" and "txContentRootActiveAt act h"
    and "list_all tx_wf ts" and "list_all tx_wf us" and "length ts = length us"
    and "computeTxRoot sha256 act (map Some ts) h = computeTxRoot sha256 act (map Some us) h"
    and "inj_on sha256 (set (map tx_content (ts @ us)) \<union>
      set (tree_inputs sha256 (map (TxContentDigest sha256) (map Some ts))) \<union>
      set (tree_inputs sha256 (map (TxContentDigest sha256) (map Some us))))"
  shows "list_all2 (\<lambda>t u. u = t\<lparr>tx_AddedAt := tx_AddedAt u\<rparr>) ts us"
proof (cases "ts = []")
  case False
  let ?d = "\<lambda>t. TxContentDigest sha256 (Some t)"
  have ne: "us \<noteq> []" using False assms(5) by auto
  let ?leaves = "\<lambda>xs. map (hashLeaf sha256) (map (TxContentDigest sha256) (map Some xs))"
  have len: "\<forall>x \<in> set (?leaves xs). length x = 64" for xs
    using assms(1) by (auto simp: sha256_digests_def hashLeaf_def EncodeToString_length)
  have root: "hd (last (merkle_levels sha256 (?leaves ts))) = hd (last (merkle_levels sha256 (?leaves us)))"
    using assms(2,6) False ne by (simp add: computeTxRoot_def tx_leaves_def tree_of_leaves)
  have lv: "inj_on sha256 (set (level_inputs (merkle_levels sha256 (?leaves ts))) \<union>
      set (level_inputs (merkle_levels sha256 (?leaves us))))"
    by (rule inj_on_subset [OF assms(7)]) (auto simp: tree_inputs_def)
  have leaves: "?leaves ts = ?leaves us"
    by (rule merkle_rows_unique [OF assms(1) root _ _ len len lv]) (use assms(5) False in simp_all)
  have content: "t \<in> set ts \<Longrightarrow> u \<in> set us \<Longrightarrow> hashLeaf sha256 (?d t) = hashLeaf sha256 (?d u) \<Longrightarrow> tx_content t = tx_content u" for t u
  proof -
    assume tu: "t \<in> set ts" "u \<in> set us" "hashLeaf sha256 (?d t) = hashLeaf sha256 (?d u)"
    then have "sha256 (?d t) = sha256 (?d u)" by (auto simp: hashLeaf_def dest!: EncodeToString_inj)
    then have "?d t = ?d u" by (rule inj_onD [OF assms(7)]) (use tu in \<open>simp_all add: tree_inputs_def\<close>)
    then have "sha256 (tx_content t) = sha256 (tx_content u)" by (auto simp: TxContentDigest_def dest!: EncodeToString_inj)
    then show ?thesis by (rule inj_onD [OF assms(7)]) (use tu in simp_all)
  qed
  show ?thesis
    unfolding list_all2_conv_all_nth
  proof (intro conjI allI impI)
    fix n
    assume n: "n < length ts"
    with arg_cong [OF leaves, of "\<lambda>l. l ! n"] assms(5) have "hashLeaf sha256 (?d (ts ! n)) = hashLeaf sha256 (?d (us ! n))" by simp
    with content [of "ts ! n" "us ! n"] n assms(5) have "tx_content (ts ! n) = tx_content (us ! n)" by simp
    with n assms(3-5) show "us ! n = (ts ! n)\<lparr>tx_AddedAt := tx_AddedAt (us ! n)\<rparr>"
      by (intro tx_content_inj) (simp_all add: list_all_length)
  qed (rule assms(5))
qed (use assms(5) in simp)

text \<open>
  The length is needed: repeating the last transaction of an odd number of them does not change the root.
\<close>

lemma duplicated_tail_same_root:
  assumes "odd (length ls)" and "1 < length ls"
  shows "mt_Root (BuildMerkleTree sha256 (ls @ [last ls])) = mt_Root (BuildMerkleTree sha256 ls)"
proof -
  have "ls \<noteq> []" using assms(2) by auto
  then have "even_row (map (hashLeaf sha256) (ls @ [last ls])) = even_row (map (hashLeaf sha256) ls)"
    using assms(1) by (simp add: even_row_def last_map)
  then show ?thesis using assms(2) \<open>ls \<noteq> []\<close>
    by (simp add: tree_of_leaves merkle_levels_step(1) merkle_root_single(1))
qed

text \<open>
  The content check does not pin the length of the proof. Whenever the last field of a block's transaction
  ends in the leaf hash of some other transaction, a path two nodes longer proves that other
  transaction, whether or not it is in the block.
\<close>

theorem content_proof_forged:
  assumes "txContentRootActiveAt act (b_Height b)" and "i < length (b_Transactions b)" and "b_Transactions b ! i = Some tx"
    and "tx_PublicKey tx = k @ hashLeaf sha256 (TxContentDigest sha256 (Some fake))"
  shows "\<exists>pf. VerifyTxContentInBlock sha256 act (Some fake) pf (HeaderOf sha256 act b)"
proof -
  let ?c = "hashLeaf sha256 (TxContentDigest sha256 (Some fake))"
  let ?ls = "tx_leaves sha256 act (b_Transactions b) (b_Height b)"
  from assms(4) obtain p where p: "tx_content tx = p @ ?c"
    by (metis append.assoc tx_content_def writeTxField_def)
  have ne: "b_Transactions b \<noteq> []" and i: "i < length ?ls" using assms(2) by auto
  from GenerateProof_ok [OF i, of sha256] obtain q where q: "mp_LeafHash q = hashLeaf sha256 (?ls ! i)"
    "VerifyProof sha256 q (mt_Root (BuildMerkleTree sha256 ?ls))" by blast
  have leaf: "?ls ! i = EncodeToString (sha256 (tx_content tx))"
    using assms(1-3) by (simp add: tx_leaves_def TxContentDigest_def)
  let ?pf = "\<lparr>mp_LeafHash = ?c, mp_Index = 0,
      mp_Siblings = \<lparr>pn_Hash = p, pn_IsRight = False\<rparr> # \<lparr>pn_Hash = [], pn_IsRight = True\<rparr> # mp_Siblings q, mp_Root = []\<rparr>"
  have "VerifyProof sha256 ?pf (mt_Root (BuildMerkleTree sha256 ?ls))"
    using q by (simp add: VerifyProof_def hashPair_def flip: p) (simp add: hashLeaf_def leaf)
  with assms(1) ne show ?thesis
    by (intro exI [of _ ?pf]) (simp add: VerifyTxContentInBlock_def HeaderOf_def computeTxRoot_def)
qed

definition demo_sha2 :: "string \<Rightarrow> string" where
  "demo_sha2 x = replicate 32 (if length x = 64 then CHR ''a'' else CHR ''b'')"

lemma float_ok_int: "\<bar>n\<bar> \<le> 2 ^ 53 \<Longrightarrow> float_ok (Fin (of_int n))"
proof -
  assume n: "\<bar>n\<bar> \<le> 2 ^ 53"
  have "\<bar>of_int n :: rat\<bar> = of_int \<bar>n\<bar>" by simp
  also have "\<dots> \<le> of_int (2 ^ 53)" using n by (simp only: of_int_le_iff)
  finally have "\<bar>of_int n :: rat\<bar> < 2 ^ 1024" by (rule le_less_trans) simp
  with representable_int [OF n] show ?thesis by (simp add: float_ok_def finite_ok_def)
qed

lemma demo_tx_wf: "tx_wf (demo_tx\<lparr>tx_AddedAt := x\<rparr>)"
  using float_ok_int [of 5] float_ok_int [of 1] float_ok_int [of 0] float_ok_int [of 2] float_ok_int [of 3]
  by (simp add: tx_wf_def demo_tx_def zero_float64_def)

theorem content_root_binds_transactions_witness:
  "computeTxRoot demo_sha2 1 (map Some [demo_tx]) 5 = computeTxRoot demo_sha2 1 (map Some [demo_tx\<lparr>tx_AddedAt := 9\<rparr>]) 5 \<and>
   list_all2 (\<lambda>t u. u = t\<lparr>tx_AddedAt := tx_AddedAt u\<rparr>) [demo_tx] [demo_tx\<lparr>tx_AddedAt := 9\<rparr>]"
proof -
  let ?u = "demo_tx\<lparr>tx_AddedAt := 9\<rparr>"
  have act: "txContentRootActiveAt 1 5" by (simp add: txContentRootActiveAt_def)
  have sha: "sha256_digests demo_sha2" by (simp add: sha256_digests_def demo_sha2_def)
  have same: "tx_content ?u = tx_content demo_tx" by (simp add: tx_content_def)
  then have root: "computeTxRoot demo_sha2 1 (map Some [demo_tx]) 5 = computeTxRoot demo_sha2 1 (map Some [?u]) 5"
    by (simp add: computeTxRoot_def tx_leaves_def TxContentDigest_def)
  have len: "length (tx_content demo_tx) \<noteq> 64" by (simp add: tx_content_fields tx_fields_def writeTxField_def)
  have dig: "length (TxContentDigest demo_sha2 (Some t)) = 64" for t
    by (simp add: TxContentDigest_def EncodeToString_length demo_sha2_def)
  have "TxContentDigest demo_sha2 (Some ?u) = TxContentDigest demo_sha2 (Some demo_tx)"
    by (simp add: TxContentDigest_def same)
  then have inj: "inj_on demo_sha2 (set (map tx_content ([demo_tx] @ [?u])) \<union>
      set (tree_inputs demo_sha2 (map (TxContentDigest demo_sha2) (map Some [demo_tx]))) \<union>
      set (tree_inputs demo_sha2 (map (TxContentDigest demo_sha2) (map Some [?u]))))"
    using len dig by (simp add: same tree_inputs_def merkle_levels_step(2) level_inputs_def inj_on_def) (simp add: demo_sha2_def)
  from content_root_binds_transactions [OF sha act _ _ _ root inj] demo_tx_wf [of 9] demo_tx_wf [of "tx_AddedAt demo_tx"] root
  show ?thesis by simp
qed

theorem content_proof_forged_witness:
  "\<exists>pf. VerifyTxContentInBlock demo_sha2 1 (Some (demo_tx\<lparr>tx_ID := ''fake''\<rparr>)) pf
     (HeaderOf demo_sha2 1 (demo_block\<lparr>b_Transactions := [Some (demo_tx\<lparr>tx_PublicKey :=
        hashLeaf demo_sha2 (TxContentDigest demo_sha2 (Some (demo_tx\<lparr>tx_ID := ''fake''\<rparr>)))\<rparr>)]\<rparr>))"
  by (rule content_proof_forged [where i = 0 and k = "[]" and tx = "demo_tx\<lparr>tx_PublicKey :=
        hashLeaf demo_sha2 (TxContentDigest demo_sha2 (Some (demo_tx\<lparr>tx_ID := ''fake''\<rparr>)))\<rparr>"])
    (simp_all add: txContentRootActiveAt_def demo_block_def)

end
