(* ===== verification/Validators.thy ===== *)
theory Validators
  imports Accounts "HOL-Library.Multiset"
begin

text \<open>
  The validator set (\<open>pkg/chain/validator.go\<close>), the staking ledger (\<open>staking_ledger.go\<close>) and the
  recomputation of voting power from both (\<open>validator_sync.go\<close>, \<open>staking_registry.go\<close>,
  \<open>validator_ledger_sync.go\<close>).

  The clock is the argument \<open>now\<close>, in nanoseconds since Go's zero time. A range over a Go map takes the
  order of its keys as an argument; \<open>sort.Slice\<close> is a stable insertion sort of that list, so that
  every outcome of the unstable sort is the outcome for some order.
\<close>

section \<open>Sorting with a comparison function\<close>

fun insert_by :: "('a \<Rightarrow> 'a \<Rightarrow> bool) \<Rightarrow> 'a \<Rightarrow> 'a list \<Rightarrow> 'a list" where
  "insert_by lt x [] = [x]"
| "insert_by lt x (y # ys) = (if lt y x then y # insert_by lt x ys else x # y # ys)"

definition sort_slice :: "('a \<Rightarrow> 'a \<Rightarrow> bool) \<Rightarrow> 'a list \<Rightarrow> 'a list" where
  "sort_slice lt xs = foldr (insert_by lt) xs []"

section \<open>The validator set\<close>

datatype ValidatorStatus = ValidatorActive | ValidatorJailed | ValidatorExited

datatype SlashReason = SlashDoubleSign | SlashDowntime | SlashInvalidBlock

datatype validator_error =
    AlreadyRegistered
  | NotRegistered
  | InsufficientStake
  | ValidatorSetFull
  | ValidatorIsExited
  | NotJailed
  | JailNotElapsed
  | NoActiveValidators

record Validator =
  v_Address :: string
  v_SelfStake :: float64
  v_Stake :: float64
  v_Status :: ValidatorStatus
  v_RegisteredAt :: int
  v_JailedUntil :: int
  v_SlashCount :: int
  v_TotalSlashed :: float64
  v_BlocksProduced :: u64
  v_LastBlockAt :: int

record SlashEvent =
  se_Validator :: string
  se_Reason :: SlashReason
  se_Amount :: float64
  se_Epoch :: u64
  se_Timestamp :: int

record ValidatorSetConfig =
  vc_MinStake :: float64
  vc_MaxValidators :: int
  vc_EpochBlocks :: u64
  vc_JailDuration :: int
  vc_SlashFraction :: float64
  vc_DowntimeSlash :: float64

record ValidatorSet =
  vs_validators :: "string \<rightharpoonup> Validator"
  vs_slashLog :: "SlashEvent list"
  vs_config :: ValidatorSetConfig
  vs_currentEpoch :: u64
  vs_blockCount :: u64

definition DefaultValidatorSetConfig :: ValidatorSetConfig where
  "DefaultValidatorSetConfig =
     \<lparr>vc_MinStake = Fin 100, vc_MaxValidators = 100, vc_EpochBlocks = 100, vc_JailDuration = 3600 * 1000000000,
      vc_SlashFraction = rnd (5 / 100), vc_DowntimeSlash = rnd (1 / 100)\<rparr>"

definition NewValidatorSet :: "ValidatorSetConfig \<Rightarrow> ValidatorSet" where
  "NewValidatorSet cfg =
     \<lparr>vs_validators = Map.empty, vs_slashLog = [],
      vs_config = cfg\<lparr>vc_MinStake := if vc_MinStake cfg \<le> 0 then Fin 100 else vc_MinStake cfg,
                      vc_MaxValidators := if vc_MaxValidators cfg \<le> 0 then 100 else vc_MaxValidators cfg,
                      vc_EpochBlocks := if vc_EpochBlocks cfg = 0 then 100 else vc_EpochBlocks cfg\<rparr>,
      vs_currentEpoch = 0, vs_blockCount = 0\<rparr>"

abbreviation put_validator :: "ValidatorSet \<Rightarrow> string \<Rightarrow> Validator \<Rightarrow> ValidatorSet" where
  "put_validator vs a v \<equiv> vs\<lparr>vs_validators := (vs_validators vs)(a \<mapsto> v)\<rparr>"

definition RegisterValidator ::
  "int \<Rightarrow> ValidatorSet \<Rightarrow> string \<Rightarrow> float64 \<Rightarrow> ValidatorSet \<times> validator_error option" where
  "RegisterValidator now vs address stake =
     (if vs_validators vs address \<noteq> None then (vs, Some AlreadyRegistered)
      else if stake < vc_MinStake (vs_config vs) then (vs, Some InsufficientStake)
      else if vc_MaxValidators (vs_config vs) \<le> int (card (dom (vs_validators vs))) then (vs, Some ValidatorSetFull)
      else (put_validator vs address
              \<lparr>v_Address = address, v_SelfStake = stake, v_Stake = stake, v_Status = ValidatorActive, v_RegisteredAt = now,
               v_JailedUntil = 0, v_SlashCount = 0, v_TotalSlashed = 0, v_BlocksProduced = 0, v_LastBlockAt = 0\<rparr>, None))"

definition AddStake :: "ValidatorSet \<Rightarrow> string \<Rightarrow> float64 \<Rightarrow> ValidatorSet \<times> validator_error option" where
  "AddStake vs address amount =
     (case vs_validators vs address of
        None \<Rightarrow> (vs, Some NotRegistered)
      | Some v \<Rightarrow>
          if v_Status v = ValidatorExited then (vs, Some ValidatorIsExited)
          else (put_validator vs address (v\<lparr>v_SelfStake := v_SelfStake v + amount, v_Stake := v_Stake v + amount\<rparr>), None))"

definition ExitValidator :: "ValidatorSet \<Rightarrow> string \<Rightarrow> ValidatorSet \<times> (validator_error + Validator)" where
  "ExitValidator vs address =
     (case vs_validators vs address of
        None \<Rightarrow> (vs, Inl NotRegistered)
      | Some v \<Rightarrow> (put_validator vs address (v\<lparr>v_Status := ValidatorExited\<rparr>), Inr (v\<lparr>v_Status := ValidatorExited\<rparr>)))"

definition tiny :: float64 where
  "tiny = rnd (1 / 10 ^ 12)"

definition slash_validator :: "int \<Rightarrow> float64 \<Rightarrow> int \<Rightarrow> Validator \<Rightarrow> Validator" where
  "slash_validator now fraction jail v =
     (let amount = v_Stake v * fraction; self = v_SelfStake v - v_SelfStake v * fraction
      in v\<lparr>v_Stake := v_Stake v - amount, v_SelfStake := if self < tiny then 0 else self,
           v_TotalSlashed := v_TotalSlashed v + amount, v_SlashCount := v_SlashCount v + 1,
           v_Status := ValidatorJailed, v_JailedUntil := now + jail\<rparr>)"

definition SlashValidator ::
  "int \<Rightarrow> ValidatorSet \<Rightarrow> string \<Rightarrow> SlashReason \<Rightarrow> ValidatorSet \<times> (validator_error + SlashEvent)" where
  "SlashValidator now vs address reason =
     (case vs_validators vs address of
        None \<Rightarrow> (vs, Inl NotRegistered)
      | Some v \<Rightarrow>
          if v_Status v = ValidatorExited then (vs, Inl ValidatorIsExited)
          else (let fraction = (if reason = SlashDowntime then vc_DowntimeSlash (vs_config vs)
                                else vc_SlashFraction (vs_config vs));
                    event = \<lparr>se_Validator = address, se_Reason = reason, se_Amount = v_Stake v * fraction,
                             se_Epoch = vs_currentEpoch vs, se_Timestamp = now\<rparr>
                in ((put_validator vs address (slash_validator now fraction (vc_JailDuration (vs_config vs)) v))
                      \<lparr>vs_slashLog := vs_slashLog vs @ [event]\<rparr>, Inr event)))"

definition Unjail :: "int \<Rightarrow> ValidatorSet \<Rightarrow> string \<Rightarrow> ValidatorSet \<times> validator_error option" where
  "Unjail now vs address =
     (case vs_validators vs address of
        None \<Rightarrow> (vs, Some NotRegistered)
      | Some v \<Rightarrow>
          if v_Status v \<noteq> ValidatorJailed then (vs, Some NotJailed)
          else if now < v_JailedUntil v then (vs, Some JailNotElapsed)
          else if v_Stake v < vc_MinStake (vs_config vs) then (vs, Some InsufficientStake)
          else (put_validator vs address (v\<lparr>v_Status := ValidatorActive, v_JailedUntil := 0\<rparr>), None))"

definition RecordBlock :: "int \<Rightarrow> ValidatorSet \<Rightarrow> string \<Rightarrow> ValidatorSet \<times> bool" where
  "RecordBlock now vs address =
     (let vs1 = (case vs_validators vs address of
                   None \<Rightarrow> vs
                 | Some v \<Rightarrow> put_validator vs address (v\<lparr>v_BlocksProduced := v_BlocksProduced v + 1, v_LastBlockAt := now\<rparr>));
          count = vs_blockCount vs + 1
      in if vc_EpochBlocks (vs_config vs) \<le> count
         then (vs1\<lparr>vs_currentEpoch := vs_currentEpoch vs + 1, vs_blockCount := 0\<rparr>, True)
         else (vs1\<lparr>vs_blockCount := count\<rparr>, False))"

definition counts_active :: "int \<Rightarrow> Validator \<Rightarrow> bool" where
  "counts_active now v \<longleftrightarrow> v_Status v = ValidatorActive \<or> (v_Status v = ValidatorJailed \<and> v_JailedUntil v < now)"

definition ActiveValidators :: "int \<Rightarrow> ValidatorSet \<Rightarrow> string list \<Rightarrow> Validator list" where
  "ActiveValidators now vs ks =
     sort_slice (\<lambda>a b. v_Stake b < v_Stake a)
       (filter (counts_active now) (map (\<lambda>k. the (vs_validators vs k)) ks))"

definition GetValidator :: "ValidatorSet \<Rightarrow> string \<Rightarrow> Validator option" where
  "GetValidator vs address = vs_validators vs address"

definition ResetEffectiveStake :: "ValidatorSet \<Rightarrow> string \<Rightarrow> ValidatorSet \<times> validator_error option" where
  "ResetEffectiveStake vs address =
     (case vs_validators vs address of
        None \<Rightarrow> (vs, Some NotRegistered)
      | Some v \<Rightarrow>
          if v_Status v = ValidatorExited then (vs, Some ValidatorIsExited)
          else (put_validator vs address (v\<lparr>v_Stake := v_SelfStake v\<rparr>), None))"

definition SetStake :: "ValidatorSet \<Rightarrow> string \<Rightarrow> float64 \<Rightarrow> ValidatorSet \<times> validator_error option" where
  "SetStake vs address stake =
     (case vs_validators vs address of
        None \<Rightarrow> (vs, Some NotRegistered)
      | Some v \<Rightarrow>
          if v_Status v = ValidatorExited then (vs, Some ValidatorIsExited)
          else (put_validator vs address
                  (v\<lparr>v_Stake := if stake < vc_MinStake (vs_config vs) then vc_MinStake (vs_config vs) else stake\<rparr>), None))"

definition ProposerForEpoch :: "int \<Rightarrow> ValidatorSet \<Rightarrow> string list \<Rightarrow> validator_error + string" where
  "ProposerForEpoch now vs ks =
     (case ActiveValidators now vs ks of [] \<Rightarrow> Inl NoActiveValidators | v # _ \<Rightarrow> Inr (v_Address v))"

section \<open>The staking ledger\<close>

record unbondEntry =
  ub_Delegator :: string
  ub_Amount :: float64
  ub_MatureAt :: u64

record StakingLedger =
  sl_delegated :: "string \<rightharpoonup> float64"
  sl_delegatorIndex :: "string \<rightharpoonup> (string \<rightharpoonup> float64)"
  sl_unbond :: "unbondEntry list"

datatype staking_error =
    AmountNotPositive
  | StakeDebitRefused account_error
  | InvalidUnbond
  | NoBonds string
  | UnbondExceedsBond

definition NewStakingLedger :: StakingLedger where
  "NewStakingLedger = \<lparr>sl_delegated = Map.empty, sl_delegatorIndex = Map.empty, sl_unbond = []\<rparr>"

text \<open>Reading a key that is absent from a map of floats gives zero.\<close>

definition lookup0 :: "('k \<rightharpoonup> float64) \<Rightarrow> 'k \<Rightarrow> float64" where
  "lookup0 m k = (case m k of None \<Rightarrow> 0 | Some x \<Rightarrow> x)"

definition DelegatedPower :: "StakingLedger \<Rightarrow> string \<Rightarrow> float64" where
  "DelegatedPower s validator = lookup0 (sl_delegated s) validator"

definition Bonded :: "StakingLedger \<Rightarrow> string \<Rightarrow> string \<Rightarrow> float64" where
  "Bonded s delegator validator =
     (case sl_delegatorIndex s delegator of None \<Rightarrow> 0 | Some m \<Rightarrow> lookup0 m validator)"

definition Delegate ::
  "StakingLedger \<times> AccountStore \<Rightarrow> string \<Rightarrow> string \<Rightarrow> float64 \<Rightarrow> (StakingLedger \<times> AccountStore) \<times> staking_error option" where
  "Delegate w delegator validator amount =
     (let (s, as) = w
      in if amount \<le> 0 then (w, Some AmountNotPositive)
         else (case Debit as delegator amount of
             (as1, Some e) \<Rightarrow> ((s, as1), Some (StakeDebitRefused e))
           | (as1, None) \<Rightarrow>
               (let m = (case sl_delegatorIndex s delegator of None \<Rightarrow> Map.empty | Some m \<Rightarrow> m)
                in ((s\<lparr>sl_delegatorIndex := (sl_delegatorIndex s)(delegator \<mapsto> m(validator \<mapsto> lookup0 m validator + amount)),
                       sl_delegated := (sl_delegated s)(validator \<mapsto> lookup0 (sl_delegated s) validator + amount)\<rparr>, as1), None))))"

text \<open>An entry that falls below \<open>1e-12\<close> is deleted.\<close>

definition put_or_drop :: "('k \<rightharpoonup> float64) \<Rightarrow> 'k \<Rightarrow> float64 \<Rightarrow> ('k \<rightharpoonup> float64)" where
  "put_or_drop m k x = (if x < tiny then m(k := None) else m(k \<mapsto> x))"

definition put_bonds ::
  "(string \<rightharpoonup> (string \<rightharpoonup> float64)) \<Rightarrow> string \<Rightarrow> (string \<rightharpoonup> float64) \<Rightarrow> (string \<rightharpoonup> (string \<rightharpoonup> float64))" where
  "put_bonds ix delegator m = (if m = Map.empty then ix(delegator := None) else ix(delegator \<mapsto> m))"

definition BeginUnbond ::
  "StakingLedger \<Rightarrow> string \<Rightarrow> string \<Rightarrow> float64 \<Rightarrow> u64 \<Rightarrow> u64 \<Rightarrow> StakingLedger \<times> staking_error option" where
  "BeginUnbond s delegator validator amount currentHeight unbondBlocks =
     (if amount \<le> 0 \<or> unbondBlocks = 0 then (s, Some InvalidUnbond)
      else (case sl_delegatorIndex s delegator of
          None \<Rightarrow> (s, Some (NoBonds delegator))
        | Some m \<Rightarrow>
            if lookup0 m validator < amount then (s, Some UnbondExceedsBond)
            else (s\<lparr>sl_delegatorIndex := put_bonds (sl_delegatorIndex s) delegator
                       (put_or_drop m validator (lookup0 m validator - amount)),
                    sl_delegated := put_or_drop (sl_delegated s) validator (lookup0 (sl_delegated s) validator - amount),
                    sl_unbond := sl_unbond s @
                      [\<lparr>ub_Delegator = delegator, ub_Amount = amount, ub_MatureAt = currentHeight + unbondBlocks\<rparr>]\<rparr>, None)))"

definition slash_bonds ::
  "string \<Rightarrow> float64 \<Rightarrow> (string \<rightharpoonup> (string \<rightharpoonup> float64)) \<Rightarrow> string \<Rightarrow> (string \<rightharpoonup> (string \<rightharpoonup> float64))" where
  "slash_bonds validator f ix del =
     (case ix del of
        None \<Rightarrow> ix
      | Some m \<Rightarrow>
          (case m validator of
             None \<Rightarrow> ix
           | Some amt \<Rightarrow> if 0 < amt then put_bonds ix del (put_or_drop m validator (amt * f)) else ix))"

definition SlashDelegated :: "StakingLedger \<Rightarrow> string list \<Rightarrow> string \<Rightarrow> float64 \<Rightarrow> StakingLedger" where
  "SlashDelegated s delegators validator slashFraction =
     (if slashFraction \<le> 0 \<or> 1 < slashFraction then s
      else (let f = 1 - slashFraction
            in s\<lparr>sl_delegatorIndex := foldl (slash_bonds validator f) (sl_delegatorIndex s) delegators,
                 sl_delegated := (case sl_delegated s validator of
                     None \<Rightarrow> sl_delegated s
                   | Some p \<Rightarrow> put_or_drop (sl_delegated s) validator (p * f))\<rparr>))"

definition ProcessCommittedHeight ::
  "(float64 \<Rightarrow> u64) \<Rightarrow> u64 \<Rightarrow> StakingLedger \<times> AccountStore \<Rightarrow> u64 \<Rightarrow> StakingLedger \<times> AccountStore" where
  "ProcessCommittedHeight oob fork w height =
     (let (s, as) = w
      in (s\<lparr>sl_unbond := filter (\<lambda>e. \<not> ub_MatureAt e \<le> height) (sl_unbond s)\<rparr>,
          foldl (\<lambda>as e. if ub_MatureAt e \<le> height then Credit oob fork as (ub_Delegator e) (ub_Amount e) else as)
            as (sl_unbond s)))"

section \<open>Voting power from stake and delegations\<close>

definition applyStakingDelegationWeights :: "ValidatorSet \<Rightarrow> StakingLedger \<Rightarrow> string list \<Rightarrow> ValidatorSet" where
  "applyStakingDelegationWeights vs sl vals =
     foldl (\<lambda>vs val.
       let pow = lookup0 (sl_delegated sl) val
       in if pow \<le> 0 then vs
          else (case GetValidator vs val of None \<Rightarrow> vs | Some v \<Rightarrow> fst (SetStake vs val (v_Stake v + pow)))) vs vals"

definition SyncValidatorStakesFromAccounts :: "ValidatorSet \<Rightarrow> string list \<Rightarrow> ValidatorSet" where
  "SyncValidatorStakesFromAccounts vs addrs = foldl (\<lambda>vs a. fst (ResetEffectiveStake vs a)) vs addrs"

definition SyncValidatorStakesFromCommittedChain ::
  "ValidatorSet \<Rightarrow> string list \<Rightarrow> (string \<Rightarrow> nat) \<Rightarrow> float64 \<Rightarrow> ValidatorSet" where
  "SyncValidatorStakesFromCommittedChain vs addrs counts producerBonus =
     (let vs1 = SyncValidatorStakesFromAccounts vs addrs
      in if producerBonus \<le> 0 then vs1
         else foldl (\<lambda>vs addr.
                case GetValidator vs addr of
                  None \<Rightarrow> vs
                | Some v \<Rightarrow>
                    (let extra = rnd (of_nat (counts addr)) * producerBonus
                     in if extra \<le> 0 then vs else fst (SetStake vs addr (v_Stake v + extra)))) vs1 addrs)"

definition DefaultProducerBlockStakeBonus :: float64 where
  "DefaultProducerBlockStakeBonus = 0"

definition SyncValidatorStakesFromCommittedTip ::
  "ValidatorSet \<Rightarrow> string list \<Rightarrow> (string \<Rightarrow> nat) \<Rightarrow> StakingLedger \<Rightarrow> string list \<Rightarrow> ValidatorSet" where
  "SyncValidatorStakesFromCommittedTip vs addrs counts staking vals =
     applyStakingDelegationWeights
       (SyncValidatorStakesFromCommittedChain vs addrs counts DefaultProducerBlockStakeBonus) staking vals"

section \<open>Sorting lemmas\<close>

lemma insert_by_mset [simp]: "mset (insert_by lt x xs) = add_mset x (mset xs)"
  by (induction xs) auto

lemma sort_slice_mset [simp]: "mset (sort_slice lt xs) = mset xs"
  unfolding sort_slice_def by (induction xs) auto

lemma sort_slice_set [simp]: "set (sort_slice lt xs) = set xs"
  by (metis set_mset_mset sort_slice_mset)

lemma sort_slice_length [simp]: "length (sort_slice lt xs) = length xs"
  by (metis size_mset sort_slice_mset)

lemma insert_by_sorted:
  assumes "\<And>a b c. lt a b \<Longrightarrow> lt b c \<Longrightarrow> lt a c" and "\<And>a b. a \<in> insert x (set xs) \<Longrightarrow> b \<in> insert x (set xs) \<Longrightarrow> a \<noteq> b \<Longrightarrow> lt a b \<or> lt b a"
    and "sorted_wrt lt xs" and "x \<notin> set xs"
  shows "sorted_wrt lt (insert_by lt x xs)"
  using assms(2-4)
proof (induction xs)
  case (Cons y ys)
  have set: "set (insert_by lt x ys) = insert x (set ys)" by (metis insert_by_mset set_mset_add_mset_insert set_mset_mset)
  show ?case
  proof (cases "lt y x")
    case True
    have "sorted_wrt lt (insert_by lt x ys)" using Cons by (intro Cons.IH) auto
    with True Cons.prems(2) show ?thesis by (auto simp: set)
  next
    case False
    with Cons.prems(1) [of x y] Cons.prems(3) have "lt x y" by auto
    with False Cons.prems(2) assms(1) show ?thesis by (auto intro: assms(1))
  qed
qed simp

text \<open>With a strict order that decides every pair of different elements, sorting a list without
  repetitions gives a strictly sorted list, and there is only one.\<close>

definition decides :: "('a \<Rightarrow> 'a \<Rightarrow> bool) \<Rightarrow> 'a set \<Rightarrow> bool" where
  "decides lt S \<longleftrightarrow> (\<forall>a \<in> S. \<not> lt a a) \<and> (\<forall>a b c. lt a b \<longrightarrow> lt b c \<longrightarrow> lt a c) \<and>
     (\<forall>a \<in> S. \<forall>b \<in> S. a \<noteq> b \<longrightarrow> lt a b \<or> lt b a)"

lemma sort_slice_sorted:
  assumes "decides lt (set xs)" and "distinct xs"
  shows "sorted_wrt lt (sort_slice lt xs)"
  using assms
proof (induction xs)
  case (Cons x xs)
  from Cons.prems have "decides lt (set xs)" by (auto simp: decides_def)
  with Cons have IH: "sorted_wrt lt (sort_slice lt xs)" by simp
  have "sort_slice lt (x # xs) = insert_by lt x (sort_slice lt xs)" by (simp add: sort_slice_def)
  moreover have "sorted_wrt lt (insert_by lt x (sort_slice lt xs))"
  proof (rule insert_by_sorted [OF _ _ IH])
    show "lt a c" if "lt a b" "lt b c" for a b c using that Cons.prems(1) by (auto simp: decides_def)
    show "lt a b \<or> lt b a" if "a \<in> insert x (set (sort_slice lt xs))" "b \<in> insert x (set (sort_slice lt xs))" "a \<noteq> b" for a b
      using that Cons.prems(1) by (auto simp: decides_def)
    show "x \<notin> set (sort_slice lt xs)" using Cons.prems(2) by simp
  qed
  ultimately show ?case by simp
qed (simp add: sort_slice_def)

lemma sorted_wrt_unique:
  assumes "sorted_wrt lt xs" and "sorted_wrt lt ys" and "set xs = set ys" and "\<forall>a \<in> set xs. \<not> lt a a"
    and "\<forall>a b c. lt a b \<longrightarrow> lt b c \<longrightarrow> lt a c"
  shows "xs = ys"
  using assms(1-4)
proof (induction xs arbitrary: ys)
  case (Cons x xs)
  then obtain y zs where ys: "ys = y # zs" by (cases ys) auto
  have x: "\<forall>z \<in> set xs. lt x z" and y: "\<forall>z \<in> set zs. lt y z" using Cons.prems ys by auto
  have "x = y"
  proof (rule ccontr)
    assume "x \<noteq> y"
    with Cons.prems(3) ys have "y \<in> set xs" "x \<in> set zs" by auto
    with x y assms(5) have "lt x x" by blast
    with Cons.prems(4) show False by simp
  qed
  moreover have "x \<notin> set xs" "x \<notin> set zs" using x y Cons.prems(4) \<open>x = y\<close> by auto
  ultimately have "set xs = set zs" using Cons.prems(3) ys by auto
  with Cons.IH [of zs] Cons.prems ys \<open>x = y\<close> show ?case by simp
qed simp

lemma sort_slice_unique:
  assumes "decides lt (set xs)" and "distinct xs" and "distinct ys" and "set xs = set ys"
  shows "sort_slice lt xs = sort_slice lt ys"
proof (rule sorted_wrt_unique)
  show "sorted_wrt lt (sort_slice lt xs)" "sorted_wrt lt (sort_slice lt ys)"
    using sort_slice_sorted [of lt xs] sort_slice_sorted [of lt ys] assms by auto
  show "\<forall>a \<in> set (sort_slice lt xs). \<not> lt a a" "\<forall>a b c. lt a b \<longrightarrow> lt b c \<longrightarrow> lt a c"
    using assms(1) unfolding decides_def by auto
qed (simp add: assms(4))

section \<open>Voting power\<close>

text \<open>A pass over the keys of the set in which every step rewrites only the entry of its own key.\<close>

lemma foldl_own_key:
  assumes step: "\<And>vs k. vs_config vs = cfg \<Longrightarrow>
      vs_validators (f vs k) = (vs_validators vs)(k := g k (vs_validators vs k)) \<and> vs_config (f vs k) = cfg"
    and "vs_config vs = cfg" and "distinct ks"
  shows "vs_validators (foldl f vs ks) a = (if a \<in> set ks then g a (vs_validators vs a) else vs_validators vs a) \<and>
    vs_config (foldl f vs ks) = cfg"
  using assms(2,3)
proof (induction ks arbitrary: vs)
  case (Cons k ks)
  from step [OF Cons.prems(1), of k] Cons.IH [of "f vs k"] Cons.prems show ?case by auto
qed simp

definition reset_power :: "Validator \<Rightarrow> Validator" where
  "reset_power v = (if v_Status v = ValidatorExited then v else v\<lparr>v_Stake := v_SelfStake v\<rparr>)"

definition add_power :: "float64 \<Rightarrow> float64 \<Rightarrow> Validator \<Rightarrow> Validator" where
  "add_power mn pow v =
     (if v_Status v = ValidatorExited \<or> pow \<le> 0 then v
      else v\<lparr>v_Stake := if v_Stake v + pow < mn then mn else v_Stake v + pow\<rparr>)"

lemma add_power_none: "pow \<le> 0 \<Longrightarrow> add_power mn pow = (\<lambda>v. v)"
  by (rule ext) (simp add: add_power_def)

lemma add_power_some:
  "\<not> pow \<le> 0 \<Longrightarrow> add_power mn pow = (\<lambda>v. if v_Status v = ValidatorExited then v
     else v\<lparr>v_Stake := if v_Stake v + pow < mn then mn else v_Stake v + pow\<rparr>)"
  by (rule ext) (simp add: add_power_def)

lemma reset_step:
  "vs_validators (fst (ResetEffectiveStake vs a)) = (vs_validators vs)(a := map_option reset_power (vs_validators vs a)) \<and>
   vs_config (fst (ResetEffectiveStake vs a)) = vs_config vs"
  by (auto simp: ResetEffectiveStake_def reset_power_def fun_upd_idem split: option.split)

lemma power_step:
  "vs_validators (case GetValidator vs a of None \<Rightarrow> vs | Some v \<Rightarrow> fst (SetStake vs a (v_Stake v + pow))) =
     (vs_validators vs)(a := map_option (\<lambda>v. if v_Status v = ValidatorExited then v
        else v\<lparr>v_Stake := if v_Stake v + pow < vc_MinStake (vs_config vs) then vc_MinStake (vs_config vs) else v_Stake v + pow\<rparr>)
        (vs_validators vs a)) \<and>
   vs_config (case GetValidator vs a of None \<Rightarrow> vs | Some v \<Rightarrow> fst (SetStake vs a (v_Stake v + pow))) = vs_config vs"
  by (auto simp: SetStake_def GetValidator_def fun_upd_idem split: option.split)

lemma sync_tip_closed_form:
  assumes "iteration (vs_validators vs) addrs" and "iteration (sl_delegated sl) vals"
  shows "vs_validators (SyncValidatorStakesFromCommittedTip vs addrs counts sl vals) a =
      map_option (\<lambda>v. add_power (vc_MinStake (vs_config vs)) (DelegatedPower sl a) (reset_power v)) (vs_validators vs a) \<and>
    vs_config (SyncValidatorStakesFromCommittedTip vs addrs counts sl vals) = vs_config vs"
proof -
  let ?r = "SyncValidatorStakesFromAccounts vs addrs"
  have r: "vs_validators ?r a = (if a \<in> set addrs then map_option reset_power (vs_validators vs a) else vs_validators vs a) \<and>
      vs_config ?r = vs_config vs" for a
    unfolding SyncValidatorStakesFromAccounts_def
    using reset_step iterationD(1) [OF assms(1)] by (intro foldl_own_key [where g = "\<lambda>_. map_option reset_power"]) simp_all
  let ?f = "\<lambda>vs val. let pow = lookup0 (sl_delegated sl) val
     in if pow \<le> 0 then vs
        else (case GetValidator vs val of None \<Rightarrow> vs | Some v \<Rightarrow> fst (SetStake vs val (v_Stake v + pow)))"
  have st: "vs_validators (?f w k) = (vs_validators w)(k := map_option (add_power (vc_MinStake (vs_config vs)) (lookup0 (sl_delegated sl) k)) (vs_validators w k)) \<and>
      vs_config (?f w k) = vs_config vs" if "vs_config w = vs_config vs" for w k
    using power_step [of w k "lookup0 (sl_delegated sl) k"] unfolding that
    by (cases "lookup0 (sl_delegated sl) k \<le> 0")
      (simp_all add: Let_def that add_power_none option.map_ident add_power_some)
  have p: "vs_validators (foldl ?f ?r vals) a =
      (if a \<in> set vals then map_option (add_power (vc_MinStake (vs_config vs)) (lookup0 (sl_delegated sl) a)) (vs_validators ?r a)
       else vs_validators ?r a) \<and> vs_config (foldl ?f ?r vals) = vs_config vs" for a
    using r iterationD(1) [OF assms(2)]
    by (intro foldl_own_key [where g = "\<lambda>k. map_option (add_power (vc_MinStake (vs_config vs)) (lookup0 (sl_delegated sl) k))"] st) simp_all
  have none: "lookup0 (sl_delegated sl) a \<le> 0" if "a \<notin> set vals"
    using that iterationD(2) [OF assms(2)] by (auto simp: lookup0_def less_eq_float64_def zero_float64_def)
  have dom: "a \<notin> set addrs \<Longrightarrow> vs_validators vs a = None" using iterationD(2) [OF assms(1)] by auto
  have bonus: "SyncValidatorStakesFromCommittedTip vs addrs counts sl vals = foldl ?f ?r vals"
    by (simp add: SyncValidatorStakesFromCommittedTip_def SyncValidatorStakesFromCommittedChain_def applyStakingDelegationWeights_def
        DefaultProducerBlockStakeBonus_def less_eq_float64_def zero_float64_def)
  show ?thesis
    unfolding bonus using p [of a] r [of a] none dom
    by (auto simp: DelegatedPower_def add_power_def option.map_comp comp_def)
qed

text \<open>
  C24. Voting power is a function of locked stake and delegations alone. After the recomputation at a
  committed tip, whatever order the maps were ranged over in and whatever the voting power was before,
  an exited validator is as it was, and any other validator votes with its own locked stake plus the
  power delegated to it, raised to the minimum stake if there is a delegation; produced blocks and
  liquid balances do not count. Running it again changes nothing.
\<close>

theorem voting_power_from_stake:
  assumes "iteration (vs_validators vs) addrs" and "iteration (sl_delegated sl) vals"
  shows "vs_validators (SyncValidatorStakesFromCommittedTip vs addrs counts sl vals) a =
      map_option (\<lambda>v. add_power (vc_MinStake (vs_config vs)) (DelegatedPower sl a) (reset_power v)) (vs_validators vs a)
    \<and> (iteration (vs_validators vs) addrs' \<and> iteration (sl_delegated sl) vals' \<longrightarrow>
      vs_validators (SyncValidatorStakesFromCommittedTip (SyncValidatorStakesFromCommittedTip vs addrs counts sl vals) addrs' counts' sl vals') =
      vs_validators (SyncValidatorStakesFromCommittedTip vs addrs counts sl vals))"
proof (intro conjI impI)
  note main = sync_tip_closed_form
  show "vs_validators (SyncValidatorStakesFromCommittedTip vs addrs counts sl vals) a =
      map_option (\<lambda>v. add_power (vc_MinStake (vs_config vs)) (DelegatedPower sl a) (reset_power v)) (vs_validators vs a)"
    using main [OF assms] by simp
  let ?v = "SyncValidatorStakesFromCommittedTip vs addrs counts sl vals"
  assume o: "iteration (vs_validators vs) addrs' \<and> iteration (sl_delegated sl) vals'"
  have "dom (vs_validators ?v) = dom (vs_validators vs)" using main [OF assms, of counts] by (auto simp: dom_def)
  then have o': "iteration (vs_validators ?v) addrs'" using o by (simp add: iteration_def)
  have idem: "add_power mn pow (reset_power (add_power mn pow (reset_power v))) = add_power mn pow (reset_power v)" for mn pow v
    by (simp add: add_power_def reset_power_def)
  show "vs_validators (SyncValidatorStakesFromCommittedTip ?v addrs' counts' sl vals') = vs_validators ?v"
  proof
    fix b
    show "vs_validators (SyncValidatorStakesFromCommittedTip ?v addrs' counts' sl vals') b = vs_validators ?v b"
      using main [OF o' conjunct2 [OF o], of counts' b] main [OF assms, of counts b] by (simp add: option.map_comp comp_def idem)
  qed
qed

definition demo_validator :: "string \<Rightarrow> rat \<Rightarrow> Validator" where
  "demo_validator a q =
     \<lparr>v_Address = a, v_SelfStake = Fin q, v_Stake = Fin q, v_Status = ValidatorActive, v_RegisteredAt = 0, v_JailedUntil = 0,
      v_SlashCount = 0, v_TotalSlashed = 0, v_BlocksProduced = 0, v_LastBlockAt = 0\<rparr>"

definition demo_set :: ValidatorSet where
  "demo_set = put_validator (put_validator (NewValidatorSet DefaultValidatorSetConfig) ''v'' ((demo_validator ''v'' 100)\<lparr>v_Stake := Fin 7\<rparr>))
     ''w'' (demo_validator ''w'' 200)"

theorem voting_power_from_stake_witness:
  "map_option v_Stake (vs_validators (SyncValidatorStakesFromCommittedTip demo_set [''v'', ''w''] (\<lambda>_. 3)
     (NewStakingLedger\<lparr>sl_delegated := [''v'' \<mapsto> Fin 50]\<rparr>) [''v'']) ''v'') = Some (Fin 150)"
proof -
  let ?sl = "NewStakingLedger\<lparr>sl_delegated := [''v'' \<mapsto> Fin 50]\<rparr>"
  have o: "iteration (vs_validators demo_set) [''v'', ''w'']" "iteration (sl_delegated ?sl) [''v'']"
    by (auto simp: iteration_def demo_set_def NewValidatorSet_def)
  have "vs_validators demo_set ''v'' = Some ((demo_validator ''v'' 100)\<lparr>v_Stake := Fin 7\<rparr>)" by (simp add: demo_set_def)
  with voting_power_from_stake [OF o, of "\<lambda>_. 3" "''v''"] show ?thesis
    by (simp add: reset_power_def add_power_def DelegatedPower_def lookup0_def NewStakingLedger_def demo_validator_def
        demo_set_def NewValidatorSet_def DefaultValidatorSetConfig_def less_eq_float64_def zero_float64_def)
qed

section \<open>Unbonding\<close>

text \<open>Each matured entry is credited once, in the order of the queue; the others stay.\<close>

lemma unbond_paid_once:
  assumes "ProcessCommittedHeight oob fork (s, as) h = (s', as')"
  shows "sl_unbond s' = filter (\<lambda>e. h < ub_MatureAt e) (sl_unbond s)"
    and "as' = foldl (\<lambda>as e. Credit oob fork as (ub_Delegator e) (ub_Amount e)) as (filter (\<lambda>e. ub_MatureAt e \<le> h) (sl_unbond s))"
    and "sl_delegated s' = sl_delegated s \<and> sl_delegatorIndex s' = sl_delegatorIndex s"
    and "ProcessCommittedHeight oob fork (s', as') h = (s', as')"
proof -
  have skip: "foldl (\<lambda>as e. if ub_MatureAt e \<le> h then Credit oob fork as (ub_Delegator e) (ub_Amount e) else as) as es =
      foldl (\<lambda>as e. Credit oob fork as (ub_Delegator e) (ub_Amount e)) as (filter (\<lambda>e. ub_MatureAt e \<le> h) es)" for es as
    by (induction es arbitrary: as) auto
  from assms show q: "sl_unbond s' = filter (\<lambda>e. h < ub_MatureAt e) (sl_unbond s)"
    and "as' = foldl (\<lambda>as e. Credit oob fork as (ub_Delegator e) (ub_Amount e)) as (filter (\<lambda>e. ub_MatureAt e \<le> h) (sl_unbond s))"
    and "sl_delegated s' = sl_delegated s \<and> sl_delegatorIndex s' = sl_delegatorIndex s"
    by (auto simp: ProcessCommittedHeight_def skip not_le)
  show "ProcessCommittedHeight oob fork (s', as') h = (s', as')"
    unfolding ProcessCommittedHeight_def prod.case Let_def skip q by (simp add: q not_le)
qed

text \<open>A delegation that is refused changes neither the ledger nor the accounts.\<close>

lemma delegate_error_same: "Delegate (s, as) d v x = (w', Some e) \<Longrightarrow> w' = (s, as)"
  by (auto simp: Delegate_def Debit_def Let_def split: if_splits option.splits prod.splits)

end
