(* ===== verification/Consensus.thy ===== *)
theory Consensus
  imports Validators Go_Strings
begin

text \<open>
  Block voting: \<open>pkg/chain/consensus.go\<close> and \<open>consensus_certificate.go\<close>. One height is voted on in
  numbered rounds; a proposal opens a round, prevotes with two thirds of the stake lock a hash,
  precommits with two thirds of the stake commit it, a timeout retires the round.

  Every operation is sequential (the code holds one lock). The clock is \<open>now\<close>; \<open>ks\<close> is the order in
  which the validator map is ranged over and \<open>hs\<close> the order of the map from hashes to stake. Rounds in
  the maps are values: a committed round leaves \<open>rounds\<close> and is not written again. Maps that are
  ranged over to be sorted or to delete every expired entry take the list of keys.
\<close>

section \<open>Data\<close>

type_synonym u32 = "32 word"

datatype VoteType = VotePreVote | VotePreCommit

datatype ConsensusStatus = StatusProposed | StatusPreVoted | StatusCommitted | StatusFailed

record BlockVote =
  bv_Validator :: string
  bv_BlockHash :: string
  bv_Height :: u64
  bv_Round :: u32
  bv_Type :: VoteType
  bv_Timestamp :: int

record ConsensusRound =
  cr_Height :: u64
  cr_Round :: u32
  cr_Proposer :: string
  cr_BlockHash :: string
  cr_LockedBlockHash :: string
  cr_Status :: ConsensusStatus
  cr_PreVotes :: "BlockVote list"
  cr_Commits :: "BlockVote list"
  cr_StartTime :: int
  cr_EndTime :: int
  cr_Deadline :: int

record ConsensusConfig =
  cc_QuorumFraction :: float64
  cc_RoundTimeout :: int
  cc_MaxRounds :: u32

record BFTConsensus =
  bc_validators :: ValidatorSet
  bc_cfg :: ConsensusConfig
  bc_rounds :: "u64 \<rightharpoonup> ConsensusRound"
  bc_committed :: "u64 \<rightharpoonup> ConsensusRound"
  bc_nextRound :: "u64 \<rightharpoonup> u32"
  bc_carryPrevoteLock :: "u64 \<rightharpoonup> string"

datatype bft_error =
    AlreadyCommitted u64
  | RoundBehind u32 u32
  | ProposerEquivocation u64 u32 string string string
  | DuplicatePropose u64 u32
  | RoundStillActive u32 u32
  | BFTRoundRetired u32 u32
  | NoValidators
  | ProposerMismatch string string
  | ProposerNotActive string
  | NoActiveRound u64
  | WrongStatus ConsensusStatus
  | ValidatorNotActive string
  | AlreadyVoted string
  | LatePrecommit string string
  | NeedsPrevoteQuorum ConsensusStatus
  | LockMismatch string string
  | NoCommittedRound u64
  | NoRound u64
  | NoPrevoteLock u64

definition NilVoteHash :: string where "NilVoteHash = ''<nil>''"

definition two_thirds :: float64 where "two_thirds = rnd (2 / 3)"

definition DefaultConsensusConfig :: ConsensusConfig where
  "DefaultConsensusConfig = \<lparr>cc_QuorumFraction = two_thirds, cc_RoundTimeout = 30 * 1000000000, cc_MaxRounds = 5\<rparr>"

definition NewBFTConsensus :: "ValidatorSet \<Rightarrow> ConsensusConfig \<Rightarrow> BFTConsensus" where
  "NewBFTConsensus vs cfg =
     \<lparr>bc_validators = vs,
      bc_cfg = (if cc_QuorumFraction cfg \<le> 0 \<or> 1 < cc_QuorumFraction cfg then cfg\<lparr>cc_QuorumFraction := two_thirds\<rparr> else cfg),
      bc_rounds = Map.empty, bc_committed = Map.empty, bc_nextRound = Map.empty, bc_carryPrevoteLock = Map.empty\<rparr>"

section \<open>Proposers\<close>

definition proposer_before :: "Validator \<Rightarrow> Validator \<Rightarrow> bool" where
  "proposer_before a b \<longleftrightarrow>
     (if \<not> feq (v_Stake a) (v_Stake b) then v_Stake b < v_Stake a else v_Address a < v_Address b)"

definition proposer_order :: "int \<Rightarrow> ValidatorSet \<Rightarrow> string list \<Rightarrow> Validator list" where
  "proposer_order now vs ks = sort_slice proposer_before (ActiveValidators now vs ks)"

definition proposerForRoundLocked ::
  "int \<Rightarrow> string list \<Rightarrow> BFTConsensus \<Rightarrow> u32 \<Rightarrow> bft_error + string" where
  "proposerForRoundLocked now ks bc rnum =
     (let active = proposer_order now (bc_validators bc) ks
      in if active = [] then Inl NoValidators else Inr (v_Address (active ! (unat rnum mod length active))))"

definition ProposerForRound :: "int \<Rightarrow> string list \<Rightarrow> BFTConsensus \<Rightarrow> u32 \<Rightarrow> bft_error + string" where
  "ProposerForRound now ks bc rnum = proposerForRoundLocked now ks bc rnum"

definition is_active :: "ValidatorSet \<Rightarrow> string \<Rightarrow> bool" where
  "is_active vs a \<longleftrightarrow> (case GetValidator vs a of None \<Rightarrow> False | Some v \<Rightarrow> v_Status v = ValidatorActive)"

definition new_round :: "int \<Rightarrow> BFTConsensus \<Rightarrow> u64 \<Rightarrow> u32 \<Rightarrow> string \<Rightarrow> string \<Rightarrow> ConsensusRound" where
  "new_round now bc height rnum proposer blockHash =
     \<lparr>cr_Height = height, cr_Round = rnum, cr_Proposer = proposer, cr_BlockHash = blockHash,
      cr_LockedBlockHash =
        (if 0 < rnum then (case bc_carryPrevoteLock bc height of None \<Rightarrow> [] | Some lock \<Rightarrow> lock) else []),
      cr_Status = StatusProposed, cr_PreVotes = [], cr_Commits = [], cr_StartTime = now, cr_EndTime = 0,
      cr_Deadline = now + (if cc_RoundTimeout (bc_cfg bc) \<le> 0 then 30 * 1000000000 else cc_RoundTimeout (bc_cfg bc))\<rparr>"

definition open_round ::
  "int \<Rightarrow> string list \<Rightarrow> BFTConsensus \<Rightarrow> u64 \<Rightarrow> u32 \<Rightarrow> string \<Rightarrow> string \<Rightarrow> BFTConsensus \<times> (bft_error + ConsensusRound)" where
  "open_round now ks bc height rnum proposer blockHash =
     (case proposerForRoundLocked now ks bc rnum of
        Inl e \<Rightarrow> (bc, Inl e)
      | Inr expected \<Rightarrow>
          if proposer \<noteq> expected then (bc, Inl (ProposerMismatch expected proposer))
          else if \<not> is_active (bc_validators bc) proposer then (bc, Inl (ProposerNotActive proposer))
          else (let cr = new_round now bc height rnum proposer blockHash
                in (bc\<lparr>bc_rounds := (bc_rounds bc)(height \<mapsto> cr)\<rparr>, Inr cr)))"

definition Propose ::
  "int \<Rightarrow> string list \<Rightarrow> BFTConsensus \<Rightarrow> u64 \<Rightarrow> u32 \<Rightarrow> string \<Rightarrow> string \<Rightarrow> BFTConsensus \<times> (bft_error + ConsensusRound)" where
  "Propose now ks bc height rnum proposer blockHash =
     (if bc_committed bc height \<noteq> None then (bc, Inl (AlreadyCommitted height))
      else (case bc_rounds bc height of
          Some existing \<Rightarrow>
            if rnum < cr_Round existing then (bc, Inl (RoundBehind rnum (cr_Round existing)))
            else if rnum = cr_Round existing
            then (if proposer = cr_Proposer existing \<and> blockHash = cr_BlockHash existing then (bc, Inr existing)
                  else if proposer = cr_Proposer existing
                  then (bc, Inl (ProposerEquivocation height rnum proposer (cr_BlockHash existing) blockHash))
                  else (bc, Inl (DuplicatePropose height rnum)))
            else (bc, Inl (RoundStillActive (cr_Round existing) rnum))
        | None \<Rightarrow>
            (case bc_nextRound bc height of
               Some nxt \<Rightarrow> if rnum < nxt then (bc, Inl (BFTRoundRetired rnum nxt)) else open_round now ks bc height rnum proposer blockHash
             | None \<Rightarrow> open_round now ks bc height rnum proposer blockHash)))"

section \<open>Stake behind votes\<close>

definition total_stake :: "Validator list \<Rightarrow> float64" where
  "total_stake active = foldl (\<lambda>x v. x + v_Stake v) 0 active"

definition stakeMap :: "Validator list \<Rightarrow> (string \<rightharpoonup> float64)" where
  "stakeMap active = foldl (\<lambda>m v. m(v_Address v \<mapsto> v_Stake v)) Map.empty active"

definition voted_stake :: "(string \<rightharpoonup> float64) \<Rightarrow> BlockVote list \<Rightarrow> string \<Rightarrow> float64" where
  "voted_stake sm votes blockHash =
     foldl (\<lambda>x vote. if bv_BlockHash vote = blockHash then x + lookup0 sm (bv_Validator vote) else x) 0 votes"

definition hasQuorum :: "int \<Rightarrow> string list \<Rightarrow> BFTConsensus \<Rightarrow> BlockVote list \<Rightarrow> string \<Rightarrow> bool" where
  "hasQuorum now ks bc votes blockHash =
     (let active = ActiveValidators now (bc_validators bc) ks
      in active \<noteq> [] \<and>
         total_stake active * cc_QuorumFraction (bc_cfg bc) \<le> voted_stake (stakeMap active) votes blockHash)"

definition per_hash :: "(string \<rightharpoonup> float64) \<Rightarrow> BlockVote list \<Rightarrow> (string \<rightharpoonup> float64)" where
  "per_hash sm votes =
     foldl (\<lambda>m vote. m(bv_BlockHash vote \<mapsto> lookup0 m (bv_BlockHash vote) + lookup0 sm (bv_Validator vote))) Map.empty votes"

text \<open>The last loop: the greatest stake, then the smallest hash.\<close>

definition better_candidate :: "(string \<rightharpoonup> float64) \<Rightarrow> string \<Rightarrow> string \<Rightarrow> string" where
  "better_candidate m best h =
     (if lookup0 m best < lookup0 m h \<or> (feq (lookup0 m h) (lookup0 m best) \<and> h < best) then h else best)"

definition best_candidate :: "(string \<rightharpoonup> float64) \<Rightarrow> string list \<Rightarrow> string" where
  "best_candidate m candidates = foldl (better_candidate m) (hd candidates) (tl candidates)"

definition pickLockedPrevoteHash ::
  "int \<Rightarrow> string list \<Rightarrow> string list \<Rightarrow> BFTConsensus \<Rightarrow> ConsensusRound \<Rightarrow> string option" where
  "pickLockedPrevoteHash now ks hs bc cr =
     (let active = ActiveValidators now (bc_validators bc) ks;
          totalStake = total_stake active;
          perHash = per_hash (stakeMap active) (cr_PreVotes cr);
          threshold = totalStake * cc_QuorumFraction (bc_cfg bc);
          candidates = filter (\<lambda>h. threshold \<le> lookup0 perHash h) hs
      in if active = [] \<or> totalStake \<le> 0 then None
         else if threshold \<le> lookup0 perHash NilVoteHash \<and> lookup0 perHash (cr_BlockHash cr) < lookup0 perHash NilVoteHash
         then Some NilVoteHash
         else if candidates = [] then None
         else if cr_BlockHash cr \<in> set candidates then Some (cr_BlockHash cr)
         else Some (best_candidate perHash candidates))"

definition validatePreCommitAgainstLock :: "ConsensusRound \<Rightarrow> string \<Rightarrow> bft_error option" where
  "validatePreCommitAgainstLock cr blockHash =
     (if cr_LockedBlockHash cr = [] then None
      else if blockHash = NilVoteHash then None
      else if blockHash \<noteq> cr_LockedBlockHash cr then Some (LockMismatch blockHash (cr_LockedBlockHash cr))
      else None)"

section \<open>Voting\<close>

definition vote_of :: "int \<Rightarrow> ConsensusRound \<Rightarrow> u64 \<Rightarrow> string \<Rightarrow> string \<Rightarrow> VoteType \<Rightarrow> BlockVote" where
  "vote_of now cr height validator blockHash ty =
     \<lparr>bv_Validator = validator, bv_BlockHash = blockHash, bv_Height = height, bv_Round = cr_Round cr, bv_Type = ty, bv_Timestamp = now\<rparr>"

definition PreVote ::
  "int \<Rightarrow> string list \<Rightarrow> string list \<Rightarrow> BFTConsensus \<Rightarrow> u64 \<Rightarrow> string \<Rightarrow> string \<Rightarrow> BFTConsensus \<times> bft_error option" where
  "PreVote now ks hs bc height validator blockHash =
     (case bc_rounds bc height of
        None \<Rightarrow> (bc, Some (NoActiveRound height))
      | Some cr \<Rightarrow>
          if cr_Status cr \<noteq> StatusProposed \<and> cr_Status cr \<noteq> StatusPreVoted then (bc, Some (WrongStatus (cr_Status cr)))
          else if \<not> is_active (bc_validators bc) validator then (bc, Some (ValidatorNotActive validator))
          else if list_ex (\<lambda>vote. bv_Validator vote = validator) (cr_PreVotes cr) then (bc, Some (AlreadyVoted validator))
          else (let cr1 = cr\<lparr>cr_PreVotes := cr_PreVotes cr @ [vote_of now cr height validator blockHash VotePreVote]\<rparr>
                in case pickLockedPrevoteHash now ks hs bc cr1 of
                     None \<Rightarrow> (bc\<lparr>bc_rounds := (bc_rounds bc)(height \<mapsto> cr1)\<rparr>, None)
                   | Some locked \<Rightarrow>
                       (bc\<lparr>bc_rounds := (bc_rounds bc)(height \<mapsto> cr1\<lparr>cr_LockedBlockHash := locked, cr_Status := StatusPreVoted\<rparr>),
                           bc_carryPrevoteLock := (if locked = NilVoteHash then (bc_carryPrevoteLock bc)(height := None)
                                                   else bc_carryPrevoteLock bc)\<rparr>, None)))"

definition PreCommit ::
  "int \<Rightarrow> string list \<Rightarrow> BFTConsensus \<Rightarrow> u64 \<Rightarrow> string \<Rightarrow> string \<Rightarrow> BFTConsensus \<times> bft_error option" where
  "PreCommit now ks bc height validator blockHash =
     (case bc_rounds bc height of
        None \<Rightarrow>
          (case bc_committed bc height of
             Some d \<Rightarrow> (bc, if blockHash \<noteq> cr_BlockHash d then Some (LatePrecommit blockHash (cr_BlockHash d)) else None)
           | None \<Rightarrow> (bc, Some (NoActiveRound height)))
      | Some cr \<Rightarrow>
          if cr_Status cr \<noteq> StatusPreVoted then (bc, Some (NeedsPrevoteQuorum (cr_Status cr)))
          else (case validatePreCommitAgainstLock cr blockHash of
              Some e \<Rightarrow> (bc, Some e)
            | None \<Rightarrow>
                if \<not> is_active (bc_validators bc) validator then (bc, Some (ValidatorNotActive validator))
                else if list_ex (\<lambda>vote. bv_Validator vote = validator) (cr_Commits cr) then (bc, Some (AlreadyVoted validator))
                else (let cr1 = cr\<lparr>cr_Commits := cr_Commits cr @ [vote_of now cr height validator blockHash VotePreCommit]\<rparr>
                      in if hasQuorum now ks bc (cr_Commits cr1) (cr_BlockHash cr1)
                         then (bc\<lparr>bc_committed := (bc_committed bc)(height \<mapsto> cr1\<lparr>cr_Status := StatusCommitted, cr_EndTime := now\<rparr>),
                                  bc_rounds := (bc_rounds bc)(height := None),
                                  bc_nextRound := (bc_nextRound bc)(height := None),
                                  bc_carryPrevoteLock := (bc_carryPrevoteLock bc)(height := None)\<rparr>, None)
                         else (bc\<lparr>bc_rounds := (bc_rounds bc)(height \<mapsto> cr1)\<rparr>, None))))"

definition PreVoteNil where
  "PreVoteNil now ks hs bc height validator = PreVote now ks hs bc height validator NilVoteHash"

definition PreCommitNil where
  "PreCommitNil now ks bc height validator = PreCommit now ks bc height validator NilVoteHash"

section \<open>Retiring rounds\<close>

definition retire :: "BFTConsensus \<Rightarrow> u64 \<Rightarrow> ConsensusRound \<Rightarrow> BFTConsensus" where
  "retire bc height cr =
     bc\<lparr>bc_carryPrevoteLock := (if cr_LockedBlockHash cr \<noteq> [] then (bc_carryPrevoteLock bc)(height \<mapsto> cr_LockedBlockHash cr)
                                else bc_carryPrevoteLock bc),
        bc_rounds := (bc_rounds bc)(height := None),
        bc_nextRound := (bc_nextRound bc)(height \<mapsto> cr_Round cr + 1)\<rparr>"

definition FailRound :: "BFTConsensus \<Rightarrow> u64 \<Rightarrow> BFTConsensus \<times> bft_error option" where
  "FailRound bc height =
     (case bc_rounds bc height of
        None \<Rightarrow> (bc, Some (NoActiveRound height))
      | Some cr \<Rightarrow> (retire bc height cr, None))"

fun TickRoundTimeouts :: "int \<Rightarrow> BFTConsensus \<Rightarrow> u64 list \<Rightarrow> BFTConsensus \<times> u64 list" where
  "TickRoundTimeouts now bc [] = (bc, [])"
| "TickRoundTimeouts now bc (height # heights) =
     (case bc_rounds bc height of
        None \<Rightarrow> TickRoundTimeouts now bc heights
      | Some cr \<Rightarrow>
          if cr_Deadline cr = 0 \<or> now < cr_Deadline cr then TickRoundTimeouts now bc heights
          else (let (bc', timedOut) = TickRoundTimeouts now (retire bc height cr) heights in (bc', height # timedOut)))"

definition NextRoundAfterTimeout :: "BFTConsensus \<Rightarrow> u64 \<Rightarrow> u32" where
  "NextRoundAfterTimeout bc height = (case bc_nextRound bc height of None \<Rightarrow> 0 | Some r \<Rightarrow> r)"

section \<open>Queries and certificates\<close>

definition IsCommitted :: "BFTConsensus \<Rightarrow> u64 \<Rightarrow> bool" where
  "IsCommitted bc height \<longleftrightarrow> bc_committed bc height \<noteq> None"

definition GetCommitted :: "BFTConsensus \<Rightarrow> u64 \<Rightarrow> ConsensusRound option" where
  "GetCommitted bc height = bc_committed bc height"

definition GetRound :: "BFTConsensus \<Rightarrow> u64 \<Rightarrow> ConsensusRound option" where
  "GetRound bc height = bc_rounds bc height"

definition CommittedHeights :: "u64 list \<Rightarrow> u64 list" where
  "CommittedHeights heights = sort heights"

record RoundCertificate =
  rc_Height :: u64
  rc_Round :: u32
  rc_Proposer :: string
  rc_BlockHash :: string
  rc_CommitDigest :: string
  rc_ValidatorSet :: "string list"
  rc_CommitCount :: nat
  rc_NilCommitCount :: nat

record PrevoteLockProof =
  pl_Height :: u64
  pl_Round :: u32
  pl_LockedBlockHash :: string
  pl_CarriedFromLock :: string
  pl_Prevotes :: "BlockVote list"

definition wire_before :: "string \<times> string \<Rightarrow> string \<times> string \<Rightarrow> bool" where
  "wire_before a b \<longleftrightarrow> (if fst a \<noteq> fst b then fst a < fst b else snd a < snd b)"

definition commit_wires :: "BlockVote list \<Rightarrow> (string \<times> string) list" where
  "commit_wires commits = sort_slice wire_before (map (\<lambda>c. (bv_Validator c, bv_BlockHash c)) commits)"

definition BuildRoundCertificate ::
  "((string \<times> string) list \<Rightarrow> string) \<Rightarrow> (string \<Rightarrow> string) \<Rightarrow> int \<Rightarrow> string list \<Rightarrow> BFTConsensus \<Rightarrow> u64 \<Rightarrow> bft_error + RoundCertificate" where
  "BuildRoundCertificate marshal sha256 now ks bc height =
     (case bc_committed bc height of
        None \<Rightarrow> Inl (NoCommittedRound height)
      | Some cr \<Rightarrow>
          Inr \<lparr>rc_Height = cr_Height cr, rc_Round = cr_Round cr, rc_Proposer = cr_Proposer cr, rc_BlockHash = cr_BlockHash cr,
               rc_CommitDigest = EncodeToString (sha256 (marshal (commit_wires (cr_Commits cr)))),
               rc_ValidatorSet = sort (map v_Address (ActiveValidators now (bc_validators bc) ks)),
               rc_CommitCount = length (cr_Commits cr),
               rc_NilCommitCount = length (filter (\<lambda>c. bv_BlockHash c = NilVoteHash) (cr_Commits cr))\<rparr>)"

definition BuildPrevoteLockProof :: "BFTConsensus \<Rightarrow> u64 \<Rightarrow> bft_error + PrevoteLockProof" where
  "BuildPrevoteLockProof bc height =
     (case (case bc_rounds bc height of None \<Rightarrow> bc_committed bc height | Some cr \<Rightarrow> Some cr) of
        None \<Rightarrow> Inl (NoRound height)
      | Some cr \<Rightarrow>
          if cr_LockedBlockHash cr = [] then Inl (NoPrevoteLock height)
          else Inr \<lparr>pl_Height = height, pl_Round = cr_Round cr, pl_LockedBlockHash = cr_LockedBlockHash cr,
                    pl_CarriedFromLock = (case bc_carryPrevoteLock bc height of None \<Rightarrow> [] | Some lock \<Rightarrow> lock),
                    pl_Prevotes = cr_PreVotes cr\<rparr>)"

section \<open>The engine as a state machine\<close>

text \<open>The operations with their inputs, and \<open>OpValidators\<close> for any change of the shared validator set.\<close>

datatype bft_op =
    OpPropose int "string list" u64 u32 string string
  | OpPreVote int "string list" "string list" u64 string string
  | OpPreCommit int "string list" u64 string string
  | OpFailRound u64
  | OpTick int "u64 list"
  | OpValidators ValidatorSet

fun run_bft :: "BFTConsensus \<Rightarrow> bft_op \<Rightarrow> BFTConsensus" where
  "run_bft bc (OpPropose now ks h r p b) = fst (Propose now ks bc h r p b)"
| "run_bft bc (OpPreVote now ks hs h v b) = fst (PreVote now ks hs bc h v b)"
| "run_bft bc (OpPreCommit now ks h v b) = fst (PreCommit now ks bc h v b)"
| "run_bft bc (OpFailRound h) = fst (FailRound bc h)"
| "run_bft bc (OpTick now hs) = fst (TickRoundTimeouts now bc hs)"
| "run_bft bc (OpValidators vs) = bc\<lparr>bc_validators := vs\<rparr>"

definition votes_ok :: "u64 \<Rightarrow> u32 \<Rightarrow> VoteType \<Rightarrow> BlockVote list \<Rightarrow> bool" where
  "votes_ok h r ty votes \<longleftrightarrow>
     distinct (map bv_Validator votes) \<and>
     list_all (\<lambda>v. bv_Height v = h \<and> bv_Round v = r \<and> bv_Type v = ty) votes"

definition round_ok :: "u64 \<Rightarrow> ConsensusRound \<Rightarrow> bool" where
  "round_ok h cr \<longleftrightarrow> cr_Height cr = h \<and> votes_ok h (cr_Round cr) VotePreVote (cr_PreVotes cr) \<and> votes_ok h (cr_Round cr) VotePreCommit (cr_Commits cr)"

definition height_ok :: "BFTConsensus \<Rightarrow> u64 \<Rightarrow> bool" where
  "height_ok bc h \<longleftrightarrow>
     (case bc_rounds bc h of
        Some cr \<Rightarrow> round_ok h cr \<and> bc_committed bc h = None \<and>
          (cr_Status cr = StatusProposed \<and> cr_Commits cr = [] \<or> cr_Status cr = StatusPreVoted) \<and>
          (case bc_nextRound bc h of None \<Rightarrow> True | Some n \<Rightarrow> n \<le> cr_Round cr)
      | None \<Rightarrow>
          (case bc_committed bc h of
             Some cr \<Rightarrow> round_ok h cr \<and> cr_Status cr = StatusCommitted \<and> cr_Commits cr \<noteq> [] \<and>
               bc_nextRound bc h = None \<and> bc_carryPrevoteLock bc h = None
           | None \<Rightarrow> True))"

definition bft_inv :: "BFTConsensus \<Rightarrow> bool" where
  "bft_inv bc \<longleftrightarrow> (\<forall>h. height_ok bc h)"

text \<open>An operation on one height leaves the maps alone everywhere else.\<close>

definition same_elsewhere :: "u64 \<Rightarrow> BFTConsensus \<Rightarrow> BFTConsensus \<Rightarrow> bool" where
  "same_elsewhere h bc bc' \<longleftrightarrow> (\<forall>k. k \<noteq> h \<longrightarrow>
     bc_rounds bc' k = bc_rounds bc k \<and> bc_committed bc' k = bc_committed bc k \<and>
     bc_nextRound bc' k = bc_nextRound bc k \<and> bc_carryPrevoteLock bc' k = bc_carryPrevoteLock bc k)"

lemma height_ok_elsewhere: "same_elsewhere h bc bc' \<Longrightarrow> k \<noteq> h \<Longrightarrow> height_ok bc' k = height_ok bc k"
proof -
  assume *: "same_elsewhere h bc bc'" "k \<noteq> h"
  then have "bc_rounds bc' k = bc_rounds bc k" "bc_committed bc' k = bc_committed bc k"
    "bc_nextRound bc' k = bc_nextRound bc k" "bc_carryPrevoteLock bc' k = bc_carryPrevoteLock bc k"
    by (auto simp: same_elsewhere_def)
  then show ?thesis unfolding height_ok_def by (simp only:)
qed

lemma bft_invI:
  assumes "bft_inv bc" and "same_elsewhere h bc bc'" and "height_ok bc' h"
  shows "bft_inv bc'"
  using assms height_ok_elsewhere unfolding bft_inv_def by metis

lemma Propose_cases:
  obtains (same) e where "Propose now ks bc h r p b = (bc, e)"
  | (opened) "bc_committed bc h = None" "bc_rounds bc h = None" "\<And>n. bc_nextRound bc h = Some n \<Longrightarrow> n \<le> r"
      "proposerForRoundLocked now ks bc r = Inr p" "is_active (bc_validators bc) p"
      "Propose now ks bc h r p b = (bc\<lparr>bc_rounds := (bc_rounds bc)(h \<mapsto> new_round now bc h r p b)\<rparr>, Inr (new_round now bc h r p b))"
proof (cases "bc_committed bc h = None \<and> bc_rounds bc h = None \<and> (\<forall>n. bc_nextRound bc h = Some n \<longrightarrow> n \<le> r) \<and>
    proposerForRoundLocked now ks bc r = Inr p \<and> is_active (bc_validators bc) p")
  case True
  then have "Propose now ks bc h r p b =
      (bc\<lparr>bc_rounds := (bc_rounds bc)(h \<mapsto> new_round now bc h r p b)\<rparr>, Inr (new_round now bc h r p b))"
    by (auto simp: Propose_def open_round_def Let_def split: option.split)
  with True opened show ?thesis by blast
next
  case False
  have "fst (Propose now ks bc h r p b) = bc"
    using False by (auto simp: Propose_def open_round_def Let_def not_less split: option.split sum.split)
  then show ?thesis using same by (metis prod.collapse)
qed

lemma PreVote_cases:
  obtains (same) e where "PreVote now ks hs bc h v b = (bc, Some e)"
  | (unlocked) cr where "bc_rounds bc h = Some cr" "v \<notin> bv_Validator ` set (cr_PreVotes cr)" "is_active (bc_validators bc) v"
      "PreVote now ks hs bc h v b = (bc\<lparr>bc_rounds := (bc_rounds bc)(h \<mapsto>
         cr\<lparr>cr_PreVotes := cr_PreVotes cr @ [vote_of now cr h v b VotePreVote]\<rparr>)\<rparr>, None)"
  | (locked) cr l c where "bc_rounds bc h = Some cr" "v \<notin> bv_Validator ` set (cr_PreVotes cr)" "is_active (bc_validators bc) v"
      "\<And>k. k \<noteq> h \<Longrightarrow> c k = bc_carryPrevoteLock bc k"
      "PreVote now ks hs bc h v b = (bc\<lparr>bc_rounds := (bc_rounds bc)(h \<mapsto>
         cr\<lparr>cr_PreVotes := cr_PreVotes cr @ [vote_of now cr h v b VotePreVote], cr_LockedBlockHash := l, cr_Status := StatusPreVoted\<rparr>),
         bc_carryPrevoteLock := c\<rparr>, None)"
proof (cases "bc_rounds bc h")
  case None
  then show ?thesis using same by (simp add: PreVote_def)
next
  case (Some cr)
  note cr = Some
  let ?cr1 = "cr\<lparr>cr_PreVotes := cr_PreVotes cr @ [vote_of now cr h v b VotePreVote]\<rparr>"
  show ?thesis
  proof (cases "(cr_Status cr = StatusProposed \<or> cr_Status cr = StatusPreVoted) \<and> is_active (bc_validators bc) v \<and>
      \<not> list_ex (\<lambda>vote. bv_Validator vote = v) (cr_PreVotes cr)")
    case False
    with cr have "\<exists>e. PreVote now ks hs bc h v b = (bc, Some e)" by (auto simp: PreVote_def)
    then show ?thesis using same by blast
  next
    case True
    then have ok: "v \<notin> bv_Validator ` set (cr_PreVotes cr)" "is_active (bc_validators bc) v" by (auto simp: list_ex_iff)
    show ?thesis
    proof (cases "pickLockedPrevoteHash now ks hs bc ?cr1")
      case None
      then show ?thesis using unlocked [OF cr ok] True cr by (auto simp: PreVote_def Let_def)
    next
      case (Some l)
      then show ?thesis
        using locked [OF cr ok, of "if l = NilVoteHash then (bc_carryPrevoteLock bc)(h := None) else bc_carryPrevoteLock bc" l] True cr
        by (auto simp: PreVote_def Let_def)
    qed
  qed
qed

lemma PreCommit_cases:
  obtains (same) e where "PreCommit now ks bc h v b = (bc, e)"
  | (voted) cr where "bc_rounds bc h = Some cr" "cr_Status cr = StatusPreVoted" "v \<notin> bv_Validator ` set (cr_Commits cr)"
      "is_active (bc_validators bc) v" "validatePreCommitAgainstLock cr b = None"
      "PreCommit now ks bc h v b = (bc\<lparr>bc_rounds := (bc_rounds bc)(h \<mapsto>
         cr\<lparr>cr_Commits := cr_Commits cr @ [vote_of now cr h v b VotePreCommit]\<rparr>)\<rparr>, None)"
  | (committed) cr where "bc_rounds bc h = Some cr" "cr_Status cr = StatusPreVoted" "v \<notin> bv_Validator ` set (cr_Commits cr)"
      "is_active (bc_validators bc) v" "validatePreCommitAgainstLock cr b = None"
      "hasQuorum now ks bc (cr_Commits cr @ [vote_of now cr h v b VotePreCommit]) (cr_BlockHash cr)"
      "PreCommit now ks bc h v b =
         (bc\<lparr>bc_committed := (bc_committed bc)(h \<mapsto> cr\<lparr>cr_Commits := cr_Commits cr @ [vote_of now cr h v b VotePreCommit],
               cr_Status := StatusCommitted, cr_EndTime := now\<rparr>),
             bc_rounds := (bc_rounds bc)(h := None), bc_nextRound := (bc_nextRound bc)(h := None),
             bc_carryPrevoteLock := (bc_carryPrevoteLock bc)(h := None)\<rparr>, None)"
proof (cases "bc_rounds bc h")
  case None
  then show ?thesis using same by (cases "bc_committed bc h") (simp_all add: PreCommit_def)
next
  case (Some cr)
  note cr = Some
  show ?thesis
  proof (cases "cr_Status cr = StatusPreVoted \<and> validatePreCommitAgainstLock cr b = None \<and> is_active (bc_validators bc) v \<and>
      \<not> list_ex (\<lambda>vote. bv_Validator vote = v) (cr_Commits cr)")
    case False
    with cr have "\<exists>e. PreCommit now ks bc h v b = (bc, e)" by (auto simp: PreCommit_def split: option.splits)
    then show ?thesis using same by blast
  next
    case True
    then have ok: "v \<notin> bv_Validator ` set (cr_Commits cr)" by (auto simp: list_ex_iff)
    show ?thesis
      using voted [OF cr _ ok] committed [OF cr _ ok] True cr
      by (cases "hasQuorum now ks bc (cr_Commits cr @ [vote_of now cr h v b VotePreCommit]) (cr_BlockHash cr)")
        (simp_all add: PreCommit_def Let_def)
  qed
qed

lemma votes_ok_snoc:
  assumes "votes_ok h (cr_Round cr) ty votes" and "v \<notin> bv_Validator ` set votes"
  shows "votes_ok h (cr_Round cr) ty (votes @ [vote_of now cr h v b ty])"
  using assms by (auto simp: votes_ok_def vote_of_def)

lemma Propose_inv:
  assumes "bft_inv bc"
  shows "bft_inv (fst (Propose now ks bc h r p b))"
proof (cases rule: Propose_cases [of now ks bc h r p b])
  case same
  with assms show ?thesis by simp
next
  case opened
  show ?thesis
  proof (rule bft_invI [OF assms])
    show "same_elsewhere h bc (fst (Propose now ks bc h r p b))" by (simp add: opened(6) same_elsewhere_def)
    show "height_ok (fst (Propose now ks bc h r p b)) h"
      using opened(1,3) unfolding opened(6)
      by (auto simp: height_ok_def round_ok_def votes_ok_def new_round_def split: option.split)
  qed
qed

lemma PreVote_inv:
  assumes "bft_inv bc"
  shows "bft_inv (fst (PreVote now ks hs bc h v b))"
proof (cases rule: PreVote_cases [of now ks hs bc h v b])
  case same
  with assms show ?thesis by simp
next
  case (unlocked cr)
  have ok: "height_ok bc h" using assms by (simp add: bft_inv_def)
  show ?thesis
  proof (rule bft_invI [OF assms])
    show "same_elsewhere h bc (fst (PreVote now ks hs bc h v b))" by (simp add: unlocked(4) same_elsewhere_def)
    show "height_ok (fst (PreVote now ks hs bc h v b)) h"
      using ok unlocked(1) votes_ok_snoc [OF _ unlocked(2), of h cr VotePreVote now b] unfolding unlocked(4)
      by (auto simp: height_ok_def round_ok_def split: option.splits)
  qed
next
  case (locked cr l c)
  have ok: "height_ok bc h" using assms by (simp add: bft_inv_def)
  show ?thesis
  proof (rule bft_invI [OF assms])
    show "same_elsewhere h bc (fst (PreVote now ks hs bc h v b))" by (simp add: locked(4,5) same_elsewhere_def)
    show "height_ok (fst (PreVote now ks hs bc h v b)) h"
      using ok locked(1) votes_ok_snoc [OF _ locked(2), of h cr VotePreVote now b] unfolding locked(5)
      by (auto simp: height_ok_def round_ok_def split: option.splits)
  qed
qed

lemma PreCommit_inv:
  assumes "bft_inv bc"
  shows "bft_inv (fst (PreCommit now ks bc h v b))"
proof (cases rule: PreCommit_cases [of now ks bc h v b])
  case same
  with assms show ?thesis by simp
next
  case (voted cr)
  have ok: "height_ok bc h" using assms by (simp add: bft_inv_def)
  show ?thesis
  proof (rule bft_invI [OF assms])
    show "same_elsewhere h bc (fst (PreCommit now ks bc h v b))" by (simp add: voted(6) same_elsewhere_def)
    show "height_ok (fst (PreCommit now ks bc h v b)) h"
      using ok voted(1,2) votes_ok_snoc [OF _ voted(3), of h cr VotePreCommit now b] unfolding voted(6)
      by (auto simp: height_ok_def round_ok_def split: option.splits)
  qed
next
  case (committed cr)
  have ok: "height_ok bc h" using assms by (simp add: bft_inv_def)
  show ?thesis
  proof (rule bft_invI [OF assms])
    show "same_elsewhere h bc (fst (PreCommit now ks bc h v b))" by (simp add: committed(7) same_elsewhere_def)
    show "height_ok (fst (PreCommit now ks bc h v b)) h"
      using ok committed(1,2) votes_ok_snoc [OF _ committed(3), of h cr VotePreCommit now b] unfolding committed(7)
      by (auto simp: height_ok_def round_ok_def split: option.splits)
  qed
qed

lemma retire_inv:
  assumes "bft_inv bc" and "bc_rounds bc h = Some cr"
  shows "bft_inv (retire bc h cr)"
proof (rule bft_invI [OF assms(1)])
  show "same_elsewhere h bc (retire bc h cr)" by (simp add: retire_def same_elsewhere_def)
  have "height_ok bc h" using assms(1) by (simp add: bft_inv_def)
  then show "height_ok (retire bc h cr) h" using assms(2) by (simp add: retire_def height_ok_def)
qed

lemma Tick_inv: "bft_inv bc \<Longrightarrow> bft_inv (fst (TickRoundTimeouts now bc hs))"
  by (induction now bc hs rule: TickRoundTimeouts.induct)
    (auto split: option.split prod.split simp: retire_inv)

lemma run_bft_inv: "bft_inv bc \<Longrightarrow> bft_inv (run_bft bc op)"
proof (cases op)
  case (OpFailRound h)
  assume "bft_inv bc"
  with OpFailRound show ?thesis by (auto simp: FailRound_def retire_inv split: option.split)
next
  case (OpValidators vs)
  assume "bft_inv bc"
  moreover have "height_ok (bc\<lparr>bc_validators := vs\<rparr>) h = height_ok bc h" for h
    by (simp add: height_ok_def split: option.split)
  ultimately show ?thesis using OpValidators by (simp add: bft_inv_def)
qed (simp_all add: Propose_inv PreVote_inv PreCommit_inv Tick_inv)

lemma new_bft_inv: "bft_inv (NewBFTConsensus vs cfg)"
  by (simp add: bft_inv_def height_ok_def NewBFTConsensus_def)

lemma run_bfts_inv: "bft_inv bc \<Longrightarrow> bft_inv (foldl run_bft bc ops)"
  by (induction ops arbitrary: bc) (simp_all add: run_bft_inv)

text \<open>
  C9. In every state the engine can reach, whatever operations ran and however the validator set changed
  meanwhile, each round is well formed: no validator has two prevotes or two precommits in it, every
  vote carries its height, round and type, precommits exist only after a prevote quorum, an active
  round is not below the round number recorded by a timeout, and a height that is committed has no
  active round, no pending round number and no carried lock.
\<close>

theorem reachable_rounds_wellformed:
  "bft_inv (foldl run_bft (NewBFTConsensus vs cfg) ops)"
  by (rule run_bfts_inv [OF new_bft_inv])

section \<open>Commits\<close>

lemma Tick_committed [simp]: "bc_committed (fst (TickRoundTimeouts now bc hs)) = bc_committed bc"
  by (induction now bc hs rule: TickRoundTimeouts.induct) (auto simp: retire_def split: option.split prod.split)

lemma PreVote_frame: "bc_committed (fst (PreVote now ks hs bc h v b)) = bc_committed bc"
  "bc_nextRound (fst (PreVote now ks hs bc h v b)) = bc_nextRound bc"
  by (cases rule: PreVote_cases [of now ks hs bc h v b]; simp)+

lemma Propose_frame: "bc_committed (fst (Propose now ks bc h r p b)) = bc_committed bc"
  "bc_nextRound (fst (Propose now ks bc h r p b)) = bc_nextRound bc"
  by (cases rule: Propose_cases [of now ks bc h r p b]; simp)+

lemma commit_step:
  assumes "bc_committed (run_bft bc op) h \<noteq> bc_committed bc h"
  obtains now ks v b cr where "op = OpPreCommit now ks h v b" "bc_rounds bc h = Some cr" "cr_Status cr = StatusPreVoted"
    "v \<notin> bv_Validator ` set (cr_Commits cr)" "is_active (bc_validators bc) v" "validatePreCommitAgainstLock cr b = None"
    "hasQuorum now ks bc (cr_Commits cr @ [vote_of now cr h v b VotePreCommit]) (cr_BlockHash cr)"
    "bc_committed (run_bft bc op) h = Some (cr\<lparr>cr_Commits := cr_Commits cr @ [vote_of now cr h v b VotePreCommit],
       cr_Status := StatusCommitted, cr_EndTime := now\<rparr>)"
proof (cases op)
  case (OpPreCommit now ks k v b)
  show ?thesis
  proof (cases rule: PreCommit_cases [of now ks bc k v b])
    case same
    with assms OpPreCommit show ?thesis by simp
  next
    case (voted cr)
    with assms OpPreCommit show ?thesis by simp
  next
    case (committed cr)
    with assms OpPreCommit have k: "k = h" by (auto split: if_splits)
    show ?thesis using committed OpPreCommit by (intro that [of now ks v b cr]) (simp_all add: k)
  qed
qed (use assms in \<open>auto simp: Propose_frame PreVote_frame FailRound_def retire_def split: option.splits\<close>)

lemma committed_kept:
  assumes "bft_inv bc" and "bc_committed bc h = Some cr"
  shows "bc_committed (run_bft bc op) h = Some cr"
proof (rule ccontr)
  assume "bc_committed (run_bft bc op) h \<noteq> Some cr"
  with assms(2) have "bc_committed (run_bft bc op) h \<noteq> bc_committed bc h" by simp
  then obtain cr0 where "bc_rounds bc h = Some cr0" by (rule commit_step)
  moreover have "height_ok bc h" using assms(1) by (simp add: bft_inv_def)
  ultimately show False using assms(2) by (simp add: height_ok_def)
qed

lemma committed_kept_run:
  "bft_inv bc \<Longrightarrow> bc_committed bc h = Some cr \<Longrightarrow> bc_committed (foldl run_bft bc ops) h = Some cr"
  by (induction ops arbitrary: bc) (simp_all add: committed_kept run_bft_inv)

text \<open>
  C1. A height is committed only by a precommit that completes a quorum, and for ever. If an operation
  changes what is committed at a height, it is a precommit of an active validator that had not
  precommitted, in a round with a prevote quorum, for the locked hash or for nil if there is a lock,
  and then the precommits for the proposed hash, one per validator, reach the quorum of stake. What is
  committed never changes again, and no round is opened at that height again.
\<close>

theorem commit_needs_quorum_and_is_final:
  assumes "bc = foldl run_bft (NewBFTConsensus vs cfg) ops"
  shows "(bc_committed (run_bft bc op) h \<noteq> bc_committed bc h \<longrightarrow>
      (\<exists>now ks v b cr cr'. op = OpPreCommit now ks h v b \<and> bc_committed bc h = None \<and> bc_rounds bc h = Some cr \<and>
        cr_Status cr = StatusPreVoted \<and> is_active (bc_validators bc) v \<and>
        (cr_LockedBlockHash cr = [] \<or> b = NilVoteHash \<or> b = cr_LockedBlockHash cr) \<and>
        bc_committed (run_bft bc op) h = Some cr' \<and> cr_BlockHash cr' = cr_BlockHash cr \<and>
        hasQuorum now ks bc (cr_Commits cr') (cr_BlockHash cr) \<and> distinct (map bv_Validator (cr_Commits cr'))))
    \<and> (bc_committed bc h = Some cr \<longrightarrow> bc_committed (foldl run_bft bc ops') h = Some cr \<and>
      fst (Propose now ks (foldl run_bft bc ops') h r p b) = foldl run_bft bc ops' \<and>
      snd (Propose now ks (foldl run_bft bc ops') h r p b) = Inl (AlreadyCommitted h))"
proof (intro conjI impI)
  have inv: "bft_inv bc" unfolding assms by (rule run_bfts_inv [OF new_bft_inv])
  assume "bc_committed (run_bft bc op) h \<noteq> bc_committed bc h"
  then show "\<exists>now ks v b cr cr'. op = OpPreCommit now ks h v b \<and> bc_committed bc h = None \<and> bc_rounds bc h = Some cr \<and>
        cr_Status cr = StatusPreVoted \<and> is_active (bc_validators bc) v \<and>
        (cr_LockedBlockHash cr = [] \<or> b = NilVoteHash \<or> b = cr_LockedBlockHash cr) \<and>
        bc_committed (run_bft bc op) h = Some cr' \<and> cr_BlockHash cr' = cr_BlockHash cr \<and>
        hasQuorum now ks bc (cr_Commits cr') (cr_BlockHash cr) \<and> distinct (map bv_Validator (cr_Commits cr'))"
  proof (rule commit_step)
    fix now ks v b cr
    assume c: "op = OpPreCommit now ks h v b" "bc_rounds bc h = Some cr" "cr_Status cr = StatusPreVoted"
      "v \<notin> bv_Validator ` set (cr_Commits cr)" "is_active (bc_validators bc) v" "validatePreCommitAgainstLock cr b = None"
      "hasQuorum now ks bc (cr_Commits cr @ [vote_of now cr h v b VotePreCommit]) (cr_BlockHash cr)"
      "bc_committed (run_bft bc op) h = Some (cr\<lparr>cr_Commits := cr_Commits cr @ [vote_of now cr h v b VotePreCommit],
         cr_Status := StatusCommitted, cr_EndTime := now\<rparr>)"
    have "height_ok bc h" using inv by (simp add: bft_inv_def)
    with c(2) have "bc_committed bc h = None" "distinct (map bv_Validator (cr_Commits cr))"
      by (auto simp: height_ok_def round_ok_def votes_ok_def)
    moreover have "cr_LockedBlockHash cr = [] \<or> b = NilVoteHash \<or> b = cr_LockedBlockHash cr"
      using c(6) by (auto simp: validatePreCommitAgainstLock_def split: if_splits)
    ultimately show ?thesis using c by (auto simp: vote_of_def)
  qed
next
  assume "bc_committed bc h = Some cr"
  from committed_kept_run [OF run_bfts_inv [OF new_bft_inv] this [unfolded assms], of ops', folded assms]
  show "bc_committed (foldl run_bft bc ops') h = Some cr"
    and "fst (Propose now ks (foldl run_bft bc ops') h r p b) = foldl run_bft bc ops'"
    and "snd (Propose now ks (foldl run_bft bc ops') h r p b) = Inl (AlreadyCommitted h)"
    by (simp_all add: Propose_def)
qed

section \<open>Retired rounds\<close>

definition no_last_round :: "bft_op \<Rightarrow> bool" where
  "no_last_round op \<longleftrightarrow> (case op of OpPropose _ _ _ r _ _ \<Rightarrow> unat r + 1 < 2 ^ 32 | _ \<Rightarrow> True)"

definition rounds_below_last :: "BFTConsensus \<Rightarrow> bool" where
  "rounds_below_last bc \<longleftrightarrow> (\<forall>h cr. bc_rounds bc h = Some cr \<longrightarrow> unat (cr_Round cr) + 1 < 2 ^ 32)"

definition round_floor :: "BFTConsensus \<Rightarrow> u64 \<Rightarrow> u32 \<Rightarrow> bool" where
  "round_floor bc h n \<longleftrightarrow> bc_committed bc h \<noteq> None \<or> (\<exists>m. bc_nextRound bc h = Some m \<and> n \<le> m)"

lemma retire_below: "rounds_below_last bc \<Longrightarrow> rounds_below_last (retire bc k cr)"
  by (simp add: rounds_below_last_def retire_def)

lemma Tick_below: "rounds_below_last bc \<Longrightarrow> rounds_below_last (fst (TickRoundTimeouts now bc hs))"
  by (induction now bc hs rule: TickRoundTimeouts.induct) (auto simp: retire_below split: option.split prod.split)

lemma run_bft_below: "rounds_below_last bc \<Longrightarrow> no_last_round op \<Longrightarrow> rounds_below_last (run_bft bc op)"
proof (cases op)
  case (OpPropose now ks k r p b)
  assume "rounds_below_last bc" "no_last_round op"
  with OpPropose show ?thesis
    by (cases rule: Propose_cases [of now ks bc k r p b]) (auto simp: rounds_below_last_def no_last_round_def new_round_def)
next
  case (OpPreVote now ks hs k v b)
  assume "rounds_below_last bc"
  with OpPreVote show ?thesis by (cases rule: PreVote_cases [of now ks hs bc k v b]) (auto simp: rounds_below_last_def)
next
  case (OpPreCommit now ks k v b)
  assume "rounds_below_last bc"
  with OpPreCommit show ?thesis by (cases rule: PreCommit_cases [of now ks bc k v b]) (auto simp: rounds_below_last_def)
next
  case (OpValidators vs)
  assume "rounds_below_last bc"
  with OpValidators show ?thesis by (simp add: rounds_below_last_def)
qed (auto simp: FailRound_def retire_below Tick_below split: option.split)

lemma run_bfts_below: "rounds_below_last bc \<Longrightarrow> list_all no_last_round ops \<Longrightarrow> rounds_below_last (foldl run_bft bc ops)"
  by (induction ops arbitrary: bc) (simp_all add: run_bft_below)

lemma new_below_last: "rounds_below_last (NewBFTConsensus vs cfg)"
  by (simp add: rounds_below_last_def NewBFTConsensus_def)

lemma retire_floor:
  assumes "bft_inv bc" and "rounds_below_last bc" and "bc_rounds bc k = Some cr" and "round_floor bc h n"
  shows "round_floor (retire bc k cr) h n"
proof (cases "h = k")
  case True
  from assms(2,3) have "unat (cr_Round cr) + 1 < 2 ^ 32" by (auto simp: rounds_below_last_def)
  then have le: "cr_Round cr \<le> cr_Round cr + 1" by (simp add: word_le_nat_alt unat_Suc_fits)
  have "height_ok bc k" using assms(1) by (simp add: bft_inv_def)
  with assms(3,4) True have "n \<le> cr_Round cr" by (auto simp: height_ok_def round_floor_def)
  with le True show ?thesis by (auto simp: round_floor_def retire_def)
next
  case False
  with assms(4) show ?thesis by (simp add: round_floor_def retire_def)
qed

lemma Tick_floor:
  "bft_inv bc \<Longrightarrow> rounds_below_last bc \<Longrightarrow> round_floor bc h n \<Longrightarrow> round_floor (fst (TickRoundTimeouts now bc hs)) h n"
  by (induction now bc hs rule: TickRoundTimeouts.induct)
    (auto simp: retire_inv retire_floor retire_below split: option.split prod.split)

lemma run_bft_floor:
  assumes "bft_inv bc" and "rounds_below_last bc" and "round_floor bc h n"
  shows "round_floor (run_bft bc op) h n"
proof (cases op)
  case (OpPreCommit now ks k v b)
  then show ?thesis using assms(3) by (cases rule: PreCommit_cases [of now ks bc k v b]) (auto simp: round_floor_def)
next
  case (OpFailRound k)
  then show ?thesis using assms by (auto simp: FailRound_def retire_floor split: option.split)
next
  case (OpTick now hs)
  then show ?thesis using Tick_floor [OF assms] by simp
qed (use assms(3) in \<open>simp_all add: round_floor_def Propose_frame PreVote_frame\<close>)

lemma run_bfts_floor:
  "bft_inv bc \<Longrightarrow> rounds_below_last bc \<Longrightarrow> round_floor bc h n \<Longrightarrow> list_all no_last_round ops \<Longrightarrow>
     round_floor (foldl run_bft bc ops) h n"
  by (induction ops arbitrary: bc) (simp_all add: run_bft_inv run_bft_floor run_bft_below)

lemma floor_refuses:
  assumes "bft_inv bc" and "round_floor bc h n" and "r < n"
  shows "\<exists>e. Propose now ks bc h r p b = (bc, Inl e)"
proof (cases "bc_committed bc h = None")
  case True
  with assms(2) obtain m where m: "bc_nextRound bc h = Some m" "n \<le> m" by (auto simp: round_floor_def)
  have "height_ok bc h" using assms(1) by (simp add: bft_inv_def)
  with m assms(3) have "r < m" and "\<And>cr. bc_rounds bc h = Some cr \<Longrightarrow> r < cr_Round cr" by (auto simp: height_ok_def)
  with True m show ?thesis by (auto simp: Propose_def split: option.split)
qed (auto simp: Propose_def)

text \<open>
  A retired round number is never used again. A round that fails or times out leaves its successor as
  the lowest round that may be proposed at the height; from then on, whatever operations follow, any
  proposal for a lower round is refused and changes nothing. (Rounds are 32-bit numbers; the last one
  is excluded because its successor would be zero.)
\<close>

theorem retired_round_never_reopened:
  assumes "bc = foldl run_bft (NewBFTConsensus vs cfg) ops" and "list_all no_last_round (ops @ ops')"
  shows "(bc_rounds bc h = Some cr \<longrightarrow>
        bc_nextRound (fst (FailRound bc h)) h = Some (cr_Round cr + 1) \<and> cr_Round cr < cr_Round cr + 1)
    \<and> (bc_nextRound bc h = Some n \<and> r < n \<longrightarrow>
        (\<exists>e. Propose now ks (foldl run_bft bc ops') h r p b = (foldl run_bft bc ops', Inl e)))"
proof -
  have inv: "bft_inv bc" unfolding assms(1) by (rule run_bfts_inv [OF new_bft_inv])
  have low: "rounds_below_last bc"
    unfolding assms(1) using assms(2) by (intro run_bfts_below new_below_last) simp
  have "bc_nextRound (fst (FailRound bc h)) h = Some (cr_Round cr + 1) \<and> cr_Round cr < cr_Round cr + 1"
    if "bc_rounds bc h = Some cr"
  proof -
    from low that have "unat (cr_Round cr) + 1 < 2 ^ 32" by (auto simp: rounds_below_last_def)
    then show ?thesis using that by (simp add: FailRound_def retire_def word_less_nat_alt unat_Suc_fits)
  qed
  moreover have "\<exists>e. Propose now ks (foldl run_bft bc ops') h r p b = (foldl run_bft bc ops', Inl e)"
    if "bc_nextRound bc h = Some n" "r < n"
  proof (rule floor_refuses [OF run_bfts_inv [OF inv] _ that(2)])
    show "round_floor (foldl run_bft bc ops') h n"
      using that(1) assms(2) by (intro run_bfts_floor [OF inv low]) (simp_all add: round_floor_def)
  qed
  ultimately show ?thesis by blast
qed

definition demo_one :: ValidatorSet where
  "demo_one = put_validator (NewValidatorSet DefaultValidatorSetConfig) ''v'' (demo_validator ''v'' 100)"

definition demo_bft :: BFTConsensus where
  "demo_bft = NewBFTConsensus demo_one (DefaultConsensusConfig\<lparr>cc_QuorumFraction := Fin 1\<rparr>)"

definition demo_round :: "bft_op list" where
  "demo_round = [OpPropose 0 [''v''] 5 0 ''v'' ''B'', OpPreVote 0 [''v''] [''B''] 5 ''v'' ''B'']"

lemma demo_active: "ActiveValidators now demo_one [''v''] = [demo_validator ''v'' 100]"
  by (simp add: ActiveValidators_def demo_one_def sort_slice_def counts_active_def demo_validator_def)

lemma demo_totals: "total_stake [demo_validator ''v'' 100] = Fin 100" "stakeMap [demo_validator ''v'' 100] = [''v'' \<mapsto> Fin 100]"
  "Fin 100 * Fin 1 = Fin 100"
  by (simp_all add: total_stake_def stakeMap_def demo_validator_def zero_float64_def)

lemma demo_is_active: "is_active demo_one ''v''"
  by (simp add: is_active_def GetValidator_def demo_one_def demo_validator_def)

lemma demo_bft_simps: "bc_validators demo_bft = demo_one" "cc_QuorumFraction (bc_cfg demo_bft) = Fin 1"
  "bc_rounds demo_bft = Map.empty" "bc_committed demo_bft = Map.empty" "bc_nextRound demo_bft = Map.empty"
  "bc_carryPrevoteLock demo_bft = Map.empty"
  by (simp_all add: demo_bft_def NewBFTConsensus_def less_eq_float64_def zero_float64_def one_float64_def)

lemma demo_propose:
  "fst (Propose 0 [''v''] demo_bft 5 0 ''v'' ''B'') = demo_bft\<lparr>bc_rounds := [5 \<mapsto> new_round 0 demo_bft 5 0 ''v'' ''B'']\<rparr>"
  by (simp add: Propose_def open_round_def demo_bft_simps proposerForRoundLocked_def proposer_order_def demo_active
      sort_slice_def demo_is_active Let_def) (simp add: demo_validator_def)

lemma demo_prevoted:
  "foldl run_bft demo_bft demo_round =
     demo_bft\<lparr>bc_rounds := [5 \<mapsto> (new_round 0 demo_bft 5 0 ''v'' ''B'')
       \<lparr>cr_PreVotes := [vote_of 0 (new_round 0 demo_bft 5 0 ''v'' ''B'') 5 ''v'' ''B'' VotePreVote],
        cr_LockedBlockHash := ''B'', cr_Status := StatusPreVoted\<rparr>]\<rparr>"
  by (simp add: demo_round_def demo_propose PreVote_def demo_bft_simps demo_is_active new_round_def vote_of_def Let_def
      pickLockedPrevoteHash_def demo_active demo_totals per_hash_def lookup0_def zero_float64_def NilVoteHash_def less_eq_float64_def)

lemma demo_committed:
  "bc_committed (run_bft (foldl run_bft demo_bft demo_round) (OpPreCommit 1 [''v''] 5 ''v'' ''B'')) 5 \<noteq> None"
  by (simp add: demo_prevoted PreCommit_def demo_bft_simps validatePreCommitAgainstLock_def demo_is_active new_round_def vote_of_def
      Let_def hasQuorum_def demo_active demo_totals voted_stake_def lookup0_def zero_float64_def less_eq_float64_def)

theorem commit_needs_quorum_and_is_final_witness:
  "\<exists>cr. bc_committed (foldl run_bft demo_bft (demo_round @ [OpPreCommit 1 [''v''] 5 ''v'' ''B''])) 5 = Some cr \<and>
     hasQuorum 1 [''v''] (foldl run_bft demo_bft demo_round) (cr_Commits cr) ''B'' \<and>
     bc_committed (foldl run_bft demo_bft (demo_round @ [OpPreCommit 1 [''v''] 5 ''v'' ''B'', OpFailRound 5])) 5 = Some cr"
proof -
  let ?op = "OpPreCommit 1 [''v''] 5 ''v'' ''B''"
  let ?b = "foldl run_bft demo_bft demo_round"
  have b: "?b = foldl run_bft (NewBFTConsensus demo_one (DefaultConsensusConfig\<lparr>cc_QuorumFraction := Fin 1\<rparr>)) demo_round"
    by (simp only: demo_bft_def)
  have "bc_committed ?b 5 = None" by (simp add: demo_prevoted demo_bft_simps)
  with demo_committed have "bc_committed (run_bft ?b ?op) 5 \<noteq> bc_committed ?b 5" by metis
  from commit_needs_quorum_and_is_final [OF b, THEN conjunct1, THEN mp, OF this] obtain cr cr' where
    cr: "bc_rounds ?b 5 = Some cr" "bc_committed (run_bft ?b ?op) 5 = Some cr'"
      "hasQuorum 1 [''v''] ?b (cr_Commits cr') (cr_BlockHash cr)" by auto
  have "cr_BlockHash cr = ''B''" using cr(1) by (auto simp: demo_prevoted demo_bft_simps new_round_def)
  moreover have "bc_committed (foldl run_bft (run_bft ?b ?op) [OpFailRound 5]) 5 = Some cr'"
  proof (rule commit_needs_quorum_and_is_final [THEN conjunct2, THEN mp, OF _ cr(2), THEN conjunct1])
    show "run_bft ?b ?op = foldl run_bft (NewBFTConsensus demo_one (DefaultConsensusConfig\<lparr>cc_QuorumFraction := Fin 1\<rparr>)) (demo_round @ [?op])"
      by (simp add: demo_bft_def)
  qed
  ultimately show ?thesis using cr(2,3) by (intro exI [of _ cr']) simp
qed

theorem retired_round_never_reopened_witness:
  "\<exists>e. Propose 7 [''v''] (foldl run_bft demo_bft (demo_round @ [OpFailRound 5])) 5 0 ''v'' ''B'' =
     (foldl run_bft demo_bft (demo_round @ [OpFailRound 5]), Inl e)"
proof -
  let ?ops = "demo_round @ [OpFailRound 5]"
  have b: "foldl run_bft demo_bft ?ops = foldl run_bft (NewBFTConsensus demo_one (DefaultConsensusConfig\<lparr>cc_QuorumFraction := Fin 1\<rparr>)) ?ops"
    by (simp only: demo_bft_def)
  have "list_all no_last_round (?ops @ [])" by (simp add: demo_round_def no_last_round_def)
  moreover have "bc_nextRound (foldl run_bft demo_bft ?ops) 5 = Some 1"
    by (simp add: demo_prevoted FailRound_def retire_def demo_bft_simps new_round_def)
  ultimately show ?thesis using retired_round_never_reopened [OF b, of "[]" 5 _ 1 0] by simp
qed

section \<open>The order of Go maps does not matter\<close>

definition vs_ok :: "ValidatorSet \<Rightarrow> bool" where
  "vs_ok vs \<longleftrightarrow> (\<forall>a v. vs_validators vs a = Some v \<longrightarrow> v_Address v = a \<and> 0 \<le> v_Stake v)"

lemma nonneg_not_nan: "0 \<le> x \<Longrightarrow> \<not> is_nan (x :: float64)"
  by (auto simp: float_le_cases is_nan_def)

lemma insert_by_weak:
  assumes "\<And>a b c. a \<in> insert x (set xs) \<Longrightarrow> b \<in> insert x (set xs) \<Longrightarrow> c \<in> insert x (set xs) \<Longrightarrow> \<not> lt b a \<Longrightarrow> \<not> lt c b \<Longrightarrow> \<not> lt c a"
    and "\<And>a b. lt a b \<Longrightarrow> \<not> lt b a" and "sorted_wrt (\<lambda>a b. \<not> lt b a) xs"
  shows "sorted_wrt (\<lambda>a b. \<not> lt b a) (insert_by lt x xs)"
  using assms(1,3)
proof (induction xs)
  case (Cons y ys)
  have set: "set (insert_by lt x ys) = insert x (set ys)" by (metis insert_by_mset set_mset_add_mset_insert set_mset_mset)
  show ?case
  proof (cases "lt y x")
    case True
    have "sorted_wrt (\<lambda>a b. \<not> lt b a) (insert_by lt x ys)"
    proof (rule Cons.IH)
      show "\<not> lt c a" if "a \<in> insert x (set ys)" "b \<in> insert x (set ys)" "c \<in> insert x (set ys)" "\<not> lt b a" "\<not> lt c b" for a b c
        using that by (intro Cons.prems(1) [of a b c]) auto
    qed (use Cons.prems(2) in simp)
    with True Cons.prems(2) assms(2) show ?thesis by (auto simp: set)
  next
    case False
    have "\<not> lt z x" if "z \<in> set ys" for z
      using that False Cons.prems(2) by (intro Cons.prems(1) [of x y z]) auto
    with False Cons.prems(2) show ?thesis by simp
  qed
qed simp

lemma sort_slice_weak:
  assumes "\<And>a b c. a \<in> set xs \<Longrightarrow> b \<in> set xs \<Longrightarrow> c \<in> set xs \<Longrightarrow> \<not> lt b a \<Longrightarrow> \<not> lt c b \<Longrightarrow> \<not> lt c a"
    and "\<And>a b. lt a b \<Longrightarrow> \<not> lt b a"
  shows "sorted_wrt (\<lambda>a b. \<not> lt b a) (sort_slice lt xs)"
  using assms(1)
proof (induction xs)
  case (Cons x xs)
  have "sort_slice lt (x # xs) = insert_by lt x (sort_slice lt xs)" by (simp add: sort_slice_def)
  moreover have "sorted_wrt (\<lambda>a b. \<not> lt b a) (insert_by lt x (sort_slice lt xs))"
  proof (rule insert_by_weak [OF _ assms(2)])
    show "\<not> lt c a" if "a \<in> insert x (set (sort_slice lt xs))" "b \<in> insert x (set (sort_slice lt xs))"
      "c \<in> insert x (set (sort_slice lt xs))" "\<not> lt b a" "\<not> lt c b" for a b c
      using that by (intro Cons.prems [of a b c]) auto
    show "sorted_wrt (\<lambda>a b. \<not> lt b a) (sort_slice lt xs)" by (rule Cons.IH, rule Cons.prems) auto
  qed
  ultimately show ?case by simp
qed (simp add: sort_slice_def)

lemma descending_unique:
  assumes "sorted_wrt (\<lambda>x y. \<not> x < y) xs" and "sorted_wrt (\<lambda>x y. \<not> x < (y :: float64)) ys" and "mset xs = mset ys"
    and "\<forall>x \<in> set xs. \<not> is_nan x"
  shows "xs = ys"
  using assms
proof (induction xs arbitrary: ys)
  case (Cons x xs)
  then obtain y zs where ys: "ys = y # zs" by (cases ys) auto
  have sets: "insert x (set xs) = insert y (set zs)"
    using arg_cong [OF Cons.prems(3), of set_mset] by (simp add: ys)
  from sets have "y = x \<or> y \<in> set xs" "x = y \<or> x \<in> set zs" by blast+
  then have "\<not> x < y" using Cons.prems(1) by auto
  moreover have "\<not> y < x" using \<open>x = y \<or> x \<in> set zs\<close> Cons.prems(2) ys by auto
  moreover have "\<not> is_nan x" "\<not> is_nan y" using Cons.prems(4) sets by auto
  ultimately have "x = y" using float_linear by blast
  with Cons ys show ?case by simp
qed simp

lemma active_raw:
  assumes "iteration (vs_validators vs) ks" and "vs_ok vs"
  shows "distinct (map v_Address (ActiveValidators now vs ks))"
    and "set (ActiveValidators now vs ks) = {v. counts_active now v \<and> vs_validators vs (v_Address v) = Some v}"
    and "\<forall>v \<in> set (ActiveValidators now vs ks). 0 \<le> v_Stake v"
proof -
  let ?l = "filter (counts_active now) (map (\<lambda>k. the (vs_validators vs k)) ks)"
  have ks: "\<And>k. k \<in> set ks \<longleftrightarrow> vs_validators vs k \<noteq> None" using iterationD(2) [OF assms(1)] by (auto simp: dom_def)
  have addr: "k \<in> set ks \<Longrightarrow> v_Address (the (vs_validators vs k)) = k \<and> 0 \<le> v_Stake (the (vs_validators vs k))" for k
    using ks [of k] assms(2) by (auto simp: vs_ok_def)
  have "map v_Address (map (\<lambda>k. the (vs_validators vs k)) ks) = ks" using addr by (simp add: map_idI)
  then have "distinct (map v_Address (map (\<lambda>k. the (vs_validators vs k)) ks))" using iterationD(1) [OF assms(1)] by simp
  then have "distinct (map v_Address ?l)" by (rule distinct_map_filter)
  then show "distinct (map v_Address (ActiveValidators now vs ks))"
    unfolding ActiveValidators_def by (metis mset_eq_imp_distinct_iff mset_map sort_slice_mset)
  show s: "set (ActiveValidators now vs ks) = {v. counts_active now v \<and> vs_validators vs (v_Address v) = Some v}"
  proof (intro set_eqI iffI)
    fix v
    assume "v \<in> set (ActiveValidators now vs ks)"
    then obtain k where k: "k \<in> set ks" "v = the (vs_validators vs k)" "counts_active now v" by (auto simp: ActiveValidators_def)
    with ks [of k] addr [of k] show "v \<in> {v. counts_active now v \<and> vs_validators vs (v_Address v) = Some v}" by auto
  next
    fix v
    assume v: "v \<in> {v. counts_active now v \<and> vs_validators vs (v_Address v) = Some v}"
    then have "v_Address v \<in> set ks" using ks by auto
    with v show "v \<in> set (ActiveValidators now vs ks)" by (auto simp: ActiveValidators_def intro!: image_eqI [of _ _ "v_Address v"])
  qed
  show "\<forall>v \<in> set (ActiveValidators now vs ks). 0 \<le> v_Stake v" using s assms(2) by (auto simp: vs_ok_def)
qed

lemma active_stakes_sorted:
  assumes "iteration (vs_validators vs) ks" and "vs_ok vs"
  shows "sorted_wrt (\<lambda>x y. \<not> x < y) (map v_Stake (ActiveValidators now vs ks))"
proof -
  have "sorted_wrt (\<lambda>a b. \<not> v_Stake a < v_Stake b) (ActiveValidators now vs ks)"
    unfolding ActiveValidators_def
  proof (rule sort_slice_weak [where lt = "\<lambda>a b. v_Stake b < v_Stake a"])
    let ?l = "filter (counts_active now) (map (\<lambda>k. the (vs_validators vs k)) ks)"
    have nan: "\<not> is_nan (v_Stake v)" if "v \<in> set ?l" for v
    proof -
      from that have "v \<in> set (ActiveValidators now vs ks)" by (simp add: ActiveValidators_def)
      then show ?thesis using active_raw(3) [OF assms, of now] nonneg_not_nan by simp
    qed
    show "\<not> v_Stake a < v_Stake c" if "a \<in> set ?l" "b \<in> set ?l" "c \<in> set ?l" "\<not> v_Stake a < v_Stake b" "\<not> v_Stake b < v_Stake c" for a b c
      using that(4,5) float_linear [OF nan [OF that(1)] nan [OF that(2)]] float_linear [OF nan [OF that(2)] nan [OF that(3)]]
        float_less_trans by (metis float_less_irrefl)
    show "\<not> v_Stake a < v_Stake b" if "v_Stake b < v_Stake a" for a b using that float_less_trans float_less_irrefl by blast
  qed
  then show ?thesis by (simp add: sorted_wrt_map)
qed

lemma active_stakes_unique:
  assumes "iteration (vs_validators vs) ks" and "iteration (vs_validators vs) ks'" and "vs_ok vs"
  shows "map v_Stake (ActiveValidators now vs ks) = map v_Stake (ActiveValidators now vs ks')"
proof (rule descending_unique)
  have "mset ks = mset ks'" using assms(1,2) by (simp add: iteration_def flip: set_eq_iff_mset_eq_distinct)
  then have "mset (filter (counts_active now) (map (\<lambda>k. the (vs_validators vs k)) ks)) =
      mset (filter (counts_active now) (map (\<lambda>k. the (vs_validators vs k)) ks'))"
    by (simp add: mset_filter)
  then show "mset (map v_Stake (ActiveValidators now vs ks)) = mset (map v_Stake (ActiveValidators now vs ks'))"
    by (simp add: ActiveValidators_def)
  show "\<forall>x \<in> set (map v_Stake (ActiveValidators now vs ks)). \<not> is_nan x"
    using active_raw(3) [OF assms(1,3), of now] nonneg_not_nan by auto
qed (rule active_stakes_sorted [OF assms(1,3)] active_stakes_sorted [OF assms(2,3)])+

lemma total_stake_map: "total_stake active = foldl (+) 0 (map v_Stake active)"
  by (simp add: total_stake_def foldl_map)

lemma stakeMap_apply:
  assumes "distinct (map v_Address active)"
  shows "stakeMap active a = (if a \<in> v_Address ` set active then Some (v_Stake (THE v. v \<in> set active \<and> v_Address v = a)) else None)"
proof -
  have gen: "foldl (\<lambda>m v. m(v_Address v \<mapsto> v_Stake v)) m xs b =
      (if b \<in> v_Address ` set xs then Some (v_Stake (THE v. v \<in> set xs \<and> v_Address v = b)) else m b)"
    if "distinct (map v_Address xs)" for m xs b
    using that
  proof (induction xs arbitrary: m)
    case (Cons x xs)
    have other: "(THE v. v \<in> set (x # xs) \<and> v_Address v = b) = (THE v. v \<in> set xs \<and> v_Address v = b)" if "v_Address x \<noteq> b"
      using that by (intro arg_cong [of _ _ The]) auto
    have own: "(THE v. v \<in> set (x # xs) \<and> v_Address v = v_Address x) = x"
      using Cons.prems by (intro the_equality) (auto, metis image_eqI)
    show ?case
    proof (cases "v_Address x = b")
      case True
      with Cons own show ?thesis by auto
    next
      case False
      with Cons other show ?thesis by auto
    qed
  qed simp
  show ?thesis using gen [OF assms, of Map.empty a] by (simp add: stakeMap_def)
qed

lemma stakeMap_unique:
  assumes "iteration (vs_validators vs) ks" and "iteration (vs_validators vs) ks'" and "vs_ok vs"
  shows "stakeMap (ActiveValidators now vs ks) = stakeMap (ActiveValidators now vs ks')"
  by (rule ext) (simp add: stakeMap_apply active_raw(1) [OF assms(1,3)] active_raw(1) [OF assms(2,3)]
      active_raw(2) [OF assms(1,3)] active_raw(2) [OF assms(2,3)])

lemma active_empty:
  assumes "iteration (vs_validators vs) ks" and "iteration (vs_validators vs) ks'" and "vs_ok vs"
  shows "ActiveValidators now vs ks = [] \<longleftrightarrow> ActiveValidators now vs ks' = []"
  using active_stakes_unique [OF assms, of now] by (metis map_is_Nil_conv)

lemma proposer_before_decides:
  assumes "iteration (vs_validators vs) ks" and "vs_ok vs"
  shows "decides proposer_before (set (ActiveValidators now vs ks))"
  unfolding decides_def
proof (intro conjI ballI allI impI)
  note nn = active_raw(3) [OF assms, of now]
  show "\<not> proposer_before a a" if "a \<in> set (ActiveValidators now vs ks)" for a
    by (simp add: proposer_before_def)
  show "proposer_before a c" if "proposer_before a b" "proposer_before b c" for a b c
    using that float_less_trans [of "v_Stake c" "v_Stake b" "v_Stake a"]
    by (auto simp: proposer_before_def feq_def split: if_splits)
  show "proposer_before a b \<or> proposer_before b a"
    if a: "a \<in> set (ActiveValidators now vs ks)" and b: "b \<in> set (ActiveValidators now vs ks)" and "a \<noteq> b" for a b
  proof (cases "v_Stake a = v_Stake b")
    case True
    from a b \<open>a \<noteq> b\<close> have "v_Address a \<noteq> v_Address b" by (auto simp: active_raw(2) [OF assms])
    moreover have "v_Stake b \<noteq> NaN" using nonneg_not_nan nn b by (auto simp: is_nan_def)
    ultimately show ?thesis using True by (auto simp: proposer_before_def feq_def)
  next
    case False
    have "\<not> is_nan (v_Stake a)" "\<not> is_nan (v_Stake b)" using nonneg_not_nan nn a b by simp_all
    with False float_linear show ?thesis by (auto simp: proposer_before_def feq_def)
  qed
qed

lemma active_distinct:
  "iteration (vs_validators vs) ks \<Longrightarrow> vs_ok vs \<Longrightarrow> distinct (ActiveValidators now vs ks)"
  using active_raw(1) [of vs ks now] distinct_map by blast

lemma proposer_order_unique:
  assumes "iteration (vs_validators vs) ks" and "iteration (vs_validators vs) ks'" and "vs_ok vs"
  shows "proposer_order now vs ks = proposer_order now vs ks'"
  unfolding proposer_order_def
  using assms by (intro sort_slice_unique proposer_before_decides active_distinct) (simp_all add: active_raw(2))

text \<open>The candidate loop finds the one candidate that beats all others.\<close>

definition beats :: "(string \<rightharpoonup> float64) \<Rightarrow> string \<Rightarrow> string \<Rightarrow> bool" where
  "beats m a b \<longleftrightarrow> lookup0 m b < lookup0 m a \<or> (feq (lookup0 m a) (lookup0 m b) \<and> a < b)"

lemma beats_trans: "beats m a b \<Longrightarrow> beats m b c \<Longrightarrow> beats m a c"
  using float_less_trans [of "lookup0 m c" "lookup0 m b" "lookup0 m a"] by (auto simp: beats_def feq_def)

lemma beats_irrefl: "\<not> beats m a a"
  by (simp add: beats_def)

lemma beats_total:
  assumes "\<And>h. \<not> is_nan (lookup0 m h)" and "a \<noteq> b"
  shows "beats m a b \<or> beats m b a"
  using float_linear [OF assms(1) [of a] assms(1) [of b]] assms by (auto simp: beats_def feq_def is_nan_def)

lemma better_candidate_loop:
  assumes "\<And>h. \<not> is_nan (lookup0 m h)"
  shows "foldl (better_candidate m) b hs \<in> insert b (set hs) \<and>
    (\<forall>h \<in> insert b (set hs). h = foldl (better_candidate m) b hs \<or> beats m (foldl (better_candidate m) b hs) h)"
proof (induction hs arbitrary: b)
  case (Cons x hs)
  let ?b = "better_candidate m b x"
  let ?r = "foldl (better_candidate m) ?b hs"
  have b: "?b = x \<and> beats m x b \<or> ?b = b \<and> (b = x \<or> beats m b x)"
    using beats_total [of m b x, OF assms] by (auto simp: better_candidate_def beats_def)
  from Cons.IH [of ?b] have r: "?r \<in> insert ?b (set hs)" "\<forall>h \<in> insert ?b (set hs). h = ?r \<or> beats m ?r h" by simp_all
  have "h = ?r \<or> beats m ?r h" if "h \<in> {b, x}" for h
    using b r(2) that beats_trans [of m ?r ?b h] by auto
  with r b show ?case by auto
qed simp

lemma best_candidate_unique:
  assumes "\<And>h. \<not> is_nan (lookup0 m h)" and "set cs = set ds" and "cs \<noteq> []"
  shows "best_candidate m cs = best_candidate m ds"
proof -
  have ds: "ds \<noteq> []" using assms(2,3) by auto
  have best: "best_candidate m es \<in> set es \<and> (\<forall>h \<in> set es. h = best_candidate m es \<or> beats m (best_candidate m es) h)"
    if "es \<noteq> []" for es
    using better_candidate_loop [of m "hd es" "tl es", OF assms(1)] that by (cases es) (simp_all add: best_candidate_def)
  let ?c = "best_candidate m cs" and ?d = "best_candidate m ds"
  have "?c = ?d \<or> beats m ?c ?d" "?c = ?d \<or> beats m ?d ?c"
    using best [OF assms(3)] best [OF ds] unfolding assms(2) by metis+
  then show ?thesis using beats_trans [of m ?c ?d ?c] beats_irrefl [of m ?c] by blast
qed

lemma per_hash_nonneg:
  assumes "\<And>a. 0 \<le> lookup0 sm a"
  shows "0 \<le> lookup0 (per_hash sm votes) h"
proof -
  have "0 \<le> lookup0 (foldl (\<lambda>m vote. m(bv_BlockHash vote \<mapsto> lookup0 m (bv_BlockHash vote) + lookup0 sm (bv_Validator vote))) m votes) h"
    if "\<And>h. 0 \<le> lookup0 m h" for m
    using that
  proof (induction votes arbitrary: m)
    case (Cons v votes)
    have "0 \<le> lookup0 (m(bv_BlockHash v \<mapsto> lookup0 m (bv_BlockHash v) + lookup0 sm (bv_Validator v))) k" for k
      using float_add_nonneg [OF Cons.prems [of "bv_BlockHash v"] assms [of "bv_Validator v"]] Cons.prems [of k]
      by (simp add: lookup0_def)
    from Cons.IH [OF this] show ?case by (simp only: foldl_Cons)
  qed simp
  from this [of Map.empty] show ?thesis by (simp add: per_hash_def lookup0_def less_eq_float64_def zero_float64_def)
qed

lemma stakeMap_nonneg:
  assumes "iteration (vs_validators vs) ks" and "vs_ok vs"
  shows "0 \<le> lookup0 (stakeMap (ActiveValidators now vs ks)) a"
proof (cases "a \<in> v_Address ` set (ActiveValidators now vs ks)")
  case True
  then obtain v where v: "v \<in> set (ActiveValidators now vs ks)" "v_Address v = a" by auto
  then have "(THE v. v \<in> set (ActiveValidators now vs ks) \<and> v_Address v = a) = v"
    by (intro the_equality) (auto simp: active_raw(2) [OF assms])
  with True v active_raw(3) [OF assms, of now] show ?thesis
    by (simp add: lookup0_def stakeMap_apply [OF active_raw(1) [OF assms]])
next
  case False
  then show ?thesis
    by (simp add: lookup0_def stakeMap_apply [OF active_raw(1) [OF assms]] less_eq_float64_def zero_float64_def)
qed

text \<open>
  What the engine decides does not depend on the order in which Go ranges over its maps. With
  non-negative stakes, the proposer of a round, whether a set of votes has a quorum, and which hash a
  set of prevotes locks are the same for every order of the validator map and of the map from hashes
  to stake (float sums and ties included), so nodes with the same state decide alike.
\<close>

theorem decisions_order_independent:
  assumes "vs_ok (bc_validators bc)"
    and "iteration (vs_validators (bc_validators bc)) ks" and "iteration (vs_validators (bc_validators bc)) ks'"
  shows "proposerForRoundLocked now ks bc r = proposerForRoundLocked now ks' bc r
    \<and> hasQuorum now ks bc votes b = hasQuorum now ks' bc votes b
    \<and> (iteration (per_hash (stakeMap (ActiveValidators now (bc_validators bc) ks)) (cr_PreVotes cr)) hs \<and>
       iteration (per_hash (stakeMap (ActiveValidators now (bc_validators bc) ks)) (cr_PreVotes cr)) hs' \<longrightarrow>
       pickLockedPrevoteHash now ks hs bc cr = pickLockedPrevoteHash now ks' hs' bc cr)"
proof (intro conjI impI)
  let ?A = "ActiveValidators now (bc_validators bc) ks" and ?A' = "ActiveValidators now (bc_validators bc) ks'"
  have tot: "total_stake ?A = total_stake ?A'"
    unfolding total_stake_map using active_stakes_unique [OF assms(2,3,1)] by metis
  have sm: "stakeMap ?A = stakeMap ?A'" by (rule stakeMap_unique [OF assms(2,3,1)])
  have emp: "?A = [] \<longleftrightarrow> ?A' = []" by (rule active_empty [OF assms(2,3,1)])
  show "proposerForRoundLocked now ks bc r = proposerForRoundLocked now ks' bc r"
    by (simp add: proposerForRoundLocked_def proposer_order_unique [OF assms(2,3,1)])
  show "hasQuorum now ks bc votes b = hasQuorum now ks' bc votes b"
    by (simp add: hasQuorum_def Let_def tot sm emp)
  let ?m = "per_hash (stakeMap ?A) (cr_PreVotes cr)"
  let ?c = "\<lambda>hs. filter (\<lambda>h. total_stake ?A' * cc_QuorumFraction (bc_cfg bc) \<le> lookup0 ?m h) hs"
  assume "iteration ?m hs \<and> iteration ?m hs'"
  then have o: "iteration ?m hs" "iteration ?m hs'" by simp_all
  have nan: "\<not> is_nan (lookup0 ?m h)" for h
    using per_hash_nonneg [OF stakeMap_nonneg [OF assms(2,1)]] nonneg_not_nan by simp
  have sets: "set (?c hs) = set (?c hs')" using iterationD(2) [OF o(1)] iterationD(2) [OF o(2)] by simp
  have best: "?c hs \<noteq> [] \<Longrightarrow> best_candidate ?m (?c hs) = best_candidate ?m (?c hs')"
    by (rule best_candidate_unique [OF nan sets])
  have "?c hs = [] \<longleftrightarrow> ?c hs' = []" using sets by (metis set_empty)
  moreover have "cr_BlockHash cr \<in> set (?c hs) \<longleftrightarrow> cr_BlockHash cr \<in> set (?c hs')" by (simp only: sets)
  ultimately show "pickLockedPrevoteHash now ks hs bc cr = pickLockedPrevoteHash now ks' hs' bc cr"
    unfolding pickLockedPrevoteHash_def Let_def tot emp sm [symmetric] using best
    by (simp only: split: if_split) blast
qed

theorem decisions_order_independent_witness:
  "hasQuorum 0 [''v'', ''w''] (NewBFTConsensus demo_set DefaultConsensusConfig) [] ''B'' =
   hasQuorum 0 [''w'', ''v''] (NewBFTConsensus demo_set DefaultConsensusConfig) [] ''B''"
proof (rule decisions_order_independent [THEN conjunct2, THEN conjunct1])
  show "vs_ok (bc_validators (NewBFTConsensus demo_set DefaultConsensusConfig))"
    by (auto simp: vs_ok_def NewBFTConsensus_def demo_set_def NewValidatorSet_def demo_validator_def float_le_cases split: if_splits)
qed (auto simp: iteration_def NewBFTConsensus_def demo_set_def NewValidatorSet_def)

section \<open>Rotation of the proposer\<close>

lemma rotation_reaches:
  assumes "j < (n :: nat)"
  shows "\<exists>i < n. (r + i) mod n = j"
proof -
  let ?i = "(j + n - r mod n) mod n"
  have "r mod n < n" using assms by simp
  then have "r mod n \<le> j + n" by linarith
  then have "(r mod n + (j + n - r mod n)) mod n = j" using assms by simp
  then have "(r + ?i) mod n = j" by (metis mod_add_left_eq mod_add_right_eq)
  with assms show ?thesis by (intro exI [of _ ?i]) auto
qed

lemma rotation_proposer:
  assumes "vs_ok (bc_validators bc)" and "iteration (vs_validators (bc_validators bc)) ks"
    and "vs_validators (bc_validators bc) a = Some v" and "counts_active now v"
    and "n = length (ActiveValidators now (bc_validators bc) ks)" and "unat r + n \<le> 2 ^ 32"
  shows "\<exists>i < n. unat (r + of_nat i) = unat r + i \<and> proposerForRoundLocked now ks bc (r + of_nat i) = Inr a"
proof -
  let ?o = "proposer_order now (bc_validators bc) ks"
  have len: "length ?o = n" by (simp add: proposer_order_def assms(5))
  have addr: "v_Address v = a" using assms(1,3) by (auto simp: vs_ok_def)
  then have "v \<in> set ?o" using assms(3,4) by (simp add: proposer_order_def active_raw(2) [OF assms(2,1)])
  then obtain j where j: "j < n" "?o ! j = v" using len by (metis in_set_conv_nth)
  then obtain i where i: "i < n" "(unat r + i) mod n = j" using rotation_reaches by blast
  have "unat (of_nat i :: u32) = i" using i(1) assms(6) by (intro unat_of_nat_fits) simp
  then have un: "unat (r + of_nat i) = unat r + i"
    using i(1) assms(6) unat_plus_fits [of r "of_nat i"] by simp
  moreover have "?o \<noteq> []" using j(1) len by auto
  ultimately have "proposerForRoundLocked now ks bc (r + of_nat i) = Inr a"
    using i(2) j(2) addr by (simp add: proposerForRoundLocked_def Let_def len)
  with un i(1) show ?thesis by blast
qed

text \<open>
  C25. The proposer rotation starves nobody. At a height that is not committed and has no open round, each
  validator in good standing can open a round at some round number among the next \<open>n\<close>, counted from
  any number that is not retired, where \<open>n\<close> is the number of validators that count as active.
\<close>

theorem every_validator_gets_to_propose:
  assumes "vs_ok (bc_validators bc)" and "iteration (vs_validators (bc_validators bc)) ks"
    and "vs_validators (bc_validators bc) a = Some v" and "v_Status v = ValidatorActive"
    and "bc_committed bc h = None" and "bc_rounds bc h = None" and "NextRoundAfterTimeout bc h \<le> r"
    and "n = length (ActiveValidators now (bc_validators bc) ks)" and "unat r + n \<le> 2 ^ 32"
  shows "\<exists>i < n. \<exists>bc' cr. Propose now ks bc h (r + of_nat i) a b = (bc', Inr cr) \<and> bc_rounds bc' h = Some cr \<and>
    unat (cr_Round cr) = unat r + i \<and> cr_Proposer cr = a \<and> cr_BlockHash cr = b"
proof -
  have "counts_active now v" using assms(4) by (simp add: counts_active_def)
  from rotation_proposer [OF assms(1-3) this assms(8,9)] obtain i where
    i: "i < n" "unat (r + of_nat i) = unat r + i" "proposerForRoundLocked now ks bc (r + of_nat i) = Inr a" by blast
  have act: "is_active (bc_validators bc) a" using assms(3,4) by (simp add: is_active_def GetValidator_def)
  have "r \<le> r + of_nat i" using i(2) by (simp add: word_le_nat_alt)
  with assms(7) have "\<not> r + of_nat i < m" if "bc_nextRound bc h = Some m" for m
    using that by (simp add: NextRoundAfterTimeout_def)
  then have "Propose now ks bc h (r + of_nat i) a b =
      (bc\<lparr>bc_rounds := (bc_rounds bc)(h \<mapsto> new_round now bc h (r + of_nat i) a b)\<rparr>, Inr (new_round now bc h (r + of_nat i) a b))"
    using assms(5,6) i(3) act by (auto simp: Propose_def open_round_def Let_def split: option.split)
  with i(1,2) show ?thesis by (auto simp: new_round_def intro!: exI [of _ i])
qed

theorem every_validator_gets_to_propose_witness:
  "\<exists>i < 1. \<exists>bc' cr. Propose 0 [''v''] demo_bft 5 (3 + of_nat i) ''v'' ''B'' = (bc', Inr cr) \<and> bc_rounds bc' 5 = Some cr \<and>
     unat (cr_Round cr) = 3 + i \<and> cr_Proposer cr = ''v'' \<and> cr_BlockHash cr = ''B''"
proof -
  have "\<exists>i < 1. \<exists>bc' cr. Propose 0 [''v''] demo_bft 5 (3 + of_nat i) ''v'' ''B'' = (bc', Inr cr) \<and> bc_rounds bc' 5 = Some cr \<and>
     unat (cr_Round cr) = unat (3 :: u32) + i \<and> cr_Proposer cr = ''v'' \<and> cr_BlockHash cr = ''B''"
  proof (rule every_validator_gets_to_propose [where v = "demo_validator ''v'' 100"])
    show "vs_ok (bc_validators demo_bft)"
      by (auto simp: vs_ok_def demo_bft_simps demo_one_def NewValidatorSet_def demo_validator_def float_le_cases split: if_splits)
    show "iteration (vs_validators (bc_validators demo_bft)) [''v'']"
      by (auto simp: iteration_def demo_bft_simps demo_one_def NewValidatorSet_def)
    show "1 = length (ActiveValidators 0 (bc_validators demo_bft) [''v''])" by (simp add: demo_bft_simps demo_active)
  qed (simp_all add: demo_bft_simps demo_one_def demo_validator_def NextRoundAfterTimeout_def)
  then show ?thesis by simp
qed

text \<open>
  A validator whose jail time has elapsed but who was not released takes its turn in the rotation and
  counts in the total stake, yet cannot propose: in its rounds nobody can.
\<close>

lemma elapsed_jail_blocks_round:
  assumes "proposerForRoundLocked now ks bc r = Inr a" and "vs_validators (bc_validators bc) a = Some v"
    and "v_Status v = ValidatorJailed" and "bc_rounds bc h = None"
  shows "\<exists>e. Propose now ks bc h r p b = (bc, Inl e)"
  using assms by (auto simp: Propose_def open_round_def is_active_def GetValidator_def split: option.split)

section \<open>Two quorums\<close>

text \<open>Stakes that are whole numbers of moderate size add up exactly.\<close>

definition whole_stakes :: "(Validator \<Rightarrow> nat) \<Rightarrow> Validator list \<Rightarrow> bool" where
  "whole_stakes w active \<longleftrightarrow>
     (\<forall>v \<in> set active. v_Stake v = Fin (of_nat (w v))) \<and> sum_list (map w active) \<le> 2 ^ 50 \<and> 0 < sum_list (map w active)"

lemma Fin_add_nat: "a + b \<le> 2 ^ 53 \<Longrightarrow> Fin (of_nat a) + Fin (of_nat b) = Fin (of_nat (a + b))"
  using rnd_of_int [of "int (a + b)"] by simp

lemma foldl_Fin_nat:
  assumes "\<And>x. x \<in> set xs \<Longrightarrow> f x = Fin (of_nat (g x))" and "a + sum_list (map g xs) \<le> 2 ^ 53"
  shows "foldl (\<lambda>y x. y + f x) (Fin (of_nat a)) xs = Fin (of_nat (a + sum_list (map g xs)))"
  using assms
proof (induction xs arbitrary: a)
  case (Cons x xs)
  have "foldl (\<lambda>y x. y + f x) (Fin (of_nat a)) (x # xs) = foldl (\<lambda>y x. y + f x) (Fin (of_nat (a + g x))) xs"
    using Cons.prems Fin_add_nat [of a "g x"] by simp
  also have "\<dots> = Fin (of_nat (a + g x + sum_list (map g xs)))"
    using Cons.prems by (intro Cons.IH) simp_all
  finally show ?case by (simp add: add.assoc)
qed simp

lemma total_whole:
  assumes "whole_stakes w active"
  shows "total_stake active = Fin (of_nat (sum_list (map w active)))"
  using foldl_Fin_nat [of active v_Stake w 0] assms by (simp add: total_stake_def whole_stakes_def zero_float64_def)

definition voter_stake :: "(Validator \<Rightarrow> nat) \<Rightarrow> Validator list \<Rightarrow> string \<Rightarrow> nat" where
  "voter_stake w active a = (\<Sum>v \<leftarrow> filter (\<lambda>v. v_Address v = a) active. w v)"

lemma filter_address:
  "distinct (map v_Address active) \<Longrightarrow> v \<in> set active \<Longrightarrow> filter (\<lambda>u. v_Address u = v_Address v) active = [v]"
proof (induction active)
  case (Cons x xs)
  show ?case
  proof (cases "x = v")
    case True
    with Cons.prems(1) have "filter (\<lambda>u. v_Address u = v_Address v) xs = []" by (auto simp: filter_empty_conv) (metis image_eqI)
    with True show ?thesis by simp
  next
    case False
    with Cons have "v \<in> set xs" by simp
    with Cons.prems(1) have "v_Address x \<noteq> v_Address v" by auto
    with Cons \<open>v \<in> set xs\<close> show ?thesis by simp
  qed
qed simp

lemma lookup_whole:
  assumes "distinct (map v_Address active)" and "whole_stakes w active"
  shows "lookup0 (stakeMap active) a = Fin (of_nat (voter_stake w active a))"
proof (cases "a \<in> v_Address ` set active")
  case True
  then obtain v where v: "v \<in> set active" "v_Address v = a" by auto
  then have "(THE v. v \<in> set active \<and> v_Address v = a) = v"
    using assms(1) by (intro the_equality) (auto simp: distinct_map dest: inj_onD)
  with True v assms(2) filter_address [OF assms(1) v(1)] show ?thesis
    by (simp add: lookup0_def stakeMap_apply [OF assms(1)] voter_stake_def whole_stakes_def)
next
  case False
  then have "filter (\<lambda>v. v_Address v = a) active = []" by (auto simp: filter_empty_conv)
  with False show ?thesis by (simp add: lookup0_def stakeMap_apply [OF assms(1)] voter_stake_def zero_float64_def)
qed

lemma voters_le_total:
  assumes "distinct as"
  shows "(\<Sum>a \<leftarrow> as. voter_stake w active a) \<le> sum_list (map w active)"
proof (induction active)
  case (Cons v active)
  have "(\<Sum>a \<leftarrow> as. voter_stake w (v # active) a) = (\<Sum>a \<leftarrow> as. if a = v_Address v then w v else 0) + (\<Sum>a \<leftarrow> as. voter_stake w active a)"
    by (simp add: voter_stake_def sum_list_addf [symmetric]) (rule arg_cong [of _ _ sum_list], auto)
  moreover have "(\<Sum>a \<leftarrow> as. if a = v_Address v then w v else 0) \<le> w v"
    using assms by (induction as) auto
  ultimately show ?case using Cons by simp
qed (simp add: voter_stake_def)


lemma voted_whole:
  assumes "distinct (map v_Address active)" and "whole_stakes w active" and "distinct (map bv_Validator votes)"
  shows "voted_stake (stakeMap active) votes b =
    Fin (of_nat (\<Sum>vote \<leftarrow> filter (\<lambda>vote. bv_BlockHash vote = b) votes. voter_stake w active (bv_Validator vote)))"
proof -
  let ?f = "filter (\<lambda>vote. bv_BlockHash vote = b) votes"
  have skip: "foldl (\<lambda>x vote. if bv_BlockHash vote = b then x + lookup0 (stakeMap active) (bv_Validator vote) else x) x votes =
      foldl (\<lambda>x vote. x + lookup0 (stakeMap active) (bv_Validator vote)) x ?f" for x
    by (induction votes arbitrary: x) auto
  have "(\<Sum>vote \<leftarrow> ?f. voter_stake w active (bv_Validator vote)) = (\<Sum>a \<leftarrow> map bv_Validator ?f. voter_stake w active a)"
    by (simp add: comp_def)
  also have "\<dots> \<le> sum_list (map w active)" by (rule voters_le_total [OF distinct_map_filter [OF assms(3)]])
  also have "\<dots> \<le> 2 ^ 53" using assms(2) by (simp add: whole_stakes_def)
  finally show ?thesis
    unfolding voted_stake_def skip
    using foldl_Fin_nat [of ?f "\<lambda>vote. lookup0 (stakeMap active) (bv_Validator vote)" "\<lambda>vote. voter_stake w active (bv_Validator vote)" 0]
      lookup_whole [OF assms(1,2)] by (simp add: zero_float64_def)
qed

lemma two_hashes_le:
  assumes "b \<noteq> c"
  shows "(\<Sum>x \<leftarrow> filter (\<lambda>x. f x = b) xs. (g x :: nat)) + (\<Sum>x \<leftarrow> filter (\<lambda>x. f x = c) xs. g x) \<le> (\<Sum>x \<leftarrow> xs. g x)"
  using assms by (induction xs) auto

text \<open>The threshold is more than half of the total.\<close>

lemma two_thirds_bounds: "two_thirds = Fin (rnd_q (2 / 3))" "5 / 8 \<le> rnd_q (2 / 3)" "rnd_q (2 / 3) \<le> 1"
proof -
  have r58: "rnd_q (5 / 8) = 5 / 8"
    using rnd_q_representable [OF representableI [of 5 "- 3"]] by (simp add: power_int_minus)
  show q: "5 / 8 \<le> rnd_q (2 / 3)" using rnd_q_mono [of "5 / 8" "2 / 3"] r58 by simp
  have "rnd_q (2 / 3) \<le> rnd_q 1" by (rule rnd_q_mono) simp
  then show "rnd_q (2 / 3) \<le> 1" using rnd_q_representable [OF representable_int [of 1]] by simp
  with q show "two_thirds = Fin (rnd_q (2 / 3))" by (simp add: two_thirds_def rnd_def Let_def)
qed

lemma threshold_half:
  assumes "0 < T" and "T \<le> 2 ^ 50" and "Fin (of_nat T) * two_thirds \<le> Fin (of_nat x)"
  shows "T < 2 * x"
proof -
  note tt = two_thirds_bounds(1) and q = two_thirds_bounds(2)
  have "rnd_q (of_int (5 * int T) * 2 powi (- 3)) = of_int (5 * int T) * 2 powi (- 3)"
    using assms(2) by (intro rnd_q_representable representableI) simp_all
  then have r: "rnd_q (of_nat T * (5 / 8)) = of_nat T * (5 / 8)" by (simp add: power_int_minus mult.commute)
  have "of_nat T * (5 / 8) \<le> of_nat T * rnd_q (2 / 3)" by (intro mult_left_mono q) simp
  from rnd_q_mono [OF this] have "of_nat T * (5 / 8) \<le> rnd_q (of_nat T * rnd_q (2 / 3))" by (simp only: r)
  moreover have "rnd_q (of_nat T * rnd_q (2 / 3)) \<le> of_nat x"
    using assms(3) rnd_cases [of "of_nat T * rnd_q (2 / 3)"] calculation
    by (auto simp: tt rnd_def Let_def less_eq_float64_def split: if_splits)
  ultimately have "(of_nat T :: rat) * (5 / 8) \<le> of_nat x" by linarith
  then have "(of_nat (5 * T) :: rat) \<le> of_nat (8 * x)" by simp
  then have "5 * T \<le> 8 * x" by (simp only: of_nat_le_iff)
  with assms(1) show ?thesis by linarith
qed

text \<open>
  C10. Two different hashes never both have a quorum among the votes of a round: if every validator votes
  once, stakes are whole numbers with a total of at most \<open>2 ^ 50\<close>, and the quorum is two thirds, then
  at most one block hash reaches the quorum, with the code's float arithmetic.
\<close>

theorem no_two_quorums:
  assumes "vs_ok (bc_validators bc)" and "iteration (vs_validators (bc_validators bc)) ks"
    and "whole_stakes w (ActiveValidators now (bc_validators bc) ks)" and "cc_QuorumFraction (bc_cfg bc) = two_thirds"
    and "distinct (map bv_Validator votes)"
    and "hasQuorum now ks bc votes b" and "hasQuorum now ks bc votes c"
  shows "b = c"
proof (rule ccontr)
  assume bc: "b \<noteq> c"
  let ?A = "ActiveValidators now (bc_validators bc) ks"
  let ?s = "\<lambda>b. \<Sum>vote \<leftarrow> filter (\<lambda>vote. bv_BlockHash vote = b) votes. voter_stake w ?A (bv_Validator vote)"
  let ?T = "sum_list (map w ?A)"
  have T: "0 < ?T" "?T \<le> 2 ^ 50" using assms(3) by (simp_all add: whole_stakes_def)
  have half: "?T < 2 * ?s h" if "hasQuorum now ks bc votes h" for h
    using that threshold_half [OF T, of "?s h"]
    by (simp add: hasQuorum_def Let_def total_whole [OF assms(3)] assms(4)
        voted_whole [OF active_raw(1) [OF assms(2,1)] assms(3,5)])
  have "?s b + ?s c \<le> (\<Sum>a \<leftarrow> map bv_Validator votes. voter_stake w ?A a)"
    using two_hashes_le [OF bc, where f = bv_BlockHash and xs = votes and g = "\<lambda>vote. voter_stake w ?A (bv_Validator vote)"] by (simp add: comp_def)
  also have "\<dots> \<le> ?T" by (rule voters_le_total [OF assms(5)])
  finally show False using half [OF assms(6)] half [OF assms(7)] by linarith
qed


theorem no_two_quorums_witness:
  "hasQuorum 0 [''v''] (NewBFTConsensus demo_one DefaultConsensusConfig)
     [\<lparr>bv_Validator = ''v'', bv_BlockHash = ''B'', bv_Height = 1, bv_Round = 0, bv_Type = VotePreVote, bv_Timestamp = 0\<rparr>] ''B'' \<and>
   \<not> hasQuorum 0 [''v''] (NewBFTConsensus demo_one DefaultConsensusConfig)
     [\<lparr>bv_Validator = ''v'', bv_BlockHash = ''B'', bv_Height = 1, bv_Round = 0, bv_Type = VotePreVote, bv_Timestamp = 0\<rparr>] ''C''"
proof -
  let ?bc = "NewBFTConsensus demo_one DefaultConsensusConfig"
  let ?votes = "[\<lparr>bv_Validator = ''v'', bv_BlockHash = ''B'', bv_Height = 1, bv_Round = 0, bv_Type = VotePreVote, bv_Timestamp = 0\<rparr>]"
  have cfg: "cc_QuorumFraction (bc_cfg ?bc) = two_thirds" "bc_validators ?bc = demo_one"
    by (simp_all add: NewBFTConsensus_def DefaultConsensusConfig_def)
  have vs: "vs_ok (bc_validators ?bc)" "iteration (vs_validators (bc_validators ?bc)) [''v'']"
    by (auto simp: vs_ok_def iteration_def NewBFTConsensus_def demo_one_def NewValidatorSet_def demo_validator_def float_le_cases split: if_splits)
  have whole: "whole_stakes (\<lambda>_. 100) (ActiveValidators 0 (bc_validators ?bc) [''v''])"
    by (simp add: whole_stakes_def cfg demo_active demo_validator_def)
  have "rnd_q (100 * rnd_q (2 / 3)) \<le> rnd_q 100" using two_thirds_bounds(3) by (intro rnd_q_mono) simp
  also have "rnd_q 100 = 100" using rnd_q_representable [OF representable_int [of 100]] by simp
  finally have "Fin 100 * two_thirds \<le> Fin 100"
    using rnd_q_nonneg [of "100 * rnd_q (2 / 3)"] two_thirds_bounds(2)
    by (simp add: two_thirds_bounds(1) rnd_def Let_def)
  then have q: "hasQuorum 0 [''v''] ?bc ?votes ''B''"
    by (simp add: hasQuorum_def cfg demo_active demo_totals voted_stake_def lookup0_def zero_float64_def Let_def)
  moreover have "\<not> hasQuorum 0 [''v''] ?bc ?votes ''C''"
    using no_two_quorums [OF vs whole cfg(1) _ q, of "''C''"] by auto
  ultimately show ?thesis by blast
qed

end
