(* ===== verification/Enrollment.thy ===== *)
theory Enrollment
  imports Accounts Go_Strings
begin

text \<open>
  Miner enrollment: the payloads and records of \<open>pkg/mining/enrollment/types.go\<close>, their stateless and
  stateful validation (\<open>validate.go\<close>), the work requirement of deferred bonds (\<open>deferred_bond.go\<close>) and
  the enrollment state of \<open>registry.go\<close>: two maps (records by node, active node by GPU) and the set of
  slashing evidence already used. Byte strings are \<open>string\<close>; ranging over a map is an explicit list of
  its keys. Canonical JSON (\<open>marshal\<close>) and SHA-256 (\<open>sha256\<close>, 32 bytes) are arguments.
\<close>

section \<open>Constants and data\<close>

definition ContractID :: string where "ContractID = ''qsdm/enroll/v1''"
definition SignedContractID :: string where "SignedContractID = ''qsdm/enroll/v2''"
definition SignedContractActivationHeight :: u64 where "SignedContractActivationHeight = 200000"
definition DeferredBondActivationHeight :: u64 where "DeferredBondActivationHeight = 0"
definition LegacyOwnerSunsetHeight :: u64 where "LegacyOwnerSunsetHeight = 171500"
definition DeferredBondWorkDifficulty :: u8 where "DeferredBondWorkDifficulty = 22"
definition BondModeUpfront :: string where "BondModeUpfront = ''upfront''"
definition BondModeMiningRewards :: string where "BondModeMiningRewards = ''mining_rewards''"
definition PayloadKindEnroll :: string where "PayloadKindEnroll = ''enroll''"
definition PayloadKindUnenroll :: string where "PayloadKindUnenroll = ''unenroll''"
definition UnbondWindow :: u64 where "UnbondWindow = 7 * 24 * 60 * 60 div 3"
definition MinHMACKeyLen :: nat where "MinHMACKeyLen = 32"
definition MaxHMACKeyLen :: nat where "MaxHMACKeyLen = 128"
definition MaxNodeIDLen :: nat where "MaxNodeIDLen = 64"
definition MaxGPUUUIDLen :: nat where "MaxGPUUUIDLen = 96"
definition MaxMemoLen :: nat where "MaxMemoLen = 256"
definition MinEnrollStakeDust :: u64 where "MinEnrollStakeDust = 10 * 100000000"

definition IsContractID :: "string \<Rightarrow> bool" where
  "IsContractID i \<longleftrightarrow> i = ContractID \<or> i = SignedContractID"

record EnrollPayload =
  ep_Kind :: string
  ep_NodeID :: string
  ep_GPUUUID :: string
  ep_HMACKey :: string
  ep_StakeDust :: u64
  ep_BondMode :: string
  ep_WorkNonce :: u64
  ep_Memo :: string

record UnenrollPayload =
  up_Kind :: string
  up_NodeID :: string
  up_Reason :: string

record EnrollmentRecord =
  er_NodeID :: string
  er_Owner :: string
  er_OperatorPublicKey :: string
  er_GPUUUID :: string
  er_HMACKey :: string
  er_StakeDust :: u64
  er_BondMode :: string
  er_RequiredStakeDust :: u64
  er_EnrolledAtHeight :: u64
  er_RevokedAtHeight :: u64
  er_UnbondMaturesAtHeight :: u64
  er_Memo :: string

definition Active :: "EnrollmentRecord \<Rightarrow> bool" where
  "Active r \<longleftrightarrow> er_RevokedAtHeight r = 0"

definition NormalizedBondMode :: "EnrollmentRecord \<Rightarrow> string" where
  "NormalizedBondMode r = (if er_BondMode r = [] then BondModeUpfront else er_BondMode r)"

definition RequiredBondDust :: "EnrollmentRecord \<Rightarrow> u64" where
  "RequiredBondDust r = (if er_RequiredStakeDust r \<noteq> 0 then er_RequiredStakeDust r else MinEnrollStakeDust)"

definition BondRemainingDust :: "EnrollmentRecord \<Rightarrow> u64" where
  "BondRemainingDust r =
     (let required = RequiredBondDust r
      in if required \<le> er_StakeDust r then 0 else required - er_StakeDust r)"

definition FullyBonded :: "EnrollmentRecord \<Rightarrow> bool" where
  "FullyBonded r \<longleftrightarrow> BondRemainingDust r = 0"

definition MatureForUnbond :: "EnrollmentRecord \<Rightarrow> u64 \<Rightarrow> bool" where
  "MatureForUnbond r currentHeight \<longleftrightarrow> \<not> Active r \<and> er_UnbondMaturesAtHeight r \<le> currentHeight"

section \<open>The state\<close>

record EnrollState =
  es_byNodeID :: "string \<rightharpoonup> EnrollmentRecord"
  es_byGPUActive :: "string \<rightharpoonup> string"
  es_seenEvidence :: "string set"

datatype state_error =
    NodePresent string
  | GPUBound string
  | NodeNotPresent string
  | NodeUnenrolled string

definition NewInMemoryState :: EnrollState where
  "NewInMemoryState = \<lparr>es_byNodeID = Map.empty, es_byGPUActive = Map.empty, es_seenEvidence = {}\<rparr>"

definition LookupNode :: "EnrollState \<Rightarrow> string \<Rightarrow> EnrollmentRecord option" where
  "LookupNode s nodeID = es_byNodeID s nodeID"

definition GPUUUIDBound :: "EnrollState \<Rightarrow> string \<Rightarrow> string" where
  "GPUUUIDBound s gpuUUID = (case es_byGPUActive s gpuUUID of None \<Rightarrow> [] | Some n \<Rightarrow> n)"

abbreviation put_record :: "EnrollState \<Rightarrow> string \<Rightarrow> EnrollmentRecord \<Rightarrow> EnrollState" where
  "put_record s n r \<equiv> s\<lparr>es_byNodeID := (es_byNodeID s)(n \<mapsto> r)\<rparr>"

definition ApplyEnroll :: "EnrollState \<Rightarrow> EnrollmentRecord \<Rightarrow> EnrollState \<times> state_error option" where
  "ApplyEnroll s rec =
     (if es_byNodeID s (er_NodeID rec) \<noteq> None then (s, Some (NodePresent (er_NodeID rec)))
      else if es_byGPUActive s (er_GPUUUID rec) \<noteq> None then (s, Some (GPUBound (er_GPUUUID rec)))
      else (s\<lparr>es_byNodeID := (es_byNodeID s)(er_NodeID rec \<mapsto> rec),
              es_byGPUActive := (es_byGPUActive s)(er_GPUUUID rec \<mapsto> er_NodeID rec)\<rparr>, None))"

text \<open>\<open>accrue_ids\<close> are the sorted nodes the reward is offered to; the loop stops when it is used up.\<close>

definition accruing :: "string \<Rightarrow> EnrollmentRecord \<Rightarrow> bool" where
  "accruing owner rec \<longleftrightarrow> Active rec \<and> er_Owner rec = owner \<and>
     NormalizedBondMode rec = BondModeMiningRewards \<and> \<not> FullyBonded rec"

definition accrue_ids :: "EnrollState \<Rightarrow> string list \<Rightarrow> string \<Rightarrow> string list" where
  "accrue_ids s ks owner = sort (filter (\<lambda>n. accruing owner (the (es_byNodeID s n))) ks)"

fun accrue_loop :: "EnrollState \<Rightarrow> string list \<Rightarrow> u64 \<Rightarrow> EnrollState \<times> u64" where
  "accrue_loop s [] remainingReward = (s, remainingReward)"
| "accrue_loop s (n # ns) remainingReward =
     (let rec = the (es_byNodeID s n);
          need = BondRemainingDust rec;
          locked = (if remainingReward < need then remainingReward else need);
          s1 = put_record s n (rec\<lparr>er_StakeDust := er_StakeDust rec + locked\<rparr>);
          left = remainingReward - locked
      in if left = 0 then (s1, left) else accrue_loop s1 ns left)"

definition AccrueBondFromReward :: "EnrollState \<Rightarrow> string list \<Rightarrow> string \<Rightarrow> u64 \<Rightarrow> EnrollState \<times> u64" where
  "AccrueBondFromReward s ks owner rewardDust =
     (if owner = [] \<or> rewardDust = 0 then (s, 0)
      else (let (s', remainingReward) = accrue_loop s (accrue_ids s ks owner) rewardDust
            in (s', rewardDust - remainingReward)))"

text \<open>Owners are 64 lower-case hexadecimal digits; on such strings \<open>strings.ToLower\<close> is the identity,
  and the digit test refuses everything else.\<close>

definition lower_hex :: "char \<Rightarrow> bool" where
  "lower_hex c \<longleftrightarrow> (CHR ''0'' \<le> c \<and> c \<le> CHR ''9'') \<or> (CHR ''a'' \<le> c \<and> c \<le> CHR ''f'')"

definition canonicalWalletOwner :: "string \<Rightarrow> bool" where
  "canonicalWalletOwner owner \<longleftrightarrow> length owner = 64 \<and> list_all lower_hex owner"

definition revoke_record :: "EnrollState \<Rightarrow> string \<Rightarrow> EnrollmentRecord \<Rightarrow> u64 \<Rightarrow> EnrollState" where
  "revoke_record s n rec height =
     s\<lparr>es_byNodeID := (es_byNodeID s)(n \<mapsto>
          rec\<lparr>er_RevokedAtHeight := height, er_UnbondMaturesAtHeight := height + UnbondWindow\<rparr>),
       es_byGPUActive := (es_byGPUActive s)(er_GPUUUID rec := None)\<rparr>"

record LegacyOwnerRevocation =
  lr_NodeID :: string
  lr_Owner :: string
  lr_GPUUUID :: string
  lr_StakeDust :: u64

fun revoke_legacy_loop ::
  "EnrollState \<Rightarrow> string list \<Rightarrow> LegacyOwnerRevocation list \<Rightarrow> EnrollState \<times> LegacyOwnerRevocation list" where
  "revoke_legacy_loop s [] revoked = (s, revoked)"
| "revoke_legacy_loop s (n # ns) revoked =
     (let rec = the (es_byNodeID s n)
      in if \<not> Active rec \<or> canonicalWalletOwner (er_Owner rec) then revoke_legacy_loop s ns revoked
         else revoke_legacy_loop (revoke_record s n rec LegacyOwnerSunsetHeight) ns
                (revoked @ [\<lparr>lr_NodeID = er_NodeID rec, lr_Owner = er_Owner rec,
                            lr_GPUUUID = er_GPUUUID rec, lr_StakeDust = er_StakeDust rec\<rparr>]))"

definition RevokeLegacyOwners ::
  "EnrollState \<Rightarrow> string list \<Rightarrow> u64 \<Rightarrow> EnrollState \<times> LegacyOwnerRevocation list" where
  "RevokeLegacyOwners s ks currentHeight =
     (if currentHeight < LegacyOwnerSunsetHeight then (s, []) else revoke_legacy_loop s (sort ks) [])"

definition ApplyUnenroll :: "EnrollState \<Rightarrow> string \<Rightarrow> u64 \<Rightarrow> EnrollState \<times> state_error option" where
  "ApplyUnenroll s nodeID currentHeight =
     (case es_byNodeID s nodeID of
        None \<Rightarrow> (s, Some (NodeNotPresent nodeID))
      | Some rec \<Rightarrow>
          if \<not> Active rec then (s, Some (NodeUnenrolled nodeID))
          else (revoke_record s nodeID rec currentHeight, None))"

record UnbondRelease =
  ur_NodeID :: string
  ur_Owner :: string
  ur_StakeDust :: u64

fun sweep_loop :: "EnrollState \<Rightarrow> string list \<Rightarrow> u64 \<Rightarrow> UnbondRelease list \<Rightarrow> EnrollState \<times> UnbondRelease list" where
  "sweep_loop s [] h released = (s, released)"
| "sweep_loop s (n # ns) h released =
     (let rec = the (es_byNodeID s n)
      in if MatureForUnbond rec h
         then sweep_loop (s\<lparr>es_byNodeID := (es_byNodeID s)(n := None)\<rparr>) ns h
                (released @ [\<lparr>ur_NodeID = n, ur_Owner = er_Owner rec, ur_StakeDust = er_StakeDust rec\<rparr>])
         else sweep_loop s ns h released)"

definition SweepMaturedUnbonds :: "EnrollState \<Rightarrow> string list \<Rightarrow> u64 \<Rightarrow> EnrollState \<times> UnbondRelease list" where
  "SweepMaturedUnbonds s ks currentHeight = sweep_loop s ks currentHeight []"

definition SlashStake :: "EnrollState \<Rightarrow> string \<Rightarrow> u64 \<Rightarrow> EnrollState \<times> (state_error + u64)" where
  "SlashStake s nodeID amount =
     (case es_byNodeID s nodeID of
        None \<Rightarrow> (s, Inl (NodeNotPresent nodeID))
      | Some rec \<Rightarrow>
          (let slashed = (if er_StakeDust rec < amount then er_StakeDust rec else amount)
           in (put_record s nodeID (rec\<lparr>er_StakeDust := er_StakeDust rec - slashed\<rparr>), Inr slashed)))"

definition RevokeIfUnderBonded ::
  "EnrollState \<Rightarrow> string \<Rightarrow> u64 \<Rightarrow> u64 \<Rightarrow> EnrollState \<times> (state_error + bool \<times> u64)" where
  "RevokeIfUnderBonded s nodeID currentHeight minStakeDust =
     (case es_byNodeID s nodeID of
        None \<Rightarrow> (s, Inl (NodeNotPresent nodeID))
      | Some rec \<Rightarrow>
          if \<not> Active rec \<or> minStakeDust = 0 \<or> minStakeDust \<le> er_StakeDust rec
          then (s, Inr (False, er_StakeDust rec))
          else (revoke_record s nodeID rec currentHeight, Inr (True, er_StakeDust rec)))"

definition EvidenceSeen :: "EnrollState \<Rightarrow> string \<Rightarrow> bool" where
  "EvidenceSeen s h \<longleftrightarrow> h \<in> es_seenEvidence s"

definition MarkEvidenceSeen :: "EnrollState \<Rightarrow> string \<Rightarrow> EnrollState \<times> bool" where
  "MarkEvidenceSeen s h =
     (if EvidenceSeen s h then (s, False)
      else (s\<lparr>es_seenEvidence := insert h (es_seenEvidence s)\<rparr>, True))"

record EnrollStats =
  st_ActiveCount :: u64
  st_BondedDust :: u64
  st_PendingUnbondCount :: u64
  st_PendingUnbondDust :: u64

definition stats_add :: "EnrollStats \<Rightarrow> EnrollmentRecord \<Rightarrow> EnrollStats" where
  "stats_add out rec =
     (if Active rec
      then out\<lparr>st_ActiveCount := st_ActiveCount out + 1, st_BondedDust := st_BondedDust out + er_StakeDust rec\<rparr>
      else if er_RevokedAtHeight rec \<noteq> 0
      then out\<lparr>st_PendingUnbondCount := st_PendingUnbondCount out + 1,
               st_PendingUnbondDust := st_PendingUnbondDust out + er_StakeDust rec\<rparr>
      else out)"

definition StatsOf :: "EnrollState \<Rightarrow> string list \<Rightarrow> EnrollStats" where
  "StatsOf s ks =
     foldl (\<lambda>out n. stats_add out (the (es_byNodeID s n)))
       \<lparr>st_ActiveCount = 0, st_BondedDust = 0, st_PendingUnbondCount = 0, st_PendingUnbondDust = 0\<rparr> ks"

section \<open>Listing\<close>

datatype ListPhase = PhaseAny | PhaseActive | PhasePendingUnbond | PhaseRevoked | PhaseOther string

record ListOptions =
  lo_Cursor :: string
  lo_Limit :: int
  lo_Phase :: ListPhase

record ListPage =
  lp_Records :: "EnrollmentRecord list"
  lp_NextCursor :: string
  lp_HasMore :: bool
  lp_TotalMatches :: nat

definition DefaultListLimit :: int where "DefaultListLimit = 50"
definition MaxListLimit :: int where "MaxListLimit = 500"

fun matchesPhase :: "EnrollmentRecord \<Rightarrow> ListPhase \<Rightarrow> bool" where
  "matchesPhase rec PhaseAny = True"
| "matchesPhase rec PhaseActive = Active rec"
| "matchesPhase rec PhasePendingUnbond = (\<not> Active rec \<and> 0 < er_StakeDust rec)"
| "matchesPhase rec PhaseRevoked = (\<not> Active rec \<and> er_StakeDust rec = 0)"
| "matchesPhase rec (PhaseOther _) = False"

text \<open>\<open>sort.SearchStrings\<close> on a sorted slice: the first position whose element is not below.\<close>

definition SearchStrings :: "string list \<Rightarrow> string \<Rightarrow> nat" where
  "SearchStrings xs x = length (takeWhile (\<lambda>y. y < x) xs)"

definition list_limit :: "int \<Rightarrow> nat" where
  "list_limit limit =
     nat (if limit \<le> 0 then DefaultListLimit else if MaxListLimit < limit then MaxListLimit else limit)"

definition list_matched :: "EnrollState \<Rightarrow> string list \<Rightarrow> ListPhase \<Rightarrow> string list" where
  "list_matched s ks phase = sort (filter (\<lambda>n. matchesPhase (the (es_byNodeID s n)) phase) ks)"

definition list_start :: "string list \<Rightarrow> string \<Rightarrow> nat" where
  "list_start matched cursor =
     (if cursor = [] then 0
      else (let i = SearchStrings matched cursor
            in if i < length matched \<and> matched ! i = cursor then i + 1 else i))"

definition ListState :: "EnrollState \<Rightarrow> string list \<Rightarrow> ListOptions \<Rightarrow> ListPage" where
  "ListState s ks opts =
     (let matched = list_matched s ks (lo_Phase opts);
          startIdx = list_start matched (lo_Cursor opts);
          stop = min (startIdx + list_limit (lo_Limit opts)) (length matched);
          page = take (stop - startIdx) (drop startIdx matched)
      in \<lparr>lp_Records = map (\<lambda>n. the (es_byNodeID s n)) page,
          lp_NextCursor = (if stop < length matched then last page else []),
          lp_HasMore = (stop < length matched),
          lp_TotalMatches = length matched\<rparr>)"

section \<open>The attestation view, state root, snapshots\<close>

record RegistryEntry =
  re_NodeID :: string
  re_Owner :: string
  re_OperatorPublicKey :: string
  re_GPUUUID :: string
  re_HMACKey :: string

datatype registry_error = NodeNotRegistered | NodeRevoked

definition RegistryLookup :: "EnrollState \<Rightarrow> string \<Rightarrow> registry_error + RegistryEntry" where
  "RegistryLookup s nodeID =
     (case LookupNode s nodeID of
        None \<Rightarrow> Inl NodeNotRegistered
      | Some rec \<Rightarrow>
          if \<not> Active rec then Inl NodeRevoked
          else Inr \<lparr>re_NodeID = er_NodeID rec, re_Owner = er_Owner rec,
                    re_OperatorPublicKey = er_OperatorPublicKey rec,
                    re_GPUUUID = er_GPUUUID rec, re_HMACKey = er_HMACKey rec\<rparr>)"

definition NUL :: char where "NUL = char_of (0::nat)"
definition NL :: char where "NL = char_of (10::nat)"

definition record_segment :: "EnrollmentRecord \<Rightarrow> string" where
  "record_segment rec =
     ''record'' @ [NUL] @ ''node='' @ er_NodeID rec @ [NUL] @ ''owner='' @ er_Owner rec @ [NUL] @
     ''operator='' @ er_OperatorPublicKey rec @ [NUL] @ ''gpu='' @ er_GPUUUID rec @ [NUL] @
     ''hmac='' @ EncodeToString (er_HMACKey rec) @ [NUL] @ ''stake='' @ show_nat (unat (er_StakeDust rec)) @ [NUL] @
     ''bond='' @ NormalizedBondMode rec @ [NUL] @ ''required='' @ show_nat (unat (RequiredBondDust rec)) @ [NUL] @
     ''enrolled='' @ show_nat (unat (er_EnrolledAtHeight rec)) @ [NUL] @
     ''revoked='' @ show_nat (unat (er_RevokedAtHeight rec)) @ [NUL] @
     ''matures='' @ show_nat (unat (er_UnbondMaturesAtHeight rec)) @ [NUL] @
     ''memo='' @ er_Memo rec @ [NL]"

text \<open>\<open>ks\<close> ranges over the records, \<open>hs\<close> over the evidence; \<open>hash\<close> is hex SHA-256.\<close>

definition enroll_root_preimage :: "EnrollState \<Rightarrow> string list \<Rightarrow> string list \<Rightarrow> string" where
  "enroll_root_preimage s ks hs =
     ''qsdm-enrollment-state-v1'' @ [NL] @ ''records='' @ show_nat (length ks) @ [NL] @
     concat (map (\<lambda>n. record_segment (the (es_byNodeID s n))) (sort ks)) @
     ''evidence='' @ show_nat (length hs) @ [NL] @
     concat (map (\<lambda>h. ''evidence:'' @ h @ [NL]) (sort (map EncodeToString hs)))"

definition EnrollStateRoot :: "(string \<Rightarrow> string) \<Rightarrow> EnrollState \<Rightarrow> string list \<Rightarrow> string list \<Rightarrow> string" where
  "EnrollStateRoot hash s ks hs =
     (if ks = [] \<and> hs = [] then [] else hash (enroll_root_preimage s ks hs))"

definition CloneState :: "EnrollState \<Rightarrow> EnrollState" where
  "CloneState s = \<lparr>es_byNodeID = es_byNodeID s, es_byGPUActive = es_byGPUActive s,
     es_seenEvidence = es_seenEvidence s\<rparr>"

definition RestoreState :: "EnrollState \<Rightarrow> EnrollState \<Rightarrow> EnrollState" where
  "RestoreState s src = s\<lparr>es_byNodeID := es_byNodeID src, es_byGPUActive := es_byGPUActive src,
     es_seenEvidence := es_seenEvidence src\<rparr>"

section \<open>Deferred-bond work\<close>

definition DeferredBondWorkDigest ::
  "(EnrollPayload \<Rightarrow> string option) \<Rightarrow> (string \<Rightarrow> string) \<Rightarrow> EnrollPayload \<Rightarrow> u64 \<Rightarrow> string option" where
  "DeferredBondWorkDigest marshal sha256 p nonce =
     map_option (\<lambda>raw. sha256 (''qsdm-deferred-bond-work-v1'' @ [NL] @ raw @ be64 nonce))
       (marshal (p\<lparr>ep_WorkNonce := 0\<rparr>))"

text \<open>Bytes are read as naturals: \<open>byte & (0xff << (8 - partial))\<close> is zero when the byte is below
  two to the power \<open>8 - partial\<close>.\<close>

definition hasLeadingZeroBits :: "string \<Rightarrow> u8 \<Rightarrow> bool" where
  "hasLeadingZeroBits digest bits \<longleftrightarrow>
     (let whole = unat bits div 8; partial = unat bits mod 8
      in (\<forall>i \<in> {..<whole}. of_char (digest ! i) = (0::nat)) \<and>
         (partial = 0 \<or> (of_char (digest ! whole) :: nat) div 2 ^ (8 - partial) = 0))"

datatype validate_enroll_error =
    PayloadInvalid string
  | StakeMismatch
  | CanonicalizeFailed
  | EnrollInsufficientBalance
  | NodeIDTaken string
  | GPUUUIDTaken string
  | NodeNotOwned string
  | NodeAlreadyUnenrolled string

definition ValidateDeferredBondWork ::
  "(EnrollPayload \<Rightarrow> string option) \<Rightarrow> (string \<Rightarrow> string) \<Rightarrow> EnrollPayload \<Rightarrow> validate_enroll_error option" where
  "ValidateDeferredBondWork marshal sha256 p =
     (case DeferredBondWorkDigest marshal sha256 p (ep_WorkNonce p) of
        None \<Rightarrow> Some CanonicalizeFailed
      | Some digest \<Rightarrow>
          if hasLeadingZeroBits digest DeferredBondWorkDifficulty then None
          else Some (PayloadInvalid ''work''))"

datatype find_work_result = WorkFound u64 u64 | WorkDigestError u64 | WorkExhausted u64

text \<open>The search tries every nonce below the largest one, counting attempts.\<close>

function find_work ::
  "(EnrollPayload \<Rightarrow> string option) \<Rightarrow> (string \<Rightarrow> string) \<Rightarrow> EnrollPayload \<Rightarrow> u64 \<Rightarrow> u64 \<Rightarrow> find_work_result" where
  "find_work marshal sha256 p nonce attempts =
     (if max_u64 \<le> nonce then WorkExhausted attempts
      else (case DeferredBondWorkDigest marshal sha256 p nonce of
              None \<Rightarrow> WorkDigestError attempts
            | Some digest \<Rightarrow>
                if hasLeadingZeroBits digest DeferredBondWorkDifficulty
                then WorkFound nonce (attempts + 1)
                else find_work marshal sha256 p (nonce + 1) (attempts + 1)))"
  by pat_completeness auto
termination
proof (relation "measure (\<lambda>(_, _, _, nonce, _). 2 ^ 64 - unat nonce)")
  fix marshal :: "EnrollPayload \<Rightarrow> string option" and sha256 :: "string \<Rightarrow> string"
    and p :: EnrollPayload and nonce attempts :: u64 and d :: string
  assume "\<not> max_u64 \<le> nonce"
  then have lt: "unat nonce < 18446744073709551615" by (simp add: word_le_nat_alt)
  then have "unat (nonce + 1) = unat nonce + 1" by (intro unat_Suc_fits) simp
  with lt show "((marshal, sha256, p, nonce + 1, attempts + 1), (marshal, sha256, p, nonce, attempts))
      \<in> measure (\<lambda>(_, _, _, nonce, _). 2 ^ 64 - unat nonce)" by simp
qed simp

declare find_work.simps [simp del]

definition FindDeferredBondWork ::
  "(EnrollPayload \<Rightarrow> string option) \<Rightarrow> (string \<Rightarrow> string) \<Rightarrow> EnrollPayload \<Rightarrow> find_work_result" where
  "FindDeferredBondWork marshal sha256 p = find_work marshal sha256 p 0 0"

section \<open>Validation\<close>

definition node_char :: "char \<Rightarrow> bool" where
  "node_char c \<longleftrightarrow> (CHR ''a'' \<le> c \<and> c \<le> CHR ''z'') \<or> (CHR ''0'' \<le> c \<and> c \<le> CHR ''9'') \<or>
     c = CHR ''-'' \<or> c = CHR ''_''"

definition validateNodeID :: "string \<Rightarrow> validate_enroll_error option" where
  "validateNodeID nodeID =
     (if nodeID = [] then Some (PayloadInvalid ''node_id'')
      else if MaxNodeIDLen < length nodeID then Some (PayloadInvalid ''node_id'')
      else if list_all node_char nodeID then None else Some (PayloadInvalid ''node_id''))"

definition validateGPUUUID :: "string \<Rightarrow> validate_enroll_error option" where
  "validateGPUUUID uuid =
     (if uuid = [] then Some (PayloadInvalid ''gpu_uuid'')
      else if MaxGPUUUIDLen < length uuid then Some (PayloadInvalid ''gpu_uuid'')
      else if list_ex (\<lambda>c. (of_char c :: nat) < 33 \<or> 126 < (of_char c :: nat)) uuid
      then Some (PayloadInvalid ''gpu_uuid'')
      else if take 4 uuid = ''gpu-'' then Some (PayloadInvalid ''gpu_uuid'')
      else None)"

definition validate_bond_mode ::
  "(EnrollPayload \<Rightarrow> string option) \<Rightarrow> (string \<Rightarrow> string) \<Rightarrow> EnrollPayload \<Rightarrow> validate_enroll_error option" where
  "validate_bond_mode marshal sha256 p =
     (if ep_BondMode p = [] \<or> ep_BondMode p = BondModeUpfront
      then (if ep_StakeDust p \<noteq> MinEnrollStakeDust then Some StakeMismatch
            else if ep_WorkNonce p \<noteq> 0 then Some (PayloadInvalid ''work_nonce'') else None)
      else if ep_BondMode p = BondModeMiningRewards
      then (if ep_StakeDust p \<noteq> 0 then Some StakeMismatch else ValidateDeferredBondWork marshal sha256 p)
      else Some (PayloadInvalid ''bond_mode''))"

definition ValidateEnrollFields ::
  "(EnrollPayload \<Rightarrow> string option) \<Rightarrow> (string \<Rightarrow> string) \<Rightarrow> EnrollPayload \<Rightarrow> string \<Rightarrow> validate_enroll_error option" where
  "ValidateEnrollFields marshal sha256 p sender =
     (if ep_Kind p \<noteq> PayloadKindEnroll then Some (PayloadInvalid ''kind'')
      else if validateNodeID (ep_NodeID p) \<noteq> None then validateNodeID (ep_NodeID p)
      else if validateGPUUUID (ep_GPUUUID p) \<noteq> None then validateGPUUUID (ep_GPUUUID p)
      else if length (ep_HMACKey p) < MinHMACKeyLen then Some (PayloadInvalid ''hmac_key'')
      else if MaxHMACKeyLen < length (ep_HMACKey p) then Some (PayloadInvalid ''hmac_key'')
      else if validate_bond_mode marshal sha256 p \<noteq> None then validate_bond_mode marshal sha256 p
      else if MaxMemoLen < length (ep_Memo p) then Some (PayloadInvalid ''memo'')
      else if sender = [] then Some (PayloadInvalid ''sender'')
      else None)"

definition ValidateUnenrollFields :: "UnenrollPayload \<Rightarrow> string \<Rightarrow> validate_enroll_error option" where
  "ValidateUnenrollFields p sender =
     (if up_Kind p \<noteq> PayloadKindUnenroll then Some (PayloadInvalid ''kind'')
      else if validateNodeID (up_NodeID p) \<noteq> None then validateNodeID (up_NodeID p)
      else if MaxMemoLen < length (up_Reason p) then Some (PayloadInvalid ''reason'')
      else if sender = [] then Some (PayloadInvalid ''sender'')
      else None)"

definition ValidateEnrollAgainstState ::
  "EnrollPayload \<Rightarrow> u64 \<Rightarrow> EnrollState \<Rightarrow> validate_enroll_error option" where
  "ValidateEnrollAgainstState p senderBalanceDust s =
     (if ep_BondMode p \<noteq> BondModeMiningRewards \<and> senderBalanceDust < ep_StakeDust p
      then Some EnrollInsufficientBalance
      else if LookupNode s (ep_NodeID p) \<noteq> None then Some (NodeIDTaken (ep_NodeID p))
      else if GPUUUIDBound s (ep_GPUUUID p) \<noteq> [] then Some (GPUUUIDTaken (GPUUUIDBound s (ep_GPUUUID p)))
      else None)"

definition ValidateUnenrollAgainstState ::
  "UnenrollPayload \<Rightarrow> string \<Rightarrow> EnrollState \<Rightarrow> validate_enroll_error option" where
  "ValidateUnenrollAgainstState p sender s =
     (case LookupNode s (up_NodeID p) of
        None \<Rightarrow> Some (NodeNotOwned (up_NodeID p))
      | Some rec \<Rightarrow>
          if er_Owner rec \<noteq> sender then Some (NodeNotOwned (up_NodeID p))
          else if \<not> Active rec then Some (NodeAlreadyUnenrolled (up_NodeID p))
          else None)"

section \<open>The state invariant\<close>

definition enroll_inv :: "EnrollState \<Rightarrow> bool" where
  "enroll_inv s \<longleftrightarrow>
     finite (dom (es_byNodeID s)) \<and>
     (\<forall>n r. es_byNodeID s n = Some r \<longrightarrow> er_NodeID r = n) \<and>
     (\<forall>g n. es_byGPUActive s g = Some n \<longleftrightarrow>
        (\<exists>r. es_byNodeID s n = Some r \<and> Active r \<and> er_GPUUUID r = g))"

lemma enroll_invD:
  assumes "enroll_inv s"
  shows "finite (dom (es_byNodeID s))" and "\<And>n r. es_byNodeID s n = Some r \<Longrightarrow> er_NodeID r = n"
    and "\<And>g n. es_byGPUActive s g = Some n \<longleftrightarrow> (\<exists>r. es_byNodeID s n = Some r \<and> Active r \<and> er_GPUUUID r = g)"
  using assms unfolding enroll_inv_def by blast+

text \<open>A record may change as long as it keeps its node, its GPU and its activity.\<close>

lemma put_same_inv:
  assumes "enroll_inv s" and "es_byNodeID s n = Some r"
    and "er_NodeID r' = er_NodeID r" and "er_GPUUUID r' = er_GPUUUID r" and "Active r' = Active r"
  shows "enroll_inv (put_record s n r')"
  using assms unfolding enroll_inv_def by auto

lemma stake_only [simp]:
  "Active (r\<lparr>er_StakeDust := d\<rparr>) = Active r"
  "RequiredBondDust (r\<lparr>er_StakeDust := d\<rparr>) = RequiredBondDust r"
  "NormalizedBondMode (r\<lparr>er_StakeDust := d\<rparr>) = NormalizedBondMode r"
  by (simp_all add: Active_def RequiredBondDust_def NormalizedBondMode_def)

lemma revoke_inv:
  assumes inv: "enroll_inv s" and r: "es_byNodeID s n = Some r" "Active r" and h: "h \<noteq> 0"
  shows "enroll_inv (revoke_record s n r h)"
proof -
  note w = enroll_invD [OF inv]
  let ?r = "r\<lparr>er_RevokedAtHeight := h, er_UnbondMaturesAtHeight := h + UnbondWindow\<rparr>"
  have g: "es_byGPUActive s (er_GPUUUID r) = Some n" using w(3) r by blast
  have inactive: "\<not> Active ?r" using h by (simp add: Active_def)
  have "(if g = er_GPUUUID r then None else es_byGPUActive s g) = Some m \<longleftrightarrow>
      (\<exists>q. ((es_byNodeID s)(n \<mapsto> ?r)) m = Some q \<and> Active q \<and> er_GPUUUID q = g)" for g m
  proof (cases "m = n")
    case True
    have "es_byGPUActive s g = Some n \<Longrightarrow> g = er_GPUUUID r" using w(3) r(1) by auto
    with True inactive show ?thesis by auto
  next
    case False
    have "er_GPUUUID q \<noteq> er_GPUUUID r" if "es_byNodeID s m = Some q" "Active q" for q
      using w(3) [of "er_GPUUUID q" m] that g False by auto
    with False w(3) [of g m] show ?thesis by auto
  qed
  with inv r show ?thesis by (auto simp: enroll_inv_def revoke_record_def)
qed

lemma enroll_apply_inv:
  assumes inv: "enroll_inv s" and act: "Active r"
  shows "enroll_inv (fst (ApplyEnroll s r))"
proof (cases "es_byNodeID s (er_NodeID r) = None \<and> es_byGPUActive s (er_GPUUUID r) = None")
  case True
  note w = enroll_invD [OF inv]
  have free: "er_GPUUUID q \<noteq> er_GPUUUID r" if "es_byNodeID s m = Some q" "Active q" for m q
    using w(3) [of "er_GPUUUID q" m] that True by auto
  have "((es_byGPUActive s)(er_GPUUUID r \<mapsto> er_NodeID r)) g = Some m \<longleftrightarrow>
      (\<exists>q. ((es_byNodeID s)(er_NodeID r \<mapsto> r)) m = Some q \<and> Active q \<and> er_GPUUUID q = g)" for g m
    using w(3) [of g m] act True free by (cases "m = er_NodeID r"; cases "g = er_GPUUUID r") auto
  with True inv show ?thesis by (auto simp: ApplyEnroll_def enroll_inv_def)
qed (auto simp: ApplyEnroll_def inv)

lemma accrue_loop_inv:
  "enroll_inv s \<Longrightarrow> \<forall>n \<in> set ns. es_byNodeID s n \<noteq> None \<Longrightarrow> enroll_inv (fst (accrue_loop s ns x))"
proof (induction ns arbitrary: s x)
  case (Cons n ns)
  then obtain r where r: "es_byNodeID s n = Some r" by auto
  have step: "enroll_inv (put_record s n (r\<lparr>er_StakeDust := d\<rparr>))" for d
    using put_same_inv [OF Cons.prems(1) r] by simp
  show ?case using step Cons.IH [OF step] Cons.prems(2) r by (auto simp: Let_def)
qed simp

lemma sunset_nonzero [simp]: "LegacyOwnerSunsetHeight \<noteq> 0"
  by (simp add: LegacyOwnerSunsetHeight_def)

lemma revoke_legacy_loop_inv:
  "enroll_inv s \<Longrightarrow> \<forall>n \<in> set ns. es_byNodeID s n \<noteq> None \<Longrightarrow> enroll_inv (fst (revoke_legacy_loop s ns out))"
proof (induction ns arbitrary: s out)
  case (Cons n ns)
  then obtain r where r: "es_byNodeID s n = Some r" by auto
  have keep: "\<forall>m \<in> set ns. es_byNodeID (revoke_record s n r LegacyOwnerSunsetHeight) m \<noteq> None"
    using Cons.prems(2) by (simp add: revoke_record_def)
  show ?case
    using r Cons.prems Cons.IH [OF revoke_inv [OF Cons.prems(1) r _ sunset_nonzero] keep]
      Cons.IH [OF Cons.prems(1)] by (auto simp: Let_def)
qed simp

lemma delete_inactive_inv:
  assumes "enroll_inv s" and "es_byNodeID s n = Some r" and "\<not> Active r"
  shows "enroll_inv (s\<lparr>es_byNodeID := (es_byNodeID s)(n := None)\<rparr>)"
proof -
  have "es_byGPUActive s g = Some m \<longleftrightarrow>
      (\<exists>q. ((es_byNodeID s)(n := None)) m = Some q \<and> Active q \<and> er_GPUUUID q = g)" for g m
    using enroll_invD(3) [OF assms(1), of g m] assms(2,3) by (cases "m = n") auto
  with assms(1) show ?thesis by (auto simp: enroll_inv_def)
qed

lemma sweep_loop_inv:
  "enroll_inv s \<Longrightarrow> distinct ns \<Longrightarrow> \<forall>n \<in> set ns. es_byNodeID s n \<noteq> None \<Longrightarrow> enroll_inv (fst (sweep_loop s ns h out))"
proof (induction ns arbitrary: s out)
  case (Cons n ns)
  then obtain r where r: "es_byNodeID s n = Some r" by auto
  show ?case
  proof (cases "MatureForUnbond r h")
    case True
    then have "\<not> Active r" by (simp add: MatureForUnbond_def)
    note del = delete_inactive_inv [OF Cons.prems(1) r this]
    have "\<forall>m \<in> set ns. ((es_byNodeID s)(n := None)) m \<noteq> None" using Cons.prems(2,3) by auto
    with Cons.IH [OF del] Cons.prems(2) True r show ?thesis by (simp add: Let_def)
  next
    case False
    with Cons r show ?thesis by (simp add: Let_def)
  qed
qed simp

lemma slash_inv: "enroll_inv s \<Longrightarrow> enroll_inv (fst (SlashStake s n x))"
  by (auto simp: SlashStake_def Let_def split: option.split intro: put_same_inv)

lemma unenroll_inv: "enroll_inv s \<Longrightarrow> h \<noteq> 0 \<Longrightarrow> enroll_inv (fst (ApplyUnenroll s n h))"
  by (auto simp: ApplyUnenroll_def split: option.split intro: revoke_inv)

lemma underbonded_inv: "enroll_inv s \<Longrightarrow> h \<noteq> 0 \<Longrightarrow> enroll_inv (fst (RevokeIfUnderBonded s n h x))"
  by (auto simp: RevokeIfUnderBonded_def split: option.split intro: revoke_inv)

lemma mark_inv: "enroll_inv s \<Longrightarrow> enroll_inv (fst (MarkEvidenceSeen s e))"
  by (auto simp: MarkEvidenceSeen_def enroll_inv_def)

inductive enroll_step :: "EnrollState \<Rightarrow> EnrollState \<Rightarrow> bool" where
  step_enroll: "er_RevokedAtHeight r = 0 \<Longrightarrow> enroll_step s (fst (ApplyEnroll s r))"
| step_accrue: "iteration (es_byNodeID s) ks \<Longrightarrow> enroll_step s (fst (AccrueBondFromReward s ks owner x))"
| step_legacy: "iteration (es_byNodeID s) ks \<Longrightarrow> enroll_step s (fst (RevokeLegacyOwners s ks h))"
| step_unenroll: "h \<noteq> 0 \<Longrightarrow> enroll_step s (fst (ApplyUnenroll s n h))"
| step_sweep: "iteration (es_byNodeID s) ks \<Longrightarrow> enroll_step s (fst (SweepMaturedUnbonds s ks h))"
| step_slash: "enroll_step s (fst (SlashStake s n x))"
| step_revoke: "h \<noteq> 0 \<Longrightarrow> enroll_step s (fst (RevokeIfUnderBonded s n h x))"
| step_mark: "enroll_step s (fst (MarkEvidenceSeen s e))"

inductive enroll_reach :: "EnrollState \<Rightarrow> bool" where
  enroll_start: "enroll_reach NewInMemoryState"
| enroll_next: "enroll_reach s \<Longrightarrow> enroll_step s t \<Longrightarrow> enroll_reach t"

lemma accrue_inv:
  assumes "enroll_inv s" and "iteration (es_byNodeID s) ks"
  shows "enroll_inv (fst (AccrueBondFromReward s ks owner x))"
proof -
  have "\<forall>n \<in> set (accrue_ids s ks owner). es_byNodeID s n \<noteq> None"
    using iterationD(2) [OF assms(2)] by (auto simp: accrue_ids_def)
  from accrue_loop_inv [OF assms(1) this, of x] show ?thesis
    using assms(1) by (simp add: AccrueBondFromReward_def case_prod_beta Let_def)
qed

lemma enroll_step_inv: "enroll_step s t \<Longrightarrow> enroll_inv s \<Longrightarrow> enroll_inv t"
proof (induction rule: enroll_step.induct)
  case (step_legacy s ks h)
  then show ?case using iterationD(2) [OF step_legacy(1)] revoke_legacy_loop_inv [of s "sort ks"]
    by (auto simp: RevokeLegacyOwners_def)
next
  case (step_sweep s ks h)
  then show ?case using iterationD(1,2) [OF step_sweep(1)] sweep_loop_inv [of s ks]
    by (auto simp: SweepMaturedUnbonds_def)
qed (simp_all add: enroll_apply_inv accrue_inv unenroll_inv slash_inv underbonded_inv mark_inv Active_def)

lemma enroll_reach_inv: "enroll_reach s \<Longrightarrow> enroll_inv s"
  by (induction rule: enroll_reach.induct)
    (auto simp: enroll_inv_def NewInMemoryState_def dest: enroll_step_inv)

text \<open>
  C8. In every enrollment state that the operations can reach (with revocations at heights above zero),
  at most one active record is bound to a GPU, the GPU index names exactly that record's node, and
  the attestation registry serves exactly the active records.
\<close>

theorem one_active_node_per_gpu:
  assumes "enroll_reach s"
  shows "(\<forall>m n q r. es_byNodeID s m = Some q \<and> es_byNodeID s n = Some r \<and> Active q \<and> Active r \<and>
            er_GPUUUID q = er_GPUUUID r \<longrightarrow> m = n) \<and>
         (\<forall>g n. es_byGPUActive s g = Some n \<longleftrightarrow>
            (\<exists>r. LookupNode s n = Some r \<and> Active r \<and> er_GPUUUID r = g)) \<and>
         (\<forall>n. (\<exists>e. RegistryLookup s n = Inr e \<and> re_NodeID e = n) \<longleftrightarrow>
            (\<exists>r. LookupNode s n = Some r \<and> Active r))"
proof -
  note w = enroll_invD [OF enroll_reach_inv [OF assms]]
  have "m = n" if "es_byNodeID s m = Some q" "es_byNodeID s n = Some r" "Active q" "Active r"
    "er_GPUUUID q = er_GPUUUID r" for m n q r
    using w(3) [of "er_GPUUUID q" m] w(3) [of "er_GPUUUID q" n] that by auto
  moreover have "(\<exists>e. RegistryLookup s n = Inr e \<and> re_NodeID e = n) \<longleftrightarrow>
      (\<exists>r. LookupNode s n = Some r \<and> Active r)" for n
    using w(2) [of n] by (auto simp: RegistryLookup_def LookupNode_def split: option.splits if_splits)
  ultimately show ?thesis using w(3) by (auto simp: LookupNode_def)
qed

definition demo_record :: EnrollmentRecord where
  "demo_record = \<lparr>er_NodeID = ''rig'', er_Owner = ''o'', er_OperatorPublicKey = [], er_GPUUUID = ''GPU-1'',
     er_HMACKey = [], er_StakeDust = 0, er_BondMode = BondModeMiningRewards,
     er_RequiredStakeDust = MinEnrollStakeDust, er_EnrolledAtHeight = 7, er_RevokedAtHeight = 0,
     er_UnbondMaturesAtHeight = 0, er_Memo = []\<rparr>"

definition demo_enrolled :: EnrollState where
  "demo_enrolled = fst (ApplyEnroll NewInMemoryState demo_record)"

lemma demo_enrolled_reach: "enroll_reach demo_enrolled"
  unfolding demo_enrolled_def
  by (rule enroll_next [OF enroll_start step_enroll]) (simp add: demo_record_def)

lemma demo_enrolled_eq:
  "es_byNodeID demo_enrolled = [''rig'' \<mapsto> demo_record]" "es_byGPUActive demo_enrolled = [''GPU-1'' \<mapsto> ''rig'']"
  by (simp_all add: demo_enrolled_def ApplyEnroll_def NewInMemoryState_def demo_record_def)

theorem one_active_node_per_gpu_witness:
  "es_byGPUActive demo_enrolled ''GPU-1'' = Some ''rig'' \<and>
   (\<exists>r. LookupNode demo_enrolled ''rig'' = Some r \<and> Active r \<and> er_GPUUUID r = ''GPU-1'')"
proof -
  have "es_byGPUActive demo_enrolled ''GPU-1'' = Some ''rig'' \<longleftrightarrow>
      (\<exists>r. LookupNode demo_enrolled ''rig'' = Some r \<and> Active r \<and> er_GPUUUID r = ''GPU-1'')"
    using one_active_node_per_gpu [OF demo_enrolled_reach] by blast
  moreover have "es_byGPUActive demo_enrolled ''GPU-1'' = Some ''rig''" by (simp add: demo_enrolled_eq)
  ultimately show ?thesis by blast
qed

section \<open>Stake accounting\<close>

definition stake_total :: "EnrollState \<Rightarrow> nat" where
  "stake_total s = sum_over (\<lambda>r. unat (er_StakeDust r)) (es_byNodeID s)"

lemma stake_total_put:
  "finite (dom (es_byNodeID s)) \<Longrightarrow> es_byNodeID s n = Some r \<Longrightarrow>
     stake_total (put_record s n r') + unat (er_StakeDust r) = stake_total s + unat (er_StakeDust r')"
  using sum_over_upd [of "es_byNodeID s" "\<lambda>r. unat (er_StakeDust r)" n r'] by (simp add: stake_total_def)

lemma bond_remaining:
  "unat (er_StakeDust r) + unat (BondRemainingDust r) =
     max (unat (er_StakeDust r)) (unat (RequiredBondDust r))"
  using unat_minus_le [of "er_StakeDust r" "RequiredBondDust r"]
  by (auto simp: BondRemainingDust_def Let_def word_le_nat_alt)

text \<open>What one record gains from a reward \<open>x\<close>: the smaller of what it needs and what is left.\<close>

abbreviation locked_of :: "EnrollmentRecord \<Rightarrow> u64 \<Rightarrow> u64" where
  "locked_of r x \<equiv> (if x < BondRemainingDust r then x else BondRemainingDust r)"

lemma locked_of_facts:
  assumes "\<not> FullyBonded r"
  shows "unat (er_StakeDust r + locked_of r x) = unat (er_StakeDust r) + unat (locked_of r x)"
    and "unat (x - locked_of r x) + unat (locked_of r x) = unat x"
    and "er_StakeDust r + locked_of r x \<le> RequiredBondDust r"
    and "x - locked_of r x \<noteq> 0 \<Longrightarrow> FullyBonded (r\<lparr>er_StakeDust := er_StakeDust r + locked_of r x\<rparr>)"
proof -
  have rem: "unat (er_StakeDust r) + unat (BondRemainingDust r) = unat (RequiredBondDust r)"
    using assms bond_remaining [of r]
    by (auto simp: FullyBonded_def max_def unsigned_eq_0_iff split: if_splits)
  have le: "unat (er_StakeDust r) + unat (locked_of r x) \<le> unat (RequiredBondDust r)"
    using rem by (auto simp: word_less_nat_alt)
  then show s: "unat (er_StakeDust r + locked_of r x) = unat (er_StakeDust r) + unat (locked_of r x)"
    using le_unat_fits [OF le] by (intro unat_plus_fits) simp
  with le show "er_StakeDust r + locked_of r x \<le> RequiredBondDust r" by (simp add: word_le_nat_alt)
  have "locked_of r x \<le> x" by (simp add: linorder_not_less)
  then show "unat (x - locked_of r x) + unat (locked_of r x) = unat x"
    by (simp only: unat_minus_le word_le_nat_alt le_add_diff_inverse2)
  assume "x - locked_of r x \<noteq> 0"
  then have "locked_of r x = BondRemainingDust r" by (simp split: if_splits)
  with s rem have "unat (er_StakeDust r + locked_of r x) = unat (RequiredBondDust r)" by simp
  then show "FullyBonded (r\<lparr>er_StakeDust := er_StakeDust r + locked_of r x\<rparr>)"
    by (simp add: FullyBonded_def BondRemainingDust_def Let_def word_le_nat_alt)
qed

lemma accrue_loop_stake:
  assumes "finite (dom (es_byNodeID s))" and "distinct ns"
    and "\<forall>n \<in> set ns. \<exists>r. es_byNodeID s n = Some r \<and> \<not> FullyBonded r"
    and "accrue_loop s ns x = (s', y)"
  shows "stake_total s' + unat y = stake_total s + unat x"
  using assms
proof (induction ns arbitrary: s x)
  case (Cons n ns)
  then obtain r where r: "es_byNodeID s n = Some r" "\<not> FullyBonded r" by auto
  let ?s = "put_record s n (r\<lparr>er_StakeDust := er_StakeDust r + locked_of r x\<rparr>)"
  have step: "stake_total ?s = stake_total s + unat (locked_of r x)"
    using stake_total_put [OF Cons.prems(1) r(1), of "r\<lparr>er_StakeDust := er_StakeDust r + locked_of r x\<rparr>"]
      locked_of_facts(1) [OF r(2), of x] by simp
  show ?case
  proof (cases "x - locked_of r x = 0")
    case True
    then show ?thesis using Cons.prems(4) r(1) step locked_of_facts(2) [OF r(2), of x] by (auto simp: Let_def)
  next
    case False
    then have "accrue_loop ?s ns (x - locked_of r x) = (s', y)" using Cons.prems(4) r(1) by (simp add: Let_def)
    from Cons.IH [OF _ _ _ this] Cons.prems(1-3) step locked_of_facts(2) [OF r(2), of x]
    show ?thesis by fastforce
  qed
qed simp

lemma accrue_loop_le: "accrue_loop s ns x = (s', y) \<Longrightarrow> unat y \<le> unat x"
proof (induction ns arbitrary: s x)
  case (Cons n ns)
  let ?r = "the (es_byNodeID s n)"
  have "locked_of ?r x \<le> x" by (simp add: linorder_not_less)
  then have "unat (x - locked_of ?r x) \<le> unat x" by (simp only: unat_minus_le diff_le_self)
  with Cons show ?case by (fastforce simp: Let_def split: if_splits)
qed simp

text \<open>What happens to each record: only stakes of the listed nodes move, up to their requirement, and
  if anything of the reward is left over, all of them are fully bonded.\<close>

lemma accrue_loop_records:
  assumes "distinct ns" and "\<forall>n \<in> set ns. \<exists>r. es_byNodeID s n = Some r \<and> \<not> FullyBonded r"
    and "accrue_loop s ns x = (s', y)"
  shows "(\<forall>n. n \<notin> set ns \<longrightarrow> es_byNodeID s' n = es_byNodeID s n) \<and>
         (\<forall>n \<in> set ns. \<exists>d. es_byNodeID s' n = Some ((the (es_byNodeID s n))\<lparr>er_StakeDust := d\<rparr>) \<and>
            er_StakeDust (the (es_byNodeID s n)) \<le> d \<and> d \<le> RequiredBondDust (the (es_byNodeID s n)) \<and>
            (y \<noteq> 0 \<longrightarrow> FullyBonded ((the (es_byNodeID s n))\<lparr>er_StakeDust := d\<rparr>)))"
  using assms
proof (induction ns arbitrary: s x)
  case (Cons n ns)
  then obtain r where r: "es_byNodeID s n = Some r" "\<not> FullyBonded r" by auto
  let ?d = "er_StakeDust r + locked_of r x"
  let ?s = "put_record s n (r\<lparr>er_StakeDust := ?d\<rparr>)"
  note f = locked_of_facts [OF r(2), of x]
  have up: "er_StakeDust r \<le> ?d" using f(1) by (simp only: word_le_nat_alt)
  show ?case
  proof (cases "x - locked_of r x = 0")
    case True
    then have e: "s' = ?s" "y = 0" using Cons.prems(3) r(1) by (simp_all add: Let_def split: if_splits)
    have "\<exists>d. es_byNodeID s m = Some ((the (es_byNodeID s m))\<lparr>er_StakeDust := d\<rparr>) \<and>
        er_StakeDust (the (es_byNodeID s m)) \<le> d \<and> d \<le> RequiredBondDust (the (es_byNodeID s m))"
      if m: "m \<in> set ns" for m
    proof -
      obtain q where q: "es_byNodeID s m = Some q" "\<not> FullyBonded q" using Cons.prems(2) m by auto
      then have "er_StakeDust q \<le> RequiredBondDust q"
        by (auto simp: FullyBonded_def BondRemainingDust_def Let_def split: if_splits)
      with q(1) show ?thesis by (intro exI [of _ "er_StakeDust q"]) simp
    qed
    with e r(1) up f(3) Cons.prems(1) show ?thesis by auto
  next
    case False
    then have d: "accrue_loop ?s ns (x - locked_of r x) = (s', y)" using Cons.prems(3) r(1) by (simp add: Let_def)
    have pre: "\<forall>m \<in> set ns. \<exists>q. es_byNodeID ?s m = Some q \<and> \<not> FullyBonded q" using Cons.prems(1,2) by auto
    have same: "\<forall>m \<in> set ns. es_byNodeID ?s m = es_byNodeID s m" using Cons.prems(1) by auto
    have "es_byNodeID s' n = Some (r\<lparr>er_StakeDust := ?d\<rparr>)"
      using Cons.IH [OF _ pre d] Cons.prems(1) by simp
    with Cons.IH [OF _ pre d] Cons.prems(1) same r(1) up f(3) f(4) [OF False] show ?thesis by auto
  qed
qed simp

lemma accrual_facts:
  assumes inv: "enroll_inv s" and ks: "iteration (es_byNodeID s) ks" and owner: "owner \<noteq> []"
    and r: "AccrueBondFromReward s ks owner reward = (s', locked)"
  shows "locked \<le> reward \<and> stake_total s' = stake_total s + unat locked \<and>
         (\<forall>n. es_byNodeID s' n = es_byNodeID s n \<or>
            (\<exists>q d. es_byNodeID s n = Some q \<and> accruing owner q \<and>
               es_byNodeID s' n = Some (q\<lparr>er_StakeDust := d\<rparr>) \<and> er_StakeDust q \<le> d \<and> d \<le> RequiredBondDust q)) \<and>
         (locked < reward \<longrightarrow> (\<forall>n q. es_byNodeID s' n = Some q \<longrightarrow> \<not> accruing owner q))"
proof (cases "reward = 0")
  case True
  with r owner show ?thesis by (simp add: AccrueBondFromReward_def)
next
  case False
  let ?ns = "accrue_ids s ks owner"
  obtain y where d: "accrue_loop s ?ns reward = (s', y)" and l: "locked = reward - y"
    using r False owner by (auto simp: AccrueBondFromReward_def split: prod.splits)
  have dist: "distinct ?ns" using iterationD(1) [OF ks] by (simp add: accrue_ids_def)
  have mem: "n \<in> set ?ns \<longleftrightarrow> (\<exists>q. es_byNodeID s n = Some q \<and> accruing owner q)" for n
    using iterationD(2) [OF ks] by (auto simp: accrue_ids_def)
  then have pre: "\<forall>n \<in> set ?ns. \<exists>q. es_byNodeID s n = Some q \<and> \<not> FullyBonded q"
    by (auto simp: accruing_def)
  have tot: "stake_total s' + unat y = stake_total s + unat reward"
    by (rule accrue_loop_stake [OF enroll_invD(1) [OF inv] dist pre d])
  have y: "y \<le> reward" using accrue_loop_le [OF d] by (simp only: word_le_nat_alt)
  then have lk: "unat locked = unat reward - unat y" using l by (simp only: unat_minus_le)
  note rec = accrue_loop_records [OF dist pre d]
  have same: "es_byNodeID s' n = es_byNodeID s n \<or>
      (\<exists>q d. es_byNodeID s n = Some q \<and> accruing owner q \<and>
         es_byNodeID s' n = Some (q\<lparr>er_StakeDust := d\<rparr>) \<and> er_StakeDust q \<le> d \<and> d \<le> RequiredBondDust q)" for n
    using rec mem [of n] by (cases "n \<in> set ?ns") fastforce+
  have full: "\<not> accruing owner q" if "locked < reward" "es_byNodeID s' n = Some q" for n q
  proof (cases "n \<in> set ?ns")
    case True
    have "y \<noteq> 0" using that(1) l by auto
    with rec True that(2) show ?thesis by (auto simp: accruing_def)
  next
    case False
    with rec that(2) mem [of n] show ?thesis by auto
  qed
  have "unat y \<le> unat reward" using y by (simp only: word_le_nat_alt)
  then have "locked \<le> reward" "stake_total s' = stake_total s + unat locked"
    using lk tot by (simp_all add: word_le_nat_alt)
  with same full show ?thesis by blast
qed

text \<open>
  Locking mining rewards into bonds loses no dust and over-locks none: what is returned as locked is
  at most the reward and is exactly what the stakes grew by; only active, under-bonded, mining-rewards
  records of that owner change, only in their stake and never beyond their requirement; and if part of
  the reward stays liquid, the owner has no under-bonded record left.
\<close>

theorem accrual_exact:
  assumes inv: "enroll_inv s" and ks: "iteration (es_byNodeID s) ks" and owner: "owner \<noteq> []"
    and r: "AccrueBondFromReward s ks owner reward = (s', locked)"
  shows "locked \<le> reward \<and> stake_total s' = stake_total s + unat locked \<and>
         (\<forall>n. es_byNodeID s' n = es_byNodeID s n \<or>
            (\<exists>q d. es_byNodeID s n = Some q \<and> accruing owner q \<and>
               es_byNodeID s' n = Some (q\<lparr>er_StakeDust := d\<rparr>) \<and> er_StakeDust q \<le> d \<and> d \<le> RequiredBondDust q)) \<and>
         (locked < reward \<longrightarrow> (\<forall>n q. es_byNodeID s' n = Some q \<longrightarrow> \<not> accruing owner q))"
  by (rule accrual_facts [OF assms])

theorem accrual_exact_witness:
  "\<exists>s' locked. AccrueBondFromReward demo_enrolled [''rig''] ''o'' 5 = (s', locked) \<and>
     locked \<le> 5 \<and> stake_total s' = stake_total demo_enrolled + unat locked"
proof -
  have "iteration (es_byNodeID demo_enrolled) [''rig'']" by (simp add: iteration_def demo_enrolled_eq)
  from accrual_exact [OF enroll_reach_inv [OF demo_enrolled_reach] this, of "''o''" 5
      "fst (AccrueBondFromReward demo_enrolled [''rig''] ''o'' 5)"
      "snd (AccrueBondFromReward demo_enrolled [''rig''] ''o'' 5)"]
  show ?thesis by (metis list.distinct(1) prod.collapse)
qed

text \<open>The sweep, on an iteration of the records: it releases exactly the matured ones.\<close>

lemma sweep_loop_records:
  assumes "distinct ns" and "\<forall>n \<in> set ns. es_byNodeID s n \<noteq> None" and "finite (dom (es_byNodeID s))"
    and "sweep_loop s ns h out = (s', rel)"
  shows "(\<forall>n. es_byNodeID s' n = (if n \<in> set ns \<and> MatureForUnbond (the (es_byNodeID s n)) h
              then None else es_byNodeID s n)) \<and>
         rel = out @ map (\<lambda>n. \<lparr>ur_NodeID = n, ur_Owner = er_Owner (the (es_byNodeID s n)),
                              ur_StakeDust = er_StakeDust (the (es_byNodeID s n))\<rparr>)
                 (filter (\<lambda>n. MatureForUnbond (the (es_byNodeID s n)) h) ns) \<and>
         stake_total s' + sum_list (map (\<lambda>r. unat (ur_StakeDust r)) rel) =
         stake_total s + sum_list (map (\<lambda>r. unat (ur_StakeDust r)) out)"
  using assms
proof (induction ns arbitrary: s out)
  case (Cons n ns)
  then obtain r where r: "es_byNodeID s n = Some r" by auto
  show ?case
  proof (cases "MatureForUnbond r h")
    case False
    with Cons.IH [of s out] Cons.prems r show ?thesis by (auto simp: Let_def)
  next
    case True
    let ?s = "s\<lparr>es_byNodeID := (es_byNodeID s)(n := None)\<rparr>"
    let ?u = "\<lparr>ur_NodeID = n, ur_Owner = er_Owner r, ur_StakeDust = er_StakeDust r\<rparr>"
    have d: "sweep_loop ?s ns h (out @ [?u]) = (s', rel)" using Cons.prems(4) True r by (simp add: Let_def)
    have pre: "\<forall>m \<in> set ns. es_byNodeID ?s m \<noteq> None" and same: "\<forall>m \<in> set ns. es_byNodeID ?s m = es_byNodeID s m"
      using Cons.prems(1,2) by auto
    have st: "stake_total ?s + unat (er_StakeDust r) = stake_total s"
      using sum_over_del [OF Cons.prems(3), of "\<lambda>r. unat (er_StakeDust r)" n] r by (simp add: stake_total_def)
    have fin: "finite (dom (es_byNodeID ?s))" using Cons.prems(3) by simp
    have dist: "distinct ns" using Cons.prems(1) by simp
    note IH = Cons.IH [OF dist pre fin d]
    have fm: "map (\<lambda>n. \<lparr>ur_NodeID = n, ur_Owner = er_Owner (the (es_byNodeID ?s n)),
          ur_StakeDust = er_StakeDust (the (es_byNodeID ?s n))\<rparr>)
          (filter (\<lambda>n. MatureForUnbond (the (es_byNodeID ?s n)) h) ns) =
        map (\<lambda>n. \<lparr>ur_NodeID = n, ur_Owner = er_Owner (the (es_byNodeID s n)),
          ur_StakeDust = er_StakeDust (the (es_byNodeID s n))\<rparr>)
          (filter (\<lambda>n. MatureForUnbond (the (es_byNodeID s n)) h) ns)"
      using same by (auto intro!: map_cong filter_cong)
    have "rel = out @ map (\<lambda>n. \<lparr>ur_NodeID = n, ur_Owner = er_Owner (the (es_byNodeID s n)),
          ur_StakeDust = er_StakeDust (the (es_byNodeID s n))\<rparr>)
          (filter (\<lambda>n. MatureForUnbond (the (es_byNodeID s n)) h) (n # ns))"
      using IH True r unfolding fm by simp
    moreover have "es_byNodeID s' m = (if m \<in> set (n # ns) \<and> MatureForUnbond (the (es_byNodeID s m)) h
        then None else es_byNodeID s m)" for m
      using IH True r by (cases "m = n") auto
    moreover have "stake_total s' + sum_list (map (\<lambda>r. unat (ur_StakeDust r)) rel) =
        stake_total s + sum_list (map (\<lambda>r. unat (ur_StakeDust r)) out)"
      using conjunct2 [OF conjunct2 [OF IH]] st by simp
    ultimately show ?thesis by blast
  qed
qed simp

text \<open>
  The unbond sweep deletes exactly the records whose window has passed, keeps every other record,
  releases each deleted stake once to the recorded owner, and neither creates nor destroys stake: the
  total falls by exactly the sum of the releases. Active records are never swept.
\<close>

theorem sweep_releases_exactly:
  assumes inv: "enroll_inv s" and ks: "iteration (es_byNodeID s) ks"
    and r: "SweepMaturedUnbonds s ks h = (s', released)"
  shows "stake_total s' + sum_list (map (\<lambda>u. unat (ur_StakeDust u)) released) = stake_total s \<and>
         (\<forall>n q. es_byNodeID s n = Some q \<longrightarrow>
            es_byNodeID s' n = (if MatureForUnbond q h then None else Some q)) \<and>
         distinct (map ur_NodeID released) \<and>
         (\<forall>u. u \<in> set released \<longleftrightarrow>
            (\<exists>q. es_byNodeID s (ur_NodeID u) = Some q \<and> MatureForUnbond q h \<and>
                 u = \<lparr>ur_NodeID = ur_NodeID u, ur_Owner = er_Owner q, ur_StakeDust = er_StakeDust q\<rparr>))"
proof -
  have k: "distinct ks" "set ks = dom (es_byNodeID s)" using iterationD [OF ks] by simp_all
  then have pre: "\<forall>n \<in> set ks. es_byNodeID s n \<noteq> None" by auto
  have d: "sweep_loop s ks h [] = (s', released)" using r by (simp add: SweepMaturedUnbonds_def)
  note w = sweep_loop_records [OF k(1) pre enroll_invD(1) [OF inv] d]
  have rel: "released = map (\<lambda>n. \<lparr>ur_NodeID = n, ur_Owner = er_Owner (the (es_byNodeID s n)),
      ur_StakeDust = er_StakeDust (the (es_byNodeID s n))\<rparr>)
      (filter (\<lambda>n. MatureForUnbond (the (es_byNodeID s n)) h) ks)" using w by simp
  have "distinct (map ur_NodeID released)" unfolding rel using k(1) by (simp add: comp_def)
  moreover have "u \<in> set released \<longleftrightarrow>
      (\<exists>q. es_byNodeID s (ur_NodeID u) = Some q \<and> MatureForUnbond q h \<and>
           u = \<lparr>ur_NodeID = ur_NodeID u, ur_Owner = er_Owner q, ur_StakeDust = er_StakeDust q\<rparr>)" for u
    unfolding rel using k(2) by force
  ultimately show ?thesis using w k(2) by auto
qed

theorem sweep_releases_exactly_witness:
  "let s = fst (ApplyUnenroll demo_enrolled ''rig'' 10) in
   \<forall>q. es_byNodeID s ''rig'' = Some q \<longrightarrow>
     es_byNodeID (fst (SweepMaturedUnbonds s [''rig''] 201610)) ''rig'' =
       (if MatureForUnbond q 201610 then None else Some q)"
proof -
  let ?s = "fst (ApplyUnenroll demo_enrolled ''rig'' 10)"
  have inv: "enroll_inv ?s"
    by (intro enroll_reach_inv enroll_next [OF demo_enrolled_reach step_unenroll]) simp
  have "iteration (es_byNodeID ?s) [''rig'']"
    by (simp add: iteration_def ApplyUnenroll_def demo_enrolled_eq revoke_record_def Active_def demo_record_def)
  from sweep_releases_exactly [OF inv this prod.collapse [symmetric], of 201610] show ?thesis
    unfolding Let_def by blast
qed

section \<open>Slashing and evidence\<close>

lemma slash_revoke_facts:
  assumes inv: "enroll_inv s" and n: "es_byNodeID s n = Some r" and h: "h \<noteq> 0"
    and sl: "SlashStake s n amount = (s1, Inr slashed)"
    and rv: "RevokeIfUnderBonded s1 n h minStake = (s2, res)"
  shows "slashed \<le> amount \<and> slashed \<le> er_StakeDust r \<and>
         stake_total s2 + unat slashed = stake_total s \<and>
         (\<exists>q. es_byNodeID s2 n = Some q \<and> er_StakeDust q = er_StakeDust r - slashed \<and>
            (Active q \<longrightarrow> minStake \<le> er_StakeDust q) \<and>
            (\<not> Active q \<longrightarrow> es_byGPUActive s2 (er_GPUUUID r) \<noteq> Some n))"
proof -
  let ?r = "r\<lparr>er_StakeDust := er_StakeDust r - slashed\<rparr>"
  have sl': "s1 = put_record s n ?r" "slashed \<le> amount" "slashed \<le> er_StakeDust r"
    using sl n by (auto simp: SlashStake_def Let_def split: if_splits)
  have "unat (er_StakeDust r - slashed) + unat slashed = unat (er_StakeDust r)"
    using sl'(3) by (simp only: unat_minus_le word_le_nat_alt le_add_diff_inverse2)
  then have st1: "stake_total s1 + unat slashed = stake_total s"
    using stake_total_put [OF enroll_invD(1) [OF inv] n, of ?r] sl'(1) by simp
  have inv1: "enroll_inv s1" using slash_inv [OF inv, of n amount] sl by simp
  have n1: "es_byNodeID s1 n = Some ?r" using sl'(1) by simp
  have inv2: "enroll_inv s2" using underbonded_inv [OF inv1 h, of n minStake] rv by simp
  have st2: "stake_total (revoke_record s1 n ?r h) = stake_total s1"
    using stake_total_put [OF enroll_invD(1) [OF inv1] n1,
      of "?r\<lparr>er_RevokedAtHeight := h, er_UnbondMaturesAtHeight := h + UnbondWindow\<rparr>"]
    by (simp add: stake_total_def revoke_record_def)
  have q: "\<exists>q. es_byNodeID s2 n = Some q \<and> er_StakeDust q = er_StakeDust r - slashed \<and>
      er_GPUUUID q = er_GPUUUID r \<and> (Active q \<longrightarrow> minStake \<le> er_StakeDust q)"
    using rv n1 h by (auto simp: RevokeIfUnderBonded_def revoke_record_def Active_def split: if_splits)
  then obtain q where q: "es_byNodeID s2 n = Some q" "er_StakeDust q = er_StakeDust r - slashed"
    "er_GPUUUID q = er_GPUUUID r" "Active q \<longrightarrow> minStake \<le> er_StakeDust q" by blast
  have "\<not> Active q \<longrightarrow> es_byGPUActive s2 (er_GPUUUID r) \<noteq> Some n"
    using enroll_invD(3) [OF inv2] q(1) by auto
  moreover have "stake_total s2 = stake_total s1"
    using rv n1 st2 by (auto simp: RevokeIfUnderBonded_def split: if_splits)
  ultimately show ?thesis using sl'(2,3) st1 q by auto
qed

text \<open>
  A slash takes at most what was asked and at most what is there, and the total stake falls by exactly
  the amount it reports; the automatic revocation that follows leaves no active record below the
  threshold, and frees its GPU.
\<close>

theorem slash_then_revoke:
  assumes inv: "enroll_inv s" and n: "es_byNodeID s n = Some r" and h: "h \<noteq> 0"
    and sl: "SlashStake s n amount = (s1, Inr slashed)"
    and rv: "RevokeIfUnderBonded s1 n h minStake = (s2, res)"
  shows "slashed \<le> amount \<and> slashed \<le> er_StakeDust r \<and>
         stake_total s2 + unat slashed = stake_total s \<and>
         (\<exists>q. es_byNodeID s2 n = Some q \<and> er_StakeDust q = er_StakeDust r - slashed \<and>
            (Active q \<longrightarrow> minStake \<le> er_StakeDust q) \<and>
            (\<not> Active q \<longrightarrow> es_byGPUActive s2 (er_GPUUUID r) \<noteq> Some n))"
  by (rule slash_revoke_facts [OF assms])

theorem slash_then_revoke_witness:
  "\<exists>s1 slashed s2 res. SlashStake demo_enrolled ''rig'' 3 = (s1, Inr slashed) \<and>
     RevokeIfUnderBonded s1 ''rig'' 9 MinEnrollStakeDust = (s2, res) \<and>
     stake_total s2 + unat slashed = stake_total demo_enrolled"
proof -
  let ?sl = "SlashStake demo_enrolled ''rig'' 3"
  let ?rv = "RevokeIfUnderBonded (fst ?sl) ''rig'' 9 MinEnrollStakeDust"
  have sl: "?sl = (fst ?sl, Inr 0)"
    by (simp add: SlashStake_def demo_enrolled_eq demo_record_def Let_def)
  have "stake_total (fst ?rv) + unat (0::u64) = stake_total demo_enrolled"
    using slash_then_revoke [OF enroll_reach_inv [OF demo_enrolled_reach] _ _ sl prod.collapse [symmetric],
      of demo_record 9 MinEnrollStakeDust] by (simp add: demo_enrolled_eq)
  then show ?thesis using sl by (metis prod.collapse)
qed

section \<open>Paging through the records\<close>

lemma list_start_nth:
  assumes "sorted xs" and "distinct xs" and "j < length xs" and "xs ! j \<noteq> []"
  shows "list_start xs (xs ! j) = Suc j"
proof -
  have "xs ! i < xs ! j" if "i < j" for i
    using that assms(1-3) by (metis nth_eq_iff_index_eq less_trans nat_neq_iff order_less_le sorted_nth_mono less_imp_le)
  then have "takeWhile (\<lambda>y. y < xs ! j) xs = take j xs"
    using assms(3) by (intro takeWhile_eq_take_P_nth) simp_all
  then have "SearchStrings xs (xs ! j) = j" using assms(3) by (simp add: SearchStrings_def)
  with assms(3,4) show ?thesis by (simp add: list_start_def)
qed

text \<open>
  The client's loop: it asks for page after page with the returned cursor, until a page says that no more
  follow. \<open>None\<close> is a loop that does not end.
\<close>

partial_function (option) page_walk ::
  "EnrollState \<Rightarrow> string list \<Rightarrow> int \<Rightarrow> ListPhase \<Rightarrow> string \<Rightarrow> ListPage list option" where
  "page_walk s ks limit phase cursor =
     (let page = ListState s ks \<lparr>lo_Cursor = cursor, lo_Limit = limit, lo_Phase = phase\<rparr>
      in if lp_HasMore page then Option.bind (page_walk s ks limit phase (lp_NextCursor page)) (\<lambda>pages. Some (page # pages))
         else Some [page])"

lemma list_limit_pos: "0 < list_limit limit"
  by (simp add: list_limit_def DefaultListLimit_def MaxListLimit_def)

text \<open>The pages of a walk from position \<open>k\<close> of the matches on.\<close>

definition pages_from :: "EnrollState \<Rightarrow> string list \<Rightarrow> int \<Rightarrow> ListPhase \<Rightarrow> nat \<Rightarrow> ListPage list \<Rightarrow> bool" where
  "pages_from s ks limit phase k pages \<longleftrightarrow>
     concat (map lp_Records pages) = map (\<lambda>n. the (es_byNodeID s n)) (drop k (list_matched s ks phase)) \<and>
     length pages \<le> max 1 (length (list_matched s ks phase) - k) \<and>
     (\<forall>page \<in> set pages. length (lp_Records page) \<le> list_limit limit)"

lemma page_walk_from:
  assumes sorted: "sorted (list_matched s ks phase)" and dist: "distinct (list_matched s ks phase)"
    and ne: "[] \<notin> set (list_matched s ks phase)"
    and "list_start (list_matched s ks phase) cursor = k" and "k \<le> length (list_matched s ks phase)"
  shows "\<exists>pages. page_walk s ks limit phase cursor = Some pages \<and> pages_from s ks limit phase k pages"
  using assms(4,5)
proof (induction "length (list_matched s ks phase) - k" arbitrary: k cursor rule: less_induct)
  case less
  let ?m = "list_matched s ks phase" and ?L = "list_limit limit"
  let ?p = "ListState s ks \<lparr>lo_Cursor = cursor, lo_Limit = limit, lo_Phase = phase\<rparr>"
  have recs: "lp_Records ?p = map (\<lambda>n. the (es_byNodeID s n)) (take ?L (drop k ?m))"
    using less.prems by (simp add: ListState_def Let_def min_def)
  have more: "lp_HasMore ?p \<longleftrightarrow> k + ?L < length ?m"
    using less.prems(1) by (auto simp: ListState_def Let_def)
  show ?case
  proof (cases "k + ?L < length ?m")
    case False
    with recs more show ?thesis by (subst page_walk.simps) (simp add: pages_from_def Let_def)
  next
    case True
    let ?j = "k + ?L - 1"
    have j: "?j < length ?m" using True by simp
    have "last (take ?L (drop k ?m)) = ?m ! ?j"
      using True list_limit_pos [of limit] by (simp add: last_conv_nth)
    then have next1: "lp_NextCursor ?p = ?m ! ?j"
      using True less.prems(1) by (simp add: ListState_def Let_def min_def)
    have "?m ! ?j \<noteq> []" using ne nth_mem [OF j] by metis
    then have st: "list_start ?m (lp_NextCursor ?p) = k + ?L"
      using list_start_nth [OF sorted dist j] next1 list_limit_pos [of limit] by simp
    have "length ?m - (k + ?L) < length ?m - k" "k + ?L \<le> length ?m"
      using True list_limit_pos [of limit] by simp_all
    from less.hyps [OF this(1) st this(2)] obtain pages
      where pages: "page_walk s ks limit phase (lp_NextCursor ?p) = Some pages" "pages_from s ks limit phase (k + ?L) pages"
      by blast
    have "take ?L (drop k ?m) @ drop (k + ?L) ?m = drop k ?m"
      by (metis append_take_drop_id drop_drop add.commute)
    then have "concat (map lp_Records (?p # pages)) = map (\<lambda>n. the (es_byNodeID s n)) (drop k ?m)"
      using recs pages(2) by (simp add: pages_from_def flip: map_append)
    moreover have "length (?p # pages) \<le> max 1 (length ?m - k)"
      using pages(2) True list_limit_pos [of limit] unfolding pages_from_def by (elim conjE) simp
    ultimately have "pages_from s ks limit phase k (?p # pages)"
      using pages(2) recs by (simp add: pages_from_def)
    moreover have "page_walk s ks limit phase cursor = Some (?p # pages)"
      using pages(1) more True by (subst page_walk.simps) (simp add: Let_def)
    ultimately show ?thesis by blast
  qed
qed

text \<open>
  C19. Paging ends and is complete: a client that starts with the empty cursor and follows the returned one
  is told after finitely many pages that no more follow, at most as many as there are matching records (one
  if there are none). Together the pages hold every record of the requested phase exactly once, in the order
  of node IDs, whatever the page limit and the order the map is ranged over, and no page exceeds the limit.
\<close>

theorem paging_complete:
  assumes ks: "iteration (es_byNodeID s) ks" and ids: "es_byNodeID s [] = None"
    and matching: "matching = {n. \<exists>r. es_byNodeID s n = Some r \<and> matchesPhase r phase}"
  shows "\<exists>pages. page_walk s ks limit phase [] = Some pages \<and>
    concat (map lp_Records pages) = map (\<lambda>n. the (es_byNodeID s n)) (sorted_list_of_set matching) \<and>
    length pages \<le> max 1 (card matching) \<and> (\<forall>page \<in> set pages. length (lp_Records page) \<le> list_limit limit)"
proof -
  let ?m = "list_matched s ks phase"
  have k: "distinct ks" "set ks = dom (es_byNodeID s)" using iterationD [OF ks] by simp_all
  have m: "sorted ?m" "distinct ?m" using k(1) by (simp_all add: list_matched_def)
  have set_m: "set ?m = matching" using k(2) by (auto simp: list_matched_def matching)
  then have "?m = sorted_list_of_set matching"
    using m sorted_list_of_set_unique by (metis sorted_list_of_set.idem_if_sorted_distinct)
  moreover have "length ?m = card matching" using set_m distinct_card [OF m(2)] by simp
  moreover have "[] \<notin> set ?m" using set_m ids by (auto simp: matching)
  ultimately show ?thesis
    using page_walk_from [OF m, of "[]" 0 limit] by (simp add: list_start_def pages_from_def)
qed

theorem paging_complete_witness:
  "\<exists>pages. page_walk demo_enrolled [''rig''] 1 PhaseActive [] = Some pages \<and>
     concat (map lp_Records pages) = [demo_record] \<and> length pages = 1"
proof -
  have "{n. \<exists>r. es_byNodeID demo_enrolled n = Some r \<and> matchesPhase r PhaseActive} = {''rig''}"
    by (auto simp: demo_enrolled_eq demo_record_def Active_def)
  from paging_complete [OF _ _ this [symmetric], of "[''rig'']" 1] obtain pages
    where pages: "page_walk demo_enrolled [''rig''] 1 PhaseActive [] = Some pages"
      "concat (map lp_Records pages) = [demo_record]" "length pages \<le> 1"
    by (auto simp: iteration_def demo_enrolled_eq)
  then show ?thesis by (cases pages) auto
qed

section \<open>The work search\<close>

lemma digest_ignores_nonce [simp]:
  "DeferredBondWorkDigest marshal sha256 (p\<lparr>ep_WorkNonce := k\<rparr>) = DeferredBondWorkDigest marshal sha256 p"
  by (rule ext) (simp add: DeferredBondWorkDigest_def)

lemma find_work_found:
  assumes "find_work marshal sha256 p start a = WorkFound n b"
  shows "ValidateDeferredBondWork marshal sha256 (p\<lparr>ep_WorkNonce := n\<rparr>) = None \<and> start \<le> n \<and>
         unat b = (unat a + (unat n - unat start) + 1) mod 2 ^ 64 \<and>
         (\<forall>k. start \<le> k \<and> k < n \<longrightarrow> ValidateDeferredBondWork marshal sha256 (p\<lparr>ep_WorkNonce := k\<rparr>) \<noteq> None)"
  using assms
proof (induction marshal sha256 p start a rule: find_work.induct)
  case (1 marshal sha256 p start a)
  have lim: "\<not> max_u64 \<le> start" using "1.prems" by (subst (asm) find_work.simps) (auto split: if_splits)
  then have "unat start < 18446744073709551615" by (simp add: word_le_nat_alt)
  then have suc: "unat (start + 1) = unat start + 1" by (intro unat_Suc_fits) simp
  obtain d where d: "DeferredBondWorkDigest marshal sha256 p start = Some d"
    using "1.prems" lim by (subst (asm) find_work.simps) (auto split: option.splits)
  have val: "ValidateDeferredBondWork marshal sha256 (p\<lparr>ep_WorkNonce := start\<rparr>) = None \<longleftrightarrow>
      hasLeadingZeroBits d DeferredBondWorkDifficulty"
    using d by (simp add: ValidateDeferredBondWork_def)
  show ?case
  proof (cases "hasLeadingZeroBits d DeferredBondWorkDifficulty")
    case True
    then have e: "n = start" "b = a + 1" using "1.prems" lim d by (subst (asm) find_work.simps, simp)+
    have "unat (a + 1) = (unat a + 1) mod 2 ^ 64" by (simp add: unat_word_ariths)
    with e True val show ?thesis by auto
  next
    case False
    then have step: "find_work marshal sha256 p (start + 1) (a + 1) = WorkFound n b"
      using "1.prems" lim d by (subst (asm) find_work.simps) simp
    note IH = "1.IH" [OF lim d False step]
    have lt: "unat start + 1 \<le> unat n" using IH suc by (simp add: word_le_nat_alt)
    then obtain j where j: "unat n = unat start + 1 + j" by (metis le_Suc_ex)
    have "unat (a + 1) = (unat a + 1) mod 2 ^ 64" by (simp add: unat_word_ariths)
    moreover have "unat b = (unat (a + 1) + j + 1) mod 2 ^ 64" using IH suc j by simp
    ultimately have "unat b = (unat a + 1 + j + 1) mod 2 ^ 64" by (simp only: mod_add_left_eq add.assoc)
    then have "unat b = (unat a + (unat n - unat start) + 1) mod 2 ^ 64" using j by simp
    moreover have "start + 1 \<le> k" if "start \<le> k" "k \<noteq> start" for k
      using that suc by (simp add: word_le_nat_alt word_unat_eq_iff)
    ultimately show ?thesis using IH False val lt by (auto simp: word_le_nat_alt)
  qed
qed

text \<open>
  The nonce the miner-side search returns is accepted by the validator, it is the smallest nonce
  that is, and the reported attempts are one more than it. (The search covers every nonce but the
  largest one, so it always ends.)
\<close>

theorem found_work_is_valid:
  assumes "FindDeferredBondWork marshal sha256 p = WorkFound n attempts"
  shows "ValidateDeferredBondWork marshal sha256 (p\<lparr>ep_WorkNonce := n\<rparr>) = None \<and>
         (\<forall>k < n. ValidateDeferredBondWork marshal sha256 (p\<lparr>ep_WorkNonce := k\<rparr>) \<noteq> None) \<and>
         attempts = n + 1"
proof -
  note w = find_work_found [OF assms [unfolded FindDeferredBondWork_def]]
  have "unat attempts = unat (n + 1)" using w by (simp add: unat_word_ariths)
  then have "attempts = n + 1" by (simp only: word_unat_eq_iff)
  with w show ?thesis by simp
qed

theorem found_work_is_valid_witness:
  "let zeros = (\<lambda>_. replicate 32 (char_of (0::nat))); p = \<lparr>ep_Kind = PayloadKindEnroll, ep_NodeID = ''rig'',
     ep_GPUUUID = ''GPU-1'', ep_HMACKey = [], ep_StakeDust = 0, ep_BondMode = BondModeMiningRewards,
     ep_WorkNonce = 0, ep_Memo = []\<rparr>
   in ValidateDeferredBondWork (\<lambda>p. Some (ep_NodeID p)) zeros (p\<lparr>ep_WorkNonce := 0\<rparr>) = None"
proof -
  let ?z = "\<lambda>_ :: string. replicate 32 (char_of (0::nat) :: char)" and ?m = "\<lambda>p. Some (ep_NodeID p)"
  have ok: "hasLeadingZeroBits (replicate 32 (char_of (0::nat))) DeferredBondWorkDifficulty"
    by (simp add: hasLeadingZeroBits_def DeferredBondWorkDifficulty_def Let_def)
  have "FindDeferredBondWork ?m ?z p = WorkFound 0 1" for p
    unfolding FindDeferredBondWork_def using ok
    by (subst find_work.simps) (simp add: DeferredBondWorkDigest_def)
  from conjunct1 [OF found_work_is_valid [OF this]] show ?thesis unfolding Let_def .
qed

end
