(* ===== verification/Enrollment_Apply.thy ===== *)
theory Enrollment_Apply
  imports Enrollment
begin

text \<open>
  Applying enrollment, mining-reward and slashing transactions: \<open>pkg/chain/enrollment_apply.go\<close>,
  \<open>mining_reward.go\<close>, \<open>slash_apply.go\<close>, with the envelope check of \<open>pkg/mining/enrollment/envelope.go\<close>,
  the admission checkers of the two packages and the slash payload of \<open>pkg/mining/slashing\<close>. An
  applier works on the pair of the account store and the enrollment state; metrics and published
  events leave no trace in either and are not modelled.

  JSON, base64, SHA-256 and ML-DSA are the fields of the record \<open>codec\<close>; the evidence verifiers are a
  map from evidence kinds to functions, as in the dispatcher.
\<close>

section \<open>External functions\<close>

record SlashPayload =
  sp_NodeID :: string
  sp_EvidenceKind :: string
  sp_EvidenceBlob :: string
  sp_SlashAmountDust :: u64
  sp_Memo :: string

record SignedEnvelope =
  se_ID :: string
  se_Sender :: string
  se_Nonce :: u64
  se_Fee :: float64
  se_GasLimit :: int
  se_ContractID :: string
  se_PayloadB64 :: string
  se_Signature :: string
  se_PublicKey :: string

record codec =
  c_marshal :: "EnrollPayload \<Rightarrow> string option"
  c_json_kind :: "string \<Rightarrow> string option"
  c_json_enroll :: "string \<Rightarrow> EnrollPayload option"
  c_json_unenroll :: "string \<Rightarrow> UnenrollPayload option"
  c_json_slash :: "string \<Rightarrow> SlashPayload option"
  c_json_envelope :: "SignedEnvelope \<Rightarrow> string option"
  c_base64 :: "string \<Rightarrow> string"
  c_sha256 :: "string \<Rightarrow> string"
  c_mldsa_key_size :: nat
  c_mldsa_sig_size :: nat
  c_mldsa_key :: "string \<Rightarrow> bool"
  c_mldsa_verify :: "string \<Rightarrow> string \<Rightarrow> string \<Rightarrow> bool"

section \<open>The signed envelope\<close>

datatype envelope_error =
    SignedEnvelopeRequired | SenderMismatch | SignatureInvalid | EnvelopeCanonicalize

definition EnvelopeFromTransaction :: "codec \<Rightarrow> Tx \<Rightarrow> SignedEnvelope" where
  "EnvelopeFromTransaction cd tx =
     \<lparr>se_ID = tx_ID tx, se_Sender = tx_Sender tx, se_Nonce = tx_Nonce tx, se_Fee = tx_Fee tx,
      se_GasLimit = tx_GasLimit tx, se_ContractID = tx_ContractID tx,
      se_PayloadB64 = c_base64 cd (tx_Payload tx), se_Signature = tx_Signature tx,
      se_PublicKey = tx_PublicKey tx\<rparr>"

definition CanonicalBytes :: "codec \<Rightarrow> SignedEnvelope \<Rightarrow> string option" where
  "CanonicalBytes cd e = c_json_envelope cd (e\<lparr>se_Signature := [], se_PublicKey := []\<rparr>)"

definition VerifySignedEnvelope :: "codec \<Rightarrow> SignedEnvelope \<Rightarrow> envelope_error option" where
  "VerifySignedEnvelope cd env =
     (if se_ContractID env \<noteq> SignedContractID then Some SignedEnvelopeRequired
      else if TrimSpace (se_ID env) = [] \<or> TrimSpace (se_PayloadB64 env) = [] then Some SignedEnvelopeRequired
      else if se_Sender env = [] \<or> se_Sender env \<noteq> ToLower (TrimSpace (se_Sender env)) then Some SenderMismatch
      else (case DecodeHex (se_PublicKey env) of
          None \<Rightarrow> Some SignedEnvelopeRequired
        | Some pub \<Rightarrow>
            if length pub \<noteq> c_mldsa_key_size cd then Some SignedEnvelopeRequired
            else if se_Sender env \<noteq> EncodeToString (c_sha256 cd pub) then Some SenderMismatch
            else (case DecodeHex (se_Signature env) of
                None \<Rightarrow> Some SignatureInvalid
              | Some sig \<Rightarrow>
                  if length sig \<noteq> c_mldsa_sig_size cd then Some SignatureInvalid
                  else (case CanonicalBytes cd env of
                      None \<Rightarrow> Some EnvelopeCanonicalize
                    | Some canonical \<Rightarrow>
                        if \<not> c_mldsa_key cd pub then Some SignedEnvelopeRequired
                        else if \<not> c_mldsa_verify cd pub canonical sig then Some SignatureInvalid
                        else None))))"

definition VerifySignedTransaction :: "codec \<Rightarrow> Tx \<Rightarrow> envelope_error option" where
  "VerifySignedTransaction cd tx = VerifySignedEnvelope cd (EnvelopeFromTransaction cd tx)"

section \<open>Decoding\<close>

datatype enroll_apply_error =
    NotEnrollmentTx string
  | LegacyContractDisabled
  | EnvelopeRefused envelope_error
  | DecodeFailed
  | UnknownKind string
  | FieldsInvalid validate_enroll_error
  | DeferredBondNotActive
  | SenderHasNoAccount string
  | StateRefused validate_enroll_error
  | ChargeRefused account_error
  | CommitRefused state_error
  | NegativeEnrollFee
  | MissingPayload
  | InvalidRewardContract
  | InvalidRewardShape
  | LockedMoreThanReward
  | RewardRefused account_error
  | PrevRefused string

definition PeekKind :: "codec \<Rightarrow> string \<Rightarrow> enroll_apply_error + string" where
  "PeekKind cd raw =
     (case c_json_kind cd raw of
        None \<Rightarrow> Inl DecodeFailed
      | Some kind \<Rightarrow> if kind = [] then Inl DecodeFailed else Inr kind)"

definition DecodeEnrollPayload :: "codec \<Rightarrow> string \<Rightarrow> enroll_apply_error + EnrollPayload" where
  "DecodeEnrollPayload cd raw =
     (case c_json_enroll cd raw of
        None \<Rightarrow> Inl DecodeFailed
      | Some p \<Rightarrow> if ep_Kind p \<noteq> PayloadKindEnroll then Inl DecodeFailed else Inr p)"

definition DecodeUnenrollPayload :: "codec \<Rightarrow> string \<Rightarrow> enroll_apply_error + UnenrollPayload" where
  "DecodeUnenrollPayload cd raw =
     (case c_json_unenroll cd raw of
        None \<Rightarrow> Inl DecodeFailed
      | Some p \<Rightarrow> if up_Kind p \<noteq> PayloadKindUnenroll then Inl DecodeFailed else Inr p)"

text \<open>\<open>AdmissionChecker\<close> of the enrollment package, in front of the memory pool.\<close>

definition EnrollAdmission :: "codec \<Rightarrow> (Tx \<Rightarrow> string option) option \<Rightarrow> Tx \<Rightarrow> enroll_apply_error option" where
  "EnrollAdmission cd prev tx =
     (if \<not> IsContractID (tx_ContractID tx)
      then (case prev of None \<Rightarrow> None | Some f \<Rightarrow> map_option PrevRefused (f tx))
      else if tx_ContractID tx = ContractID then Some LegacyContractDisabled
      else (case VerifySignedTransaction cd tx of
          Some e \<Rightarrow> Some (EnvelopeRefused e)
        | None \<Rightarrow>
            if tx_Payload tx = [] then Some MissingPayload
            else (case PeekKind cd (tx_Payload tx) of
                Inl e \<Rightarrow> Some e
              | Inr kind \<Rightarrow>
                  if kind = PayloadKindEnroll
                  then (case DecodeEnrollPayload cd (tx_Payload tx) of
                          Inl e \<Rightarrow> Some e
                        | Inr p \<Rightarrow>
                            (case ValidateEnrollFields (c_marshal cd) (c_sha256 cd) p (tx_Sender tx) of
                               Some e \<Rightarrow> Some (FieldsInvalid e)
                             | None \<Rightarrow> if tx_Fee tx < 0 then Some NegativeEnrollFee else None))
                  else if kind = PayloadKindUnenroll
                  then (case DecodeUnenrollPayload cd (tx_Payload tx) of
                          Inl e \<Rightarrow> Some e
                        | Inr p \<Rightarrow>
                            (case ValidateUnenrollFields p (tx_Sender tx) of
                               Some e \<Rightarrow> Some (FieldsInvalid e)
                             | None \<Rightarrow> if tx_Fee tx < 0 then Some NegativeEnrollFee else None))
                  else Some (UnknownKind kind))))"

section \<open>Enrolling\<close>

record Chain =
  ch_accounts :: AccountStore
  ch_state :: EnrollState

definition RetainOperatorPublicKey :: "u64 \<Rightarrow> u64 \<Rightarrow> bool" where
  "RetainOperatorPublicKey retentionHeight h \<longleftrightarrow> retentionHeight \<le> h"

definition enroll_charge ::
  "AccountStore \<Rightarrow> bool \<Rightarrow> string \<Rightarrow> float64 \<Rightarrow> u64 \<Rightarrow> AccountStore \<times> account_error option" where
  "enroll_charge acc deferredBond sender totalDebit nonce =
     (if feq totalDebit 0
      then (if deferredBond then ChargeAndBumpNonceAllowCreate acc sender totalDebit nonce
            else ChargeAndBumpNonce acc sender totalDebit nonce)
      else DebitAndBumpNonce acc sender totalDebit nonce)"

definition enroll_record :: "u64 \<Rightarrow> Tx \<Rightarrow> EnrollPayload \<Rightarrow> u64 \<Rightarrow> EnrollmentRecord" where
  "enroll_record retentionHeight tx p height =
     \<lparr>er_NodeID = ep_NodeID p, er_Owner = tx_Sender tx,
      er_OperatorPublicKey =
        (if tx_ContractID tx = SignedContractID \<and> RetainOperatorPublicKey retentionHeight height
         then tx_PublicKey tx else []),
      er_GPUUUID = ep_GPUUUID p, er_HMACKey = ep_HMACKey p, er_StakeDust = ep_StakeDust p,
      er_BondMode = ep_BondMode p, er_RequiredStakeDust = MinEnrollStakeDust,
      er_EnrolledAtHeight = height, er_RevokedAtHeight = 0, er_UnbondMaturesAtHeight = 0, er_Memo = []\<rparr>"

definition applyEnroll ::
  "(float64 \<Rightarrow> u64) \<Rightarrow> u64 \<Rightarrow> u64 \<Rightarrow> codec \<Rightarrow> Chain \<Rightarrow> Tx \<Rightarrow> u64 \<Rightarrow> Chain \<times> enroll_apply_error option" where
  "applyEnroll oob fork retentionHeight cd ch tx height =
     (case DecodeEnrollPayload cd (tx_Payload tx) of
        Inl e \<Rightarrow> (ch, Some e)
      | Inr p \<Rightarrow>
          (case ValidateEnrollFields (c_marshal cd) (c_sha256 cd) p (tx_Sender tx) of
             Some e \<Rightarrow> (ch, Some (FieldsInvalid e))
           | None \<Rightarrow>
               (let deferredBond = (ep_BondMode p = BondModeMiningRewards);
                    senderAcc = GetAccount (ch_accounts ch) (tx_Sender tx)
                in if deferredBond \<and> tx_ContractID tx \<noteq> SignedContractID then (ch, Some LegacyContractDisabled)
                   else if deferredBond \<and> height < DeferredBondActivationHeight
                   then (ch, Some DeferredBondNotActive)
                   else if senderAcc = None \<and> \<not> deferredBond then (ch, Some (SenderHasNoAccount (tx_Sender tx)))
                   else (let senderBalanceDust =
                               (case senderAcc of None \<Rightarrow> 0 | Some a \<Rightarrow> balanceToDust oob (acc_Balance a))
                         in case ValidateEnrollAgainstState p senderBalanceDust (ch_state ch) of
                              Some e \<Rightarrow> (ch, Some (StateRefused e))
                            | None \<Rightarrow>
                                (let stakeCELL = dustToBalance (ep_StakeDust p);
                                     totalDebit = stakeCELL + tx_Fee tx
                                 in case enroll_charge (ch_accounts ch) deferredBond (tx_Sender tx) totalDebit (tx_Nonce tx) of
                                      (acc1, Some e) \<Rightarrow> (ch\<lparr>ch_accounts := acc1\<rparr>, Some (ChargeRefused e))
                                    | (acc1, None) \<Rightarrow>
                                        (case ApplyEnroll (ch_state ch) (enroll_record retentionHeight tx p height) of
                                           (st1, Some e) \<Rightarrow>
                                             (ch\<lparr>ch_accounts := Credit oob fork acc1 (tx_Sender tx) stakeCELL,
                                                 ch_state := st1\<rparr>, Some (CommitRefused e))
                                         | (st1, None) \<Rightarrow>
                                             (ch\<lparr>ch_accounts := acc1, ch_state := st1\<rparr>, None)))))))"

definition applyUnenroll ::
  "(float64 \<Rightarrow> u64) \<Rightarrow> u64 \<Rightarrow> codec \<Rightarrow> Chain \<Rightarrow> Tx \<Rightarrow> u64 \<Rightarrow> Chain \<times> enroll_apply_error option" where
  "applyUnenroll oob fork cd ch tx height =
     (case DecodeUnenrollPayload cd (tx_Payload tx) of
        Inl e \<Rightarrow> (ch, Some e)
      | Inr p \<Rightarrow>
          (case ValidateUnenrollFields p (tx_Sender tx) of
             Some e \<Rightarrow> (ch, Some (FieldsInvalid e))
           | None \<Rightarrow>
               (case ValidateUnenrollAgainstState p (tx_Sender tx) (ch_state ch) of
                  Some e \<Rightarrow> (ch, Some (StateRefused e))
                | None \<Rightarrow>
                    if tx_Fee tx < 0 then (ch, Some NegativeEnrollFee)
                    else (case ChargeAndBumpNonce (ch_accounts ch) (tx_Sender tx) (tx_Fee tx) (tx_Nonce tx) of
                        (acc1, Some e) \<Rightarrow> (ch\<lparr>ch_accounts := acc1\<rparr>, Some (ChargeRefused e))
                      | (acc1, None) \<Rightarrow>
                          (case ApplyUnenroll (ch_state ch) (up_NodeID p) height of
                             (st1, Some e) \<Rightarrow>
                               (ch\<lparr>ch_accounts := Credit oob fork acc1 (tx_Sender tx) (tx_Fee tx), ch_state := st1\<rparr>,
                                Some (CommitRefused e))
                           | (st1, None) \<Rightarrow> (ch\<lparr>ch_accounts := acc1, ch_state := st1\<rparr>, None))))))"

definition ApplyEnrollmentTx ::
  "(float64 \<Rightarrow> u64) \<Rightarrow> u64 \<Rightarrow> u64 \<Rightarrow> codec \<Rightarrow> Chain \<Rightarrow> Tx \<Rightarrow> u64 \<Rightarrow> Chain \<times> enroll_apply_error option" where
  "ApplyEnrollmentTx oob fork retentionHeight cd ch tx height =
     (if \<not> IsContractID (tx_ContractID tx) then (ch, Some (NotEnrollmentTx (tx_ContractID tx)))
      else if tx_ContractID tx = ContractID \<and> SignedContractActivationHeight \<le> height
      then (ch, Some LegacyContractDisabled)
      else if tx_ContractID tx \<noteq> ContractID \<and> VerifySignedTransaction cd tx \<noteq> None
      then (ch, map_option EnvelopeRefused (VerifySignedTransaction cd tx))
      else (case PeekKind cd (tx_Payload tx) of
          Inl e \<Rightarrow> (ch, Some e)
        | Inr kind \<Rightarrow>
            if kind = PayloadKindEnroll then applyEnroll oob fork retentionHeight cd ch tx height
            else if kind = PayloadKindUnenroll then applyUnenroll oob fork cd ch tx height
            else (ch, Some (UnknownKind kind))))"

text \<open>The block-time sweep: legacy owners first, then the matured records, each release credited to its
  owner in the order the state delivered it.\<close>

definition credit_release :: "(float64 \<Rightarrow> u64) \<Rightarrow> u64 \<Rightarrow> AccountStore \<Rightarrow> UnbondRelease \<Rightarrow> AccountStore" where
  "credit_release oob fork acc r =
     (if ur_Owner r = [] then acc else Credit oob fork acc (ur_Owner r) (dustToBalance (ur_StakeDust r)))"

definition SweepMaturedEnrollments ::
  "(float64 \<Rightarrow> u64) \<Rightarrow> u64 \<Rightarrow> Chain \<Rightarrow> string list \<Rightarrow> u64 \<Rightarrow> Chain \<times> UnbondRelease list" where
  "SweepMaturedEnrollments oob fork ch ks height =
     (let st1 = fst (RevokeLegacyOwners (ch_state ch) ks height);
          (st2, released) = SweepMaturedUnbonds st1 ks height
      in (ch\<lparr>ch_accounts := foldl (credit_release oob fork) (ch_accounts ch) released, ch_state := st2\<rparr>, released))"

section \<open>Mining rewards\<close>

definition MiningRewardContractID :: string where "MiningRewardContractID = ''qsdm/mining-reward/v1''"
definition MiningRewardFunderAddress :: string where "MiningRewardFunderAddress = ''qsdm-system-funder''"

definition ApplyMiningRewardTx ::
  "(float64 \<Rightarrow> u64) \<Rightarrow> Chain \<Rightarrow> string list \<Rightarrow> Tx \<Rightarrow> Chain \<times> enroll_apply_error option" where
  "ApplyMiningRewardTx oob ch ks tx =
     (if tx_ContractID tx \<noteq> MiningRewardContractID \<or> tx_Sender tx \<noteq> MiningRewardFunderAddress
      then (ch, Some InvalidRewardContract)
      else if \<not> feq (tx_Fee tx) 0 \<or> tx_Amount tx \<le> 0 \<or> tx_Recipient tx = []
      then (ch, Some InvalidRewardShape)
      else (let before = CloneState (ch_state ch);
                rewardDust = balanceToDust oob (tx_Amount tx);
                (st1, lockedDust) = AccrueBondFromReward (ch_state ch) ks (tx_Recipient tx) rewardDust
            in if rewardDust < lockedDust
               then (ch\<lparr>ch_state := RestoreState st1 before\<rparr>, Some LockedMoreThanReward)
               else (let liquid = tx_Amount tx - dustToBalance lockedDust;
                         liquidAmount = (if liquid < 0 then 0 else liquid)
                     in case ApplyProtocolReward (ch_accounts ch) (Some tx) liquidAmount of
                          (acc1, Some e) \<Rightarrow>
                            (ch\<lparr>ch_accounts := acc1, ch_state := RestoreState st1 before\<rparr>, Some (RewardRefused e))
                        | (acc1, None) \<Rightarrow> (ch\<lparr>ch_accounts := acc1, ch_state := st1\<rparr>, None))))"

section \<open>Slashing\<close>

definition SlashContractID :: string where "SlashContractID = ''qsdm/slash/v1''"
definition SlashRewardCap :: u16 where "SlashRewardCap = 5000"
definition MaxEvidenceLen :: nat where "MaxEvidenceLen = 2 ^ 20"

definition AllEvidenceKinds :: "string list" where
  "AllEvidenceKinds = [''forged-attestation'', ''double-mining'', ''freshness-cheat'']"

datatype slash_error =
    NotSlashTx string
  | SlashDecodeFailed
  | SlashPayloadInvalid string
  | UnknownEvidenceKind string
  | NodeNotEnrolled string
  | EvidenceReplay
  | VerifierRefused string
  | SlashFeeNotPositive
  | SlashFeeRefused account_error
  | StakeMutationFailed state_error
  | SlashPrevRefused string

definition ValidateSlashFields :: "SlashPayload \<Rightarrow> string \<Rightarrow> slash_error option" where
  "ValidateSlashFields p sender =
     (if sender = [] then Some (SlashPayloadInvalid ''sender'')
      else if sp_NodeID p = [] then Some (SlashPayloadInvalid ''node_id'')
      else if MaxNodeIDLen < length (sp_NodeID p) then Some (SlashPayloadInvalid ''node_id'')
      else if sp_EvidenceKind p \<notin> set AllEvidenceKinds then Some (UnknownEvidenceKind (sp_EvidenceKind p))
      else if sp_EvidenceBlob p = [] then Some (SlashPayloadInvalid ''evidence_blob'')
      else if MaxEvidenceLen < length (sp_EvidenceBlob p) then Some (SlashPayloadInvalid ''evidence_blob'')
      else if sp_SlashAmountDust p = 0 then Some (SlashPayloadInvalid ''slash_amount_dust'')
      else if MaxMemoLen < length (sp_Memo p) then Some (SlashPayloadInvalid ''memo'')
      else None)"

definition SlashAdmission :: "codec \<Rightarrow> (Tx \<Rightarrow> string option) option \<Rightarrow> Tx \<Rightarrow> slash_error option" where
  "SlashAdmission cd prev tx =
     (if tx_ContractID tx \<noteq> SlashContractID
      then (case prev of None \<Rightarrow> None | Some f \<Rightarrow> map_option SlashPrevRefused (f tx))
      else if tx_Payload tx = [] then Some (SlashPayloadInvalid ''payload'')
      else (case c_json_slash cd (tx_Payload tx) of
          None \<Rightarrow> Some SlashDecodeFailed
        | Some p \<Rightarrow>
            (case ValidateSlashFields p (tx_Sender tx) of
               Some e \<Rightarrow> Some e
             | None \<Rightarrow> if tx_Fee tx \<le> 0 then Some (SlashPayloadInvalid ''fee'') else None)))"

text \<open>The dispatcher: a verifier per evidence kind, returning the cap on the slash or a refusal.\<close>

type_synonym verifier = "SlashPayload \<Rightarrow> u64 \<Rightarrow> string + u64"

definition DispatcherVerify :: "(string \<rightharpoonup> verifier) \<Rightarrow> SlashPayload \<Rightarrow> u64 \<Rightarrow> slash_error + u64" where
  "DispatcherVerify verifiers p currentHeight =
     (case verifiers (sp_EvidenceKind p) of
        None \<Rightarrow> Inl (UnknownEvidenceKind (sp_EvidenceKind p))
      | Some v \<Rightarrow> (case v p currentHeight of Inl e \<Rightarrow> Inl (VerifierRefused e) | Inr c \<Rightarrow> Inr c))"

text \<open>The configuration of the slash applier; \<open>sa_Params\<close> are the governance values read at the call.\<close>

record SlashApplier =
  sa_Dispatcher :: "string \<rightharpoonup> verifier"
  sa_RewardBPS :: u16
  sa_AutoRevokeMinStakeDust :: u64
  sa_Params :: "(string \<rightharpoonup> u64) option"

definition activeRewardBPS :: "SlashApplier \<Rightarrow> u16" where
  "activeRewardBPS a =
     (case (case sa_Params a of None \<Rightarrow> None | Some ps \<Rightarrow> ps ''reward_bps'') of
        Some v \<Rightarrow> if ucast SlashRewardCap < v then SlashRewardCap else ucast v
      | None \<Rightarrow> if SlashRewardCap < sa_RewardBPS a then SlashRewardCap else sa_RewardBPS a)"

definition activeAutoRevokeMinStakeDust :: "SlashApplier \<Rightarrow> u64" where
  "activeAutoRevokeMinStakeDust a =
     (case (case sa_Params a of None \<Rightarrow> None | Some ps \<Rightarrow> ps ''auto_revoke_min_stake_dust'') of
        Some v \<Rightarrow> v | None \<Rightarrow> sa_AutoRevokeMinStakeDust a)"

text \<open>\<open>NewSlashApplier\<close> panics on a reward above the cap.\<close>

definition NewSlashApplier :: "(string \<rightharpoonup> verifier) \<Rightarrow> u16 \<Rightarrow> SlashApplier option" where
  "NewSlashApplier dispatcher rewardBPS =
     (if SlashRewardCap < rewardBPS then None
      else Some \<lparr>sa_Dispatcher = dispatcher, sa_RewardBPS = rewardBPS,
                 sa_AutoRevokeMinStakeDust = MinEnrollStakeDust, sa_Params = None\<rparr>)"

definition evidenceFingerprint :: "codec \<Rightarrow> SlashPayload \<Rightarrow> string" where
  "evidenceFingerprint cd p = c_sha256 cd (sp_EvidenceKind p @ [NUL] @ sp_EvidenceBlob p)"

definition slash_amount :: "SlashPayload \<Rightarrow> u64 \<Rightarrow> EnrollmentRecord \<Rightarrow> u64" where
  "slash_amount p verifierCap rec =
     (let a = (if 0 < verifierCap \<and> verifierCap < sp_SlashAmountDust p then verifierCap else sp_SlashAmountDust p)
      in if er_StakeDust rec < a then er_StakeDust rec else a)"

definition slash_reward :: "SlashApplier \<Rightarrow> u64 \<Rightarrow> u64" where
  "slash_reward a slashed =
     (if 0 < slashed \<and> 0 < activeRewardBPS a then slashed * ucast (activeRewardBPS a) div 10000 else 0)"

text \<open>The state changes after all checks have passed.\<close>

definition commit_slash ::
  "(float64 \<Rightarrow> u64) \<Rightarrow> u64 \<Rightarrow> codec \<Rightarrow> SlashApplier \<Rightarrow> Chain \<Rightarrow> Tx \<Rightarrow> u64 \<Rightarrow> SlashPayload \<Rightarrow> u64 \<Rightarrow>
     Chain \<times> slash_error option" where
  "commit_slash oob fork cd a ch tx h p actualSlash =
     (case MarkEvidenceSeen (ch_state ch) (evidenceFingerprint cd p) of
        (st1, False) \<Rightarrow> (ch\<lparr>ch_state := st1\<rparr>, Some EvidenceReplay)
      | (st1, True) \<Rightarrow>
          (case SlashStake st1 (sp_NodeID p) actualSlash of
             (st2, Inl e) \<Rightarrow> (ch\<lparr>ch_state := st2\<rparr>, Some (StakeMutationFailed e))
           | (st2, Inr slashed) \<Rightarrow>
               (let rewardDust = slash_reward a slashed;
                    acc1 = (if 0 < rewardDust
                            then Credit oob fork (ch_accounts ch) (tx_Sender tx) (dustToBalance rewardDust)
                            else ch_accounts ch);
                    threshold = activeAutoRevokeMinStakeDust a;
                    st3 = (if 0 < threshold then fst (RevokeIfUnderBonded st2 (sp_NodeID p) h threshold) else st2)
                in (ch\<lparr>ch_accounts := acc1, ch_state := st3\<rparr>, None))))"

definition ApplySlashTx ::
  "(float64 \<Rightarrow> u64) \<Rightarrow> u64 \<Rightarrow> codec \<Rightarrow> SlashApplier \<Rightarrow> Chain \<Rightarrow> Tx \<Rightarrow> u64 \<Rightarrow> Chain \<times> slash_error option" where
  "ApplySlashTx oob fork cd a ch tx h =
     (if tx_ContractID tx \<noteq> SlashContractID then (ch, Some (NotSlashTx (tx_ContractID tx)))
      else (case c_json_slash cd (tx_Payload tx) of
          None \<Rightarrow> (ch, Some SlashDecodeFailed)
        | Some p \<Rightarrow>
            (case ValidateSlashFields p (tx_Sender tx) of
               Some e \<Rightarrow> (ch, Some e)
             | None \<Rightarrow>
                 (case LookupNode (ch_state ch) (sp_NodeID p) of
                    None \<Rightarrow> (ch, Some (NodeNotEnrolled (sp_NodeID p)))
                  | Some rec \<Rightarrow>
                      if EvidenceSeen (ch_state ch) (evidenceFingerprint cd p) then (ch, Some EvidenceReplay)
                      else (case DispatcherVerify (sa_Dispatcher a) p h of
                          Inl e \<Rightarrow> (ch, Some e)
                        | Inr verifierCap \<Rightarrow>
                            if tx_Fee tx \<le> 0 then (ch, Some SlashFeeNotPositive)
                            else (case DebitAndBumpNonce (ch_accounts ch) (tx_Sender tx) (tx_Fee tx) (tx_Nonce tx) of
                                (acc1, Some e) \<Rightarrow> (ch\<lparr>ch_accounts := acc1\<rparr>, Some (SlashFeeRefused e))
                              | (acc1, None) \<Rightarrow>
                                  commit_slash oob fork cd a (ch\<lparr>ch_accounts := acc1\<rparr>) tx h p
                                    (slash_amount p verifierCap rec)))))))"

section \<open>Atomicity and authority\<close>

lemmas charge_err_same =
  charge_nonce.run_err_same [of s "(b, x, n)" s' e for s b x n s' e, simplified]
  debit_nonce.run_err_same [of s "(b, x, n)" s' e for s b x n s' e, simplified]
  create_nonce.run_err_same [of s "(b, x, n)" s' e for s b x n s' e, simplified]

lemmas charge_accepted =
  charge_nonce.run_ok_nonce [of s "(b, x, n)" s' for s b x n s', simplified]
  debit_nonce.run_ok_nonce [of s "(b, x, n)" s' for s b x n s', simplified]
  create_nonce.run_ok_nonce [of s "(b, x, n)" s' for s b x n s', simplified]
  charge_nonce.accepted_nonce [of s "(b, x, n)" s' for s b x n s', simplified]
  debit_nonce.accepted_nonce [of s "(b, x, n)" s' for s b x n s', simplified]
  create_nonce.accepted_nonce [of s "(b, x, n)" s' for s b x n s', simplified]

lemma enroll_charge_err: "enroll_charge s d b x n = (s', Some e) \<Longrightarrow> s' = s"
  by (auto simp: enroll_charge_def dest: charge_err_same split: if_splits)

lemma enroll_charge_ok:
  "enroll_charge s d b x n = (s', None) \<Longrightarrow> nonce_of s b = n \<and> nonce_of s' b = n + 1"
  by (auto simp: enroll_charge_def dest: charge_accepted split: if_splits)

text \<open>What validation against the state has established by the time the stake is committed.\<close>

lemma enroll_commit_succeeds:
  assumes "enroll_inv s" and "es_byNodeID s [] = None" and "ValidateEnrollAgainstState p d s = None"
    and "er_NodeID r = ep_NodeID p" and "er_GPUUUID r = ep_GPUUUID p"
  shows "snd (ApplyEnroll s r) = None"
proof -
  have n: "es_byNodeID s (er_NodeID r) = None" and g: "GPUUUIDBound s (er_GPUUUID r) = []"
    using assms(3-5) by (simp_all add: ValidateEnrollAgainstState_def LookupNode_def split: if_splits)
  have "es_byGPUActive s (er_GPUUUID r) \<noteq> Some []"
    using enroll_invD(3) [OF assms(1)] assms(2) by auto
  with g have "es_byGPUActive s (er_GPUUUID r) = None"
    by (auto simp: GPUUUIDBound_def split: option.splits)
  with n show ?thesis by (simp add: ApplyEnroll_def)
qed

lemma unenroll_commit_succeeds:
  "ValidateUnenrollAgainstState p sender s = None \<Longrightarrow> snd (ApplyUnenroll s (up_NodeID p) h) = None"
  by (auto simp: ValidateUnenrollAgainstState_def ApplyUnenroll_def LookupNode_def split: option.splits if_splits)

lemma enroll_record_keys [simp]:
  "er_NodeID (enroll_record ret tx p h) = ep_NodeID p" "er_GPUUUID (enroll_record ret tx p h) = ep_GPUUUID p"
  "er_Owner (enroll_record ret tx p h) = tx_Sender tx" "er_EnrolledAtHeight (enroll_record ret tx p h) = h"
  "Active (enroll_record ret tx p h)"
  by (simp_all add: enroll_record_def Active_def)

lemma applyEnroll_err:
  assumes "enroll_inv (ch_state ch)" and "es_byNodeID (ch_state ch) [] = None"
    and "applyEnroll oob fork ret cd ch tx h = (ch', Some e)"
  shows "ch' = ch"
proof -
  have ok: "snd (ApplyEnroll (ch_state ch) (enroll_record ret tx p h)) = None"
    if "ValidateEnrollAgainstState p d (ch_state ch) = None" for p d
    using enroll_commit_succeeds [OF assms(1,2) that] by simp
  show ?thesis
    using assms(3)
    by (auto simp: applyEnroll_def Let_def dest: enroll_charge_err dest!: ok
        split: sum.splits option.splits if_splits prod.splits)
qed

lemma applyUnenroll_err:
  assumes "applyUnenroll oob fork cd ch tx h = (ch', Some e)"
  shows "ch' = ch"
  using assms
  by (auto simp: applyUnenroll_def dest: charge_err_same dest!: unenroll_commit_succeeds [where h = h]
      split: sum.splits option.splits if_splits prod.splits)

text \<open>
  An enrollment transaction is all or nothing: whatever the reason it is refused for, no balance, no
  nonce and no record changes. (The refund branches after a failed commit are unreachable, because
  the validation that precedes them already excludes what they guard against.)
\<close>

theorem enrollment_tx_atomic:
  assumes "enroll_inv (ch_state ch)" and "es_byNodeID (ch_state ch) [] = None"
    and "ApplyEnrollmentTx oob fork ret cd ch tx h = (ch', Some e)"
  shows "ch' = ch"
  using assms(3) applyEnroll_err [OF assms(1,2)] applyUnenroll_err
  by (auto simp: ApplyEnrollmentTx_def split: sum.splits if_splits)

definition demo_codec :: codec where
  "demo_codec = \<lparr>c_marshal = (\<lambda>_. None), c_json_kind = (\<lambda>_. Some PayloadKindUnenroll), c_json_enroll = (\<lambda>_. None),
     c_json_unenroll = (\<lambda>raw. Some \<lparr>up_Kind = PayloadKindUnenroll, up_NodeID = raw, up_Reason = []\<rparr>),
     c_json_slash = (\<lambda>raw. Some \<lparr>sp_NodeID = ''rig'', sp_EvidenceKind = ''double-mining'', sp_EvidenceBlob = raw,
                                sp_SlashAmountDust = 4, sp_Memo = []\<rparr>),
     c_json_envelope = (\<lambda>_. None), c_base64 = (\<lambda>x. x), c_sha256 = (\<lambda>x. x),
     c_mldsa_key_size = 2, c_mldsa_sig_size = 2, c_mldsa_key = (\<lambda>_. True), c_mldsa_verify = (\<lambda>_ _ _. True)\<rparr>"

definition demo_chain :: Chain where
  "demo_chain = \<lparr>ch_accounts = demo_store,
     ch_state = fst (ApplyEnroll NewInMemoryState (demo_record\<lparr>er_Owner := ''a'', er_StakeDust := 9\<rparr>))\<rparr>"

definition demo_unenroll :: Tx where
  "demo_unenroll = demo_tx\<lparr>tx_ContractID := ContractID, tx_Payload := ''rig'', tx_Fee := 0\<rparr>"

lemma demo_chain_reach: "enroll_reach (ch_state demo_chain)"
  using enroll_next [OF enroll_start step_enroll [of "demo_record\<lparr>er_Owner := ''a'', er_StakeDust := 9\<rparr>"]]
  by (simp add: demo_chain_def demo_record_def)

lemma demo_chain_state:
  "es_byNodeID (ch_state demo_chain) = [''rig'' \<mapsto> demo_record\<lparr>er_Owner := ''a'', er_StakeDust := 9\<rparr>]"
  "es_seenEvidence (ch_state demo_chain) = {}"
  by (simp_all add: demo_chain_def ApplyEnroll_def NewInMemoryState_def demo_record_def)

theorem enrollment_tx_atomic_witness:
  "fst (ApplyEnrollmentTx (\<lambda>_. 0) 100 0 demo_codec demo_chain (demo_unenroll\<lparr>tx_Nonce := 9\<rparr>) 50) = demo_chain"
proof -
  let ?r = "ApplyEnrollmentTx (\<lambda>_. 0) 100 0 demo_codec demo_chain (demo_unenroll\<lparr>tx_Nonce := 9\<rparr>) 50"
  have "snd ?r = Some (ChargeRefused (NonceMismatch ''a'' 4 9))"
    by (simp add: ApplyEnrollmentTx_def demo_unenroll_def demo_tx_def IsContractID_def ContractID_def
        SignedContractActivationHeight_def PeekKind_def demo_codec_def PayloadKindUnenroll_def
        PayloadKindEnroll_def applyUnenroll_def DecodeUnenrollPayload_def ValidateUnenrollFields_def
        validateNodeID_def MaxNodeIDLen_def node_char_def MaxMemoLen_def ValidateUnenrollAgainstState_def
        LookupNode_def demo_chain_def ApplyEnroll_def NewInMemoryState_def demo_record_def Active_def
        ChargeAndBumpNonce_def demo_store_def NewAccountStore_def)
  then have "?r = (fst ?r, Some (ChargeRefused (NonceMismatch ''a'' 4 9)))" by (metis prod.collapse)
  from enrollment_tx_atomic [OF enroll_reach_inv [OF demo_chain_reach] _ this]
  show ?thesis by (simp add: demo_chain_state)
qed

text \<open>What a valid envelope establishes: the holder of the key whose hash is the sender signed the transaction.\<close>

definition signed_by_sender :: "codec \<Rightarrow> Tx \<Rightarrow> bool" where
  "signed_by_sender cd tx \<longleftrightarrow>
     (\<exists>pub sig message. DecodeHex (tx_PublicKey tx) = Some pub \<and> tx_Sender tx = EncodeToString (c_sha256 cd pub) \<and>
        DecodeHex (tx_Signature tx) = Some sig \<and> CanonicalBytes cd (EnvelopeFromTransaction cd tx) = Some message \<and>
        c_mldsa_verify cd pub message sig)"

lemma verified_signed: "VerifySignedTransaction cd tx = None \<Longrightarrow> signed_by_sender cd tx"
  by (auto simp: VerifySignedTransaction_def VerifySignedEnvelope_def signed_by_sender_def EnvelopeFromTransaction_def
      split: if_splits option.splits)

text \<open>
  C20. An applied enrollment transaction was authorised and does one thing. From the activation height of the
  signed contract on it came under that contract and carries a signature that verifies under the key whose
  hash is the sender; below that height the unsigned legacy contract is accepted too. It used the sender's
  current nonce and advanced it by one; and it changed exactly one record, either a new active record
  owned by the sender, or the sender's own active record, which is now revoked and matures one unbond
  window later.
\<close>

theorem enrollment_tx_authorised:
  assumes "ApplyEnrollmentTx oob fork ret cd ch tx h = (ch', None)"
  shows "(tx_ContractID tx = ContractID \<and> h < SignedContractActivationHeight \<or>
          tx_ContractID tx = SignedContractID \<and> signed_by_sender cd tx) \<and>
         (SignedContractActivationHeight \<le> h \<longrightarrow> signed_by_sender cd tx) \<and>
         nonce_of (ch_accounts ch) (tx_Sender tx) = tx_Nonce tx \<and>
         nonce_of (ch_accounts ch') (tx_Sender tx) = tx_Nonce tx + 1 \<and>
         (\<exists>n r. es_byNodeID (ch_state ch') = (es_byNodeID (ch_state ch))(n \<mapsto> r) \<and> er_Owner r = tx_Sender tx \<and>
            (case es_byNodeID (ch_state ch) n of
               None \<Rightarrow> Active r \<and> er_EnrolledAtHeight r = h
             | Some q \<Rightarrow> Active q \<and> er_Owner q = tx_Sender tx \<and>
                 r = q\<lparr>er_RevokedAtHeight := h, er_UnbondMaturesAtHeight := h + UnbondWindow\<rparr>))"
    (is "?auth \<and> ?signed \<and> ?nonce \<and> ?nonce' \<and> ?change")
proof -
  have auth: ?auth
    using assms by (auto simp: ApplyEnrollmentTx_def IsContractID_def dest: verified_signed split: if_splits)
  then have signed: ?signed by auto
  consider "applyEnroll oob fork ret cd ch tx h = (ch', None)" | "applyUnenroll oob fork cd ch tx h = (ch', None)"
    using assms by (auto simp: ApplyEnrollmentTx_def split: if_splits sum.splits)
  then have "?nonce \<and> ?nonce' \<and> ?change"
  proof cases
    case 1
    then obtain p acc1 st1 d x where c: "enroll_charge (ch_accounts ch) d (tx_Sender tx) x (tx_Nonce tx) = (acc1, None)"
      and e: "ApplyEnroll (ch_state ch) (enroll_record ret tx p h) = (st1, None)"
      and ch': "ch' = ch\<lparr>ch_accounts := acc1, ch_state := st1\<rparr>"
      by (auto simp: applyEnroll_def Let_def split: sum.splits option.splits if_splits prod.splits)
    have "es_byNodeID (ch_state ch) (ep_NodeID p) = None"
      "es_byNodeID st1 = (es_byNodeID (ch_state ch))(ep_NodeID p \<mapsto> enroll_record ret tx p h)"
      using e by (auto simp: ApplyEnroll_def split: if_splits)
    then have ?change using ch' by (intro exI [of _ "ep_NodeID p"] exI [of _ "enroll_record ret tx p h"]) simp
    with enroll_charge_ok [OF c] ch' show ?thesis by simp
  next
    case 2
    then obtain p acc1 st1 where c: "ChargeAndBumpNonce (ch_accounts ch) (tx_Sender tx) (tx_Fee tx) (tx_Nonce tx) = (acc1, None)"
      and v: "ValidateUnenrollAgainstState p (tx_Sender tx) (ch_state ch) = None"
      and e: "ApplyUnenroll (ch_state ch) (up_NodeID p) h = (st1, None)"
      and ch': "ch' = ch\<lparr>ch_accounts := acc1, ch_state := st1\<rparr>"
      by (auto simp: applyUnenroll_def split: sum.splits option.splits if_splits prod.splits)
    then obtain q where q: "es_byNodeID (ch_state ch) (up_NodeID p) = Some q" "Active q" "er_Owner q = tx_Sender tx"
      by (auto simp: ValidateUnenrollAgainstState_def LookupNode_def split: option.splits if_splits)
    have "es_byNodeID st1 = (es_byNodeID (ch_state ch))(up_NodeID p \<mapsto>
        q\<lparr>er_RevokedAtHeight := h, er_UnbondMaturesAtHeight := h + UnbondWindow\<rparr>)"
      using e q by (auto simp: ApplyUnenroll_def revoke_record_def)
    then have ?change using ch' q by (intro exI [of _ "up_NodeID p"] exI) auto
    with charge_accepted(1,4) [OF c] ch' show ?thesis by simp
  qed
  with auth signed show ?thesis by blast
qed

text \<open>A chain on which an owner with a key of two bytes leaves, in a signed transaction.\<close>

definition demo_signed_codec :: codec where
  "demo_signed_codec = demo_codec\<lparr>c_json_envelope := \<lambda>env. Some (se_ID env)\<rparr>"

definition demo_signed_chain :: Chain where
  "demo_signed_chain = \<lparr>ch_accounts = put_account NewAccountStore ''6162''
       \<lparr>acc_Address = ''6162'', acc_Balance = Fin 10, acc_Nonce = 4, acc_BalanceDust = 0\<rparr>,
     ch_state = fst (ApplyEnroll NewInMemoryState (demo_record\<lparr>er_Owner := ''6162'', er_StakeDust := 9\<rparr>))\<rparr>"

definition demo_signed_unenroll :: Tx where
  "demo_signed_unenroll = demo_unenroll\<lparr>tx_ContractID := SignedContractID, tx_Sender := ''6162'',
     tx_PublicKey := ''6162'', tx_Signature := ''6364''\<rparr>"

lemma demo_signed_verifies: "VerifySignedTransaction demo_signed_codec demo_signed_unenroll = None"
  by code_simp

lemma demo_signed_applies:
  "snd (ApplyEnrollmentTx (\<lambda>_. 0) 100 0 demo_signed_codec demo_signed_chain demo_signed_unenroll SignedContractActivationHeight) = None"
  by (simp add: ApplyEnrollmentTx_def demo_signed_verifies)
    (simp add: demo_signed_unenroll_def demo_unenroll_def demo_tx_def IsContractID_def ContractID_def SignedContractID_def
        PeekKind_def demo_signed_codec_def demo_codec_def PayloadKindUnenroll_def
        PayloadKindEnroll_def applyUnenroll_def DecodeUnenrollPayload_def ValidateUnenrollFields_def
        validateNodeID_def MaxNodeIDLen_def node_char_def MaxMemoLen_def ValidateUnenrollAgainstState_def
        LookupNode_def demo_signed_chain_def ApplyEnroll_def NewInMemoryState_def demo_record_def Active_def
        ChargeAndBumpNonce_def NewAccountStore_def ApplyUnenroll_def zero_float64_def)

theorem enrollment_tx_authorised_witness:
  "let r = ApplyEnrollmentTx (\<lambda>_. 0) 100 0 demo_signed_codec demo_signed_chain demo_signed_unenroll SignedContractActivationHeight in
   snd r = None \<and> signed_by_sender demo_signed_codec demo_signed_unenroll \<and> nonce_of (ch_accounts (fst r)) ''6162'' = 5"
proof -
  let ?r = "ApplyEnrollmentTx (\<lambda>_. 0) 100 0 demo_signed_codec demo_signed_chain demo_signed_unenroll SignedContractActivationHeight"
  have "?r = (fst ?r, None)" using demo_signed_applies by (metis prod.collapse)
  from enrollment_tx_authorised [OF this] demo_signed_applies show ?thesis
    by (simp add: demo_signed_unenroll_def demo_unenroll_def demo_tx_def Let_def)
qed

section \<open>Mining rewards\<close>

lemma reward_err_same: "ApplyProtocolReward s txp x = (s', Some e) \<Longrightarrow> s' = s"
  by (auto simp: ApplyProtocolReward_def Let_def split: option.splits if_splits)

lemma restore_clone [simp]: "RestoreState t (CloneState s) = s"
  by (simp add: RestoreState_def CloneState_def)

text \<open>
  A mining reward is split without loss on the bond side: a refused reward changes nothing at all; an
  applied one comes from the system funder, locks at most the reward's dust, raises the total stake by
  exactly what it locked, and pays out a liquid part between zero and the reward.
\<close>

theorem mining_reward_split:
  assumes inv: "enroll_inv (ch_state ch)" and ks: "iteration (es_byNodeID (ch_state ch)) ks"
    and r: "ApplyMiningRewardTx oob ch ks tx = (ch', e)"
  shows "case e of
           Some _ \<Rightarrow> ch' = ch
         | None \<Rightarrow> tx_Sender tx = MiningRewardFunderAddress \<and>
             (\<exists>locked liquid. locked \<le> balanceToDust oob (tx_Amount tx) \<and>
                stake_total (ch_state ch') = stake_total (ch_state ch) + unat locked \<and>
                \<not> liquid < 0 \<and> \<not> tx_Amount tx < liquid \<and>
                ApplyProtocolReward (ch_accounts ch) (Some tx) liquid = (ch_accounts ch', None))"
proof (cases "tx_ContractID tx \<noteq> MiningRewardContractID \<or> tx_Sender tx \<noteq> MiningRewardFunderAddress \<or>
    \<not> feq (tx_Fee tx) 0 \<or> tx_Amount tx \<le> 0 \<or> tx_Recipient tx = []")
  case True
  with r show ?thesis by (auto simp: ApplyMiningRewardTx_def split: if_splits)
next
  case False
  let ?d = "balanceToDust oob (tx_Amount tx)"
  obtain st1 locked where a: "AccrueBondFromReward (ch_state ch) ks (tx_Recipient tx) ?d = (st1, locked)" by fastforce
  define liquid where "liquid = (if tx_Amount tx - dustToBalance locked < 0 then 0
      else tx_Amount tx - dustToBalance locked)"
  obtain acc1 e1 where pr: "ApplyProtocolReward (ch_accounts ch) (Some tx) liquid = (acc1, e1)" by fastforce
  have fact: "locked \<le> ?d" "stake_total st1 = stake_total (ch_state ch) + unat locked"
    using accrual_facts [OF inv ks _ a] False by simp_all
  then have not_more: "\<not> ?d < locked" by simp
  show ?thesis
  proof (cases e1)
    case (Some x)
    then have "acc1 = ch_accounts ch" using pr reward_err_same by blast
    with r False a not_more pr Some show ?thesis
      by (auto simp: ApplyMiningRewardTx_def Let_def liquid_def [symmetric])
  next
    case None
    have ch': "ch' = ch\<lparr>ch_accounts := acc1, ch_state := st1\<rparr>" "e = None"
      using r False a not_more pr None by (auto simp: ApplyMiningRewardTx_def Let_def liquid_def [symmetric])
    have "\<not> liquid < 0 \<and> \<not> tx_Amount tx < liquid"
      using pr None by (auto simp: ApplyProtocolReward_def split: if_splits)
    with ch' fact pr None False show ?thesis by (auto intro!: exI [of _ locked] exI [of _ liquid])
  qed
qed

text \<open>A chain whose system funder can pay the reward, and a reward for the demo miner.\<close>

definition demo_reward_chain :: Chain where
  "demo_reward_chain = demo_chain\<lparr>ch_accounts := put_account NewAccountStore MiningRewardFunderAddress
     \<lparr>acc_Address = MiningRewardFunderAddress, acc_Balance = Fin 10, acc_Nonce = 4, acc_BalanceDust = 0\<rparr>\<rparr>"

theorem mining_reward_split_witness:
  "\<exists>ch' e. ApplyMiningRewardTx (\<lambda>_. 0) demo_reward_chain [''rig'']
       (demo_tx\<lparr>tx_ContractID := MiningRewardContractID, tx_Sender := MiningRewardFunderAddress, tx_Fee := 0\<rparr>) = (ch', e) \<and>
     (e \<noteq> None \<longrightarrow> ch' = demo_reward_chain)"
proof -
  let ?tx = "demo_tx\<lparr>tx_ContractID := MiningRewardContractID, tx_Sender := MiningRewardFunderAddress, tx_Fee := 0\<rparr>"
  let ?r = "ApplyMiningRewardTx (\<lambda>_. 0) demo_reward_chain [''rig''] ?tx"
  have st: "ch_state demo_reward_chain = ch_state demo_chain" by (simp add: demo_reward_chain_def)
  have ks: "iteration (es_byNodeID (ch_state demo_reward_chain)) [''rig'']"
    by (simp add: st iteration_def demo_chain_state)
  have "enroll_inv (ch_state demo_reward_chain)" unfolding st by (rule enroll_reach_inv [OF demo_chain_reach])
  from mining_reward_split [OF this ks prod.collapse [symmetric], where oob = "\<lambda>_. 0" and tx = ?tx]
  show ?thesis by (intro exI [of _ "fst ?r"] exI [of _ "snd ?r"]) (simp split: option.splits)
qed

section \<open>Slashing\<close>

text \<open>The reporter's share: at most half of what was slashed, also when the product wraps.\<close>

lemma active_bps_cap: "unat (activeRewardBPS a) \<le> 5000"
proof -
  have cap: "x \<le> SlashRewardCap \<Longrightarrow> unat x \<le> 5000" for x
    by (simp add: SlashRewardCap_def word_le_nat_alt)
  have "activeRewardBPS a \<le> SlashRewardCap"
  proof (cases "case sa_Params a of None \<Rightarrow> None | Some ps \<Rightarrow> ps ''reward_bps''")
    case None
    then show ?thesis by (auto simp: activeRewardBPS_def not_less)
  next
    case (Some v)
    have "unat (ucast SlashRewardCap :: u64) = 5000" by (simp add: SlashRewardCap_def)
    then have "\<not> ucast SlashRewardCap < v \<Longrightarrow> unat v \<le> 5000" by (simp add: word_less_nat_alt)
    then have "\<not> ucast SlashRewardCap < v \<Longrightarrow> (ucast v :: u16) \<le> SlashRewardCap"
      by (simp add: word_le_nat_alt SlashRewardCap_def unsigned_ucast_eq take_bit_nat_eq_self)
    with Some show ?thesis by (simp add: activeRewardBPS_def)
  qed
  then show ?thesis by (rule cap)
qed

lemma slash_reward_half: "2 * unat (slash_reward a slashed) \<le> unat slashed"
proof -
  let ?b = "activeRewardBPS a"
  have "unat (slashed * ucast ?b) \<le> unat slashed * unat (ucast ?b :: u64)"
    by (simp only: unat_word_ariths mod_less_eq_dividend)
  also have "\<dots> \<le> unat slashed * 5000"
    using active_bps_cap [of a] by (simp add: unsigned_ucast_eq take_bit_nat_eq_self)
  finally have "unat (slashed * ucast ?b) div 10000 \<le> unat slashed * 5000 div 10000" by (rule div_le_mono)
  moreover have "unat (slashed * ucast ?b div 10000) = unat (slashed * ucast ?b) div 10000" by (simp add: unat_div)
  ultimately have "2 * unat (slashed * ucast ?b div 10000) \<le> unat slashed" by linarith
  then show ?thesis by (simp add: slash_reward_def)
qed

lemma slash_amount_le: "slash_amount p c r \<le> sp_SlashAmountDust p" "slash_amount p c r \<le> er_StakeDust r"
  by (auto simp: slash_amount_def Let_def)

lemma mark_fresh:
  "\<not> EvidenceSeen s e \<Longrightarrow> MarkEvidenceSeen s e = (s\<lparr>es_seenEvidence := insert e (es_seenEvidence s)\<rparr>, True)"
  by (simp add: MarkEvidenceSeen_def)

text \<open>A slash that reaches the commit succeeds, and this is what it does.\<close>

lemma commit_slash_effect:
  assumes inv: "enroll_inv (ch_state ch)" and n: "es_byNodeID (ch_state ch) (sp_NodeID p) = Some rec" and h: "h \<noteq> 0"
    and fresh: "\<not> EvidenceSeen (ch_state ch) (evidenceFingerprint cd p)" and amt: "amt \<le> er_StakeDust rec"
    and c: "commit_slash oob fork cd a ch tx h p amt = (ch', e)"
  shows "e = None" and "stake_total (ch_state ch') + unat amt = stake_total (ch_state ch)"
    and "evidenceFingerprint cd p \<in> es_seenEvidence (ch_state ch')"
    and "\<exists>q. es_byNodeID (ch_state ch') = (es_byNodeID (ch_state ch))(sp_NodeID p \<mapsto> q) \<and>
           er_StakeDust q = er_StakeDust rec - amt \<and>
           (Active q \<longleftrightarrow> Active rec \<and> activeAutoRevokeMinStakeDust a \<le> er_StakeDust q) \<and>
           (Active rec \<and> \<not> Active q \<longrightarrow> er_RevokedAtHeight q = h \<and> er_UnbondMaturesAtHeight q = h + UnbondWindow)"
    and "ch_accounts ch' = (if 0 < slash_reward a amt
           then Credit oob fork (ch_accounts ch) (tx_Sender tx) (dustToBalance (slash_reward a amt)) else ch_accounts ch)"
proof -
  let ?s1 = "(ch_state ch)\<lparr>es_seenEvidence := insert (evidenceFingerprint cd p) (es_seenEvidence (ch_state ch))\<rparr>"
  let ?s2 = "put_record ?s1 (sp_NodeID p) (rec\<lparr>er_StakeDust := er_StakeDust rec - amt\<rparr>)"
  let ?t = "activeAutoRevokeMinStakeDust a"
  let ?s3 = "if 0 < ?t then fst (RevokeIfUnderBonded ?s2 (sp_NodeID p) h ?t) else ?s2"
  have inv1: "enroll_inv ?s1" using mark_inv [OF inv, of "evidenceFingerprint cd p"] by (simp add: mark_fresh [OF fresh])
  have n1: "es_byNodeID ?s1 (sp_NodeID p) = Some rec" using n by simp
  have sl: "SlashStake ?s1 (sp_NodeID p) amt = (?s2, Inr amt)"
    using n1 amt by (auto simp: SlashStake_def Let_def)
  have ch': "e = None" "ch_state ch' = ?s3"
    and acc: "ch_accounts ch' = (if 0 < slash_reward a amt
      then Credit oob fork (ch_accounts ch) (tx_Sender tx) (dustToBalance (slash_reward a amt)) else ch_accounts ch)"
    using c by (auto simp: commit_slash_def mark_fresh [OF fresh] sl Let_def)
  then show "e = None" by simp
  show "ch_accounts ch' = (if 0 < slash_reward a amt
    then Credit oob fork (ch_accounts ch) (tx_Sender tx) (dustToBalance (slash_reward a amt)) else ch_accounts ch)" by (rule acc)
  note facts = slash_revoke_facts [OF inv1 n1 h sl prod.collapse [symmetric], of ?t]
  have r0: "RevokeIfUnderBonded ?s2 (sp_NodeID p) h 0 = (?s2, Inr (False, er_StakeDust rec - amt))"
    by (simp add: RevokeIfUnderBonded_def)
  have s3: "?s3 = fst (RevokeIfUnderBonded ?s2 (sp_NodeID p) h ?t)"
    using r0 by (cases "?t = 0") (simp_all add: word_gt_0)
  have tot: "stake_total ?s1 = stake_total (ch_state ch)" by (simp add: stake_total_def)
  show "stake_total (ch_state ch') + unat amt = stake_total (ch_state ch)"
    using facts tot unfolding ch'(2) s3 by simp
  show "\<exists>q. es_byNodeID (ch_state ch') = (es_byNodeID (ch_state ch))(sp_NodeID p \<mapsto> q) \<and>
      er_StakeDust q = er_StakeDust rec - amt \<and> (Active q \<longleftrightarrow> Active rec \<and> ?t \<le> er_StakeDust q) \<and>
      (Active rec \<and> \<not> Active q \<longrightarrow> er_RevokedAtHeight q = h \<and> er_UnbondMaturesAtHeight q = h + UnbondWindow)"
    unfolding ch'(2) s3 using h by (auto simp: RevokeIfUnderBonded_def revoke_record_def Active_def)
  show "evidenceFingerprint cd p \<in> es_seenEvidence (ch_state ch')"
    unfolding ch'(2) by (simp add: RevokeIfUnderBonded_def revoke_record_def split: option.split)
qed

text \<open>The reporter's share in whole numbers, when the product of the Go code stays below 2 to the 64.\<close>

lemma slash_reward_exact:
  assumes "unat slashed * 5000 < 2 ^ 64"
  shows "unat (slash_reward a slashed) = unat slashed * unat (activeRewardBPS a) div 10000"
proof -
  have b: "unat (ucast (activeRewardBPS a) :: u64) = unat (activeRewardBPS a)"
    using active_bps_cap [of a] by (simp add: unsigned_ucast_eq take_bit_nat_eq_self)
  have "unat slashed * unat (activeRewardBPS a) \<le> unat slashed * 5000"
    using active_bps_cap [of a] by simp
  also note assms
  finally have "unat slashed * unat (activeRewardBPS a) < 2 ^ 64" .
  then have "unat (slashed * ucast (activeRewardBPS a)) = unat slashed * unat (activeRewardBPS a)"
    using b by (simp add: unat_mult_lem [THEN iffD1])
  then show ?thesis by (auto simp: slash_reward_def unat_div word_gt_0)
qed

lemma charge_other: "DebitAndBumpNonce s b x n = (s', None) \<Longrightarrow> c \<noteq> b \<Longrightarrow> GetAccount s' c = GetAccount s c"
  by (auto simp: DebitAndBumpNonce_def ChargeAndBumpNonce_def GetAccount_def split: if_splits option.splits)

lemma credit_other: "c \<noteq> b \<Longrightarrow> GetAccount (Credit oob fork s b x) c = GetAccount s c"
  by (simp add: Credit_def Let_def GetAccount_def)

text \<open>
  C7. A slashing transaction is atomic, bounded and justified. Refused, it changes nothing. Applied, it
  carried well-formed evidence that a verifier accepted and that was not used before. It takes from the
  accused node's stake exactly the least of the amount asked for, the stake, and (when the verifier
  names one) the verifier's cap; total stake falls by exactly that, and no other record changes. The sender
  pays the fee and then is credited the governed share of the amount, rounded down, at most half of it; every other
  account is untouched, so the rest is burned. The node stays active exactly when it was active and its
  remaining stake reaches the auto-revoke threshold; otherwise it is revoked at this height.
\<close>

theorem slash_tx_correct:
  assumes inv: "enroll_inv (ch_state ch)" and h: "h \<noteq> 0"
    and r: "ApplySlashTx oob fork cd a ch tx h = (ch', e)"
  shows "case e of
           Some _ \<Rightarrow> ch' = ch
         | None \<Rightarrow> (\<exists>p rec cap amt q paid reward.
             c_json_slash cd (tx_Payload tx) = Some p \<and> ValidateSlashFields p (tx_Sender tx) = None \<and>
             es_byNodeID (ch_state ch) (sp_NodeID p) = Some rec \<and>
             DispatcherVerify (sa_Dispatcher a) p h = Inr cap \<and>
             evidenceFingerprint cd p \<notin> es_seenEvidence (ch_state ch) \<and>
             evidenceFingerprint cd p \<in> es_seenEvidence (ch_state ch') \<and>
             amt = min (er_StakeDust rec) (if 0 < cap then min cap (sp_SlashAmountDust p) else sp_SlashAmountDust p) \<and>
             stake_total (ch_state ch') + unat amt = stake_total (ch_state ch) \<and>
             DebitAndBumpNonce (ch_accounts ch) (tx_Sender tx) (tx_Fee tx) (tx_Nonce tx) = (paid, None) \<and>
             ch_accounts ch' = (if 0 < reward then Credit oob fork paid (tx_Sender tx) (dustToBalance reward) else paid) \<and>
             2 * unat reward \<le> unat amt \<and>
             (unat amt * 5000 < 2 ^ 64 \<longrightarrow> unat reward = unat amt * unat (activeRewardBPS a) div 10000) \<and>
             (\<forall>b. b \<noteq> tx_Sender tx \<longrightarrow> GetAccount (ch_accounts ch') b = GetAccount (ch_accounts ch) b) \<and>
             es_byNodeID (ch_state ch') = (es_byNodeID (ch_state ch))(sp_NodeID p \<mapsto> q) \<and>
             er_StakeDust q = er_StakeDust rec - amt \<and>
             (Active q \<longleftrightarrow> Active rec \<and> activeAutoRevokeMinStakeDust a \<le> er_StakeDust q) \<and>
             (Active rec \<and> \<not> Active q \<longrightarrow> er_RevokedAtHeight q = h \<and> er_UnbondMaturesAtHeight q = h + UnbondWindow))"
proof (cases "\<exists>p rec cap. tx_ContractID tx = SlashContractID \<and> c_json_slash cd (tx_Payload tx) = Some p \<and>
    ValidateSlashFields p (tx_Sender tx) = None \<and> LookupNode (ch_state ch) (sp_NodeID p) = Some rec \<and>
    \<not> EvidenceSeen (ch_state ch) (evidenceFingerprint cd p) \<and>
    DispatcherVerify (sa_Dispatcher a) p h = Inr cap \<and> \<not> tx_Fee tx \<le> 0")
  case False
  with r have "ch' = ch \<and> e \<noteq> None"
    by (auto simp: ApplySlashTx_def split: option.splits sum.splits if_splits) metis
  then show ?thesis by (auto split: option.split)
next
  case True
  then obtain p rec cap where p: "tx_ContractID tx = SlashContractID" "c_json_slash cd (tx_Payload tx) = Some p"
    "ValidateSlashFields p (tx_Sender tx) = None" "es_byNodeID (ch_state ch) (sp_NodeID p) = Some rec"
    and fresh: "\<not> EvidenceSeen (ch_state ch) (evidenceFingerprint cd p)"
    and v: "DispatcherVerify (sa_Dispatcher a) p h = Inr cap" "\<not> tx_Fee tx \<le> 0"
    by (auto simp: LookupNode_def)
  obtain paid ce where d: "DebitAndBumpNonce (ch_accounts ch) (tx_Sender tx) (tx_Fee tx) (tx_Nonce tx) = (paid, ce)"
    by fastforce
  have step: "ApplySlashTx oob fork cd a ch tx h = (case ce of
      Some x \<Rightarrow> (ch\<lparr>ch_accounts := paid\<rparr>, Some (SlashFeeRefused x))
    | None \<Rightarrow> commit_slash oob fork cd a (ch\<lparr>ch_accounts := paid\<rparr>) tx h p (slash_amount p cap rec))"
    using p fresh v d by (simp add: ApplySlashTx_def LookupNode_def split: option.split)
  show ?thesis
  proof (cases ce)
    case (Some x)
    then have "paid = ch_accounts ch" using d charge_err_same(2) by blast
    with Some r step show ?thesis by auto
  next
    case None
    let ?ch = "ch\<lparr>ch_accounts := paid\<rparr>" and ?amt = "slash_amount p cap rec"
    have c: "commit_slash oob fork cd a ?ch tx h p ?amt = (ch', e)" using r step None by simp
    note eff = commit_slash_effect [of ?ch, simplified, OF inv p(4) h fresh slash_amount_le(2) c]
    obtain q where q: "es_byNodeID (ch_state ch') = (es_byNodeID (ch_state ch))(sp_NodeID p \<mapsto> q)"
      "er_StakeDust q = er_StakeDust rec - ?amt" "Active q \<longleftrightarrow> Active rec \<and> activeAutoRevokeMinStakeDust a \<le> er_StakeDust q"
      "Active rec \<and> \<not> Active q \<longrightarrow> er_RevokedAtHeight q = h \<and> er_UnbondMaturesAtHeight q = h + UnbondWindow"
      using eff(4) by blast
    have least: "?amt = min (er_StakeDust rec) (if 0 < cap then min cap (sp_SlashAmountDust p) else sp_SlashAmountDust p)"
      by (auto simp: slash_amount_def Let_def min_def)
    have others: "\<forall>b. b \<noteq> tx_Sender tx \<longrightarrow> GetAccount (ch_accounts ch') b = GetAccount (ch_accounts ch) b"
      using charge_other [OF d [unfolded None]] by (simp add: eff(5) credit_other)
    have unused: "evidenceFingerprint cd p \<notin> es_seenEvidence (ch_state ch)" using fresh by (simp add: EvidenceSeen_def)
    have credited: "ch_accounts ch' = (if 0 < slash_reward a ?amt
        then Credit oob fork paid (tx_Sender tx) (dustToBalance (slash_reward a ?amt)) else paid)"
      using eff(5) by (cases "0 < slash_reward a ?amt") simp_all
    have share: "unat ?amt * 5000 < 2 ^ 64 \<longrightarrow>
        unat (slash_reward a ?amt) = unat ?amt * unat (activeRewardBPS a) div 10000" using slash_reward_exact by blast
    note all = p(2-4) v(1) unused eff(3) least eff(2) d [unfolded None] credited slash_reward_half [of a ?amt] share others q
    show ?thesis unfolding eff(1) option.case
      by (rule exI [of _ p], rule exI [of _ rec], rule exI [of _ cap], rule exI [of _ ?amt], rule exI [of _ q],
          rule exI [of _ paid], rule exI [of _ "slash_reward a ?amt"]) (intro conjI; fact all)
  qed
qed

definition demo_slasher :: SlashApplier where
  "demo_slasher = \<lparr>sa_Dispatcher = [''double-mining'' \<mapsto> \<lambda>p h. Inr 3], sa_RewardBPS = 1000,
     sa_AutoRevokeMinStakeDust = MinEnrollStakeDust, sa_Params = None\<rparr>"

definition demo_slash_tx :: Tx where
  "demo_slash_tx = demo_tx\<lparr>tx_ContractID := SlashContractID, tx_Payload := ''evidence''\<rparr>"

lemma demo_slash_ok:
  "snd (ApplySlashTx (\<lambda>_. 0) 100 demo_codec demo_slasher demo_chain demo_slash_tx 50) = None"
  by (simp add: ApplySlashTx_def demo_slash_tx_def demo_tx_def demo_codec_def ValidateSlashFields_def
      MaxNodeIDLen_def AllEvidenceKinds_def MaxEvidenceLen_def MaxMemoLen_def LookupNode_def
      demo_chain_def ApplyEnroll_def NewInMemoryState_def demo_record_def EvidenceSeen_def
      DispatcherVerify_def demo_slasher_def DebitAndBumpNonce_def ChargeAndBumpNonce_def demo_store_def
      NewAccountStore_def commit_slash_def MarkEvidenceSeen_def SlashStake_def Let_def
      zero_float64_def less_eq_float64_def)

text \<open>A slash of which a share is paid: half a million dust of a stake of two million, at ten percent.\<close>

definition demo_bonded_chain :: Chain where
  "demo_bonded_chain = \<lparr>ch_accounts = demo_store,
     ch_state = fst (ApplyEnroll NewInMemoryState (demo_record\<lparr>er_Owner := ''a'', er_StakeDust := 2000000\<rparr>))\<rparr>"

definition demo_report_codec :: codec where
  "demo_report_codec = demo_codec\<lparr>c_json_slash := \<lambda>raw. Some \<lparr>sp_NodeID = ''rig'', sp_EvidenceKind = ''double-mining'',
     sp_EvidenceBlob = raw, sp_SlashAmountDust = 900000, sp_Memo = []\<rparr>\<rparr>"

definition demo_report_slasher :: SlashApplier where
  "demo_report_slasher = demo_slasher\<lparr>sa_Dispatcher := [''double-mining'' \<mapsto> \<lambda>p h. Inr 500000]\<rparr>"

lemma demo_bonded_inv: "enroll_inv (ch_state demo_bonded_chain)"
  using enroll_next [OF enroll_start step_enroll [of "demo_record\<lparr>er_Owner := ''a'', er_StakeDust := 2000000\<rparr>"]]
  by (intro enroll_reach_inv) (simp add: demo_bonded_chain_def demo_record_def)

lemma demo_report_ok:
  "snd (ApplySlashTx (\<lambda>_. 0) 100 demo_report_codec demo_report_slasher demo_bonded_chain demo_slash_tx 50) = None"
  by (simp add: ApplySlashTx_def demo_slash_tx_def demo_tx_def demo_report_codec_def demo_codec_def ValidateSlashFields_def
      MaxNodeIDLen_def AllEvidenceKinds_def MaxEvidenceLen_def MaxMemoLen_def LookupNode_def
      demo_bonded_chain_def ApplyEnroll_def NewInMemoryState_def demo_record_def EvidenceSeen_def
      DispatcherVerify_def demo_report_slasher_def demo_slasher_def DebitAndBumpNonce_def ChargeAndBumpNonce_def demo_store_def
      NewAccountStore_def commit_slash_def MarkEvidenceSeen_def SlashStake_def Let_def
      zero_float64_def less_eq_float64_def)

theorem slash_tx_correct_witness:
  "let r = ApplySlashTx (\<lambda>_. 0) 100 demo_report_codec demo_report_slasher demo_bonded_chain demo_slash_tx 50 in
   snd r = None \<and> stake_total (ch_state (fst r)) + 500000 = stake_total (ch_state demo_bonded_chain) \<and>
   (\<exists>paid. ch_accounts (fst r) = Credit (\<lambda>_. 0) 100 paid ''a'' (dustToBalance 50000))"
proof -
  let ?r = "ApplySlashTx (\<lambda>_. 0) 100 demo_report_codec demo_report_slasher demo_bonded_chain demo_slash_tx 50"
  have rec: "es_byNodeID (ch_state demo_bonded_chain) ''rig'' = Some (demo_record\<lparr>er_Owner := ''a'', er_StakeDust := 2000000\<rparr>)"
    by (simp add: demo_bonded_chain_def ApplyEnroll_def NewInMemoryState_def demo_record_def)
  have bps: "unat (activeRewardBPS demo_report_slasher) = 1000"
    by (simp add: activeRewardBPS_def demo_report_slasher_def demo_slasher_def SlashRewardCap_def)
  have send: "tx_Sender demo_slash_tx = ''a''" by (simp add: demo_slash_tx_def demo_tx_def)
  have cap: "DispatcherVerify (sa_Dispatcher demo_report_slasher) \<lparr>sp_NodeID = ''rig'', sp_EvidenceKind = ''double-mining'',
      sp_EvidenceBlob = b, sp_SlashAmountDust = 900000, sp_Memo = []\<rparr> 50 = Inr 500000" for b
    by (simp add: DispatcherVerify_def demo_report_slasher_def)
  have "(50 :: u64) \<noteq> 0" "?r = (fst ?r, None)" using demo_report_ok by (simp, metis prod.collapse)
  from slash_tx_correct [OF demo_bonded_inv this] obtain p rec cap amt paid reward where
    p: "c_json_slash demo_report_codec (tx_Payload demo_slash_tx) = Some p"
    and n: "es_byNodeID (ch_state demo_bonded_chain) (sp_NodeID p) = Some rec"
    and v: "DispatcherVerify (sa_Dispatcher demo_report_slasher) p 50 = Inr cap"
    and amt: "amt = min (er_StakeDust rec) (if 0 < cap then min cap (sp_SlashAmountDust p) else sp_SlashAmountDust p)"
    and s: "stake_total (ch_state (fst ?r)) + unat amt = stake_total (ch_state demo_bonded_chain)"
    and acc: "ch_accounts (fst ?r) =
      (if 0 < reward then Credit (\<lambda>_. 0) 100 paid (tx_Sender demo_slash_tx) (dustToBalance reward) else paid)"
    and reward: "unat amt * 5000 < 2 ^ 64 \<longrightarrow> unat reward = unat amt * unat (activeRewardBPS demo_report_slasher) div 10000"
    unfolding option.case by (elim exE conjE) simp
  have "amt = 500000" using p n v by (auto simp: amt demo_report_codec_def rec cap min_def)
  with reward bps have "unat reward = 50000" by simp
  then have "reward = 50000" by (simp add: word_unat_eq_iff)
  with acc s demo_report_ok \<open>amt = 500000\<close> show ?thesis by (auto simp: Let_def send)
qed

text \<open>Used evidence stays used, whatever the state does afterwards.\<close>

lemma accrue_loop_seen [simp]: "es_seenEvidence (fst (accrue_loop s ns x)) = es_seenEvidence s"
  by (induction ns arbitrary: s x) (simp_all add: Let_def)

lemma legacy_loop_seen [simp]: "es_seenEvidence (fst (revoke_legacy_loop s ns out)) = es_seenEvidence s"
  by (induction ns arbitrary: s out) (simp_all add: Let_def revoke_record_def)

lemma sweep_loop_seen [simp]: "es_seenEvidence (fst (sweep_loop s ns h out)) = es_seenEvidence s"
  by (induction ns arbitrary: s out) (simp_all add: Let_def)

lemma enroll_step_seen: "enroll_step s t \<Longrightarrow> es_seenEvidence s \<subseteq> es_seenEvidence t"
  by (induction rule: enroll_step.induct)
    (auto simp: ApplyEnroll_def AccrueBondFromReward_def RevokeLegacyOwners_def ApplyUnenroll_def
      SweepMaturedUnbonds_def SlashStake_def RevokeIfUnderBonded_def MarkEvidenceSeen_def revoke_record_def
      Let_def case_prod_beta split: option.split)

lemma enroll_steps_seen: "enroll_step\<^sup>*\<^sup>* s t \<Longrightarrow> es_seenEvidence s \<subseteq> es_seenEvidence t"
  by (induction rule: rtranclp_induct) (auto dest: enroll_step_seen)

lemma slash_ok_marks:
  assumes "ApplySlashTx oob fork cd a ch tx h = (ch', None)" and "c_json_slash cd (tx_Payload tx) = Some p"
  shows "evidenceFingerprint cd p \<in> es_seenEvidence (ch_state ch')"
  using assms
  by (auto simp: ApplySlashTx_def commit_slash_def MarkEvidenceSeen_def SlashStake_def RevokeIfUnderBonded_def
      revoke_record_def Let_def split: option.splits sum.splits if_splits prod.splits bool.splits)

text \<open>
  Evidence pays once: after a slash was applied, no transaction that carries the same kind and blob of
  evidence is ever applied again, against whichever node, from whichever sender, whatever enrollment
  operations ran in between; the attempt changes nothing.
\<close>

theorem slash_evidence_single_use:
  assumes "ApplySlashTx oob fork cd a ch tx h = (ch1, None)"
    and "c_json_slash cd (tx_Payload tx) = Some p" and "c_json_slash cd (tx_Payload tx2) = Some p2"
    and "sp_EvidenceKind p2 = sp_EvidenceKind p" and "sp_EvidenceBlob p2 = sp_EvidenceBlob p"
    and "enroll_step\<^sup>*\<^sup>* (ch_state ch1) (ch_state ch2)"
  shows "\<exists>e. ApplySlashTx oob fork cd a' ch2 tx2 h2 = (ch2, Some e)"
proof -
  have "evidenceFingerprint cd p2 = evidenceFingerprint cd p" using assms(4,5) by (simp add: evidenceFingerprint_def)
  then have "EvidenceSeen (ch_state ch2) (evidenceFingerprint cd p2)"
    using slash_ok_marks [OF assms(1,2)] enroll_steps_seen [OF assms(6)] by (auto simp: EvidenceSeen_def)
  with assms(3) show ?thesis by (auto simp: ApplySlashTx_def split: option.split)
qed

theorem slash_evidence_single_use_witness:
  "\<exists>e. ApplySlashTx (\<lambda>_. 0) 100 demo_codec demo_slasher
      (fst (ApplySlashTx (\<lambda>_. 0) 100 demo_codec demo_slasher demo_chain demo_slash_tx 50))
      (demo_slash_tx\<lparr>tx_Nonce := 5\<rparr>) 51 =
    (fst (ApplySlashTx (\<lambda>_. 0) 100 demo_codec demo_slasher demo_chain demo_slash_tx 50), Some e)"
proof -
  let ?r = "ApplySlashTx (\<lambda>_. 0) 100 demo_codec demo_slasher demo_chain demo_slash_tx 50"
  have "?r = (fst ?r, None)" using demo_slash_ok by (metis prod.collapse)
  from slash_evidence_single_use [OF this, of _ "demo_slash_tx\<lparr>tx_Nonce := 5\<rparr>"] show ?thesis
    by (simp add: demo_codec_def demo_slash_tx_def)
qed

end
