(* ===== verification/Governance.thy ===== *)
theory Governance
  imports Enrollment_Apply Validators "HOL-Library.Product_Lexorder"
begin

text \<open>
  Governance of chain parameters and of the authorities that may change them:
  \<open>pkg/governance/chainparams\<close> (\<open>types.go\<close>, \<open>params.go\<close>, \<open>validate.go\<close>, \<open>admit.go\<close>, \<open>store.go\<close>,
  \<open>authority.go\<close>, \<open>persist.go\<close>) and the applier \<open>pkg/chain/gov_apply.go\<close>, with its use at boot and after a
  sealed block in \<open>internal/v2wiring\<close>.

  A range over a Go map takes the order of the keys from a function \<open>ord\<close> of the number of the range and
  of the map. JSON is the record \<open>gov_codec\<close>. Events and metrics are not modelled; the display strings of
  a parameter are left out.
\<close>

section \<open>The registry of parameters\<close>

datatype gov_error =
    NotGovTx string
  | GovDecode
  | GovInvalid string
  | UnknownParam string
  | ValueOutOfBounds string u64
  | EffectiveHeightInPast
  | EffectiveHeightTooFar
  | GovUnauthorized string
  | GovernanceNotConfigured
  | AuthorityAlreadyPresent string
  | AuthorityNotPresent string
  | DuplicateVote string
  | StageZeroHeight
  | GovFeeNotPositive
  | GovFeeRefused account_error
  | GovPrevRefused string

record ParamSpec =
  spec_Name :: string
  spec_MinValue :: u64
  spec_MaxValue :: u64
  spec_DefaultValue :: u64

definition GovContractID :: string where "GovContractID = ''qsdm/gov/v1''"
definition MaxAuthorityAddressLen :: nat where "MaxAuthorityAddressLen = 128"
definition GovMaxMemoLen :: nat where "GovMaxMemoLen = 256"
definition MaxActivationDelay :: u64 where "MaxActivationDelay = 3 * 24 * 60 * 60 div 3"
definition DefaultPromotionGrace :: u64 where "DefaultPromotionGrace = 0"
definition gov_dustPerCELL :: u64 where "gov_dustPerCELL = 100000000"
definition gov_minEnrollStakeDust :: u64 where "gov_minEnrollStakeDust = 10 * gov_dustPerCELL"

definition ParamRewardBPS :: string where "ParamRewardBPS = ''reward_bps''"
definition ParamAutoRevokeMinStakeDust :: string where
  "ParamAutoRevokeMinStakeDust = ''auto_revoke_min_stake_dust''"
definition ParamForkV2TCHeight :: string where "ParamForkV2TCHeight = ''fork_v2_tc_height''"

definition registry :: "ParamSpec list" where
  "registry =
     [\<lparr>spec_Name = ParamRewardBPS, spec_MinValue = 0, spec_MaxValue = 5000, spec_DefaultValue = 0\<rparr>,
      \<lparr>spec_Name = ParamAutoRevokeMinStakeDust, spec_MinValue = gov_dustPerCELL,
       spec_MaxValue = gov_minEnrollStakeDust, spec_DefaultValue = gov_minEnrollStakeDust\<rparr>,
      \<lparr>spec_Name = ParamForkV2TCHeight, spec_MinValue = 0, spec_MaxValue = max_u64, spec_DefaultValue = max_u64\<rparr>]"

definition name_char :: "char \<Rightarrow> bool" where
  "name_char c \<longleftrightarrow> CHR ''a'' \<le> c \<and> c \<le> CHR ''z'' \<or> CHR ''0'' \<le> c \<and> c \<le> CHR ''9'' \<or> c = CHR ''_''"

definition validParamName :: "string \<Rightarrow> bool" where
  "validParamName s \<longleftrightarrow>
     \<not> (s = [] \<or> 32 < length s) \<and> list_all name_char s \<and>
     \<not> (hd s = CHR ''_'' \<or> CHR ''0'' \<le> hd s \<and> hd s \<le> CHR ''9'')"

definition ParamSpec_Validate :: "ParamSpec \<Rightarrow> bool" where
  "ParamSpec_Validate s \<longleftrightarrow>
     spec_Name s \<noteq> [] \<and> validParamName (spec_Name s) \<and> \<not> spec_MaxValue s < spec_MinValue s \<and>
     \<not> (spec_DefaultValue s < spec_MinValue s \<or> spec_MaxValue s < spec_DefaultValue s)"

text \<open>The check of the table at package load; \<open>False\<close> stands for the panic.\<close>

fun registry_init :: "string set \<Rightarrow> ParamSpec list \<Rightarrow> bool" where
  "registry_init seen [] = True"
| "registry_init seen (spec # rest) =
     (ParamSpec_Validate spec \<and> spec_Name spec \<notin> seen \<and> registry_init (insert (spec_Name spec) seen) rest)"

definition CheckBounds :: "ParamSpec \<Rightarrow> u64 \<Rightarrow> gov_error option" where
  "CheckBounds s value =
     (if value < spec_MinValue s \<or> spec_MaxValue s < value then Some (ValueOutOfBounds (spec_Name s) value) else None)"

definition param_Lookup :: "string \<Rightarrow> ParamSpec option" where
  "param_Lookup name = find (\<lambda>s. spec_Name s = name) registry"

definition Names :: "string list" where "Names = map spec_Name registry"

section \<open>Payloads\<close>

definition PayloadKindParamSet :: string where "PayloadKindParamSet = ''param-set''"
definition PayloadKindAuthoritySet :: string where "PayloadKindAuthoritySet = ''authority-set''"
definition AuthorityOpAdd :: string where "AuthorityOpAdd = ''add''"
definition AuthorityOpRemove :: string where "AuthorityOpRemove = ''remove''"

record ParamSetPayload =
  pp_Kind :: string
  pp_Param :: string
  pp_Value :: u64
  pp_EffectiveHeight :: u64
  pp_Memo :: string

record AuthoritySetPayload =
  ap_Kind :: string
  ap_Op :: string
  ap_Address :: string
  ap_EffectiveHeight :: u64
  ap_Memo :: string

text \<open>
  The JSON decoders: of the kind header, and of each payload, strict about unknown fields, with
  whether more input follows; and the encoders, whose output ends in a newline.
\<close>

record gov_codec =
  gc_kind :: "string \<Rightarrow> string option"
  gc_param_set :: "string \<Rightarrow> (ParamSetPayload \<times> bool) option"
  gc_authority_set :: "string \<Rightarrow> (AuthoritySetPayload \<times> bool) option"
  gc_encode_param_set :: "ParamSetPayload \<Rightarrow> string option"
  gc_encode_authority_set :: "AuthoritySetPayload \<Rightarrow> string option"

definition gov_PeekKind :: "gov_codec \<Rightarrow> string \<Rightarrow> gov_error + string" where
  "gov_PeekKind cd raw =
     (if raw = [] then Inl GovDecode
      else (case gc_kind cd raw of
          None \<Rightarrow> Inl GovDecode
        | Some k \<Rightarrow>
            if k = PayloadKindParamSet \<or> k = PayloadKindAuthoritySet then Inr k else Inl (GovInvalid ''kind'')))"

definition ParseParamSet :: "gov_codec \<Rightarrow> string \<Rightarrow> gov_error + ParamSetPayload" where
  "ParseParamSet cd raw =
     (if raw = [] then Inl GovDecode
      else (case gc_param_set cd raw of
          None \<Rightarrow> Inl GovDecode
        | Some (p, trailing) \<Rightarrow>
            if trailing then Inl GovDecode
            else if pp_Kind p \<noteq> PayloadKindParamSet then Inl (GovInvalid ''kind'')
            else Inr p))"

definition ValidateParamSetFields :: "ParamSetPayload \<Rightarrow> gov_error option" where
  "ValidateParamSetFields p =
     (if pp_Kind p \<noteq> PayloadKindParamSet then Some (GovInvalid ''kind'')
      else if GovMaxMemoLen < length (pp_Memo p) then Some (GovInvalid ''memo'')
      else if pp_Param p = [] then Some (UnknownParam [])
      else (case param_Lookup (pp_Param p) of
          None \<Rightarrow> Some (UnknownParam (pp_Param p))
        | Some spec \<Rightarrow>
            (case CheckBounds spec (pp_Value p) of
               Some e \<Rightarrow> Some e
             | None \<Rightarrow> if pp_EffectiveHeight p = 0 then Some (GovInvalid ''effective_height'') else None)))"

text \<open>A buffer without the newline that ends it.\<close>

definition drop_newline :: "string \<Rightarrow> string" where
  "drop_newline out = (if out \<noteq> [] \<and> last out = CHR 0x0A then butlast out else out)"

definition EncodeParamSet :: "gov_codec \<Rightarrow> ParamSetPayload \<Rightarrow> gov_error + string" where
  "EncodeParamSet cd p =
     (case ValidateParamSetFields p of
        Some e \<Rightarrow> Inl e
      | None \<Rightarrow>
          (case gc_encode_param_set cd p of
             None \<Rightarrow> Inl (GovInvalid ''encode'')
           | Some out \<Rightarrow> Inr (drop_newline out)))"

definition ParseAuthoritySet :: "gov_codec \<Rightarrow> string \<Rightarrow> gov_error + AuthoritySetPayload" where
  "ParseAuthoritySet cd raw =
     (if raw = [] then Inl GovDecode
      else (case gc_authority_set cd raw of
          None \<Rightarrow> Inl GovDecode
        | Some (p, trailing) \<Rightarrow>
            if trailing then Inl GovDecode
            else if ap_Kind p \<noteq> PayloadKindAuthoritySet then Inl (GovInvalid ''kind'')
            else Inr p))"

definition ValidateAuthoritySetFields :: "AuthoritySetPayload \<Rightarrow> gov_error option" where
  "ValidateAuthoritySetFields p =
     (if ap_Kind p \<noteq> PayloadKindAuthoritySet then Some (GovInvalid ''kind'')
      else if ap_Op p \<noteq> AuthorityOpAdd \<and> ap_Op p \<noteq> AuthorityOpRemove then Some (GovInvalid ''op'')
      else if ap_Address p = [] then Some (GovInvalid ''address'')
      else if MaxAuthorityAddressLen < length (ap_Address p) then Some (GovInvalid ''address'')
      else if list_ex (\<lambda>c. c \<le> CHR 0x20 \<or> c = CHR 0x7F) (ap_Address p) then Some (GovInvalid ''address'')
      else if GovMaxMemoLen < length (ap_Memo p) then Some (GovInvalid ''memo'')
      else if ap_EffectiveHeight p = 0 then Some (GovInvalid ''effective_height'')
      else None)"

definition EncodeAuthoritySet :: "gov_codec \<Rightarrow> AuthoritySetPayload \<Rightarrow> gov_error + string" where
  "EncodeAuthoritySet cd p =
     (case ValidateAuthoritySetFields p of
        Some e \<Rightarrow> Inl e
      | None \<Rightarrow>
          (case gc_encode_authority_set cd p of
             None \<Rightarrow> Inl (GovInvalid ''encode'')
           | Some out \<Rightarrow> Inr (drop_newline out)))"

text \<open>The admission check of the mempool, in front of the checker \<open>prev\<close> of the other transactions.\<close>

definition GovAdmission :: "gov_codec \<Rightarrow> (Tx \<Rightarrow> string option) option \<Rightarrow> Tx \<Rightarrow> gov_error option" where
  "GovAdmission cd prev tx =
     (if tx_ContractID tx \<noteq> GovContractID
      then (case prev of None \<Rightarrow> None | Some f \<Rightarrow> map_option GovPrevRefused (f tx))
      else if tx_Payload tx = [] then Some (GovInvalid ''payload'')
      else (case gov_PeekKind cd (tx_Payload tx) of
          Inl e \<Rightarrow> Some e
        | Inr kind \<Rightarrow>
            (case (if kind = PayloadKindParamSet
                   then (case ParseParamSet cd (tx_Payload tx) of
                           Inl e \<Rightarrow> Some e | Inr p \<Rightarrow> ValidateParamSetFields p)
                   else if kind = PayloadKindAuthoritySet
                   then (case ParseAuthoritySet cd (tx_Payload tx) of
                           Inl e \<Rightarrow> Some e | Inr p \<Rightarrow> ValidateAuthoritySetFields p)
                   else Some (GovInvalid ''kind'')) of
               Some e \<Rightarrow> Some e
             | None \<Rightarrow> if tx_Fee tx \<le> 0 then Some (GovInvalid ''fee'') else None)))"

section \<open>The parameter store\<close>

record ParamChange =
  pc_Param :: string
  pc_Value :: u64
  pc_EffectiveHeight :: u64
  pc_SubmittedAtHeight :: u64
  pc_Authority :: string
  pc_Memo :: string

record ParamStore =
  ps_active :: "string \<rightharpoonup> u64"
  ps_pending :: "string \<rightharpoonup> ParamChange"

definition NewInMemoryParamStore :: ParamStore where
  "NewInMemoryParamStore =
     \<lparr>ps_active = foldl (\<lambda>m spec. m(spec_Name spec \<mapsto> spec_DefaultValue spec)) Map.empty registry,
      ps_pending = Map.empty\<rparr>"

text \<open>\<open>SetForTesting\<close>, which the loader and the boot code call; \<open>None\<close> is its panic.\<close>

definition SetForTesting :: "ParamStore \<Rightarrow> string \<Rightarrow> u64 \<Rightarrow> ParamStore option" where
  "SetForTesting s name value =
     (case param_Lookup name of
        None \<Rightarrow> None
      | Some spec \<Rightarrow>
          if CheckBounds spec value \<noteq> None then None
          else Some (s\<lparr>ps_active := (ps_active s)(name \<mapsto> value)\<rparr>))"

definition ActiveValue :: "ParamStore \<Rightarrow> string \<Rightarrow> u64 option" where
  "ActiveValue s name = (if param_Lookup name = None then None else ps_active s name)"

definition Pending :: "ParamStore \<Rightarrow> string \<Rightarrow> ParamChange option" where
  "Pending s name = ps_pending s name"

definition AllActive :: "ParamStore \<Rightarrow> string \<rightharpoonup> u64" where
  "AllActive s = ps_active s"

definition change_before :: "ParamChange \<Rightarrow> ParamChange \<Rightarrow> bool" where
  "change_before a b \<longleftrightarrow>
     (if pc_EffectiveHeight a \<noteq> pc_EffectiveHeight b then pc_EffectiveHeight a < pc_EffectiveHeight b
      else pc_Param a < pc_Param b)"

definition AllPending :: "string list \<Rightarrow> ParamStore \<Rightarrow> ParamChange list" where
  "AllPending ks s = sort_slice change_before (map (\<lambda>k. the (ps_pending s k)) ks)"

definition Stage :: "ParamStore \<Rightarrow> ParamChange \<Rightarrow> ParamStore \<times> (gov_error + ParamChange option)" where
  "Stage s change =
     (case param_Lookup (pc_Param change) of
        None \<Rightarrow> (s, Inl (UnknownParam (pc_Param change)))
      | Some spec \<Rightarrow>
          (case CheckBounds spec (pc_Value change) of
             Some e \<Rightarrow> (s, Inl e)
           | None \<Rightarrow>
               if pc_EffectiveHeight change = 0 then (s, Inl StageZeroHeight)
               else (s\<lparr>ps_pending := (ps_pending s)(pc_Param change \<mapsto> change)\<rparr>,
                     Inr (ps_pending s (pc_Param change)))))"

text \<open>An entry of the list of due changes: the name it is filed under, and the change.\<close>

definition ent_before :: "string \<times> ParamChange \<Rightarrow> string \<times> ParamChange \<Rightarrow> bool" where
  "ent_before a b \<longleftrightarrow>
     (if pc_EffectiveHeight (snd a) \<noteq> pc_EffectiveHeight (snd b)
      then pc_EffectiveHeight (snd a) < pc_EffectiveHeight (snd b)
      else fst a < fst b)"

definition param_due :: "string list \<Rightarrow> ParamStore \<Rightarrow> u64 \<Rightarrow> (string \<times> ParamChange) list" where
  "param_due ks s currentHeight =
     sort_slice ent_before
       (filter (\<lambda>e. pc_EffectiveHeight (snd e) + DefaultPromotionGrace \<le> currentHeight)
         (map (\<lambda>k. (k, the (ps_pending s k))) ks))"

definition activate_param :: "ParamStore \<Rightarrow> string \<times> ParamChange \<Rightarrow> ParamStore" where
  "activate_param s e =
     \<lparr>ps_active = (ps_active s)(fst e \<mapsto> pc_Value (snd e)), ps_pending = (ps_pending s)(fst e := None)\<rparr>"

definition param_Promote :: "string list \<Rightarrow> ParamStore \<Rightarrow> u64 \<Rightarrow> ParamStore \<times> ParamChange list" where
  "param_Promote ks s currentHeight =
     (let due = param_due ks s currentHeight in (foldl activate_param s due, map snd due))"

section \<open>The vote store\<close>

datatype AuthorityVoteKey = VoteKey (vk_Op: string) (vk_Address: string) (vk_EffectiveHeight: u64)

record AuthorityVote =
  av_Voter :: string
  av_SubmittedAtHeight :: u64
  av_Memo :: string

record AuthorityProposal =
  apr_Op :: string
  apr_Address :: string
  apr_EffectiveHeight :: u64
  apr_Voters :: "AuthorityVote list"
  apr_Crossed :: bool
  apr_CrossedAtHeight :: u64

type_synonym vote_store = "AuthorityVoteKey \<rightharpoonup> AuthorityProposal"

definition NewInMemoryAuthorityVoteStore :: vote_store where
  "NewInMemoryAuthorityVoteStore = Map.empty"

definition AuthorityThreshold :: "int \<Rightarrow> int" where
  "AuthorityThreshold n = (if n \<le> 0 then 0 else if n = 1 then 1 else n div 2 + 1)"

definition vote_before :: "AuthorityVote \<Rightarrow> AuthorityVote \<Rightarrow> bool" where
  "vote_before a b \<longleftrightarrow>
     (if av_SubmittedAtHeight a \<noteq> av_SubmittedAtHeight b then av_SubmittedAtHeight a < av_SubmittedAtHeight b
      else av_Voter a < av_Voter b)"

definition sortVoters :: "AuthorityVote list \<Rightarrow> AuthorityVote list" where
  "sortVoters vs = sort_slice vote_before vs"

definition proposal_before :: "AuthorityProposal \<Rightarrow> AuthorityProposal \<Rightarrow> bool" where
  "proposal_before a b \<longleftrightarrow>
     (if apr_EffectiveHeight a \<noteq> apr_EffectiveHeight b then apr_EffectiveHeight a < apr_EffectiveHeight b
      else if apr_Op a \<noteq> apr_Op b then apr_Op a < apr_Op b
      else apr_Address a < apr_Address b)"

definition sortProposals :: "AuthorityProposal list \<Rightarrow> AuthorityProposal list" where
  "sortProposals ps = sort_slice proposal_before ps"

definition open_proposal :: "AuthorityVoteKey \<Rightarrow> AuthorityProposal" where
  "open_proposal key =
     \<lparr>apr_Op = vk_Op key, apr_Address = vk_Address key, apr_EffectiveHeight = vk_EffectiveHeight key,
      apr_Voters = [], apr_Crossed = False, apr_CrossedAtHeight = 0\<rparr>"

definition RecordVote ::
  "vote_store \<Rightarrow> AuthorityVoteKey \<Rightarrow> AuthorityVote \<Rightarrow> int \<Rightarrow> vote_store \<times> (gov_error + AuthorityProposal \<times> bool)" where
  "RecordVote s key vote currentAuthorityCount =
     (if av_Voter vote = [] then (s, Inl (GovInvalid ''voter''))
      else (let prop = (case s key of None \<Rightarrow> open_proposal key | Some p \<Rightarrow> p)
            in if list_ex (\<lambda>v. av_Voter v = av_Voter vote) (apr_Voters prop)
               then (s, Inl (DuplicateVote (av_Voter vote)))
               else (let voters = sortVoters (apr_Voters prop @ [vote]);
                         threshold = AuthorityThreshold currentAuthorityCount;
                         crossedNow = (\<not> apr_Crossed prop \<and> 0 < threshold \<and> threshold \<le> int (length voters));
                         prop1 = prop\<lparr>apr_Voters := voters\<rparr>;
                         prop2 = (if crossedNow
                                  then prop1\<lparr>apr_Crossed := True, apr_CrossedAtHeight := av_SubmittedAtHeight vote\<rparr>
                                  else prop1)
                     in (s(key \<mapsto> prop2), Inr (prop2, crossedNow)))))"

definition AllProposals :: "AuthorityVoteKey list \<Rightarrow> vote_store \<Rightarrow> AuthorityProposal list" where
  "AllProposals ks s = sortProposals (map (\<lambda>k. the (s k)) ks)"

definition vote_due :: "u64 \<Rightarrow> AuthorityProposal \<Rightarrow> bool" where
  "vote_due currentHeight prop \<longleftrightarrow> apr_Crossed prop \<and> \<not> currentHeight < apr_EffectiveHeight prop"

definition promote_step ::
  "u64 \<Rightarrow> vote_store \<times> AuthorityProposal list \<Rightarrow> AuthorityVoteKey \<Rightarrow> vote_store \<times> AuthorityProposal list" where
  "promote_step currentHeight acc key =
     (case acc of (s, due) \<Rightarrow>
        (case s key of
           None \<Rightarrow> (s, due)
         | Some prop \<Rightarrow>
             if \<not> apr_Crossed prop then (s, due)
             else if currentHeight < apr_EffectiveHeight prop then (s, due)
             else (s(key := None), due @ [prop])))"

definition vote_Promote :: "AuthorityVoteKey list \<Rightarrow> vote_store \<Rightarrow> u64 \<Rightarrow> vote_store \<times> AuthorityProposal list" where
  "vote_Promote ks s currentHeight =
     (case foldl (promote_step currentHeight) (s, []) ks of (s1, due) \<Rightarrow> (s1, sortProposals due))"

definition drop_step ::
  "string \<Rightarrow> vote_store \<times> AuthorityProposal list \<Rightarrow> AuthorityVoteKey \<Rightarrow> vote_store \<times> AuthorityProposal list" where
  "drop_step authority acc key =
     (case acc of (s, changed) \<Rightarrow>
        (case s key of
           None \<Rightarrow> (s, changed)
         | Some prop \<Rightarrow>
             if apr_Crossed prop then (s, changed)
             else (let out = filter (\<lambda>v. av_Voter v \<noteq> authority) (apr_Voters prop)
                   in if length out = length (apr_Voters prop) then (s, changed)
                      else if out = [] then (s(key := None), changed @ [prop\<lparr>apr_Voters := []\<rparr>])
                      else (s(key \<mapsto> prop\<lparr>apr_Voters := out\<rparr>), changed @ [prop\<lparr>apr_Voters := out\<rparr>]))))"

definition DropVotesByAuthority ::
  "AuthorityVoteKey list \<Rightarrow> vote_store \<Rightarrow> string \<Rightarrow> vote_store \<times> AuthorityProposal list" where
  "DropVotesByAuthority ks s authority =
     (if authority = [] then (s, [])
      else (case foldl (drop_step authority) (s, []) ks of (s1, changed) \<Rightarrow> (s1, sortProposals changed)))"

definition cross_step ::
  "int \<Rightarrow> u64 \<Rightarrow> vote_store \<times> AuthorityProposal list \<Rightarrow> AuthorityVoteKey \<Rightarrow> vote_store \<times> AuthorityProposal list" where
  "cross_step threshold currentHeight acc key =
     (case acc of (s, crossed) \<Rightarrow>
        (case s key of
           None \<Rightarrow> (s, crossed)
         | Some prop \<Rightarrow>
             if apr_Crossed prop then (s, crossed)
             else if int (length (apr_Voters prop)) < threshold then (s, crossed)
             else (let prop1 = prop\<lparr>apr_Crossed := True, apr_CrossedAtHeight := currentHeight\<rparr>
                   in (s(key \<mapsto> prop1), crossed @ [prop1]))))"

definition RecomputeCrossed ::
  "AuthorityVoteKey list \<Rightarrow> vote_store \<Rightarrow> int \<Rightarrow> u64 \<Rightarrow> vote_store \<times> AuthorityProposal list" where
  "RecomputeCrossed ks s authorityCount currentHeight =
     (let threshold = AuthorityThreshold authorityCount
      in if threshold = 0 then (s, [])
         else (case foldl (cross_step threshold currentHeight) (s, []) ks of
                 (s1, crossed) \<Rightarrow> (s1, sortProposals crossed)))"

definition markCrossedForTesting :: "vote_store \<Rightarrow> AuthorityVoteKey \<Rightarrow> u64 \<Rightarrow> vote_store" where
  "markCrossedForTesting s key crossedAtHeight =
     (case s key of
        None \<Rightarrow> s
      | Some prop \<Rightarrow> s(key \<mapsto> prop\<lparr>apr_Crossed := True, apr_CrossedAtHeight := crossedAtHeight\<rparr>))"

section \<open>The applier\<close>

record GovApplier =
  ga_Accounts :: AccountStore
  ga_Store :: ParamStore
  ga_AuthorityVotes :: "vote_store option"
  ga_authoritySet :: "string set"

definition NewGovApplier :: "AccountStore \<Rightarrow> ParamStore \<Rightarrow> string list \<Rightarrow> GovApplier" where
  "NewGovApplier accounts store authorityList =
     \<lparr>ga_Accounts = accounts, ga_Store = store, ga_AuthorityVotes = None,
      ga_authoritySet = foldl (\<lambda>A addr. if addr = [] then A else insert addr A) {} authorityList\<rparr>"

definition SetAuthorityVoteStore :: "GovApplier \<Rightarrow> vote_store option \<Rightarrow> GovApplier" where
  "SetAuthorityVoteStore ga s = ga\<lparr>ga_AuthorityVotes := s\<rparr>"

definition AuthorityList :: "GovApplier \<Rightarrow> string list" where
  "AuthorityList ga = sorted_list_of_set (ga_authoritySet ga)"

definition authorityCount :: "GovApplier \<Rightarrow> int" where
  "authorityCount ga = int (card (ga_authoritySet ga))"

definition IsAuthority :: "GovApplier \<Rightarrow> string \<Rightarrow> bool" where
  "IsAuthority ga addr \<longleftrightarrow> addr \<in> ga_authoritySet ga"

text \<open>The window of heights a change may be scheduled for; the upper end wraps as in Go.\<close>

definition height_window :: "u64 \<Rightarrow> u64 \<Rightarrow> gov_error option" where
  "height_window effectiveHeight currentHeight =
     (if effectiveHeight < currentHeight then Some EffectiveHeightInPast
      else if currentHeight + MaxActivationDelay < effectiveHeight then Some EffectiveHeightTooFar
      else None)"

text \<open>The fee and the nonce, taken before the stores change.\<close>

definition debit_gov_fee :: "AccountStore \<Rightarrow> Tx \<Rightarrow> AccountStore \<times> gov_error option" where
  "debit_gov_fee accounts tx =
     (if tx_Fee tx \<le> 0 then (accounts, Some GovFeeNotPositive)
      else (case DebitAndBumpNonce accounts (tx_Sender tx) (tx_Fee tx) (tx_Nonce tx) of
              (accounts1, e) \<Rightarrow> (accounts1, map_option GovFeeRefused e)))"

definition param_change :: "Tx \<Rightarrow> u64 \<Rightarrow> ParamSetPayload \<Rightarrow> ParamChange" where
  "param_change tx currentHeight payload =
     \<lparr>pc_Param = pp_Param payload, pc_Value = pp_Value payload,
      pc_EffectiveHeight = pp_EffectiveHeight payload, pc_SubmittedAtHeight = currentHeight,
      pc_Authority = tx_Sender tx, pc_Memo = pp_Memo payload\<rparr>"

definition applyParamSet :: "gov_codec \<Rightarrow> GovApplier \<Rightarrow> Tx \<Rightarrow> u64 \<Rightarrow> GovApplier \<times> gov_error option" where
  "applyParamSet cd ga tx currentHeight =
     (case ParseParamSet cd (tx_Payload tx) of
        Inl e \<Rightarrow> (ga, Some e)
      | Inr payload \<Rightarrow>
          (case ValidateParamSetFields payload of
             Some e \<Rightarrow> (ga, Some e)
           | None \<Rightarrow>
               if authorityCount ga = 0 then (ga, Some GovernanceNotConfigured)
               else if \<not> IsAuthority ga (tx_Sender tx) then (ga, Some (GovUnauthorized (tx_Sender tx)))
               else (case height_window (pp_EffectiveHeight payload) currentHeight of
                   Some e \<Rightarrow> (ga, Some e)
                 | None \<Rightarrow>
                     (case debit_gov_fee (ga_Accounts ga) tx of
                        (accounts1, Some e) \<Rightarrow> (ga\<lparr>ga_Accounts := accounts1\<rparr>, Some e)
                      | (accounts1, None) \<Rightarrow>
                          (case Stage (ga_Store ga) (param_change tx currentHeight payload) of
                             (store1, Inl e) \<Rightarrow> (ga\<lparr>ga_Accounts := accounts1, ga_Store := store1\<rparr>, Some e)
                           | (store1, Inr prior) \<Rightarrow>
                               (ga\<lparr>ga_Accounts := accounts1, ga_Store := store1\<rparr>, None))))))"

definition membership_check :: "GovApplier \<Rightarrow> AuthoritySetPayload \<Rightarrow> gov_error option" where
  "membership_check ga payload =
     (if ap_Op payload = AuthorityOpAdd
      then (if IsAuthority ga (ap_Address payload) then Some (AuthorityAlreadyPresent (ap_Address payload)) else None)
      else if ap_Op payload = AuthorityOpRemove
      then (if IsAuthority ga (ap_Address payload) then None else Some (AuthorityNotPresent (ap_Address payload)))
      else None)"

definition vote_key :: "AuthoritySetPayload \<Rightarrow> AuthorityVoteKey" where
  "vote_key payload = VoteKey (ap_Op payload) (ap_Address payload) (ap_EffectiveHeight payload)"

definition authority_vote :: "Tx \<Rightarrow> u64 \<Rightarrow> AuthoritySetPayload \<Rightarrow> AuthorityVote" where
  "authority_vote tx currentHeight payload =
     \<lparr>av_Voter = tx_Sender tx, av_SubmittedAtHeight = currentHeight, av_Memo = ap_Memo payload\<rparr>"

definition applyAuthoritySet :: "gov_codec \<Rightarrow> GovApplier \<Rightarrow> Tx \<Rightarrow> u64 \<Rightarrow> GovApplier \<times> gov_error option" where
  "applyAuthoritySet cd ga tx currentHeight =
     (case ParseAuthoritySet cd (tx_Payload tx) of
        Inl e \<Rightarrow> (ga, Some e)
      | Inr payload \<Rightarrow>
          (case ValidateAuthoritySetFields payload of
             Some e \<Rightarrow> (ga, Some e)
           | None \<Rightarrow>
               if authorityCount ga = 0 \<or> ga_AuthorityVotes ga = None then (ga, Some GovernanceNotConfigured)
               else if \<not> IsAuthority ga (tx_Sender tx) then (ga, Some (GovUnauthorized (tx_Sender tx)))
               else (case membership_check ga payload of
                   Some e \<Rightarrow> (ga, Some e)
                 | None \<Rightarrow>
                     (case height_window (ap_EffectiveHeight payload) currentHeight of
                        Some e \<Rightarrow> (ga, Some e)
                      | None \<Rightarrow>
                          (case debit_gov_fee (ga_Accounts ga) tx of
                             (accounts1, Some e) \<Rightarrow> (ga\<lparr>ga_Accounts := accounts1\<rparr>, Some e)
                           | (accounts1, None) \<Rightarrow>
                               (case RecordVote (the (ga_AuthorityVotes ga)) (vote_key payload)
                                       (authority_vote tx currentHeight payload) (authorityCount ga) of
                                  (votes1, Inl e) \<Rightarrow>
                                    (ga\<lparr>ga_Accounts := accounts1, ga_AuthorityVotes := Some votes1\<rparr>, Some e)
                                | (votes1, Inr r) \<Rightarrow>
                                    (ga\<lparr>ga_Accounts := accounts1, ga_AuthorityVotes := Some votes1\<rparr>, None)))))))"

definition ApplyGovTx :: "gov_codec \<Rightarrow> GovApplier \<Rightarrow> Tx \<Rightarrow> u64 \<Rightarrow> GovApplier \<times> gov_error option" where
  "ApplyGovTx cd ga tx currentHeight =
     (if tx_ContractID tx \<noteq> GovContractID then (ga, Some (NotGovTx (tx_ContractID tx)))
      else (case gov_PeekKind cd (tx_Payload tx) of
          Inl e \<Rightarrow> (ga, Some e)
        | Inr kind \<Rightarrow>
            if kind = PayloadKindParamSet then applyParamSet cd ga tx currentHeight
            else if kind = PayloadKindAuthoritySet then applyAuthoritySet cd ga tx currentHeight
            else (ga, Some (GovInvalid ''kind''))))"

section \<open>Promotion\<close>

text \<open>
  The first pass over the due proposals changes the set of authorities. A refused removal loses its
  voters, which marks it for the second pass.
\<close>

fun activate_authorities ::
  "string set \<Rightarrow> AuthorityProposal list \<Rightarrow> string set \<times> AuthorityProposal list" where
  "activate_authorities A [] = (A, [])"
| "activate_authorities A (prop # rest) =
     (let (A1, prop1) =
            (if apr_Op prop = AuthorityOpAdd then (insert (apr_Address prop) A, prop)
             else if apr_Op prop = AuthorityOpRemove
             then (if card A \<le> 1 then (A, prop\<lparr>apr_Voters := []\<rparr>) else (A - {apr_Address prop}, prop))
             else (A, prop));
          (A2, rest1) = activate_authorities A1 rest
      in (A2, prop1 # rest1))"

type_synonym orders = "nat \<Rightarrow> vote_store \<Rightarrow> AuthorityVoteKey list"

text \<open>
  The second pass: an activated removal drops the votes of the removed authority and counts the open
  proposals again. \<open>i\<close> numbers the ranges over the store.
\<close>

fun settle_removals ::
  "orders \<Rightarrow> nat \<Rightarrow> int \<Rightarrow> u64 \<Rightarrow> vote_store \<Rightarrow> AuthorityProposal list \<Rightarrow> vote_store" where
  "settle_removals ord i postCount currentHeight votes [] = votes"
| "settle_removals ord i postCount currentHeight votes (prop # rest) =
     (if apr_Op prop = AuthorityOpRemove \<and> apr_Voters prop = []
      then settle_removals ord i postCount currentHeight votes rest
      else if apr_Op prop = AuthorityOpRemove
      then (let votes1 = fst (DropVotesByAuthority (ord i votes) votes (apr_Address prop));
                votes2 = fst (RecomputeCrossed (ord (Suc i) votes1) votes1 postCount currentHeight)
            in settle_removals ord (Suc (Suc i)) postCount currentHeight votes2 rest)
      else settle_removals ord i postCount currentHeight votes rest)"

definition promoteAuthorityPending :: "orders \<Rightarrow> GovApplier \<Rightarrow> u64 \<Rightarrow> GovApplier" where
  "promoteAuthorityPending ord ga currentHeight =
     (case ga_AuthorityVotes ga of
        None \<Rightarrow> ga
      | Some votes \<Rightarrow>
          (case vote_Promote (ord 0 votes) votes currentHeight of
             (votes1, due) \<Rightarrow>
               if due = [] then ga\<lparr>ga_AuthorityVotes := Some votes1\<rparr>
               else (case activate_authorities (ga_authoritySet ga) due of
                   (A, due1) \<Rightarrow>
                     ga\<lparr>ga_authoritySet := A,
                        ga_AuthorityVotes :=
                          Some (settle_removals ord 1 (int (card A)) currentHeight votes1 due1)\<rparr>)))"

definition PromotePending ::
  "(ParamStore \<Rightarrow> string list) \<Rightarrow> orders \<Rightarrow> GovApplier \<Rightarrow> u64 \<Rightarrow> GovApplier \<times> ParamChange list" where
  "PromotePending pord ord ga currentHeight =
     (case param_Promote (pord (ga_Store ga)) (ga_Store ga) currentHeight of
        (store1, promoted) \<Rightarrow>
          (promoteAuthorityPending ord (ga\<lparr>ga_Store := store1\<rparr>) currentHeight, promoted))"

section \<open>Snapshots\<close>

record snapshotPending =
  sn_Param :: string
  sn_Value :: u64
  sn_EffectiveHeight :: u64
  sn_SubmittedAtHeight :: u64
  sn_Authority :: string
  sn_Memo :: string

record snapshotAuthVote =
  sv_Voter :: string
  sv_SubmittedAtHeight :: u64
  sv_Memo :: string

record snapshotAuthorityProposal =
  sap_Op :: string
  sap_Address :: string
  sap_EffectiveHeight :: u64
  sap_Voters :: "snapshotAuthVote list"
  sap_Crossed :: bool
  sap_CrossedAtHeight :: u64

record snapshotDoc =
  sd_Version :: int
  sd_SavedAt :: string
  sd_Active :: "string \<rightharpoonup> u64"
  sd_Pending :: "snapshotPending list"
  sd_AuthorityProposals :: "snapshotAuthorityProposal list"

definition SnapshotVersion :: int where "SnapshotVersion = 2"
definition snapshotMinSupportedVersion :: int where "snapshotMinSupportedVersion = 1"

definition snapshot_pending :: "ParamChange \<Rightarrow> snapshotPending" where
  "snapshot_pending p =
     \<lparr>sn_Param = pc_Param p, sn_Value = pc_Value p, sn_EffectiveHeight = pc_EffectiveHeight p,
      sn_SubmittedAtHeight = pc_SubmittedAtHeight p, sn_Authority = pc_Authority p, sn_Memo = pc_Memo p\<rparr>"

definition snapshot_proposal :: "AuthorityProposal \<Rightarrow> snapshotAuthorityProposal" where
  "snapshot_proposal p =
     \<lparr>sap_Op = apr_Op p, sap_Address = apr_Address p, sap_EffectiveHeight = apr_EffectiveHeight p,
      sap_Voters = map (\<lambda>v. \<lparr>sv_Voter = av_Voter v, sv_SubmittedAtHeight = av_SubmittedAtHeight v,
                            sv_Memo = av_Memo v\<rparr>) (apr_Voters p),
      sap_Crossed = apr_Crossed p, sap_CrossedAtHeight = apr_CrossedAtHeight p\<rparr>"

definition snapshot_before :: "snapshotPending \<Rightarrow> snapshotPending \<Rightarrow> bool" where
  "snapshot_before a b \<longleftrightarrow>
     (if sn_EffectiveHeight a \<noteq> sn_EffectiveHeight b then sn_EffectiveHeight a < sn_EffectiveHeight b
      else sn_Param a < sn_Param b)"

text \<open>The document \<open>SaveSnapshotWith\<close> writes.\<close>

definition snapshot_doc ::
  "string \<Rightarrow> string list \<Rightarrow> AuthorityVoteKey list \<Rightarrow> ParamStore \<Rightarrow> vote_store option \<Rightarrow> snapshotDoc" where
  "snapshot_doc savedAt ks vks store votes =
     \<lparr>sd_Version = SnapshotVersion, sd_SavedAt = savedAt, sd_Active = AllActive store,
      sd_Pending = sort_slice snapshot_before (map snapshot_pending (AllPending ks store)),
      sd_AuthorityProposals =
        (case votes of None \<Rightarrow> [] | Some v \<Rightarrow> map snapshot_proposal (AllProposals vks v))\<rparr>"

definition load_active :: "snapshotDoc \<Rightarrow> ParamStore \<Rightarrow> string \<Rightarrow> ParamStore" where
  "load_active doc store name =
     (case param_Lookup name of
        None \<Rightarrow> store
      | Some spec \<Rightarrow>
          (let value = the (sd_Active doc name)
           in the (SetForTesting store name
                    (if CheckBounds spec value \<noteq> None then spec_DefaultValue spec else value))))"

definition load_pending :: "ParamStore \<Rightarrow> snapshotPending \<Rightarrow> ParamStore" where
  "load_pending store p =
     (case param_Lookup (sn_Param p) of
        None \<Rightarrow> store
      | Some spec \<Rightarrow>
          if CheckBounds spec (sn_Value p) \<noteq> None then store
          else if sn_EffectiveHeight p = 0 then store
          else fst (Stage store
                 \<lparr>pc_Param = sn_Param p, pc_Value = sn_Value p, pc_EffectiveHeight = sn_EffectiveHeight p,
                  pc_SubmittedAtHeight = sn_SubmittedAtHeight p, pc_Authority = sn_Authority p,
                  pc_Memo = sn_Memo p\<rparr>))"

definition load_vote :: "AuthorityVoteKey \<Rightarrow> vote_store \<Rightarrow> snapshotAuthVote \<Rightarrow> vote_store" where
  "load_vote key votes v =
     (if sv_Voter v = [] then votes
      else fst (RecordVote votes key
             \<lparr>av_Voter = sv_Voter v, av_SubmittedAtHeight = sv_SubmittedAtHeight v, av_Memo = sv_Memo v\<rparr>
             1073741824))"

definition load_proposal :: "vote_store \<Rightarrow> snapshotAuthorityProposal \<Rightarrow> vote_store" where
  "load_proposal votes sp =
     (if sap_EffectiveHeight sp = 0 \<or> sap_Address sp = [] then votes
      else if sap_Op sp \<noteq> AuthorityOpAdd \<and> sap_Op sp \<noteq> AuthorityOpRemove then votes
      else (let key = VoteKey (sap_Op sp) (sap_Address sp) (sap_EffectiveHeight sp);
                votes1 = foldl (load_vote key) votes (sap_Voters sp)
            in if sap_Crossed sp then markCrossedForTesting votes1 key (sap_CrossedAtHeight sp) else votes1))"

text \<open>The stores of a document; \<open>ks\<close> is the order in which its map of active values is ranged over.\<close>

definition load_doc :: "string list \<Rightarrow> snapshotDoc \<Rightarrow> (ParamStore \<times> vote_store) option" where
  "load_doc ks doc =
     (if sd_Version doc < snapshotMinSupportedVersion \<or> SnapshotVersion < sd_Version doc then None
      else Some (foldl load_pending (foldl (load_active doc) NewInMemoryParamStore ks) (sd_Pending doc),
                 foldl load_proposal NewInMemoryAuthorityVoteStore (sd_AuthorityProposals doc)))"

text \<open>Reading a file: it is missing, it cannot be read, or it has a content.\<close>

datatype read_result = NotExist | ReadFailed | Content string

datatype load_error = SnapshotRead | SnapshotParse | SnapshotRestore | SnapshotVersionUnsupported

definition last_good :: "string \<Rightarrow> string" where "last_good path = path @ ''.last-good''"

definition LoadOrNewWith ::
  "(string \<Rightarrow> snapshotDoc option) \<Rightarrow> (snapshotDoc \<Rightarrow> string list) \<Rightarrow> (string \<Rightarrow> string \<Rightarrow> bool) \<Rightarrow> (string \<Rightarrow> read_result) \<Rightarrow>
     string \<Rightarrow> load_error + (ParamStore \<times> vote_store)" where
  "LoadOrNewWith unmarshal dord can_write files path =
     (if path = [] then Inr (NewInMemoryParamStore, NewInMemoryAuthorityVoteStore)
      else (case files path of
          NotExist \<Rightarrow> Inr (NewInMemoryParamStore, NewInMemoryAuthorityVoteStore)
        | ReadFailed \<Rightarrow> Inl SnapshotRead
        | Content b \<Rightarrow>
            (case (case unmarshal b of
                     Some doc \<Rightarrow> Inr doc
                   | None \<Rightarrow>
                       (case files (last_good path) of
                          Content backup \<Rightarrow>
                            (case unmarshal backup of
                               None \<Rightarrow> Inl SnapshotParse
                             | Some doc \<Rightarrow> if can_write path backup then Inr doc else Inl SnapshotRestore)
                        | _ \<Rightarrow> Inl SnapshotParse)) of
               Inl e \<Rightarrow> Inl e
             | Inr doc \<Rightarrow>
                 (case load_doc (dord doc) doc of
                    None \<Rightarrow> Inl SnapshotVersionUnsupported
                  | Some r \<Rightarrow> Inr r))))"

text \<open>\<open>SaveSnapshotWith\<close>: the companion file first, then the snapshot; a write that fails stops there.\<close>

definition SaveSnapshotWith ::
  "(snapshotDoc \<Rightarrow> string option) \<Rightarrow> (string \<Rightarrow> string \<Rightarrow> bool) \<Rightarrow> snapshotDoc \<Rightarrow> (string \<Rightarrow> read_result) \<Rightarrow>
     string \<Rightarrow> (string \<Rightarrow> read_result) \<times> bool" where
  "SaveSnapshotWith marshal can_write doc files path =
     (if path = [] then (files, True)
      else (case marshal doc of
          None \<Rightarrow> (files, False)
        | Some out \<Rightarrow>
            if \<not> can_write (last_good path) out then (files, False)
            else if \<not> can_write path out then (files(last_good path := Content out), False)
            else (files(last_good path := Content out, path := Content out), True)))"

section \<open>Boot and the hook of a sealed block\<close>

text \<open>
  A value of the configuration replaces an active value that is still the default; \<open>None\<close> is the
  panic of \<open>SetForTesting\<close> on a value out of bounds.
\<close>

definition seed_param :: "ParamStore \<Rightarrow> string \<Rightarrow> u64 \<Rightarrow> ParamStore option" where
  "seed_param store name value =
     (if ActiveValue store name = map_option spec_DefaultValue (param_Lookup name)
      then SetForTesting store name value else Some store)"

definition boot_governance ::
  "AccountStore \<Rightarrow> ParamStore \<times> vote_store \<Rightarrow> u16 \<Rightarrow> u64 option \<Rightarrow> string list \<Rightarrow> GovApplier option" where
  "boot_governance accounts loaded slashRewardBPS forkV2TCHeight governanceAuthorities =
     (case (if 0 < slashRewardBPS then seed_param (fst loaded) ParamRewardBPS (ucast slashRewardBPS)
            else Some (fst loaded)) of
        None \<Rightarrow> None
      | Some store1 \<Rightarrow>
          (case (case forkV2TCHeight of
                   None \<Rightarrow> Some store1
                 | Some h \<Rightarrow> seed_param store1 ParamForkV2TCHeight h) of
             None \<Rightarrow> None
           | Some store2 \<Rightarrow>
               Some (SetAuthorityVoteStore (NewGovApplier accounts store2 governanceAuthorities)
                       (Some (snd loaded)))))"

section \<open>Orders\<close>

definition key_tuple :: "AuthorityVoteKey \<Rightarrow> u64 \<times> string \<times> string" where
  "key_tuple k = (vk_EffectiveHeight k, vk_Op k, vk_Address k)"

lemma key_tuple_inj: "key_tuple a = key_tuple b \<longleftrightarrow> a = b"
  by (cases a; cases b) (auto simp: key_tuple_def)

instantiation AuthorityVoteKey :: linorder
begin

definition less_eq_AuthorityVoteKey :: "AuthorityVoteKey \<Rightarrow> AuthorityVoteKey \<Rightarrow> bool" where
  "less_eq_AuthorityVoteKey a b \<longleftrightarrow> key_tuple a \<le> key_tuple b"

definition less_AuthorityVoteKey :: "AuthorityVoteKey \<Rightarrow> AuthorityVoteKey \<Rightarrow> bool" where
  "less_AuthorityVoteKey a b \<longleftrightarrow> key_tuple a < key_tuple b"

instance
proof
  fix a b c :: AuthorityVoteKey
  show "(a < b) = (a \<le> b \<and> \<not> b \<le> a)"
    by (auto simp: less_AuthorityVoteKey_def less_eq_AuthorityVoteKey_def)
  show "a \<le> a" by (simp add: less_eq_AuthorityVoteKey_def)
  show "a \<le> b \<Longrightarrow> b \<le> c \<Longrightarrow> a \<le> c" by (simp add: less_eq_AuthorityVoteKey_def)
  show "a \<le> b \<Longrightarrow> b \<le> a \<Longrightarrow> a = b" by (simp add: less_eq_AuthorityVoteKey_def flip: key_tuple_inj)
  show "a \<le> b \<or> b \<le> a" by (auto simp: less_eq_AuthorityVoteKey_def)
qed

end

definition prop_key :: "AuthorityProposal \<Rightarrow> AuthorityVoteKey" where
  "prop_key p = VoteKey (apr_Op p) (apr_Address p) (apr_EffectiveHeight p)"

lemma decides_by_key:
  fixes key :: "'a \<Rightarrow> 'k::linorder"
  assumes "\<And>a b. lt a b \<longleftrightarrow> key a < key b" and "inj_on key S"
  shows "decides lt S"
  unfolding decides_def assms(1)
proof (intro conjI ballI allI impI)
  fix a b assume "a \<in> S" "b \<in> S" "a \<noteq> b"
  with assms(2) have "key a \<noteq> key b" by (auto simp: inj_on_def)
  then show "key a < key b \<or> key b < key a" by (simp add: neq_iff)
qed auto

lemma proposal_before_key: "proposal_before a b \<longleftrightarrow> prop_key a < prop_key b"
  by (auto simp: proposal_before_def prop_key_def less_AuthorityVoteKey_def key_tuple_def)

lemma ent_before_key: "ent_before a b \<longleftrightarrow> (pc_EffectiveHeight (snd a), fst a) < (pc_EffectiveHeight (snd b), fst b)"
  by (auto simp: ent_before_def)

lemma change_before_key: "change_before a b \<longleftrightarrow> (pc_EffectiveHeight a, pc_Param a) < (pc_EffectiveHeight b, pc_Param b)"
  by (auto simp: change_before_def)

lemma vote_before_key: "vote_before a b \<longleftrightarrow> (av_SubmittedAtHeight a, av_Voter a) < (av_SubmittedAtHeight b, av_Voter b)"
  by (auto simp: vote_before_def)

lemma sortVoters_simps [simp]:
  "set (sortVoters vs) = set vs" "length (sortVoters vs) = length vs" "mset (sortVoters vs) = mset vs"
  by (simp_all add: sortVoters_def)

lemma sortVoters_Nil [simp]: "sortVoters vs = [] \<longleftrightarrow> vs = []"
  by (metis length_0_conv sortVoters_simps(2))

lemma sortVoters_distinct [simp]: "distinct (map av_Voter (sortVoters vs)) \<longleftrightarrow> distinct (map av_Voter vs)"
  by (metis mset_eq_imp_distinct_iff mset_map sortVoters_simps(3))

lemma sortProposals_set [simp]: "set (sortProposals ps) = set ps" "sortProposals ps = [] \<longleftrightarrow> ps = []"
  by (simp_all add: sortProposals_def) (metis length_0_conv sort_slice_length)

section \<open>The registry\<close>

lemma registry_is_valid: "registry_init {} registry"
  by code_simp

lemma registry_names: "param_Lookup n = Some spec \<Longrightarrow> spec_Name spec = n \<and> spec \<in> set registry"
  unfolding param_Lookup_def by (metis (mono_tags, lifting) find_Some_iff nth_mem)

lemma registry_default_in_bounds: "param_Lookup n = Some spec \<Longrightarrow> CheckBounds spec (spec_DefaultValue spec) = None"
  using registry_names [of n spec] by (auto simp: registry_def CheckBounds_def gov_minEnrollStakeDust_def gov_dustPerCELL_def)

lemma Lookup_finite: "finite {n. param_Lookup n \<noteq> None}"
proof (rule finite_subset)
  show "{n. param_Lookup n \<noteq> None} \<subseteq> set Names"
    using registry_names by (force simp: Names_def)
qed simp

lemma Lookup_cases:
  "param_Lookup n \<noteq> None \<longleftrightarrow> n = ParamRewardBPS \<or> n = ParamAutoRevokeMinStakeDust \<or> n = ParamForkV2TCHeight"
  by (simp add: param_Lookup_def registry_def)

text \<open>Every registered parameter has a value within its bounds; every pending change is filed under its
  own name and is within the bounds of its parameter.\<close>

definition entry_ok :: "ParamStore \<Rightarrow> string \<Rightarrow> bool" where
  "entry_ok s n \<longleftrightarrow>
     (case param_Lookup n of
        None \<Rightarrow> ps_active s n = None \<and> ps_pending s n = None
      | Some spec \<Rightarrow>
          (case ps_active s n of None \<Rightarrow> False | Some v \<Rightarrow> CheckBounds spec v = None) \<and>
          (case ps_pending s n of
             None \<Rightarrow> True
           | Some c \<Rightarrow> pc_Param c = n \<and> CheckBounds spec (pc_Value c) = None \<and> pc_EffectiveHeight c \<noteq> 0))"

definition params_ok :: "ParamStore \<Rightarrow> bool" where
  "params_ok s \<longleftrightarrow> (\<forall>n. entry_ok s n)"

lemma params_okI: "(\<And>n. entry_ok s n) \<Longrightarrow> params_ok s"
  by (simp add: params_ok_def)

lemma params_okD:
  assumes "params_ok s"
  shows "entry_ok s n"
    and "param_Lookup n = Some spec \<Longrightarrow> \<exists>v. ps_active s n = Some v \<and> CheckBounds spec v = None"
    and "ps_pending s n = Some c \<Longrightarrow> \<exists>spec. param_Lookup n = Some spec \<and> pc_Param c = n \<and>
      CheckBounds spec (pc_Value c) = None \<and> pc_EffectiveHeight c \<noteq> 0"
proof -
  show e: "entry_ok s n" using assms by (simp add: params_ok_def)
  show "param_Lookup n = Some spec \<Longrightarrow> \<exists>v. ps_active s n = Some v \<and> CheckBounds spec v = None"
    using e by (simp add: entry_ok_def split: option.splits)
  show "ps_pending s n = Some c \<Longrightarrow> \<exists>spec. param_Lookup n = Some spec \<and> pc_Param c = n \<and>
      CheckBounds spec (pc_Value c) = None \<and> pc_EffectiveHeight c \<noteq> 0"
    using e by (cases "param_Lookup n") (simp_all add: entry_ok_def)
qed

lemma params_ok_finite: "params_ok s \<Longrightarrow> finite (dom (ps_pending s))"
  by (rule finite_subset [OF _ Lookup_finite]) (use params_okD(3) in fastforce)

lemma new_store_active: "ps_active NewInMemoryParamStore n = map_option spec_DefaultValue (param_Lookup n)"
  unfolding NewInMemoryParamStore_def param_Lookup_def registry_def ParamRewardBPS_def
    ParamAutoRevokeMinStakeDust_def ParamForkV2TCHeight_def by simp

lemma new_store_pending [simp]: "ps_pending NewInMemoryParamStore = Map.empty"
  by (simp add: NewInMemoryParamStore_def)

lemma params_ok_new: "params_ok NewInMemoryParamStore"
proof (rule params_okI)
  show "entry_ok NewInMemoryParamStore n" for n
    using registry_default_in_bounds [of n] by (cases "param_Lookup n") (simp_all add: entry_ok_def new_store_active)
qed

lemma params_ok_set:
  assumes "params_ok s" and "SetForTesting s n v = Some t"
  shows "params_ok t"
proof -
  from assms(2) obtain spec where spec: "param_Lookup n = Some spec" "CheckBounds spec v = None"
    and t: "t = s\<lparr>ps_active := (ps_active s)(n \<mapsto> v)\<rparr>"
    by (auto simp: SetForTesting_def split: option.splits if_splits)
  have "entry_ok t m" for m
    using params_okD(1) [OF assms(1), of m] spec by (cases "m = n") (simp_all add: entry_ok_def t split: option.splits)
  then show ?thesis by (rule params_okI)
qed

lemma Stage_cases:
  obtains (ok) spec where "param_Lookup (pc_Param c) = Some spec" "CheckBounds spec (pc_Value c) = None"
      "pc_EffectiveHeight c \<noteq> 0"
      "Stage s c = (s\<lparr>ps_pending := (ps_pending s)(pc_Param c \<mapsto> c)\<rparr>, Inr (ps_pending s (pc_Param c)))"
  | (refused) e where "Stage s c = (s, Inl e)"
  by (cases "param_Lookup (pc_Param c)"; cases "CheckBounds (the (param_Lookup (pc_Param c))) (pc_Value c)";
      cases "pc_EffectiveHeight c = 0") (auto simp: Stage_def)

lemma params_ok_stage:
  assumes "params_ok s"
  shows "params_ok (fst (Stage s c))"
proof (cases rule: Stage_cases [of c s])
  case (ok spec)
  have "entry_ok (fst (Stage s c)) m" for m
    using params_okD(1) [OF assms, of m] ok by (cases "m = pc_Param c") (simp_all add: entry_ok_def split: option.splits)
  then show ?thesis by (rule params_okI)
qed (simp add: assms)

text \<open>Activating a list of pending entries with different names, in any order.\<close>

lemma activate_list:
  assumes "distinct (map fst es)"
  shows "foldl activate_param s es =
    \<lparr>ps_active = (\<lambda>n. case map_of es n of Some c \<Rightarrow> Some (pc_Value c) | None \<Rightarrow> ps_active s n),
     ps_pending = (\<lambda>n. if map_of es n = None then ps_pending s n else None)\<rparr>"
  using assms
proof (induction es arbitrary: s)
  case Nil
  show ?case by simp
next
  case (Cons e es)
  from Cons.prems have "map_of es (fst e) = None" by (auto simp: map_of_eq_None_iff)
  with Cons show ?case by (auto simp: activate_param_def fun_eq_iff split: option.splits)
qed

lemma param_due_facts:
  assumes "iteration (ps_pending s) ks"
  shows "distinct (map fst (param_due ks s h))"
    and "set (param_due ks s h) = {(n, c). ps_pending s n = Some c \<and> pc_EffectiveHeight c \<le> h}"
proof -
  let ?es = "filter (\<lambda>e. pc_EffectiveHeight (snd e) + DefaultPromotionGrace \<le> h) (map (\<lambda>k. (k, the (ps_pending s k))) ks)"
  have ks: "distinct ks" "set ks = dom (ps_pending s)" using iterationD [OF assms] by auto
  have "distinct (map fst (map (\<lambda>k. (k, the (ps_pending s k))) ks))" using ks by (simp add: o_def)
  then have "distinct (map fst ?es)" by (rule distinct_map_filter)
  moreover have "mset (map fst (param_due ks s h)) = mset (map fst ?es)"
    unfolding param_due_def mset_map [of fst] sort_slice_mset by (rule refl)
  ultimately show "distinct (map fst (param_due ks s h))" using mset_eq_imp_distinct_iff by blast
  show "set (param_due ks s h) = {(n, c). ps_pending s n = Some c \<and> pc_EffectiveHeight c \<le> h}"
    using ks by (force simp: param_due_def DefaultPromotionGrace_def)
qed

lemma param_Promote_effect:
  assumes "iteration (ps_pending s) ks"
  shows "fst (param_Promote ks s h) =
    \<lparr>ps_active = (\<lambda>n. case ps_pending s n of
        Some c \<Rightarrow> if pc_EffectiveHeight c \<le> h then Some (pc_Value c) else ps_active s n
      | None \<Rightarrow> ps_active s n),
     ps_pending = (\<lambda>n. case ps_pending s n of
        Some c \<Rightarrow> if pc_EffectiveHeight c \<le> h then None else Some c
      | None \<Rightarrow> None)\<rparr>"
proof -
  note facts = param_due_facts [OF assms, of h]
  have of: "map_of (param_due ks s h) n =
      (case ps_pending s n of Some c \<Rightarrow> if pc_EffectiveHeight c \<le> h then Some c else None | None \<Rightarrow> None)" for n
  proof (cases "ps_pending s n")
    case None
    then have "n \<notin> fst ` set (param_due ks s h)" by (auto simp: facts(2))
    with None show ?thesis by (simp add: map_of_eq_None_iff)
  next
    case (Some c)
    show ?thesis
    proof (cases "pc_EffectiveHeight c \<le> h")
      case True
      with Some have "(n, c) \<in> set (param_due ks s h)" by (simp add: facts(2))
      with facts(1) have "map_of (param_due ks s h) n = Some c" by (simp add: map_of_eq_Some_iff)
      with Some True show ?thesis by simp
    next
      case False
      with Some have "n \<notin> fst ` set (param_due ks s h)" by (auto simp: facts(2))
      with Some False show ?thesis by (simp add: map_of_eq_None_iff)
    qed
  qed
  show ?thesis
    unfolding param_Promote_def Let_def fst_conv activate_list [OF facts(1)]
    by (auto simp: of fun_eq_iff split: option.splits)
qed

lemma params_ok_promote:
  assumes "params_ok s" and "iteration (ps_pending s) ks"
  shows "params_ok (fst (param_Promote ks s h))"
proof (rule params_okI)
  show "entry_ok (fst (param_Promote ks s h)) n" for n
    using params_okD(1) [OF assms(1), of n] unfolding param_Promote_effect [OF assms(2)]
    by (cases "param_Lookup n"; cases "ps_pending s n"; cases "ps_active s n") (simp_all add: entry_ok_def)
qed

lemma param_due_order:
  assumes "iteration (ps_pending s) ks" and "iteration (ps_pending s) ks'"
  shows "param_due ks s h = param_due ks' s h"
  unfolding param_due_def
proof (rule sort_slice_unique)
  let ?e = "\<lambda>k. (k, the (ps_pending s k))"
  have ks: "distinct ks" "distinct ks'" "set ks = set ks'" using iterationD [OF assms(1)] iterationD [OF assms(2)] by auto
  have inj: "inj ?e" by (auto simp: inj_def)
  show "distinct (filter (\<lambda>e. pc_EffectiveHeight (snd e) + DefaultPromotionGrace \<le> h) (map ?e ks))"
    "distinct (filter (\<lambda>e. pc_EffectiveHeight (snd e) + DefaultPromotionGrace \<le> h) (map ?e ks'))"
    using ks inj by (auto simp: distinct_map inj_on_def)
  show "set (filter (\<lambda>e. pc_EffectiveHeight (snd e) + DefaultPromotionGrace \<le> h) (map ?e ks)) =
      set (filter (\<lambda>e. pc_EffectiveHeight (snd e) + DefaultPromotionGrace \<le> h) (map ?e ks'))"
    using ks by simp
  show "decides ent_before (set (filter (\<lambda>e. pc_EffectiveHeight (snd e) + DefaultPromotionGrace \<le> h) (map ?e ks)))"
    by (rule decides_by_key [OF ent_before_key]) (auto simp: inj_on_def)
qed

section \<open>The vote store\<close>

text \<open>
  A proposal is filed under its own key, its voters are different authorities in the order of their
  votes, and it has at least one. Those of an open proposal are among the authorities \<open>A\<close>.
\<close>

definition proposal_ok :: "string set \<Rightarrow> AuthorityVoteKey \<Rightarrow> AuthorityProposal \<Rightarrow> bool" where
  "proposal_ok A k p \<longleftrightarrow>
     prop_key p = k \<and> (apr_Op p = AuthorityOpAdd \<or> apr_Op p = AuthorityOpRemove) \<and>
     apr_Address p \<noteq> [] \<and> apr_EffectiveHeight p \<noteq> 0 \<and>
     apr_Voters p \<noteq> [] \<and> distinct (map av_Voter (apr_Voters p)) \<and> sorted_wrt vote_before (apr_Voters p) \<and>
     [] \<notin> av_Voter ` set (apr_Voters p) \<and>
     (\<not> apr_Crossed p \<longrightarrow> av_Voter ` set (apr_Voters p) \<subseteq> A \<and> apr_CrossedAtHeight p = 0)"

definition tally_ok :: "string set \<Rightarrow> vote_store \<Rightarrow> bool" where
  "tally_ok A s \<longleftrightarrow> finite (dom s) \<and> (\<forall>k p. s k = Some p \<longrightarrow> proposal_ok A k p)"

lemma tally_okD: "tally_ok A s \<Longrightarrow> s k = Some p \<Longrightarrow> proposal_ok A k p" "tally_ok A s \<Longrightarrow> finite (dom s)"
  by (simp_all add: tally_ok_def)

lemma tally_ok_empty: "tally_ok A NewInMemoryAuthorityVoteStore"
  by (simp add: tally_ok_def NewInMemoryAuthorityVoteStore_def)

lemma tally_ok_mono: "tally_ok A s \<Longrightarrow> A \<subseteq> B \<Longrightarrow> tally_ok B s"
  by (fastforce simp: tally_ok_def proposal_ok_def)

text \<open>A range over the store that looks at each entry once and rewrites only that entry.\<close>

lemma foldl_per_key:
  assumes "\<And>s out k. f (s, out) k = (s(k := g (s k)), out @ h (s k))" and "distinct ks"
  shows "foldl f (s, out) ks = ((\<lambda>k. if k \<in> set ks then g (s k) else s k), out @ concat (map (\<lambda>k. h (s k)) ks))"
  using assms(2)
proof (induction ks arbitrary: s out)
  case (Cons k ks)
  then have "concat (map (\<lambda>j. h ((s(k := g (s k))) j)) ks) = concat (map (\<lambda>j. h (s j)) ks)"
    by (intro arg_cong [where f = concat] map_cong) auto
  with Cons show ?case by (auto simp: assms(1) fun_eq_iff)
qed simp

lemma foldl_per_entry:
  assumes "\<And>s out k. f (s, out) k = (s(k := Option.bind (s k) g), out @ (case s k of None \<Rightarrow> [] | Some p \<Rightarrow> h p))"
    and "iteration s ks"
  shows "foldl f (s, []) ks = (\<lambda>k. Option.bind (s k) g, concat (map (\<lambda>k. h (the (s k))) ks))"
proof -
  have ks: "distinct ks" "set ks = dom s" using iterationD [OF assms(2)] by auto
  have "concat (map (\<lambda>k. case s k of None \<Rightarrow> [] | Some p \<Rightarrow> h p) ks) = concat (map (\<lambda>k. h (the (s k))) ks)"
    using ks(2) by (intro arg_cong [where f = concat] map_cong) auto
  then show ?thesis using foldl_per_key [of f "\<lambda>e. Option.bind e g" "case_option [] h" ks s "[]"] assms(1) ks
    by (auto simp: fun_eq_iff domIff)
qed

definition kept_open :: "u64 \<Rightarrow> AuthorityProposal \<Rightarrow> AuthorityProposal option" where
  "kept_open h p = (if vote_due h p then None else Some p)"

definition without_votes :: "string \<Rightarrow> AuthorityProposal \<Rightarrow> AuthorityProposal option" where
  "without_votes a p =
     (let out = filter (\<lambda>v. av_Voter v \<noteq> a) (apr_Voters p)
      in if apr_Crossed p \<or> length out = length (apr_Voters p) then Some p
         else if out = [] then None else Some (p\<lparr>apr_Voters := out\<rparr>))"

definition crossed_at :: "int \<Rightarrow> u64 \<Rightarrow> AuthorityProposal \<Rightarrow> AuthorityProposal" where
  "crossed_at threshold h p =
     (if apr_Crossed p \<or> int (length (apr_Voters p)) < threshold then p
      else p\<lparr>apr_Crossed := True, apr_CrossedAtHeight := h\<rparr>)"

lemma vote_Promote_effect:
  assumes "iteration s ks"
  shows "vote_Promote ks s h =
    (\<lambda>k. Option.bind (s k) (kept_open h),
     sortProposals (concat (map (\<lambda>k. if vote_due h (the (s k)) then [the (s k)] else []) ks)))"
proof -
  have "promote_step h (t, out) k =
      (t(k := Option.bind (t k) (kept_open h)), out @ (case t k of None \<Rightarrow> [] | Some p \<Rightarrow> if vote_due h p then [p] else []))"
    for t out k
    by (auto simp: promote_step_def kept_open_def vote_due_def fun_eq_iff split: option.splits)
  from foldl_per_entry [OF this assms] show ?thesis by (simp add: vote_Promote_def)
qed

lemma DropVotes_effect:
  assumes "iteration s ks" and "a \<noteq> []"
  shows "fst (DropVotesByAuthority ks s a) = (\<lambda>k. Option.bind (s k) (without_votes a))"
proof -
  have "drop_step a (t, out) k =
      (t(k := Option.bind (t k) (without_votes a)),
       out @ (case t k of None \<Rightarrow> [] | Some p \<Rightarrow>
         (let rest = filter (\<lambda>v. av_Voter v \<noteq> a) (apr_Voters p)
          in if apr_Crossed p \<or> length rest = length (apr_Voters p) then [] else [p\<lparr>apr_Voters := rest\<rparr>])))"
    for t out k
    by (auto simp: drop_step_def without_votes_def Let_def fun_eq_iff split: option.splits)
  from foldl_per_entry [OF this assms(1)] show ?thesis using assms(2) by (simp add: DropVotesByAuthority_def)
qed

lemma RecomputeCrossed_effect:
  assumes "iteration s ks" and "AuthorityThreshold n \<noteq> 0"
  shows "fst (RecomputeCrossed ks s n h) = (\<lambda>k. map_option (crossed_at (AuthorityThreshold n) h) (s k))"
proof -
  have "cross_step m h (t, out) k =
      (t(k := Option.bind (t k) (\<lambda>p. Some (crossed_at m h p))),
       out @ (case t k of None \<Rightarrow> [] | Some p \<Rightarrow>
         (if apr_Crossed p \<or> int (length (apr_Voters p)) < m then [] else [crossed_at m h p])))"
    for t out k m
    by (auto simp: cross_step_def crossed_at_def Let_def fun_eq_iff split: option.splits)
  from foldl_per_entry [OF this assms(1)] show ?thesis
    using assms(2) by (simp add: RecomputeCrossed_def Let_def map_conv_bind_option comp_def)
qed

lemma RecomputeCrossed_none: "AuthorityThreshold n = 0 \<Longrightarrow> RecomputeCrossed ks s n h = (s, [])"
  by (simp add: RecomputeCrossed_def)

text \<open>What each operation keeps.\<close>

lemma tally_ok_bind:
  assumes "tally_ok A s" and "\<And>k p q. proposal_ok A k p \<Longrightarrow> g p = Some q \<Longrightarrow> proposal_ok B k q"
  shows "tally_ok B (\<lambda>k. Option.bind (s k) g)"
proof -
  have "dom (\<lambda>k. Option.bind (s k) g) \<subseteq> dom s" by (auto simp: bind_eq_Some_conv)
  then have "finite (dom (\<lambda>k. Option.bind (s k) g))" using tally_okD(2) [OF assms(1)] by (rule finite_subset)
  then show ?thesis unfolding tally_ok_def bind_eq_Some_conv
    using tally_okD(1) [OF assms(1)] assms(2) by blast
qed

lemma tally_ok_promote:
  assumes "tally_ok A s" and "iteration s ks"
  shows "tally_ok A (fst (vote_Promote ks s h))"
  unfolding vote_Promote_effect [OF assms(2)] fst_conv
  by (rule tally_ok_bind [OF assms(1)]) (auto simp: kept_open_def split: if_splits)

lemma without_votes_ok:
  assumes "proposal_ok A k p" and "without_votes a p = Some q"
  shows "proposal_ok (A - {a}) k q"
proof -
  let ?out = "filter (\<lambda>v. av_Voter v \<noteq> a) (apr_Voters p)"
  show ?thesis
  proof (cases "apr_Crossed p \<or> length ?out = length (apr_Voters p)")
    case True
    then have "q = p" using assms(2) by (auto simp: without_votes_def Let_def)
    moreover have "\<forall>v \<in> set (apr_Voters p). av_Voter v \<noteq> a" if "length ?out = length (apr_Voters p)"
    proof
      fix v assume "v \<in> set (apr_Voters p)"
      then show "av_Voter v \<noteq> a" using that length_filter_less [of v "apr_Voters p" "\<lambda>v. av_Voter v \<noteq> a"] by linarith
    qed
    ultimately have "q = p" "\<not> apr_Crossed p \<longrightarrow> a \<notin> av_Voter ` set (apr_Voters p)" using True by blast+
    with assms(1) show ?thesis by (simp add: proposal_ok_def subset_Diff_insert)
  next
    case False
    then have "?out \<noteq> []" "q = p\<lparr>apr_Voters := ?out\<rparr>"
      using assms(2) unfolding without_votes_def Let_def by (simp_all split: if_split_asm)
    with assms(1) show ?thesis
      by (simp add: proposal_ok_def prop_key_def distinct_map_filter sorted_wrt_filter) auto
  qed
qed

lemma tally_ok_drop:
  assumes "tally_ok A s" and "iteration s ks" and "a \<noteq> []"
  shows "tally_ok (A - {a}) (fst (DropVotesByAuthority ks s a))"
  unfolding DropVotes_effect [OF assms(2,3)]
  by (rule tally_ok_bind [OF assms(1)]) (rule without_votes_ok)

lemma tally_ok_recompute:
  assumes "tally_ok A s" and "iteration s ks"
  shows "tally_ok A (fst (RecomputeCrossed ks s n h))"
proof (cases "AuthorityThreshold n = 0")
  case False
  have "tally_ok A (\<lambda>k. Option.bind (s k) (\<lambda>p. Some (crossed_at (AuthorityThreshold n) h p)))"
    by (rule tally_ok_bind [OF assms(1)]) (auto simp: crossed_at_def proposal_ok_def prop_key_def split: if_splits)
  then show ?thesis unfolding RecomputeCrossed_effect [OF assms(2) False] by (simp add: map_conv_bind_option comp_def)
qed (simp add: RecomputeCrossed_none assms(1))

text \<open>The proposal a vote is added to, and the vote that is recorded.\<close>

definition filed :: "vote_store \<Rightarrow> AuthorityVoteKey \<Rightarrow> AuthorityProposal" where
  "filed s key = (case s key of None \<Rightarrow> open_proposal key | Some p \<Rightarrow> p)"

definition voted :: "vote_store \<Rightarrow> AuthorityVoteKey \<Rightarrow> AuthorityVote \<Rightarrow> int \<Rightarrow> AuthorityProposal" where
  "voted s key vote n =
     crossed_at (AuthorityThreshold n) (av_SubmittedAtHeight vote)
       ((filed s key)\<lparr>apr_Voters := sortVoters (apr_Voters (filed s key) @ [vote])\<rparr>)"

lemma list_ex_voter: "list_ex (\<lambda>v. av_Voter v = x) vs \<longleftrightarrow> x \<in> av_Voter ` set vs"
  by (induction vs) auto

lemma RecordVote_cases:
  obtains (empty) "av_Voter vote = []" "RecordVote s key vote n = (s, Inl (GovInvalid ''voter''))"
  | (duplicate) "av_Voter vote \<in> av_Voter ` set (apr_Voters (filed s key))"
      "RecordVote s key vote n = (s, Inl (DuplicateVote (av_Voter vote)))"
  | (recorded) "av_Voter vote \<noteq> []" "av_Voter vote \<notin> av_Voter ` set (apr_Voters (filed s key))"
      "0 < n \<Longrightarrow> RecordVote s key vote n = (s(key \<mapsto> voted s key vote n), Inr (voted s key vote n,
        \<not> apr_Crossed (filed s key) \<and> apr_Crossed (voted s key vote n)))"
proof (cases "av_Voter vote = []")
  case True
  then show ?thesis by (intro empty) (simp_all add: RecordVote_def)
next
  case False
  show ?thesis
  proof (cases "av_Voter vote \<in> av_Voter ` set (apr_Voters (filed s key))")
    case True
    then have "list_ex (\<lambda>v. av_Voter v = av_Voter vote) (apr_Voters (filed s key))" by (simp add: list_ex_voter)
    with True False show ?thesis by (intro duplicate) (simp_all add: RecordVote_def filed_def [symmetric])
  next
    case new: False
    then have "\<not> list_ex (\<lambda>v. av_Voter v = av_Voter vote) (apr_Voters (filed s key))" by (simp add: list_ex_voter)
    moreover have "0 < n \<Longrightarrow> 0 < AuthorityThreshold n" by (simp add: AuthorityThreshold_def)
    ultimately show ?thesis using False new
      by (intro recorded) (auto simp: RecordVote_def filed_def [symmetric] voted_def crossed_at_def Let_def)
  qed
qed

lemma sortVoters_sorted:
  assumes "distinct (map av_Voter vs)"
  shows "sorted_wrt vote_before (sortVoters vs)"
  unfolding sortVoters_def
proof (rule sort_slice_sorted)
  show "distinct vs" using assms by (simp add: distinct_map)
  have "inj_on av_Voter (set vs)" using assms by (simp add: distinct_map)
  then show "decides vote_before (set vs)" by (intro decides_by_key [OF vote_before_key]) (auto simp: inj_on_def)
qed

lemma voted_ok:
  assumes "tally_ok A s" and "av_Voter vote \<in> A" and "[] \<notin> A"
    and "av_Voter vote \<notin> av_Voter ` set (apr_Voters (filed s key))"
    and "vk_Op key = AuthorityOpAdd \<or> vk_Op key = AuthorityOpRemove" "vk_Address key \<noteq> []" "vk_EffectiveHeight key \<noteq> 0"
  shows "proposal_ok A key (voted s key vote n)"
proof -
  let ?vs = "apr_Voters (filed s key)"
  have old: "prop_key (filed s key) = key" "distinct (map av_Voter ?vs)" "[] \<notin> av_Voter ` set ?vs"
    "\<not> apr_Crossed (filed s key) \<longrightarrow> av_Voter ` set ?vs \<subseteq> A \<and> apr_CrossedAtHeight (filed s key) = 0"
    using tally_okD(1) [OF assms(1), of key]
    by (cases "s key"; cases key; simp add: filed_def open_proposal_def prop_key_def proposal_ok_def)+
  then have new: "distinct (map av_Voter (?vs @ [vote]))" using assms(4) by auto
  have key: "apr_Op (filed s key) = vk_Op key" "apr_Address (filed s key) = vk_Address key"
    "apr_EffectiveHeight (filed s key) = vk_EffectiveHeight key"
    using arg_cong [OF old(1), of vk_Op] arg_cong [OF old(1), of vk_Address] arg_cong [OF old(1), of vk_EffectiveHeight]
    by (simp_all add: prop_key_def)
  have base: "proposal_ok A key ((filed s key)\<lparr>apr_Voters := sortVoters (?vs @ [vote])\<rparr>)"
    using old new key assms(2,3,5-) sortVoters_sorted [OF new] unfolding proposal_ok_def prop_key_def
    by (simp del: map_append) auto
  then show ?thesis by (simp add: voted_def crossed_at_def proposal_ok_def prop_key_def)
qed

lemma tally_ok_record:
  assumes "tally_ok A s" and "av_Voter vote \<in> A" and "[] \<notin> A" and "0 < n"
    and "vk_Op key = AuthorityOpAdd \<or> vk_Op key = AuthorityOpRemove" "vk_Address key \<noteq> []" "vk_EffectiveHeight key \<noteq> 0"
  shows "tally_ok A (fst (RecordVote s key vote n))"
proof (cases rule: RecordVote_cases [of vote s key n])
  case recorded
  note ok = voted_ok [OF assms(1-3) recorded(2) assms(5-), of n]
  show ?thesis unfolding recorded(3) [OF assms(4)] fst_conv
    using assms(1) ok by (auto simp: tally_ok_def)
qed (simp_all add: assms(1))

section \<open>Promotion of authority changes\<close>

definition activated_removals :: "AuthorityProposal list \<Rightarrow> string set" where
  "activated_removals ps = {apr_Address p |p. p \<in> set ps \<and> apr_Op p = AuthorityOpRemove \<and> apr_Voters p \<noteq> []}"

lemma activated_removals_Nil [simp]: "activated_removals [] = {}"
  by (simp add: activated_removals_def)

lemma activated_removals_Cons:
  "activated_removals (p # ps) =
    (if apr_Op p = AuthorityOpRemove \<and> apr_Voters p \<noteq> [] then insert (apr_Address p) (activated_removals ps)
     else activated_removals ps)"
  by (auto simp: activated_removals_def)

lemma ops_differ [simp]: "AuthorityOpRemove \<noteq> AuthorityOpAdd" "AuthorityOpAdd \<noteq> AuthorityOpRemove"
  by (simp_all add: AuthorityOpRemove_def AuthorityOpAdd_def)

lemma kinds_differ [simp]: "PayloadKindAuthoritySet \<noteq> PayloadKindParamSet"
  by (simp add: PayloadKindAuthoritySet_def PayloadKindParamSet_def)

lemma activate_covers:
  assumes "activate_authorities A ps = (B, qs)" and "\<forall>p \<in> set ps. apr_Voters p \<noteq> []"
  shows "A \<subseteq> B \<union> activated_removals qs"
  using assms
proof (induction A ps arbitrary: B qs rule: activate_authorities.induct)
  case (2 A p ps)
  obtain A1 p1 where step: "(if apr_Op p = AuthorityOpAdd then (insert (apr_Address p) A, p)
      else if apr_Op p = AuthorityOpRemove
      then (if card A \<le> 1 then (A, p\<lparr>apr_Voters := []\<rparr>) else (A - {apr_Address p}, p)) else (A, p)) = (A1, p1)"
    by (rule prod.exhaust)
  obtain B1 qs1 where rest: "activate_authorities A1 ps = (B1, qs1)" by (rule prod.exhaust)
  from 2(2) step rest have B: "B = B1" "qs = p1 # qs1" by simp_all
  have IH: "A1 \<subseteq> B1 \<union> activated_removals qs1" using "2.IH" [OF step [symmetric] refl rest] 2(3) by simp
  have "A \<subseteq> A1 \<union> activated_removals [p1]" using step 2(3)
    by (auto simp: activated_removals_def split: if_splits)
  with IH show ?case by (auto simp: B activated_removals_Cons split: if_splits)
qed simp

lemma activate_nonempty:
  assumes "finite A" and "A \<noteq> {}"
  shows "fst (activate_authorities A ps) \<noteq> {}"
  using assms
proof (induction ps arbitrary: A)
  case (Cons p ps)
  have "A - {a} \<noteq> {}" if "\<not> card A \<le> 1" for a
  proof
    assume "A - {a} = {}"
    then have "card A \<le> card {a}" by (intro card_mono) auto
    with that show False by simp
  qed
  with Cons.prems Cons.IH [of "insert (apr_Address p) A"] Cons.IH [of A] Cons.IH [of "A - {apr_Address p}"]
  show ?case by (auto simp: Let_def case_prod_unfold)
qed simp

lemma activate_bounds:
  assumes "finite A"
  shows "finite (fst (activate_authorities A ps))"
    and "fst (activate_authorities A ps) \<subseteq> A \<union> {apr_Address p |p. p \<in> set ps \<and> apr_Op p = AuthorityOpAdd}"
    and "A - {apr_Address p |p. p \<in> set ps \<and> apr_Op p = AuthorityOpRemove} \<subseteq> fst (activate_authorities A ps)"
proof -
  have "finite (fst (activate_authorities A ps)) \<and>
    fst (activate_authorities A ps) \<subseteq> A \<union> {apr_Address p |p. p \<in> set ps \<and> apr_Op p = AuthorityOpAdd} \<and>
    A - {apr_Address p |p. p \<in> set ps \<and> apr_Op p = AuthorityOpRemove} \<subseteq> fst (activate_authorities A ps)"
    using assms
  proof (induction ps arbitrary: A)
    case (Cons p ps)
    from Cons.prems Cons.IH [of "insert (apr_Address p) A"] Cons.IH [of A] Cons.IH [of "A - {apr_Address p}"]
    show ?case
      by (simp add: Let_def case_prod_unfold split: if_split) blast
  qed simp
  then show "finite (fst (activate_authorities A ps))"
    and "fst (activate_authorities A ps) \<subseteq> A \<union> {apr_Address p |p. p \<in> set ps \<and> apr_Op p = AuthorityOpAdd}"
    and "A - {apr_Address p |p. p \<in> set ps \<and> apr_Op p = AuthorityOpRemove} \<subseteq> fst (activate_authorities A ps)"
    by blast+
qed

lemma activate_addresses:
  "map apr_Address (snd (activate_authorities A ps)) = map apr_Address ps"
  by (induction ps arbitrary: A) (simp_all add: Let_def case_prod_unfold)

definition valid_orders :: "orders \<Rightarrow> bool" where
  "valid_orders ord \<longleftrightarrow> (\<forall>i m. finite (dom m) \<longrightarrow> iteration m (ord i m))"

lemma valid_ordersD: "valid_orders ord \<Longrightarrow> tally_ok A s \<Longrightarrow> iteration s (ord i s)"
  by (simp add: valid_orders_def tally_ok_def)

lemma settle_ok:
  assumes "valid_orders ord" and "tally_ok (A \<union> activated_removals ps) votes" and "\<forall>p \<in> set ps. apr_Address p \<noteq> []"
  shows "tally_ok A (settle_removals ord i n h votes ps)"
  using assms
proof (induction ord i n h votes ps rule: settle_removals.induct)
  case (1 ord i n h votes)
  then show ?case by (simp add: activated_removals_def)
next
  case (2 ord i n h votes p ps)
  show ?case
  proof (cases "apr_Op p = AuthorityOpRemove \<and> apr_Voters p \<noteq> []")
    case True
    let ?v1 = "fst (DropVotesByAuthority (ord i votes) votes (apr_Address p))"
    let ?B = "A \<union> activated_removals ps"
    have "tally_ok (A \<union> activated_removals (p # ps) - {apr_Address p}) ?v1"
      using 2(4-6) by (intro tally_ok_drop valid_ordersD) auto
    then have v1: "tally_ok ?B ?v1" by (rule tally_ok_mono) (auto simp: True activated_removals_Cons)
    have "tally_ok ?B (fst (RecomputeCrossed (ord (Suc i) ?v1) ?v1 n h))"
      by (rule tally_ok_recompute [OF v1 valid_ordersD [OF 2(4) v1]])
    with True 2(2) 2(4,6) show ?thesis by (simp add: Let_def)
  next
    case False
    then have "tally_ok (A \<union> activated_removals ps) votes" using 2(5) by (auto simp: activated_removals_Cons split: if_splits)
    with False 2 show ?thesis by auto
  qed
qed

section \<open>Transactions\<close>

lemma debit_gov_fee_ok:
  assumes "debit_gov_fee s tx = (t, None)"
  shows "\<not> tx_Fee tx \<le> 0" and "DebitAndBumpNonce s (tx_Sender tx) (tx_Fee tx) (tx_Nonce tx) = (t, None)"
    and "nonce_of s (tx_Sender tx) = tx_Nonce tx"
    and "nonce_of t a = (if a = tx_Sender tx then nonce_of s a + 1 else nonce_of s a)"
proof -
  from assms have fee: "\<not> tx_Fee tx \<le> 0" and d: "DebitAndBumpNonce s (tx_Sender tx) (tx_Fee tx) (tx_Nonce tx) = (t, None)"
    by (auto simp: debit_gov_fee_def split: if_splits prod.splits)
  show "DebitAndBumpNonce s (tx_Sender tx) (tx_Fee tx) (tx_Nonce tx) = (t, None)" by (rule d)
  from debit_nonce.run_ok_nonce [of s "(tx_Sender tx, tx_Fee tx, tx_Nonce tx)" t]
  show "nonce_of s (tx_Sender tx) = tx_Nonce tx" using d by simp
  from debit_nonce.run_ok_bump [of s "(tx_Sender tx, tx_Fee tx, tx_Nonce tx)" t a]
  show "nonce_of t a = (if a = tx_Sender tx then nonce_of s a + 1 else nonce_of s a)" using d by simp
  show "\<not> tx_Fee tx \<le> 0" by (rule fee)
qed

lemma debit_gov_fee_err: "debit_gov_fee s tx = (t, Some e) \<Longrightarrow> t = s"
  using debit_nonce.run_err_same [of s "(tx_Sender tx, tx_Fee tx, tx_Nonce tx)" t]
  by (auto simp: debit_gov_fee_def split: if_splits prod.splits)

text \<open>What a governance transaction that got past every check has shown.\<close>

definition gov_admitted :: "GovApplier \<Rightarrow> Tx \<Rightarrow> u64 \<Rightarrow> u64 \<Rightarrow> AccountStore \<Rightarrow> bool" where
  "gov_admitted ga tx effectiveHeight currentHeight accounts1 \<longleftrightarrow>
     tx_Sender tx \<in> ga_authoritySet ga \<and> height_window effectiveHeight currentHeight = None \<and>
     debit_gov_fee (ga_Accounts ga) tx = (accounts1, None)"

lemma valid_param_payload:
  assumes "ValidateParamSetFields p = None"
  shows "\<exists>spec. param_Lookup (pp_Param p) = Some spec \<and> CheckBounds spec (pp_Value p) = None \<and> pp_EffectiveHeight p \<noteq> 0"
  using assms unfolding ValidateParamSetFields_def by (auto split: if_splits option.splits)

lemma applyParamSet_cases:
  obtains (refused) e where "applyParamSet cd ga tx h = (ga, Some e)"
  | (staged) p acc1 where "ParseParamSet cd (tx_Payload tx) = Inr p" "ValidateParamSetFields p = None"
      "gov_admitted ga tx (pp_EffectiveHeight p) h acc1"
      "applyParamSet cd ga tx h =
        (ga\<lparr>ga_Accounts := acc1,
            ga_Store := (ga_Store ga)\<lparr>ps_pending := (ps_pending (ga_Store ga))(pp_Param p \<mapsto> param_change tx h p)\<rparr>\<rparr>, None)"
proof (cases "ParseParamSet cd (tx_Payload tx)")
  case (Inl e)
  then show ?thesis by (intro refused [of e]) (simp add: applyParamSet_def)
next
  case p: (Inr p)
  obtain acc1 r where fee: "debit_gov_fee (ga_Accounts ga) tx = (acc1, r)" by (rule prod.exhaust)
  have "(\<exists>e. applyParamSet cd ga tx h = (ga, Some e)) \<or>
      ValidateParamSetFields p = None \<and> authorityCount ga \<noteq> 0 \<and> IsAuthority ga (tx_Sender tx) \<and>
      height_window (pp_EffectiveHeight p) h = None"
    unfolding applyParamSet_def p sum.case by (simp split: option.split)
  then consider (early) e where "applyParamSet cd ga tx h = (ga, Some e)"
    | (in_order) "ValidateParamSetFields p = None" "authorityCount ga \<noteq> 0" "IsAuthority ga (tx_Sender tx)"
        "height_window (pp_EffectiveHeight p) h = None"
    by force
  then show ?thesis
  proof cases
    case in_order
    show ?thesis
    proof (cases r)
      case (Some e)
      with fee debit_gov_fee_err have "acc1 = ga_Accounts ga" by blast
      with p in_order fee Some show ?thesis by (intro refused [of e]) (simp add: applyParamSet_def)
    next
      case None
      obtain spec where "param_Lookup (pp_Param p) = Some spec" "CheckBounds spec (pp_Value p) = None"
        "pp_EffectiveHeight p \<noteq> 0" using valid_param_payload [OF in_order(1)] by blast
      with p in_order fee None show ?thesis
        by (intro staged [of p acc1]) (simp_all add: applyParamSet_def gov_admitted_def IsAuthority_def Stage_def param_change_def)
    qed
  qed (rule refused)
qed

lemma applyAuthoritySet_cases:
  obtains (refused) e where "applyAuthoritySet cd ga tx h = (ga, Some e)"
  | (cast) p acc1 votes where "ParseAuthoritySet cd (tx_Payload tx) = Inr p" "ValidateAuthoritySetFields p = None"
      "gov_admitted ga tx (ap_EffectiveHeight p) h acc1" "membership_check ga p = None" "ga_AuthorityVotes ga = Some votes"
      "0 < authorityCount ga"
      "applyAuthoritySet cd ga tx h =
        (let r = RecordVote votes (vote_key p) (authority_vote tx h p) (authorityCount ga)
         in (ga\<lparr>ga_Accounts := acc1, ga_AuthorityVotes := Some (fst r)\<rparr>,
             case snd r of Inl e \<Rightarrow> Some e | Inr _ \<Rightarrow> None))"
proof (cases "ParseAuthoritySet cd (tx_Payload tx)")
  case (Inl e)
  then show ?thesis by (intro refused [of e]) (simp add: applyAuthoritySet_def)
next
  case p: (Inr p)
  obtain acc1 r where fee: "debit_gov_fee (ga_Accounts ga) tx = (acc1, r)" by (rule prod.exhaust)
  have "(\<exists>e. applyAuthoritySet cd ga tx h = (ga, Some e)) \<or>
      ValidateAuthoritySetFields p = None \<and> authorityCount ga \<noteq> 0 \<and> ga_AuthorityVotes ga \<noteq> None \<and>
      IsAuthority ga (tx_Sender tx) \<and> membership_check ga p = None \<and> height_window (ap_EffectiveHeight p) h = None"
    unfolding applyAuthoritySet_def p sum.case by (simp split: option.split)
  then consider (early) e where "applyAuthoritySet cd ga tx h = (ga, Some e)"
    | (in_order) votes where "ValidateAuthoritySetFields p = None" "authorityCount ga \<noteq> 0" "ga_AuthorityVotes ga = Some votes"
        "IsAuthority ga (tx_Sender tx)" "membership_check ga p = None" "height_window (ap_EffectiveHeight p) h = None"
    by blast
  then show ?thesis
  proof cases
    case (in_order votes)
    have pos: "0 < authorityCount ga" using in_order(2) by (simp add: authorityCount_def)
    show ?thesis
    proof (cases r)
      case (Some e)
      with fee debit_gov_fee_err have "acc1 = ga_Accounts ga" by blast
      with p in_order fee Some show ?thesis by (intro refused [of e]) (simp add: applyAuthoritySet_def)
    next
      case None
      with p in_order fee pos show ?thesis
        by (intro cast [of p acc1 votes])
          (simp_all add: applyAuthoritySet_def gov_admitted_def IsAuthority_def Let_def case_prod_unfold split: sum.split)
    qed
  qed (rule refused)
qed

lemma ApplyGovTx_cases:
  obtains (refused) e where "ApplyGovTx cd ga tx h = (ga, Some e)"
  | (param) "ApplyGovTx cd ga tx h = applyParamSet cd ga tx h" "gov_PeekKind cd (tx_Payload tx) = Inr PayloadKindParamSet"
  | (authority) "ApplyGovTx cd ga tx h = applyAuthoritySet cd ga tx h"
proof (cases "tx_ContractID tx = GovContractID")
  case True
  show ?thesis
  proof (cases "gov_PeekKind cd (tx_Payload tx)")
    case (Inl e)
    with True show ?thesis by (intro refused [of e]) (simp add: ApplyGovTx_def)
  next
    case (Inr kind)
    with True refused param authority show ?thesis
      by (cases "kind = PayloadKindParamSet"; cases "kind = PayloadKindAuthoritySet") (auto simp: ApplyGovTx_def)
  qed
qed (use refused in \<open>simp add: ApplyGovTx_def\<close>)

lemma valid_authority_payload:
  assumes "ValidateAuthoritySetFields p = None"
  shows "vk_Op (vote_key p) = AuthorityOpAdd \<or> vk_Op (vote_key p) = AuthorityOpRemove"
    "vk_Address (vote_key p) \<noteq> []" "vk_EffectiveHeight (vote_key p) \<noteq> 0"
  using assms unfolding ValidateAuthoritySetFields_def vote_key_def by (auto split: if_splits)

section \<open>The invariant of governance\<close>

definition gov_ok :: "GovApplier \<Rightarrow> bool" where
  "gov_ok ga \<longleftrightarrow>
     params_ok (ga_Store ga) \<and> finite (ga_authoritySet ga) \<and> [] \<notin> ga_authoritySet ga \<and>
     (case ga_AuthorityVotes ga of None \<Rightarrow> True | Some votes \<Rightarrow> tally_ok (ga_authoritySet ga) votes)"

lemma gov_okD:
  assumes "gov_ok ga"
  shows "params_ok (ga_Store ga)" and "finite (ga_authoritySet ga)" and "[] \<notin> ga_authoritySet ga"
    and "ga_AuthorityVotes ga = Some votes \<Longrightarrow> tally_ok (ga_authoritySet ga) votes"
  using assms by (simp_all add: gov_ok_def)

lemma gov_ok_tx:
  assumes "gov_ok ga"
  shows "gov_ok (fst (ApplyGovTx cd ga tx h))"
proof (cases rule: ApplyGovTx_cases [of cd ga tx h])
  case param
  show ?thesis
  proof (cases rule: applyParamSet_cases [of cd ga tx h])
    case (staged p acc1)
    obtain spec where "param_Lookup (pp_Param p) = Some spec" "CheckBounds spec (pp_Value p) = None"
      "pp_EffectiveHeight p \<noteq> 0" using valid_param_payload [OF staged(2)] by blast
    then have "fst (Stage (ga_Store ga) (param_change tx h p)) =
        (ga_Store ga)\<lparr>ps_pending := (ps_pending (ga_Store ga))(pp_Param p \<mapsto> param_change tx h p)\<rparr>"
      by (simp add: Stage_def param_change_def)
    with params_ok_stage [OF gov_okD(1) [OF assms], of "param_change tx h p"] staged(4) assms param
    show ?thesis by (simp add: gov_ok_def split: option.splits)
  qed (simp add: param assms)
next
  case authority
  show ?thesis
  proof (cases rule: applyAuthoritySet_cases [of cd ga tx h])
    case (cast p acc1 votes)
    have "tally_ok (ga_authoritySet ga)
        (fst (RecordVote votes (vote_key p) (authority_vote tx h p) (authorityCount ga)))"
      using cast(3) by (intro tally_ok_record gov_okD(3,4) assms cast(5,6) valid_authority_payload cast(2))
        (simp add: authority_vote_def gov_admitted_def)
    with assms cast(7) authority show ?thesis by (simp add: gov_ok_def Let_def)
  qed (simp add: authority assms)
qed (simp add: assms)

lemma due_facts:
  assumes "tally_ok A votes" and "iteration votes ks" and "p \<in> set (snd (vote_Promote ks votes h))"
  shows "votes (prop_key p) = Some p" and "apr_Crossed p" and "apr_EffectiveHeight p \<le> h" and "apr_Voters p \<noteq> []"
    and "apr_Address p \<noteq> []"
proof -
  have "set ks = dom votes" using iterationD [OF assms(2)] by simp
  with assms(3) obtain k where k: "votes k = Some p" and due: "vote_due h p"
    unfolding vote_Promote_effect [OF assms(2)] by (auto split: if_splits)
  have ok: "proposal_ok A k p" by (rule tally_okD(1) [OF assms(1) k])
  with k show "votes (prop_key p) = Some p" by (simp add: proposal_ok_def)
  show "apr_Crossed p" "apr_EffectiveHeight p \<le> h" using due by (simp_all add: vote_due_def not_less)
  show "apr_Voters p \<noteq> []" "apr_Address p \<noteq> []" using ok by (simp_all add: proposal_ok_def)
qed

lemma promoteAuthority_eq:
  assumes "ga_AuthorityVotes ga = Some votes" and "vote_Promote (ord 0 votes) votes h = (votes1, due)"
    and "activate_authorities (ga_authoritySet ga) due = (A, due1)"
  shows "promoteAuthorityPending ord ga h =
    ga\<lparr>ga_authoritySet := A, ga_AuthorityVotes := Some (settle_removals ord 1 (int (card A)) h votes1 due1)\<rparr>"
  using assms by (cases due) (simp_all add: promoteAuthorityPending_def)

lemma gov_ok_promote_authority:
  assumes "gov_ok ga" and "valid_orders ord"
  shows "gov_ok (promoteAuthorityPending ord ga h)"
proof (cases "ga_AuthorityVotes ga")
  case None
  with assms(1) show ?thesis by (simp add: promoteAuthorityPending_def)
next
  case (Some votes)
  obtain votes1 due where due: "vote_Promote (ord 0 votes) votes h = (votes1, due)" by (rule prod.exhaust)
  obtain A due1 where act: "activate_authorities (ga_authoritySet ga) due = (A, due1)" by (rule prod.exhaust)
  note ok = gov_okD(4) [OF assms(1) Some]
  note it = valid_ordersD [OF assms(2) ok, of 0]
  have facts: "apr_Voters p \<noteq> []" "apr_Address p \<noteq> []" if "p \<in> set due" for p
    using due_facts(4,5) [OF ok it, of p h] that due by simp_all
  have v1: "tally_ok (ga_authoritySet ga) votes1" using tally_ok_promote [OF ok it, of h] due by simp
  have "ga_authoritySet ga \<subseteq> A \<union> activated_removals due1" using act facts(1) by (intro activate_covers) auto
  with v1 have "tally_ok (A \<union> activated_removals due1) votes1" by (rule tally_ok_mono)
  moreover have "map apr_Address due1 = map apr_Address due" using activate_addresses [of "ga_authoritySet ga" due] act by simp
  then have "apr_Address ` set due1 = apr_Address ` set due" by (metis list.set_map)
  then have "\<forall>p \<in> set due1. apr_Address p \<noteq> []" using facts(2) by (metis imageE imageI)
  ultimately have "tally_ok A (settle_removals ord 1 (int (card A)) h votes1 due1)" by (intro settle_ok assms(2))
  moreover have "finite A" "A \<subseteq> ga_authoritySet ga \<union> {apr_Address p |p. p \<in> set due \<and> apr_Op p = AuthorityOpAdd}"
    using activate_bounds(1,2) [OF gov_okD(2) [OF assms(1)], of due] act by simp_all
  moreover have "[] \<notin> A" using calculation(3) gov_okD(3) [OF assms(1)] facts(2) by force
  ultimately show ?thesis using assms(1) unfolding promoteAuthority_eq [where ord = ord, OF Some due act] by (simp add: gov_ok_def)
qed

definition valid_param_orders :: "(ParamStore \<Rightarrow> string list) \<Rightarrow> bool" where
  "valid_param_orders pord \<longleftrightarrow> (\<forall>s. finite (dom (ps_pending s)) \<longrightarrow> iteration (ps_pending s) (pord s))"

lemma valid_param_ordersD: "valid_param_orders pord \<Longrightarrow> params_ok s \<Longrightarrow> iteration (ps_pending s) (pord s)"
  by (simp add: valid_param_orders_def params_ok_finite)

lemma gov_ok_promote:
  assumes "gov_ok ga" and "valid_param_orders pord" and "valid_orders ord"
  shows "gov_ok (fst (PromotePending pord ord ga h))"
proof -
  note ok = gov_okD(1) [OF assms(1)]
  have "params_ok (fst (param_Promote (pord (ga_Store ga)) (ga_Store ga) h))"
    by (rule params_ok_promote [OF ok valid_param_ordersD [OF assms(2) ok]])
  then have "gov_ok (ga\<lparr>ga_Store := fst (param_Promote (pord (ga_Store ga)) (ga_Store ga) h)\<rparr>)"
    using assms(1) by (simp add: gov_ok_def split: option.splits)
  from gov_ok_promote_authority [OF this assms(3)] show ?thesis
    by (simp add: PromotePending_def case_prod_unfold)
qed

section \<open>The order of the ranges does not matter\<close>

lemma vote_Promote_order:
  assumes "tally_ok A s" and "iteration s ks" and "iteration s ks'"
  shows "vote_Promote ks s h = vote_Promote ks' s h"
proof -
  have keys: "prop_key (the (s k)) = k" if "k \<in> dom s" for k
    using that tally_okD(1) [OF assms(1), of k] by (auto simp: proposal_ok_def)
  let ?due = "\<lambda>ks. filter (vote_due h) (map (\<lambda>k. the (s k)) ks)"
  have due: "concat (map (\<lambda>k. if vote_due h (the (s k)) then [the (s k)] else []) xs) = ?due xs" for xs
    by (induction xs) simp_all
  have facts: "distinct (?due xs)" "set (?due xs) = {p. vote_due h p \<and> p \<in> (\<lambda>k. the (s k)) ` dom s}" if "iteration s xs" for xs
  proof -
    note it = iterationD(1,2) [OF that]
    have "inj_on (\<lambda>k. the (s k)) (set xs)" using keys it(2) by (metis inj_on_inverseI)
    with it(1) show "distinct (?due xs)" by (intro distinct_filter) (simp add: distinct_map)
    show "set (?due xs) = {p. vote_due h p \<and> p \<in> (\<lambda>k. the (s k)) ` dom s}" using it(2) by auto
  qed
  have "inj_on prop_key (set (?due ks))" 
    unfolding facts(2) [OF assms(2)]
  proof (rule inj_on_inverseI)
    fix p assume "p \<in> {p. vote_due h p \<and> p \<in> (\<lambda>k. the (s k)) ` dom s}"
    then obtain k where "k \<in> dom s" "p = the (s k)" by blast
    then show "the (s (prop_key p)) = p" using keys by simp
  qed
  then have "sortProposals (?due ks) = sortProposals (?due ks')"
    unfolding sortProposals_def
    by (intro sort_slice_unique decides_by_key [OF proposal_before_key] facts(1) assms)
      (simp_all only: facts(2) [OF assms(2)] facts(2) [OF assms(3)])
  then show ?thesis unfolding vote_Promote_effect [OF assms(2)] vote_Promote_effect [OF assms(3)] due by simp
qed

lemma settle_order:
  assumes "valid_orders ord" and "valid_orders ord'" and "finite (dom votes)" and "\<forall>p \<in> set ps. apr_Address p \<noteq> []"
  shows "settle_removals ord i n h votes ps = settle_removals ord' j n h votes ps"
  using assms(3,4)
proof (induction ps arbitrary: i j votes)
  case (Cons p ps)
  let ?drop = "\<lambda>k. Option.bind (votes k) (without_votes (apr_Address p))"
  have it: "iteration m (ord i m)" "iteration m (ord' i m)" if "finite (dom m)" for i m
    using that assms(1,2) by (simp_all add: valid_orders_def)
  have drop: "fst (DropVotesByAuthority (ord i votes) votes (apr_Address p)) = ?drop"
      "fst (DropVotesByAuthority (ord' j votes) votes (apr_Address p)) = ?drop"
    using Cons.prems it by (simp_all add: DropVotes_effect)
  have "dom ?drop \<subseteq> dom votes" by (auto simp: bind_eq_Some_conv)
  then have fin: "finite (dom ?drop)" using Cons.prems(1) by (rule finite_subset)
  have cross: "fst (RecomputeCrossed ks ?drop n h) = (if AuthorityThreshold n = 0 then ?drop
      else (\<lambda>k. map_option (crossed_at (AuthorityThreshold n) h) (?drop k)))" if "iteration ?drop ks" for ks
    using RecomputeCrossed_effect [OF that] RecomputeCrossed_none by simp
  have "finite (dom (fst (RecomputeCrossed (ord (Suc i) ?drop) ?drop n h)))"
    unfolding cross [OF it(1) [OF fin]] using fin by (simp add: dom_map_option_comp [unfolded comp_def])
  moreover have "fst (RecomputeCrossed (ord (Suc i) ?drop) ?drop n h) = fst (RecomputeCrossed (ord' (Suc j) ?drop) ?drop n h)"
    unfolding cross [OF it(1) [OF fin]] cross [OF it(2) [OF fin]] by (rule refl)
  ultimately show ?case using Cons.IH [of _ "Suc (Suc i)" "Suc (Suc j)"] Cons.IH [OF Cons.prems(1), of i j] Cons.prems(2)
    by (auto simp: Let_def drop)
qed simp

lemma promote_authority_order:
  assumes "gov_ok ga" and "valid_orders ord" and "valid_orders ord'"
  shows "promoteAuthorityPending ord ga h = promoteAuthorityPending ord' ga h"
proof (cases "ga_AuthorityVotes ga")
  case (Some votes)
  note ok = gov_okD(4) [OF assms(1) Some]
  note it = valid_ordersD [OF assms(2) ok, of 0] valid_ordersD [OF assms(3) ok, of 0]
  obtain votes1 due where due: "vote_Promote (ord 0 votes) votes h = (votes1, due)" by (rule prod.exhaust)
  with vote_Promote_order [OF ok it, of h] have due': "vote_Promote (ord' 0 votes) votes h = (votes1, due)" by simp
  obtain A due1 where act: "activate_authorities (ga_authoritySet ga) due = (A, due1)" by (rule prod.exhaust)
  have fin: "finite (dom votes1)" using tally_okD(2) [OF tally_ok_promote [OF ok it(1), of h]] due by simp
  have "map apr_Address due1 = map apr_Address due" using activate_addresses [of "ga_authoritySet ga" due] act by simp
  then have "apr_Address ` set due1 = apr_Address ` set due" by (metis list.set_map)
  then have "\<forall>p \<in> set due1. apr_Address p \<noteq> []"
    using due_facts(5) [OF ok it(1), of _ h] due by (metis imageE imageI snd_conv)
  from settle_order [OF assms(2,3) fin this] show ?thesis
    unfolding promoteAuthority_eq [where ord = ord, OF Some due act] promoteAuthority_eq [where ord = ord', OF Some due' act]
    by metis
qed (simp add: promoteAuthorityPending_def)

section \<open>Runs\<close>

datatype gov_call = GovTx Tx u64 | GovPromote u64

fun gov_step :: "gov_codec \<Rightarrow> (ParamStore \<Rightarrow> string list) \<Rightarrow> orders \<Rightarrow> GovApplier \<Rightarrow> gov_call \<Rightarrow> GovApplier" where
  "gov_step cd pord ord ga (GovTx tx h) = fst (ApplyGovTx cd ga tx h)"
| "gov_step cd pord ord ga (GovPromote h) = fst (PromotePending pord ord ga h)"

interpretation gov_run: invariant_kept "gov_step cd pord ord" "\<lambda>ga. valid_param_orders pord \<and> valid_orders ord \<and> gov_ok ga"
  for cd pord ord
proof
  show "valid_param_orders pord \<and> valid_orders ord \<and> gov_ok (gov_step cd pord ord ga c)"
    if "valid_param_orders pord \<and> valid_orders ord \<and> gov_ok ga" for ga c
    using that by (cases c) (simp_all add: gov_ok_tx gov_ok_promote)
qed

lemma ApplyGovTx_authorities: "ga_authoritySet (fst (ApplyGovTx cd ga tx h)) = ga_authoritySet ga"
proof (cases rule: ApplyGovTx_cases [of cd ga tx h])
  case param
  then show ?thesis by (cases rule: applyParamSet_cases [of cd ga tx h]) simp_all
next
  case authority
  then show ?thesis by (cases rule: applyAuthoritySet_cases [of cd ga tx h]) (simp_all add: Let_def)
qed simp

lemma promote_authorities:
  "ga_authoritySet (promoteAuthorityPending ord ga h) = (case ga_AuthorityVotes ga of None \<Rightarrow> ga_authoritySet ga
    | Some votes \<Rightarrow> fst (activate_authorities (ga_authoritySet ga) (snd (vote_Promote (ord 0 votes) votes h))))"
  by (simp add: promoteAuthorityPending_def case_prod_unfold split: option.split)

lemma PromotePending_authorities:
  "ga_authoritySet (fst (PromotePending pord ord ga h)) = (case ga_AuthorityVotes ga of None \<Rightarrow> ga_authoritySet ga
    | Some votes \<Rightarrow> fst (activate_authorities (ga_authoritySet ga) (snd (vote_Promote (ord 0 votes) votes h))))"
  by (simp add: PromotePending_def case_prod_unfold promote_authorities split: option.split)

interpretation gov_members: invariant_kept "gov_step cd pord ord"
  "\<lambda>ga. finite (ga_authoritySet ga) \<and> ga_authoritySet ga \<noteq> {}"
  for cd pord ord
proof
  show "finite (ga_authoritySet (gov_step cd pord ord ga c)) \<and> ga_authoritySet (gov_step cd pord ord ga c) \<noteq> {}"
    if "finite (ga_authoritySet ga) \<and> ga_authoritySet ga \<noteq> {}" for ga c
  proof (cases c)
    case (GovTx tx h)
    with that show ?thesis by (simp add: ApplyGovTx_authorities)
  next
    case (GovPromote h)
    with that show ?thesis
      by (simp add: PromotePending_authorities activate_nonempty activate_bounds(1) split: option.split)
  qed
qed

lemma new_authorities:
  "ga_authoritySet (NewGovApplier accounts store list) = set list - {[]}"
proof -
  have "foldl (\<lambda>A addr. if addr = [] then A else insert addr A) B list = B \<union> (set list - {[]})" for B
    by (induction list arbitrary: B) auto
  then show ?thesis by (simp add: NewGovApplier_def)
qed

lemma params_ok_seed: "params_ok s \<Longrightarrow> seed_param s n v = Some t \<Longrightarrow> params_ok t"
  by (auto simp: seed_param_def intro: params_ok_set split: if_splits)

lemma boot_ok:
  assumes "boot_governance accounts (NewInMemoryParamStore, NewInMemoryAuthorityVoteStore) bps fork list = Some ga"
  shows "gov_ok ga" and "ga_authoritySet ga = set list - {[]}"
proof -
  from assms obtain s1 s2 where s1: "(if 0 < bps then seed_param NewInMemoryParamStore ParamRewardBPS (ucast bps)
      else Some NewInMemoryParamStore) = Some s1"
    and s2: "(case fork of None \<Rightarrow> Some s1 | Some h \<Rightarrow> seed_param s1 ParamForkV2TCHeight h) = Some s2"
    and ga: "ga = SetAuthorityVoteStore (NewGovApplier accounts s2 list) (Some NewInMemoryAuthorityVoteStore)"
    unfolding boot_governance_def fst_conv snd_conv by (auto split: option.splits)
  have "params_ok s1" using s1 params_ok_new params_ok_seed [OF params_ok_new] by (auto split: if_splits)
  then have "params_ok s2" using s2 params_ok_seed by (auto split: option.splits)
  then show "gov_ok ga"
    by (simp add: ga gov_ok_def SetAuthorityVoteStore_def new_authorities tally_ok_empty) (simp add: NewGovApplier_def)
  show "ga_authoritySet ga = set list - {[]}" by (simp add: ga SetAuthorityVoteStore_def new_authorities)
qed

section \<open>Snapshots\<close>

lemma foldl_puts:
  assumes "\<And>m x. x \<in> set xs \<Longrightarrow> m (k x) = None \<Longrightarrow> f m x = m(k x \<mapsto> v x)" and "distinct (map k xs)"
    and "\<And>x. x \<in> set xs \<Longrightarrow> m (k x) = None"
  shows "foldl f m xs = (\<lambda>n. case map_of (map (\<lambda>x. (k x, v x)) xs) n of None \<Rightarrow> m n | Some y \<Rightarrow> Some y)"
  using assms
proof (induction xs arbitrary: m)
  case (Cons x xs)
  have step: "f m x = m(k x \<mapsto> v x)" by (rule Cons.prems(1)) (simp_all add: Cons.prems(3))
  have x: "k x \<notin> k ` set xs" using Cons.prems(2) by simp
  have "foldl f (m(k x \<mapsto> v x)) xs =
      (\<lambda>n. case map_of (map (\<lambda>x. (k x, v x)) xs) n of None \<Rightarrow> (m(k x \<mapsto> v x)) n | Some y \<Rightarrow> Some y)"
  proof (rule Cons.IH)
    show "f m' y = m'(k y \<mapsto> v y)" if "y \<in> set xs" "m' (k y) = None" for m' y
      using that by (intro Cons.prems(1)) simp_all
    show "(m(k x \<mapsto> v x)) (k y) = None" if "y \<in> set xs" for y
    proof -
      have "k y \<in> k ` set xs" using that by (rule imageI)
      with x have "k y \<noteq> k x" by metis
      then show ?thesis using that Cons.prems(3) [of y] by simp
    qed
  qed (use Cons.prems(2) in simp)
  moreover have "map_of (map (\<lambda>x. (k x, v x)) xs) (k x) = None"
    using x by (simp add: map_of_eq_None_iff image_image)
  ultimately show ?case by (auto simp: step fun_eq_iff split: option.splits)
qed (simp add: fun_eq_iff)

text \<open>Filing the values of a map one by one under their keys gives the map back.\<close>

lemma map_of_values:
  assumes "\<And>n v. m n = Some v \<Longrightarrow> k v = n" and "distinct (map k vs)" and "set vs = ran m"
  shows "map_of (map (\<lambda>v. (k v, v)) vs) = m"
proof
  fix n
  have d: "distinct (map fst (map (\<lambda>v. (k v, v)) vs))" using assms(2) by (simp add: o_def)
  show "map_of (map (\<lambda>v. (k v, v)) vs) n = m n"
  proof (cases "m n")
    case None
    then have "n \<notin> k ` set vs" using assms(1,3) by (auto simp: ran_def)
    with None show ?thesis by (simp add: map_of_eq_None_iff image_image)
  next
    case (Some v)
    then have "v \<in> set vs" "k v = n" using assms(1,3) by (auto simp: ran_def)
    then have "(n, v) \<in> set (map (\<lambda>v. (k v, v)) vs)" by auto
    with d Some show ?thesis by (simp add: map_of_eq_Some_iff)
  qed
qed

lemma values_of_iteration:
  assumes "iteration m ks" and "\<And>n v. m n = Some v \<Longrightarrow> k v = n"
  shows "distinct (map k (map (\<lambda>n. the (m n)) ks))" and "set (map (\<lambda>n. the (m n)) ks) = ran m"
proof -
  note it = iterationD(1,2) [OF assms(1)]
  have "map (k \<circ> (\<lambda>n. the (m n))) ks = ks" using it(2) assms(2) by (intro map_idI) (auto simp: dom_def)
  then show "distinct (map k (map (\<lambda>n. the (m n)) ks))" using it(1) by simp
  show "set (map (\<lambda>n. the (m n)) ks) = ran m" using it(2) by (force simp: ran_def dom_def)
qed

lemma load_active_run:
  assumes "params_ok store" and "sd_Active doc = ps_active store" and "set ks \<subseteq> dom (ps_active store)"
  shows "foldl (load_active doc) s ks =
    s\<lparr>ps_active := (\<lambda>n. if n \<in> set ks then ps_active store n else ps_active s n)\<rparr>"
  using assms(3)
proof (induction ks arbitrary: s)
  case (Cons k ks)
  from Cons.prems obtain v where v: "ps_active store k = Some v" by auto
  then obtain spec where spec: "param_Lookup k = Some spec"
    using params_okD(1) [OF assms(1), of k] by (cases "param_Lookup k") (simp_all add: entry_ok_def)
  with v params_okD(2) [OF assms(1) spec] have "CheckBounds spec v = None" by simp
  with v spec have step: "load_active doc s k = s\<lparr>ps_active := (ps_active s)(k \<mapsto> v)\<rparr>"
    by (simp add: load_active_def assms(2) SetForTesting_def)
  from Cons show ?case by (simp add: step v fun_eq_iff)
qed simp

definition unsnap :: "snapshotPending \<Rightarrow> ParamChange" where
  "unsnap p =
     \<lparr>pc_Param = sn_Param p, pc_Value = sn_Value p, pc_EffectiveHeight = sn_EffectiveHeight p,
      pc_SubmittedAtHeight = sn_SubmittedAtHeight p, pc_Authority = sn_Authority p, pc_Memo = sn_Memo p\<rparr>"

lemma unsnap_snapshot [simp]: "unsnap (snapshot_pending c) = c" "sn_Param (snapshot_pending c) = pc_Param c"
  by (simp_all add: unsnap_def snapshot_pending_def)

lemma load_pending_unsnap:
  "load_pending store p =
     (case param_Lookup (sn_Param p) of
        None \<Rightarrow> store
      | Some spec \<Rightarrow> if CheckBounds spec (sn_Value p) \<noteq> None then store else if sn_EffectiveHeight p = 0 then store
          else fst (Stage store (unsnap p)))"
  unfolding load_pending_def unsnap_def by (rule refl)

lemma load_pending_valid:
  assumes "params_ok store" and "ps_pending store n = Some c"
  shows "load_pending s (snapshot_pending c) = s\<lparr>ps_pending := (ps_pending s)(pc_Param c \<mapsto> c)\<rparr>"
proof -
  obtain spec where spec: "param_Lookup n = Some spec" "pc_Param c = n" "CheckBounds spec (pc_Value c) = None" "pc_EffectiveHeight c \<noteq> 0"
    using params_okD(3) [OF assms] by blast
  have "sn_Value (snapshot_pending c) = pc_Value c" "sn_EffectiveHeight (snapshot_pending c) = pc_EffectiveHeight c"
    by (simp_all add: snapshot_pending_def)
  with spec show ?thesis unfolding load_pending_unsnap by (simp add: Stage_def)
qed

lemma load_pending_run:
  assumes "params_ok store" and "set cs \<subseteq> ran (ps_pending store)"
  shows "foldl load_pending s (map snapshot_pending cs) =
    s\<lparr>ps_pending := foldl (\<lambda>m c. m(pc_Param c \<mapsto> c)) (ps_pending s) cs\<rparr>"
  using assms(2)
proof (induction cs arbitrary: s)
  case (Cons c cs)
  from Cons.prems obtain n where n: "ps_pending store n = Some c" by (auto simp: ran_def)
  have IH: "foldl load_pending t (map snapshot_pending cs) =
      t\<lparr>ps_pending := foldl (\<lambda>m c. m(pc_Param c \<mapsto> c)) (ps_pending t) cs\<rparr>" for t
    using Cons.prems by (intro Cons.IH) simp
  show ?case unfolding list.map foldl.simps load_pending_valid [OF assms(1) n] IH by (cases s) (simp only: ParamStore.simps)
qed simp

lemma snapshot_pending_inj: "snapshot_pending a = snapshot_pending b \<longleftrightarrow> a = b"
  using unsnap_snapshot(1) by metis

lemma sorted_snapshots:
  obtains cs where "sort_slice snapshot_before (map snapshot_pending xs) = map snapshot_pending cs" "mset cs = mset xs"
proof -
  let ?ys = "sort_slice snapshot_before (map snapshot_pending xs)"
  have "?ys = map snapshot_pending (map unsnap ?ys)"
    by (intro nth_equalityI) (auto simp: unsnap_def snapshot_pending_def)
  moreover have "mset (map unsnap ?ys) = mset xs" 
    unfolding mset_map sort_slice_mset image_mset.compositionality comp_def unsnap_snapshot by simp
  ultimately show ?thesis by (rule that)
qed

lemma load_params_roundtrip:
  assumes "params_ok store" and "iteration (ps_pending store) ks" and "iteration (ps_active store) aks"
    and "doc = snapshot_doc savedAt ks vks store votes"
  shows "foldl load_pending (foldl (load_active doc) NewInMemoryParamStore aks) (sd_Pending doc) = store"
proof -
  have named: "pc_Param c = n" if "ps_pending store n = Some c" for n c using params_okD(3) [OF assms(1) that] by auto
  obtain cs where cs: "sd_Pending doc = map snapshot_pending cs" "mset cs = mset (AllPending ks store)"
    using sorted_snapshots [of "AllPending ks store"] by (auto simp: assms(4) snapshot_doc_def)
  have "mset cs = mset (map (\<lambda>k. the (ps_pending store k)) ks)" using cs(2) by (simp add: AllPending_def)
  with values_of_iteration [of "ps_pending store" ks pc_Param, OF assms(2) named]
  have vals: "distinct (map pc_Param cs)" "set cs = ran (ps_pending store)"
    using mset_eq_imp_distinct_iff mset_map mset_eq_setD by metis+
  have "foldl (\<lambda>m c. m(pc_Param c \<mapsto> c)) Map.empty cs = ps_pending store"
    using foldl_puts [of cs pc_Param "\<lambda>m c. m(pc_Param c \<mapsto> c)" "\<lambda>c. c" Map.empty] vals(1)
      map_of_values [OF named vals] by (simp add: fun_eq_iff split: option.split)
  moreover have "ps_active store n = (if n \<in> set aks then ps_active store n else ps_active NewInMemoryParamStore n)" for n
  proof (cases "n \<in> set aks")
    case False
    then have "ps_active store n = None" using iterationD(2) [OF assms(3)] by auto
    moreover from this have "param_Lookup n = None" using params_okD(2) [OF assms(1), of n] by (cases "param_Lookup n") auto
    ultimately show ?thesis using False by (simp add: new_store_active)
  qed simp
  moreover have "sd_Active doc = ps_active store" by (simp add: assms(4) snapshot_doc_def AllActive_def)
  ultimately show ?thesis
    using load_pending_run [OF assms(1), of cs] load_active_run [OF assms(1), of doc aks] vals(2) iterationD(2) [OF assms(3)]
    by (simp add: cs(1))
qed

lemma vote_before_asym: "vote_before a b \<Longrightarrow> \<not> vote_before b a"
  unfolding vote_before_key by (rule less_not_sym)

lemma sortVoters_sorted_id: "sorted_wrt vote_before vs \<Longrightarrow> sortVoters vs = vs"
proof (induction vs)
  case (Cons v vs)
  then have vs: "foldr (insert_by vote_before) vs [] = vs" by (simp add: sortVoters_def sort_slice_def)
  have "insert_by vote_before v vs = v # vs"
    using Cons.prems vote_before_asym by (cases vs) auto
  then show ?case by (simp add: sortVoters_def sort_slice_def vs)
qed (simp add: sortVoters_def sort_slice_def)

definition snap_vote :: "AuthorityVote \<Rightarrow> snapshotAuthVote" where
  "snap_vote v = \<lparr>sv_Voter = av_Voter v, sv_SubmittedAtHeight = av_SubmittedAtHeight v, sv_Memo = av_Memo v\<rparr>"

lemma load_vote_snap:
  assumes "av_Voter v \<noteq> []"
  shows "load_vote key s (snap_vote v) = fst (RecordVote s key v 1073741824)"
proof -
  have "\<lparr>av_Voter = sv_Voter (snap_vote v), av_SubmittedAtHeight = sv_SubmittedAtHeight (snap_vote v),
      av_Memo = sv_Memo (snap_vote v)\<rparr> = v" by (simp add: snap_vote_def)
  with assms show ?thesis by (simp add: load_vote_def) (simp add: snap_vote_def)
qed

lemma load_vote_next:
  assumes "filed s key = (open_proposal key)\<lparr>apr_Voters := xs\<rparr>" and "distinct (map av_Voter (xs @ [v]))"
    and "sorted_wrt vote_before (xs @ [v])" and "av_Voter v \<noteq> []" and "length (xs @ [v]) \<le> 536870912"
  shows "load_vote key s (snap_vote v) = s(key \<mapsto> (open_proposal key)\<lparr>apr_Voters := xs @ [v]\<rparr>)"
proof -
  have new: "av_Voter v \<notin> av_Voter ` set (apr_Voters (filed s key))" using assms(1,2) by auto
  have thr: "int (length (xs @ [v])) < AuthorityThreshold 1073741824"
    using assms(5) by (simp add: AuthorityThreshold_def)
  have "voted s key v 1073741824 = (open_proposal key)\<lparr>apr_Voters := xs @ [v]\<rparr>"
    unfolding voted_def assms(1) using thr sortVoters_sorted_id [OF assms(3)] by (simp add: crossed_at_def)
  then show ?thesis unfolding load_vote_snap [OF assms(4)]
    by (cases rule: RecordVote_cases [of v s key 1073741824]) (use assms(4) new in simp_all)
qed

lemma load_votes:
  assumes "s key = None" and "distinct (map av_Voter vs)" and "sorted_wrt vote_before vs"
    and "[] \<notin> av_Voter ` set vs" and "length vs \<le> 536870912" and "vs \<noteq> []"
  shows "foldl (load_vote key) s (map snap_vote vs) = s(key \<mapsto> (open_proposal key)\<lparr>apr_Voters := vs\<rparr>)"
  using assms(2-)
proof (induction vs rule: rev_induct)
  case (snoc v vs)
  let ?t = "foldl (load_vote key) s (map snap_vote vs)"
  have "?t = (if vs = [] then s else s(key \<mapsto> (open_proposal key)\<lparr>apr_Voters := vs\<rparr>))"
    using snoc by (auto simp: sorted_wrt_append)
  then have "filed ?t key = (open_proposal key)\<lparr>apr_Voters := vs\<rparr>" and t: "?t(key \<mapsto> x) = s(key \<mapsto> x)" for x
    using assms(1) by (simp_all add: filed_def open_proposal_def)
  with snoc.prems have "load_vote key ?t (snap_vote v) = ?t(key \<mapsto> (open_proposal key)\<lparr>apr_Voters := vs @ [v]\<rparr>)"
    by (intro load_vote_next) auto
  then show ?case by (simp only: map_append list.map foldl_append foldl.simps t)
qed simp

lemma load_proposal_snap:
  assumes "proposal_ok A key p" and "s (prop_key p) = None" and "length (apr_Voters p) \<le> 536870912"
  shows "load_proposal s (snapshot_proposal p) = s(prop_key p \<mapsto> p)"
proof -
  note ok = assms(1) [unfolded proposal_ok_def]
  let ?q = "(open_proposal (prop_key p))\<lparr>apr_Voters := apr_Voters p\<rparr>"
  have votes: "foldl (load_vote (prop_key p)) s (map snap_vote (apr_Voters p)) = s(prop_key p \<mapsto> ?q)"
    using ok assms(2,3) by (intro load_votes) auto
  have zero: "\<not> apr_Crossed p \<longrightarrow> apr_CrossedAtHeight p = 0" using ok by simp
  have q: "apr_Crossed p \<Longrightarrow> ?q\<lparr>apr_Crossed := True, apr_CrossedAtHeight := apr_CrossedAtHeight p\<rparr> = p"
      "\<not> apr_Crossed p \<Longrightarrow> ?q = p"
    using zero by (cases p; simp add: open_proposal_def prop_key_def)+
  have fields: "sap_EffectiveHeight (snapshot_proposal p) = apr_EffectiveHeight p" "sap_Address (snapshot_proposal p) = apr_Address p"
      "sap_Op (snapshot_proposal p) = apr_Op p" "sap_Voters (snapshot_proposal p) = map snap_vote (apr_Voters p)"
      "sap_Crossed (snapshot_proposal p) = apr_Crossed p" "sap_CrossedAtHeight (snapshot_proposal p) = apr_CrossedAtHeight p"
    by (simp_all add: snapshot_proposal_def snap_vote_def)
  show ?thesis unfolding load_proposal_def fields prop_key_def [symmetric] Let_def votes
    using ok q by (auto simp: markCrossedForTesting_def)
qed

lemma load_tally_roundtrip:
  assumes "tally_ok A votes" and "iteration votes vks"
    and "\<And>k p. votes k = Some p \<Longrightarrow> length (apr_Voters p) \<le> 536870912"
  shows "foldl load_proposal NewInMemoryAuthorityVoteStore (map snapshot_proposal (AllProposals vks votes)) = votes"
proof -
  let ?ps = "AllProposals vks votes"
  have named: "prop_key p = k" if "votes k = Some p" for k p
    using tally_okD(1) [OF assms(1) that] by (simp add: proposal_ok_def)
  have "mset ?ps = mset (map (\<lambda>k. the (votes k)) vks)" by (simp add: AllProposals_def sortProposals_def)
  with values_of_iteration [of votes vks prop_key, OF assms(2) named]
  have vals: "distinct (map prop_key ?ps)" "set ?ps = ran votes"
    using mset_eq_imp_distinct_iff mset_map mset_eq_setD by metis+
  have "foldl (\<lambda>s p. load_proposal s (snapshot_proposal p)) Map.empty ?ps =
      (\<lambda>n. case map_of (map (\<lambda>p. (prop_key p, p)) ?ps) n of None \<Rightarrow> None | Some y \<Rightarrow> Some y)"
  proof (rule foldl_puts [OF _ vals(1)])
    fix s :: vote_store and p assume p: "p \<in> set ?ps" and s: "s (prop_key p) = None"
    then obtain k where "votes k = Some p" using vals(2) by (auto simp: ran_def)
    with s show "load_proposal s (snapshot_proposal p) = s(prop_key p \<mapsto> p)"
      using tally_okD(1) [OF assms(1)] assms(3) by (intro load_proposal_snap)
  qed simp
  also have "\<dots> = votes" using map_of_values [of votes prop_key ?ps, OF named vals] by (simp add: fun_eq_iff split: option.split)
  finally show ?thesis by (simp add: NewInMemoryAuthorityVoteStore_def foldl_map)
qed

lemma load_saved:
  assumes "params_ok store" and "tally_ok A votes" and "iteration (ps_pending store) ks" and "iteration votes vks"
    and "iteration (ps_active store) aks" and "\<And>k p. votes k = Some p \<Longrightarrow> length (apr_Voters p) \<le> 536870912"
  shows "load_doc aks (snapshot_doc savedAt ks vks store (Some votes)) = Some (store, votes)"
  using load_params_roundtrip [OF assms(1,3,5) refl, of savedAt vks "Some votes"] load_tally_roundtrip [OF assms(2,4,6)]
  by (simp add: load_doc_def) (simp add: snapshot_doc_def SnapshotVersion_def snapshotMinSupportedVersion_def)

section \<open>Crossing by a vote\<close>

lemma threshold_majority: "0 < n \<Longrightarrow> AuthorityThreshold n \<le> int k \<Longrightarrow> n < 2 * int k"
  by (auto simp: AuthorityThreshold_def split: if_splits)

lemma crossed_vote_majority:
  assumes "tally_ok A s" and "finite A" and "[] \<notin> A" and "av_Voter vote \<in> A"
    and "vk_Op key = AuthorityOpAdd \<or> vk_Op key = AuthorityOpRemove" "vk_Address key \<noteq> []" "vk_EffectiveHeight key \<noteq> 0"
    and "fst (RecordVote s key vote (int (card A))) k = Some p" and "apr_Crossed p" and "\<forall>q. s k = Some q \<longrightarrow> \<not> apr_Crossed q"
  shows "av_Voter vote \<in> av_Voter ` set (apr_Voters p) \<and> distinct (map av_Voter (apr_Voters p)) \<and>
    av_Voter ` set (apr_Voters p) \<subseteq> A \<and> card A < 2 * length (apr_Voters p)"
proof -
  have pos: "0 < int (card A)" using assms(2,4) card_gt_0_iff by fastforce
  have changed: "fst (RecordVote s key vote (int (card A))) k \<noteq> s k" using assms(8-10) by auto
  show ?thesis
  proof (cases rule: RecordVote_cases [of vote s key "int (card A)"])
    case recorded
    let ?q = "(filed s key)\<lparr>apr_Voters := sortVoters (apr_Voters (filed s key) @ [vote])\<rparr>"
    from changed have k: "k = key" unfolding recorded(3) [OF pos] by (auto split: if_splits)
    have p: "p = voted s key vote (int (card A))" using assms(8) unfolding recorded(3) [OF pos] k by simp
    have ok: "proposal_ok A key p" unfolding p by (rule voted_ok [OF assms(1,4,3) recorded(2) assms(5-7)])
    have old: "\<not> apr_Crossed (filed s key)" "av_Voter ` set (apr_Voters (filed s key)) \<subseteq> A"
      using assms(10) tally_okD(1) [OF assms(1), of key] unfolding k
      by (cases "s key"; simp add: filed_def open_proposal_def proposal_ok_def)+
    have voters: "apr_Voters p = apr_Voters ?q" by (simp add: p voted_def crossed_at_def)
    have "\<not> int (length (apr_Voters ?q)) < AuthorityThreshold (int (card A))"
      using assms(9) old(1) unfolding p voted_def crossed_at_def by (auto split: if_splits)
    then have "int (card A) < 2 * int (length (apr_Voters ?q))" by (intro threshold_majority [OF pos]) simp
    with ok old(2) assms(4) show ?thesis unfolding voters proposal_ok_def by auto
  qed (use changed in simp_all)
qed

lemma PromotePending_order:
  assumes "gov_ok ga" and "valid_param_orders pord" and "valid_orders ord" and "valid_param_orders pord'" and "valid_orders ord'"
  shows "PromotePending pord ord ga h = PromotePending pord' ord' ga h"
proof -
  note ok = gov_okD(1) [OF assms(1)]
  note it = valid_param_ordersD [OF assms(2) ok] valid_param_ordersD [OF assms(4) ok]
  have eq: "param_Promote (pord (ga_Store ga)) (ga_Store ga) h = param_Promote (pord' (ga_Store ga)) (ga_Store ga) h"
    unfolding param_Promote_def param_due_order [OF it] ..
  let ?ga = "ga\<lparr>ga_Store := fst (param_Promote (pord' (ga_Store ga)) (ga_Store ga) h)\<rparr>"
  have "gov_ok ?ga" using assms(1) params_ok_promote [OF ok it(2)] by (simp add: gov_ok_def split: option.splits)
  from promote_authority_order [OF this assms(3,5)] show ?thesis
    by (simp add: PromotePending_def case_prod_unfold eq)
qed

lemma promote_authority_store: "ga_Store (promoteAuthorityPending ord ga h) = ga_Store ga"
  by (simp add: promoteAuthorityPending_def case_prod_unfold split: option.split)

section \<open>A concrete applier\<close>

definition key_orders :: orders where
  "key_orders i m = sorted_list_of_set (dom m)"

definition name_orders :: "ParamStore \<Rightarrow> string list" where
  "name_orders s = sorted_list_of_set (dom (ps_pending s))"

lemma key_orders_valid: "valid_orders key_orders" "valid_param_orders name_orders"
  by (simp_all add: valid_orders_def valid_param_orders_def iteration_def key_orders_def name_orders_def)

definition demo_gov_codec :: gov_codec where
  "demo_gov_codec =
     \<lparr>gc_kind = (\<lambda>s. Some (if s = ''p'' then PayloadKindParamSet else PayloadKindAuthoritySet)),
      gc_param_set = (\<lambda>s. Some (\<lparr>pp_Kind = PayloadKindParamSet, pp_Param = ParamRewardBPS, pp_Value = 250,
        pp_EffectiveHeight = 12, pp_Memo = []\<rparr>, False)),
      gc_authority_set = (\<lambda>s. Some (\<lparr>ap_Kind = PayloadKindAuthoritySet, ap_Op = AuthorityOpAdd, ap_Address = ''b'',
        ap_EffectiveHeight = 12, ap_Memo = []\<rparr>, False)),
      gc_encode_param_set = (\<lambda>p. None), gc_encode_authority_set = (\<lambda>p. None)\<rparr>"

definition demo_param_tx :: Tx where
  "demo_param_tx = demo_tx\<lparr>tx_ContractID := GovContractID, tx_Payload := ''p''\<rparr>"

definition demo_vote_tx :: Tx where
  "demo_vote_tx = demo_tx\<lparr>tx_ContractID := GovContractID, tx_Payload := ''v''\<rparr>"

definition demo_gov :: GovApplier where
  "demo_gov = SetAuthorityVoteStore (NewGovApplier demo_store NewInMemoryParamStore [''a'']) (Some NewInMemoryAuthorityVoteStore)"

lemma demo_boot: "boot_governance demo_store (NewInMemoryParamStore, NewInMemoryAuthorityVoteStore) 0 None [''a''] = Some demo_gov"
  by (simp add: boot_governance_def demo_gov_def)

lemma demo_gov_simps:
  "ga_authoritySet demo_gov = {''a''}" "ga_Accounts demo_gov = demo_store" "ga_AuthorityVotes demo_gov = Some NewInMemoryAuthorityVoteStore"
  "ga_Store demo_gov = NewInMemoryParamStore"
  by (simp_all add: demo_gov_def SetAuthorityVoteStore_def NewGovApplier_def)

lemma demo_gov_fee:
  "\<exists>s. debit_gov_fee demo_store demo_param_tx = (s, None) \<and> debit_gov_fee demo_store demo_vote_tx = (s, None)"
  by (simp add: debit_gov_fee_def demo_param_tx_def demo_vote_tx_def demo_tx_def DebitAndBumpNonce_def ChargeAndBumpNonce_def
      demo_store_def NewAccountStore_def zero_float64_def less_eq_float64_def)

lemma demo_window: "height_window 12 10 = None"
  by (simp add: height_window_def MaxActivationDelay_def)

lemma demo_param_ok: "snd (ApplyGovTx demo_gov_codec demo_gov demo_param_tx 10) = None"
proof -
  obtain s where fee: "debit_gov_fee demo_store demo_param_tx = (s, None)" using demo_gov_fee by blast
  have tx: "tx_Sender demo_param_tx = ''a''" "tx_ContractID demo_param_tx = GovContractID" "tx_Payload demo_param_tx = ''p''"
    by (simp_all add: demo_param_tx_def demo_tx_def)
  have "ApplyGovTx demo_gov_codec demo_gov demo_param_tx 10 = applyParamSet demo_gov_codec demo_gov demo_param_tx 10"
    by (simp add: ApplyGovTx_def gov_PeekKind_def demo_gov_codec_def tx)
  moreover have "ParseParamSet demo_gov_codec ''p'' = Inr \<lparr>pp_Kind = PayloadKindParamSet, pp_Param = ParamRewardBPS, pp_Value = 250,
        pp_EffectiveHeight = 12, pp_Memo = []\<rparr>"
    by (simp add: ParseParamSet_def demo_gov_codec_def)
  ultimately show ?thesis
    by (simp add: applyParamSet_def tx fee ValidateParamSetFields_def
        demo_gov_simps authorityCount_def IsAuthority_def demo_window Stage_def param_change_def param_Lookup_def registry_def
        CheckBounds_def ParamRewardBPS_def)
qed

lemma demo_vote_ok:
  "snd (ApplyGovTx demo_gov_codec demo_gov demo_vote_tx 10) = None"
  "ga_AuthorityVotes (fst (ApplyGovTx demo_gov_codec demo_gov demo_vote_tx 10)) =
     Some [VoteKey AuthorityOpAdd ''b'' 12 \<mapsto>
       \<lparr>apr_Op = AuthorityOpAdd, apr_Address = ''b'', apr_EffectiveHeight = 12,
        apr_Voters = [\<lparr>av_Voter = ''a'', av_SubmittedAtHeight = 10, av_Memo = []\<rparr>], apr_Crossed = True, apr_CrossedAtHeight = 10\<rparr>]"
proof -
  obtain s where fee: "debit_gov_fee demo_store demo_vote_tx = (s, None)" using demo_gov_fee by blast
  have tx: "tx_Sender demo_vote_tx = ''a''" "tx_ContractID demo_vote_tx = GovContractID" "tx_Payload demo_vote_tx = ''v''"
    by (simp_all add: demo_vote_tx_def demo_tx_def)
  have "ApplyGovTx demo_gov_codec demo_gov demo_vote_tx 10 = applyAuthoritySet demo_gov_codec demo_gov demo_vote_tx 10"
    by (simp add: ApplyGovTx_def gov_PeekKind_def demo_gov_codec_def tx)
  moreover have "RecordVote NewInMemoryAuthorityVoteStore (VoteKey AuthorityOpAdd ''b'' 12)
      \<lparr>av_Voter = ''a'', av_SubmittedAtHeight = 10, av_Memo = []\<rparr> 1 =
      ([VoteKey AuthorityOpAdd ''b'' 12 \<mapsto>
         \<lparr>apr_Op = AuthorityOpAdd, apr_Address = ''b'', apr_EffectiveHeight = 12,
          apr_Voters = [\<lparr>av_Voter = ''a'', av_SubmittedAtHeight = 10, av_Memo = []\<rparr>], apr_Crossed = True, apr_CrossedAtHeight = 10\<rparr>],
       Inr (\<lparr>apr_Op = AuthorityOpAdd, apr_Address = ''b'', apr_EffectiveHeight = 12,
          apr_Voters = [\<lparr>av_Voter = ''a'', av_SubmittedAtHeight = 10, av_Memo = []\<rparr>], apr_Crossed = True, apr_CrossedAtHeight = 10\<rparr>, True))"
    by (simp add: RecordVote_def NewInMemoryAuthorityVoteStore_def open_proposal_def AuthorityThreshold_def Let_def
        sortVoters_def sort_slice_def)
  moreover have "ParseAuthoritySet demo_gov_codec ''v'' = Inr \<lparr>ap_Kind = PayloadKindAuthoritySet, ap_Op = AuthorityOpAdd,
      ap_Address = ''b'', ap_EffectiveHeight = 12, ap_Memo = []\<rparr>"
    by (simp add: ParseAuthoritySet_def demo_gov_codec_def)
  ultimately show "snd (ApplyGovTx demo_gov_codec demo_gov demo_vote_tx 10) = None"
    "ga_AuthorityVotes (fst (ApplyGovTx demo_gov_codec demo_gov demo_vote_tx 10)) =
     Some [VoteKey AuthorityOpAdd ''b'' 12 \<mapsto>
       \<lparr>apr_Op = AuthorityOpAdd, apr_Address = ''b'', apr_EffectiveHeight = 12,
        apr_Voters = [\<lparr>av_Voter = ''a'', av_SubmittedAtHeight = 10, av_Memo = []\<rparr>], apr_Crossed = True, apr_CrossedAtHeight = 10\<rparr>]"
    by (simp_all add: applyAuthoritySet_def tx fee ValidateAuthoritySetFields_def MaxAuthorityAddressLen_def
        GovMaxMemoLen_def demo_gov_simps authorityCount_def IsAuthority_def membership_check_def demo_window vote_key_def
        authority_vote_def)
qed

section \<open>Properties\<close>

text \<open>
  C30. After boot with fresh stores, whatever governance transactions are applied and whenever pending
  changes are promoted, every registered parameter has an active value within its registered bounds.\<close>

theorem governed_parameters_bounded:
  assumes "valid_param_orders pord" and "valid_orders ord"
    and "boot_governance accounts (NewInMemoryParamStore, NewInMemoryAuthorityVoteStore) bps fork authorities = Some ga"
    and "param_Lookup name = Some spec"
  shows "\<exists>v. ActiveValue (ga_Store (foldl (gov_step cd pord ord) ga calls)) name = Some v \<and>
    spec_MinValue spec \<le> v \<and> v \<le> spec_MaxValue spec"
proof -
  have "gov_ok (foldl (gov_step cd pord ord) ga calls)"
    using gov_run.run_inv [of pord ord ga cd calls] assms(1,2) boot_ok(1) [OF assms(3)] by blast
  from params_okD(2) [OF gov_okD(1) [OF this] assms(4)] show ?thesis
    by (auto simp: ActiveValue_def assms(4) CheckBounds_def not_less split: if_splits)
qed

theorem governed_parameters_bounded_witness:
  "\<exists>v. ActiveValue (ga_Store (foldl (gov_step demo_gov_codec name_orders key_orders) demo_gov
     [GovTx demo_param_tx 10, GovPromote 12])) ParamRewardBPS = Some v \<and> v \<le> 5000"
proof -
  have "param_Lookup ParamRewardBPS = Some \<lparr>spec_Name = ParamRewardBPS, spec_MinValue = 0, spec_MaxValue = 5000, spec_DefaultValue = 0\<rparr>"
    by (simp add: param_Lookup_def registry_def)
  from governed_parameters_bounded
    [OF key_orders_valid(2,1) demo_boot this, of demo_gov_codec "[GovTx demo_param_tx 10, GovPromote 12]"]
  show ?thesis by auto
qed

text \<open>
  C31. An authority proposal crosses the threshold by a vote only when its voters are different current
  authorities and more than half of them. The voter of the transaction is one of them.\<close>

theorem authority_vote_needs_majority:
  assumes "valid_param_orders pord" and "valid_orders ord"
    and "boot_governance accounts (NewInMemoryParamStore, NewInMemoryAuthorityVoteStore) bps fork authorities = Some ga0"
    and "ga = foldl (gov_step cd pord ord) ga0 calls" and "ApplyGovTx cd ga tx h = (ga', None)"
    and "ga_AuthorityVotes ga = Some votes" and "ga_AuthorityVotes ga' = Some votes'"
    and "votes' k = Some p" and "apr_Crossed p" and "\<forall>q. votes k = Some q \<longrightarrow> \<not> apr_Crossed q"
  shows "tx_Sender tx \<in> av_Voter ` set (apr_Voters p) \<and> distinct (map av_Voter (apr_Voters p)) \<and>
    av_Voter ` set (apr_Voters p) \<subseteq> ga_authoritySet ga \<and> card (ga_authoritySet ga) < 2 * length (apr_Voters p)"
proof -
  have ok: "gov_ok ga"
    using gov_run.run_inv [of pord ord ga0 cd calls] assms(1,2,4) boot_ok(1) [OF assms(3)] by blast
  have changed: "votes' k \<noteq> votes k" using assms(8-10) by auto
  show ?thesis
  proof (cases rule: ApplyGovTx_cases [of cd ga tx h])
    case param
    then show ?thesis using assms(5-7) changed by (cases rule: applyParamSet_cases [of cd ga tx h]) auto
  next
    case authority
    show ?thesis
    proof (cases rule: applyAuthoritySet_cases [of cd ga tx h])
      case (cast q acc1 votes0)
      from cast(5) assms(6) have v: "votes0 = votes" by simp
      let ?vote = "authority_vote tx h q"
      have voter: "av_Voter ?vote = tx_Sender tx" by (simp add: authority_vote_def)
      have member: "av_Voter ?vote \<in> ga_authoritySet ga" using cast(3) by (simp add: voter gov_admitted_def)
      have "votes' = fst (RecordVote votes (vote_key q) ?vote (authorityCount ga))"
        using assms(5,7) authority cast(7) v by (auto simp: Let_def)
      then have r: "fst (RecordVote votes (vote_key q) ?vote (int (card (ga_authoritySet ga)))) k = Some p"
        using assms(8) by (simp add: authorityCount_def)
      from crossed_vote_majority [OF gov_okD(4) [OF ok assms(6)] gov_okD(2) [OF ok] gov_okD(3) [OF ok] member
          valid_authority_payload [OF cast(2)] r assms(9,10)]
      show ?thesis by (simp add: voter)
    qed (use assms(5) authority in simp)
  qed (use assms(5) in simp)
qed

theorem authority_vote_needs_majority_witness:
  "\<exists>votes. ga_AuthorityVotes (fst (ApplyGovTx demo_gov_codec demo_gov demo_vote_tx 10)) = Some votes \<and>
     (\<exists>p. votes (VoteKey AuthorityOpAdd ''b'' 12) = Some p \<and> apr_Crossed p \<and>
        card (ga_authoritySet demo_gov) < 2 * length (apr_Voters p))"
proof -
  let ?r = "ApplyGovTx demo_gov_codec demo_gov demo_vote_tx 10"
  have r: "?r = (fst ?r, None)" using demo_vote_ok(1) by (metis prod.collapse)
  have start: "demo_gov = foldl (gov_step demo_gov_codec name_orders key_orders) demo_gov []" by simp
  note maj = authority_vote_needs_majority
    [OF key_orders_valid(2,1) demo_boot start r demo_gov_simps(3) demo_vote_ok(2), of "VoteKey AuthorityOpAdd ''b'' 12"]
  show ?thesis unfolding demo_vote_ok(2) using maj by (simp add: NewInMemoryAuthorityVoteStore_def)
qed

text \<open>
  Promotion changes the list of authorities only by proposals that have crossed the threshold and
  whose height is reached: an address joins by such an addition, leaves by such a removal. The list never
  becomes empty, however many removals are due.\<close>

theorem authority_list_changes:
  assumes "valid_param_orders pord" and "valid_orders ord"
    and "boot_governance accounts (NewInMemoryParamStore, NewInMemoryAuthorityVoteStore) bps fork authorities = Some ga0"
    and "ga = foldl (gov_step cd pord ord) ga0 calls" and "ga_AuthorityVotes ga = Some votes"
    and "ga' = fst (PromotePending pord ord ga h)"
  shows "(\<forall>a \<in> ga_authoritySet ga' - ga_authoritySet ga. \<exists>p. votes (VoteKey AuthorityOpAdd a (apr_EffectiveHeight p)) = Some p \<and>
      apr_Crossed p \<and> apr_EffectiveHeight p \<le> h) \<and>
    (\<forall>a \<in> ga_authoritySet ga - ga_authoritySet ga'. \<exists>p. votes (VoteKey AuthorityOpRemove a (apr_EffectiveHeight p)) = Some p \<and>
      apr_Crossed p \<and> apr_EffectiveHeight p \<le> h) \<and>
    (ga_authoritySet ga0 \<noteq> {} \<longrightarrow> ga_authoritySet ga' \<noteq> {})"
proof (intro conjI ballI impI)
  have ok: "gov_ok ga"
    using gov_run.run_inv [of pord ord ga0 cd calls] assms(1,2,4) boot_ok(1) [OF assms(3)] by blast
  note it = valid_ordersD [OF assms(2) gov_okD(4) [OF ok assms(5)], of 0]
  let ?due = "snd (vote_Promote (ord 0 votes) votes h)"
  have A: "ga_authoritySet ga' = fst (activate_authorities (ga_authoritySet ga) ?due)"
    by (simp add: assms(5,6) PromotePending_authorities)
  have due: "votes (VoteKey (apr_Op p) (apr_Address p) (apr_EffectiveHeight p)) = Some p" "apr_Crossed p" "apr_EffectiveHeight p \<le> h"
    if "p \<in> set ?due" for p
    using due_facts(1-3) [OF gov_okD(4) [OF ok assms(5)] it that] by (simp_all add: prop_key_def)
  show "\<exists>p. votes (VoteKey AuthorityOpAdd a (apr_EffectiveHeight p)) = Some p \<and> apr_Crossed p \<and> apr_EffectiveHeight p \<le> h"
    if "a \<in> ga_authoritySet ga' - ga_authoritySet ga" for a
  proof -
    have "\<exists>p \<in> set ?due. apr_Address p = a \<and> apr_Op p = AuthorityOpAdd"
      using that activate_bounds(2) [OF gov_okD(2) [OF ok], of ?due] unfolding A by blast
    then obtain p where "p \<in> set ?due" "apr_Address p = a" "apr_Op p = AuthorityOpAdd" by blast
    with due [of p] show ?thesis by (intro exI [of _ p]) simp
  qed
  show "\<exists>p. votes (VoteKey AuthorityOpRemove a (apr_EffectiveHeight p)) = Some p \<and> apr_Crossed p \<and> apr_EffectiveHeight p \<le> h"
    if "a \<in> ga_authoritySet ga - ga_authoritySet ga'" for a
  proof -
    have "\<exists>p \<in> set ?due. apr_Address p = a \<and> apr_Op p = AuthorityOpRemove"
      using that activate_bounds(3) [OF gov_okD(2) [OF ok], of ?due] unfolding A by blast
    then obtain p where "p \<in> set ?due" "apr_Address p = a" "apr_Op p = AuthorityOpRemove" by blast
    with due [of p] show ?thesis by (intro exI [of _ p]) simp
  qed
  assume "ga_authoritySet ga0 \<noteq> {}"
  then have "finite (ga_authoritySet ga) \<and> ga_authoritySet ga \<noteq> {}"
    unfolding assms(4) using gov_okD(2) [OF boot_ok(1) [OF assms(3)]] by (intro gov_members.run_inv) simp
  then show "ga_authoritySet ga' \<noteq> {}" unfolding A by (simp add: activate_nonempty)
qed

theorem authority_list_changes_witness:
  "let ga = fst (ApplyGovTx demo_gov_codec demo_gov demo_vote_tx 10) in
   ga_authoritySet (fst (PromotePending name_orders key_orders ga 12)) \<noteq> {} \<and>
   (\<forall>a \<in> ga_authoritySet (fst (PromotePending name_orders key_orders ga 12)) - ga_authoritySet ga. a = ''b'')"
proof -
  let ?ga = "fst (ApplyGovTx demo_gov_codec demo_gov demo_vote_tx 10)"
  have run: "?ga = foldl (gov_step demo_gov_codec name_orders key_orders) demo_gov [GovTx demo_vote_tx 10]" by simp
  note c = authority_list_changes [OF key_orders_valid(2,1) demo_boot run demo_vote_ok(2) refl, of 12]
  have "a = ''b''" if "a \<in> ga_authoritySet (fst (PromotePending name_orders key_orders ?ga 12)) - ga_authoritySet ?ga" for a
    using bspec [OF conjunct1 [OF c] that] by (auto split: if_split_asm)
  moreover have "ga_authoritySet (fst (PromotePending name_orders key_orders ?ga 12)) \<noteq> {}"
    using conjunct2 [OF conjunct2 [OF c]] demo_gov_simps(1) by simp
  ultimately show ?thesis unfolding Let_def by blast
qed

text \<open>
  A refused governance transaction leaves accounts, parameters, votes and authorities as they were.
  The one exception is a second vote by the same authority on the same proposal, which costs the fee and
  the nonce and changes nothing else.\<close>

theorem gov_tx_refused:
  assumes "gov_ok ga" and "ApplyGovTx cd ga tx h = (ga', Some e)"
  shows "ga' = ga \<or>
    e = DuplicateVote (tx_Sender tx) \<and>
    (\<exists>accounts1. DebitAndBumpNonce (ga_Accounts ga) (tx_Sender tx) (tx_Fee tx) (tx_Nonce tx) = (accounts1, None) \<and>
       ga' = ga\<lparr>ga_Accounts := accounts1\<rparr>)"
proof (cases rule: ApplyGovTx_cases [of cd ga tx h])
  case param
  then show ?thesis using assms(2) by (cases rule: applyParamSet_cases [of cd ga tx h]) auto
next
  case authority
  show ?thesis
  proof (cases rule: applyAuthoritySet_cases [of cd ga tx h])
    case (cast p acc1 votes)
    let ?vote = "authority_vote tx h p"
    have voter: "av_Voter ?vote = tx_Sender tx" by (simp add: authority_vote_def)
    have sender: "tx_Sender tx \<noteq> []" using cast(3) gov_okD(3) [OF assms(1)] by (auto simp: gov_admitted_def)
    have fee: "DebitAndBumpNonce (ga_Accounts ga) (tx_Sender tx) (tx_Fee tx) (tx_Nonce tx) = (acc1, None)"
      using cast(3) debit_gov_fee_ok(2) by (simp add: gov_admitted_def)
    have res: "(ga', Some e) = (let r = RecordVote votes (vote_key p) ?vote (authorityCount ga)
       in (ga\<lparr>ga_Accounts := acc1, ga_AuthorityVotes := Some (fst r)\<rparr>, case snd r of Inl e \<Rightarrow> Some e | Inr _ \<Rightarrow> None))"
      using assms(2) authority cast(7) by simp
    show ?thesis
    proof (cases rule: RecordVote_cases [of ?vote votes "vote_key p" "authorityCount ga"])
      case duplicate
      have "ga' = ga\<lparr>ga_Accounts := acc1, ga_AuthorityVotes := Some votes\<rparr>" "e = DuplicateVote (tx_Sender tx)"
        using res by (simp_all add: Let_def duplicate(2) voter)
      moreover have "ga\<lparr>ga_Accounts := acc1, ga_AuthorityVotes := Some votes\<rparr> = ga\<lparr>ga_Accounts := acc1\<rparr>"
        using cast(5) by (cases ga) simp
      ultimately show ?thesis using fee by simp
    qed (use res sender voter cast(6) in \<open>simp_all add: Let_def\<close>)
  qed (use assms(2) authority in simp)
qed (use assms(2) in simp)

lemma demo_outsider:
  assumes "ga_authoritySet ga = {''a''}" and "ga_AuthorityVotes ga = Some votes"
  shows "snd (ApplyGovTx demo_gov_codec ga (demo_vote_tx\<lparr>tx_Sender := ''c''\<rparr>) 10) = Some (GovUnauthorized ''c'')"
  using assms
  by (simp add: ApplyGovTx_def gov_PeekKind_def demo_vote_tx_def demo_tx_def demo_gov_codec_def applyAuthoritySet_def
      ParseAuthoritySet_def ValidateAuthoritySetFields_def MaxAuthorityAddressLen_def GovMaxMemoLen_def authorityCount_def
      IsAuthority_def)

theorem gov_tx_refused_witness:
  "let ga = fst (ApplyGovTx demo_gov_codec demo_gov demo_vote_tx 10);
       tx = demo_vote_tx\<lparr>tx_Sender := ''c''\<rparr>
   in gov_ok ga \<and> ApplyGovTx demo_gov_codec ga tx 10 = (ga, Some (GovUnauthorized ''c''))"
proof -
  let ?ga = "fst (ApplyGovTx demo_gov_codec demo_gov demo_vote_tx 10)"
  let ?tx = "demo_vote_tx\<lparr>tx_Sender := ''c''\<rparr>"
  have ok: "gov_ok ?ga" by (rule gov_ok_tx [OF boot_ok(1) [OF demo_boot]])
  have "snd (ApplyGovTx demo_gov_codec ?ga ?tx 10) = Some (GovUnauthorized ''c'')"
    by (rule demo_outsider [OF _ demo_vote_ok(2)]) (simp add: ApplyGovTx_authorities demo_gov_simps)
  then have "ApplyGovTx demo_gov_codec ?ga ?tx 10 =
      (fst (ApplyGovTx demo_gov_codec ?ga ?tx 10), Some (GovUnauthorized ''c''))" by (metis prod.collapse)
  moreover from gov_tx_refused [OF ok this] have "fst (ApplyGovTx demo_gov_codec ?ga ?tx 10) = ?ga" by simp
  ultimately show ?thesis using ok by (simp add: Let_def)
qed

text \<open>
  What governance decides does not depend on the order in which Go ranges over its maps: from boot on,
  any sequence of transactions and promotions ends in the same state for all orders of iteration.\<close>

theorem governance_order_independent:
  assumes "valid_param_orders pord" and "valid_orders ord" and "valid_param_orders pord'" and "valid_orders ord'"
    and "boot_governance accounts (NewInMemoryParamStore, NewInMemoryAuthorityVoteStore) bps fork authorities = Some ga"
  shows "foldl (gov_step cd pord ord) ga calls = foldl (gov_step cd pord' ord') ga calls"
proof (induction calls rule: rev_induct)
  case (snoc c calls)
  let ?ga = "foldl (gov_step cd pord ord) ga calls"
  have ok: "gov_ok ?ga" using gov_run.run_inv [of pord ord ga cd calls] assms(1,2) boot_ok(1) [OF assms(5)] by blast
  have "gov_step cd pord ord ?ga c = gov_step cd pord' ord' ?ga c"
  proof (cases c)
    case (GovPromote h)
    show ?thesis using PromotePending_order [OF ok assms(1-4), of h] by (simp add: GovPromote)
  qed simp
  with snoc show ?case by simp
qed simp

theorem governance_order_independent_witness:
  "foldl (gov_step demo_gov_codec name_orders key_orders) demo_gov [GovTx demo_vote_tx 10, GovPromote 12] =
   foldl (gov_step demo_gov_codec name_orders (\<lambda>i m. rev (key_orders i m))) demo_gov [GovTx demo_vote_tx 10, GovPromote 12]"
proof -
  have "valid_orders (\<lambda>i m. rev (key_orders i m))"
    by (simp add: valid_orders_def iteration_def key_orders_def)
  from governance_order_independent [OF key_orders_valid(2,1) key_orders_valid(2) this demo_boot] show ?thesis .
qed

text \<open>
  A snapshot of the stores, saved after any history, loads back to the same parameters, pending changes
  and proposals. JSON decodes what it encoded, and no proposal has more than 2 to the 29 voters, which the
  loader relies on to keep open proposals open.\<close>

theorem snapshot_restores_governance:
  assumes "valid_param_orders pord" and "valid_orders ord"
    and "boot_governance accounts (NewInMemoryParamStore, NewInMemoryAuthorityVoteStore) bps fork authorities = Some ga0"
    and "ga = foldl (gov_step cd pord ord) ga0 calls" and "ga_AuthorityVotes ga = Some votes"
    and "\<forall>k p. votes k = Some p \<longrightarrow> length (apr_Voters p) \<le> 536870912"
    and "\<forall>doc out. marshal doc = Some out \<longrightarrow> unmarshal out = Some doc"
    and "\<forall>doc. finite (dom (sd_Active doc)) \<longrightarrow> iteration (sd_Active doc) (dord doc)"
    and "doc = snapshot_doc savedAt (pord (ga_Store ga)) (ord 0 votes) (ga_Store ga) (Some votes)"
    and "SaveSnapshotWith marshal can_write doc files path = (files', True)" and "path \<noteq> []"
  shows "LoadOrNewWith unmarshal dord can_write' files' path = Inr (ga_Store ga, votes)"
proof -
  have ok: "gov_ok ga"
    using gov_run.run_inv [of pord ord ga0 cd calls] assms(1,2,4) boot_ok(1) [OF assms(3)] by blast
  obtain out where out: "marshal doc = Some out" "files' path = Content out"
    using assms(10,11) by (auto simp: SaveSnapshotWith_def split: option.splits if_splits)
  have active: "sd_Active doc = ps_active (ga_Store ga)" by (simp add: assms(9) snapshot_doc_def AllActive_def)
  have "finite (dom (ps_active (ga_Store ga)))"
  proof (rule finite_subset [OF _ Lookup_finite])
    have "param_Lookup n \<noteq> None" if "ps_active (ga_Store ga) n = Some y" for n y
      using that params_okD(1) [OF gov_okD(1) [OF ok], of n] by (cases "param_Lookup n") (simp_all add: entry_ok_def)
    then show "dom (ps_active (ga_Store ga)) \<subseteq> {n. param_Lookup n \<noteq> None}" by auto
  qed
  with assms(8) active have it: "iteration (ps_active (ga_Store ga)) (dord doc)" by metis
  have "load_doc (dord doc) doc = Some (ga_Store ga, votes)"
    using load_saved [OF gov_okD(1) [OF ok] gov_okD(4) [OF ok assms(5)] valid_param_ordersD [OF assms(1) gov_okD(1) [OF ok]]
        valid_ordersD [OF assms(2) gov_okD(4) [OF ok assms(5)], of 0] it, of savedAt] assms(6) by (simp add: assms(9))
  with out assms(7,11) show ?thesis by (simp add: LoadOrNewWith_def)
qed

text \<open>A later call supersedes a staged change when it is an accepted change of the same parameter.\<close>

fun stages_param :: "gov_codec \<Rightarrow> string \<Rightarrow> GovApplier \<Rightarrow> gov_call \<Rightarrow> bool" where
  "stages_param cd name ga (GovTx tx h) \<longleftrightarrow> snd (ApplyGovTx cd ga tx h) = None \<and>
     gov_PeekKind cd (tx_Payload tx) = Inr PayloadKindParamSet \<and>
     (case ParseParamSet cd (tx_Payload tx) of Inl e \<Rightarrow> False | Inr q \<Rightarrow> pp_Param q = name)"
| "stages_param cd name ga (GovPromote h) \<longleftrightarrow> False"

primrec unsuperseded ::
  "gov_codec \<Rightarrow> (ParamStore \<Rightarrow> string list) \<Rightarrow> orders \<Rightarrow> string \<Rightarrow> GovApplier \<Rightarrow> gov_call list \<Rightarrow> bool" where
  "unsuperseded cd pord ord name ga [] \<longleftrightarrow> True"
| "unsuperseded cd pord ord name ga (c # cs) \<longleftrightarrow>
     \<not> stages_param cd name ga c \<and> unsuperseded cd pord ord name (gov_step cd pord ord ga c) cs"

lemma other_tx_keeps_param:
  assumes "\<not> stages_param cd name ga (GovTx tx h)"
  shows "ps_pending (ga_Store (fst (ApplyGovTx cd ga tx h))) name = ps_pending (ga_Store ga) name"
    and "ps_active (ga_Store (fst (ApplyGovTx cd ga tx h))) name = ps_active (ga_Store ga) name"
proof -
  have "ps_pending (ga_Store (fst (ApplyGovTx cd ga tx h))) name = ps_pending (ga_Store ga) name \<and>
      ps_active (ga_Store (fst (ApplyGovTx cd ga tx h))) name = ps_active (ga_Store ga) name"
  proof (cases rule: ApplyGovTx_cases [of cd ga tx h])
    case param
    with assms show ?thesis by (cases rule: applyParamSet_cases [of cd ga tx h]) auto
  next
    case authority
    then show ?thesis by (cases rule: applyAuthoritySet_cases [of cd ga tx h]) (simp_all add: Let_def)
  qed simp
  then show "ps_pending (ga_Store (fst (ApplyGovTx cd ga tx h))) name = ps_pending (ga_Store ga) name"
    and "ps_active (ga_Store (fst (ApplyGovTx cd ga tx h))) name = ps_active (ga_Store ga) name" by simp_all
qed

lemma promotion_of_param:
  assumes "gov_ok ga" and "valid_param_orders pord"
  shows "ga_Store (fst (PromotePending pord ord ga h)) = fst (param_Promote (pord (ga_Store ga)) (ga_Store ga) h)"
    and "iteration (ps_pending (ga_Store ga)) (pord (ga_Store ga))"
  by (simp add: PromotePending_def case_prod_unfold promote_authority_store)
    (rule valid_param_ordersD [OF assms(2) gov_okD(1) [OF assms(1)]])

lemma pending_param_run:
  assumes "gov_ok ga" and "valid_param_orders pord" and "valid_orders ord" and "unsuperseded cd pord ord name ga cs"
  shows "ps_active (ga_Store (foldl (gov_step cd pord ord) ga cs)) name =
    (case ps_pending (ga_Store ga) name of
       None \<Rightarrow> ps_active (ga_Store ga) name
     | Some c \<Rightarrow> if \<exists>h. GovPromote h \<in> set cs \<and> pc_EffectiveHeight c \<le> h then Some (pc_Value c)
                 else ps_active (ga_Store ga) name)"
  using assms(1,4)
proof (induction cs arbitrary: ga)
  case (Cons c cs)
  have ok: "gov_ok (gov_step cd pord ord ga c)"
    using gov_run.inv_step [of pord ord ga cd c] Cons.prems(1) assms(2,3) by simp
  note ih = Cons.IH [OF ok] Cons.prems(2)
  show ?case
  proof (cases c)
    case (GovTx tx h)
    have other: "\<not> stages_param cd name ga (GovTx tx h)" using Cons.prems(2) GovTx by simp
    have "gov_step cd pord ord ga c = fst (ApplyGovTx cd ga tx h)" by (simp add: GovTx)
    with ih GovTx other_tx_keeps_param [OF other] show ?thesis by (auto split: option.split)
  next
    case (GovPromote h)
    note promote = promotion_of_param [OF Cons.prems(1) assms(2)]
    from ih GovPromote show ?thesis
      by (auto simp: promote(1) [of ord h] param_Promote_effect [OF promote(2)] split: option.split)
  qed
qed (simp split: option.split)

text \<open>
  C32. A parameter change accepted at height \<open>h\<close> was sent by an authority, lies in the window of heights and
  takes the place of an earlier pending change of the same parameter, and changes no active value. Then, in every sequence of
  governance transactions and promotions that accepts no other change of this parameter, the active value
  stays the old one until the first promotion that reaches the effective height, and is the proposed value from then on:
  promotions below the height, however many, keep the change pending.\<close>

theorem staged_change_takes_effect:
  assumes "gov_ok ga" and "valid_param_orders pord" and "valid_orders ord"
    and "gov_PeekKind cd (tx_Payload tx) = Inr PayloadKindParamSet" and "ParseParamSet cd (tx_Payload tx) = Inr p"
    and "ApplyGovTx cd ga tx h = (ga', None)" and "unsuperseded cd pord ord (pp_Param p) ga' cs"
  shows "tx_Sender tx \<in> ga_authoritySet ga \<and> height_window (pp_EffectiveHeight p) h = None \<and>
    nonce_of (ga_Accounts ga) (tx_Sender tx) = tx_Nonce tx \<and>
    nonce_of (ga_Accounts ga') (tx_Sender tx) = tx_Nonce tx + 1 \<and>
    ps_active (ga_Store ga') = ps_active (ga_Store ga) \<and>
    ActiveValue (ga_Store (foldl (gov_step cd pord ord) ga' cs)) (pp_Param p) =
      (if \<exists>h'. GovPromote h' \<in> set cs \<and> pp_EffectiveHeight p \<le> h' then Some (pp_Value p)
       else ActiveValue (ga_Store ga) (pp_Param p))"
proof -
  have "tx_ContractID tx = GovContractID" using assms(6) by (auto simp: ApplyGovTx_def split: if_splits)
  then have eq: "ApplyGovTx cd ga tx h = applyParamSet cd ga tx h" using assms(4) by (simp add: ApplyGovTx_def)
  show ?thesis
  proof (cases rule: applyParamSet_cases [of cd ga tx h])
    case (staged q acc1)
    from staged(1) assms(5) have q: "q = p" by simp
    have ga': "ga' = ga\<lparr>ga_Accounts := acc1, ga_Store := (ga_Store ga)\<lparr>ps_pending :=
        (ps_pending (ga_Store ga))(pp_Param p \<mapsto> param_change tx h p)\<rparr>\<rparr>"
      using staged(4) eq assms(6) by (simp add: q)
    have ok': "gov_ok ga'" using gov_ok_tx [OF assms(1), of cd tx h] assms(6) by simp
    obtain spec where reg: "param_Lookup (pp_Param p) = Some spec" using valid_param_payload [OF staged(2)] q by blast
    have fee: "debit_gov_fee (ga_Accounts ga) tx = (acc1, None)" using staged(3) by (simp add: gov_admitted_def)
    have change: "pc_Value (param_change tx h p) = pp_Value p" "pc_EffectiveHeight (param_change tx h p) = pp_EffectiveHeight p"
      by (simp_all add: param_change_def)
    have store: "ps_pending (ga_Store ga') (pp_Param p) = Some (param_change tx h p)" "ps_active (ga_Store ga') = ps_active (ga_Store ga)"
      by (simp_all add: ga')
    have "ActiveValue (ga_Store (foldl (gov_step cd pord ord) ga' cs)) (pp_Param p) =
        (if \<exists>h'. GovPromote h' \<in> set cs \<and> pp_EffectiveHeight p \<le> h' then Some (pp_Value p)
         else ActiveValue (ga_Store ga) (pp_Param p))"
      unfolding ActiveValue_def pending_param_run [OF ok' assms(2,3,7)] by (simp add: store reg change) blast
    then show ?thesis
      using staged(3) debit_gov_fee_ok(3,4) [OF fee] by (simp add: q gov_admitted_def ga')
  qed (use eq assms(6) in simp)
qed

text \<open>The change of the demonstration payload, effective at 12, under promotions at 10 and 11 and a vote, and then at 12.\<close>

theorem staged_change_takes_effect_witness:
  "let ga = fst (ApplyGovTx demo_gov_codec demo_gov demo_param_tx 10);
       run = foldl (gov_step demo_gov_codec name_orders key_orders) ga in
   ActiveValue (ga_Store ga) ParamRewardBPS = Some 0 \<and>
   ActiveValue (ga_Store (run [GovPromote 10, GovTx demo_vote_tx 10, GovPromote 11])) ParamRewardBPS = Some 0 \<and>
   ActiveValue (ga_Store (run [GovPromote 10, GovTx demo_vote_tx 10, GovPromote 11, GovPromote 12])) ParamRewardBPS = Some 250"
proof -
  let ?r = "ApplyGovTx demo_gov_codec demo_gov demo_param_tx 10"
  let ?p = "\<lparr>pp_Kind = PayloadKindParamSet, pp_Param = ParamRewardBPS, pp_Value = 250, pp_EffectiveHeight = 12, pp_Memo = []\<rparr>"
  have r: "?r = (fst ?r, None)" using demo_param_ok by (metis prod.collapse)
  have tx: "tx_Payload demo_param_tx = ''p''" "tx_Payload demo_vote_tx = ''v''" by (simp_all add: demo_param_tx_def demo_vote_tx_def)
  have codec: "gov_PeekKind demo_gov_codec (tx_Payload demo_param_tx) = Inr PayloadKindParamSet"
    "ParseParamSet demo_gov_codec (tx_Payload demo_param_tx) = Inr ?p"
    by (simp_all add: gov_PeekKind_def ParseParamSet_def demo_gov_codec_def tx)
  have vote: "gov_PeekKind demo_gov_codec (tx_Payload demo_vote_tx) \<noteq> Inr PayloadKindParamSet"
    by (simp add: gov_PeekKind_def demo_gov_codec_def tx PayloadKindParamSet_def PayloadKindAuthoritySet_def)
  note eff = staged_change_takes_effect [OF boot_ok(1) [OF demo_boot] key_orders_valid(2,1) codec r]
  have zero: "ActiveValue (ga_Store demo_gov) ParamRewardBPS = Some 0"
    by (simp add: ActiveValue_def demo_gov_simps new_store_active param_Lookup_def registry_def)
  show ?thesis
    using eff [of "[GovPromote 10, GovTx demo_vote_tx 10, GovPromote 11]"]
      eff [of "[GovPromote 10, GovTx demo_vote_tx 10, GovPromote 11, GovPromote 12]"] zero vote
    by (auto simp: Let_def ActiveValue_def split: if_splits)
qed

text \<open>
  The slash applier reads its parameters from governance. In every state of governance the share of a
  slash that goes to the reporter is the active parameter itself, at most half, and the stake below which a
  node is revoked is between 1 and 10 CELL.\<close>

theorem slashing_under_governance:
  assumes "valid_param_orders pord" and "valid_orders ord"
    and "boot_governance accounts (NewInMemoryParamStore, NewInMemoryAuthorityVoteStore) bps fork authorities = Some ga"
    and "sa_Params a = Some (ActiveValue (ga_Store (foldl (gov_step cd pord ord) ga calls)))"
  shows "(\<exists>v. ActiveValue (ga_Store (foldl (gov_step cd pord ord) ga calls)) ParamRewardBPS = Some v \<and>
      unat (activeRewardBPS a) = unat v \<and> unat v \<le> 5000) \<and>
    100000000 \<le> activeAutoRevokeMinStakeDust a \<and> activeAutoRevokeMinStakeDust a \<le> 1000000000"
proof -
  let ?s = "ga_Store (foldl (gov_step cd pord ord) ga calls)"
  have "gov_ok (foldl (gov_step cd pord ord) ga calls)"
    using gov_run.run_inv [of pord ord ga cd calls] assms(1,2) boot_ok(1) [OF assms(3)] by blast
  note active = params_okD(2) [OF gov_okD(1) [OF this]]
  have names: "ParamRewardBPS \<noteq> ParamAutoRevokeMinStakeDust"
    by (simp add: ParamRewardBPS_def ParamAutoRevokeMinStakeDust_def)
  have bps: "param_Lookup ParamRewardBPS = Some \<lparr>spec_Name = ParamRewardBPS, spec_MinValue = 0, spec_MaxValue = 5000, spec_DefaultValue = 0\<rparr>"
    and revoke: "param_Lookup ParamAutoRevokeMinStakeDust = Some \<lparr>spec_Name = ParamAutoRevokeMinStakeDust, spec_MinValue = gov_dustPerCELL,
       spec_MaxValue = gov_minEnrollStakeDust, spec_DefaultValue = gov_minEnrollStakeDust\<rparr>"
    using names by (simp_all add: param_Lookup_def registry_def)
  obtain v where v: "ActiveValue ?s ParamRewardBPS = Some v" "v \<le> 5000"
    using active [OF bps] by (auto simp: ActiveValue_def bps CheckBounds_def not_less split: if_splits)
  obtain w where w: "ActiveValue ?s ParamAutoRevokeMinStakeDust = Some w" "gov_dustPerCELL \<le> w" "w \<le> gov_minEnrollStakeDust"
    using active [OF revoke] by (auto simp: ActiveValue_def revoke CheckBounds_def not_less split: if_splits)
  have le: "unat v \<le> 5000" using v(2) by (simp add: word_le_nat_alt)
  then have "activeRewardBPS a = ucast v"
    using v(1) by (simp add: activeRewardBPS_def assms(4) ParamRewardBPS_def [symmetric] SlashRewardCap_def word_less_nat_alt)
  moreover have "unat (ucast v :: u16) = unat v" using le by (simp add: unsigned_ucast_eq take_bit_nat_eq_self)
  moreover have "activeAutoRevokeMinStakeDust a = w"
    using w(1) by (simp add: activeAutoRevokeMinStakeDust_def assms(4) ParamAutoRevokeMinStakeDust_def [symmetric])
  ultimately show ?thesis using v(1) w(2,3) le by (simp add: gov_minEnrollStakeDust_def gov_dustPerCELL_def)
qed

theorem slashing_under_governance_witness:
  "let a = demo_slasher\<lparr>sa_Params := Some (ActiveValue (ga_Store (foldl (gov_step demo_gov_codec name_orders key_orders) demo_gov
         [GovTx demo_param_tx 10, GovPromote 12])))\<rparr>
   in unat (activeRewardBPS a) \<le> 5000 \<and> activeAutoRevokeMinStakeDust a \<le> 1000000000"
proof -
  let ?s = "ga_Store (foldl (gov_step demo_gov_codec name_orders key_orders) demo_gov [GovTx demo_param_tx 10, GovPromote 12])"
  have "sa_Params (demo_slasher\<lparr>sa_Params := Some (ActiveValue ?s)\<rparr>) = Some (ActiveValue ?s)" by simp
  from slashing_under_governance [OF key_orders_valid(2,1) demo_boot this] show ?thesis unfolding Let_def by auto
qed

theorem snapshot_restores_governance_witness:
  "\<exists>files votes. ga_AuthorityVotes (fst (ApplyGovTx demo_gov_codec demo_gov demo_vote_tx 10)) = Some votes \<and>
     LoadOrNewWith (\<lambda>_. Some (snapshot_doc [] (name_orders (ga_Store (fst (ApplyGovTx demo_gov_codec demo_gov demo_vote_tx 10))))
         (key_orders 0 votes) (ga_Store (fst (ApplyGovTx demo_gov_codec demo_gov demo_vote_tx 10))) (Some votes)))
       (\<lambda>doc. sorted_list_of_set (dom (sd_Active doc))) (\<lambda>_ _. True) files ''params.json'' =
     Inr (ga_Store (fst (ApplyGovTx demo_gov_codec demo_gov demo_vote_tx 10)), votes)"
proof -
  let ?ga = "fst (ApplyGovTx demo_gov_codec demo_gov demo_vote_tx 10)"
  obtain votes where votes: "ga_AuthorityVotes ?ga = Some votes" "\<forall>k p. votes k = Some p \<longrightarrow> length (apr_Voters p) \<le> 536870912"
    using demo_vote_ok(2) by (auto split: if_splits)
  let ?doc = "snapshot_doc [] (name_orders (ga_Store ?ga)) (key_orders 0 votes) (ga_Store ?ga) (Some votes)"
  let ?marshal = "\<lambda>d. if d = ?doc then Some ''json'' else None"
  let ?files = "fst (SaveSnapshotWith ?marshal (\<lambda>_ _. True) ?doc (\<lambda>_. NotExist) ''params.json'')"
  have run: "?ga = foldl (gov_step demo_gov_codec name_orders key_orders) demo_gov [GovTx demo_vote_tx 10]" by simp
  have save: "SaveSnapshotWith ?marshal (\<lambda>_ _. True) ?doc (\<lambda>_. NotExist) ''params.json'' = (?files, True)"
    by (simp add: SaveSnapshotWith_def)
  have json: "\<forall>d out. ?marshal d = Some out \<longrightarrow> Some ?doc = Some d" by auto
  have dord: "\<forall>d. finite (dom (sd_Active d)) \<longrightarrow> iteration (sd_Active d) (sorted_list_of_set (dom (sd_Active d)))"
    by (simp add: iteration_def)
  from snapshot_restores_governance [OF key_orders_valid(2,1) demo_boot run votes json dord refl save] votes(1)
  show ?thesis by blast
qed

section \<open>Two ways around the majority\<close>

definition demo_proposal :: "string \<Rightarrow> string \<Rightarrow> u64 \<Rightarrow> string list \<Rightarrow> bool \<Rightarrow> AuthorityProposal" where
  "demo_proposal op address eff voters crossed =
     \<lparr>apr_Op = op, apr_Address = address, apr_EffectiveHeight = eff,
      apr_Voters = map (\<lambda>v. \<lparr>av_Voter = v, av_SubmittedAtHeight = 1, av_Memo = []\<rparr>) voters,
      apr_Crossed = crossed, apr_CrossedAtHeight = (if crossed then 1 else 0)\<rparr>"

definition with_tally :: "string set \<Rightarrow> vote_store \<Rightarrow> GovApplier" where
  "with_tally A votes = demo_gov\<lparr>ga_authoritySet := A, ga_AuthorityVotes := Some votes\<rparr>"

lemma demo_proposal_ok:
  assumes "op = AuthorityOpAdd \<or> op = AuthorityOpRemove" and "address \<noteq> []" and "eff \<noteq> 0" and "voters \<noteq> []"
    and "sorted_wrt (<) voters" and "[] \<notin> set voters" and "\<not> crossed \<longrightarrow> set voters \<subseteq> A"
  shows "proposal_ok A (VoteKey op address eff) (demo_proposal op address eff voters crossed)"
proof -
  have "distinct voters" using assms(5) by (simp add: strict_sorted_iff)
  moreover have "sorted_wrt vote_before (map (\<lambda>v. \<lparr>av_Voter = v, av_SubmittedAtHeight = 1, av_Memo = []\<rparr>) voters)"
    using assms(5) by (simp add: sorted_wrt_map vote_before_def)
  ultimately show ?thesis
    using assms by (simp add: proposal_ok_def demo_proposal_def prop_key_def o_def image_image)
qed

lemma with_tally_ok: "tally_ok A votes \<Longrightarrow> finite A \<Longrightarrow> [] \<notin> A \<Longrightarrow> gov_ok (with_tally A votes)"
  using boot_ok(1) [OF demo_boot] by (simp add: gov_ok_def with_tally_def)

text \<open>The effect of a promotion, step by step, with any order of the keys.\<close>

lemma promote_by:
  assumes "tally_ok A votes" and "iteration votes ks" and "vote_Promote ks votes h = (votes1, due)"
    and "activate_authorities A due = (B, due1)"
  shows "promoteAuthorityPending key_orders (with_tally A votes) h =
    with_tally B (settle_removals key_orders 1 (int (card B)) h votes1 due1)"
proof -
  have "vote_Promote (key_orders 0 votes) votes h = (votes1, due)"
    using vote_Promote_order [OF assms(1) valid_ordersD [OF key_orders_valid(1) assms(1)] assms(2)] assms(3) by simp
  with promoteAuthority_eq [of "with_tally A votes" votes key_orders h votes1 due B due1] assms(4)
  show ?thesis by (simp add: with_tally_def)
qed

lemma settle_removal:
  assumes "finite (dom votes)" and "apr_Op p = AuthorityOpRemove" and "apr_Voters p \<noteq> []" and "apr_Address p \<noteq> []" and "0 < n"
  shows "settle_removals key_orders i n h votes (p # ps) =
    settle_removals key_orders (Suc (Suc i)) n h
      (\<lambda>k. map_option (crossed_at (AuthorityThreshold n) h) (Option.bind (votes k) (without_votes (apr_Address p)))) ps"
proof -
  let ?v1 = "\<lambda>k. Option.bind (votes k) (without_votes (apr_Address p))"
  have it: "iteration m (key_orders i m)" if "finite (dom m)" for i m
    using key_orders_valid(1) that by (simp add: valid_orders_def)
  have "dom ?v1 \<subseteq> dom votes" by (auto simp: bind_eq_Some_conv)
  then have fin: "finite (dom ?v1)" using assms(1) by (rule finite_subset)
  have "AuthorityThreshold n \<noteq> 0" using assms(5) by (simp add: AuthorityThreshold_def) presburger
  from RecomputeCrossed_effect [OF it [OF fin] this, of "Suc i"] show ?thesis
    using assms(2-4) by (simp add: DropVotes_effect [OF it [OF assms(1)] assms(4)] Let_def)
qed

definition two_removals :: vote_store where
  "two_removals =
     [VoteKey AuthorityOpRemove ''d'' 5 \<mapsto> demo_proposal AuthorityOpRemove ''d'' 5 [''a'', ''b'', ''c''] True,
      VoteKey AuthorityOpRemove ''e'' 5 \<mapsto> demo_proposal AuthorityOpRemove ''e'' 5 [''a'', ''b'', ''c''] True,
      VoteKey AuthorityOpAdd ''x'' 9 \<mapsto> demo_proposal AuthorityOpAdd ''x'' 9 [''a'', ''e''] False]"

lemma two_removals_ok: "tally_ok {''a'', ''b'', ''c'', ''d'', ''e''} two_removals"
  by (auto simp: tally_ok_def two_removals_def split: if_splits intro!: demo_proposal_ok)

lemma two_removals_iteration:
  "iteration two_removals [VoteKey AuthorityOpRemove ''d'' 5, VoteKey AuthorityOpRemove ''e'' 5, VoteKey AuthorityOpAdd ''x'' 9]"
  by (auto simp: iteration_def two_removals_def)

lemma demo_proposal_simps [simp]:
  "apr_Op (demo_proposal op a eff vs c) = op" "apr_Address (demo_proposal op a eff vs c) = a"
  "apr_EffectiveHeight (demo_proposal op a eff vs c) = eff" "apr_Crossed (demo_proposal op a eff vs c) = c"
  "apr_Voters (demo_proposal op a eff vs c) = map (\<lambda>v. \<lparr>av_Voter = v, av_SubmittedAtHeight = 1, av_Memo = []\<rparr>) vs"
  by (simp_all add: demo_proposal_def)

text \<open>
  Two removals fall due together. The first is settled while the votes of the second removed authority
  still stand, against a threshold that already counts both out: the proposal to add \<open>x\<close> crosses with two
  votes of which one is the removed authority's, so that one of the three authorities left decides.
\<close>

theorem removed_authority_still_counts:
  "gov_ok (with_tally {''a'', ''b'', ''c'', ''d'', ''e''} two_removals) \<and>
   (let ga = promoteAuthorityPending key_orders (with_tally {''a'', ''b'', ''c'', ''d'', ''e''} two_removals) 5 in
    ga_authoritySet ga = {''a'', ''b'', ''c''} \<and>
    (\<exists>votes p. ga_AuthorityVotes ga = Some votes \<and> votes (VoteKey AuthorityOpAdd ''x'' 9) = Some p \<and>
       apr_Crossed p \<and> map av_Voter (apr_Voters p) = [''a'', ''e'']))"
proof -
  let ?A = "{''a'', ''b'', ''c'', ''d'', ''e''}" and ?d = "demo_proposal AuthorityOpRemove ''d'' 5 [''a'', ''b'', ''c''] True"
    and ?e = "demo_proposal AuthorityOpRemove ''e'' 5 [''a'', ''b'', ''c''] True"
    and ?x = "demo_proposal AuthorityOpAdd ''x'' 9 [''a'', ''e''] False"
  have "vote_Promote [VoteKey AuthorityOpRemove ''d'' 5, VoteKey AuthorityOpRemove ''e'' 5, VoteKey AuthorityOpAdd ''x'' 9]
      two_removals 5 = ([VoteKey AuthorityOpAdd ''x'' 9 \<mapsto> ?x], [?d, ?e])"
    unfolding vote_Promote_effect [OF two_removals_iteration]
    by (simp add: two_removals_def vote_due_def kept_open_def fun_eq_iff sortProposals_def sort_slice_def proposal_before_def)
  moreover have "activate_authorities ?A [?d, ?e] = ({''a'', ''b'', ''c''}, [?d, ?e])"
    by (simp add: insert_Diff_if)
  ultimately have eq: "promoteAuthorityPending key_orders (with_tally ?A two_removals) 5 =
      with_tally {''a'', ''b'', ''c''} (settle_removals key_orders 1 3 5 [VoteKey AuthorityOpAdd ''x'' 9 \<mapsto> ?x] [?d, ?e])"
    using promote_by [OF two_removals_ok two_removals_iteration] by simp
  have step1: "(\<lambda>k. map_option (crossed_at (AuthorityThreshold 3) 5)
      (Option.bind ([VoteKey AuthorityOpAdd ''x'' 9 \<mapsto> ?x] k) (without_votes ''d''))) =
      [VoteKey AuthorityOpAdd ''x'' 9 \<mapsto> ?x\<lparr>apr_Crossed := True, apr_CrossedAtHeight := 5\<rparr>]"
    by (simp add: fun_eq_iff without_votes_def crossed_at_def AuthorityThreshold_def)
  have step2: "(\<lambda>k. map_option (crossed_at (AuthorityThreshold 3) 5)
      (Option.bind ([VoteKey AuthorityOpAdd ''x'' 9 \<mapsto> ?x\<lparr>apr_Crossed := True, apr_CrossedAtHeight := 5\<rparr>] k) (without_votes ''e''))) =
      [VoteKey AuthorityOpAdd ''x'' 9 \<mapsto> ?x\<lparr>apr_Crossed := True, apr_CrossedAtHeight := 5\<rparr>]"
    by (simp add: fun_eq_iff without_votes_def crossed_at_def)
  have "settle_removals key_orders 1 3 5 [VoteKey AuthorityOpAdd ''x'' 9 \<mapsto> ?x] [?d, ?e] =
      [VoteKey AuthorityOpAdd ''x'' 9 \<mapsto> ?x\<lparr>apr_Crossed := True, apr_CrossedAtHeight := 5\<rparr>]"
    using settle_removal [of "[VoteKey AuthorityOpAdd ''x'' 9 \<mapsto> ?x]" ?d 3 1 5 "[?e]"]
      settle_removal [of "[VoteKey AuthorityOpAdd ''x'' 9 \<mapsto> ?x\<lparr>apr_Crossed := True, apr_CrossedAtHeight := 5\<rparr>]" ?e 3 3 5 "[]"]
    by (simp add: step1 step2 eval_nat_numeral del: fun_upd_apply)
  then show ?thesis
    unfolding eq Let_def using with_tally_ok [OF two_removals_ok] by (simp add: with_tally_def)
qed

definition stale_addition :: vote_store where
  "stale_addition =
     [VoteKey AuthorityOpRemove ''b'' 10 \<mapsto> demo_proposal AuthorityOpRemove ''b'' 10 [''a'', ''b''] True,
      VoteKey AuthorityOpAdd ''x'' 3 \<mapsto> demo_proposal AuthorityOpAdd ''x'' 3 [''a''] False]"

lemma stale_addition_ok: "tally_ok {''a'', ''b''} stale_addition"
  by (auto simp: tally_ok_def stale_addition_def split: if_splits intro!: demo_proposal_ok)

lemma stale_addition_iteration:
  "iteration stale_addition [VoteKey AuthorityOpRemove ''b'' 10, VoteKey AuthorityOpAdd ''x'' 3]"
  by (auto simp: iteration_def stale_addition_def)

text \<open>
  A proposal that did not reach the threshold by its height stays in the store. When a later removal
  lowers the threshold it crosses, and the next promotion activates it, seven blocks after its height.
\<close>

theorem expired_proposal_activates:
  "gov_ok (with_tally {''a'', ''b''} stale_addition) \<and>
   (let ga = promoteAuthorityPending key_orders (with_tally {''a'', ''b''} stale_addition) 10 in
    ga_authoritySet ga = {''a''} \<and> ga_authoritySet (promoteAuthorityPending key_orders ga 11) = {''a'', ''x''})"
proof -
  let ?b = "demo_proposal AuthorityOpRemove ''b'' 10 [''a'', ''b''] True"
    and ?x = "demo_proposal AuthorityOpAdd ''x'' 3 [''a''] False"
  let ?y = "?x\<lparr>apr_Crossed := True, apr_CrossedAtHeight := 10\<rparr>"
  let ?k = "VoteKey AuthorityOpAdd ''x'' 3"
  have "vote_Promote [VoteKey AuthorityOpRemove ''b'' 10, ?k] stale_addition 10 = ([?k \<mapsto> ?x], [?b])"
    unfolding vote_Promote_effect [OF stale_addition_iteration]
    by (simp add: stale_addition_def vote_due_def kept_open_def fun_eq_iff sortProposals_def sort_slice_def)
  moreover have "activate_authorities {''a'', ''b''} [?b] = ({''a''}, [?b])" by (simp add: insert_Diff_if)
  ultimately have eq: "promoteAuthorityPending key_orders (with_tally {''a'', ''b''} stale_addition) 10 =
      with_tally {''a''} (settle_removals key_orders 1 1 10 [?k \<mapsto> ?x] [?b])"
    using promote_by [OF stale_addition_ok stale_addition_iteration] by simp
  have step: "(\<lambda>k. map_option (crossed_at (AuthorityThreshold 1) 10) (Option.bind ([?k \<mapsto> ?x] k) (without_votes ''b''))) = [?k \<mapsto> ?y]"
    by (simp add: fun_eq_iff without_votes_def crossed_at_def AuthorityThreshold_def)
  have ga: "settle_removals key_orders 1 1 10 [?k \<mapsto> ?x] [?b] = [?k \<mapsto> ?y]"
    using settle_removal [of "[?k \<mapsto> ?x]" ?b 1 1 10 "[]"] by (simp add: step del: fun_upd_apply)
  have "proposal_ok {''a''} ?k ?x" by (rule demo_proposal_ok) simp_all
  then have "tally_ok {''a''} [?k \<mapsto> ?y]" by (simp add: tally_ok_def proposal_ok_def prop_key_def)
  moreover have it: "iteration [?k \<mapsto> ?y] [?k]" by (simp add: iteration_def)
  moreover have "vote_Promote [?k] [?k \<mapsto> ?y] 11 = (Map.empty, [?y])"
    unfolding vote_Promote_effect [OF it] by (simp add: vote_due_def kept_open_def fun_eq_iff sortProposals_def sort_slice_def)
  moreover have "activate_authorities {''a''} [?y] = ({''x'', ''a''}, [?y])" by simp
  ultimately have "promoteAuthorityPending key_orders (with_tally {''a''} [?k \<mapsto> ?y]) 11 =
      with_tally {''x'', ''a''} (settle_removals key_orders 1 (int (card {''x'', ''a''})) 11 Map.empty [?y])"
    by (rule promote_by)
  then show ?thesis unfolding eq ga Let_def using with_tally_ok [OF stale_addition_ok] by (auto simp: with_tally_def)
qed

section \<open>Admission\<close>

text \<open>The errors that depend on the state of the chain.\<close>

fun stateful_error :: "gov_error \<Rightarrow> bool" where
  "stateful_error EffectiveHeightInPast = True"
| "stateful_error EffectiveHeightTooFar = True"
| "stateful_error (GovUnauthorized a) = True"
| "stateful_error GovernanceNotConfigured = True"
| "stateful_error (AuthorityAlreadyPresent a) = True"
| "stateful_error (AuthorityNotPresent a) = True"
| "stateful_error (DuplicateVote a) = True"
| "stateful_error (GovFeeRefused e) = True"
| "stateful_error e = False"

lemma height_window_stateful: "height_window e h = Some err \<Longrightarrow> stateful_error err"
  by (auto simp: height_window_def split: if_splits)

lemma membership_stateful: "membership_check ga p = Some err \<Longrightarrow> stateful_error err"
  by (auto simp: membership_check_def split: if_splits)

lemma fee_stateful: "\<not> tx_Fee tx \<le> 0 \<Longrightarrow> debit_gov_fee s tx = (t, Some err) \<Longrightarrow> stateful_error err"
  by (auto simp: debit_gov_fee_def split: prod.splits)

lemma admittedE:
  assumes "GovAdmission cd prev tx = None" and "tx_ContractID tx = GovContractID"
  obtains (param) p where "gov_PeekKind cd (tx_Payload tx) = Inr PayloadKindParamSet" "ParseParamSet cd (tx_Payload tx) = Inr p"
      "ValidateParamSetFields p = None" "\<not> tx_Fee tx \<le> 0"
  | (authority) p where "gov_PeekKind cd (tx_Payload tx) = Inr PayloadKindAuthoritySet" "ParseAuthoritySet cd (tx_Payload tx) = Inr p"
      "ValidateAuthoritySetFields p = None" "\<not> tx_Fee tx \<le> 0"
proof (cases "gov_PeekKind cd (tx_Payload tx)")
  case (Inl e)
  with assms show ?thesis by (simp add: GovAdmission_def split: if_splits)
next
  case (Inr kind)
  show ?thesis
  proof (cases "kind = PayloadKindParamSet")
    case True
    with assms Inr param show ?thesis by (auto simp: GovAdmission_def split: if_splits sum.splits option.splits)
  next
    case False
    with assms Inr have "kind = PayloadKindAuthoritySet" by (auto simp: GovAdmission_def split: if_splits option.splits)
    with assms Inr authority show ?thesis by (auto simp: GovAdmission_def split: if_splits sum.splits option.splits)
  qed
qed

text \<open>
  A governance transaction that the mempool admits is refused by the chain only for a reason the mempool
  cannot see: the authorities, the height window, an earlier vote, the sender's nonce or balance.\<close>

theorem admitted_gov_tx_refusals:
  assumes "GovAdmission cd prev tx = None" and "tx_ContractID tx = GovContractID" and "gov_ok ga"
    and "snd (ApplyGovTx cd ga tx h) = Some e"
  shows "stateful_error e"
  using assms(1,2)
proof (cases rule: admittedE)
  case (param p)
  have eq: "ApplyGovTx cd ga tx h = applyParamSet cd ga tx h" by (simp add: ApplyGovTx_def assms(2) param(1))
  obtain spec where "param_Lookup (pp_Param p) = Some spec" "CheckBounds spec (pp_Value p) = None" "pp_EffectiveHeight p \<noteq> 0"
    using valid_param_payload [OF param(3)] by blast
  then have stage: "\<exists>s'. Stage s (param_change tx h p) = (s', Inr (ps_pending s (pp_Param p)))" for s
    by (simp add: Stage_def param_change_def)
  from assms(4) show ?thesis unfolding eq applyParamSet_def param(2) sum.case param(3) option.case
    using height_window_stateful fee_stateful [OF param(4)] stage [of "ga_Store ga"]
    by (auto split: if_splits option.splits prod.splits)
next
  case (authority p)
  have eq: "ApplyGovTx cd ga tx h = applyAuthoritySet cd ga tx h" by (simp add: ApplyGovTx_def assms(2) authority(1))
  have vote: "stateful_error err" if "RecordVote votes k (authority_vote tx h p) n = (t, Inl err)" "tx_Sender tx \<in> ga_authoritySet ga" "0 < n"
    for votes k n t err
    using that gov_okD(3) [OF assms(3)]
    by (cases rule: RecordVote_cases [of "authority_vote tx h p" votes k n]) (auto simp: authority_vote_def)
  have pos: "authorityCount ga \<noteq> 0 \<Longrightarrow> 0 < authorityCount ga" by (simp add: authorityCount_def)
  from assms(4) show ?thesis unfolding eq applyAuthoritySet_def authority(2) sum.case authority(3) option.case
    using height_window_stateful membership_stateful fee_stateful [OF authority(4)] vote pos
    by (auto simp: IsAuthority_def split: if_splits option.splits prod.splits sum.splits)
qed

theorem admitted_gov_tx_refusals_witness:
  "GovAdmission demo_gov_codec None (demo_vote_tx\<lparr>tx_Sender := ''c''\<rparr>) = None \<and>
   snd (ApplyGovTx demo_gov_codec demo_gov (demo_vote_tx\<lparr>tx_Sender := ''c''\<rparr>) 10) = Some (GovUnauthorized ''c'') \<and>
   stateful_error (GovUnauthorized ''c'')"
proof -
  let ?tx = "demo_vote_tx\<lparr>tx_Sender := ''c''\<rparr>"
  have a: "GovAdmission demo_gov_codec None ?tx = None"
    by (simp add: GovAdmission_def demo_vote_tx_def demo_tx_def gov_PeekKind_def demo_gov_codec_def ParseAuthoritySet_def
        ValidateAuthoritySetFields_def MaxAuthorityAddressLen_def GovMaxMemoLen_def zero_float64_def less_eq_float64_def)
  have c: "tx_ContractID ?tx = GovContractID" by (simp add: demo_vote_tx_def)
  have r: "snd (ApplyGovTx demo_gov_codec demo_gov ?tx 10) = Some (GovUnauthorized ''c'')"
    by (rule demo_outsider [OF demo_gov_simps(1,3)])
  from admitted_gov_tx_refusals [OF a c boot_ok(1) [OF demo_boot] r] a r show ?thesis by simp
qed

text \<open>What the encoder of the command line produces, the mempool admits.\<close>

theorem encoded_param_set_admitted:
  assumes "EncodeParamSet cd p = Inr raw" and "raw \<noteq> []"
    and "gc_kind cd raw = Some PayloadKindParamSet" and "gc_param_set cd raw = Some (p, False)"
    and "tx_ContractID tx = GovContractID" and "tx_Payload tx = raw" and "\<not> tx_Fee tx \<le> 0"
  shows "GovAdmission cd prev tx = None"
proof -
  have valid: "ValidateParamSetFields p = None" using assms(1) by (simp add: EncodeParamSet_def split: option.splits)
  then have "pp_Kind p = PayloadKindParamSet" by (simp add: ValidateParamSetFields_def split: if_splits)
  with valid assms show ?thesis by (simp add: GovAdmission_def gov_PeekKind_def ParseParamSet_def)
qed

theorem encoded_authority_set_admitted:
  assumes "EncodeAuthoritySet cd p = Inr raw" and "raw \<noteq> []"
    and "gc_kind cd raw = Some PayloadKindAuthoritySet" and "gc_authority_set cd raw = Some (p, False)"
    and "tx_ContractID tx = GovContractID" and "tx_Payload tx = raw" and "\<not> tx_Fee tx \<le> 0"
  shows "GovAdmission cd prev tx = None"
proof -
  have valid: "ValidateAuthoritySetFields p = None" using assms(1) by (simp add: EncodeAuthoritySet_def split: option.splits)
  then have "ap_Kind p = PayloadKindAuthoritySet" by (simp add: ValidateAuthoritySetFields_def split: if_splits)
  with valid assms show ?thesis by (simp add: GovAdmission_def gov_PeekKind_def ParseAuthoritySet_def)
qed

end
