(* ===== verification/Streams.thy ===== *)
theory Streams
  imports Accounts Go_Strings
begin

text \<open>
  CELL payment streams: \<open>pkg/chain/stream_state.go\<close> and the session-key retirement of
  \<open>stream_ed25519_retirement.go\<close>. A payer escrows a budget, the provider submits signed cumulative
  usage receipts, and settlement and closing pay the accrued charge out of the escrow.

  Instants are nanoseconds since Go's zero time. Parsing of RFC 3339 times, JSON, SHA-256, ML-DSA and
  Ed25519 are the fields of the record \<open>stream_env\<close>; nothing is assumed of them, so what is proved
  holds whatever they accept. The error a discarded \<open>time.Parse\<close> returns leaves the zero time.
\<close>

section \<open>Data\<close>

definition StreamContractID :: string where "StreamContractID = ''qsdm/streams/v1''"
definition StreamActionOpen :: string where "StreamActionOpen = ''open''"
definition StreamActionReceipt :: string where "StreamActionReceipt = ''receipt''"
definition StreamActionPause :: string where "StreamActionPause = ''pause''"
definition StreamActionResume :: string where "StreamActionResume = ''resume''"
definition StreamActionSettle :: string where "StreamActionSettle = ''settle''"
definition StreamActionClose :: string where "StreamActionClose = ''close''"
definition StreamStatusActive :: string where "StreamStatusActive = ''active''"
definition StreamStatusPaused :: string where "StreamStatusPaused = ''paused''"
definition StreamStatusClosed :: string where "StreamStatusClosed = ''closed''"

datatype stream_error =
    NotStreamActionTx
  | StreamDecodeFailed
  | NotCanonicalJSON
  | ActionIDMismatch
  | ActionSenderMismatch
  | ActionNonceMismatch
  | ShapeInvalid string
  | NonzeroFee
  | UnexpectedTxFields
  | NonzeroAmount
  | StreamSignatureInvalid
  | DuplicateStreamAction
  | DuplicateStream
  | StreamNotFound
  | StreamClosed
  | StreamNotActive
  | TimestampBackwards
  | NotProvider
  | NotPayer
  | StreamReceiptReplay
  | StreamUsageCapExceeded
  | ReceiptOutsideWindow
  | StreamWallTimeExceeded
  | ReceiptSignatureInvalid
  | ChargePeriodZero
  | ChargeOverflow
  | StreamBudgetExceeded
  | StreamExpired
  | NotPaused
  | PausedOverflow
  | NoStreamSettlement
  | StreamChargeRefused account_error
  | SessionKeyRetired
  | NextRefused string

record StreamUsageReceipt =
  sr_StreamID :: string
  sr_Sequence :: u64
  sr_CumulativeActiveSeconds :: u64
  sr_ObservedAt :: string
  sr_Signature :: string

record StreamAction =
  sa_ID :: string
  sa_Sender :: string
  sa_StreamID :: string
  sa_Action :: string
  sa_Provider :: string
  sa_ServiceID :: string
  sa_DeviceIDHash :: string
  sa_SessionPublicKey :: string
  sa_PriceDust :: u64
  sa_PricePeriodSeconds :: u64
  sa_BudgetDust :: u64
  sa_MaxActiveSeconds :: u64
  sa_ExpiresAt :: string
  sa_Receipt :: "StreamUsageReceipt option"
  sa_Nonce :: u64
  sa_Timestamp :: string

record StreamState =
  ss_StreamID :: string
  ss_Payer :: string
  ss_Provider :: string
  ss_ServiceID :: string
  ss_DeviceIDHash :: string
  ss_SessionPublicKey :: string
  ss_PriceDust :: u64
  ss_PricePeriodSeconds :: u64
  ss_BudgetDust :: u64
  ss_MaxActiveSeconds :: u64
  ss_ExpiresAt :: string
  ss_Status :: string
  ss_CumulativeActiveSeconds :: u64
  ss_PausedDurationSeconds :: u64
  ss_LastReceiptSequence :: u64
  ss_LastReceiptObservedAt :: string
  ss_AccruedDust :: u64
  ss_SettledDust :: u64
  ss_RefundedDust :: u64
  ss_OpenedAt :: string
  ss_LastPausedAt :: string
  ss_LastResumedAt :: string
  ss_ClosedAt :: string
  ss_LastAction :: string
  ss_LastActionID :: string
  ss_LastActionAt :: string
  ss_ActionCount :: u64

record StreamStateStore =
  st_streams :: "string \<rightharpoonup> StreamState"
  st_actionIDs :: "string set"

record streamEconomicEffect =
  ee_Provider :: string
  ee_ProviderDust :: u64
  ee_Payer :: string
  ee_PayerRefundDust :: u64

record stream_env =
  v_parse_time :: "string \<Rightarrow> int option"
  v_json_action :: "string \<Rightarrow> StreamAction option"
  v_marshal_action :: "StreamAction \<Rightarrow> string option"
  v_marshal_receipt :: "StreamUsageReceipt \<Rightarrow> string option"
  v_marshal_state :: "StreamState \<Rightarrow> string"
  v_sha256 :: "string \<Rightarrow> string"
  v_mldsa_key_len :: nat
  v_mldsa_sig_len :: nat
  v_mldsa_verify :: "string \<Rightarrow> string \<Rightarrow> string \<Rightarrow> bool"
  v_ed25519_verify :: "string \<Rightarrow> string \<Rightarrow> string \<Rightarrow> bool"

definition no_effect :: streamEconomicEffect where
  "no_effect = \<lparr>ee_Provider = [], ee_ProviderDust = 0, ee_Payer = [], ee_PayerRefundDust = 0\<rparr>"

definition NewStreamStateStore :: StreamStateStore where
  "NewStreamStateStore = \<lparr>st_streams = Map.empty, st_actionIDs = {}\<rparr>"

definition RemainingBudgetDust :: "StreamState \<Rightarrow> u64" where
  "RemainingBudgetDust s =
     (if ss_BudgetDust s \<le> ss_AccruedDust s then 0 else ss_BudgetDust s - ss_AccruedDust s)"

section \<open>Time\<close>

definition ParseTime :: "stream_env \<Rightarrow> string \<Rightarrow> int" where
  "ParseTime v t = (case v_parse_time v t of None \<Rightarrow> 0 | Some x \<Rightarrow> x)"

text \<open>\<open>Time.Sub\<close> saturates at the range of a \<open>Duration\<close>; dividing by a second truncates; the conversion to
  \<open>uint64\<close> wraps.\<close>

definition time_sub :: "int \<Rightarrow> int \<Rightarrow> int" where
  "time_sub a b = max (- (2 ^ 63)) (min (2 ^ 63 - 1) (a - b))"

definition whole_seconds :: "int \<Rightarrow> int" where
  "whole_seconds d = (if d < 0 then - (- d div 1000000000) else d div 1000000000)"

section \<open>Decoding, shape and signature\<close>

definition DecodeStreamActionTx :: "stream_env \<Rightarrow> Tx \<Rightarrow> stream_error + StreamAction" where
  "DecodeStreamActionTx v tx =
     (if tx_ContractID tx \<noteq> StreamContractID then Inl NotStreamActionTx
      else (case v_json_action v (tx_Payload tx) of
          None \<Rightarrow> Inl StreamDecodeFailed
        | Some action \<Rightarrow>
            (case v_marshal_action v action of
               None \<Rightarrow> Inl StreamDecodeFailed
             | Some canonicalPayload \<Rightarrow>
                 if tx_Payload tx \<noteq> canonicalPayload then Inl NotCanonicalJSON
                 else if sa_ID action = [] \<or> tx_ID tx = [] \<or> sa_ID action \<noteq> tx_ID tx then Inl ActionIDMismatch
                 else if sa_Sender action = [] \<or> tx_Sender tx = [] \<or> sa_Sender action \<noteq> tx_Sender tx
                 then Inl ActionSenderMismatch
                 else if sa_Nonce action \<noteq> tx_Nonce tx then Inl ActionNonceMismatch
                 else Inr action)))"

definition ident_char :: "char \<Rightarrow> bool" where
  "ident_char c \<longleftrightarrow> (CHR ''a'' \<le> c \<and> c \<le> CHR ''z'') \<or> (CHR ''A'' \<le> c \<and> c \<le> CHR ''Z'') \<or>
     (CHR ''0'' \<le> c \<and> c \<le> CHR ''9'') \<or> c = CHR ''-'' \<or> c = CHR ''_'' \<or> c = CHR ''.'' \<or> c = CHR '':''"

definition validStreamIdentifier :: "string \<Rightarrow> nat \<Rightarrow> bool" where
  "validStreamIdentifier value mx \<longleftrightarrow>
     value \<noteq> [] \<and> length value \<le> mx \<and> value = TrimSpace value \<and> list_all ident_char value"

definition validSHA256Hex :: "string \<Rightarrow> bool" where
  "validSHA256Hex value \<longleftrightarrow>
     value = TrimSpace value \<and> value = ToLower value \<and>
     (case DecodeHex value of None \<Rightarrow> False | Some raw \<Rightarrow> length raw = 32)"

definition validStreamWalletAddress :: "string \<Rightarrow> bool" where
  "validStreamWalletAddress value \<longleftrightarrow>
     value = TrimSpace value \<and> value = ToLower value \<and>
     (case DecodeHex value of None \<Rightarrow> False | Some raw \<Rightarrow> length raw = 32)"

definition hasStreamOpenFields :: "StreamAction \<Rightarrow> bool" where
  "hasStreamOpenFields a \<longleftrightarrow>
     sa_Provider a \<noteq> [] \<or> sa_ServiceID a \<noteq> [] \<or> sa_DeviceIDHash a \<noteq> [] \<or> sa_SessionPublicKey a \<noteq> [] \<or>
     sa_PriceDust a \<noteq> 0 \<or> sa_PricePeriodSeconds a \<noteq> 0 \<or> sa_BudgetDust a \<noteq> 0 \<or> sa_MaxActiveSeconds a \<noteq> 0 \<or>
     sa_ExpiresAt a \<noteq> []"

definition open_shape :: "stream_env \<Rightarrow> StreamAction \<Rightarrow> int \<Rightarrow> stream_error option" where
  "open_shape v a actionTime =
     (if \<not> validStreamWalletAddress (sa_Provider a) then Some (ShapeInvalid ''provider'')
      else if EqualFold (sa_Sender a) (sa_Provider a) then Some (ShapeInvalid ''payer and provider'')
      else if \<not> validStreamIdentifier (sa_ServiceID a) 128 then Some (ShapeInvalid ''service id'')
      else if \<not> validSHA256Hex (sa_DeviceIDHash a) then Some (ShapeInvalid ''device_id_hash'')
      else if sa_SessionPublicKey a \<noteq> TrimSpace (sa_SessionPublicKey a) \<or>
              sa_SessionPublicKey a \<noteq> ToLower (sa_SessionPublicKey a) then Some (ShapeInvalid ''session key case'')
      else if (case DecodeHex (sa_SessionPublicKey a) of None \<Rightarrow> True | Some k \<Rightarrow> length k \<noteq> 32)
      then Some (ShapeInvalid ''session key'')
      else if sa_PriceDust a = 0 \<or> sa_PricePeriodSeconds a = 0 then Some (ShapeInvalid ''price'')
      else if sa_BudgetDust a = 0 \<or> sa_MaxActiveSeconds a = 0 then Some (ShapeInvalid ''budget'')
      else if (case v_parse_time v (sa_ExpiresAt a) of None \<Rightarrow> True | Some e \<Rightarrow> e \<le> actionTime)
      then Some (ShapeInvalid ''expiry'')
      else if sa_Receipt a \<noteq> None then Some (ShapeInvalid ''receipt in open'')
      else None)"

definition receipt_shape :: "stream_env \<Rightarrow> StreamAction \<Rightarrow> stream_error option" where
  "receipt_shape v a =
     (if hasStreamOpenFields a then Some (ShapeInvalid ''open-only fields'')
      else (case sa_Receipt a of
          None \<Rightarrow> Some (ShapeInvalid ''receipt required'')
        | Some r \<Rightarrow>
            if sr_StreamID r \<noteq> sa_StreamID a then Some (ShapeInvalid ''receipt stream_id'')
            else if sr_Sequence r = 0 \<or> sr_CumulativeActiveSeconds r = 0 then Some (ShapeInvalid ''receipt counters'')
            else if v_parse_time v (sr_ObservedAt r) = None then Some (ShapeInvalid ''observed_at'')
            else if TrimSpace (sr_Signature r) = [] then Some (ShapeInvalid ''receipt signature'')
            else None))"

definition validateStreamActionShape :: "stream_env \<Rightarrow> StreamAction \<Rightarrow> stream_error option" where
  "validateStreamActionShape v a =
     (if sa_Action a \<noteq> ToLower (TrimSpace (sa_Action a)) then Some (ShapeInvalid ''action spelling'')
      else if \<not> validStreamIdentifier (sa_ID a) 128 then Some (ShapeInvalid ''action id'')
      else if \<not> validStreamIdentifier (sa_StreamID a) 128 then Some (ShapeInvalid ''stream id'')
      else if \<not> validStreamWalletAddress (sa_Sender a) then Some (ShapeInvalid ''sender'')
      else (case v_parse_time v (sa_Timestamp a) of
          None \<Rightarrow> Some (ShapeInvalid ''timestamp'')
        | Some actionTime \<Rightarrow>
            if sa_Action a = StreamActionOpen then open_shape v a actionTime
            else if sa_Action a = StreamActionReceipt then receipt_shape v a
            else if sa_Action a \<in> {StreamActionPause, StreamActionResume, StreamActionSettle, StreamActionClose}
            then (if hasStreamOpenFields a then Some (ShapeInvalid ''open-only fields'')
                  else if sa_Receipt a \<noteq> None then Some (ShapeInvalid ''unexpected receipt'')
                  else None)
            else Some (ShapeInvalid ''unsupported action'')))"

definition VerifyStreamActionTx :: "stream_env \<Rightarrow> Tx \<Rightarrow> stream_error option" where
  "VerifyStreamActionTx v tx =
     (case DecodeStreamActionTx v tx of
        Inl e \<Rightarrow> Some e
      | Inr action \<Rightarrow>
          (case validateStreamActionShape v action of
             Some e \<Rightarrow> Some e
           | None \<Rightarrow>
               if \<not> feq (tx_Fee tx) 0 then Some NonzeroFee
               else if tx_GasLimit tx \<noteq> 0 \<or> tx_Recipient tx \<noteq> [] then Some UnexpectedTxFields
               else if \<not> feq (tx_Amount tx) 0 then Some NonzeroAmount
               else (case (DecodeHex (TrimSpace (tx_PublicKey tx)), DecodeHex (TrimSpace (tx_Signature tx))) of
                   (Some publicKey, Some signature) \<Rightarrow>
                     if length publicKey \<noteq> v_mldsa_key_len v \<or> length signature \<noteq> v_mldsa_sig_len v
                     then Some StreamSignatureInvalid
                     else if \<not> EqualFold (EncodeToString (v_sha256 v publicKey)) (sa_Sender action)
                     then Some StreamSignatureInvalid
                     else (case v_marshal_action v action of
                             None \<Rightarrow> Some StreamDecodeFailed
                           | Some message \<Rightarrow>
                               if v_mldsa_verify v publicKey message signature then None
                               else Some StreamSignatureInvalid)
                 | _ \<Rightarrow> Some StreamSignatureInvalid)))"

definition StreamAdmission :: "stream_env \<Rightarrow> (Tx \<Rightarrow> string option) option \<Rightarrow> Tx \<Rightarrow> stream_error option" where
  "StreamAdmission v next_check tx =
     (if tx_ContractID tx \<noteq> StreamContractID
      then (case next_check of None \<Rightarrow> None | Some f \<Rightarrow> map_option NextRefused (f tx))
      else VerifyStreamActionTx v tx)"

section \<open>Charging\<close>

text \<open>The product is computed in unbounded integers.\<close>

definition streamChargeDust :: "u64 \<Rightarrow> u64 \<Rightarrow> u64 \<Rightarrow> stream_error + u64" where
  "streamChargeDust activeSeconds priceDust periodSeconds =
     (if periodSeconds = 0 then Inl ChargePeriodZero
      else (let charge = unat activeSeconds * unat priceDust div unat periodSeconds
            in if 2 ^ 64 \<le> charge then Inl ChargeOverflow else Inr (of_nat charge)))"

definition verifySessionReceipt :: "stream_env \<Rightarrow> StreamState \<Rightarrow> StreamUsageReceipt \<Rightarrow> bool" where
  "verifySessionReceipt v state r =
     (case (DecodeHex (ss_SessionPublicKey state), DecodeHex (sr_Signature r), v_marshal_receipt v (r\<lparr>sr_Signature := []\<rparr>)) of
        (Some publicKey, Some signature, Some message) \<Rightarrow>
          length publicKey = 32 \<and> length signature = 64 \<and> v_ed25519_verify v publicKey message signature
      | _ \<Rightarrow> False)"

section \<open>Actions\<close>

definition open_state :: "StreamAction \<Rightarrow> StreamState" where
  "open_state a =
     \<lparr>ss_StreamID = sa_StreamID a, ss_Payer = sa_Sender a, ss_Provider = sa_Provider a, ss_ServiceID = sa_ServiceID a,
      ss_DeviceIDHash = sa_DeviceIDHash a, ss_SessionPublicKey = sa_SessionPublicKey a, ss_PriceDust = sa_PriceDust a,
      ss_PricePeriodSeconds = sa_PricePeriodSeconds a, ss_BudgetDust = sa_BudgetDust a,
      ss_MaxActiveSeconds = sa_MaxActiveSeconds a, ss_ExpiresAt = sa_ExpiresAt a, ss_Status = StreamStatusActive,
      ss_CumulativeActiveSeconds = 0, ss_PausedDurationSeconds = 0, ss_LastReceiptSequence = 0,
      ss_LastReceiptObservedAt = [], ss_AccruedDust = 0, ss_SettledDust = 0, ss_RefundedDust = 0,
      ss_OpenedAt = sa_Timestamp a, ss_LastPausedAt = [], ss_LastResumedAt = [], ss_ClosedAt = [],
      ss_LastAction = sa_Action a, ss_LastActionID = sa_ID a, ss_LastActionAt = sa_Timestamp a, ss_ActionCount = 1\<rparr>"

text \<open>The checks on a receipt, in the order of the code, then the new cumulative charge.\<close>

definition receipt_action :: "stream_env \<Rightarrow> StreamState \<Rightarrow> StreamAction \<Rightarrow> stream_error + StreamState" where
  "receipt_action v st a =
     (let actionAt = ParseTime v (sa_Timestamp a);
          r = the (sa_Receipt a);
          observedAt = ParseTime v (sr_ObservedAt r);
          openedAt = ParseTime v (ss_OpenedAt st);
          expiresAt = ParseTime v (ss_ExpiresAt st);
          wallSeconds = (of_int (whole_seconds (time_sub observedAt openedAt)) :: u64);
          maxActiveSeconds =
            (if ss_PausedDurationSeconds st < wallSeconds then wallSeconds - ss_PausedDurationSeconds st else 0)
      in if ss_Status st \<noteq> StreamStatusActive then Inl StreamNotActive
         else if \<not> EqualFold (sa_Sender a) (ss_Provider st) then Inl NotProvider
         else if sr_Sequence r \<noteq> ss_LastReceiptSequence st + 1 then Inl StreamReceiptReplay
         else if sr_CumulativeActiveSeconds r \<le> ss_CumulativeActiveSeconds st then Inl StreamReceiptReplay
         else if ss_MaxActiveSeconds st < sr_CumulativeActiveSeconds r then Inl StreamUsageCapExceeded
         else if observedAt < openedAt \<or> expiresAt < observedAt \<or> actionAt < observedAt
         then Inl ReceiptOutsideWindow
         else if ss_LastReceiptObservedAt st \<noteq> [] \<and> observedAt \<le> ParseTime v (ss_LastReceiptObservedAt st)
         then Inl StreamReceiptReplay
         else if maxActiveSeconds < sr_CumulativeActiveSeconds r then Inl StreamWallTimeExceeded
         else if \<not> verifySessionReceipt v st r then Inl ReceiptSignatureInvalid
         else (case streamChargeDust (sr_CumulativeActiveSeconds r) (ss_PriceDust st) (ss_PricePeriodSeconds st) of
             Inl e \<Rightarrow> Inl e
           | Inr charge \<Rightarrow>
               if ss_BudgetDust st < charge then Inl StreamBudgetExceeded
               else Inr (st\<lparr>ss_CumulativeActiveSeconds := sr_CumulativeActiveSeconds r,
                            ss_LastReceiptSequence := sr_Sequence r,
                            ss_LastReceiptObservedAt := sr_ObservedAt r,
                            ss_AccruedDust := charge\<rparr>)))"

definition pause_action :: "stream_env \<Rightarrow> StreamState \<Rightarrow> StreamAction \<Rightarrow> stream_error + StreamState" where
  "pause_action v st a =
     (if \<not> EqualFold (sa_Sender a) (ss_Payer st) then Inl NotPayer
      else if ss_Status st \<noteq> StreamStatusActive then Inl StreamNotActive
      else if ParseTime v (ss_ExpiresAt st) < ParseTime v (sa_Timestamp a) then Inl StreamExpired
      else Inr (st\<lparr>ss_Status := StreamStatusPaused, ss_LastPausedAt := sa_Timestamp a\<rparr>))"

definition resume_action :: "stream_env \<Rightarrow> StreamState \<Rightarrow> StreamAction \<Rightarrow> stream_error + StreamState" where
  "resume_action v st a =
     (let pausedFor = time_sub (ParseTime v (sa_Timestamp a)) (ParseTime v (ss_LastPausedAt st));
          whole = (of_int (whole_seconds pausedFor) :: u64);
          pausedSeconds = (if pausedFor mod 1000000000 \<noteq> 0 then whole + 1 else whole)
      in if \<not> EqualFold (sa_Sender a) (ss_Payer st) then Inl NotPayer
         else if ss_Status st \<noteq> StreamStatusPaused then Inl NotPaused
         else if ParseTime v (ss_ExpiresAt st) < ParseTime v (sa_Timestamp a) then Inl StreamExpired
         else if max_u64 - ss_PausedDurationSeconds st < pausedSeconds then Inl PausedOverflow
         else Inr (st\<lparr>ss_PausedDurationSeconds := ss_PausedDurationSeconds st + pausedSeconds,
                      ss_Status := StreamStatusActive, ss_LastResumedAt := sa_Timestamp a\<rparr>))"

definition settle_action :: "StreamState \<Rightarrow> StreamAction \<Rightarrow> stream_error + StreamState \<times> streamEconomicEffect" where
  "settle_action st a =
     (if \<not> EqualFold (sa_Sender a) (ss_Provider st) then Inl NotProvider
      else if ss_AccruedDust st \<le> ss_SettledDust st then Inl NoStreamSettlement
      else Inr (st\<lparr>ss_SettledDust := ss_AccruedDust st\<rparr>,
                no_effect\<lparr>ee_Provider := ss_Provider st, ee_ProviderDust := ss_AccruedDust st - ss_SettledDust st\<rparr>))"

definition close_action :: "StreamState \<Rightarrow> StreamAction \<Rightarrow> stream_error + StreamState \<times> streamEconomicEffect" where
  "close_action st a =
     (if \<not> EqualFold (sa_Sender a) (ss_Payer st) then Inl NotPayer
      else Inr (st\<lparr>ss_SettledDust := ss_AccruedDust st, ss_RefundedDust := ss_BudgetDust st - ss_AccruedDust st,
                   ss_Status := StreamStatusClosed, ss_ClosedAt := sa_Timestamp a\<rparr>,
                \<lparr>ee_Provider = ss_Provider st, ee_ProviderDust = ss_AccruedDust st - ss_SettledDust st,
                 ee_Payer = ss_Payer st, ee_PayerRefundDust = ss_BudgetDust st - ss_AccruedDust st\<rparr>))"

definition stream_switch ::
  "stream_env \<Rightarrow> StreamState \<Rightarrow> StreamAction \<Rightarrow> stream_error + StreamState \<times> streamEconomicEffect" where
  "stream_switch v st a =
     (if sa_Action a = StreamActionReceipt then map_sum id (\<lambda>s. (s, no_effect)) (receipt_action v st a)
      else if sa_Action a = StreamActionPause then map_sum id (\<lambda>s. (s, no_effect)) (pause_action v st a)
      else if sa_Action a = StreamActionResume then map_sum id (\<lambda>s. (s, no_effect)) (resume_action v st a)
      else if sa_Action a = StreamActionSettle then settle_action st a
      else if sa_Action a = StreamActionClose then close_action st a
      else Inr (st, no_effect))"

definition touch :: "StreamState \<Rightarrow> StreamAction \<Rightarrow> StreamState" where
  "touch st a = st\<lparr>ss_LastAction := sa_Action a, ss_LastActionID := sa_ID a, ss_LastActionAt := sa_Timestamp a,
     ss_ActionCount := ss_ActionCount st + 1\<rparr>"

definition put_stream :: "StreamStateStore \<Rightarrow> StreamAction \<Rightarrow> StreamState \<Rightarrow> StreamStateStore" where
  "put_stream s a st = s\<lparr>st_streams := (st_streams s)(sa_StreamID a \<mapsto> st),
     st_actionIDs := insert (sa_ID a) (st_actionIDs s)\<rparr>"

definition applyAction ::
  "stream_env \<Rightarrow> StreamStateStore \<Rightarrow> StreamAction \<Rightarrow> StreamStateStore \<times> (stream_error + streamEconomicEffect)" where
  "applyAction v s a =
     (case validateStreamActionShape v a of
        Some e \<Rightarrow> (s, Inl e)
      | None \<Rightarrow>
          if sa_ID a \<in> st_actionIDs s then (s, Inl DuplicateStreamAction)
          else if sa_Action a = StreamActionOpen
          then (if st_streams s (sa_StreamID a) \<noteq> None then (s, Inl DuplicateStream)
                else (put_stream s a (open_state a), Inr no_effect))
          else (case st_streams s (sa_StreamID a) of
              None \<Rightarrow> (s, Inl StreamNotFound)
            | Some st \<Rightarrow>
                if ss_Status st = StreamStatusClosed then (s, Inl StreamClosed)
                else if ParseTime v (sa_Timestamp a) < ParseTime v (ss_LastActionAt st)
                then (s, Inl TimestampBackwards)
                else (case stream_switch v st a of
                    Inl e \<Rightarrow> (s, Inl e)
                  | Inr (st', effect) \<Rightarrow> (put_stream s a (touch st' a), Inr effect))))"

section \<open>Transactions\<close>

definition StreamEd25519SessionKeysRetiredAt :: "u64 \<Rightarrow> u64 \<Rightarrow> bool" where
  "StreamEd25519SessionKeysRetiredAt retirementHeight height \<longleftrightarrow> retirementHeight \<noteq> 0 \<and> retirementHeight \<le> height"

definition checkStreamEd25519Retirement :: "u64 \<Rightarrow> StreamAction \<Rightarrow> u64 \<Rightarrow> stream_error option" where
  "checkStreamEd25519Retirement retirementHeight a height =
     (if sa_Action a \<noteq> StreamActionOpen \<or> \<not> StreamEd25519SessionKeysRetiredAt retirementHeight height
      then None else Some SessionKeyRetired)"

definition ApplyHistoricalTx ::
  "stream_env \<Rightarrow> u64 \<Rightarrow> StreamStateStore \<Rightarrow> Tx \<Rightarrow> u64 \<Rightarrow> StreamStateStore \<times> stream_error option" where
  "ApplyHistoricalTx v retirementHeight s tx height =
     (case VerifyStreamActionTx v tx of
        Some e \<Rightarrow> (s, Some e)
      | None \<Rightarrow>
          (case DecodeStreamActionTx v tx of
             Inl e \<Rightarrow> (s, Some e)
           | Inr a \<Rightarrow>
               (case checkStreamEd25519Retirement retirementHeight a height of
                  Some e \<Rightarrow> (s, Some e)
                | None \<Rightarrow> (case applyAction v s a of (s', Inl e) \<Rightarrow> (s', Some e) | (s', Inr _) \<Rightarrow> (s', None)))))"

definition StreamApplyTx :: "stream_env \<Rightarrow> u64 \<Rightarrow> StreamStateStore \<Rightarrow> Tx \<Rightarrow> StreamStateStore \<times> stream_error option" where
  "StreamApplyTx v retirementHeight s tx = ApplyHistoricalTx v retirementHeight s tx 0"

definition StreamClone :: "StreamStateStore \<Rightarrow> StreamStateStore" where
  "StreamClone s = \<lparr>st_streams = st_streams s, st_actionIDs = st_actionIDs s\<rparr>"

definition StreamRestore :: "StreamStateStore \<Rightarrow> StreamStateStore \<Rightarrow> StreamStateStore" where
  "StreamRestore s other = s\<lparr>st_streams := st_streams other, st_actionIDs := st_actionIDs other\<rparr>"

definition stream_charge_of :: "StreamAction \<Rightarrow> u64" where
  "stream_charge_of a = (if sa_Action a = StreamActionOpen then sa_BudgetDust a else 0)"

definition credit_effect ::
  "(float64 \<Rightarrow> u64) \<Rightarrow> u64 \<Rightarrow> AccountStore \<Rightarrow> streamEconomicEffect \<Rightarrow> AccountStore" where
  "credit_effect oob fork acc ef =
     (let acc1 = (if 0 < ee_ProviderDust ef
                  then Credit oob fork acc (ee_Provider ef) (dustToBalance (ee_ProviderDust ef)) else acc)
      in if 0 < ee_PayerRefundDust ef
         then Credit oob fork acc1 (ee_Payer ef) (dustToBalance (ee_PayerRefundDust ef)) else acc1)"

text \<open>\<open>ApplyEconomicTx\<close>: a preview on a clone, the charge, the action itself, then the credits; a failing
  action restores both stores.\<close>

definition ApplyEconomicTx ::
  "(float64 \<Rightarrow> u64) \<Rightarrow> u64 \<Rightarrow> stream_env \<Rightarrow> StreamStateStore \<times> AccountStore \<Rightarrow> Tx \<Rightarrow>
     (StreamStateStore \<times> AccountStore) \<times> stream_error option" where
  "ApplyEconomicTx oob fork v w tx =
     (let (s, accounts) = w
      in case VerifyStreamActionTx v tx of
           Some e \<Rightarrow> (w, Some e)
         | None \<Rightarrow>
             (case DecodeStreamActionTx v tx of
                Inl e \<Rightarrow> (w, Some e)
              | Inr a \<Rightarrow>
                  (case applyAction v (StreamClone s) a of
                     (_, Inl e) \<Rightarrow> (w, Some e)
                   | (_, Inr _) \<Rightarrow>
                       (let accountSnapshot = CloneStore accounts;
                            streamSnapshot = StreamClone s;
                            charge = dustToBalance (stream_charge_of a);
                            r = (if sa_Action a = StreamActionReceipt \<or> sa_Action a = StreamActionSettle
                                 then ChargeAndBumpNonceAllowCreate accounts (sa_Sender a) charge (tx_Nonce tx)
                                 else ChargeAndBumpNonce accounts (sa_Sender a) charge (tx_Nonce tx))
                        in case r of
                             (acc1, Some e) \<Rightarrow> ((s, acc1), Some (StreamChargeRefused e))
                           | (acc1, None) \<Rightarrow>
                               (case applyAction v s a of
                                  (s1, Inl e) \<Rightarrow>
                                    ((StreamRestore s1 streamSnapshot, RestoreFrom acc1 accountSnapshot), Some e)
                                | (s1, Inr ef) \<Rightarrow> ((s1, credit_effect oob fork acc1 ef), None))))))"

section \<open>Queries\<close>

definition GetStream :: "StreamStateStore \<Rightarrow> string \<Rightarrow> StreamState option" where
  "GetStream s streamID = st_streams s streamID"

definition AllStreams :: "StreamStateStore \<Rightarrow> string list \<Rightarrow> StreamState list" where
  "AllStreams s ks = map (\<lambda>i. the (st_streams s i)) (sort ks)"

text \<open>The state root hashes the streams in the order of their IDs, one JSON line each, then the action IDs.\<close>

definition stream_root_preimage :: "stream_env \<Rightarrow> StreamStateStore \<Rightarrow> string list \<Rightarrow> string list \<Rightarrow> string" where
  "stream_root_preimage v s ks as =
     concat (map (\<lambda>i. v_marshal_state v (the (st_streams s i)) @ [byte 10]) (sort ks)) @
     concat (map (\<lambda>i. ''action:'' @ i @ [byte 10]) (sort as))"

definition StreamStateRoot :: "stream_env \<Rightarrow> StreamStateStore \<Rightarrow> string list \<Rightarrow> string list \<Rightarrow> string" where
  "StreamStateRoot v s ks as = EncodeToString (v_sha256 v (stream_root_preimage v s ks as))"

section \<open>Invariant and escrow\<close>

definition stream_wf :: "StreamState \<Rightarrow> bool" where
  "stream_wf st \<longleftrightarrow>
     ss_Status st \<in> {StreamStatusActive, StreamStatusPaused, StreamStatusClosed} \<and>
     ss_PricePeriodSeconds st \<noteq> 0 \<and>
     ss_CumulativeActiveSeconds st \<le> ss_MaxActiveSeconds st \<and>
     unat (ss_AccruedDust st) =
       unat (ss_CumulativeActiveSeconds st) * unat (ss_PriceDust st) div unat (ss_PricePeriodSeconds st) \<and>
     ss_SettledDust st \<le> ss_AccruedDust st \<and> ss_AccruedDust st \<le> ss_BudgetDust st \<and>
     (if ss_Status st = StreamStatusClosed
      then ss_SettledDust st = ss_AccruedDust st \<and> ss_RefundedDust st = ss_BudgetDust st - ss_AccruedDust st
      else ss_RefundedDust st = 0)"

definition stream_inv :: "StreamStateStore \<Rightarrow> bool" where
  "stream_inv s \<longleftrightarrow> finite (dom (st_streams s)) \<and> (\<forall>i st. st_streams s i = Some st \<longrightarrow> stream_wf st \<and> ss_StreamID st = i)"

definition stream_escrow :: "StreamState \<Rightarrow> nat" where
  "stream_escrow st = unat (ss_BudgetDust st) - unat (ss_SettledDust st) - unat (ss_RefundedDust st)"

definition escrow_total :: "StreamStateStore \<Rightarrow> nat" where
  "escrow_total s = sum_over stream_escrow (st_streams s)"

definition stream_step :: "stream_env \<Rightarrow> StreamStateStore \<Rightarrow> StreamAction \<Rightarrow> StreamStateStore" where
  "stream_step v s a = fst (applyAction v s a)"

definition stream_in :: "stream_env \<Rightarrow> StreamStateStore \<Rightarrow> StreamAction \<Rightarrow> nat" where
  "stream_in v s a = (case snd (applyAction v s a) of Inl _ \<Rightarrow> 0 | Inr _ \<Rightarrow> unat (stream_charge_of a))"

definition stream_out :: "stream_env \<Rightarrow> StreamStateStore \<Rightarrow> StreamAction \<Rightarrow> nat" where
  "stream_out v s a =
     (case snd (applyAction v s a) of Inl _ \<Rightarrow> 0 | Inr ef \<Rightarrow> unat (ee_ProviderDust ef) + unat (ee_PayerRefundDust ef))"

lemmas stream_actions = StreamActionOpen_def StreamActionReceipt_def StreamActionPause_def StreamActionResume_def
  StreamActionSettle_def StreamActionClose_def
lemmas stream_statuses = StreamStatusActive_def StreamStatusPaused_def StreamStatusClosed_def

definition same_terms :: "StreamState \<Rightarrow> StreamState \<Rightarrow> bool" where
  "same_terms st st' \<longleftrightarrow>
     ss_StreamID st' = ss_StreamID st \<and> ss_Payer st' = ss_Payer st \<and> ss_Provider st' = ss_Provider st \<and>
     ss_PriceDust st' = ss_PriceDust st \<and> ss_PricePeriodSeconds st' = ss_PricePeriodSeconds st \<and>
     ss_BudgetDust st' = ss_BudgetDust st \<and> ss_MaxActiveSeconds st' = ss_MaxActiveSeconds st \<and>
     ss_ExpiresAt st' = ss_ExpiresAt st \<and> ss_SessionPublicKey st' = ss_SessionPublicKey st \<and>
     ss_OpenedAt st' = ss_OpenedAt st"

lemma streamChargeDust_exact:
  "streamChargeDust n p d = Inr c \<Longrightarrow> d \<noteq> 0 \<and> unat c = unat n * unat p div unat d"
  by (auto simp: streamChargeDust_def Let_def unat_of_nat_fits split: if_splits)

lemma stream_charge_mono:
  assumes "streamChargeDust n p d = Inr c" and "unat c' = unat m * unat p div unat d" and "m \<le> n"
  shows "c' \<le> c"
proof -
  from assms(3) have "unat m * unat p div unat d \<le> unat n * unat p div unat d"
    by (intro div_le_mono mult_right_mono) (simp_all add: word_le_nat_alt)
  with assms(2) streamChargeDust_exact [OF assms(1)] show ?thesis by (simp add: word_le_nat_alt)
qed

lemma receipt_actionD:
  assumes "receipt_action v st a = Inr st'"
  obtains charge where
    "ss_Status st = StreamStatusActive" "EqualFold (sa_Sender a) (ss_Provider st)"
    "sr_Sequence (the (sa_Receipt a)) = ss_LastReceiptSequence st + 1"
    "ss_CumulativeActiveSeconds st < sr_CumulativeActiveSeconds (the (sa_Receipt a))"
    "sr_CumulativeActiveSeconds (the (sa_Receipt a)) \<le> ss_MaxActiveSeconds st"
    "verifySessionReceipt v st (the (sa_Receipt a))"
    "streamChargeDust (sr_CumulativeActiveSeconds (the (sa_Receipt a))) (ss_PriceDust st) (ss_PricePeriodSeconds st) = Inr charge"
    "charge \<le> ss_BudgetDust st"
    "st' = st\<lparr>ss_CumulativeActiveSeconds := sr_CumulativeActiveSeconds (the (sa_Receipt a)),
              ss_LastReceiptSequence := sr_Sequence (the (sa_Receipt a)),
              ss_LastReceiptObservedAt := sr_ObservedAt (the (sa_Receipt a)), ss_AccruedDust := charge\<rparr>"
  using assms unfolding receipt_action_def Let_def by (auto split: if_splits sum.splits simp: not_le not_less)

lemma map_sum_InrD: "map_sum id f x = Inr y \<Longrightarrow> \<exists>z. x = Inr z \<and> y = f z"
  by (cases x) auto

lemma switch_receipt:
  assumes "sa_Action a = StreamActionReceipt" and "stream_switch v st a = Inr (st', ef)"
  shows "receipt_action v st a = Inr st'" and "ef = no_effect"
  using assms by (auto simp: stream_switch_def dest!: map_sum_InrD)

lemma receipt_keeps:
  assumes "receipt_action v st a = Inr st'" and "stream_wf st"
  shows "stream_wf st' \<and> stream_escrow st' = stream_escrow st \<and> same_terms st st'"
proof -
  from assms(1) show ?thesis
  proof (rule receipt_actionD)
    fix charge
    assume facts: "ss_Status st = StreamStatusActive"
      "ss_CumulativeActiveSeconds st < sr_CumulativeActiveSeconds (the (sa_Receipt a))"
      "sr_CumulativeActiveSeconds (the (sa_Receipt a)) \<le> ss_MaxActiveSeconds st"
      "charge \<le> ss_BudgetDust st"
      and c: "streamChargeDust (sr_CumulativeActiveSeconds (the (sa_Receipt a))) (ss_PriceDust st) (ss_PricePeriodSeconds st) = Inr charge"
      and st': "st' = st\<lparr>ss_CumulativeActiveSeconds := sr_CumulativeActiveSeconds (the (sa_Receipt a)),
              ss_LastReceiptSequence := sr_Sequence (the (sa_Receipt a)),
              ss_LastReceiptObservedAt := sr_ObservedAt (the (sa_Receipt a)), ss_AccruedDust := charge\<rparr>"
    from assms(2) have "unat (ss_AccruedDust st) =
        unat (ss_CumulativeActiveSeconds st) * unat (ss_PriceDust st) div unat (ss_PricePeriodSeconds st)"
      by (simp add: stream_wf_def)
    from stream_charge_mono [OF c this] facts(2) have "ss_AccruedDust st \<le> charge" by simp
    with assms(2) facts streamChargeDust_exact [OF c] show ?thesis
      unfolding st' by (auto simp: stream_wf_def stream_escrow_def same_terms_def stream_statuses)
  qed
qed

lemma pause_keeps:
  assumes "pause_action v st a = Inr st'" and "stream_wf st"
  shows "stream_wf st' \<and> stream_escrow st' = stream_escrow st \<and> same_terms st st'"
  using assms by (auto simp: pause_action_def stream_wf_def stream_escrow_def same_terms_def stream_statuses split: if_splits)

lemma resume_keeps:
  assumes "resume_action v st a = Inr st'" and "stream_wf st"
  shows "stream_wf st' \<and> stream_escrow st' = stream_escrow st \<and> same_terms st st'"
  using assms
  by (auto simp: resume_action_def Let_def stream_wf_def stream_escrow_def same_terms_def stream_statuses split: if_splits)

lemma settle_pays:
  assumes "settle_action st a = Inr (st', ef)" and "stream_wf st" and "ss_Status st \<noteq> StreamStatusClosed"
  shows "stream_wf st' \<and> same_terms st st' \<and>
    stream_escrow st' + unat (ee_ProviderDust ef) + unat (ee_PayerRefundDust ef) = stream_escrow st"
  using assms
  by (auto simp: settle_action_def stream_wf_def stream_escrow_def same_terms_def no_effect_def unat_minus_le
      word_le_nat_alt split: if_splits)

lemma close_pays:
  assumes "close_action st a = Inr (st', ef)" and "stream_wf st" and "ss_Status st \<noteq> StreamStatusClosed"
  shows "stream_wf st' \<and> same_terms st st' \<and>
    stream_escrow st' + unat (ee_ProviderDust ef) + unat (ee_PayerRefundDust ef) = stream_escrow st"
  using assms
  by (auto simp: close_action_def stream_wf_def stream_escrow_def same_terms_def unat_minus_le
      word_le_nat_alt split: if_splits)

lemma switch_cases:
  assumes "stream_switch v st a = Inr (st', ef)"
  obtains (receipt) "sa_Action a = StreamActionReceipt" "receipt_action v st a = Inr st'" "ef = no_effect"
    | (pause) "sa_Action a = StreamActionPause" "pause_action v st a = Inr st'" "ef = no_effect"
    | (resume) "sa_Action a = StreamActionResume" "resume_action v st a = Inr st'" "ef = no_effect"
    | (settle) "sa_Action a = StreamActionSettle" "settle_action st a = Inr (st', ef)"
    | (close) "sa_Action a = StreamActionClose" "close_action st a = Inr (st', ef)"
    | (other) "sa_Action a \<notin> {StreamActionReceipt, StreamActionPause, StreamActionResume, StreamActionSettle, StreamActionClose}"
        "st' = st" "ef = no_effect"
  using assms unfolding stream_switch_def by (auto split: if_splits dest!: map_sum_InrD)

lemma no_effect_dust [simp]: "ee_ProviderDust no_effect = 0" "ee_PayerRefundDust no_effect = 0"
  by (simp_all add: no_effect_def)

lemma switch_conserves:
  assumes "stream_switch v st a = Inr (st', ef)" and "stream_wf st" and "ss_Status st \<noteq> StreamStatusClosed"
  shows "stream_wf st' \<and> same_terms st st' \<and>
    stream_escrow st' + unat (ee_ProviderDust ef) + unat (ee_PayerRefundDust ef) = stream_escrow st"
  using assms(1)
proof (cases rule: switch_cases)
  case receipt
  then show ?thesis using receipt_keeps [OF receipt(2) assms(2)] by simp
next
  case pause
  then show ?thesis using pause_keeps [OF pause(2) assms(2)] by simp
next
  case resume
  then show ?thesis using resume_keeps [OF resume(2) assms(2)] by simp
next
  case settle
  then show ?thesis using settle_pays [OF settle(2) assms(2,3)] by simp
next
  case close
  then show ?thesis using close_pays [OF close(2) assms(2,3)] by simp
next
  case other
  then show ?thesis using assms(2) by (simp add: same_terms_def)
qed

lemma touch_wf [simp]: "stream_wf (touch st a) = stream_wf st" "stream_escrow (touch st a) = stream_escrow st"
  "same_terms st0 (touch st a) = same_terms st0 st" "ss_Status (touch st a) = ss_Status st"
  by (simp_all add: stream_wf_def stream_escrow_def same_terms_def touch_def)

lemma open_shape_ok:
  assumes "validateStreamActionShape v a = None" and "sa_Action a = StreamActionOpen"
  shows "sa_PricePeriodSeconds a \<noteq> 0" and "sa_BudgetDust a \<noteq> 0" and "sa_Sender a \<noteq> sa_Provider a"
  using assms
  by (auto simp: validateStreamActionShape_def open_shape_def EqualFold_def split: if_splits option.splits)

lemma open_wf:
  assumes "validateStreamActionShape v a = None" and "sa_Action a = StreamActionOpen"
  shows "stream_wf (open_state a)" and "stream_escrow (open_state a) = unat (sa_BudgetDust a)"
  using open_shape_ok [OF assms]
  by (simp_all add: stream_wf_def stream_escrow_def open_state_def stream_statuses)

lemma applyAction_err: "applyAction v s a = (s', Inl e) \<Longrightarrow> s' = s"
  by (auto simp: applyAction_def split: option.splits if_splits sum.splits)

lemma applyAction_cases:
  assumes "applyAction v s a = (s', Inr ef)"
  obtains (opened) "sa_Action a = StreamActionOpen" "st_streams s (sa_StreamID a) = None"
      "s' = put_stream s a (open_state a)" "ef = no_effect"
      "validateStreamActionShape v a = None" "sa_ID a \<notin> st_actionIDs s"
  | (acted) st st' where "sa_Action a \<noteq> StreamActionOpen" "st_streams s (sa_StreamID a) = Some st"
      "ss_Status st \<noteq> StreamStatusClosed" "stream_switch v st a = Inr (st', ef)"
      "s' = put_stream s a (touch st' a)"
      "validateStreamActionShape v a = None" "sa_ID a \<notin> st_actionIDs s"
  using assms unfolding applyAction_def by (auto split: option.splits if_splits sum.splits)

lemma put_stream_inv:
  assumes "stream_inv s" and "stream_wf st" and "ss_StreamID st = sa_StreamID a"
  shows "stream_inv (put_stream s a st)"
  using assms by (auto simp: stream_inv_def put_stream_def)

lemma put_stream_escrow:
  assumes "stream_inv s"
  shows "escrow_total (put_stream s a st) +
      (case st_streams s (sa_StreamID a) of None \<Rightarrow> 0 | Some st0 \<Rightarrow> stream_escrow st0) =
    escrow_total s + stream_escrow st"
  using assms sum_over_upd [of "st_streams s" stream_escrow "sa_StreamID a" st]
  by (simp add: stream_inv_def escrow_total_def put_stream_def)

interpretation stream_flow: conserving "stream_step v" stream_inv escrow_total "stream_in v" "stream_out v" for v
proof
  fix s a
  assume inv: "stream_inv s"
  have "stream_inv (stream_step v s a) \<and>
    escrow_total (stream_step v s a) + stream_out v s a = escrow_total s + stream_in v s a"
  proof (cases "applyAction v s a")
    case (Pair s' r)
    note app = Pair
    show ?thesis
    proof (cases r)
      case (Inl e)
      with app applyAction_err [of v s a s' e] inv show ?thesis
        by (simp add: stream_step_def stream_in_def stream_out_def)
    next
      case (Inr ef)
      with app have ok: "applyAction v s a = (s', Inr ef)" by simp
      then show ?thesis
      proof (cases rule: applyAction_cases)
        case opened
        with ok inv open_wf [OF opened(5,1)] put_stream_escrow [OF inv, of a "open_state a"]
          put_stream_inv [OF inv, of "open_state a" a]
        show ?thesis
          by (simp add: stream_step_def stream_in_def stream_out_def stream_charge_of_def no_effect_def open_state_def)
      next
        case (acted st st')
        from inv acted(2) have wf: "stream_wf st" "ss_StreamID st = sa_StreamID a" by (auto simp: stream_inv_def)
        from switch_conserves [OF acted(4) wf(1) acted(3)]
        have sw: "stream_wf st'" "same_terms st st'"
          "stream_escrow st' + unat (ee_ProviderDust ef) + unat (ee_PayerRefundDust ef) = stream_escrow st" by simp_all
        from wf(2) sw(2) have "ss_StreamID (touch st' a) = sa_StreamID a" by (simp add: same_terms_def touch_def)
        with put_stream_inv [OF inv, of "touch st' a" a] sw(1) have "stream_inv s'" by (simp add: acted(5))
        with ok sw(3) acted(1,2,5) put_stream_escrow [OF inv, of a "touch st' a"] show ?thesis
          by (simp add: stream_step_def stream_in_def stream_out_def stream_charge_of_def)
      qed
    qed
  qed
  then show "stream_inv (stream_step v s a)"
    and "escrow_total (stream_step v s a) + stream_out v s a = escrow_total s + stream_in v s a" by simp_all
qed

lemma new_streams_inv: "stream_inv NewStreamStateStore" "escrow_total NewStreamStateStore = 0"
  by (simp_all add: stream_inv_def NewStreamStateStore_def escrow_total_def)

text \<open>
  C5. Whatever actions are applied to an empty stream store, accepted or refused, what was escrowed by
  opening streams equals what the open streams still hold plus what was paid to providers and refunded
  to payers; and every stream is well formed: it has settled at most what it accrued, accrued exactly
  the rounded-down price of its cumulative usage and at most its budget, and a closed stream has paid
  out all of it.
\<close>

theorem stream_escrow_conserved:
  "let s = foldl (stream_step v) NewStreamStateStore as in
     stream_inv s \<and>
     escrow_total s + flow_sum (stream_step v) (stream_out v) NewStreamStateStore as =
       flow_sum (stream_step v) (stream_in v) NewStreamStateStore as"
  unfolding Let_def
  using stream_flow.run_inv [OF new_streams_inv(1), of v as]
    stream_flow.run_conserves [OF new_streams_inv(1), of v as] new_streams_inv(2) by simp

section \<open>Authority\<close>

definition closed_streams_kept :: "StreamStateStore \<Rightarrow> StreamStateStore \<Rightarrow> bool" where
  "closed_streams_kept s s' \<longleftrightarrow>
     (\<forall>i st. st_streams s i = Some st \<and> ss_Status st = StreamStatusClosed \<longrightarrow> st_streams s' i = Some st)"

lemma switch_party:
  assumes "stream_switch v st a = Inr (st', ef)"
  shows "sa_Action a \<in> {StreamActionReceipt, StreamActionSettle} \<Longrightarrow> EqualFold (sa_Sender a) (ss_Provider st)"
    and "sa_Action a \<in> {StreamActionPause, StreamActionResume, StreamActionClose} \<Longrightarrow> EqualFold (sa_Sender a) (ss_Payer st)"
    and "ee_ProviderDust ef \<noteq> 0 \<Longrightarrow> ee_Provider ef = ss_Provider st"
    and "ee_PayerRefundDust ef \<noteq> 0 \<Longrightarrow> sa_Action a = StreamActionClose \<and> ee_Payer ef = ss_Payer st"
proof -
  show "EqualFold (sa_Sender a) (ss_Provider st)" if "sa_Action a \<in> {StreamActionReceipt, StreamActionSettle}"
    using assms that
    by (auto simp: stream_switch_def stream_actions settle_action_def split: if_splits dest!: map_sum_InrD
        elim: receipt_actionD)
  show "EqualFold (sa_Sender a) (ss_Payer st)"
    if "sa_Action a \<in> {StreamActionPause, StreamActionResume, StreamActionClose}"
    using assms that
    by (auto simp: stream_switch_def stream_actions close_action_def pause_action_def resume_action_def Let_def
        split: if_splits dest!: map_sum_InrD)
  show "ee_Provider ef = ss_Provider st" if "ee_ProviderDust ef \<noteq> 0"
    using assms that
    by (auto simp: stream_switch_def settle_action_def close_action_def no_effect_def split: if_splits dest!: map_sum_InrD)
  show "sa_Action a = StreamActionClose \<and> ee_Payer ef = ss_Payer st" if "ee_PayerRefundDust ef \<noteq> 0"
    using assms that
    by (auto simp: stream_switch_def settle_action_def close_action_def no_effect_def split: if_splits dest!: map_sum_InrD)
qed

lemma put_stream_closed:
  assumes "\<And>st. st_streams s (sa_StreamID a) = Some st \<Longrightarrow> ss_Status st \<noteq> StreamStatusClosed"
  shows "closed_streams_kept s (put_stream s a st')"
  using assms by (auto simp: closed_streams_kept_def put_stream_def)

lemma applyAction_closed: "closed_streams_kept s (fst (applyAction v s a))"
proof (cases "applyAction v s a")
  case (Pair s' r)
  show ?thesis
  proof (cases r)
    case (Inl e)
    with Pair applyAction_err [of v s a s' e] show ?thesis by (simp add: closed_streams_kept_def)
  next
    case (Inr ef)
    with Pair have "applyAction v s a = (s', Inr ef)" by simp
    then show ?thesis
      by (cases rule: applyAction_cases) (auto simp: Pair intro: put_stream_closed)
  qed
qed

lemma switch_terms:
  assumes "stream_switch v st a = Inr (st', ef)"
  shows "same_terms st st'"
  using assms
  by (auto simp: stream_switch_def receipt_action_def pause_action_def resume_action_def settle_action_def close_action_def
      Let_def same_terms_def split: if_splits sum.splits dest!: map_sum_InrD)

lemma shape_action:
  assumes "validateStreamActionShape v a = None"
  shows "sa_Action a \<in> {StreamActionOpen, StreamActionReceipt, StreamActionPause, StreamActionResume,
    StreamActionSettle, StreamActionClose}"
  using assms by (auto simp: validateStreamActionShape_def split: if_splits option.splits)

text \<open>
  C21. An accepted action has a fresh identifier and touches only its stream. Opening a stream needs an
  unused stream identifier and makes the sender its payer; any other action needs an existing stream
  that is not closed, keeps the agreed terms, and was sent by the recorded provider (usage receipt,
  settlement) or by the recorded payer (pause, resume, close); money goes only to these two, and a
  refund only to the payer when closing.
\<close>

theorem stream_action_authorised:
  assumes "applyAction v s a = (s', Inr ef)"
  shows "sa_ID a \<notin> st_actionIDs s \<and> st_actionIDs s' = insert (sa_ID a) (st_actionIDs s)
    \<and> (i \<noteq> sa_StreamID a \<longrightarrow> st_streams s' i = st_streams s i)
    \<and> (if sa_Action a = StreamActionOpen
         then st_streams s (sa_StreamID a) = None \<and> st_streams s' (sa_StreamID a) = Some (open_state a) \<and> ef = no_effect
         else \<exists>st st'. st_streams s (sa_StreamID a) = Some st \<and> st_streams s' (sa_StreamID a) = Some st' \<and>
           ss_Status st \<noteq> StreamStatusClosed \<and> same_terms st st' \<and>
           EqualFold (sa_Sender a)
             (if sa_Action a \<in> {StreamActionReceipt, StreamActionSettle} then ss_Provider st else ss_Payer st) \<and>
           (ee_ProviderDust ef \<noteq> 0 \<longrightarrow> ee_Provider ef = ss_Provider st) \<and>
           (ee_PayerRefundDust ef \<noteq> 0 \<longrightarrow> sa_Action a = StreamActionClose \<and> ee_Payer ef = ss_Payer st))"
proof -
  from assms have *: "sa_ID a \<notin> st_actionIDs s \<and> st_actionIDs s' = insert (sa_ID a) (st_actionIDs s) \<and>
      (i \<noteq> sa_StreamID a \<longrightarrow> st_streams s' i = st_streams s i)"
    by (cases rule: applyAction_cases) (auto simp: put_stream_def)
  from assms have "if sa_Action a = StreamActionOpen
         then st_streams s (sa_StreamID a) = None \<and> st_streams s' (sa_StreamID a) = Some (open_state a) \<and> ef = no_effect
         else \<exists>st st'. st_streams s (sa_StreamID a) = Some st \<and> st_streams s' (sa_StreamID a) = Some st' \<and>
           ss_Status st \<noteq> StreamStatusClosed \<and> same_terms st st' \<and>
           EqualFold (sa_Sender a)
             (if sa_Action a \<in> {StreamActionReceipt, StreamActionSettle} then ss_Provider st else ss_Payer st) \<and>
           (ee_ProviderDust ef \<noteq> 0 \<longrightarrow> ee_Provider ef = ss_Provider st) \<and>
           (ee_PayerRefundDust ef \<noteq> 0 \<longrightarrow> sa_Action a = StreamActionClose \<and> ee_Payer ef = ss_Payer st)"
  proof (cases rule: applyAction_cases)
    case opened
    then show ?thesis by (simp add: put_stream_def)
  next
    case (acted st st')
    from shape_action [OF acted(6)] acted(1)
    have "sa_Action a \<notin> {StreamActionReceipt, StreamActionSettle} \<Longrightarrow>
        sa_Action a \<in> {StreamActionPause, StreamActionResume, StreamActionClose}" by auto
    with acted switch_party [OF acted(4)] switch_terms [OF acted(4)] show ?thesis
      by (simp add: put_stream_def)
  qed
  with * show ?thesis by blast
qed

definition demo_stream_env :: stream_env where
  "demo_stream_env =
     \<lparr>v_parse_time = (\<lambda>t. Some (int (length t))), v_json_action = (\<lambda>_. None), v_marshal_action = (\<lambda>_. None),
      v_marshal_receipt = (\<lambda>_. None), v_marshal_state = (\<lambda>_. []), v_sha256 = (\<lambda>x. x), v_mldsa_key_len = 32,
      v_mldsa_sig_len = 1, v_mldsa_verify = (\<lambda>_ _ _. True), v_ed25519_verify = (\<lambda>_ _ _. True)\<rparr>"

definition demo_wallet :: "char \<Rightarrow> string" where
  "demo_wallet c = EncodeToString (replicate 32 c)"

definition demo_open :: StreamAction where
  "demo_open =
     \<lparr>sa_ID = ''a1'', sa_Sender = demo_wallet CHR ''a'', sa_StreamID = ''s1'', sa_Action = StreamActionOpen,
      sa_Provider = demo_wallet CHR ''b'', sa_ServiceID = ''svc'', sa_DeviceIDHash = demo_wallet CHR ''0'',
      sa_SessionPublicKey = demo_wallet CHR ''1'', sa_PriceDust = 5, sa_PricePeriodSeconds = 2, sa_BudgetDust = 100,
      sa_MaxActiveSeconds = 10, sa_ExpiresAt = ''later'', sa_Receipt = None, sa_Nonce = 0, sa_Timestamp = ''t''\<rparr>"

definition demo_close :: StreamAction where
  "demo_close =
     \<lparr>sa_ID = ''a2'', sa_Sender = demo_wallet CHR ''a'', sa_StreamID = ''s1'', sa_Action = StreamActionClose,
      sa_Provider = [], sa_ServiceID = [], sa_DeviceIDHash = [], sa_SessionPublicKey = [], sa_PriceDust = 0,
      sa_PricePeriodSeconds = 0, sa_BudgetDust = 0, sa_MaxActiveSeconds = 0, sa_ExpiresAt = [], sa_Receipt = None,
      sa_Nonce = 1, sa_Timestamp = ''tt''\<rparr>"

definition demo_streams :: StreamStateStore where
  "demo_streams = fst (applyAction demo_stream_env NewStreamStateStore demo_open)"

lemma demo_wallet_ok [simp]:
  "validStreamWalletAddress (demo_wallet c)" "validSHA256Hex (demo_wallet c)" "TrimSpace (demo_wallet c) = demo_wallet c"
  "ToLower (demo_wallet c) = demo_wallet c" "DecodeHex (demo_wallet c) = Some (replicate 32 c)"
  by (simp_all add: demo_wallet_def validStreamWalletAddress_def validSHA256Hex_def)

lemma demo_wallet_lower [simp]: "map lower_char (demo_wallet c) = demo_wallet c"
  using demo_wallet_ok(4) [of c] by (simp only: ToLower_def)

lemma demo_wallet_eq [simp]: "demo_wallet c = demo_wallet d \<longleftrightarrow> c = d"
  by (auto simp: demo_wallet_def dest!: EncodeToString_inj)

lemmas demo_shape = validateStreamActionShape_def open_shape_def hasStreamOpenFields_def stream_actions
  validStreamIdentifier_def ident_char_def less_eq_char_def plain_char_def ToLower_def lower_char_def EqualFold_def

lemma demo_open_shape: "validateStreamActionShape demo_stream_env demo_open = None"
  by (simp add: demo_open_def demo_stream_env_def demo_shape)

lemma demo_close_shape: "validateStreamActionShape demo_stream_env demo_close = None"
  by (simp add: demo_close_def demo_stream_env_def demo_shape)

lemma demo_open_ok:
  "applyAction demo_stream_env NewStreamStateStore demo_open = (demo_streams, Inr no_effect)"
proof -
  have "snd (applyAction demo_stream_env NewStreamStateStore demo_open) = Inr no_effect"
    by (simp add: applyAction_def demo_open_shape NewStreamStateStore_def) (simp add: demo_open_def)
  then show ?thesis by (simp add: demo_streams_def prod_eq_iff)
qed

lemma demo_streams_eq: "demo_streams = put_stream NewStreamStateStore demo_open (open_state demo_open)"
  by (simp add: demo_streams_def applyAction_def demo_open_shape NewStreamStateStore_def) (simp add: demo_open_def)

lemma demo_close_ok:
  "snd (applyAction demo_stream_env demo_streams demo_close) =
     Inr \<lparr>ee_Provider = demo_wallet CHR ''b'', ee_ProviderDust = 0, ee_Payer = demo_wallet CHR ''a'', ee_PayerRefundDust = 100\<rparr>"
  by (simp add: applyAction_def demo_close_shape demo_streams_eq)
    (simp add: demo_open_def demo_close_def put_stream_def NewStreamStateStore_def open_state_def stream_actions
      stream_statuses ParseTime_def demo_stream_env_def stream_switch_def close_action_def EqualFold_def)

theorem stream_action_authorised_witness:
  "let (s', r) = applyAction demo_stream_env demo_streams demo_close in
     ''a2'' \<notin> st_actionIDs demo_streams \<and> st_actionIDs s' = insert ''a2'' (st_actionIDs demo_streams) \<and>
     (\<exists>st. st_streams demo_streams ''s1'' = Some st \<and> EqualFold (demo_wallet CHR ''a'') (ss_Payer st))"
proof -
  let ?r = "applyAction demo_stream_env demo_streams demo_close"
  from demo_close_ok obtain ef where ok: "?r = (fst ?r, Inr ef)" by (metis prod.collapse)
  from stream_action_authorised [OF ok] show ?thesis
    by (auto simp: demo_close_def stream_actions split_beta)
qed

section \<open>Actions apply once, closing is final\<close>

lemma applyAction_ids: "st_actionIDs s \<subseteq> st_actionIDs (fst (applyAction v s a))"
  by (auto simp: applyAction_def put_stream_def split: option.splits if_splits sum.splits)

interpretation stream_history: relation_kept "stream_step v"
  "\<lambda>s t. st_actionIDs s \<subseteq> st_actionIDs t \<and> closed_streams_kept s t" for v
proof
  fix s a
  show "st_actionIDs s \<subseteq> st_actionIDs (stream_step v s a) \<and> closed_streams_kept s (stream_step v s a)"
    using applyAction_ids [of s v a] applyAction_closed [of s v a] by (simp add: stream_step_def)
qed (auto simp: closed_streams_kept_def)

lemma duplicate_refused:
  "sa_ID a \<in> st_actionIDs s \<Longrightarrow> \<exists>e. applyAction v s a = (s, Inl e)"
  by (auto simp: applyAction_def split: option.split)

text \<open>
  An action is applied at most once and closing is final: after an action was accepted, and whatever
  actions follow, any action that carries the same identifier is refused without effect; and a stream
  that is closed stays exactly as it is.
\<close>

theorem stream_action_once:
  assumes "applyAction v s a = (s', Inr ef)" and "sa_ID b = sa_ID a"
  shows "\<exists>e. applyAction v (foldl (stream_step v) s' as) b = (foldl (stream_step v) s' as, Inl e)
    \<and> closed_streams_kept s' (foldl (stream_step v) s' as)"
proof -
  from assms(1) have "sa_ID a \<in> st_actionIDs s'"
    by (cases rule: applyAction_cases) (auto simp: put_stream_def)
  with stream_history.run_rel [of s' v as] assms(2)
  have "\<exists>e. applyAction v (foldl (stream_step v) s' as) b = (foldl (stream_step v) s' as, Inl e)"
    by (intro duplicate_refused) auto
  moreover have "closed_streams_kept s' (foldl (stream_step v) s' as)" using stream_history.run_rel by blast
  ultimately show ?thesis by blast
qed

theorem stream_action_once_witness:
  "\<exists>e. applyAction demo_stream_env (foldl (stream_step demo_stream_env) demo_streams [demo_close]) demo_open =
     (foldl (stream_step demo_stream_env) demo_streams [demo_close], Inl e)"
proof -
  from stream_action_once [OF demo_open_ok refl] show ?thesis by blast
qed

section \<open>Transactions on both stores\<close>

lemma restore_streams: "StreamRestore s s0 = s0 \<longleftrightarrow> True" "StreamClone s = s"
  by (simp_all add: StreamRestore_def StreamClone_def)

lemma credit_effect_nonce: "nonce_of (credit_effect oob fork acc ef) b = nonce_of acc b"
  by (simp add: credit_effect_def Let_def debit_credit_nonce)

definition stream_charge ::
  "AccountStore \<Rightarrow> StreamAction \<Rightarrow> u64 \<Rightarrow> AccountStore \<times> account_error option" where
  "stream_charge accounts a nonce =
     (if sa_Action a = StreamActionReceipt \<or> sa_Action a = StreamActionSettle
      then ChargeAndBumpNonceAllowCreate accounts (sa_Sender a) (dustToBalance (stream_charge_of a)) nonce
      else ChargeAndBumpNonce accounts (sa_Sender a) (dustToBalance (stream_charge_of a)) nonce)"

lemma stream_charge_err: "stream_charge acc a n = (acc', Some e) \<Longrightarrow> acc' = acc"
  using charge_nonce.run_err_same [of acc "(sa_Sender a, x, n)" acc' e for x]
    create_nonce.run_err_same [of acc "(sa_Sender a, x, n)" acc' e for x]
  by (auto simp: stream_charge_def split: if_splits)

lemma stream_charge_ok:
  assumes "stream_charge acc a n = (acc', None)"
  shows "nonce_of acc (sa_Sender a) = n"
    and "nonce_of acc' b = (if b = sa_Sender a then nonce_of acc b + 1 else nonce_of acc b)"
  using assms charge_nonce.run_ok_nonce [of acc "(sa_Sender a, x, n)" acc' for x]
    create_nonce.run_ok_nonce [of acc "(sa_Sender a, x, n)" acc' for x]
    charge_nonce.run_ok_bump [of acc "(sa_Sender a, x, n)" acc' b for x]
    create_nonce.run_ok_bump [of acc "(sa_Sender a, x, n)" acc' b for x]
  by (auto simp: stream_charge_def split: if_splits)

lemma ApplyEconomicTx_steps:
  "ApplyEconomicTx oob fork v (s, acc) tx =
     (case VerifyStreamActionTx v tx of
        Some e \<Rightarrow> ((s, acc), Some e)
      | None \<Rightarrow>
          (case DecodeStreamActionTx v tx of
             Inl e \<Rightarrow> ((s, acc), Some e)
           | Inr a \<Rightarrow>
               (case applyAction v s a of
                  (_, Inl e) \<Rightarrow> ((s, acc), Some e)
                | (s1, Inr ef) \<Rightarrow>
                    (case stream_charge acc a (tx_Nonce tx) of
                       (acc1, Some e) \<Rightarrow> ((s, acc1), Some (StreamChargeRefused e))
                     | (acc1, None) \<Rightarrow> ((s1, credit_effect oob fork acc1 ef), None)))))"
  by (auto simp: ApplyEconomicTx_def stream_charge_def restore_streams Let_def
      split: option.split sum.split prod.split)

text \<open>
  A stream transaction acts on the stream store and on the accounts together or not at all: refused
  for whatever reason, it changes neither. Applied, it was well formed and signed, its action was
  accepted by the stream store, it used the sender's current nonce, and it advanced only that nonce, by
  one. (The action cannot fail after the charge, because it already succeeded on the preview.)
\<close>

theorem stream_tx_atomic:
  "case ApplyEconomicTx oob fork v (s, acc) tx of
     ((s', acc'), Some _) \<Rightarrow> s' = s \<and> acc' = acc
   | ((s', acc'), None) \<Rightarrow>
       VerifyStreamActionTx v tx = None \<and>
       (\<exists>a ef acc1. DecodeStreamActionTx v tx = Inr a \<and> applyAction v s a = (s', Inr ef) \<and>
          stream_charge acc a (tx_Nonce tx) = (acc1, None) \<and> acc' = credit_effect oob fork acc1 ef \<and>
          nonce_of acc (sa_Sender a) = tx_Nonce tx \<and>
          (\<forall>b. nonce_of acc' b = (if b = sa_Sender a then nonce_of acc b + 1 else nonce_of acc b)))"
  by (auto simp: ApplyEconomicTx_steps credit_effect_nonce stream_charge_ok
      split: option.splits sum.splits prod.splits dest: stream_charge_err)

end
