(* ===== verification/Settlement.thy ===== *)
theory Settlement
  imports Validators Go_Strings
begin

text \<open>
  The settlement side of the edge pool (\<open>pkg/edgepool/protocol.go\<close>, \<open>settlement.go\<close>,
  \<open>mother_context.go\<close>): the aggregation of work receipts into a proof, the identity and the
  verification of a proof that the chain runs before it pays (\<open>VerifySettlementPoolProof\<close>), and the
  relay's settlement state with its three operations, binding payout wallets, issuing the pending proof
  and acknowledging it. JSON, SHA-256, HMAC, ML-DSA-87, the clock and the success of a write to disk are
  parameters; patterns over ASCII letters are predicates on characters. Lemmas: what a verified proof
  guarantees, a receipt is consumed by one proof only, and bindings are written once.
\<close>

section \<open>Constants and wire types\<close>

definition ProtocolVersion :: string where "ProtocolVersion = ''qsdm-edge-pool/v1''"
definition SettlementProtocolVersion :: string where "SettlementProtocolVersion = ''qsdm-edge-settlement/v1''"
definition SettlementProofSource :: string where "SettlementProofSource = ''qsdm-edge-relay-v2''"
definition ProductionEcosystemWallet :: string where
  "ProductionEcosystemWallet = ''651a79b2b1790820dd73bda81be24057e1bc27377c1f1117c6db2ab79dc038ea''"
definition ResourceCPU :: string where "ResourceCPU = ''cpu''"
definition ResourceGPU :: string where "ResourceGPU = ''gpu''"
definition ResourceRAM :: string where "ResourceRAM = ''ram''"
definition LegacyMotherID :: string where "LegacyMotherID = ''legacy''"

definition ResourceValid :: "string \<Rightarrow> bool" where
  "ResourceValid r \<longleftrightarrow> r = ResourceCPU \<or> r = ResourceGPU \<or> r = ResourceRAM"

record Receipt =
  rc_Version :: string
  rc_ReceiptID :: string
  rc_JobID :: string
  rc_MotherID :: string
  rc_WorkerID :: string
  rc_Resource :: string
  rc_Algorithm :: string
  rc_Digest :: string
  rc_Units :: u64
  rc_MemoryMiB :: u64
  rc_DurationMS :: "64 word"
  rc_CompletedAt :: string
  rc_AcceptedAt :: string
  rc_CoordinatorID :: string
  rc_Metadata :: "string \<rightharpoonup> string"

record PoolProof =
  pp_Version :: string
  pp_ProofID :: string
  pp_CoordinatorID :: string
  pp_Resource :: string
  pp_WindowStart :: string
  pp_WindowEnd :: string
  pp_WorkerCount :: int
  pp_JobCount :: int
  pp_TotalUnits :: u64
  pp_TotalMemoryMiB :: u64
  pp_ReceiptRoot :: string
  pp_ReceiptIDs :: "string list"
  pp_Signature :: string
  pp_SettlementVersion :: string
  pp_ContributorWallet :: string
  pp_MotherHiveWallet :: string
  pp_EcosystemWallet :: string
  pp_RelayPublicKey :: string
  pp_RelaySignature :: string

record settlementProofIdentity =
  si_ProtocolVersion :: string
  si_SettlementVersion :: string
  si_CoordinatorID :: string
  si_Resource :: string
  si_WindowStart :: string
  si_WindowEnd :: string
  si_WorkerCount :: int
  si_JobCount :: int
  si_TotalUnits :: u64
  si_TotalMemoryMiB :: u64
  si_ReceiptRoot :: string
  si_ReceiptIDs :: "string list"
  si_ContributorWallet :: string
  si_MotherHiveWallet :: string
  si_EcosystemWallet :: string
  si_RelayPublicKey :: string

record settlementProofSignedBody =
  sb_Domain :: string
  sb_ProofID :: string
  sb_Proof :: settlementProofIdentity

record SettlementBinding =
  bd_Version :: string
  bd_ContributorWallet :: string
  bd_MotherHiveWallet :: string
  bd_EcosystemWallet :: string
  bd_BoundAt :: string

record SettlementBindRequest =
  br_Version :: string
  br_ContributorWallet :: string
  br_MotherHiveWallet :: string
  br_EcosystemWallet :: string

record SettlementAckRequest =
  ak_Version :: string
  ak_ProofID :: string

record SettlementAckResponse =
  ar_OK :: bool
  ar_ProofID :: string
  ar_Resource :: string
  ar_ConsumedReceipts :: int
  ar_AcknowledgedAt :: string

record relay_env =
  re_sha256 :: "string \<Rightarrow> string"
  re_hmac :: "string \<Rightarrow> string \<Rightarrow> string"
  re_marshal_identity :: "settlementProofIdentity \<Rightarrow> string option"
  re_marshal_body :: "settlementProofSignedBody \<Rightarrow> string option"
  re_parse_time :: "string \<Rightarrow> int option"
  re_format_time :: "int \<Rightarrow> string"
  re_key_ok :: "string \<Rightarrow> bool"
  re_verify :: "string \<Rightarrow> string \<Rightarrow> string \<Rightarrow> bool"
  re_sign :: "string \<Rightarrow> string option"

datatype settle_error =
    BadVersion
  | BadCoordinator
  | BadRelayKey
  | BadResource
  | BadWallet
  | BadAccounting
  | TooManyReceipts
  | BadReceiptRoot
  | BadReceiptID
  | DuplicateReceiptID
  | UnsortedReceiptIDs
  | MarshalFailed
  | ProofIDMismatch
  | BadRelaySignature
  | BadMotherID
  | BindingInvalid
  | BindingConflict
  | NotBound
  | NoReceipts
  | SignFailed
  | PersistFailed
  | AckInvalid
  | ProofNotFound

section \<open>Identifiers\<close>

definition ascii_alnum :: "char \<Rightarrow> bool" where
  "ascii_alnum c \<longleftrightarrow> of_char c \<in> {48..57::nat} \<or> of_char c \<in> {65..90::nat} \<or> of_char c \<in> {97..122::nat}"

definition workerIDPattern :: "string \<Rightarrow> bool" where
  "workerIDPattern s \<longleftrightarrow> s \<noteq> [] \<and> length s \<le> 64 \<and> ascii_alnum (hd s) \<and>
     list_all (\<lambda>c. ascii_alnum c \<or> c \<in> {CHR ''.'', CHR ''_'', CHR ''-''}) (tl s)"

definition ValidateWorkerID :: "string \<Rightarrow> bool" where
  "ValidateWorkerID s \<longleftrightarrow> workerIDPattern s"

definition normalizeReceiptMotherID :: "string \<Rightarrow> string" where
  "normalizeReceiptMotherID value = (let t = ToLower (TrimSpace value) in if t = [] then LegacyMotherID else t)"

definition hex24 :: "string \<Rightarrow> bool" where
  "hex24 s \<longleftrightarrow> length s = 24 \<and> list_all (\<lambda>c. of_char c \<in> {48..57::nat} \<or> of_char c \<in> {97..102::nat}) s"

definition motherIDPattern :: "string \<Rightarrow> bool" where
  "motherIDPattern s \<longleftrightarrow> take 7 s = ''mother-'' \<and> hex24 (drop 7 s)"

definition federatedMotherIDPattern :: "string \<Rightarrow> bool" where
  "federatedMotherIDPattern s \<longleftrightarrow> take 11 s = ''federation-'' \<and> hex24 (drop 11 s)"

definition validMotherTenantID :: "string \<Rightarrow> bool" where
  "validMotherTenantID value \<longleftrightarrow> (let t = normalizeReceiptMotherID value
     in t = LegacyMotherID \<or> motherIDPattern t \<or> federatedMotherIDPattern t)"

text \<open>\<open>hex.DecodeString\<close> succeeds with 32 bytes.\<close>

definition hex32 :: "string \<Rightarrow> bool" where
  "hex32 s \<longleftrightarrow> (case DecodeHex s of Some d \<Rightarrow> length d = 32 | None \<Rightarrow> False)"

definition validSettlementWallet :: "string \<Rightarrow> bool" where
  "validSettlementWallet address \<longleftrightarrow> hex32 (TrimSpace address)"

definition ValidateSettlementRelayPublicKey :: "relay_env \<Rightarrow> string \<Rightarrow> bool" where
  "ValidateSettlementRelayPublicKey e encoded \<longleftrightarrow>
     (case DecodeHex (ToLower (TrimSpace encoded)) of
        None \<Rightarrow> False
      | Some k \<Rightarrow> length k = 2592 \<and> re_key_ok e k)"

definition SettlementRelayID :: "relay_env \<Rightarrow> string \<Rightarrow> string option" where
  "SettlementRelayID e encodedPublicKey =
     (let canonical = ToLower (TrimSpace encodedPublicKey)
      in if \<not> ValidateSettlementRelayPublicKey e canonical then None
         else Some (EncodeToString (re_sha256 e
                (''QSDM-EDGE-RELAY-ID'' @ [CHR 0x00] @ the (DecodeHex canonical)))))"

section \<open>Proofs\<close>

definition settlementIdentity :: "PoolProof \<Rightarrow> settlementProofIdentity" where
  "settlementIdentity p = \<lparr>si_ProtocolVersion = pp_Version p, si_SettlementVersion = pp_SettlementVersion p,
     si_CoordinatorID = pp_CoordinatorID p, si_Resource = pp_Resource p, si_WindowStart = pp_WindowStart p,
     si_WindowEnd = pp_WindowEnd p, si_WorkerCount = pp_WorkerCount p, si_JobCount = pp_JobCount p,
     si_TotalUnits = pp_TotalUnits p, si_TotalMemoryMiB = pp_TotalMemoryMiB p,
     si_ReceiptRoot = ToLower (pp_ReceiptRoot p), si_ReceiptIDs = pp_ReceiptIDs p,
     si_ContributorWallet = ToLower (pp_ContributorWallet p), si_MotherHiveWallet = ToLower (pp_MotherHiveWallet p),
     si_EcosystemWallet = ToLower (pp_EcosystemWallet p), si_RelayPublicKey = ToLower (pp_RelayPublicKey p)\<rparr>"

definition SettlementProofID :: "relay_env \<Rightarrow> PoolProof \<Rightarrow> string option" where
  "SettlementProofID e p =
     (case re_marshal_identity e (settlementIdentity p) of
        None \<Rightarrow> None
      | Some raw \<Rightarrow> Some (EncodeToString (re_sha256 e (''QSDM-EDGE-SETTLEMENT-ID'' @ [CHR 0x00] @ raw))))"

definition SettlementProofCanonicalBytes :: "relay_env \<Rightarrow> PoolProof \<Rightarrow> string option" where
  "SettlementProofCanonicalBytes e p =
     re_marshal_body e \<lparr>sb_Domain = SettlementProtocolVersion, sb_ProofID = ToLower (pp_ProofID p),
       sb_Proof = settlementIdentity p\<rparr>"

definition canonical_receipt :: "string \<Rightarrow> string" where
  "canonical_receipt r = ToLower (TrimSpace r)"

fun check_receipts :: "string set \<Rightarrow> string \<Rightarrow> string list \<Rightarrow> settle_error option" where
  "check_receipts seen previous [] = None"
| "check_receipts seen previous (receiptID # rest) =
     (let canonical = canonical_receipt receiptID
      in if \<not> hex32 canonical then Some BadReceiptID
         else if canonical \<in> seen then Some DuplicateReceiptID
         else if previous \<noteq> [] \<and> canonical \<le> previous then Some UnsortedReceiptIDs
         else check_receipts (insert canonical seen) canonical rest)"

text \<open>The error of decoding the key is ignored: a key with white space behind it decodes to the key.\<close>

definition verify_relay_signature :: "relay_env \<Rightarrow> PoolProof \<Rightarrow> settle_error option" where
  "verify_relay_signature e p =
     (let publicKeyBytes = DecodedHex (pp_RelayPublicKey p)
      in case DecodeHex (pp_RelaySignature p) of
           None \<Rightarrow> Some BadRelaySignature
         | Some signature \<Rightarrow>
             if length signature \<noteq> 4627 then Some BadRelaySignature
             else (case SettlementProofCanonicalBytes e p of
                 None \<Rightarrow> Some MarshalFailed
               | Some canonical \<Rightarrow>
                   if \<not> re_key_ok e publicKeyBytes then Some BadRelayKey
                   else if \<not> re_verify e publicKeyBytes canonical signature then Some BadRelaySignature
                   else None))"

definition VerifySettlementPoolProof :: "relay_env \<Rightarrow> PoolProof \<Rightarrow> settle_error option" where
  "VerifySettlementPoolProof e p =
     (if pp_Version p \<noteq> ProtocolVersion then Some BadVersion
      else if pp_SettlementVersion p \<noteq> SettlementProtocolVersion then Some BadVersion
      else if \<not> ValidateWorkerID (pp_CoordinatorID p) then Some BadCoordinator
      else (case SettlementRelayID e (pp_RelayPublicKey p) of
          None \<Rightarrow> Some BadRelayKey
        | Some expectedRelayID \<Rightarrow>
            if \<not> EqualFold (pp_CoordinatorID p) expectedRelayID then Some BadCoordinator
            else if \<not> ResourceValid (pp_Resource p) then Some BadResource
            else if \<not> validSettlementWallet (pp_ContributorWallet p) \<or> \<not> validSettlementWallet (pp_MotherHiveWallet p) \<or>
                \<not> validSettlementWallet (pp_EcosystemWallet p) then Some BadWallet
            else if pp_JobCount p \<le> 0 \<or> pp_WorkerCount p \<le> 0 \<or> pp_JobCount p < pp_WorkerCount p then Some BadAccounting
            else if pp_JobCount p \<noteq> int (length (pp_ReceiptIDs p)) \<or> pp_TotalUnits p = 0 then Some BadAccounting
            else if 512 < length (pp_ReceiptIDs p) then Some TooManyReceipts
            else if \<not> hex32 (pp_ReceiptRoot p) then Some BadReceiptRoot
            else (case check_receipts {} [] (pp_ReceiptIDs p) of
                Some err \<Rightarrow> Some err
              | None \<Rightarrow>
                  (case SettlementProofID e p of
                     None \<Rightarrow> Some MarshalFailed
                   | Some expectedID \<Rightarrow>
                       if \<not> EqualFold expectedID (pp_ProofID p) then Some ProofIDMismatch
                       else verify_relay_signature e p))))"

text \<open>The zero value of \<open>time.Time\<close>, in nanoseconds from the Unix epoch.\<close>

definition zero_time :: int where "zero_time = - 62135596800 * 10 ^ 9"

definition comma_join :: "string \<Rightarrow> string list \<Rightarrow> string" where
  "comma_join sep xs = (case xs of [] \<Rightarrow> [] | y # ys \<Rightarrow> y @ concat (map (\<lambda>z. sep @ z) ys))"

definition show_int :: "int \<Rightarrow> string" where
  "show_int n = (if n < 0 then CHR ''-'' # show_nat (nat (- n)) else show_nat (nat n))"

definition PoolProofSignature :: "relay_env \<Rightarrow> string \<Rightarrow> PoolProof \<Rightarrow> string" where
  "PoolProofSignature e token p =
     EncodeToString (re_hmac e token (comma_join [CHR 0x0A]
       [pp_Version p, pp_ProofID p, pp_CoordinatorID p, pp_Resource p, pp_WindowStart p, pp_WindowEnd p,
        show_int (pp_WorkerCount p), show_int (pp_JobCount p), show_nat (unat (pp_TotalUnits p)),
        show_nat (unat (pp_TotalMemoryMiB p)), pp_ReceiptRoot p, comma_join '','' (pp_ReceiptIDs p)]))"

definition VerifyPoolProof :: "relay_env \<Rightarrow> string \<Rightarrow> PoolProof \<Rightarrow> bool" where
  "VerifyPoolProof e token p =
     (case DecodeHex (pp_Signature p) of
        None \<Rightarrow> False
      | Some provided \<Rightarrow>
          (case DecodeHex (PoolProofSignature e token p) of None \<Rightarrow> False | Some expected \<Rightarrow> provided = expected))"

definition window_step :: "relay_env \<Rightarrow> int \<times> int \<Rightarrow> Receipt \<Rightarrow> int \<times> int" where
  "window_step e w r =
     (case re_parse_time e (rc_AcceptedAt r) of
        None \<Rightarrow> w
      | Some accepted \<Rightarrow> (if accepted < fst w then accepted else fst w, if snd w < accepted then accepted else snd w))"

definition AggregateReceipts :: "relay_env \<Rightarrow> string \<Rightarrow> string \<Rightarrow> Receipt list \<Rightarrow> int \<Rightarrow> PoolProof" where
  "AggregateReceipts e coordinatorID resource receipts now =
     (let used = filter (\<lambda>r. rc_Resource r = resource) (sort_slice (\<lambda>x y. rc_ReceiptID x < rc_ReceiptID y) receipts);
          receiptIDs = map rc_ReceiptID used;
          totalUnits = foldl (\<lambda>n r. n + rc_Units r) 0 used;
          totalMemory = foldl (\<lambda>n r. n + rc_MemoryMiB r) 0 used;
          w = foldl (window_step e) (now, zero_time) used;
          windowEnd = (if snd w = zero_time then now else snd w);
          root = EncodeToString (re_sha256 e (concat (map (\<lambda>r. rc_ReceiptID r @ rc_Digest r) used)))
      in \<lparr>pp_Version = ProtocolVersion,
          pp_ProofID = EncodeToString (re_sha256 e (comma_join '':''
            [ProtocolVersion, coordinatorID, resource, root, show_nat (unat totalUnits)])),
          pp_CoordinatorID = coordinatorID, pp_Resource = resource,
          pp_WindowStart = re_format_time e (fst w), pp_WindowEnd = re_format_time e windowEnd,
          pp_WorkerCount = int (card (rc_WorkerID ` set used)), pp_JobCount = int (length receiptIDs),
          pp_TotalUnits = totalUnits, pp_TotalMemoryMiB = totalMemory, pp_ReceiptRoot = root, pp_ReceiptIDs = receiptIDs,
          pp_Signature = [], pp_SettlementVersion = [], pp_ContributorWallet = [], pp_MotherHiveWallet = [],
          pp_EcosystemWallet = [], pp_RelayPublicKey = [], pp_RelaySignature = []\<rparr>)"

section \<open>The relay's settlement state\<close>

record tenantSettlementState =
  tn_Binding :: "SettlementBinding option"
  tn_Pending :: "string \<rightharpoonup> PoolProof"
  tn_AcknowledgedProofs :: "string \<rightharpoonup> SettlementAckResponse"

record settlementState =
  sm_Version :: int
  sm_Tenants :: "string \<rightharpoonup> tenantSettlementState"
  sm_ConsumedReceipts :: "string \<rightharpoonup> string"

definition newSettlementState :: settlementState where
  "newSettlementState = \<lparr>sm_Version = 2, sm_Tenants = Map.empty, sm_ConsumedReceipts = Map.empty\<rparr>"

definition newTenantSettlementState :: tenantSettlementState where
  "newTenantSettlementState = \<lparr>tn_Binding = None, tn_Pending = Map.empty, tn_AcknowledgedProofs = Map.empty\<rparr>"

text \<open>The copies are deep; the values of the model are shared freely.\<close>

definition cloneSettlementState :: "settlementState \<Rightarrow> settlementState" where
  "cloneSettlementState state = newSettlementState\<lparr>sm_Version := sm_Version state, sm_Tenants := sm_Tenants state,
     sm_ConsumedReceipts := sm_ConsumedReceipts state\<rparr>"

definition settlementTenant :: "settlementState \<Rightarrow> string \<Rightarrow> tenantSettlementState" where
  "settlementTenant state motherID =
     (case sm_Tenants state (normalizeReceiptMotherID motherID) of
        None \<Rightarrow> newTenantSettlementState
      | Some t \<Rightarrow> t)"

definition settlementPendingProofIDs :: "tenantSettlementState \<Rightarrow> (string \<rightharpoonup> string)" where
  "settlementPendingProofIDs t = map_option pp_ProofID \<circ> tn_Pending t"

definition validateSettlementBinding :: "relay_env \<Rightarrow> SettlementBinding \<Rightarrow> settle_error option" where
  "validateSettlementBinding e b =
     (if bd_Version b \<noteq> SettlementProtocolVersion then Some BindingInvalid
      else if \<not> validSettlementWallet (bd_ContributorWallet b) then Some BadWallet
      else if \<not> validSettlementWallet (bd_MotherHiveWallet b) then Some BadWallet
      else if \<not> validSettlementWallet (bd_EcosystemWallet b) then Some BadWallet
      else if \<not> EqualFold (bd_EcosystemWallet b) ProductionEcosystemWallet then Some BadWallet
      else if re_parse_time e (bd_BoundAt b) = None then Some BindingInvalid
      else None)"

record CoordinatorConfig =
  co_ProofWindow :: int
  co_MaxProofReceipts :: int
  co_MotherToken :: string

record Coordinator =
  co_config :: CoordinatorConfig
  co_settlement :: settlementState
  co_receipts :: "Receipt list"
  co_settlementPublicKey :: string

definition sortedUnconsumedReceipts ::
  "relay_env \<Rightarrow> Receipt list \<Rightarrow> (string \<rightharpoonup> string) \<Rightarrow> string \<Rightarrow> string \<Rightarrow> int \<Rightarrow> int \<Rightarrow> Receipt list" where
  "sortedUnconsumedReceipts e receipts consumed motherID resource cutoff limit =
     (let selected = sort_slice (\<lambda>x y. rc_ReceiptID x < rc_ReceiptID y)
            (filter (\<lambda>r. rc_Resource r = resource \<and>
               normalizeReceiptMotherID (rc_MotherID r) = normalizeReceiptMotherID motherID \<and>
               consumed (ToLower (rc_ReceiptID r)) = None \<and>
               (case re_parse_time e (rc_AcceptedAt r) of None \<Rightarrow> False | Some accepted \<Rightarrow> cutoff \<le> accepted)) receipts)
      in if limit < int (length selected) then take (nat limit) selected else selected)"

definition same_binding :: "SettlementBinding \<Rightarrow> SettlementBinding \<Rightarrow> bool" where
  "same_binding x y \<longleftrightarrow> bd_Version x = bd_Version y \<and> EqualFold (bd_ContributorWallet x) (bd_ContributorWallet y) \<and>
     EqualFold (bd_MotherHiveWallet x) (bd_MotherHiveWallet y) \<and> EqualFold (bd_EcosystemWallet x) (bd_EcosystemWallet y)"

text \<open>\<open>saved\<close> says whether the write of the new state to disk succeeds.\<close>

definition BindSettlementForMother ::
  "relay_env \<Rightarrow> bool \<Rightarrow> Coordinator \<Rightarrow> string \<Rightarrow> SettlementBindRequest \<Rightarrow> int \<Rightarrow>
     Coordinator \<times> (settle_error + SettlementBinding)" where
  "BindSettlementForMother e saved c mother request now =
     (let motherID = normalizeReceiptMotherID mother
      in if \<not> validMotherTenantID motherID then (c, Inl BadMotherID)
         else (let binding = \<lparr>bd_Version = TrimSpace (br_Version request),
                     bd_ContributorWallet = ToLower (TrimSpace (br_ContributorWallet request)),
                     bd_MotherHiveWallet = ToLower (TrimSpace (br_MotherHiveWallet request)),
                     bd_EcosystemWallet = ToLower (TrimSpace (br_EcosystemWallet request)),
                     bd_BoundAt = re_format_time e now\<rparr>
               in case validateSettlementBinding e binding of
                    Some err \<Rightarrow> (c, Inl err)
                  | None \<Rightarrow>
                      (let tenant = settlementTenant (co_settlement c) motherID
                       in case tn_Binding tenant of
                            Some existing \<Rightarrow>
                              (if same_binding existing binding then (c, Inr existing) else (c, Inl BindingConflict))
                          | None \<Rightarrow>
                              (let state = cloneSettlementState (co_settlement c);
                                   state' = state\<lparr>sm_Tenants := (sm_Tenants state)(motherID \<mapsto> tenant\<lparr>tn_Binding := Some binding\<rparr>)\<rparr>
                               in if \<not> saved then (c, Inl PersistFailed)
                                  else (c\<lparr>co_settlement := state'\<rparr>, Inr binding)))))"

definition settlement_proof :: "relay_env \<Rightarrow> Coordinator \<Rightarrow> SettlementBinding \<Rightarrow> string \<Rightarrow> string \<Rightarrow> Receipt list \<Rightarrow> int \<Rightarrow>
    settle_error + PoolProof" where
  "settlement_proof e c binding relayID resource selected now =
     (let p0 = (AggregateReceipts e relayID resource selected now)
            \<lparr>pp_SettlementVersion := SettlementProtocolVersion, pp_ContributorWallet := bd_ContributorWallet binding,
             pp_MotherHiveWallet := bd_MotherHiveWallet binding, pp_EcosystemWallet := bd_EcosystemWallet binding,
             pp_RelayPublicKey := co_settlementPublicKey c\<rparr>
      in case SettlementProofID e p0 of
           None \<Rightarrow> Inl MarshalFailed
         | Some proofID \<Rightarrow>
             (let p1 = p0\<lparr>pp_ProofID := proofID\<rparr>;
                  p2 = p1\<lparr>pp_Signature := PoolProofSignature e (co_MotherToken (co_config c)) p1\<rparr>
              in case SettlementProofCanonicalBytes e p2 of
                   None \<Rightarrow> Inl MarshalFailed
                 | Some canonical \<Rightarrow>
                     (case re_sign e canonical of
                        None \<Rightarrow> Inl SignFailed
                      | Some signature \<Rightarrow>
                          (let p3 = p2\<lparr>pp_RelaySignature := EncodeToString signature\<rparr>
                           in case VerifySettlementPoolProof e p3 of Some err \<Rightarrow> Inl err | None \<Rightarrow> Inr p3))))"

definition LatestSettlementProofForMother ::
  "relay_env \<Rightarrow> bool \<Rightarrow> Coordinator \<Rightarrow> string \<Rightarrow> string \<Rightarrow> int \<Rightarrow> Coordinator \<times> (settle_error + PoolProof)" where
  "LatestSettlementProofForMother e saved c mother resource now =
     (let motherID = normalizeReceiptMotherID mother
      in if \<not> validMotherTenantID motherID then (c, Inl BadMotherID)
         else if \<not> ResourceValid resource then (c, Inl BadResource)
         else (let tenant = settlementTenant (co_settlement c) motherID
               in case tn_Pending tenant resource of
                    Some pending \<Rightarrow> (c, Inr pending)
                  | None \<Rightarrow>
                      (case tn_Binding tenant of
                         None \<Rightarrow> (c, Inl NotBound)
                       | Some binding \<Rightarrow>
                           (let selected = sortedUnconsumedReceipts e (co_receipts c)
                                  (sm_ConsumedReceipts (co_settlement c)) motherID resource
                                  (now - co_ProofWindow (co_config c)) (co_MaxProofReceipts (co_config c))
                            in if selected = [] then (c, Inl NoReceipts)
                               else (case SettlementRelayID e (co_settlementPublicKey c) of
                                   None \<Rightarrow> (c, Inl BadRelayKey)
                                 | Some relayID \<Rightarrow>
                                     (case settlement_proof e c binding relayID resource selected now of
                                        Inl err \<Rightarrow> (c, Inl err)
                                      | Inr pf \<Rightarrow>
                                          (let state = cloneSettlementState (co_settlement c);
                                               state' = state\<lparr>sm_Tenants := (sm_Tenants state)(motherID \<mapsto>
                                                  tenant\<lparr>tn_Pending := (tn_Pending tenant)(resource \<mapsto> pf)\<rparr>)\<rparr>
                                           in if \<not> saved then (c, Inl PersistFailed)
                                              else (c\<lparr>co_settlement := state'\<rparr>, Inr pf))))))))"

text \<open>The search over the pending proofs follows the iteration order \<open>rs\<close> of the map.\<close>

fun find_pending :: "tenantSettlementState \<Rightarrow> string list \<Rightarrow> string \<Rightarrow> (string \<times> PoolProof) option" where
  "find_pending tenant [] proofID = None"
| "find_pending tenant (r # rs) proofID =
     (case tn_Pending tenant r of
        None \<Rightarrow> find_pending tenant rs proofID
      | Some candidate \<Rightarrow>
          if EqualFold (pp_ProofID candidate) proofID then Some (r, candidate) else find_pending tenant rs proofID)"

definition AcknowledgeSettlementProofForMother ::
  "relay_env \<Rightarrow> bool \<Rightarrow> string list \<Rightarrow> Coordinator \<Rightarrow> string \<Rightarrow> SettlementAckRequest \<Rightarrow> int \<Rightarrow>
     Coordinator \<times> (settle_error + SettlementAckResponse)" where
  "AcknowledgeSettlementProofForMother e saved rs c mother request now =
     (let motherID = normalizeReceiptMotherID mother;
          proofID = ToLower (TrimSpace (ak_ProofID request))
      in if \<not> validMotherTenantID motherID then (c, Inl BadMotherID)
         else if TrimSpace (ak_Version request) \<noteq> SettlementProtocolVersion then (c, Inl AckInvalid)
         else if \<not> hex32 proofID then (c, Inl AckInvalid)
         else (let tenant = settlementTenant (co_settlement c) motherID
               in case tn_AcknowledgedProofs tenant proofID of
                    Some acknowledged \<Rightarrow> (c, Inr acknowledged)
                  | None \<Rightarrow>
                      (case find_pending tenant rs proofID of
                         None \<Rightarrow> (c, Inl ProofNotFound)
                       | Some (resource, pf) \<Rightarrow>
                           if \<not> ResourceValid resource then (c, Inl ProofNotFound)
                           else (let ack = \<lparr>ar_OK = True, ar_ProofID = proofID, ar_Resource = resource,
                                       ar_ConsumedReceipts = int (length (pp_ReceiptIDs pf)),
                                       ar_AcknowledgedAt = re_format_time e now\<rparr>;
                                     state = cloneSettlementState (co_settlement c);
                                     state' = state\<lparr>sm_ConsumedReceipts :=
                                         foldl (\<lambda>m r. m(ToLower r \<mapsto> proofID)) (sm_ConsumedReceipts state) (pp_ReceiptIDs pf),
                                       sm_Tenants := (sm_Tenants state)(motherID \<mapsto>
                                         tenant\<lparr>tn_Pending := (tn_Pending tenant)(resource := None),
                                                tn_AcknowledgedProofs := (tn_AcknowledgedProofs tenant)(proofID \<mapsto> ack)\<rparr>)\<rparr>
                                 in if \<not> saved then (c, Inl PersistFailed)
                                    else (c\<lparr>co_settlement := state'\<rparr>, Inr ack)))))"

section \<open>What a verified proof guarantees\<close>

lemma hex32_nonempty: "hex32 s \<Longrightarrow> s \<noteq> []"
  by (auto simp: hex32_def)

lemma check_receipts_ok:
  assumes "check_receipts seen previous rs = None"
  shows "set (map canonical_receipt rs) \<inter> seen = {} \<and> list_all (\<lambda>r. hex32 (canonical_receipt r)) rs \<and>
    sorted_wrt (<) (map canonical_receipt rs) \<and> (previous \<noteq> [] \<longrightarrow> (\<forall>r \<in> set rs. previous < canonical_receipt r))"
  using assms
proof (induction seen previous rs rule: check_receipts.induct)
  case (2 seen previous r rest)
  let ?c = "canonical_receipt r"
  from 2(2) have c: "hex32 ?c" "?c \<notin> seen" "\<not> (previous \<noteq> [] \<and> ?c \<le> previous)"
    and rest: "check_receipts (insert ?c seen) ?c rest = None"
    by (simp_all add: Let_def split: if_splits)
  from 2(1) [OF refl _ _ _ rest] c have ih: "set (map canonical_receipt rest) \<inter> insert ?c seen = {}"
    "list_all (\<lambda>r. hex32 (canonical_receipt r)) rest" "sorted_wrt (<) (map canonical_receipt rest)"
    "\<forall>x \<in> set rest. ?c < canonical_receipt x" by (auto dest: hex32_nonempty)
  with c show ?case by (auto intro: less_trans)
qed simp

lemma sorted_wrt_less_distinct: "sorted_wrt (<) (xs :: 'a :: order list) \<Longrightarrow> distinct xs"
  by (induction xs) auto

lemma verified_proof_facts:
  assumes "VerifySettlementPoolProof e p = None"
  shows "sorted_wrt (<) (map canonical_receipt (pp_ReceiptIDs p))"
    and "pp_JobCount p = int (length (pp_ReceiptIDs p))" and "pp_ReceiptIDs p \<noteq> []"
    and "\<exists>i. SettlementRelayID e (pp_RelayPublicKey p) = Some i \<and> EqualFold (pp_CoordinatorID p) i"
    and "\<exists>i. SettlementProofID e p = Some i \<and> EqualFold i (pp_ProofID p)"
    and "verify_relay_signature e p = None"
proof -
  from assms have c: "check_receipts {} [] (pp_ReceiptIDs p) = None" and j: "0 < pp_JobCount p" "pp_JobCount p = int (length (pp_ReceiptIDs p))"
    by (auto simp: VerifySettlementPoolProof_def split: if_splits option.splits)
  from check_receipts_ok [OF c] show "sorted_wrt (<) (map canonical_receipt (pp_ReceiptIDs p))" by simp
  from j show "pp_JobCount p = int (length (pp_ReceiptIDs p))" and "pp_ReceiptIDs p \<noteq> []" by auto
  from assms show "\<exists>i. SettlementRelayID e (pp_RelayPublicKey p) = Some i \<and> EqualFold (pp_CoordinatorID p) i"
    and "\<exists>i. SettlementProofID e p = Some i \<and> EqualFold i (pp_ProofID p)" and "verify_relay_signature e p = None"
    by (auto simp: VerifySettlementPoolProof_def split: if_splits option.splits)
qed

section \<open>Receipts are consumed once\<close>

lemma normalize_idem [simp]: "normalizeReceiptMotherID (normalizeReceiptMotherID m) = normalizeReceiptMotherID m"
proof -
  have "TrimSpace LegacyMotherID = LegacyMotherID" "ToLower LegacyMotherID = LegacyMotherID"
    by (simp_all add: LegacyMotherID_def plain_char_def ToLower_def lower_char_def less_eq_char_def)
  then show ?thesis
    by (simp add: normalizeReceiptMotherID_def Let_def TrimSpace_ToLower LegacyMotherID_def)
qed

text \<open>The steps of a relay: its settlement operations, and a verified result whose receipt is appended
  unless the job has one.\<close>

datatype relay_op =
    OpBind bool string SettlementBindRequest int
  | OpLatest bool string string int
  | OpAck bool "string list" string SettlementAckRequest int
  | OpReceipt Receipt

definition relay_step :: "relay_env \<Rightarrow> Coordinator \<Rightarrow> relay_op \<Rightarrow> Coordinator" where
  "relay_step e c p = (case p of
       OpBind saved m q now \<Rightarrow> fst (BindSettlementForMother e saved c m q now)
     | OpLatest saved m r now \<Rightarrow> fst (LatestSettlementProofForMother e saved c m r now)
     | OpAck saved rs m q now \<Rightarrow> fst (AcknowledgeSettlementProofForMother e saved rs c m q now)
     | OpReceipt r \<Rightarrow> if list_ex (\<lambda>x. rc_JobID x = rc_JobID r) (co_receipts c) then c
                      else c\<lparr>co_receipts := co_receipts c @ [r]\<rparr>)"

definition receipts_known :: "(string \<Rightarrow> string) \<Rightarrow> Receipt list \<Rightarrow> bool" where
  "receipts_known rid rs \<longleftrightarrow> distinct (map rc_JobID rs) \<and> (\<forall>r \<in> set rs. ToLower (rc_ReceiptID r) = rid (rc_JobID r))"

definition pending_ok :: "Coordinator \<Rightarrow> string \<Rightarrow> string \<Rightarrow> PoolProof \<Rightarrow> bool" where
  "pending_ok c m r pf \<longleftrightarrow> (\<forall>x \<in> set (pp_ReceiptIDs pf).
     sm_ConsumedReceipts (co_settlement c) (ToLower x) = None \<and>
     (\<exists>rc \<in> set (co_receipts c). ToLower (rc_ReceiptID rc) = ToLower x \<and> rc_Resource rc = r \<and>
        normalizeReceiptMotherID (rc_MotherID rc) = m))"

definition relay_inv :: "(string \<Rightarrow> string) \<Rightarrow> Coordinator \<Rightarrow> bool" where
  "relay_inv rid c \<longleftrightarrow> receipts_known rid (co_receipts c) \<and>
     (\<forall>m t. sm_Tenants (co_settlement c) m = Some t \<longrightarrow> normalizeReceiptMotherID m = m \<and>
        (\<forall>r pf. tn_Pending t r = Some pf \<longrightarrow> pending_ok c m r pf))"

lemma clone_settlement [simp]: "cloneSettlementState s = s"
  by (simp add: cloneSettlementState_def newSettlementState_def)

lemma bind_cases:
  obtains "fst (BindSettlementForMother e saved c m q now) = c"
    | b where "tn_Binding (settlementTenant (co_settlement c) m) = None"
        "fst (BindSettlementForMother e saved c m q now) = c\<lparr>co_settlement := (co_settlement c)\<lparr>sm_Tenants :=
           (sm_Tenants (co_settlement c))(normalizeReceiptMotherID m \<mapsto>
             (settlementTenant (co_settlement c) m)\<lparr>tn_Binding := Some b\<rparr>)\<rparr>\<rparr>"
proof -
  have "settlementTenant (co_settlement c) (normalizeReceiptMotherID m) = settlementTenant (co_settlement c) m"
    by (simp add: settlementTenant_def)
  then have "fst (BindSettlementForMother e saved c m q now) = c \<or>
      tn_Binding (settlementTenant (co_settlement c) m) = None \<and>
      (\<exists>b. fst (BindSettlementForMother e saved c m q now) = c\<lparr>co_settlement := (co_settlement c)\<lparr>sm_Tenants :=
           (sm_Tenants (co_settlement c))(normalizeReceiptMotherID m \<mapsto>
             (settlementTenant (co_settlement c) m)\<lparr>tn_Binding := Some b\<rparr>)\<rparr>\<rparr>)"
    by (auto simp: BindSettlementForMother_def Let_def split: option.split)
  then show thesis using that by blast
qed

lemma aggregate_ids: "pp_ReceiptIDs (AggregateReceipts e i r xs now) =
    map rc_ReceiptID (filter (\<lambda>x. rc_Resource x = r) (sort_slice (\<lambda>x y. rc_ReceiptID x < rc_ReceiptID y) xs))"
  by (simp add: AggregateReceipts_def Let_def)

lemma settlement_proof_ids:
  assumes "settlement_proof e c b i r xs now = Inr pf" and "x \<in> set (pp_ReceiptIDs pf)"
  shows "\<exists>rc \<in> set xs. rc_ReceiptID rc = x \<and> rc_Resource rc = r"
proof -
  from assms(1) have "pp_ReceiptIDs pf = pp_ReceiptIDs (AggregateReceipts e i r xs now)"
    by (auto simp: settlement_proof_def Let_def split: option.splits)
  with assms(2) show ?thesis by (auto simp: aggregate_ids)
qed

lemma unconsumed_member:
  assumes "rc \<in> set (sortedUnconsumedReceipts e receipts consumed m r cutoff limit)"
  shows "rc \<in> set receipts \<and> rc_Resource rc = r \<and> consumed (ToLower (rc_ReceiptID rc)) = None \<and>
    normalizeReceiptMotherID (rc_MotherID rc) = normalizeReceiptMotherID m"
  using assms by (auto simp: sortedUnconsumedReceipts_def Let_def split: if_splits dest!: in_set_takeD)

lemma latest_cases:
  obtains "fst (LatestSettlementProofForMother e saved c m r now) = c"
    | pf where "\<forall>x \<in> set (pp_ReceiptIDs pf). sm_ConsumedReceipts (co_settlement c) (ToLower x) = None \<and>
          (\<exists>rc \<in> set (co_receipts c). ToLower (rc_ReceiptID rc) = ToLower x \<and> rc_Resource rc = r \<and>
            normalizeReceiptMotherID (rc_MotherID rc) = normalizeReceiptMotherID m)"
        "fst (LatestSettlementProofForMother e saved c m r now) = c\<lparr>co_settlement := (co_settlement c)\<lparr>sm_Tenants :=
           (sm_Tenants (co_settlement c))(normalizeReceiptMotherID m \<mapsto>
             (settlementTenant (co_settlement c) m)\<lparr>tn_Pending := (tn_Pending (settlementTenant (co_settlement c) m))(r \<mapsto> pf)\<rparr>)\<rparr>\<rparr>"
proof -
  let ?sel = "sortedUnconsumedReceipts e (co_receipts c) (sm_ConsumedReceipts (co_settlement c)) (normalizeReceiptMotherID m) r
    (now - co_ProofWindow (co_config c)) (co_MaxProofReceipts (co_config c))"
  let ?res = "fst (LatestSettlementProofForMother e saved c m r now)"
  have t: "settlementTenant (co_settlement c) (normalizeReceiptMotherID m) = settlementTenant (co_settlement c) m"
    by (simp add: settlementTenant_def)
  have "?res = c \<or> (\<exists>b i pf. settlement_proof e c b i r ?sel now = Inr pf \<and>
      ?res = c\<lparr>co_settlement := (co_settlement c)\<lparr>sm_Tenants := (sm_Tenants (co_settlement c))(normalizeReceiptMotherID m \<mapsto>
        (settlementTenant (co_settlement c) m)\<lparr>tn_Pending := (tn_Pending (settlementTenant (co_settlement c) m))(r \<mapsto> pf)\<rparr>)\<rparr>\<rparr>)"
    unfolding LatestSettlementProofForMother_def Let_def t
    by (auto split: option.split sum.split)
  then show thesis
  proof (elim disjE exE conjE)
    fix b i pf
    assume p: "settlement_proof e c b i r ?sel now = Inr pf"
      and res: "?res = c\<lparr>co_settlement := (co_settlement c)\<lparr>sm_Tenants := (sm_Tenants (co_settlement c))(normalizeReceiptMotherID m \<mapsto>
        (settlementTenant (co_settlement c) m)\<lparr>tn_Pending := (tn_Pending (settlementTenant (co_settlement c) m))(r \<mapsto> pf)\<rparr>)\<rparr>\<rparr>"
    have "\<forall>x \<in> set (pp_ReceiptIDs pf). sm_ConsumedReceipts (co_settlement c) (ToLower x) = None \<and>
          (\<exists>rc \<in> set (co_receipts c). ToLower (rc_ReceiptID rc) = ToLower x \<and> rc_Resource rc = r \<and>
            normalizeReceiptMotherID (rc_MotherID rc) = normalizeReceiptMotherID m)"
      using settlement_proof_ids [OF p] unconsumed_member by fastforce
    then show thesis using that(2) res by blast
  qed (use that(1) in blast)
qed

lemma find_pending_Some: "find_pending t rs i = Some (r, pf) \<Longrightarrow> tn_Pending t r = Some pf"
  by (induction t rs i rule: find_pending.induct) (auto split: option.splits if_splits)

lemma ack_cases:
  obtains "fst (AcknowledgeSettlementProofForMother e saved rs c m q now) = c"
    | i r pf ack where "tn_Pending (settlementTenant (co_settlement c) m) r = Some pf"
        "fst (AcknowledgeSettlementProofForMother e saved rs c m q now) = c\<lparr>co_settlement := (co_settlement c)
           \<lparr>sm_ConsumedReceipts := foldl (\<lambda>m r. m(ToLower r \<mapsto> i)) (sm_ConsumedReceipts (co_settlement c)) (pp_ReceiptIDs pf),
            sm_Tenants := (sm_Tenants (co_settlement c))(normalizeReceiptMotherID m \<mapsto>
             (settlementTenant (co_settlement c) m)\<lparr>tn_Pending := (tn_Pending (settlementTenant (co_settlement c) m))(r := None),
              tn_AcknowledgedProofs := (tn_AcknowledgedProofs (settlementTenant (co_settlement c) m))(i \<mapsto> ack)\<rparr>)\<rparr>\<rparr>"
proof -
  let ?res = "fst (AcknowledgeSettlementProofForMother e saved rs c m q now)"
  let ?t = "settlementTenant (co_settlement c) m"
  have t: "settlementTenant (co_settlement c) (normalizeReceiptMotherID m) = ?t"
    by (simp add: settlementTenant_def)
  have "?res = c \<or> (\<exists>i r pf ack. find_pending ?t rs i = Some (r, pf) \<and>
      ?res = c\<lparr>co_settlement := (co_settlement c)
           \<lparr>sm_ConsumedReceipts := foldl (\<lambda>m r. m(ToLower r \<mapsto> i)) (sm_ConsumedReceipts (co_settlement c)) (pp_ReceiptIDs pf),
            sm_Tenants := (sm_Tenants (co_settlement c))(normalizeReceiptMotherID m \<mapsto>
             ?t\<lparr>tn_Pending := (tn_Pending ?t)(r := None), tn_AcknowledgedProofs := (tn_AcknowledgedProofs ?t)(i \<mapsto> ack)\<rparr>)\<rparr>\<rparr>)"
    unfolding AcknowledgeSettlementProofForMother_def Let_def t
    by (auto split: option.split prod.split)
  then show thesis using that find_pending_Some by blast
qed

lemma receipt_unique:
  assumes "inj rid" and "receipts_known rid rs" and "x \<in> set rs" and "y \<in> set rs"
    and "ToLower (rc_ReceiptID x) = ToLower (rc_ReceiptID y)"
  shows "x = y"
proof -
  from assms(2,3,4,5) have "rid (rc_JobID x) = rid (rc_JobID y)" by (auto simp: receipts_known_def)
  with assms(1) have "rc_JobID x = rc_JobID y" by (simp add: inj_eq)
  with assms(2,3,4) show ?thesis by (auto simp: receipts_known_def distinct_map dest: inj_onD)
qed

lemma consume_lookup:
  "foldl (\<lambda>m r. m(ToLower r \<mapsto> i)) cm ids y = (if y \<in> ToLower ` set ids then Some i else cm y)"
  by (induction ids arbitrary: cm) auto

lemma tenant_pending:
  assumes "relay_inv rid c" and "tn_Pending (settlementTenant (co_settlement c) m) r = Some pf"
  shows "pending_ok c (normalizeReceiptMotherID m) r pf"
  using assms by (auto simp: relay_inv_def settlementTenant_def newTenantSettlementState_def split: option.splits)

lemma pending_disjoint:
  assumes "inj rid" and "receipts_known rid (co_receipts c)" and "pending_ok c m r pf" and "pending_ok c m' r' pf'"
    and "x \<in> set (pp_ReceiptIDs pf)" and "y \<in> set (pp_ReceiptIDs pf')" and "ToLower x = ToLower y"
  shows "m = m' \<and> r = r'"
proof -
  from assms(3,5) obtain a where a: "a \<in> set (co_receipts c)" "ToLower (rc_ReceiptID a) = ToLower x" "rc_Resource a = r"
    "normalizeReceiptMotherID (rc_MotherID a) = m" by (auto simp: pending_ok_def)
  from assms(4,6) obtain b where b: "b \<in> set (co_receipts c)" "ToLower (rc_ReceiptID b) = ToLower y" "rc_Resource b = r'"
    "normalizeReceiptMotherID (rc_MotherID b) = m'" by (auto simp: pending_ok_def)
  have "a = b" using receipt_unique [OF assms(1,2) a(1) b(1)] a(2) b(2) assms(7) by simp
  with a b show ?thesis by simp
qed

definition relay_op_ok :: "(string \<Rightarrow> string) \<Rightarrow> relay_op \<Rightarrow> bool" where
  "relay_op_ok rid p = (case p of OpReceipt r \<Rightarrow> ToLower (rc_ReceiptID r) = rid (rc_JobID r) | _ \<Rightarrow> True)"

lemma bind_inv:
  assumes "relay_inv rid c"
  shows "relay_inv rid (fst (BindSettlementForMother e saved c m q now))"
proof (cases rule: bind_cases [of e saved c m q now])
  case (2 b)
  then show ?thesis using assms tenant_pending [OF assms, of m] by (auto simp: relay_inv_def pending_ok_def)
qed (use assms in simp)

lemma latest_inv:
  assumes "relay_inv rid c"
  shows "relay_inv rid (fst (LatestSettlementProofForMother e saved c m r now))"
proof (cases rule: latest_cases [of e saved c m r now])
  case (2 pf)
  then show ?thesis using assms tenant_pending [OF assms, of m] by (auto simp: relay_inv_def pending_ok_def)
qed (use assms in simp)

lemma ack_inv:
  assumes "inj rid" and "relay_inv rid c"
  shows "relay_inv rid (fst (AcknowledgeSettlementProofForMother e saved rs c m q now))"
proof (cases rule: ack_cases [of e saved rs c m q now])
  case (2 i r pf ack)
  let ?m = "normalizeReceiptMotherID m" and ?t = "settlementTenant (co_settlement c) m"
  let ?c = "fst (AcknowledgeSettlementProofForMother e saved rs c m q now)"
  note pf = tenant_pending [OF assms(2) 2(1)]
  have known: "receipts_known rid (co_receipts c)" using assms(2) by (simp add: relay_inv_def)
  have keep: "pending_ok ?c k r' pf'" if "pending_ok c k r' pf'" "(k, r') \<noteq> (?m, r)" for k r' pf'
  proof -
    have "ToLower x \<notin> ToLower ` set (pp_ReceiptIDs pf)" if "x \<in> set (pp_ReceiptIDs pf')" for x
      using pending_disjoint [OF assms(1) known \<open>pending_ok c k r' pf'\<close> pf that] \<open>(k, r') \<noteq> (?m, r)\<close> by auto
    with that(1) show ?thesis using 2(2) by (auto simp: pending_ok_def consume_lookup)
  qed
  have "normalizeReceiptMotherID k = k \<and> (\<forall>r' pf'. tn_Pending t r' = Some pf' \<longrightarrow> pending_ok ?c k r' pf')"
    if "sm_Tenants (co_settlement ?c) k = Some t" for k t
  proof (cases "k = ?m")
    case True
    with that 2(2) have "tn_Pending t = (tn_Pending ?t)(r := None)" by auto
    with True keep tenant_pending [OF assms(2), of m] show ?thesis by auto
  next
    case False
    with that 2(2) have "sm_Tenants (co_settlement c) k = Some t" by simp
    with False keep assms(2) show ?thesis by (auto simp: relay_inv_def)
  qed
  moreover have "receipts_known rid (co_receipts ?c)" using known 2(2) by simp
  ultimately show ?thesis by (auto simp: relay_inv_def)
qed (use assms in simp)

lemma receipt_inv:
  assumes "relay_inv rid c" and "ToLower (rc_ReceiptID r) = rid (rc_JobID r)"
  shows "relay_inv rid (relay_step e c (OpReceipt r))"
  using assms by (auto simp: relay_step_def relay_inv_def receipts_known_def pending_ok_def list_ex_iff)

lemma relay_step_inv:
  assumes "inj rid" and "relay_inv rid c" and "relay_op_ok rid p"
  shows "relay_inv rid (relay_step e c p)"
proof (cases p)
  case (OpReceipt r)
  then show ?thesis using receipt_inv assms by (simp add: relay_op_ok_def)
qed (simp_all add: relay_step_def assms bind_inv latest_inv ack_inv)

lemma relay_run_inv:
  "inj rid \<Longrightarrow> relay_inv rid c \<Longrightarrow> list_all (relay_op_ok rid) ps \<Longrightarrow> relay_inv rid (foldl (relay_step e) c ps)"
  by (induction ps arbitrary: c) (simp_all add: relay_step_inv)

text \<open>What is consumed stays consumed by the same proof, and what is bound stays bound.\<close>

definition settled_kept :: "Coordinator \<Rightarrow> Coordinator \<Rightarrow> bool" where
  "settled_kept c c' \<longleftrightarrow> sm_ConsumedReceipts (co_settlement c) \<subseteq>\<^sub>m sm_ConsumedReceipts (co_settlement c') \<and>
     (\<forall>m b. tn_Binding (settlementTenant (co_settlement c) m) = Some b \<longrightarrow>
        tn_Binding (settlementTenant (co_settlement c') m) = Some b)"

lemma tenant_upd:
  "settlementTenant (s\<lparr>sm_Tenants := (sm_Tenants s)(normalizeReceiptMotherID m \<mapsto> t)\<rparr>) k =
     (if normalizeReceiptMotherID k = normalizeReceiptMotherID m then t else settlementTenant s k)"
  by (simp add: settlementTenant_def)

lemma tenant_cong: "normalizeReceiptMotherID k = normalizeReceiptMotherID m \<Longrightarrow> settlementTenant s k = settlementTenant s m"
  by (simp add: settlementTenant_def)

lemma relay_step_settled:
  assumes "relay_inv rid c"
  shows "settled_kept c (relay_step e c p)"
proof (cases p)
  case (OpBind saved m q now)
  show ?thesis
    by (cases rule: bind_cases [of e saved c m q now])
      (auto simp: OpBind relay_step_def settled_kept_def settlementTenant_def)
next
  case (OpLatest saved m r now)
  show ?thesis
    by (cases rule: latest_cases [of e saved c m r now])
      (auto simp: OpLatest relay_step_def settled_kept_def settlementTenant_def)
next
  case (OpAck saved rs m q now)
  show ?thesis
  proof (cases rule: ack_cases [of e saved rs c m q now])
    case (2 i r pf ack)
    from tenant_pending [OF assms 2(1)]
    have "sm_ConsumedReceipts (co_settlement c) \<subseteq>\<^sub>m
        foldl (\<lambda>m r. m(ToLower r \<mapsto> i)) (sm_ConsumedReceipts (co_settlement c)) (pp_ReceiptIDs pf)"
      by (auto simp: map_le_def consume_lookup pending_ok_def)
    moreover have "settlementTenant (co_settlement (relay_step e c p)) k =
        (if normalizeReceiptMotherID k = normalizeReceiptMotherID m
         then (settlementTenant (co_settlement c) m)\<lparr>tn_Pending := (tn_Pending (settlementTenant (co_settlement c) m))(r := None),
              tn_AcknowledgedProofs := (tn_AcknowledgedProofs (settlementTenant (co_settlement c) m))(i \<mapsto> ack)\<rparr>
         else settlementTenant (co_settlement c) k)" for k
      using 2(2) by (simp add: OpAck relay_step_def settlementTenant_def)
    ultimately show ?thesis using 2(2)
      by (auto simp: OpAck relay_step_def settled_kept_def settlementTenant_def)
  qed (simp add: OpAck relay_step_def settled_kept_def)
qed (simp add: relay_step_def settled_kept_def)

lemma relay_run_settled:
  assumes "inj rid" and "relay_inv rid c" and "list_all (relay_op_ok rid) ps"
  shows "settled_kept c (foldl (relay_step e) c ps)"
  using assms(2,3)
proof (induction ps arbitrary: c)
  case Nil
  show ?case by (simp add: settled_kept_def)
next
  case (Cons p ps)
  from Cons.IH [OF relay_step_inv [OF assms(1) Cons.prems(1)]] Cons.prems(2)
  have "settled_kept (relay_step e c p) (foldl (relay_step e) (relay_step e c p) ps)" by simp
  with relay_step_settled [OF Cons.prems(1), of e p] show ?case
    by (auto simp: settled_kept_def intro: map_le_trans)
qed

lemma find_pending_ID: "find_pending t rs i = Some (r, pf) \<Longrightarrow> EqualFold (pp_ProofID pf) i"
  by (induction t rs i rule: find_pending.induct) (auto split: option.splits if_splits)

text \<open>The acknowledgement of a proof that was not acknowledged before consumes the receipts of a pending proof.\<close>

lemma ack_consumes:
  assumes "AcknowledgeSettlementProofForMother e saved rs c m q now = (c1, Inr ack)"
    and "i = ToLower (TrimSpace (ak_ProofID q))"
    and "tn_AcknowledgedProofs (settlementTenant (co_settlement c) m) i = None"
  obtains r pf where "tn_Pending (settlementTenant (co_settlement c) m) r = Some pf" "EqualFold (pp_ProofID pf) i"
    "\<forall>x \<in> set (pp_ReceiptIDs pf). sm_ConsumedReceipts (co_settlement c1) (ToLower x) = Some i"
proof -
  have t: "settlementTenant (co_settlement c) (normalizeReceiptMotherID m) = settlementTenant (co_settlement c) m"
    by (simp add: settlementTenant_def)
  from assms obtain r pf where "find_pending (settlementTenant (co_settlement c) m) rs i = Some (r, pf)"
    "sm_ConsumedReceipts (co_settlement c1) =
       foldl (\<lambda>m r. m(ToLower r \<mapsto> i)) (sm_ConsumedReceipts (co_settlement c)) (pp_ReceiptIDs pf)"
    unfolding AcknowledgeSettlementProofForMother_def Let_def t
    by (auto split: if_splits option.splits prod.splits)
  then show thesis using that find_pending_Some find_pending_ID by (fastforce simp: consume_lookup)
qed

definition all_pending :: "Coordinator \<Rightarrow> string set" where
  "all_pending c = {ToLower x | m r pf x. tn_Pending (settlementTenant (co_settlement c) m) r = Some pf \<and> x \<in> set (pp_ReceiptIDs pf)}"

text \<open>
  C28. A relay spends each work receipt once. From an empty settlement state, whatever sequence of
  bindings, proof requests, acknowledgements and new receipts follows (ids of different jobs differ, as
  SHA-256 images of the job): no two pending proofs share a receipt and none of them holds a consumed one;
  a consumed receipt stays assigned to the proof that consumed it; and payout wallets, once bound for a
  tenant, never change. When a pending proof is acknowledged for the first time, every receipt in it becomes consumed
  by it, and from then on no proof that is pending for any tenant holds one of these receipts.
\<close>

theorem relay_receipts_spent_once:
  assumes "inj rid" and "list_all (relay_op_ok rid) (ps @ qs)"
    and "c = foldl (relay_step e) (c0\<lparr>co_settlement := newSettlementState, co_receipts := []\<rparr>) ps"
  shows "(\<forall>m r pf m' r' pf' x y. tn_Pending (settlementTenant (co_settlement c) m) r = Some pf \<and>
        tn_Pending (settlementTenant (co_settlement c) m') r' = Some pf' \<and>
        x \<in> set (pp_ReceiptIDs pf) \<and> y \<in> set (pp_ReceiptIDs pf') \<and> ToLower x = ToLower y \<longrightarrow>
        normalizeReceiptMotherID m = normalizeReceiptMotherID m' \<and> r = r' \<and>
        sm_ConsumedReceipts (co_settlement c) (ToLower x) = None) \<and>
    settled_kept c (foldl (relay_step e) c qs) \<and>
    (\<forall>saved rs m q now c1 ack i. AcknowledgeSettlementProofForMother e saved rs c m q now = (c1, Inr ack) \<and>
        i = ToLower (TrimSpace (ak_ProofID q)) \<and> tn_AcknowledgedProofs (settlementTenant (co_settlement c) m) i = None \<longrightarrow>
        (\<exists>r pf. tn_Pending (settlementTenant (co_settlement c) m) r = Some pf \<and> EqualFold (pp_ProofID pf) i \<and>
           (\<forall>x \<in> set (pp_ReceiptIDs pf).
              sm_ConsumedReceipts (co_settlement (foldl (relay_step e) c1 qs)) (ToLower x) = Some i \<and>
              ToLower x \<notin> all_pending (foldl (relay_step e) c1 qs))))"
proof -
  have "relay_inv rid (c0\<lparr>co_settlement := newSettlementState, co_receipts := []\<rparr>)"
    by (simp add: relay_inv_def newSettlementState_def receipts_known_def)
  with assms have inv: "relay_inv rid c" by (auto intro: relay_run_inv)
  then have known: "receipts_known rid (co_receipts c)" by (simp add: relay_inv_def)
  have kept: "settled_kept c (foldl (relay_step e) c qs)" using relay_run_settled [OF assms(1) inv] assms(2) by simp
  have spent: "\<exists>r pf. tn_Pending (settlementTenant (co_settlement c) m) r = Some pf \<and> EqualFold (pp_ProofID pf) i \<and>
      (\<forall>x \<in> set (pp_ReceiptIDs pf). sm_ConsumedReceipts (co_settlement (foldl (relay_step e) c1 qs)) (ToLower x) = Some i \<and>
         ToLower x \<notin> all_pending (foldl (relay_step e) c1 qs))"
    if ack: "AcknowledgeSettlementProofForMother e saved rs c m q now = (c1, Inr ack)" "i = ToLower (TrimSpace (ak_ProofID q))"
      "tn_AcknowledgedProofs (settlementTenant (co_settlement c) m) i = None" for saved rs m q now c1 ack i
  proof -
    let ?c2 = "foldl (relay_step e) c1 qs"
    have "c1 = relay_step e c (OpAck saved rs m q now)" using ack(1) by (simp add: relay_step_def)
    then have inv1: "relay_inv rid c1" using relay_step_inv [OF assms(1) inv] by (simp add: relay_op_ok_def)
    have inv2: "relay_inv rid ?c2" and kept2: "settled_kept c1 ?c2"
      using relay_run_inv [OF assms(1) inv1] relay_run_settled [OF assms(1) inv1] assms(2) by simp_all
    obtain r pf where pf: "tn_Pending (settlementTenant (co_settlement c) m) r = Some pf" "EqualFold (pp_ProofID pf) i"
      "\<forall>x \<in> set (pp_ReceiptIDs pf). sm_ConsumedReceipts (co_settlement c1) (ToLower x) = Some i"
      by (rule ack_consumes [OF ack])
    then have used: "sm_ConsumedReceipts (co_settlement ?c2) (ToLower x) = Some i" if "x \<in> set (pp_ReceiptIDs pf)" for x
      using kept2 that by (auto simp: settled_kept_def intro: map_le_lookup)
    have "ToLower x \<notin> all_pending ?c2" if "x \<in> set (pp_ReceiptIDs pf)" for x
    proof
      assume "ToLower x \<in> all_pending ?c2"
      then obtain m' r' pf' y where "tn_Pending (settlementTenant (co_settlement ?c2) m') r' = Some pf'"
        "y \<in> set (pp_ReceiptIDs pf')" "ToLower x = ToLower y" by (auto simp: all_pending_def)
      then have "sm_ConsumedReceipts (co_settlement ?c2) (ToLower x) = None"
        using tenant_pending [OF inv2] by (auto simp: pending_ok_def)
      with used [OF that] show False by simp
    qed
    with pf used show ?thesis by blast
  qed
  have one: "normalizeReceiptMotherID m = normalizeReceiptMotherID m' \<and> r = r' \<and>
      sm_ConsumedReceipts (co_settlement c) (ToLower x) = None"
    if "tn_Pending (settlementTenant (co_settlement c) m) r = Some pf"
      "tn_Pending (settlementTenant (co_settlement c) m') r' = Some pf'"
      "x \<in> set (pp_ReceiptIDs pf)" "y \<in> set (pp_ReceiptIDs pf')" "ToLower x = ToLower y" for m r pf m' r' pf' x y
    using pending_disjoint [OF assms(1) known tenant_pending [OF inv that(1)] tenant_pending [OF inv that(2)] that(3-5)]
      tenant_pending [OF inv that(1)] that(3) by (simp add: pending_ok_def)
  show ?thesis
    by (rule conjI [OF _ conjI [OF kept]]; intro allI impI; (elim conjE)?) (erule (4) one, erule (2) spent)
qed

section \<open>A relay that issues and settles a proof\<close>

abbreviation demo_id :: "char \<Rightarrow> string" where
  "demo_id c \<equiv> EncodeToString (replicate 32 c)"

text \<open>The hash keeps the last character, the encoder of an identity the first character of the first receipt.\<close>

definition demo_pool_relay :: relay_env where
  "demo_pool_relay = \<lparr>re_sha256 = (\<lambda>x. replicate 32 (last x)), re_hmac = (\<lambda>k x. x),
     re_marshal_identity = (\<lambda>i. Some [last (hd (si_ReceiptIDs i))]), re_marshal_body = (\<lambda>b. Some []),
     re_parse_time = (\<lambda>s. Some 0), re_format_time = (\<lambda>t. []),
     re_key_ok = (\<lambda>k. True), re_verify = (\<lambda>k m s. True), re_sign = (\<lambda>m. Some (replicate 4627 (CHR 0x00)))\<rparr>"

lemma demo_hex32 [simp]: "hex32 (demo_id c)"
  by (simp add: hex32_def)

lemma demo_id_nonempty [simp]: "demo_id c \<noteq> []"
  using EncodeToString_length [of "replicate 32 c"] by auto

lemma demo_wallet: "hex32 ProductionEcosystemWallet" "TrimSpace ProductionEcosystemWallet = ProductionEcosystemWallet"
proof -
  show "hex32 ProductionEcosystemWallet" by code_simp
  have "list_all plain_char ProductionEcosystemWallet" by (simp add: ProductionEcosystemWallet_def plain_char_def)
  then show "TrimSpace ProductionEcosystemWallet = ProductionEcosystemWallet" by simp
qed

lemma demo_worker: "ValidateWorkerID (demo_id (CHR 0x00))"
proof -
  have zero: "char_of (48 :: nat) = CHR ''0''" by code_simp
  have zeros: "EncodeToString (replicate n (CHR 0x00)) = replicate (2 * n) CHR ''0''" for n
    by (induction n) (simp_all add: EncodeToString_def hex_byte_def hex_digit_def zero)
  show ?thesis by (simp add: zeros ValidateWorkerID_def workerIDPattern_def list_all_length ascii_alnum_def nth_tl)
qed

lemma demo_relay_id: "SettlementRelayID demo_pool_relay (EncodeToString (replicate 2592 (CHR 0x00))) = Some (demo_id (CHR 0x00))"
  by (simp add: SettlementRelayID_def ValidateSettlementRelayPublicKey_def demo_pool_relay_def Let_def)

definition demo_receipt :: "char \<Rightarrow> Receipt" where
  "demo_receipt c = \<lparr>rc_Version = ProtocolVersion, rc_ReceiptID = demo_id c, rc_JobID = demo_id c, rc_MotherID = [],
     rc_WorkerID = ''w'', rc_Resource = ResourceCPU, rc_Algorithm = [], rc_Digest = [], rc_Units = 1, rc_MemoryMiB = 0,
     rc_DurationMS = 0, rc_CompletedAt = [], rc_AcceptedAt = [], rc_CoordinatorID = [], rc_Metadata = Map.empty\<rparr>"

definition demo_coordinator :: Coordinator where
  "demo_coordinator = \<lparr>co_config = \<lparr>co_ProofWindow = 100, co_MaxProofReceipts = 10, co_MotherToken = []\<rparr>,
     co_settlement = newSettlementState, co_receipts = [],
     co_settlementPublicKey = EncodeToString (replicate 2592 (CHR 0x00))\<rparr>"

definition demo_bind :: SettlementBindRequest where
  "demo_bind = \<lparr>br_Version = SettlementProtocolVersion, br_ContributorWallet = ProductionEcosystemWallet,
     br_MotherHiveWallet = ProductionEcosystemWallet, br_EcosystemWallet = ProductionEcosystemWallet\<rparr>"

definition demo_binding :: SettlementBinding where
  "demo_binding = \<lparr>bd_Version = SettlementProtocolVersion, bd_ContributorWallet = ProductionEcosystemWallet,
     bd_MotherHiveWallet = ProductionEcosystemWallet, bd_EcosystemWallet = ProductionEcosystemWallet, bd_BoundAt = []\<rparr>"

abbreviation demo_proof_name :: string where
  "demo_proof_name \<equiv> demo_id (last (demo_id (CHR 0x01)))"

abbreviation demo_legacy :: "tenantSettlementState \<Rightarrow> Coordinator \<Rightarrow> Coordinator" where
  "demo_legacy t c \<equiv> c\<lparr>co_settlement := newSettlementState\<lparr>sm_Tenants := [LegacyMotherID \<mapsto> t]\<rparr>\<rparr>"

lemma demo_tenant_id [simp]: "normalizeReceiptMotherID [] = LegacyMotherID" "validMotherTenantID LegacyMotherID"
  "normalizeReceiptMotherID LegacyMotherID = LegacyMotherID"
proof -
  show n: "normalizeReceiptMotherID [] = LegacyMotherID" by (simp add: normalizeReceiptMotherID_def TrimSpace_def ToLower_def)
  from normalize_idem [of "[]"] show i: "normalizeReceiptMotherID LegacyMotherID = LegacyMotherID" by (simp add: n)
  show "validMotherTenantID LegacyMotherID" by (simp add: validMotherTenantID_def i)
qed

lemma demo_lower: "ToLower ProductionEcosystemWallet = ProductionEcosystemWallet"
  by code_simp

lemma demo_version: "TrimSpace SettlementProtocolVersion = SettlementProtocolVersion"
proof -
  have "list_all plain_char SettlementProtocolVersion" by (simp add: SettlementProtocolVersion_def plain_char_def)
  then show ?thesis by simp
qed

lemma demo_bound:
  "BindSettlementForMother demo_pool_relay True (demo_coordinator\<lparr>co_receipts := rs\<rparr>) [] demo_bind now =
     (demo_legacy (newTenantSettlementState\<lparr>tn_Binding := Some demo_binding\<rparr>) (demo_coordinator\<lparr>co_receipts := rs\<rparr>), Inr demo_binding)"
  by (simp add: BindSettlementForMother_def demo_bind_def demo_binding_def demo_wallet demo_lower demo_version Let_def
      validateSettlementBinding_def validSettlementWallet_def EqualFold_def demo_pool_relay_def settlementTenant_def
      newSettlementState_def newTenantSettlementState_def demo_coordinator_def)

lemma demo_issue:
  obtains pf where "settlement_proof demo_pool_relay (demo_coordinator\<lparr>co_receipts := rs, co_settlement := st\<rparr>) demo_binding
      (demo_id (CHR 0x00)) ResourceCPU [demo_receipt (CHR 0x01)] now = Inr pf"
    "pp_ReceiptIDs pf = [demo_id (CHR 0x01)]" "pp_ProofID pf = demo_proof_name"
proof -
  have check: "check_receipts {} [] [demo_id (CHR 0x01)] = None" by (simp add: canonical_receipt_def Let_def)
  have "\<exists>pf. settlement_proof demo_pool_relay (demo_coordinator\<lparr>co_receipts := rs, co_settlement := st\<rparr>) demo_binding
      (demo_id (CHR 0x00)) ResourceCPU [demo_receipt (CHR 0x01)] now = Inr pf \<and>
    pp_ReceiptIDs pf = [demo_id (CHR 0x01)] \<and> pp_ProofID pf = demo_proof_name"
    using demo_wallet demo_worker demo_relay_id check
    by (simp add: settlement_proof_def AggregateReceipts_def Let_def demo_binding_def demo_coordinator_def demo_receipt_def
        SettlementProofID_def settlementIdentity_def SettlementProofCanonicalBytes_def sort_slice_def
        VerifySettlementPoolProof_def EqualFold_def validSettlementWallet_def ResourceValid_def verify_relay_signature_def
        demo_pool_relay_def window_step_def)
  then show thesis using that by blast
qed

text \<open>A run that receives work, binds the wallets and asks for the proof leaves one pending proof, which is then acknowledged.\<close>

definition demo_issued :: Coordinator where
  "demo_issued = foldl (relay_step demo_pool_relay) demo_coordinator
     [OpReceipt (demo_receipt (CHR 0x01)), OpBind True [] demo_bind 3, OpLatest True [] ResourceCPU 4]"

lemma demo_coordinator_fields [simp]: "co_receipts demo_coordinator = []" "co_settlement demo_coordinator = newSettlementState"
  "co_config demo_coordinator = \<lparr>co_ProofWindow = 100, co_MaxProofReceipts = 10, co_MotherToken = []\<rparr>"
  "co_settlementPublicKey demo_coordinator = EncodeToString (replicate 2592 (CHR 0x00))"
  by (simp_all add: demo_coordinator_def)

lemma demo_issued_pending:
  obtains pf t where "tn_Pending t = [ResourceCPU \<mapsto> pf]" "tn_AcknowledgedProofs t = Map.empty"
    "pp_ReceiptIDs pf = [demo_id (CHR 0x01)]" "pp_ProofID pf = demo_proof_name"
    "demo_issued = demo_legacy t (demo_coordinator\<lparr>co_receipts := [demo_receipt (CHR 0x01)]\<rparr>)"
proof -
  let ?t = "newTenantSettlementState\<lparr>tn_Binding := Some demo_binding\<rparr>"
  let ?c = "demo_coordinator\<lparr>co_receipts := [demo_receipt (CHR 0x01)]\<rparr>"
  obtain pf where pf: "settlement_proof demo_pool_relay (demo_legacy ?t ?c) demo_binding (demo_id (CHR 0x00)) ResourceCPU
      [demo_receipt (CHR 0x01)] 4 = Inr pf" "pp_ReceiptIDs pf = [demo_id (CHR 0x01)]" "pp_ProofID pf = demo_proof_name"
    using demo_issue by blast
  have selected: "sortedUnconsumedReceipts demo_pool_relay [demo_receipt (CHR 0x01)] Map.empty LegacyMotherID ResourceCPU (- 96) 10 =
      [demo_receipt (CHR 0x01)]"
    by (simp add: sortedUnconsumedReceipts_def demo_receipt_def demo_pool_relay_def sort_slice_def)
  have "LatestSettlementProofForMother demo_pool_relay True (demo_legacy ?t ?c) [] ResourceCPU 4 =
      (demo_legacy (?t\<lparr>tn_Pending := [ResourceCPU \<mapsto> pf]\<rparr>) ?c, Inr pf)"
    using pf(1) demo_relay_id selected
    by (simp add: LatestSettlementProofForMother_def Let_def ResourceValid_def settlementTenant_def newSettlementState_def
        newTenantSettlementState_def)
  then have "demo_issued = demo_legacy (?t\<lparr>tn_Pending := [ResourceCPU \<mapsto> pf]\<rparr>) ?c"
    using demo_bound by (simp add: demo_issued_def relay_step_def)
  with pf that [of "?t\<lparr>tn_Pending := [ResourceCPU \<mapsto> pf]\<rparr>" pf] show thesis by (simp add: newTenantSettlementState_def)
qed

definition demo_ack :: SettlementAckRequest where
  "demo_ack = \<lparr>ak_Version = SettlementProtocolVersion, ak_ProofID = demo_proof_name\<rparr>"

lemma demo_acknowledged:
  obtains c1 ack where
    "AcknowledgeSettlementProofForMother demo_pool_relay True [ResourceCPU] demo_issued [] demo_ack 5 = (c1, Inr ack)"
    "tn_AcknowledgedProofs (settlementTenant (co_settlement demo_issued) []) demo_proof_name = None"
    "\<And>r pf. tn_Pending (settlementTenant (co_settlement demo_issued) []) r = Some pf \<Longrightarrow> pp_ReceiptIDs pf = [demo_id (CHR 0x01)]"
proof -
  obtain pf t where t: "tn_Pending t = [ResourceCPU \<mapsto> pf]" "tn_AcknowledgedProofs t = Map.empty"
    "pp_ReceiptIDs pf = [demo_id (CHR 0x01)]" "pp_ProofID pf = demo_proof_name"
    "demo_issued = demo_legacy t (demo_coordinator\<lparr>co_receipts := [demo_receipt (CHR 0x01)]\<rparr>)"
    by (rule demo_issued_pending)
  have tenant: "settlementTenant (co_settlement demo_issued) [] = t"
    "settlementTenant (co_settlement demo_issued) LegacyMotherID = t"
    by (simp_all add: t(5) settlementTenant_def newSettlementState_def)
  have "\<exists>c1 ack. AcknowledgeSettlementProofForMother demo_pool_relay True [ResourceCPU] demo_issued [] demo_ack 5 = (c1, Inr ack)"
    using t demo_version
    by (simp add: AcknowledgeSettlementProofForMother_def Let_def demo_ack_def tenant EqualFold_def ResourceValid_def)
  moreover have "pp_ReceiptIDs pf' = [demo_id (CHR 0x01)]"
    if "tn_Pending (settlementTenant (co_settlement demo_issued) []) r = Some pf'" for r pf'
    using that t(1,3) by (simp add: tenant split: if_splits)
  ultimately show thesis using that t(2) by (auto simp: tenant)
qed

theorem relay_receipts_spent_once_witness:
  "\<exists>c1 ack c2. AcknowledgeSettlementProofForMother demo_pool_relay True [ResourceCPU] demo_issued [] demo_ack 5 = (c1, Inr ack) \<and>
     c2 = foldl (relay_step demo_pool_relay) c1 [OpReceipt (demo_receipt (CHR 0x02)), OpLatest True [] ResourceCPU 6] \<and>
     sm_ConsumedReceipts (co_settlement c2) (demo_id (CHR 0x01)) = Some demo_proof_name \<and>
     demo_id (CHR 0x01) \<notin> all_pending c2"
proof -
  let ?ps = "[OpReceipt (demo_receipt (CHR 0x01)), OpBind True [] demo_bind 3, OpLatest True [] ResourceCPU 4]"
  let ?qs = "[OpReceipt (demo_receipt (CHR 0x02)), OpLatest True [] ResourceCPU 6]"
  have ok: "list_all (relay_op_ok (\<lambda>j. j)) (?ps @ ?qs)" by (simp add: relay_op_ok_def demo_receipt_def)
  have start: "demo_issued = foldl (relay_step demo_pool_relay) (demo_coordinator\<lparr>co_settlement := newSettlementState, co_receipts := []\<rparr>) ?ps"
    by (simp add: demo_issued_def demo_coordinator_def)
  obtain c1 ack where ack:
    "AcknowledgeSettlementProofForMother demo_pool_relay True [ResourceCPU] demo_issued [] demo_ack 5 = (c1, Inr ack)"
    "tn_AcknowledgedProofs (settlementTenant (co_settlement demo_issued) []) demo_proof_name = None"
    "\<And>r pf. tn_Pending (settlementTenant (co_settlement demo_issued) []) r = Some pf \<Longrightarrow> pp_ReceiptIDs pf = [demo_id (CHR 0x01)]"
    by (rule demo_acknowledged) blast
  have name: "demo_proof_name = ToLower (TrimSpace (ak_ProofID demo_ack))" by (simp add: demo_ack_def)
  from relay_receipts_spent_once [THEN conjunct2, THEN conjunct2, rule_format, OF inj_on_id2 ok start conjI [OF ack(1) conjI [OF name ack(2)]]]
  obtain r pf where "tn_Pending (settlementTenant (co_settlement demo_issued) []) r = Some pf"
    "\<forall>x \<in> set (pp_ReceiptIDs pf). sm_ConsumedReceipts (co_settlement (foldl (relay_step demo_pool_relay) c1 ?qs)) (ToLower x) = Some demo_proof_name \<and>
       ToLower x \<notin> all_pending (foldl (relay_step demo_pool_relay) c1 ?qs)" by blast
  with ack(1,3) show ?thesis by auto
qed

end
