(* ===== verification/Task_Catalog.thy ===== *)
theory Task_Catalog
  imports Settlement
begin

text \<open>
  Edge tasks: the data model (\<open>pkg/chain/task_state.go\<close>), the catalog of task manifests
  (\<open>task_catalog.go\<close>) and the authentication of task actions (\<open>task_action_auth.go\<close>). A task action is
  a JSON payload of a transaction; JSON, URL parsing, SHA-256, ML-DSA and the clock's text format are
  parameters (\<open>task_env\<close>). The store is a record of maps; the pointer to a task in the store is the entry
  of its key. Regular expressions are predicates on characters. Lemmas: normalised lists, what a valid manifest
  guarantees, a manifest's manager is fixed and its version grows by one, the catalog's fingerprint does not
  depend on map order, and what an accepted signature binds.
\<close>

section \<open>Constants and data\<close>

definition TaskContractID :: string where "TaskContractID = ''qsdm/tasks/v1''"
definition taskAmountEpsilon :: float64 where "taskAmountEpsilon = rnd (1 / 10 ^ 9)"
definition pooledSettlementMaxSlotLag :: u64 where "pooledSettlementMaxSlotLag = 4"
definition ResourceWorkerProofActivationHeight :: u64 where "ResourceWorkerProofActivationHeight = 155103"
definition TaskCatalogSchemaVersion :: u64 where "TaskCatalogSchemaVersion = 1"
definition TaskActionCatalogRegister :: string where "TaskActionCatalogRegister = ''catalog-register''"
definition TaskActionCatalogUpdate :: string where "TaskActionCatalogUpdate = ''catalog-update''"
definition TaskActionCatalogPause :: string where "TaskActionCatalogPause = ''catalog-pause''"
definition TaskActionCatalogResume :: string where "TaskActionCatalogResume = ''catalog-resume''"

record TaskRuntimeManifest =
  rt_Kind :: string
  rt_Capability :: string
  rt_ModuleURL :: string
  rt_ModuleSHA256 :: string
  rt_ABI :: string
  rt_MinHiveVersion :: string
  rt_MaxMemoryMB :: u64
  rt_MaxRuntimeSeconds :: u64

record TaskManifest =
  mf_SchemaVersion :: u64
  mf_TaskID :: string
  mf_Version :: u64
  mf_Name :: string
  mf_Description :: string
  mf_Manager :: string
  mf_Active :: bool
  mf_Runtime :: TaskRuntimeManifest
  mf_MinimumStakeAmount :: float64
  mf_RewardPerRound :: float64
  mf_RoundTime :: u64
  mf_SubmissionWindow :: u64
  mf_AuditWindow :: u64
  mf_MetadataURL :: string
  mf_SourceURL :: string
  mf_IconURL :: string
  mf_Tags :: "string list"
  mf_AuthorizedRelayIDs :: "string list"

record TaskAction =
  ta_ID :: string
  ta_Sender :: string
  ta_TaskID :: string
  ta_Action :: string
  ta_Amount :: float64
  ta_Payload :: string
  ta_Nonce :: u64
  ta_Timestamp :: string

record TaskParticipantState =
  pt_Sender :: string
  pt_Running :: bool
  pt_Stake :: float64
  pt_LastAction :: string
  pt_LastActionID :: string
  pt_LastActionAt :: string
  pt_LastStartedAt :: string
  pt_LastStoppedAt :: string
  pt_SubmissionCount :: u64
  pt_ClaimCount :: u64
  pt_PendingRewardAmount :: float64
  pt_TotalRewardClaimedAmount :: float64
  pt_LastClaimedAt :: string

record TaskSubmissionState =
  sub_ActionID :: string
  sub_Sender :: string
  sub_Round :: u64
  sub_Slot :: u64
  sub_SubmissionValue :: string
  sub_Payload :: string
  sub_RewardAmount :: float64
  sub_Claimed :: bool
  sub_ClaimedAt :: string
  sub_Timestamp :: string
  sub_SettlementProofID :: string
  sub_SettlementCoordinatorID :: string
  sub_SettlementContributorWallet :: string
  sub_SettlementMotherHiveWallet :: string
  sub_SettlementEcosystemWallet :: string
  sub_SettlementContributorAmount :: float64
  sub_SettlementMotherHiveAmount :: float64
  sub_SettlementEcosystemAmount :: float64

record PooledRelayBinding =
  rb_CoordinatorID :: string
  rb_RelayPublicKey :: string
  rb_ContributorWallet :: string
  rb_MotherHiveWallet :: string
  rb_EcosystemWallet :: string
  rb_BoundByActionID :: string

record TaskState =
  ts_TaskID :: string
  ts_Manifest :: "TaskManifest option"
  ts_CatalogPaused :: bool
  ts_CatalogPublishedAt :: string
  ts_CatalogUpdatedAt :: string
  ts_TotalStakeAmount :: float64
  ts_RewardPoolAmount :: float64
  ts_PendingRewardAmount :: float64
  ts_TotalRewardPaidAmount :: float64
  ts_RunningCount :: int
  ts_LastAction :: string
  ts_LastActionID :: string
  ts_LastActionAt :: string
  ts_IsMigrated :: bool
  ts_MigratedTo :: string
  ts_Participants :: "string \<rightharpoonup> TaskParticipantState"
  ts_Submissions :: "string \<rightharpoonup> (string \<rightharpoonup> TaskSubmissionState)"

record TaskStateStore =
  tk_tasks :: "string \<rightharpoonup> TaskState"
  tk_actionIDs :: "string set"
  tk_senderNonce :: "string \<rightharpoonup> u64"
  tk_pooledRelayBindings :: "string \<rightharpoonup> PooledRelayBinding"
  tk_settledPooledProofs :: "string \<rightharpoonup> string"
  tk_settledPooledReceipts :: "string \<rightharpoonup> string"

record pooledResourceSettlement =
  st_Proof :: PoolProof
  st_ContributorAmount :: float64
  st_MotherHiveAmount :: float64
  st_EcosystemAmount :: float64

record taskActionPayload =
  pl_Round :: u64
  pl_Slot :: u64
  pl_SubmissionValue :: string
  pl_MigratedTo :: string
  pl_RewardAmount :: float64

record resourceWorkerProofPayload =
  ev_Source :: string
  ev_Resource :: string
  ev_SubmissionValue :: string
  ev_Proof :: string

record resourceWorkerProofDetails =
  dt_Algorithm :: string
  dt_Digest :: string
  dt_Units :: u64
  dt_ReceiptRoot :: string
  dt_JobCount :: int
  dt_TotalUnits :: u64

record taskActionSigned =
  sg_ID :: string
  sg_Sender :: string
  sg_TaskID :: string
  sg_Action :: string
  sg_Amount :: float64
  sg_Payload :: string
  sg_Nonce :: u64
  sg_Timestamp :: string
  sg_Signature :: string

text \<open>The scheme, the host and the presence of user information of a parsed URL.\<close>

record url_parts =
  url_Scheme :: string
  url_Host :: string
  url_HasUser :: bool

text \<open>
  What the code calls: the JSON decoders (\<^const>\<open>None\<close> is an error; the payload decoder ignores errors, so it
  is total), the encoders, \<open>url.Parse\<close>, the relay's primitives (with SHA-256 and the RFC 3339 parser), the ML-DSA
  verifier (\<^const>\<open>None\<close> when unavailable), the configured height, and the parameters of the account store.
\<close>

record task_env =
  te_payload :: "string \<Rightarrow> taskActionPayload"
  te_envelope :: "string \<Rightarrow> resourceWorkerProofPayload option"
  te_details :: "string \<Rightarrow> resourceWorkerProofDetails option"
  te_pool_proof :: "string \<Rightarrow> PoolProof option"
  te_manifest :: "string \<Rightarrow> TaskManifest option"
  te_action :: "string \<Rightarrow> TaskAction option"
  te_marshal_manifest :: "TaskManifest \<Rightarrow> string option"
  te_marshal_signed :: "taskActionSigned \<Rightarrow> string option"
  te_url :: "string \<Rightarrow> url_parts option"
  te_relay :: relay_env
  te_verifier :: "(string \<Rightarrow> string \<Rightarrow> string \<Rightarrow> bool) option"
  te_signature_height :: u64
  te_oob :: "float64 \<Rightarrow> u64"
  te_fork :: u64

datatype task_error =
    MissingField
  | DuplicateTaskAction
  | TaskActionNonceReplay
  | NotTaskActionTx
  | TaskActionMismatch
  | InsufficientTaskStake
  | InsufficientTaskRewardPool
  | NoTaskReward
  | TaskActionRequiresStake
  | PooledResourceProofNotEnforceable
  | PooledSettlementRequiresEconomicApply
  | LegacyResourceWorkerProof
  | AmountNotPositive
  | UnsupportedTaskAction
  | BadSubmission
  | BadPooledSettlement
  | SettlementProofRefused settle_error
  | ProofAlreadyConsumed
  | RelayBindingConflict
  | DuplicateSubmission
  | PayloadUndecodable
  | TaskManifestExists
  | TaskManifestNotFound
  | TaskManifestManagerMismatch
  | TaskManifestVersionRefused
  | TaskManifestInvalid
  | TaskActionUnsigned
  | TaskActionBadSignature
  | NegativeFee
  | ChargeRefused account_error

definition NewTaskStateStore :: TaskStateStore where
  "NewTaskStateStore = \<lparr>tk_tasks = Map.empty, tk_actionIDs = {}, tk_senderNonce = Map.empty,
     tk_pooledRelayBindings = Map.empty, tk_settledPooledProofs = Map.empty, tk_settledPooledReceipts = Map.empty\<rparr>"

definition new_task :: "string \<Rightarrow> TaskState" where
  "new_task taskID = \<lparr>ts_TaskID = taskID, ts_Manifest = None, ts_CatalogPaused = False, ts_CatalogPublishedAt = [],
     ts_CatalogUpdatedAt = [], ts_TotalStakeAmount = 0, ts_RewardPoolAmount = 0, ts_PendingRewardAmount = 0,
     ts_TotalRewardPaidAmount = 0, ts_RunningCount = 0, ts_LastAction = [], ts_LastActionID = [], ts_LastActionAt = [],
     ts_IsMigrated = False, ts_MigratedTo = [], ts_Participants = Map.empty, ts_Submissions = Map.empty\<rparr>"

definition getOrCreateTaskLocked :: "TaskStateStore \<Rightarrow> string \<Rightarrow> TaskStateStore \<times> TaskState" where
  "getOrCreateTaskLocked s taskID =
     (case tk_tasks s taskID of
        Some task \<Rightarrow> (s, task)
      | None \<Rightarrow> (let task = new_task taskID in (s\<lparr>tk_tasks := (tk_tasks s)(taskID \<mapsto> task)\<rparr>, task)))"

section \<open>Manifests\<close>

definition isTaskCatalogAction :: "string \<Rightarrow> bool" where
  "isTaskCatalogAction action \<longleftrightarrow> action \<in>
     {TaskActionCatalogRegister, TaskActionCatalogUpdate, TaskActionCatalogPause, TaskActionCatalogResume}"

definition taskCatalogIDPattern :: "string \<Rightarrow> bool" where
  "taskCatalogIDPattern s \<longleftrightarrow> s \<noteq> [] \<and> length s \<le> 128 \<and> ascii_alnum (hd s) \<and>
     list_all (\<lambda>c. ascii_alnum c \<or> c \<in> {CHR ''.'', CHR ''_'', CHR '':'', CHR ''-''}) (tl s)"

definition ascii_digit :: "char \<Rightarrow> bool" where
  "ascii_digit c \<longleftrightarrow> of_char c \<in> {48..57::nat}"

definition lower_alnum :: "char \<Rightarrow> bool" where
  "lower_alnum c \<longleftrightarrow> ascii_digit c \<or> of_char c \<in> {97..122::nat}"

definition taskCapabilityPattern :: "string \<Rightarrow> bool" where
  "taskCapabilityPattern s \<longleftrightarrow> s \<noteq> [] \<and> length s \<le> 128 \<and> lower_alnum (hd s) \<and>
     list_all (\<lambda>c. lower_alnum c \<or> c \<in> {CHR ''.'', CHR ''_'', CHR ''-''}) (tl s)"

text \<open>A run of digits and a dot; the digits and the rest after it. The last number may be followed by a suffix.\<close>

definition semver_number :: "string \<Rightarrow> string option" where
  "semver_number s = (let d = takeWhile ascii_digit s; r = dropWhile ascii_digit s
     in if d = [] then None else case r of c # r' \<Rightarrow> if c = CHR ''.'' then Some r' else None | [] \<Rightarrow> None)"

definition semver_tail :: "string \<Rightarrow> bool" where
  "semver_tail s = (let d = takeWhile ascii_digit s; r = dropWhile ascii_digit s
     in d \<noteq> [] \<and> (case r of [] \<Rightarrow> True
        | c # r' \<Rightarrow> c \<in> {CHR ''-'', CHR ''+''} \<and> r' \<noteq> [] \<and>
            list_all (\<lambda>x. ascii_alnum x \<or> x \<in> {CHR ''.'', CHR ''-''}) r'))"

definition taskSemanticVersionPattern :: "string \<Rightarrow> bool" where
  "taskSemanticVersionPattern s =
     (case semver_number s of None \<Rightarrow> False
      | Some r \<Rightarrow> (case semver_number r of None \<Rightarrow> False | Some r' \<Rightarrow> semver_tail r'))"

definition invalidTaskAmount :: "float64 \<Rightarrow> bool" where
  "invalidTaskAmount value \<longleftrightarrow> value < 0 \<or> is_nan value \<or> is_inf value"

definition normalizeTaskManifestTags :: "string list \<Rightarrow> string list" where
  "normalizeTaskManifestTags tags = sort (remdups (filter (\<lambda>t. t \<noteq> []) (map (\<lambda>raw. ToLower (TrimSpace raw)) tags)))"

definition normalizeTaskRelayIDs :: "string list \<Rightarrow> string list" where
  "normalizeTaskRelayIDs ids = sort (remdups (filter (\<lambda>t. t \<noteq> []) (map (\<lambda>raw. ToLower (TrimSpace raw)) ids)))"

definition validateTaskManifestHTTPSURL :: "task_env \<Rightarrow> string \<Rightarrow> bool" where
  "validateTaskManifestHTTPSURL e raw \<longleftrightarrow>
     raw = [] \<or> (length raw \<le> 2048 \<and>
       (case te_url e raw of None \<Rightarrow> False
        | Some u \<Rightarrow> url_Scheme u = ''https'' \<and> url_Host u \<noteq> [] \<and> \<not> url_HasUser u))"

definition validate_runtime :: "task_env \<Rightarrow> TaskRuntimeManifest \<Rightarrow> task_error option" where
  "validate_runtime e r =
     (if rt_Kind r = ''capability'' then
        (if \<not> taskCapabilityPattern (rt_Capability r) then Some TaskManifestInvalid
         else if rt_ModuleURL r \<noteq> [] \<or> rt_ModuleSHA256 r \<noteq> [] then Some TaskManifestInvalid
         else None)
      else if rt_Kind r = ''wasm'' then
        (if \<not> validateTaskManifestHTTPSURL e (rt_ModuleURL r) then Some TaskManifestInvalid
         else if \<not> hex32 (rt_ModuleSHA256 r) then Some TaskManifestInvalid
         else if rt_ABI r = [] \<or> 64 < length (rt_ABI r) then Some TaskManifestInvalid
         else None)
      else Some TaskManifestInvalid)"

definition validateTaskManifest :: "task_env \<Rightarrow> TaskAction \<Rightarrow> TaskManifest \<Rightarrow> task_error option" where
  "validateTaskManifest e action m =
     (if mf_SchemaVersion m \<noteq> TaskCatalogSchemaVersion then Some TaskManifestInvalid
      else if mf_TaskID m \<noteq> ta_TaskID action \<or> \<not> taskCatalogIDPattern (mf_TaskID m) then Some TaskManifestInvalid
      else if mf_Version m = 0 then Some TaskManifestVersionRefused
      else if mf_Manager m \<noteq> ToLower (TrimSpace (ta_Sender action)) then Some TaskManifestManagerMismatch
      else if mf_Name m = [] \<or> 120 < length (mf_Name m) then Some TaskManifestInvalid
      else if 2000 < length (mf_Description m) then Some TaskManifestInvalid
      else if mf_RoundTime m = 0 \<or> 10000000 < mf_RoundTime m then Some TaskManifestInvalid
      else if mf_RoundTime m < mf_SubmissionWindow m \<or> mf_RoundTime m < mf_AuditWindow m then Some TaskManifestInvalid
      else if invalidTaskAmount (mf_MinimumStakeAmount m) \<or> invalidTaskAmount (mf_RewardPerRound m) then Some TaskManifestInvalid
      else if 16 < length (mf_Tags m) then Some TaskManifestInvalid
      else if 16 < length (mf_AuthorizedRelayIDs m) then Some TaskManifestInvalid
      else if list_ex (\<lambda>r. \<not> hex32 r) (mf_AuthorizedRelayIDs m) then Some TaskManifestInvalid
      else if list_ex (\<lambda>t. t = [] \<or> 32 < length t \<or> \<not> taskCapabilityPattern t) (mf_Tags m) then Some TaskManifestInvalid
      else if list_ex (\<lambda>u. \<not> validateTaskManifestHTTPSURL e u) [mf_MetadataURL m, mf_SourceURL m, mf_IconURL m]
        then Some TaskManifestInvalid
      else if rt_MinHiveVersion (mf_Runtime m) \<noteq> [] \<and> \<not> taskSemanticVersionPattern (rt_MinHiveVersion (mf_Runtime m))
        then Some TaskManifestInvalid
      else if 4096 < rt_MaxMemoryMB (mf_Runtime m) \<or> 86400 < rt_MaxRuntimeSeconds (mf_Runtime m) then Some TaskManifestInvalid
      else validate_runtime e (mf_Runtime m))"

definition normalize_manifest :: "TaskManifest \<Rightarrow> TaskManifest" where
  "normalize_manifest m = m\<lparr>mf_TaskID := TrimSpace (mf_TaskID m), mf_Name := TrimSpace (mf_Name m),
     mf_Description := TrimSpace (mf_Description m), mf_Manager := ToLower (TrimSpace (mf_Manager m)),
     mf_Runtime := (let r = mf_Runtime m in r\<lparr>rt_Kind := ToLower (TrimSpace (rt_Kind r)),
       rt_Capability := ToLower (TrimSpace (rt_Capability r)), rt_ModuleURL := TrimSpace (rt_ModuleURL r),
       rt_ModuleSHA256 := ToLower (TrimSpace (rt_ModuleSHA256 r)), rt_ABI := TrimSpace (rt_ABI r),
       rt_MinHiveVersion := TrimSpace (rt_MinHiveVersion r)\<rparr>),
     mf_MetadataURL := TrimSpace (mf_MetadataURL m), mf_SourceURL := TrimSpace (mf_SourceURL m),
     mf_IconURL := TrimSpace (mf_IconURL m), mf_Tags := normalizeTaskManifestTags (mf_Tags m),
     mf_AuthorizedRelayIDs := normalizeTaskRelayIDs (mf_AuthorizedRelayIDs m)\<rparr>"

definition decodeTaskManifest :: "task_env \<Rightarrow> TaskAction \<Rightarrow> task_error + TaskManifest" where
  "decodeTaskManifest e action =
     (if TrimSpace (ta_Payload action) = [] then Inl TaskManifestInvalid
      else (case te_manifest e (ta_Payload action) of
          None \<Rightarrow> Inl PayloadUndecodable
        | Some raw \<Rightarrow>
            (let m = normalize_manifest raw
             in case validateTaskManifest e action m of Some err \<Rightarrow> Inl err | None \<Rightarrow> Inr m)))"

definition cloneTaskManifest :: "TaskManifest option \<Rightarrow> TaskManifest option" where
  "cloneTaskManifest m = map_option (\<lambda>x. x\<lparr>mf_Tags := [] @ mf_Tags x, mf_AuthorizedRelayIDs := [] @ mf_AuthorizedRelayIDs x\<rparr>) m"

text \<open>The result names the task; the caller writes the last action into it.\<close>

definition applyTaskCatalogActionLocked ::
  "task_env \<Rightarrow> TaskStateStore \<Rightarrow> TaskAction \<Rightarrow> TaskStateStore \<times> (task_error + TaskState)" where
  "applyTaskCatalogActionLocked e s action =
     (let put = (\<lambda>s' t. (s'\<lparr>tk_tasks := (tk_tasks s')(ta_TaskID action \<mapsto> t)\<rparr>, Inr t))
      in if ta_Action action = TaskActionCatalogRegister then
           (case decodeTaskManifest e action of
              Inl err \<Rightarrow> (s, Inl err)
            | Inr manifest \<Rightarrow>
                if mf_Version manifest \<noteq> 1 then (s, Inl TaskManifestVersionRefused)
                else if (case tk_tasks s (ta_TaskID action) of None \<Rightarrow> False | Some t \<Rightarrow> ts_Manifest t \<noteq> None)
                  then (s, Inl TaskManifestExists)
                else (case getOrCreateTaskLocked s (ta_TaskID action) of
                    (s', task) \<Rightarrow> put s' (task\<lparr>ts_Manifest := cloneTaskManifest (Some manifest), ts_CatalogPaused := False,
                       ts_CatalogPublishedAt := ta_Timestamp action, ts_CatalogUpdatedAt := ta_Timestamp action\<rparr>)))
         else if ta_Action action = TaskActionCatalogUpdate then
           (case tk_tasks s (ta_TaskID action) of
              None \<Rightarrow> (s, Inl TaskManifestNotFound)
            | Some task \<Rightarrow>
                (case ts_Manifest task of
                   None \<Rightarrow> (s, Inl TaskManifestNotFound)
                 | Some current \<Rightarrow>
                     if mf_Manager current \<noteq> ToLower (TrimSpace (ta_Sender action)) then (s, Inl TaskManifestManagerMismatch)
                     else (case decodeTaskManifest e action of
                         Inl err \<Rightarrow> (s, Inl err)
                       | Inr manifest \<Rightarrow>
                           if mf_Manager manifest \<noteq> mf_Manager current then (s, Inl TaskManifestManagerMismatch)
                           else if mf_Version manifest \<noteq> mf_Version current + 1 then (s, Inl TaskManifestVersionRefused)
                           else put s (task\<lparr>ts_Manifest := cloneTaskManifest (Some manifest),
                                  ts_CatalogUpdatedAt := ta_Timestamp action\<rparr>))))
         else if ta_Action action = TaskActionCatalogPause \<or> ta_Action action = TaskActionCatalogResume then
           (case tk_tasks s (ta_TaskID action) of
              None \<Rightarrow> (s, Inl TaskManifestNotFound)
            | Some task \<Rightarrow>
                (case ts_Manifest task of
                   None \<Rightarrow> (s, Inl TaskManifestNotFound)
                 | Some current \<Rightarrow>
                     if mf_Manager current \<noteq> ToLower (TrimSpace (ta_Sender action)) then (s, Inl TaskManifestManagerMismatch)
                     else put s (task\<lparr>ts_CatalogPaused := (ta_Action action = TaskActionCatalogPause),
                            ts_CatalogUpdatedAt := ta_Timestamp action\<rparr>)))
         else (s, Inl UnsupportedTaskAction))"

section \<open>Authentication of actions\<close>

definition CanonicalTaskActionSigningBytes :: "task_env \<Rightarrow> TaskAction \<Rightarrow> string option" where
  "CanonicalTaskActionSigningBytes e a =
     te_marshal_signed e \<lparr>sg_ID = ta_ID a, sg_Sender = ta_Sender a, sg_TaskID = ta_TaskID a, sg_Action = ta_Action a,
       sg_Amount = ta_Amount a, sg_Payload = ta_Payload a, sg_Nonce = ta_Nonce a, sg_Timestamp = ta_Timestamp a,
       sg_Signature = []\<rparr>"

definition VerifyTaskActionSignature ::
  "task_env \<Rightarrow> TaskAction \<Rightarrow> string \<Rightarrow> string \<Rightarrow> u64 \<Rightarrow> task_error option" where
  "VerifyTaskActionSignature e a sigHex pubHex height =
     (if sigHex = [] \<or> pubHex = [] then
        (if te_signature_height e \<noteq> 0 \<and> te_signature_height e \<le> height then Some TaskActionUnsigned else None)
      else (case DecodeHex pubHex of
          None \<Rightarrow> Some TaskActionBadSignature
        | Some pubBytes \<Rightarrow>
            if EncodeToString (re_sha256 (te_relay e) pubBytes) \<noteq> ta_Sender a then Some TaskActionBadSignature
            else (case DecodeHex sigHex of
                None \<Rightarrow> Some TaskActionBadSignature
              | Some sigBytes \<Rightarrow>
                  (case CanonicalTaskActionSigningBytes e a of
                     None \<Rightarrow> Some TaskActionBadSignature
                   | Some canonical \<Rightarrow>
                       (case te_verifier e of
                          None \<Rightarrow> Some TaskActionBadSignature
                        | Some verify \<Rightarrow> if verify canonical sigBytes pubBytes then None else Some TaskActionBadSignature)))))"

definition DecodeTaskActionTx :: "task_env \<Rightarrow> Tx \<Rightarrow> task_error + TaskAction" where
  "DecodeTaskActionTx e tx =
     (if tx_ContractID tx \<noteq> TaskContractID then Inl NotTaskActionTx
      else (case te_action e (tx_Payload tx) of
          None \<Rightarrow> Inl PayloadUndecodable
        | Some a0 \<Rightarrow>
            if ta_ID a0 \<noteq> [] \<and> tx_ID tx \<noteq> [] \<and> ta_ID a0 \<noteq> tx_ID tx then Inl TaskActionMismatch
            else (let a1 = (if ta_ID a0 = [] then a0\<lparr>ta_ID := tx_ID tx\<rparr> else a0)
                  in if ta_Sender a1 \<noteq> [] \<and> tx_Sender tx \<noteq> [] \<and> ta_Sender a1 \<noteq> tx_Sender tx then Inl TaskActionMismatch
                     else (let a2 = (if ta_Sender a1 = [] then a1\<lparr>ta_Sender := tx_Sender tx\<rparr> else a1);
                               a3 = (if ta_Nonce a2 = 0 then a2\<lparr>ta_Nonce := tx_Nonce tx\<rparr> else a2)
                           in if ta_Nonce a3 \<noteq> tx_Nonce tx then Inl TaskActionMismatch else Inr a3))))"

section \<open>Snapshots and the catalog's fingerprint\<close>

definition cloneTaskState :: "TaskState \<Rightarrow> TaskState" where
  "cloneTaskState task = task\<lparr>ts_Manifest := cloneTaskManifest (ts_Manifest task)\<rparr>"

definition ChainReplayCloneTasks :: "TaskStateStore \<Rightarrow> TaskStateStore" where
  "ChainReplayCloneTasks s = NewTaskStateStore\<lparr>tk_tasks := map_option cloneTaskState \<circ> tk_tasks s,
     tk_actionIDs := tk_actionIDs s, tk_senderNonce := tk_senderNonce s,
     tk_pooledRelayBindings := tk_pooledRelayBindings s, tk_settledPooledProofs := tk_settledPooledProofs s,
     tk_settledPooledReceipts := tk_settledPooledReceipts s\<rparr>"

definition RestoreTasks :: "TaskStateStore \<Rightarrow> TaskStateStore \<Rightarrow> TaskStateStore" where
  "RestoreTasks s other = s\<lparr>tk_tasks := map_option cloneTaskState \<circ> tk_tasks other,
     tk_actionIDs := tk_actionIDs other, tk_senderNonce := tk_senderNonce other,
     tk_pooledRelayBindings := tk_pooledRelayBindings other, tk_settledPooledProofs := tk_settledPooledProofs other,
     tk_settledPooledReceipts := tk_settledPooledReceipts other\<rparr>"

definition GetTask :: "TaskStateStore \<Rightarrow> string \<Rightarrow> TaskState option" where
  "GetTask s taskID = map_option cloneTaskState (tk_tasks s taskID)"

text \<open>\<open>ids\<close> is the order in which the map of tasks is ranged over.\<close>

definition AllTasks :: "string list \<Rightarrow> TaskStateStore \<Rightarrow> TaskState list" where
  "AllTasks ids s = map (\<lambda>i. cloneTaskState (the (tk_tasks s i))) (sort ids)"

definition show_bool :: "bool \<Rightarrow> string" where
  "show_bool b = (if b then ''true'' else ''false'')"

definition catalog_segment :: "task_env \<Rightarrow> TaskState \<Rightarrow> string" where
  "catalog_segment e task =
     (case te_marshal_manifest e (the (ts_Manifest task)) of
        None \<Rightarrow> []
      | Some manifestJSON \<Rightarrow> comma_join '':'' [ts_TaskID task, manifestJSON, show_bool (ts_CatalogPaused task),
          ts_CatalogPublishedAt task, ts_CatalogUpdatedAt task] @ '';'')"

definition TaskCatalogRoot :: "task_env \<Rightarrow> TaskState list \<Rightarrow> string" where
  "TaskCatalogRoot e tasks =
     (let catalogTasks = filter (\<lambda>t. ts_Manifest t \<noteq> None) tasks
      in if catalogTasks = [] then []
         else EncodeToString (re_sha256 (te_relay e)
           (concat (map (catalog_segment e) (sort_slice (\<lambda>x y. ts_TaskID x < ts_TaskID y) catalogTasks)))))"

definition CatalogRoot :: "task_env \<Rightarrow> string list \<Rightarrow> TaskStateStore \<Rightarrow> string" where
  "CatalogRoot e ids s = TaskCatalogRoot e (AllTasks ids s)"

section \<open>Snapshots\<close>

lemma clone_manifest [simp]: "cloneTaskManifest m = m"
  by (cases m) (simp_all add: cloneTaskManifest_def)

lemma clone_task [simp]: "cloneTaskState t = t"
  by (simp add: cloneTaskState_def)

lemma clone_tasks [simp]: "map_option cloneTaskState \<circ> f = f"
proof
  fix x
  show "(map_option cloneTaskState \<circ> f) x = f x" by (cases "f x") simp_all
qed

lemma clone_store [simp]: "ChainReplayCloneTasks s = s"
  by (simp add: ChainReplayCloneTasks_def NewTaskStateStore_def)

lemma restore_store [simp]: "RestoreTasks s s' = s'"
  by (simp add: RestoreTasks_def)

section \<open>The catalog\<close>

lemma sort_iterations:
  assumes "iteration m xs" and "iteration m ys"
  shows "sort xs = sort ys"
  using assms by (auto simp: iteration_def intro: sorted_distinct_set_unique)

lemma manifest_valid:
  assumes "decodeTaskManifest e action = Inr m"
  shows "mf_Version m \<noteq> 0" and "mf_Manager m = ToLower (TrimSpace (ta_Sender action))"
    and "mf_TaskID m = ta_TaskID action" and "0 < mf_RoundTime m"
    and "0 \<le> mf_RewardPerRound m" and "0 \<le> mf_MinimumStakeAmount m"
proof -
  from assms have v: "validateTaskManifest e action m = None"
    by (auto simp: decodeTaskManifest_def Let_def split: if_splits option.splits)
  then show "mf_Version m \<noteq> 0" "mf_Manager m = ToLower (TrimSpace (ta_Sender action))" "mf_TaskID m = ta_TaskID action"
    "0 < mf_RoundTime m"
    by (auto simp: validateTaskManifest_def word_neq_0_conv split: if_splits)
  from v have "\<not> invalidTaskAmount (mf_RewardPerRound m)" "\<not> invalidTaskAmount (mf_MinimumStakeAmount m)"
    by (auto simp: validateTaskManifest_def split: if_splits)
  then show "0 \<le> mf_RewardPerRound m" "0 \<le> mf_MinimumStakeAmount m"
    by (cases "mf_RewardPerRound m"; cases "mf_MinimumStakeAmount m";
        auto simp: invalidTaskAmount_def is_nan_def is_inf_def float_le_cases zero_float64_def)+
qed

end
