(* ===== verification/Tasks.thy ===== *)
theory Tasks
  imports Task_Catalog
begin

text \<open>
  The life of an edge task (\<open>pkg/chain/task_state.go\<close>): staking, funding, running, submitting proofs, pooled
  settlements, claims, and the economic transaction that charges the sender, applies the action and pays.
  Amounts are float64 values. An action refused after its task was created leaves the empty task in the store,
  as the code does; the loops over the rounds of a task follow an iteration order \<open>rs\<close> of its map. The store is
  never nil. Lemmas: what each action does, what a settlement guarantees, submissions once claimed and receipts once
  settled stay so, the count of running participants, one claim per reward, and atomic economic transactions.
\<close>

section \<open>Amounts and payloads\<close>

definition taskAmountLessThan :: "float64 \<Rightarrow> float64 \<Rightarrow> bool" where
  "taskAmountLessThan hav need \<longleftrightarrow> hav + taskAmountEpsilon < need"

definition clampTaskAmount :: "float64 \<Rightarrow> float64" where
  "clampTaskAmount value = (if value < taskAmountEpsilon then 0 else value)"

definition clampTask :: "TaskState \<Rightarrow> TaskState" where
  "clampTask task =
     (let t1 = (if ts_PendingRewardAmount task < 0
                then task\<lparr>ts_PendingRewardAmount := clampTaskAmount (ts_PendingRewardAmount task)\<rparr> else task)
      in if ts_RewardPoolAmount t1 < 0 then t1\<lparr>ts_RewardPoolAmount := clampTaskAmount (ts_RewardPoolAmount t1)\<rparr> else t1)"

definition clampParticipant :: "TaskParticipantState \<Rightarrow> TaskParticipantState" where
  "clampParticipant p = (if pt_PendingRewardAmount p < 0
     then p\<lparr>pt_PendingRewardAmount := clampTaskAmount (pt_PendingRewardAmount p)\<rparr> else p)"

definition clampTaskRewardAccounting :: "TaskState \<times> TaskParticipantState \<Rightarrow> TaskState \<times> TaskParticipantState" where
  "clampTaskRewardAccounting tp = (clampTask (fst tp), clampParticipant (snd tp))"

definition parseTaskActionPayload :: "task_env \<Rightarrow> string \<Rightarrow> taskActionPayload" where
  "parseTaskActionPayload e raw =
     (if raw = [] then \<lparr>pl_Round = 0, pl_Slot = 0, pl_SubmissionValue = [], pl_MigratedTo = [], pl_RewardAmount = 0\<rparr>
      else te_payload e raw)"

definition systemResourceTaskPolicies :: "string \<rightharpoonup> string \<times> float64" where
  "systemResourceTaskPolicies =
     [''qsdm-edge-worker'' \<mapsto> (''cpu'', rnd (5 / 100)),
      ''qsdm-edge-worker-gpu'' \<mapsto> (''gpu'', rnd (10 / 100)),
      ''qsdm-edge-worker-ram'' \<mapsto> (''ram'', rnd (5 / 100))]"

text \<open>\<open>strconv.FormatUint(round, 10)\<close>.\<close>

definition round_key :: "u64 \<Rightarrow> string" where
  "round_key n = show_nat (unat n)"

definition new_participant :: TaskParticipantState where
  "new_participant = \<lparr>pt_Sender = [], pt_Running = False, pt_Stake = 0, pt_LastAction = [], pt_LastActionID = [],
     pt_LastActionAt = [], pt_LastStartedAt = [], pt_LastStoppedAt = [], pt_SubmissionCount = 0, pt_ClaimCount = 0,
     pt_PendingRewardAmount = 0, pt_TotalRewardClaimedAmount = 0, pt_LastClaimedAt = []\<rparr>"

definition participant_of :: "TaskState \<Rightarrow> string \<Rightarrow> TaskParticipantState" where
  "participant_of task sender = (case ts_Participants task sender of None \<Rightarrow> new_participant | Some p \<Rightarrow> p)"

section \<open>Policies of a submission\<close>

definition taskManifestAuthorizesRelay :: "TaskManifest option \<Rightarrow> string \<Rightarrow> bool" where
  "taskManifestAuthorizesRelay manifest relayID =
     (case manifest of None \<Rightarrow> False | Some m \<Rightarrow> list_ex (\<lambda>a. EqualFold a relayID) (mf_AuthorizedRelayIDs m))"

text \<open>Durations in nanoseconds; the saturation of \<open>Sub\<close> lies far beyond the bounds compared with.\<close>

definition hour_ns :: int where "hour_ns = 3600 * 10 ^ 9"

definition validatePooledSettlementTime :: "task_env \<Rightarrow> string \<Rightarrow> PoolProof \<Rightarrow> bool" where
  "validatePooledSettlementTime e actionTimestamp p =
     (case re_parse_time (te_relay e) actionTimestamp of
        None \<Rightarrow> False
      | Some actionTime \<Rightarrow>
          (case re_parse_time (te_relay e) (pp_WindowStart p) of
             None \<Rightarrow> False
           | Some windowStart \<Rightarrow>
               (case re_parse_time (te_relay e) (pp_WindowEnd p) of
                  None \<Rightarrow> False
                | Some windowEnd \<Rightarrow>
                    \<not> (windowEnd < windowStart \<or> 2 * hour_ns < windowEnd - windowStart) \<and>
                    \<not> actionTime + 120 * 10 ^ 9 < windowEnd \<and> \<not> 24 * hour_ns < actionTime - windowEnd)))"

definition splitPooledSettlementReward ::
  "(float64 \<Rightarrow> u64) \<Rightarrow> float64 \<Rightarrow> (float64 \<times> float64 \<times> float64) option" where
  "splitPooledSettlementReward oob reward =
     (let rewardDust = balanceToDust oob reward
      in if rewardDust = 0 then None
         else if taskAmountEpsilon < math_Abs (dustToBalance rewardDust - reward) then None
         else (let contributorDust = rewardDust * 70 div 100;
                   motherHiveDust = rewardDust * 15 div 100;
                   ecosystemDust = rewardDust - contributorDust - motherHiveDust
               in Some (dustToBalance contributorDust, dustToBalance motherHiveDust, dustToBalance ecosystemDust)))"

definition validTaskDigest :: "string \<Rightarrow> bool" where
  "validTaskDigest value \<longleftrightarrow> hex32 (TrimSpace value)"

definition catalog_policy :: "TaskState \<Rightarrow> TaskParticipantState \<Rightarrow> taskActionPayload \<Rightarrow> task_error option" where
  "catalog_policy task participant payload =
     (case ts_Manifest task of
        None \<Rightarrow> None
      | Some m \<Rightarrow>
          if ts_CatalogPaused task \<or> \<not> mf_Active m then Some BadSubmission
          else if taskAmountLessThan (pt_Stake participant) (mf_MinimumStakeAmount m) then Some InsufficientTaskStake
          else if taskAmountLessThan (mf_RewardPerRound m) (pl_RewardAmount payload) then Some BadSubmission
          else None)"

definition binding_matches :: "PooledRelayBinding \<Rightarrow> PoolProof \<Rightarrow> bool" where
  "binding_matches b p \<longleftrightarrow> EqualFold (rb_RelayPublicKey b) (pp_RelayPublicKey p) \<and>
     EqualFold (rb_ContributorWallet b) (pp_ContributorWallet p) \<and>
     EqualFold (rb_MotherHiveWallet b) (pp_MotherHiveWallet p) \<and>
     EqualFold (rb_EcosystemWallet b) (pp_EcosystemWallet p)"

definition round_time :: "TaskState \<Rightarrow> u64" where
  "round_time task = (case ts_Manifest task of None \<Rightarrow> 60 | Some m \<Rightarrow> if 0 < mf_RoundTime m then mf_RoundTime m else 60)"

definition pooled_settlement ::
  "task_env \<Rightarrow> TaskStateStore \<Rightarrow> TaskState \<Rightarrow> TaskAction \<Rightarrow> taskActionPayload \<Rightarrow> resourceWorkerProofPayload \<Rightarrow> string \<Rightarrow> u64 \<Rightarrow>
     task_error + pooledResourceSettlement" where
  "pooled_settlement e s task action payload envelope resource currentHeight =
     (if currentHeight = 0 then Inl BadPooledSettlement
      else if currentHeight < pl_Slot payload \<or> pooledSettlementMaxSlotLag < currentHeight - pl_Slot payload
        then Inl BadPooledSettlement
      else if pl_Round payload \<noteq> pl_Slot payload div round_time task then Inl BadPooledSettlement
      else (case te_pool_proof e (ev_Proof envelope) of
          None \<Rightarrow> Inl PayloadUndecodable
        | Some p \<Rightarrow>
            (case VerifySettlementPoolProof (te_relay e) p of
               Some err \<Rightarrow> Inl (SettlementProofRefused err)
             | None \<Rightarrow>
                 if pp_Resource p \<noteq> resource then Inl BadPooledSettlement
                 else if \<not> EqualFold (ev_SubmissionValue envelope) (pp_ReceiptRoot p) then Inl BadPooledSettlement
                 else if \<not> EqualFold (ta_Sender action) (pp_MotherHiveWallet p) then Inl BadPooledSettlement
                 else if \<not> EqualFold (pp_EcosystemWallet p) ProductionEcosystemWallet then Inl BadPooledSettlement
                 else if \<not> taskManifestAuthorizesRelay (ts_Manifest task) (pp_CoordinatorID p) then Inl BadPooledSettlement
                 else if \<not> validatePooledSettlementTime e (ta_Timestamp action) p then Inl BadPooledSettlement
                 else if tk_settledPooledProofs s (ToLower (pp_ProofID p)) \<noteq> None then Inl ProofAlreadyConsumed
                 else if list_ex (\<lambda>r. tk_settledPooledReceipts s (ToLower r) \<noteq> None) (pp_ReceiptIDs p)
                   then Inl ProofAlreadyConsumed
                 else if (case tk_pooledRelayBindings s (pp_CoordinatorID p) of
                     None \<Rightarrow> False | Some b \<Rightarrow> \<not> binding_matches b p) then Inl RelayBindingConflict
                 else (case splitPooledSettlementReward (te_oob e) (pl_RewardAmount payload) of
                     None \<Rightarrow> Inl BadPooledSettlement
                   | Some (contributor, motherHive, ecosystem) \<Rightarrow>
                       Inr \<lparr>st_Proof = p, st_ContributorAmount = contributor, st_MotherHiveAmount = motherHive,
                            st_EcosystemAmount = ecosystem\<rparr>))))"

definition local_proof :: "task_env \<Rightarrow> resourceWorkerProofPayload \<Rightarrow> string \<Rightarrow> task_error option" where
  "local_proof e envelope proofSource =
     (case te_details e (ev_Proof envelope) of
        None \<Rightarrow> Some PayloadUndecodable
      | Some d \<Rightarrow>
          if proofSource = ''qsdm-edge-pool'' \<or> proofSource = ''qsdm-edge-relay'' then
            (if dt_JobCount d \<le> 0 \<or> dt_TotalUnits d = 0 \<or> \<not> validTaskDigest (dt_ReceiptRoot d) then Some BadSubmission
             else if \<not> EqualFold (ev_SubmissionValue envelope) (dt_ReceiptRoot d) then Some BadSubmission
             else Some PooledResourceProofNotEnforceable)
          else if TrimSpace (dt_Algorithm d) = [] \<or> dt_Units d = 0 \<or> \<not> validTaskDigest (dt_Digest d) then Some BadSubmission
          else if \<not> EqualFold (ev_SubmissionValue envelope) (dt_Digest d) then Some BadSubmission
          else None)"

definition resource_policy ::
  "task_env \<Rightarrow> TaskStateStore \<Rightarrow> TaskState \<Rightarrow> TaskAction \<Rightarrow> taskActionPayload \<Rightarrow> string \<times> float64 \<Rightarrow> bool \<Rightarrow> bool \<Rightarrow> u64 \<Rightarrow>
     task_error + pooledResourceSettlement option" where
  "resource_policy e s task action payload policy allowLegacy allowPooled currentHeight =
     (if taskAmountLessThan (snd policy) (pl_RewardAmount payload) then Inl BadSubmission
      else (case te_envelope e (ta_Payload action) of
          None \<Rightarrow> Inl PayloadUndecodable
        | Some envelope \<Rightarrow>
            if allowLegacy \<and> TrimSpace (ev_Resource envelope) = [] then Inr None
            else if TrimSpace (ev_Resource envelope) = [] then Inl LegacyResourceWorkerProof
            else if ToLower (TrimSpace (ev_Resource envelope)) \<noteq> fst policy then Inl BadSubmission
            else if TrimSpace (ev_SubmissionValue envelope) = [] \<or> ev_Proof envelope = [] then Inl BadSubmission
            else (let proofSource = ToLower (TrimSpace (ev_Source envelope))
                  in if proofSource = SettlementProofSource then
                       (if \<not> allowPooled then Inl PooledSettlementRequiresEconomicApply
                        else (case pooled_settlement e s task action payload envelope (fst policy) currentHeight of
                            Inl err \<Rightarrow> Inl err | Inr st \<Rightarrow> Inr (Some st)))
                     else (case local_proof e envelope proofSource of Some err \<Rightarrow> Inl err | None \<Rightarrow> Inr None))))"

definition validateTaskSubmissionPolicyLocked ::
  "task_env \<Rightarrow> TaskStateStore \<Rightarrow> TaskState \<Rightarrow> TaskParticipantState \<Rightarrow> TaskAction \<Rightarrow> taskActionPayload \<Rightarrow> bool \<Rightarrow> bool \<Rightarrow> u64 \<Rightarrow>
     task_error + pooledResourceSettlement option" where
  "validateTaskSubmissionPolicyLocked e s task participant action payload allowLegacy allowPooled currentHeight =
     (case catalog_policy task participant payload of
        Some err \<Rightarrow> Inl err
      | None \<Rightarrow>
          (case systemResourceTaskPolicies (ta_TaskID action) of
             None \<Rightarrow> Inr None
           | Some policy \<Rightarrow> resource_policy e s task action payload policy allowLegacy allowPooled currentHeight))"

section \<open>Submissions and claims\<close>

definition sub_lookup :: "TaskState \<Rightarrow> string \<Rightarrow> string \<Rightarrow> TaskSubmissionState option" where
  "sub_lookup task roundKey sender =
     (case ts_Submissions task roundKey of None \<Rightarrow> None | Some bySender \<Rightarrow> bySender sender)"

definition put_submission :: "TaskState \<Rightarrow> string \<Rightarrow> string \<Rightarrow> TaskSubmissionState \<Rightarrow> TaskState" where
  "put_submission task roundKey sender v =
     task\<lparr>ts_Submissions := (ts_Submissions task)(roundKey \<mapsto>
       (case ts_Submissions task roundKey of None \<Rightarrow> Map.empty | Some m \<Rightarrow> m)(sender \<mapsto> v))\<rparr>"

definition value_reused :: "TaskState \<Rightarrow> string list \<Rightarrow> string \<Rightarrow> string \<Rightarrow> string \<Rightarrow> bool" where
  "value_reused task rs roundKey sender value \<longleftrightarrow>
     list_ex (\<lambda>priorRound. priorRound \<noteq> roundKey \<and>
       (case sub_lookup task priorRound sender of None \<Rightarrow> False
        | Some prior \<Rightarrow> EqualFold (TrimSpace (sub_SubmissionValue prior)) value)) rs"

definition refund_existing :: "TaskSubmissionState option \<Rightarrow> TaskState \<times> TaskParticipantState \<Rightarrow> TaskState \<times> TaskParticipantState" where
  "refund_existing existing tp =
     (case existing of
        None \<Rightarrow> tp
      | Some x \<Rightarrow>
          if 0 < sub_RewardAmount x
          then clampTaskRewardAccounting
            ((fst tp)\<lparr>ts_RewardPoolAmount := ts_RewardPoolAmount (fst tp) + sub_RewardAmount x,
                     ts_PendingRewardAmount := ts_PendingRewardAmount (fst tp) - sub_RewardAmount x\<rparr>,
             (snd tp)\<lparr>pt_PendingRewardAmount := pt_PendingRewardAmount (snd tp) - sub_RewardAmount x\<rparr>)
          else tp)"

definition participant_share :: "string \<Rightarrow> pooledResourceSettlement \<Rightarrow> float64" where
  "participant_share sender st =
     (let r0 = 0;
          r1 = (if EqualFold sender (pp_ContributorWallet (st_Proof st)) then r0 + st_ContributorAmount st else r0);
          r2 = (if EqualFold sender (pp_MotherHiveWallet (st_Proof st)) then r1 + st_MotherHiveAmount st else r1)
      in if EqualFold sender (pp_EcosystemWallet (st_Proof st)) then r2 + st_EcosystemAmount st else r2)"

definition book_reward ::
  "TaskAction \<Rightarrow> float64 \<Rightarrow> pooledResourceSettlement option \<Rightarrow> TaskState \<times> TaskParticipantState \<Rightarrow> TaskState \<times> TaskParticipantState" where
  "book_reward action reward settlement tp =
     (case settlement of
        Some st \<Rightarrow> clampTaskRewardAccounting
          ((fst tp)\<lparr>ts_RewardPoolAmount := ts_RewardPoolAmount (fst tp) - reward,
                   ts_TotalRewardPaidAmount := ts_TotalRewardPaidAmount (fst tp) + reward\<rparr>,
           (snd tp)\<lparr>pt_TotalRewardClaimedAmount := pt_TotalRewardClaimedAmount (snd tp) + participant_share (ta_Sender action) st,
                   pt_LastClaimedAt := ta_Timestamp action\<rparr>)
      | None \<Rightarrow>
          if 0 < reward
          then clampTaskRewardAccounting
            ((fst tp)\<lparr>ts_RewardPoolAmount := ts_RewardPoolAmount (fst tp) - reward,
                     ts_PendingRewardAmount := ts_PendingRewardAmount (fst tp) + reward\<rparr>,
             (snd tp)\<lparr>pt_PendingRewardAmount := pt_PendingRewardAmount (snd tp) + reward\<rparr>)
          else tp)"

definition submission_of ::
  "TaskAction \<Rightarrow> taskActionPayload \<Rightarrow> pooledResourceSettlement option \<Rightarrow> TaskSubmissionState" where
  "submission_of action payload settlement =
     (let base = \<lparr>sub_ActionID = ta_ID action, sub_Sender = ta_Sender action, sub_Round = pl_Round payload,
            sub_Slot = pl_Slot payload,
            sub_SubmissionValue = (if pl_SubmissionValue payload = [] then ta_Payload action else pl_SubmissionValue payload),
            sub_Payload = ta_Payload action, sub_RewardAmount = pl_RewardAmount payload, sub_Claimed = False,
            sub_ClaimedAt = [], sub_Timestamp = ta_Timestamp action, sub_SettlementProofID = [],
            sub_SettlementCoordinatorID = [], sub_SettlementContributorWallet = [], sub_SettlementMotherHiveWallet = [],
            sub_SettlementEcosystemWallet = [], sub_SettlementContributorAmount = 0, sub_SettlementMotherHiveAmount = 0,
            sub_SettlementEcosystemAmount = 0\<rparr>
      in case settlement of
           None \<Rightarrow> base
         | Some st \<Rightarrow> base\<lparr>sub_Claimed := True, sub_ClaimedAt := ta_Timestamp action,
             sub_SettlementProofID := ToLower (pp_ProofID (st_Proof st)),
             sub_SettlementCoordinatorID := pp_CoordinatorID (st_Proof st),
             sub_SettlementContributorWallet := ToLower (pp_ContributorWallet (st_Proof st)),
             sub_SettlementMotherHiveWallet := ToLower (pp_MotherHiveWallet (st_Proof st)),
             sub_SettlementEcosystemWallet := ToLower (pp_EcosystemWallet (st_Proof st)),
             sub_SettlementContributorAmount := st_ContributorAmount st,
             sub_SettlementMotherHiveAmount := st_MotherHiveAmount st,
             sub_SettlementEcosystemAmount := st_EcosystemAmount st\<rparr>)"

definition settle_store :: "TaskAction \<Rightarrow> pooledResourceSettlement option \<Rightarrow> TaskStateStore \<Rightarrow> TaskStateStore" where
  "settle_store action settlement s =
     (case settlement of
        None \<Rightarrow> s
      | Some st \<Rightarrow>
          (let p = st_Proof st;
               bindings = (case tk_pooledRelayBindings s (pp_CoordinatorID p) of
                   Some _ \<Rightarrow> tk_pooledRelayBindings s
                 | None \<Rightarrow> (tk_pooledRelayBindings s)(pp_CoordinatorID p \<mapsto>
                     \<lparr>rb_CoordinatorID = pp_CoordinatorID p, rb_RelayPublicKey = ToLower (pp_RelayPublicKey p),
                      rb_ContributorWallet = ToLower (pp_ContributorWallet p), rb_MotherHiveWallet = ToLower (pp_MotherHiveWallet p),
                      rb_EcosystemWallet = ToLower (pp_EcosystemWallet p), rb_BoundByActionID = ta_ID action\<rparr>))
           in s\<lparr>tk_pooledRelayBindings := bindings,
                tk_settledPooledProofs := (tk_settledPooledProofs s)(ToLower (pp_ProofID p) \<mapsto> ta_ID action),
                tk_settledPooledReceipts := foldl (\<lambda>m r. m(ToLower r \<mapsto> ToLower (pp_ProofID p)))
                  (tk_settledPooledReceipts s) (pp_ReceiptIDs p)\<rparr>))"

text \<open>The task and the participant are values here; the caller writes them back to the store.\<close>

definition applySubmissionLocked ::
  "task_env \<Rightarrow> string list \<Rightarrow> TaskStateStore \<Rightarrow> TaskState \<Rightarrow> TaskParticipantState \<Rightarrow> TaskAction \<Rightarrow> bool \<Rightarrow> bool \<Rightarrow> u64 \<Rightarrow>
     task_error + TaskStateStore \<times> TaskState \<times> TaskParticipantState \<times> pooledResourceSettlement option" where
  "applySubmissionLocked e rs s task participant action allowLegacy allowPooled currentHeight =
     (let payload = parseTaskActionPayload e (ta_Payload action); reward = pl_RewardAmount payload
      in if reward < 0 then Inl BadSubmission
         else (case validateTaskSubmissionPolicyLocked e s task participant action payload allowLegacy allowPooled currentHeight of
             Inl err \<Rightarrow> Inl err
           | Inr settlement \<Rightarrow>
               (let roundKey = round_key (pl_Round payload);
                    existing = sub_lookup task roundKey (ta_Sender action)
                in if existing \<noteq> None \<and> settlement \<noteq> None then Inl DuplicateSubmission
                   else if existing \<noteq> None \<and> sub_Claimed (the existing) then Inr (s, task, participant, None)
                   else if systemResourceTaskPolicies (ta_TaskID action) \<noteq> None \<and>
                     value_reused task rs roundKey (ta_Sender action) (TrimSpace (pl_SubmissionValue payload))
                     then Inl DuplicateSubmission
                   else (let available = (if existing \<noteq> None \<and> 0 < sub_RewardAmount (the existing)
                           then ts_RewardPoolAmount task + sub_RewardAmount (the existing) else ts_RewardPoolAmount task)
                     in if 0 < reward \<and> pt_Stake participant \<le> 0 then Inl TaskActionRequiresStake
                        else if 0 < reward \<and> taskAmountLessThan available reward then Inl InsufficientTaskRewardPool
                        else if settlement \<noteq> None \<and> reward \<le> 0 then Inl BadPooledSettlement
                        else (case book_reward action reward settlement (refund_existing existing (task, participant)) of
                            (task', participant') \<Rightarrow>
                              Inr (settle_store action settlement s,
                                   put_submission task' roundKey (ta_Sender action) (submission_of action payload settlement),
                                   participant', settlement))))))"

definition claim_step :: "string \<Rightarrow> string \<Rightarrow> u64 \<Rightarrow> (TaskState \<times> float64) \<Rightarrow> string \<Rightarrow> TaskState \<times> float64" where
  "claim_step sender stamp rnd_no tr r =
     (if rnd_no \<noteq> 0 \<and> r \<noteq> round_key rnd_no then tr
      else (case sub_lookup (fst tr) r sender of
          None \<Rightarrow> tr
        | Some v \<Rightarrow>
            if sub_Claimed v \<or> sub_RewardAmount v \<le> 0 then tr
            else (put_submission (fst tr) r sender (v\<lparr>sub_Claimed := True, sub_ClaimedAt := stamp\<rparr>),
                  snd tr + sub_RewardAmount v)))"

text \<open>The reward is \<^const>\<open>None\<close> for \<open>ErrNoTaskReward\<close>.\<close>

definition applyClaimLocked ::
  "task_env \<Rightarrow> string list \<Rightarrow> TaskState \<Rightarrow> TaskParticipantState \<Rightarrow> TaskAction \<Rightarrow>
     TaskState \<times> TaskParticipantState \<times> float64 option" where
  "applyClaimLocked e rs task participant action =
     (let payload = parseTaskActionPayload e (ta_Payload action);
          (t1, reward) = foldl (claim_step (ta_Sender action) (ta_Timestamp action) (pl_Round payload)) (task, 0) rs
      in if reward \<le> 0 then (t1, participant, None)
         else (case clampTaskRewardAccounting
             (t1\<lparr>ts_PendingRewardAmount := ts_PendingRewardAmount t1 - reward,
                 ts_TotalRewardPaidAmount := ts_TotalRewardPaidAmount t1 + reward\<rparr>,
              participant\<lparr>pt_PendingRewardAmount := pt_PendingRewardAmount participant - reward,
                          pt_TotalRewardClaimedAmount := pt_TotalRewardClaimedAmount participant + reward,
                          pt_LastClaimedAt := ta_Timestamp action\<rparr>) of
             (t2, p2) \<Rightarrow> (t2, p2, Some reward)))"

definition claimable_step :: "TaskState \<Rightarrow> string \<Rightarrow> u64 \<Rightarrow> float64 \<Rightarrow> string \<Rightarrow> float64" where
  "claimable_step task sender rnd_no reward r =
     (if rnd_no \<noteq> 0 \<and> r \<noteq> round_key rnd_no then reward
      else (case sub_lookup task r sender of
          None \<Rightarrow> reward
        | Some v \<Rightarrow> if sub_Claimed v \<or> sub_RewardAmount v \<le> 0 then reward else reward + sub_RewardAmount v))"

definition claimableRewardLocked :: "string list \<Rightarrow> TaskState \<Rightarrow> string \<Rightarrow> taskActionPayload \<Rightarrow> float64" where
  "claimableRewardLocked rs task sender payload = foldl (claimable_step task sender (pl_Round payload)) 0 rs"

definition ClaimableReward :: "task_env \<Rightarrow> string list \<Rightarrow> TaskStateStore \<Rightarrow> TaskAction \<Rightarrow> float64" where
  "ClaimableReward e rs s action =
     (case tk_tasks s (ta_TaskID action) of
        None \<Rightarrow> 0
      | Some task \<Rightarrow> claimableRewardLocked rs task (ta_Sender action) (parseTaskActionPayload e (ta_Payload action)))"

definition ParticipantStake :: "TaskStateStore \<Rightarrow> string \<Rightarrow> string \<Rightarrow> float64" where
  "ParticipantStake s taskID sender =
     (case tk_tasks s taskID of None \<Rightarrow> 0 | Some task \<Rightarrow> pt_Stake (participant_of task sender))"

definition RewardPool :: "TaskStateStore \<Rightarrow> string \<Rightarrow> float64" where
  "RewardPool s taskID = (case tk_tasks s taskID of None \<Rightarrow> 0 | Some task \<Rightarrow> ts_RewardPoolAmount task)"

section \<open>Actions\<close>

text \<open>One action on its task: the new store (relay bindings, settled proofs), task, participant and settlement.\<close>

definition task_switch ::
  "task_env \<Rightarrow> string list \<Rightarrow> TaskStateStore \<Rightarrow> TaskState \<Rightarrow> TaskParticipantState \<Rightarrow> TaskAction \<Rightarrow> bool \<Rightarrow> bool \<Rightarrow> u64 \<Rightarrow>
     task_error + TaskStateStore \<times> TaskState \<times> TaskParticipantState \<times> pooledResourceSettlement option" where
  "task_switch e rs s task participant action allowLegacy allowPooled currentHeight =
     (if ta_Action action = ''start'' then
        (if pt_Stake participant \<le> 0 then Inl TaskActionRequiresStake
         else Inr (s, (if pt_Running participant then task else task\<lparr>ts_RunningCount := ts_RunningCount task + 1\<rparr>),
                   participant\<lparr>pt_Running := True, pt_LastStartedAt := ta_Timestamp action\<rparr>, None))
      else if ta_Action action = ''stop'' then
        Inr (s, (if pt_Running participant \<and> 0 < ts_RunningCount task
                 then task\<lparr>ts_RunningCount := ts_RunningCount task - 1\<rparr> else task),
             participant\<lparr>pt_Running := False, pt_LastStoppedAt := ta_Timestamp action\<rparr>, None)
      else if ta_Action action = ''stake'' then
        (if ta_Amount action \<le> 0 then Inl AmountNotPositive
         else Inr (s, task\<lparr>ts_TotalStakeAmount := ts_TotalStakeAmount task + ta_Amount action\<rparr>,
                   participant\<lparr>pt_Stake := pt_Stake participant + ta_Amount action\<rparr>, None))
      else if ta_Action action = ''fund'' then
        (if ta_Amount action \<le> 0 then Inl AmountNotPositive
         else Inr (s, task\<lparr>ts_RewardPoolAmount := ts_RewardPoolAmount task + ta_Amount action\<rparr>, participant, None))
      else if ta_Action action = ''unstake'' \<or> ta_Action action = ''withdraw'' then
        (if ta_Amount action \<le> 0 then Inl AmountNotPositive
         else (let delta = (if pt_Stake participant < ta_Amount action then pt_Stake participant else ta_Amount action);
                   total = ts_TotalStakeAmount task - delta
               in Inr (s, task\<lparr>ts_TotalStakeAmount := (if total < 0 then 0 else total)\<rparr>,
                       participant\<lparr>pt_Stake := pt_Stake participant - delta\<rparr>, None)))
      else if ta_Action action = ''submit'' then
        (case applySubmissionLocked e rs s task participant action allowLegacy allowPooled currentHeight of
           Inl err \<Rightarrow> Inl err
         | Inr (s', task', p', settlement) \<Rightarrow>
             Inr (s', task', p'\<lparr>pt_SubmissionCount := pt_SubmissionCount p' + 1,
               pt_ClaimCount := (if settlement = None then pt_ClaimCount p' else pt_ClaimCount p' + 1)\<rparr>, settlement))
      else if ta_Action action = ''claim'' then
        (case applyClaimLocked e rs task participant action of
           (task', p', None) \<Rightarrow> Inr (s, task', p', None)
         | (task', p', Some _) \<Rightarrow> Inr (s, task', p'\<lparr>pt_ClaimCount := pt_ClaimCount p' + 1\<rparr>, None))
      else if ta_Action action = ''migrate'' then
        (let payload = parseTaskActionPayload e (ta_Payload action)
         in Inr (s, (if pl_MigratedTo payload \<noteq> [] then task\<lparr>ts_IsMigrated := True, ts_MigratedTo := pl_MigratedTo payload\<rparr>
                     else task), participant, None))
      else Inl UnsupportedTaskAction)"

definition stamp_task :: "TaskAction \<Rightarrow> TaskState \<Rightarrow> TaskState" where
  "stamp_task action task = task\<lparr>ts_LastAction := ta_Action action, ts_LastActionID := ta_ID action,
     ts_LastActionAt := ta_Timestamp action\<rparr>"

definition stamp_participant :: "TaskAction \<Rightarrow> TaskParticipantState \<Rightarrow> TaskParticipantState" where
  "stamp_participant action p = p\<lparr>pt_LastAction := ta_Action action, pt_LastActionID := ta_ID action,
     pt_LastActionAt := ta_Timestamp action\<rparr>"

definition record_action :: "TaskAction \<Rightarrow> TaskStateStore \<Rightarrow> TaskStateStore" where
  "record_action action s = s\<lparr>tk_actionIDs := insert (ta_ID action) (tk_actionIDs s),
     tk_senderNonce := (if 0 < ta_Nonce action then (tk_senderNonce s)(ta_Sender action \<mapsto> ta_Nonce action)
                        else tk_senderNonce s)\<rparr>"

definition sender_nonce :: "TaskStateStore \<Rightarrow> string \<Rightarrow> u64" where
  "sender_nonce s sender = (case tk_senderNonce s sender of None \<Rightarrow> 0 | Some n \<Rightarrow> n)"

definition action_guard :: "TaskStateStore \<Rightarrow> TaskAction \<Rightarrow> task_error option" where
  "action_guard s action =
     (if ta_ID action = [] \<or> ta_Sender action = [] \<or> ta_TaskID action = [] \<or> ta_Action action = [] then Some MissingField
      else if ta_ID action \<in> tk_actionIDs s then Some DuplicateTaskAction
      else if 0 < ta_Nonce action \<and> ta_Nonce action \<le> sender_nonce s (ta_Sender action) then Some TaskActionNonceReplay
      else None)"

definition applyAction ::
  "task_env \<Rightarrow> string list \<Rightarrow> TaskStateStore \<Rightarrow> TaskAction \<Rightarrow> bool \<Rightarrow> bool \<Rightarrow> u64 \<Rightarrow>
     TaskStateStore \<times> (task_error + pooledResourceSettlement option)" where
  "applyAction e rs s action allowLegacy allowPooled currentHeight =
     (case action_guard s action of
        Some err \<Rightarrow> (s, Inl err)
      | None \<Rightarrow>
          if isTaskCatalogAction (ta_Action action) then
            (case applyTaskCatalogActionLocked e s action of
               (s', Inl err) \<Rightarrow> (s', Inl err)
             | (s', Inr task) \<Rightarrow>
                 (record_action action (s'\<lparr>tk_tasks := (tk_tasks s')(ta_TaskID action \<mapsto> stamp_task action task)\<rparr>), Inr None))
          else
            (case getOrCreateTaskLocked s (ta_TaskID action) of
               (s', task) \<Rightarrow>
                 (let p0 = participant_of task (ta_Sender action);
                      p = (if pt_Sender p0 = [] then p0\<lparr>pt_Sender := ta_Sender action\<rparr> else p0)
                  in case task_switch e rs s' task p action allowLegacy allowPooled currentHeight of
                       Inl err \<Rightarrow> (s', Inl err)
                     | Inr (s'', task', p', settlement) \<Rightarrow>
                         (let task'' = stamp_task action (task'\<lparr>ts_Participants :=
                                (ts_Participants task')(ta_Sender action \<mapsto> stamp_participant action p')\<rparr>)
                          in (record_action action (s''\<lparr>tk_tasks := (tk_tasks s'')(ta_TaskID action \<mapsto> task'')\<rparr>),
                              Inr settlement)))))"

definition ApplyAction :: "task_env \<Rightarrow> string list \<Rightarrow> TaskStateStore \<Rightarrow> TaskAction \<Rightarrow> TaskStateStore \<times> task_error option" where
  "ApplyAction e rs s action =
     (case applyAction e rs s action False False 0 of (s', Inl err) \<Rightarrow> (s', Some err) | (s', Inr _) \<Rightarrow> (s', None))"

text \<open>Each action comes with the iteration order of its loops.\<close>

fun ApplyActions :: "task_env \<Rightarrow> TaskStateStore \<Rightarrow> (string list \<times> TaskAction) list \<Rightarrow> TaskStateStore \<times> task_error option" where
  "ApplyActions e s [] = (s, None)"
| "ApplyActions e s ((rs, action) # rest) =
     (case ApplyAction e rs s action of (s', Some err) \<Rightarrow> (s', Some err) | (s', None) \<Rightarrow> ApplyActions e s' rest)"

definition ApplyTaskTx :: "task_env \<Rightarrow> string list \<Rightarrow> TaskStateStore \<Rightarrow> Tx \<Rightarrow> TaskStateStore \<times> task_error option" where
  "ApplyTaskTx e rs s tx =
     (case DecodeTaskActionTx e tx of Inl err \<Rightarrow> (s, Some err) | Inr action \<Rightarrow> ApplyAction e rs s action)"

definition ApplyHistoricalTx :: "task_env \<Rightarrow> string list \<Rightarrow> TaskStateStore \<Rightarrow> Tx \<Rightarrow> u64 \<Rightarrow> TaskStateStore \<times> task_error option" where
  "ApplyHistoricalTx e rs s tx height =
     (case DecodeTaskActionTx e tx of
        Inl err \<Rightarrow> (s, Some err)
      | Inr action \<Rightarrow>
          (case applyAction e rs s action (height < ResourceWorkerProofActivationHeight) True height of
             (s', Inl err) \<Rightarrow> (s', Some err) | (s', Inr _) \<Rightarrow> (s', None)))"

text \<open>What the transaction charges, releases and pays: \<open>rs\<close> is the order of the first loop over the rounds.\<close>

definition economic_terms ::
  "task_env \<Rightarrow> string list \<Rightarrow> TaskStateStore \<Rightarrow> Tx \<Rightarrow> TaskAction \<Rightarrow> task_error + float64 \<times> float64 \<times> float64" where
  "economic_terms e rs s tx action =
     (if ta_Action action = ''stake'' \<or> ta_Action action = ''fund'' then
        (if ta_Amount action \<le> 0 then Inl AmountNotPositive else Inr (tx_Fee tx + ta_Amount action, 0, 0))
      else if ta_Action action = ''unstake'' \<or> ta_Action action = ''withdraw'' then
        (if ta_Amount action \<le> 0 then Inl AmountNotPositive
         else if ParticipantStake s (ta_TaskID action) (ta_Sender action) < ta_Amount action then Inl InsufficientTaskStake
         else Inr (tx_Fee tx, ta_Amount action, 0))
      else if ta_Action action = ''claim'' then
        (let claimReward = ClaimableReward e rs s action
         in if claimReward \<le> 0 then Inl NoTaskReward else Inr (tx_Fee tx, 0, claimReward))
      else Inr (tx_Fee tx, 0, 0))"

definition pay_settlement :: "task_env \<Rightarrow> pooledResourceSettlement option \<Rightarrow> AccountStore \<Rightarrow> AccountStore" where
  "pay_settlement e settlement accts =
     (case settlement of
        None \<Rightarrow> accts
      | Some st \<Rightarrow>
          (let a1 = Credit (te_oob e) (te_fork e) accts (pp_ContributorWallet (st_Proof st)) (st_ContributorAmount st);
               a2 = Credit (te_oob e) (te_fork e) a1 (pp_MotherHiveWallet (st_Proof st)) (st_MotherHiveAmount st)
           in Credit (te_oob e) (te_fork e) a2 (pp_EcosystemWallet (st_Proof st)) (st_EcosystemAmount st)))"

definition applyEconomicTx ::
  "task_env \<Rightarrow> string list \<Rightarrow> string list \<Rightarrow> TaskStateStore \<times> AccountStore \<Rightarrow> Tx \<Rightarrow> u64 \<Rightarrow>
     (TaskStateStore \<times> AccountStore) \<times> task_error option" where
  "applyEconomicTx e rs rs' sa tx currentHeight =
     (case sa of (s, accts) \<Rightarrow>
       case DecodeTaskActionTx e tx of
         Inl err \<Rightarrow> (sa, Some err)
       | Inr action \<Rightarrow>
           if tx_Fee tx < 0 then (sa, Some NegativeFee)
           else (case economic_terms e rs s tx action of
               Inl err \<Rightarrow> (sa, Some err)
             | Inr (charge, release, claimReward) \<Rightarrow>
                 (let accountSnapshot = CloneStore accts; taskSnapshot = ChainReplayCloneTasks s
                  in case ChargeAndBumpNonce accts (ta_Sender action) charge (tx_Nonce tx) of
                       (accts1, Some err) \<Rightarrow> ((s, accts1), Some (ChargeRefused err))
                     | (accts1, None) \<Rightarrow>
                         (case applyAction e rs' s action False True currentHeight of
                            (s', Inl err) \<Rightarrow> ((RestoreTasks s' taskSnapshot, RestoreFrom accts1 accountSnapshot), Some err)
                          | (s', Inr settlement) \<Rightarrow>
                              (let credit = Credit (te_oob e) (te_fork e);
                                   accts2 = (if 0 < release then credit accts1 (ta_Sender action) release else accts1);
                                   accts3 = (if 0 < claimReward then credit accts2 (ta_Sender action) claimReward else accts2)
                               in ((s', pay_settlement e settlement accts3), None))))))"

section \<open>The state root\<close>

text \<open>\<open>%0.8f\<close>.\<close>

definition fmt_f8 :: "float64 \<Rightarrow> string" where
  "fmt_f8 x = (case x of
     NaN \<Rightarrow> ''NaN'' | PInf \<Rightarrow> ''+Inf'' | NInf \<Rightarrow> ''-Inf''
   | Fin q \<Rightarrow> (let n = nat (rne (\<bar>q\<bar> * 100000000))
              in (if q < 0 then ''-'' else []) @ show_nat (n div 100000000) @ ''.'' @
                 pad0 8 (show_nat (n mod 100000000))))"

text \<open>The orders in which the maps of the store are ranged over.\<close>

record task_orders =
  or_tasks :: "string list"
  or_participants :: "string \<Rightarrow> string list"
  or_rounds :: "string \<Rightarrow> string list"
  or_senders :: "string \<Rightarrow> string \<Rightarrow> string list"
  or_relays :: "string list"
  or_proofs :: "string list"
  or_receipts :: "string list"

definition sortedParticipantIDs :: "string list \<Rightarrow> string list" where
  "sortedParticipantIDs ids = sort ids"

definition task_segment :: "task_env \<Rightarrow> TaskState \<Rightarrow> string" where
  "task_segment e task =
     comma_join '':'' [ts_TaskID task, fmt_f8 (ts_TotalStakeAmount task), fmt_f8 (ts_RewardPoolAmount task),
       fmt_f8 (ts_PendingRewardAmount task), fmt_f8 (ts_TotalRewardPaidAmount task), show_int (ts_RunningCount task),
       ts_LastAction task, ts_LastActionID task, show_bool (ts_IsMigrated task), ts_MigratedTo task] @ '';'' @
     (case ts_Manifest task of
        None \<Rightarrow> []
      | Some m \<Rightarrow> comma_join '':'' [''catalog'', (case te_marshal_manifest e m of None \<Rightarrow> [] | Some j \<Rightarrow> j),
          show_bool (ts_CatalogPaused task), ts_CatalogPublishedAt task, ts_CatalogUpdatedAt task] @ '';'')"

definition participant_segment :: "TaskParticipantState \<Rightarrow> string" where
  "participant_segment p =
     comma_join '':'' [''p'', pt_Sender p, show_bool (pt_Running p), fmt_f8 (pt_Stake p), fmt_f8 (pt_PendingRewardAmount p),
       fmt_f8 (pt_TotalRewardClaimedAmount p), pt_LastAction p, pt_LastActionID p, pt_LastActionAt p, pt_LastStartedAt p,
       pt_LastStoppedAt p, pt_LastClaimedAt p, show_nat (unat (pt_SubmissionCount p)), show_nat (unat (pt_ClaimCount p))] @ '';''"

definition submission_segment :: "string \<Rightarrow> string \<Rightarrow> TaskSubmissionState \<Rightarrow> string" where
  "submission_segment r sender v =
     comma_join '':'' [''s'', r, sender, sub_ActionID v, show_nat (unat (sub_Round v)), show_nat (unat (sub_Slot v)),
       sub_SubmissionValue v, sub_Payload v, fmt_f8 (sub_RewardAmount v), show_bool (sub_Claimed v), sub_ClaimedAt v,
       sub_Timestamp v] @ '';'' @
     (if sub_SettlementProofID v = [] then []
      else comma_join '':'' [''settlement'', sub_SettlementProofID v, sub_SettlementCoordinatorID v,
        sub_SettlementContributorWallet v, sub_SettlementMotherHiveWallet v, sub_SettlementEcosystemWallet v,
        fmt_f8 (sub_SettlementContributorAmount v), fmt_f8 (sub_SettlementMotherHiveAmount v),
        fmt_f8 (sub_SettlementEcosystemAmount v)] @ '';'')"

definition task_preimage :: "task_env \<Rightarrow> task_orders \<Rightarrow> TaskState \<Rightarrow> string \<Rightarrow> string" where
  "task_preimage e ord task i =
     task_segment e task @
     concat (map (\<lambda>a. participant_segment (the (ts_Participants task a))) (sortedParticipantIDs (or_participants ord i))) @
     concat (map (\<lambda>r. concat (map (\<lambda>a. submission_segment r a (the (the (ts_Submissions task r) a))) (sort (or_senders ord i r))))
       (sort (or_rounds ord i)))"

definition relay_segment :: "string \<Rightarrow> PooledRelayBinding \<Rightarrow> string" where
  "relay_segment i b = comma_join '':'' [''relay'', i, rb_RelayPublicKey b, rb_ContributorWallet b, rb_MotherHiveWallet b,
     rb_EcosystemWallet b, rb_BoundByActionID b] @ '';''"

definition TaskStateRoot :: "task_env \<Rightarrow> task_orders \<Rightarrow> TaskStateStore \<Rightarrow> string" where
  "TaskStateRoot e ord s = EncodeToString (re_sha256 (te_relay e)
     (concat (map (\<lambda>i. task_preimage e ord (cloneTaskState (the (tk_tasks s i))) i) (sort (or_tasks ord))) @
      concat (map (\<lambda>i. relay_segment i (the (tk_pooledRelayBindings s i))) (sort (or_relays ord))) @
      concat (map (\<lambda>i. comma_join '':'' [''pooled-proof'', i, the (tk_settledPooledProofs s i)] @ '';'') (sort (or_proofs ord))) @
      concat (map (\<lambda>i. comma_join '':'' [''pooled-receipt'', i, the (tk_settledPooledReceipts s i)] @ '';'') (sort (or_receipts ord)))))"

definition orders_ok :: "task_orders \<Rightarrow> TaskStateStore \<Rightarrow> bool" where
  "orders_ok ord s \<longleftrightarrow> iteration (tk_tasks s) (or_tasks ord) \<and>
     (\<forall>i t. tk_tasks s i = Some t \<longrightarrow> iteration (ts_Participants t) (or_participants ord i) \<and>
        iteration (ts_Submissions t) (or_rounds ord i) \<and>
        (\<forall>r m. ts_Submissions t r = Some m \<longrightarrow> iteration m (or_senders ord i r))) \<and>
     iteration (tk_pooledRelayBindings s) (or_relays ord) \<and>
     iteration (tk_settledPooledProofs s) (or_proofs ord) \<and> iteration (tk_settledPooledReceipts s) (or_receipts ord)"

section \<open>What an action leaves alone\<close>

lemma clamp_task_frame [simp]:
  "ts_Manifest (clampTask t) = ts_Manifest t" "ts_Participants (clampTask t) = ts_Participants t"
  "ts_Submissions (clampTask t) = ts_Submissions t" "ts_RunningCount (clampTask t) = ts_RunningCount t"
  "ts_TotalStakeAmount (clampTask t) = ts_TotalStakeAmount t" "ts_TotalRewardPaidAmount (clampTask t) = ts_TotalRewardPaidAmount t"
  by (simp_all add: clampTask_def Let_def)

lemma clamp_participant_frame [simp]:
  "pt_Running (clampParticipant p) = pt_Running p" "pt_Stake (clampParticipant p) = pt_Stake p"
  "pt_TotalRewardClaimedAmount (clampParticipant p) = pt_TotalRewardClaimedAmount p" "pt_Sender (clampParticipant p) = pt_Sender p"
  by (simp_all add: clampParticipant_def)

lemma refund_frame [simp]:
  "ts_Manifest (fst (refund_existing x tp)) = ts_Manifest (fst tp)"
  "ts_Participants (fst (refund_existing x tp)) = ts_Participants (fst tp)"
  "ts_Submissions (fst (refund_existing x tp)) = ts_Submissions (fst tp)"
  "ts_RunningCount (fst (refund_existing x tp)) = ts_RunningCount (fst tp)"
  "pt_Running (snd (refund_existing x tp)) = pt_Running (snd tp)"
  "pt_Stake (snd (refund_existing x tp)) = pt_Stake (snd tp)"
  by (simp_all add: refund_existing_def clampTaskRewardAccounting_def split: option.split)

lemma book_frame [simp]:
  "ts_Manifest (fst (book_reward a r st tp)) = ts_Manifest (fst tp)"
  "ts_Participants (fst (book_reward a r st tp)) = ts_Participants (fst tp)"
  "ts_Submissions (fst (book_reward a r st tp)) = ts_Submissions (fst tp)"
  "ts_RunningCount (fst (book_reward a r st tp)) = ts_RunningCount (fst tp)"
  "pt_Running (snd (book_reward a r st tp)) = pt_Running (snd tp)"
  "pt_Stake (snd (book_reward a r st tp)) = pt_Stake (snd tp)"
  by (simp_all add: book_reward_def clampTaskRewardAccounting_def split: option.split)

lemma put_submission_frame [simp]:
  "ts_Manifest (put_submission t r a v) = ts_Manifest t" "ts_Participants (put_submission t r a v) = ts_Participants t"
  "ts_RunningCount (put_submission t r a v) = ts_RunningCount t"
  by (simp_all add: put_submission_def)

lemma sub_lookup_put:
  "sub_lookup (put_submission t r a v) r' a' = (if r' = r \<and> a' = a then Some v else sub_lookup t r' a')"
  by (auto simp: sub_lookup_def put_submission_def split: option.split)

lemma sub_lookup_cong: "ts_Submissions t = ts_Submissions t' \<Longrightarrow> sub_lookup t = sub_lookup t'"
  by (simp add: sub_lookup_def fun_eq_iff)

text \<open>A claimed submission is final.\<close>

definition claimed_kept :: "TaskState \<Rightarrow> TaskState \<Rightarrow> bool" where
  "claimed_kept t t' \<longleftrightarrow> (\<forall>r a v. sub_lookup t r a = Some v \<and> sub_Claimed v \<longrightarrow> sub_lookup t' r a = Some v)"

lemma claimed_kept_refl: "ts_Submissions t = ts_Submissions t' \<Longrightarrow> claimed_kept t t'"
  by (simp add: claimed_kept_def sub_lookup_cong [of t t'])

lemma claimed_kept_trans: "claimed_kept t u \<Longrightarrow> claimed_kept u w \<Longrightarrow> claimed_kept t w"
  by (auto simp: claimed_kept_def)

lemma submission_result:
  assumes "applySubmissionLocked e rs s t p action lg po h = Inr (s', t', p', st)"
  shows "s' = settle_store action st s" and "ts_Manifest t' = ts_Manifest t" and "ts_Participants t' = ts_Participants t"
    and "ts_RunningCount t' = ts_RunningCount t" and "pt_Running p' = pt_Running p" and "claimed_kept t t'"
    and "\<forall>x. st = Some x \<longrightarrow>
      validateTaskSubmissionPolicyLocked e s t p action (parseTaskActionPayload e (ta_Payload action)) lg po h = Inr (Some x)"
proof -
  let ?pl = "parseTaskActionPayload e (ta_Payload action)"
  let ?k = "round_key (pl_Round ?pl)"
  let ?ex = "sub_lookup t ?k (ta_Sender action)"
  obtain st' where v: "validateTaskSubmissionPolicyLocked e s t p action ?pl lg po h = Inr st'"
  proof (cases "validateTaskSubmissionPolicyLocked e s t p action ?pl lg po h")
    case (Inl err)
    with assms show ?thesis by (simp add: applySubmissionLocked_def Let_def split: if_splits)
  qed (rule that)
  obtain ex where ex: "?ex = ex" by blast
  let ?t1 = "fst (book_reward action (pl_RewardAmount ?pl) st' (refund_existing ex (t, p)))"
  let ?p1 = "snd (book_reward action (pl_RewardAmount ?pl) st' (refund_existing ex (t, p)))"
  consider (noop) "ex \<noteq> None" "st = None" "s' = s" "t' = t" "p' = p"
    | (booked) "st = st'" "s' = settle_store action st s" "p' = ?p1" "ex = None \<or> \<not> sub_Claimed (the ex)"
        "t' = put_submission ?t1 ?k (ta_Sender action) (submission_of action ?pl st)"
  proof (cases "ex \<noteq> None \<and> sub_Claimed (the ex)")
    case True
    with assms have "s = s' \<and> t = t' \<and> p = p' \<and> st = None"
      by (simp add: applySubmissionLocked_def Let_def v ex split: if_split_asm)
    with True show ?thesis using that(1) by simp
  next
    case False
    then have "(\<exists>err. applySubmissionLocked e rs s t p action lg po h = Inl err) \<or>
        applySubmissionLocked e rs s t p action lg po h = Inr (settle_store action st' s,
          put_submission ?t1 ?k (ta_Sender action) (submission_of action ?pl st'), ?p1, st')"
      by (cases ex) (simp_all add: applySubmissionLocked_def Let_def v ex case_prod_beta)
    with assms have "settle_store action st' s = s'" "st' = st" "?p1 = p'"
      "put_submission ?t1 ?k (ta_Sender action) (submission_of action ?pl st') = t'" by simp_all
    with False show ?thesis using that(2) by simp
  qed
  note cs = this
  have fr: "ts_Manifest ?t1 = ts_Manifest t" "ts_Participants ?t1 = ts_Participants t" "ts_Submissions ?t1 = ts_Submissions t"
    "ts_RunningCount ?t1 = ts_RunningCount t" "pt_Running ?p1 = pt_Running p"
    by simp_all
  show "s' = settle_store action st s" using cs by cases (simp_all add: settle_store_def)
  show "ts_Manifest t' = ts_Manifest t" "ts_Participants t' = ts_Participants t"
    "ts_RunningCount t' = ts_RunningCount t" "pt_Running p' = pt_Running p" using cs fr by (cases; simp)+
  show "claimed_kept t t'" using cs
  proof cases
    case booked
    have "sub_lookup ?t1 = sub_lookup t" by (rule sub_lookup_cong) (simp add: fr)
    with booked ex show ?thesis by (auto simp: claimed_kept_def sub_lookup_put)
  qed (simp add: claimed_kept_refl)
  show "\<forall>x. st = Some x \<longrightarrow> validateTaskSubmissionPolicyLocked e s t p action ?pl lg po h = Inr (Some x)"
    using cs v by cases auto
qed

lemma claim_step_frame:
  "ts_Manifest (fst (claim_step a ts n tr r)) = ts_Manifest (fst tr) \<and>
   ts_Participants (fst (claim_step a ts n tr r)) = ts_Participants (fst tr) \<and>
   ts_RunningCount (fst (claim_step a ts n tr r)) = ts_RunningCount (fst tr) \<and>
   claimed_kept (fst tr) (fst (claim_step a ts n tr r))"
  by (auto simp: claim_step_def claimed_kept_def sub_lookup_put split: option.split)

lemma claim_fold_frame:
  "ts_Manifest (fst (foldl (claim_step a ts n) tr rs)) = ts_Manifest (fst tr) \<and>
   ts_Participants (fst (foldl (claim_step a ts n) tr rs)) = ts_Participants (fst tr) \<and>
   ts_RunningCount (fst (foldl (claim_step a ts n) tr rs)) = ts_RunningCount (fst tr) \<and>
   claimed_kept (fst tr) (fst (foldl (claim_step a ts n) tr rs))"
proof (induction rs arbitrary: tr)
  case Nil
  show ?case by (simp add: claimed_kept_refl)
next
  case (Cons r rs)
  from Cons.IH [of "claim_step a ts n tr r"] claim_step_frame [of a ts n tr r] show ?case
    by (auto intro: claimed_kept_trans)
qed

lemma claim_result:
  assumes "applyClaimLocked e rs t p action = (t', p', w)"
  shows "ts_Manifest t' = ts_Manifest t" and "ts_Participants t' = ts_Participants t"
    and "ts_RunningCount t' = ts_RunningCount t" and "pt_Running p' = pt_Running p" and "claimed_kept t t'"
proof -
  obtain t1 reward where f: "foldl (claim_step (ta_Sender action) (ta_Timestamp action)
      (pl_Round (parseTaskActionPayload e (ta_Payload action)))) (t, 0) rs = (t1, reward)" by fastforce
  from claim_fold_frame [of "ta_Sender action" "ta_Timestamp action" _ "(t, 0)" rs] f
  have fr: "ts_Manifest t1 = ts_Manifest t" "ts_Participants t1 = ts_Participants t"
    "ts_RunningCount t1 = ts_RunningCount t" "claimed_kept t t1" by (metis fst_conv)+
  from assms f have t': "ts_Submissions t' = ts_Submissions t1 \<and> ts_Manifest t' = ts_Manifest t1 \<and>
      ts_Participants t' = ts_Participants t1 \<and> ts_RunningCount t' = ts_RunningCount t1 \<and> pt_Running p' = pt_Running p"
    by (auto simp: applyClaimLocked_def Let_def clampTaskRewardAccounting_def split: if_splits)
  then show "ts_Manifest t' = ts_Manifest t" "ts_Participants t' = ts_Participants t"
    "ts_RunningCount t' = ts_RunningCount t" "pt_Running p' = pt_Running p" using fr by simp_all
  show "claimed_kept t t'" using fr(4) t' claimed_kept_refl [of t1 t'] by (auto intro: claimed_kept_trans)
qed

section \<open>History of the store\<close>

lemma switch_frame:
  assumes "task_switch e rs s t p action lg po h = Inr (s', t', p', st)"
  shows "s' = settle_store action st s \<and> ts_Manifest t' = ts_Manifest t \<and> ts_Participants t' = ts_Participants t \<and>
    claimed_kept t t' \<and>
    ((pt_Running p \<longrightarrow> 0 < ts_RunningCount t) \<longrightarrow>
      ts_RunningCount t' = ts_RunningCount t + of_bool (pt_Running p') - of_bool (pt_Running p))"
proof -
  consider (submit) p0 where "applySubmissionLocked e rs s t p action lg po h = Inr (s', t', p0, st)"
      "pt_Running p' = pt_Running p0"
    | (claim) p0 w where "applyClaimLocked e rs t p action = (t', p0, w)" "pt_Running p' = pt_Running p0" "s' = s" "st = None"
    | (other) "ta_Action action \<noteq> ''submit''" "ta_Action action \<noteq> ''claim''"
  proof (cases "ta_Action action = ''submit''")
    case True
    with assms obtain p0 where "applySubmissionLocked e rs s t p action lg po h = Inr (s', t', p0, st)"
        "pt_Running p' = pt_Running p0"
      by (auto simp: task_switch_def split: sum.splits)
    then show ?thesis by (rule that(1))
  next
    case ns: False
    show ?thesis
    proof (cases "ta_Action action = ''claim''")
      case True
      with assms ns show ?thesis
        by (auto simp: task_switch_def split: prod.splits option.splits intro!: that(2))
    qed (use ns that(3) in blast)
  qed
  then show ?thesis
  proof cases
    case submit
    from submission_result [OF submit(1)] submit(2) show ?thesis by simp
  next
    case claim
    from claim_result [OF claim(1)] claim show ?thesis by (simp add: settle_store_def)
  next
    case other
    with assms show ?thesis
      by (auto simp: task_switch_def settle_store_def Let_def split: if_splits intro: claimed_kept_refl)
  qed
qed

definition manifest_follows :: "TaskManifest option \<Rightarrow> TaskManifest option \<Rightarrow> bool" where
  "manifest_follows m m' = (case m of None \<Rightarrow> True
     | Some a \<Rightarrow> (case m' of None \<Rightarrow> False
         | Some b \<Rightarrow> mf_Manager b = mf_Manager a \<and> (b = a \<or> mf_Version a < mf_Version b)))"

definition task_follows :: "TaskState \<Rightarrow> TaskState \<Rightarrow> bool" where
  "task_follows t t' \<longleftrightarrow> manifest_follows (ts_Manifest t) (ts_Manifest t') \<and> claimed_kept t t'"

lemma manifest_follows_refl [simp]: "manifest_follows m m"
  by (simp add: manifest_follows_def split: option.split)

lemma manifest_follows_trans: "manifest_follows a b \<Longrightarrow> manifest_follows b c \<Longrightarrow> manifest_follows a c"
  by (auto simp: manifest_follows_def split: option.splits)

lemma task_follows_refl: "ts_Submissions t = ts_Submissions t' \<Longrightarrow> ts_Manifest t = ts_Manifest t' \<Longrightarrow> task_follows t t'"
  by (simp add: task_follows_def claimed_kept_refl)

lemma version_succ: "v + 1 \<noteq> 0 \<Longrightarrow> (v :: u64) < v + 1"
  using unatSuc [of v] by (simp add: word_less_nat_alt add.commute)

lemma catalog_result:
  assumes "applyTaskCatalogActionLocked e s action = (s', w)"
  shows "case w of Inl err \<Rightarrow> s' = s
    | Inr t \<Rightarrow> s' = s\<lparr>tk_tasks := (tk_tasks s)(ta_TaskID action \<mapsto> t)\<rparr> \<and>
        (let t0 = (case tk_tasks s (ta_TaskID action) of None \<Rightarrow> new_task (ta_TaskID action) | Some x \<Rightarrow> x)
         in ts_Participants t = ts_Participants t0 \<and> ts_RunningCount t = ts_RunningCount t0 \<and>
            ts_Submissions t = ts_Submissions t0 \<and> manifest_follows (ts_Manifest t0) (ts_Manifest t))"
proof (cases "ta_Action action = TaskActionCatalogRegister")
  case True
  with assms show ?thesis
    by (auto simp: applyTaskCatalogActionLocked_def Let_def getOrCreateTaskLocked_def manifest_follows_def new_task_def
        split: sum.splits if_splits option.splits)
next
  case nr: False
  show ?thesis
  proof (cases "ta_Action action = TaskActionCatalogUpdate")
    case True
    with assms nr show ?thesis
      by (auto simp: applyTaskCatalogActionLocked_def Let_def manifest_follows_def
          split: sum.splits if_splits option.splits intro!: version_succ dest: manifest_valid(1))
  next
    case False
    with assms nr show ?thesis
      by (auto simp: applyTaskCatalogActionLocked_def Let_def manifest_follows_def
          split: sum.splits if_splits option.splits)
  qed
qed

text \<open>What no action can undo.\<close>

definition task_history :: "TaskStateStore \<Rightarrow> TaskStateStore \<Rightarrow> bool" where
  "task_history s s' \<longleftrightarrow> tk_actionIDs s \<subseteq> tk_actionIDs s' \<and> (\<forall>a. sender_nonce s a \<le> sender_nonce s' a) \<and>
     tk_pooledRelayBindings s \<subseteq>\<^sub>m tk_pooledRelayBindings s' \<and>
     tk_settledPooledProofs s \<subseteq>\<^sub>m tk_settledPooledProofs s' \<and>
     tk_settledPooledReceipts s \<subseteq>\<^sub>m tk_settledPooledReceipts s' \<and>
     (\<forall>i t. tk_tasks s i = Some t \<longrightarrow> (\<exists>t'. tk_tasks s' i = Some t' \<and> task_follows t t'))"

lemma task_history_refl: "task_history s s"
  by (auto simp: task_history_def task_follows_refl)

lemma task_follows_trans: "task_follows t u \<Longrightarrow> task_follows u w \<Longrightarrow> task_follows t w"
  by (auto simp: task_follows_def intro: manifest_follows_trans claimed_kept_trans)

lemma task_history_trans:
  assumes "task_history s t" and "task_history t u"
  shows "task_history s u"
proof -
  have "\<exists>t'. tk_tasks u i = Some t' \<and> task_follows x t'" if "tk_tasks s i = Some x" for i x
    using that assms unfolding task_history_def by (blast intro: task_follows_trans)
  with assms show ?thesis unfolding task_history_def by (meson map_le_trans order_trans subset_trans)
qed

text \<open>The fresh keys of a settlement.\<close>

definition settlement_fresh :: "TaskStateStore \<Rightarrow> pooledResourceSettlement \<Rightarrow> bool" where
  "settlement_fresh s st \<longleftrightarrow> tk_settledPooledProofs s (ToLower (pp_ProofID (st_Proof st))) = None \<and>
     (\<forall>r \<in> set (pp_ReceiptIDs (st_Proof st)). tk_settledPooledReceipts s (ToLower r) = None)"

lemma pooled_settlement_fresh:
  "pooled_settlement e s t action pl ev res h = Inr st \<Longrightarrow> settlement_fresh s st"
  by (auto simp: pooled_settlement_def settlement_fresh_def list_ex_iff split: if_splits option.splits prod.splits)

lemma policy_pooled:
  assumes "validateTaskSubmissionPolicyLocked e s t p action pl lg po h = Inr (Some st)"
  obtains pol ev where "systemResourceTaskPolicies (ta_TaskID action) = Some pol" "po"
    "te_envelope e (ta_Payload action) = Some ev" "pooled_settlement e s t action pl ev (fst pol) h = Inr st"
    "\<not> taskAmountLessThan (snd pol) (pl_RewardAmount pl)" "catalog_policy t p pl = None"
  using assms by (auto simp: validateTaskSubmissionPolicyLocked_def resource_policy_def Let_def
      split: option.splits if_splits sum.splits)

lemma switch_settles:
  assumes "task_switch e rs s t p action lg po h = Inr (s', t', p', Some st)"
  obtains p0 where "applySubmissionLocked e rs s t p action lg po h = Inr (s', t', p0, Some st)" "ta_Action action = ''submit''"
  using assms by (auto simp: task_switch_def Let_def split: if_splits sum.splits prod.splits option.splits)

lemma switch_fresh:
  assumes "task_switch e rs s t p action lg po h = Inr (s', t', p', Some st)"
  shows "settlement_fresh s st"
proof -
  from assms obtain p0 where "applySubmissionLocked e rs s t p action lg po h = Inr (s', t', p0, Some st)"
    by (rule switch_settles)
  from submission_result(7) [OF this] have "validateTaskSubmissionPolicyLocked e s t p action
      (parseTaskActionPayload e (ta_Payload action)) lg po h = Inr (Some st)" by simp
  then show ?thesis by (rule policy_pooled) (rule pooled_settlement_fresh)
qed

lemma settle_history:
  assumes "\<And>x. st = Some x \<Longrightarrow> settlement_fresh s x"
  shows "task_history s (settle_store action st s)"
proof (cases st)
  case None
  then show ?thesis by (simp add: settle_store_def task_history_refl)
next
  case (Some x)
  from assms [OF Some] show ?thesis
    by (auto simp: Some settle_store_def task_history_def settlement_fresh_def map_le_def consume_lookup Let_def
        sender_nonce_def task_follows_refl split: option.split)
qed

definition task_entry :: "TaskStateStore \<Rightarrow> string \<Rightarrow> TaskState" where
  "task_entry s i = (case tk_tasks s i of None \<Rightarrow> new_task i | Some t \<Rightarrow> t)"

definition acting :: "TaskState \<Rightarrow> TaskAction \<Rightarrow> TaskParticipantState" where
  "acting t action = (let p = participant_of t (ta_Sender action)
     in if pt_Sender p = [] then p\<lparr>pt_Sender := ta_Sender action\<rparr> else p)"

abbreviation put_task :: "TaskStateStore \<Rightarrow> string \<Rightarrow> TaskState \<Rightarrow> TaskStateStore" where
  "put_task s i t \<equiv> s\<lparr>tk_tasks := (tk_tasks s)(i \<mapsto> t)\<rparr>"

lemma getOrCreate_eq: "getOrCreateTaskLocked s i = (put_task s i (task_entry s i), task_entry s i)"
  by (cases "tk_tasks s i") (auto simp: getOrCreateTaskLocked_def task_entry_def Let_def map_upd_triv)

text \<open>The outcomes of an action: refused (perhaps after creating an empty task), a change of the catalog, or a change of
  one task by one participant.\<close>

lemma action_outcome:
  assumes "applyAction e rs s action lg po h = (s', w)"
  obtains (refused) err where "w = Inl err" "s' = s \<or> s' = put_task s (ta_TaskID action) (task_entry s (ta_TaskID action))"
  | (catalog) t where "w = Inr None" "action_guard s action = None" "isTaskCatalogAction (ta_Action action)"
      "applyTaskCatalogActionLocked e s action = (put_task s (ta_TaskID action) t, Inr t)"
      "s' = record_action action (put_task s (ta_TaskID action) (stamp_task action t))"
  | (task) s1 t' p' st where "w = Inr st" "action_guard s action = None"
      "task_switch e rs (put_task s (ta_TaskID action) (task_entry s (ta_TaskID action))) (task_entry s (ta_TaskID action))
         (acting (task_entry s (ta_TaskID action)) action) action lg po h = Inr (s1, t', p', st)"
      "s' = record_action action (put_task s1 (ta_TaskID action)
         (stamp_task action (t'\<lparr>ts_Participants := (ts_Participants t')(ta_Sender action \<mapsto> stamp_participant action p')\<rparr>)))"
proof (cases "action_guard s action")
  case (Some err)
  with assms show ?thesis by (intro refused [of err]) (simp_all add: applyAction_def)
next
  case guard: None
  let ?s0 = "put_task s (ta_TaskID action) (task_entry s (ta_TaskID action))"
  let ?t0 = "task_entry s (ta_TaskID action)"
  show ?thesis
  proof (cases "isTaskCatalogAction (ta_Action action)")
    case True
    obtain s1 v where c: "applyTaskCatalogActionLocked e s action = (s1, v)" by fastforce
    show ?thesis
    proof (cases v)
      case (Inl err)
      with c catalog_result [OF c] assms guard True show ?thesis by (intro refused [of err]) (simp_all add: applyAction_def)
    next
      case (Inr t)
      with catalog_result [OF c] have "s1 = put_task s (ta_TaskID action) t" by simp
      with c Inr assms guard True show ?thesis by (intro catalog [of t]) (simp_all add: applyAction_def)
    qed
  next
    case nc: False
    show ?thesis
    proof (cases "task_switch e rs ?s0 ?t0 (acting ?t0 action) action lg po h")
      case (Inl err)
      with assms guard nc show ?thesis
        by (intro refused [of err]) (simp_all add: applyAction_def getOrCreate_eq acting_def Let_def)
    next
      case (Inr x)
      obtain s1 t' p' st where x: "x = (s1, t', p', st)" by (cases x)
      from Inr assms guard nc show ?thesis unfolding x
        by (intro task [of st s1 t' p']) (simp_all add: applyAction_def getOrCreate_eq acting_def Let_def)
    qed
  qed
qed

lemma task_entry_follows:
  assumes "task_follows (task_entry s i) t"
  shows "task_history s (put_task s i t)"
  using assms by (auto simp: task_history_def task_entry_def sender_nonce_def task_follows_refl)

lemma record_history:
  assumes "action_guard s action = None" and "tk_senderNonce s' = tk_senderNonce s"
  shows "task_history s' (record_action action s')"
  using assms by (auto simp: task_history_def record_action_def action_guard_def sender_nonce_def task_follows_refl
      split: if_splits option.splits)

lemma settle_nonces [simp]: "tk_senderNonce (settle_store action st s) = tk_senderNonce s"
  "tk_tasks (settle_store action st s) = tk_tasks s" "tk_actionIDs (settle_store action st s) = tk_actionIDs s"
  by (simp_all add: settle_store_def Let_def split: option.split)

lemma stamp_follows: "task_follows t t' \<Longrightarrow> ts_Submissions t'' = ts_Submissions t' \<Longrightarrow> ts_Manifest t'' = ts_Manifest t' \<Longrightarrow>
    task_follows t t''"
  by (rule task_follows_trans [OF _ task_follows_refl]) simp_all

lemma action_history: "task_history s (fst (applyAction e rs s action lg po h))"
proof -
  obtain s' w where r: "applyAction e rs s action lg po h = (s', w)" by fastforce
  let ?i = "ta_TaskID action"
  let ?s0 = "put_task s ?i (task_entry s ?i)"
  from r have "task_history s s'"
  proof (cases rule: action_outcome)
    case refused
    then show ?thesis by (auto intro: task_entry_follows task_history_refl task_follows_refl)
  next
    case (catalog t)
    from catalog_result [OF catalog(4)] have "task_follows (task_entry s ?i) t"
      by (simp add: Let_def task_follows_def task_entry_def claimed_kept_refl)
    then have "task_follows (task_entry s ?i) (stamp_task action t)"
      by (rule stamp_follows) (simp_all add: stamp_task_def)
    from task_history_trans [OF task_entry_follows [OF this] record_history [OF catalog(2)]] show ?thesis
      by (simp add: catalog(5))
  next
    case (task s1 t' p' st)
    note fr = switch_frame [OF task(3)]
    have fresh: "settlement_fresh ?s0 x" if "st = Some x" for x using task(3) unfolding that by (rule switch_fresh)
    have h1: "task_history s s1"
      using task_history_trans [OF task_entry_follows [of s ?i "task_entry s ?i"] settle_history [OF fresh]] fr
      by (simp add: task_follows_refl)
    have "task_follows (task_entry s ?i) t'" using fr by (simp add: task_follows_def)
    moreover have "task_entry s1 ?i = task_entry s ?i" using fr by (simp add: task_entry_def)
    ultimately have "task_history s1 (put_task s1 ?i
        (stamp_task action (t'\<lparr>ts_Participants := (ts_Participants t')(ta_Sender action \<mapsto> stamp_participant action p')\<rparr>)))"
      by (intro task_entry_follows) (auto intro!: stamp_follows [of "task_entry s ?i" t'] simp: stamp_task_def)
    from task_history_trans [OF task_history_trans [OF h1 this] record_history [OF task(2)]] show ?thesis
      using fr by (simp add: task(4))
  qed
  then show ?thesis by (simp add: r)
qed

section \<open>The count of running participants\<close>

definition runners :: "TaskState \<Rightarrow> string set" where
  "runners t = {a. \<exists>p. ts_Participants t a = Some p \<and> pt_Running p}"

definition running_ok :: "TaskState \<Rightarrow> bool" where
  "running_ok t \<longleftrightarrow> finite (dom (ts_Participants t)) \<and> ts_RunningCount t = int (card (runners t))"

definition store_running_ok :: "TaskStateStore \<Rightarrow> bool" where
  "store_running_ok s \<longleftrightarrow> (\<forall>i t. tk_tasks s i = Some t \<longrightarrow> running_ok t)"

lemma runners_finite: "finite (dom (ts_Participants t)) \<Longrightarrow> finite (runners t)"
  by (rule finite_subset [of _ "dom (ts_Participants t)"]) (auto simp: runners_def)

lemma runners_put: "runners (t\<lparr>ts_Participants := (ts_Participants u)(a \<mapsto> p)\<rparr>) =
    (if pt_Running p then insert a (runners u) else runners u - {a})"
  by (auto simp: runners_def)

lemma acting_running: "pt_Running (acting t action) \<longleftrightarrow> ta_Sender action \<in> runners t"
  by (auto simp: acting_def Let_def participant_of_def runners_def new_participant_def split: option.split)

lemma running_put:
  assumes "running_ok t" and "ts_Participants t' = ts_Participants t"
    and "ts_RunningCount t' = ts_RunningCount t + of_bool (pt_Running p) - of_bool (a \<in> runners t)"
  shows "running_ok (t'\<lparr>ts_Participants := (ts_Participants t')(a \<mapsto> p)\<rparr>)"
proof -
  have fin: "finite (runners t)" using assms(1) by (simp add: running_ok_def runners_finite)
  then have "a \<in> runners t \<Longrightarrow> 0 < card (runners t)" by (auto simp: card_gt_0_iff)
  with fin have "int (card (if pt_Running p then insert a (runners t) else runners t - {a})) =
      int (card (runners t)) + of_bool (pt_Running p) - of_bool (a \<in> runners t)"
    by (auto simp: card_insert_if card_Diff_singleton_if of_nat_diff)
  with assms show ?thesis by (simp add: running_ok_def runners_put)
qed

lemma running_entry: "store_running_ok s \<Longrightarrow> running_ok (task_entry s i)"
  by (auto simp: store_running_ok_def task_entry_def running_ok_def runners_def new_task_def split: option.split)

lemma running_cong: "ts_Participants t' = ts_Participants t \<Longrightarrow> ts_RunningCount t' = ts_RunningCount t \<Longrightarrow>
    running_ok t \<Longrightarrow> running_ok t'"
  by (simp add: running_ok_def runners_def)

lemma store_running_put: "store_running_ok s \<Longrightarrow> running_ok t \<Longrightarrow> store_running_ok (put_task s i t)"
  by (simp add: store_running_ok_def)

lemma store_running_record: "store_running_ok (record_action action s) = store_running_ok s"
  by (simp add: store_running_ok_def record_action_def)

lemma action_running:
  assumes inv: "store_running_ok s"
  shows "store_running_ok (fst (applyAction e rs s action lg po h))"
proof -
  obtain s' w where r: "applyAction e rs s action lg po h = (s', w)" by fastforce
  let ?i = "ta_TaskID action"
  let ?t = "task_entry s ?i"
  note ok = running_entry [OF inv, of ?i]
  from r have "store_running_ok s'"
  proof (cases rule: action_outcome)
    case refused
    then show ?thesis using inv ok by (auto intro: store_running_put)
  next
    case (catalog t)
    from catalog_result [OF catalog(4)] have "ts_Participants (stamp_task action t) = ts_Participants ?t"
      "ts_RunningCount (stamp_task action t) = ts_RunningCount ?t"
      by (simp_all add: Let_def task_entry_def stamp_task_def)
    with ok inv show ?thesis
      by (simp add: catalog(5) store_running_record running_cong [of "stamp_task action t" ?t] store_running_put)
  next
    case (task s1 t' p' st)
    note fr = switch_frame [OF task(3)]
    let ?p = "stamp_participant action p'"
    let ?t' = "t'\<lparr>ts_Participants := (ts_Participants t')(ta_Sender action \<mapsto> ?p)\<rparr>"
    have pos: "pt_Running (acting ?t action) \<longrightarrow> 0 < ts_RunningCount ?t"
      using ok runners_finite [of ?t] by (auto simp: acting_running running_ok_def card_gt_0_iff)
    have "running_ok ?t'"
      by (rule running_put [OF ok]) (use fr pos in \<open>simp_all add: acting_running stamp_participant_def\<close>)
    then have "running_ok (stamp_task action ?t')" by (rule running_cong [rotated 2]) (simp_all add: stamp_task_def)
    moreover have "store_running_ok s1" using fr inv ok by (simp add: store_running_ok_def)
    ultimately show ?thesis by (simp add: task(4) store_running_record store_running_put)
  qed
  then show ?thesis by (simp add: r)
qed

section \<open>Calls on the task store\<close>

text \<open>The ways into the store: a direct action, a replayed transaction, and an economic transaction on the accounts.\<close>

datatype task_call =
    CallAction "string list" TaskAction
  | CallHistorical "string list" Tx u64
  | CallEconomic "string list" "string list" Tx u64

definition run_task :: "task_env \<Rightarrow> TaskStateStore \<times> AccountStore \<Rightarrow> task_call \<Rightarrow> TaskStateStore \<times> AccountStore" where
  "run_task e sa c = (case c of
       CallAction rs action \<Rightarrow> (fst (ApplyAction e rs (fst sa) action), snd sa)
     | CallHistorical rs tx h \<Rightarrow> (fst (ApplyHistoricalTx e rs (fst sa) tx h), snd sa)
     | CallEconomic rs rs' tx h \<Rightarrow> fst (applyEconomicTx e rs rs' sa tx h))"

lemma charge_error: "ChargeAndBumpNonce s a x n = (s', Some err) \<Longrightarrow> s' = s"
  by (auto simp: ChargeAndBumpNonce_def split: if_splits option.splits)

lemma charge_frame: "ChargeAndBumpNonce s a x n = (s', w) \<Longrightarrow> as_heightFn s' = as_heightFn s"
  by (auto simp: ChargeAndBumpNonce_def split: if_splits option.splits)

text \<open>An economic transaction is refused with nothing changed, or it charged, applied and paid.\<close>

lemma economic_outcome:
  assumes "applyEconomicTx e rs rs' (s, accts) tx h = (sa', w)"
  obtains (refused) err where "w = Some err" "sa' = (s, accts)"
  | (paid) action c rel cl a1 s' st where "w = None" "DecodeTaskActionTx e tx = Inr action" "\<not> tx_Fee tx < 0"
      "economic_terms e rs s tx action = Inr (c, rel, cl)"
      "ChargeAndBumpNonce accts (ta_Sender action) c (tx_Nonce tx) = (a1, None)"
      "applyAction e rs' s action False True h = (s', Inr st)"
      "sa' = (s', pay_settlement e st
         (let a2 = (if 0 < rel then Credit (te_oob e) (te_fork e) a1 (ta_Sender action) rel else a1)
          in if 0 < cl then Credit (te_oob e) (te_fork e) a2 (ta_Sender action) cl else a2))"
proof (cases "DecodeTaskActionTx e tx")
  case (Inl x)
  with assms show ?thesis by (intro refused [of x]) (simp_all add: applyEconomicTx_def)
next
  case dec: (Inr action)
  show ?thesis
  proof (cases "economic_terms e rs s tx action")
    case (Inl x)
    with assms dec show ?thesis
      by (cases "tx_Fee tx < 0") (auto simp: applyEconomicTx_def intro: refused)
  next
    case (Inr x)
    then obtain c rel cl where terms: "economic_terms e rs s tx action = Inr (c, rel, cl)" by (cases x) auto
    obtain a1 u where ch: "ChargeAndBumpNonce accts (ta_Sender action) c (tx_Nonce tx) = (a1, u)" by fastforce
    obtain s1 v where ap: "applyAction e rs' s action False True h = (s1, v)" by fastforce
    consider (fee) "tx_Fee tx < 0" | (charge) y where "\<not> tx_Fee tx < 0" "u = Some y"
      | (denied) y where "\<not> tx_Fee tx < 0" "u = None" "v = Inl y" | (ok) st where "\<not> tx_Fee tx < 0" "u = None" "v = Inr st"
      by (cases u; cases v) auto
    then show ?thesis
    proof cases
      case fee
      with assms dec show ?thesis by (intro refused [of NegativeFee]) (simp_all add: applyEconomicTx_def)
    next
      case (charge y)
      with ch have "a1 = accts" by (auto dest: charge_error)
      with assms dec terms charge ch show ?thesis
        by (intro refused [of "ChargeRefused y"]) (simp_all add: applyEconomicTx_def Let_def)
    next
      case (denied y)
      have "RestoreFrom a1 (CloneStore accts) = accts"
        using charge_frame [OF ch] by (simp add: RestoreFrom_def CloneStore_def)
      with assms dec terms ch ap denied show ?thesis
        by (intro refused [of y]) (simp_all add: applyEconomicTx_def Let_def)
    next
      case (ok st)
      with assms dec terms ch ap show ?thesis
        by (intro paid [of action c rel cl a1 s1 st]) (simp_all add: applyEconomicTx_def Let_def)
    qed
  qed
qed

lemma economic_store:
  "fst (fst (applyEconomicTx e rs rs' sa tx h)) = fst sa \<or>
   (\<exists>action. fst (fst (applyEconomicTx e rs rs' sa tx h)) = fst (applyAction e rs' (fst sa) action False True h))"
proof -
  obtain s accts where sa: "sa = (s, accts)" by (cases sa)
  obtain sa' w where r: "applyEconomicTx e rs rs' (s, accts) tx h = (sa', w)" by fastforce
  then show ?thesis
  proof (cases rule: economic_outcome)
    case (paid action c rel cl a1 s' st)
    then have "fst (fst (applyEconomicTx e rs rs' sa tx h)) = fst (applyAction e rs' (fst sa) action False True h)"
      by (simp add: sa r)
    then show ?thesis by blast
  qed (simp add: r sa)
qed

lemma run_task_store:
  "fst (run_task e sa c) = fst sa \<or> (\<exists>rs action lg po h. fst (run_task e sa c) = fst (applyAction e rs (fst sa) action lg po h))"
proof (cases c)
  case (CallAction rs action)
  have "fst (ApplyAction e rs s action) = fst (applyAction e rs s action False False 0)" for s
    by (simp add: ApplyAction_def split: prod.split sum.split)
  then show ?thesis by (simp add: run_task_def CallAction) blast
next
  case (CallHistorical rs tx h)
  have "fst (ApplyHistoricalTx e rs s tx h) = s \<or>
      (\<exists>action lg. fst (ApplyHistoricalTx e rs s tx h) = fst (applyAction e rs s action lg True h))" for s
  proof (cases "DecodeTaskActionTx e tx")
    case (Inr action)
    then have "fst (ApplyHistoricalTx e rs s tx h) =
        fst (applyAction e rs s action (h < ResourceWorkerProofActivationHeight) True h)"
      by (simp add: ApplyHistoricalTx_def split: prod.split sum.split)
    then show ?thesis by blast
  qed (simp add: ApplyHistoricalTx_def)
  from this [of "fst sa"] show ?thesis by (simp add: run_task_def CallHistorical) blast
next
  case (CallEconomic rs rs' tx h)
  from economic_store [of e rs rs' sa tx h] show ?thesis by (simp add: run_task_def CallEconomic) blast
qed

interpretation task_log: relation_kept "run_task e" "\<lambda>a b. task_history (fst a) (fst b)" for e
proof
  show "task_history (fst s) (fst (run_task e s c))" for s c
    using run_task_store [of e s c] by (auto simp: task_history_refl action_history)
qed (auto intro: task_history_refl task_history_trans)

interpretation task_running: invariant_kept "run_task e" "\<lambda>a. store_running_ok (fst a)" for e
proof
  show "store_running_ok (fst (run_task e s c))" if "store_running_ok (fst s)" for s c
    using run_task_store [of e s c] that by (auto simp: action_running)
qed

section \<open>Settlements\<close>

lemma rnd_upto_int:
  assumes "0 \<le> x" and "x \<le> of_int n" and "n \<le> 2 ^ 53"
  obtains z where "rnd x = Fin z" "0 \<le> z" "z \<le> of_int n"
proof -
  have n0: "0 \<le> n" using assms(1,2) by (metis of_int_0_le_iff order_trans)
  then have "rnd_q (of_int n) = of_int n" using assms(3) by (intro rnd_q_representable representable_int) simp
  with rnd_q_mono [OF assms(2)] have hi: "rnd_q x \<le> of_int n" by simp
  have "(of_int n :: rat) \<le> of_int (2 ^ 53)" using assms(3) by (subst of_int_le_iff)
  with hi have "rnd_q x < 2 ^ 1024" by simp
  with rnd_q_nonneg [OF assms(1)] have "rnd x = Fin (rnd_q x)" by (simp add: rnd_def Let_def)
  then show thesis using that hi rnd_q_nonneg [OF assms(1)] by blast
qed

lemma epsilon_small:
  obtains u where "taskAmountEpsilon = Fin u" "0 \<le> u" "u \<le> 1"
  unfolding taskAmountEpsilon_def by (rule rnd_upto_int [of "1 / 10 ^ 9" 1]) auto

lemma policy_cap:
  assumes "systemResourceTaskPolicies i = Some pol"
  obtains q where "snd pol + taskAmountEpsilon = Fin q" "q \<le> 2"
proof -
  from assms obtain x where x: "snd pol = rnd x" "0 \<le> x" "x \<le> of_int 1"
    by (auto simp: systemResourceTaskPolicies_def split: if_splits)
  obtain c where c: "rnd x = Fin c" "0 \<le> c" "c \<le> 1"
    using rnd_upto_int [OF x(2,3)] by auto
  obtain u where u: "taskAmountEpsilon = Fin u" "0 \<le> u" "u \<le> 1" by (rule epsilon_small)
  obtain q where "rnd (c + u) = Fin q" "q \<le> 2" using rnd_upto_int [of "c + u" 2] c u by auto
  moreover have "snd pol + taskAmountEpsilon = rnd (c + u)" unfolding x(1) c(1) u(1) by simp
  ultimately show thesis using that by simp
qed

lemma capped_dust:
  assumes "systemResourceTaskPolicies i = Some pol" and "\<not> taskAmountLessThan (snd pol) reward"
  shows "unat (balanceToDust oob reward) \<le> 200000000"
proof -
  obtain q where q: "snd pol + taskAmountEpsilon = Fin q" "q \<le> 2" using policy_cap [OF assms(1)] .
  show ?thesis
  proof (cases reward)
    case (Fin x)
    show ?thesis
    proof (cases "x \<le> 0")
      case True
      then show ?thesis by (simp add: Fin balanceToDust_def zero_float64_def)
    next
      case pos: False
      from assms(2) q Fin have "x \<le> 2" by (simp add: taskAmountLessThan_def)
      with pos have "0 \<le> x * 100000000" "x * 100000000 \<le> of_int 200000000" by simp_all
      then obtain z where z: "rnd (x * 100000000) = Fin z" "0 \<le> z" "z \<le> 200000000"
        by (rule rnd_upto_int [where n = 200000000]) auto
      have "f64_of_u64 DustPerCellInt = Fin 100000000" by (simp add: f64_of_u64_def DustPerCellInt_def)
      with z have sc: "reward * f64_of_u64 DustPerCellInt = Fin z" by (simp add: Fin)
      have "\<lfloor>z\<rfloor> \<le> 200000000" "0 \<le> \<lfloor>z\<rfloor>" using z(2,3) by (simp_all add: floor_le_iff)
      moreover have "z < 2 ^ 64" using z(3) by simp
      ultimately have "balanceToDust oob reward = of_int \<lfloor>z\<rfloor>"
        using z pos sc by (simp add: maxUint64_f_eq balanceToDust_def Let_def Fin f64_to_u64_def zero_float64_def is_nan_def)
      moreover have small: "nat \<lfloor>z\<rfloor> \<le> 200000000"
        using \<open>\<lfloor>z\<rfloor> \<le> 200000000\<close> by (simp only: nat_le_iff of_nat_numeral)
      moreover have "unat (of_int \<lfloor>z\<rfloor> :: u64) = nat \<lfloor>z\<rfloor>"
      proof -
        have eq: "(of_int \<lfloor>z\<rfloor> :: u64) = of_nat (nat \<lfloor>z\<rfloor>)" using \<open>0 \<le> \<lfloor>z\<rfloor>\<close> by (simp add: of_nat_nat)
        from small have "nat \<lfloor>z\<rfloor> < 2 ^ LENGTH(64)" by (rule le_less_trans) simp
        then show ?thesis unfolding eq by (simp only: unat_of_nat mod_less)
      qed
      ultimately show ?thesis by (simp only:)
    qed
  qed (use assms(2) q in \<open>simp_all add: balanceToDust_def taskAmountLessThan_def is_nan_def zero_float64_def less_eq_float64_def\<close>)
qed

lemma split_exact:
  assumes "splitPooledSettlementReward oob reward = Some (a, b, c)" and "unat (balanceToDust oob reward) \<le> 200000000"
  obtains x y z :: u64 where "a = dustToBalance x" "b = dustToBalance y" "c = dustToBalance z"
    "unat x + unat y + unat z = unat (balanceToDust oob reward)"
    "unat x = unat (balanceToDust oob reward) * 70 div 100" "unat y = unat (balanceToDust oob reward) * 15 div 100"
    "balanceToDust oob reward \<noteq> 0"
proof -
  let ?d = "balanceToDust oob reward"
  have k: "unat (?d * k) = unat ?d * unat k" if "unat k \<le> 100" for k :: u64
  proof -
    have "unat ?d * unat k \<le> 200000000 * 100" using assms(2) that by (rule mult_le_mono)
    then show ?thesis by (simp add: unat_mult_lem [THEN iffD1])
  qed
  have x: "unat (?d * 70 div 100) = unat ?d * 70 div 100" using k [of 70] by (simp add: unat_div)
  have y: "unat (?d * 15 div 100) = unat ?d * 15 div 100" using k [of 15] by (simp add: unat_div)
  have "unat (?d - ?d * 70 div 100) = unat ?d - unat ?d * 70 div 100"
    by (subst unat_sub) (simp_all add: x word_le_nat_alt)
  moreover have "unat (?d - ?d * 70 div 100 - ?d * 15 div 100) = unat (?d - ?d * 70 div 100) - unat ?d * 15 div 100"
    by (subst unat_sub) (simp_all add: y calculation word_le_nat_alt)
  ultimately have z: "unat (?d * 70 div 100) + unat (?d * 15 div 100) + unat (?d - ?d * 70 div 100 - ?d * 15 div 100) = unat ?d"
    using x y by simp
  from assms(1) have "?d \<noteq> 0" "a = dustToBalance (?d * 70 div 100)" "b = dustToBalance (?d * 15 div 100)"
    "c = dustToBalance (?d - ?d * 70 div 100 - ?d * 15 div 100)"
    by (auto simp: splitPooledSettlementReward_def Let_def split: if_splits)
  then show thesis using that x y z by blast
qed

lemma settles_submission:
  assumes "applyAction e rs s action lg po h = (s', Inr (Some st))"
  obtains p0 s1 t1 where "ta_Action action = ''submit''" "action_guard s action = None"
    "applySubmissionLocked e rs (put_task s (ta_TaskID action) (task_entry s (ta_TaskID action))) (task_entry s (ta_TaskID action))
       (acting (task_entry s (ta_TaskID action)) action) action lg po h = Inr (s1, t1, p0, Some st)"
    "tk_settledPooledProofs s' = tk_settledPooledProofs s1" "tk_settledPooledReceipts s' = tk_settledPooledReceipts s1"
    "tk_pooledRelayBindings s' = tk_pooledRelayBindings s1"
  using assms
proof (cases rule: action_outcome)
  case (task s1 t' p' st')
  then have st: "st' = Some st" by simp
  from task(3) [unfolded st] obtain p0 where "applySubmissionLocked e rs (put_task s (ta_TaskID action) (task_entry s (ta_TaskID action)))
      (task_entry s (ta_TaskID action)) (acting (task_entry s (ta_TaskID action)) action) action lg po h = Inr (s1, t', p0, Some st)"
    "ta_Action action = ''submit''" by (rule switch_settles)
  then show ?thesis using that task(2,4) by (simp add: record_action_def)
qed simp_all

lemma settled_after:
  assumes "applyAction e rs s action lg po h = (s', Inr (Some st))"
  shows "settlement_fresh s st"
    and "tk_settledPooledProofs s' (ToLower (pp_ProofID (st_Proof st))) = Some (ta_ID action)"
    and "\<forall>r \<in> set (pp_ReceiptIDs (st_Proof st)). tk_settledPooledReceipts s' (ToLower r) = Some (ToLower (pp_ProofID (st_Proof st)))"
    and "\<exists>b. tk_pooledRelayBindings s' (pp_CoordinatorID (st_Proof st)) = Some b \<and> binding_matches b (st_Proof st)"
    and "\<forall>b. tk_pooledRelayBindings s (pp_CoordinatorID (st_Proof st)) = Some b \<longrightarrow> binding_matches b (st_Proof st)"
proof -
  let ?p = "st_Proof st" and ?s0 = "put_task s (ta_TaskID action) (task_entry s (ta_TaskID action))"
  let ?t0 = "task_entry s (ta_TaskID action)"
  from assms obtain p0 s1 t1 where sub: "applySubmissionLocked e rs ?s0 ?t0 (acting ?t0 action) action lg po h = Inr (s1, t1, p0, Some st)"
    and eqs: "tk_settledPooledProofs s' = tk_settledPooledProofs s1" "tk_settledPooledReceipts s' = tk_settledPooledReceipts s1"
      "tk_pooledRelayBindings s' = tk_pooledRelayBindings s1" by (rule settles_submission)
  from submission_result(7) [OF sub] have "validateTaskSubmissionPolicyLocked e ?s0 ?t0 (acting ?t0 action) action
      (parseTaskActionPayload e (ta_Payload action)) lg po h = Inr (Some st)" by simp
  then obtain pol :: "string \<times> float64" and ev where
    pooled: "pooled_settlement e ?s0 ?t0 action (parseTaskActionPayload e (ta_Payload action)) ev (fst pol) h = Inr st"
    by (rule policy_pooled)
  from pooled_settlement_fresh [OF this] show "settlement_fresh s st" by (simp add: settlement_fresh_def)
  note s1 = submission_result(1) [OF sub]
  show "tk_settledPooledProofs s' (ToLower (pp_ProofID ?p)) = Some (ta_ID action)"
    by (simp add: eqs s1 settle_store_def Let_def)
  show "\<forall>r \<in> set (pp_ReceiptIDs ?p). tk_settledPooledReceipts s' (ToLower r) = Some (ToLower (pp_ProofID ?p))"
    by (simp add: eqs s1 settle_store_def Let_def consume_lookup)
  show b: "\<forall>b. tk_pooledRelayBindings s (pp_CoordinatorID ?p) = Some b \<longrightarrow> binding_matches b ?p"
    using pooled by (auto simp: pooled_settlement_def split: if_splits option.splits prod.splits)
  then show "\<exists>b. tk_pooledRelayBindings s' (pp_CoordinatorID ?p) = Some b \<and> binding_matches b ?p"
    by (auto simp: eqs s1 settle_store_def Let_def binding_matches_def EqualFold_def split: option.split)
qed

text \<open>
  C2. Settled identifiers are not settled again. After an action settles a pooled proof, and whatever actions, replays and
  economic transactions follow, any later settlement that is accepted carries another proof identifier and lists none of
  the first one's receipt identifiers, up to letter case; so no receipt in it is the same in the canonical form in
  which proofs are verified, unless one of the two spells it with white space around it. When the later proof
  spells the identifier of its relay as the first did, byte for byte, it names the same relay key and the same payout
  wallets. Neither restriction can be dropped (\<open>padded_receipt_escapes\<close>, \<open>respelled_relay_escapes\<close>).
\<close>

theorem settled_identifiers_not_reused:
  assumes "applyAction e rs s action lg po h = (s1, Inr (Some st))"
    and "applyAction e rs2 (fst (foldl (run_task e) (s1, accts) cs)) action2 lg2 po2 h2 = (s2, Inr (Some st2))"
  shows "ToLower (pp_ProofID (st_Proof st)) \<noteq> ToLower (pp_ProofID (st_Proof st2)) \<and>
    ToLower ` set (pp_ReceiptIDs (st_Proof st)) \<inter> ToLower ` set (pp_ReceiptIDs (st_Proof st2)) = {} \<and>
    (\<forall>r \<in> set (pp_ReceiptIDs (st_Proof st)). \<forall>r2 \<in> set (pp_ReceiptIDs (st_Proof st2)).
       TrimSpace r = r \<and> TrimSpace r2 = r2 \<longrightarrow> canonical_receipt r \<noteq> canonical_receipt r2) \<and>
    (pp_CoordinatorID (st_Proof st) = pp_CoordinatorID (st_Proof st2) \<longrightarrow>
      EqualFold (pp_RelayPublicKey (st_Proof st)) (pp_RelayPublicKey (st_Proof st2)) \<and>
      EqualFold (pp_ContributorWallet (st_Proof st)) (pp_ContributorWallet (st_Proof st2)) \<and>
      EqualFold (pp_MotherHiveWallet (st_Proof st)) (pp_MotherHiveWallet (st_Proof st2)) \<and>
      EqualFold (pp_EcosystemWallet (st_Proof st)) (pp_EcosystemWallet (st_Proof st2)))"
proof -
  note one = settled_after [OF assms(1)] and two = settled_after [OF assms(2)]
  let ?s = "fst (foldl (run_task e) (s1, accts) cs)"
  have "task_history s1 ?s" using task_log.run_rel [of "(s1, accts)" e cs] by simp
  then have keep: "tk_settledPooledProofs s1 \<subseteq>\<^sub>m tk_settledPooledProofs ?s" "tk_settledPooledReceipts s1 \<subseteq>\<^sub>m tk_settledPooledReceipts ?s"
    "tk_pooledRelayBindings s1 \<subseteq>\<^sub>m tk_pooledRelayBindings ?s" by (simp_all add: task_history_def)
  have pf: "tk_settledPooledProofs ?s (ToLower (pp_ProofID (st_Proof st))) \<noteq> None"
    using map_le_lookup [OF keep(1) one(2)] by simp
  have rc: "tk_settledPooledReceipts ?s (ToLower r) \<noteq> None" if "r \<in> set (pp_ReceiptIDs (st_Proof st))" for r
    using map_le_lookup [OF keep(2)] one(3) that by fastforce
  obtain b where b: "tk_pooledRelayBindings s1 (pp_CoordinatorID (st_Proof st)) = Some b" "binding_matches b (st_Proof st)"
    using one(4) by blast
  from map_le_lookup [OF keep(3) b(1)]
  have "tk_pooledRelayBindings ?s (pp_CoordinatorID (st_Proof st)) = Some b" .
  have ids: "ToLower ` set (pp_ReceiptIDs (st_Proof st)) \<inter> ToLower ` set (pp_ReceiptIDs (st_Proof st2)) = {}"
    using two(1) rc by (fastforce simp: settlement_fresh_def)
  then have "canonical_receipt r \<noteq> canonical_receipt r2"
    if "r \<in> set (pp_ReceiptIDs (st_Proof st))" "r2 \<in> set (pp_ReceiptIDs (st_Proof st2))" "TrimSpace r = r" "TrimSpace r2 = r2" for r r2
    using that by (auto simp: canonical_receipt_def)
  with ids two(1,5) pf b(2) \<open>tk_pooledRelayBindings ?s (pp_CoordinatorID (st_Proof st)) = Some b\<close> show ?thesis
    by (fastforce simp: settlement_fresh_def binding_matches_def EqualFold_def)
qed

text \<open>
  C29. The terms of a pooled settlement. An accepted settlement is a submission through the economic path, on one of the
  resource tasks, under an active manifest that authorises the relay; the proof verifies, is for the task's resource and
  is submitted by its Mother Hive wallet with the production ecosystem wallet; the slot is at most four heights old and
  the round is its quotient by the round time; and the reward is split, without overflow and without losing a dust, in 70 and
  15 percent rounded down and the remainder.
\<close>

theorem pooled_settlement_terms:
  assumes "applyAction e rs s action lg po h = (s', Inr (Some st))"
    and "pl = parseTaskActionPayload e (ta_Payload action)" and "t = task_entry s (ta_TaskID action)"
    and "d = balanceToDust (te_oob e) (pl_RewardAmount pl)"
  shows "po \<and> ta_Action action = ''submit'' \<and>
    (\<exists>cap. systemResourceTaskPolicies (ta_TaskID action) = Some (pp_Resource (st_Proof st), cap) \<and>
       \<not> taskAmountLessThan cap (pl_RewardAmount pl)) \<and>
    (\<exists>m. ts_Manifest t = Some m \<and> mf_Active m \<and> \<not> ts_CatalogPaused t \<and>
       taskManifestAuthorizesRelay (Some m) (pp_CoordinatorID (st_Proof st))) \<and>
    VerifySettlementPoolProof (te_relay e) (st_Proof st) = None \<and>
    EqualFold (ta_Sender action) (pp_MotherHiveWallet (st_Proof st)) \<and>
    EqualFold (pp_EcosystemWallet (st_Proof st)) ProductionEcosystemWallet \<and>
    pl_Slot pl \<le> h \<and> h - pl_Slot pl \<le> 4 \<and> pl_Round pl = pl_Slot pl div round_time t \<and>
    (\<exists>x y z. st_ContributorAmount st = dustToBalance x \<and> st_MotherHiveAmount st = dustToBalance y \<and>
       st_EcosystemAmount st = dustToBalance z \<and> unat x + unat y + unat z = unat d \<and> d \<noteq> 0 \<and>
       unat x = unat d * 70 div 100 \<and> unat y = unat d * 15 div 100)"
proof -
  let ?s0 = "put_task s (ta_TaskID action) (task_entry s (ta_TaskID action))"
  from assms(1) obtain p0 s1 t1 where sub: "ta_Action action = ''submit''"
    "applySubmissionLocked e rs ?s0 t (acting t action) action lg po h = Inr (s1, t1, p0, Some st)"
    unfolding assms(3) by (rule settles_submission)
  from submission_result(7) [OF sub(2)]
  have "validateTaskSubmissionPolicyLocked e ?s0 t (acting t action) action pl lg po h = Inr (Some st)" by (simp add: assms(2))
  then obtain pol ev where pol: "systemResourceTaskPolicies (ta_TaskID action) = Some pol" "po"
    and ps: "pooled_settlement e ?s0 t action pl ev (fst pol) h = Inr st"
    and cap: "\<not> taskAmountLessThan (snd pol) (pl_RewardAmount pl)" and cat: "catalog_policy t (acting t action) pl = None"
    by (rule policy_pooled)
  from ps obtain a b c where parts: "splitPooledSettlementReward (te_oob e) (pl_RewardAmount pl) = Some (a, b, c)"
      "st_ContributorAmount st = a" "st_MotherHiveAmount st = b" "st_EcosystemAmount st = c"
    and terms: "pp_Resource (st_Proof st) = fst pol" "VerifySettlementPoolProof (te_relay e) (st_Proof st) = None"
      "EqualFold (ta_Sender action) (pp_MotherHiveWallet (st_Proof st))" "EqualFold (pp_EcosystemWallet (st_Proof st)) ProductionEcosystemWallet"
      "pl_Slot pl \<le> h" "h - pl_Slot pl \<le> 4" "pl_Round pl = pl_Slot pl div round_time t"
      "taskManifestAuthorizesRelay (ts_Manifest t) (pp_CoordinatorID (st_Proof st))"
    by (auto simp: pooled_settlement_def pooledSettlementMaxSlotLag_def not_less split: if_splits option.splits)
  from split_exact [OF parts(1) capped_dust [OF pol(1) cap]] obtain x y z where "a = dustToBalance x" "b = dustToBalance y"
    "c = dustToBalance z" "unat x + unat y + unat z = unat d" "unat x = unat d * 70 div 100" "unat y = unat d * 15 div 100"
    "d \<noteq> 0" unfolding assms(4) .
  with parts(2-4) have "\<exists>x y z. st_ContributorAmount st = dustToBalance x \<and> st_MotherHiveAmount st = dustToBalance y \<and>
       st_EcosystemAmount st = dustToBalance z \<and> unat x + unat y + unat z = unat d \<and> d \<noteq> 0 \<and>
       unat x = unat d * 70 div 100 \<and> unat y = unat d * 15 div 100" by blast
  moreover have "\<exists>m. ts_Manifest t = Some m \<and> mf_Active m \<and> \<not> ts_CatalogPaused t \<and>
       taskManifestAuthorizesRelay (Some m) (pp_CoordinatorID (st_Proof st))"
    using cat terms(8) by (auto simp: catalog_policy_def taskManifestAuthorizesRelay_def split: option.splits if_splits)
  ultimately show ?thesis using pol cap terms sub(1) by (cases pol) simp
qed

section \<open>A settlement on a concrete store\<close>

definition demo_pool_proof :: "string \<Rightarrow> char \<Rightarrow> PoolProof" where
  "demo_pool_proof res c = \<lparr>pp_Version = ProtocolVersion, pp_ProofID = demo_id (last (demo_id c)),
     pp_CoordinatorID = demo_id (CHR 0x00), pp_Resource = res, pp_WindowStart = [], pp_WindowEnd = [],
     pp_WorkerCount = 1, pp_JobCount = 1, pp_TotalUnits = 1, pp_TotalMemoryMiB = 0, pp_ReceiptRoot = demo_id (CHR 0x00),
     pp_ReceiptIDs = [demo_id c], pp_Signature = [], pp_SettlementVersion = SettlementProtocolVersion,
     pp_ContributorWallet = demo_id (CHR 0x01), pp_MotherHiveWallet = demo_id (CHR 0x00),
     pp_EcosystemWallet = ProductionEcosystemWallet, pp_RelayPublicKey = EncodeToString (replicate 2592 (CHR 0x00)),
     pp_RelaySignature = EncodeToString (replicate 4627 (CHR 0x00))\<rparr>"

lemma demo_fields [simp]:
  "pp_Version (demo_pool_proof res c) = ProtocolVersion" "pp_SettlementVersion (demo_pool_proof res c) = SettlementProtocolVersion"
  "pp_ProofID (demo_pool_proof res c) = demo_id (last (demo_id c))" "pp_CoordinatorID (demo_pool_proof res c) = demo_id (CHR 0x00)"
  "pp_Resource (demo_pool_proof res c) = res" "pp_WorkerCount (demo_pool_proof res c) = 1" "pp_JobCount (demo_pool_proof res c) = 1"
  "pp_TotalUnits (demo_pool_proof res c) = 1" "pp_ReceiptRoot (demo_pool_proof res c) = demo_id (CHR 0x00)"
  "pp_ReceiptIDs (demo_pool_proof res c) = [demo_id c]" "pp_ContributorWallet (demo_pool_proof res c) = demo_id (CHR 0x01)"
  "pp_MotherHiveWallet (demo_pool_proof res c) = demo_id (CHR 0x00)"
  "pp_EcosystemWallet (demo_pool_proof res c) = ProductionEcosystemWallet"
  "pp_RelayPublicKey (demo_pool_proof res c) = EncodeToString (replicate 2592 (CHR 0x00))"
  "pp_RelaySignature (demo_pool_proof res c) = EncodeToString (replicate 4627 (CHR 0x00))"
  by (simp_all add: demo_pool_proof_def)

lemma demo_proof_id: "SettlementProofID demo_pool_relay (demo_pool_proof res c) = Some (demo_id (last (demo_id c)))"
  by (simp add: SettlementProofID_def settlementIdentity_def demo_pool_relay_def)

lemma demo_verified:
  assumes "ResourceValid res"
  shows "VerifySettlementPoolProof demo_pool_relay (demo_pool_proof res c) = None"
proof -
  have "check_receipts {} [] [demo_id c] = None" by (simp add: canonical_receipt_def Let_def)
  moreover have "verify_relay_signature demo_pool_relay (demo_pool_proof res c) = None"
    by (simp add: verify_relay_signature_def demo_pool_relay_def Let_def SettlementProofCanonicalBytes_def)
  ultimately show ?thesis using assms demo_wallet demo_worker demo_relay_id demo_proof_id [of res c]
    by (simp add: VerifySettlementPoolProof_def EqualFold_def validSettlementWallet_def)
qed

definition demo_pool_env :: task_env where
  "demo_pool_env = \<lparr>te_payload = (\<lambda>raw. \<lparr>pl_Round = 0, pl_Slot = 0, pl_SubmissionValue = demo_id (CHR 0x00),
       pl_MigratedTo = [], pl_RewardAmount = Fin (1 / 32)\<rparr>),
     te_envelope = (\<lambda>raw. Some \<lparr>ev_Source = SettlementProofSource, ev_Resource = (if raw = ''A'' then ''gpu'' else ''ram''),
       ev_SubmissionValue = demo_id (CHR 0x00), ev_Proof = raw\<rparr>),
     te_details = (\<lambda>raw. None),
     te_pool_proof = (\<lambda>raw. Some (if raw = ''A'' then demo_pool_proof ''gpu'' (CHR 0x01) else demo_pool_proof ''ram'' (CHR 0x02))),
     te_manifest = (\<lambda>raw. None), te_action = (\<lambda>raw. None), te_marshal_manifest = (\<lambda>m. None),
     te_marshal_signed = (\<lambda>a. Some []), te_url = (\<lambda>raw. None), te_relay = demo_pool_relay, te_verifier = None,
     te_signature_height = 0, te_oob = (\<lambda>x. 0), te_fork = 0\<rparr>"

definition demo_manifest :: "string \<Rightarrow> TaskManifest" where
  "demo_manifest i = \<lparr>mf_SchemaVersion = 1, mf_TaskID = i, mf_Version = 1, mf_Name = ''worker'', mf_Description = [],
     mf_Manager = ''m'', mf_Active = True, mf_Runtime = \<lparr>rt_Kind = ''capability'', rt_Capability = ''edge'', rt_ModuleURL = [],
       rt_ModuleSHA256 = [], rt_ABI = [], rt_MinHiveVersion = [], rt_MaxMemoryMB = 0, rt_MaxRuntimeSeconds = 0\<rparr>,
     mf_MinimumStakeAmount = Fin 0, mf_RewardPerRound = Fin 1, mf_RoundTime = 60, mf_SubmissionWindow = 0, mf_AuditWindow = 0,
     mf_MetadataURL = [], mf_SourceURL = [], mf_IconURL = [], mf_Tags = [], mf_AuthorizedRelayIDs = [demo_id (CHR 0x00)]\<rparr>"

definition demo_task :: "string \<Rightarrow> TaskState" where
  "demo_task i = (new_task i)\<lparr>ts_Manifest := Some (demo_manifest i), ts_RewardPoolAmount := Fin 1,
     ts_Participants := [demo_id (CHR 0x00) \<mapsto> new_participant\<lparr>pt_Sender := demo_id (CHR 0x00), pt_Stake := Fin 1\<rparr>]\<rparr>"

definition demo_tasks :: TaskStateStore where
  "demo_tasks = NewTaskStateStore\<lparr>tk_tasks := [''qsdm-edge-worker-gpu'' \<mapsto> demo_task ''qsdm-edge-worker-gpu'',
     ''qsdm-edge-worker-ram'' \<mapsto> demo_task ''qsdm-edge-worker-ram'']\<rparr>"

definition demo_submit :: "string \<Rightarrow> string \<Rightarrow> TaskAction" where
  "demo_submit i raw = \<lparr>ta_ID = raw, ta_Sender = demo_id (CHR 0x00), ta_TaskID = i, ta_Action = ''submit'', ta_Amount = Fin 0,
     ta_Payload = raw, ta_Nonce = 0, ta_Timestamp = []\<rparr>"

definition demo_settlement :: "string \<Rightarrow> char \<Rightarrow> pooledResourceSettlement" where
  "demo_settlement res c = \<lparr>st_Proof = demo_pool_proof res c, st_ContributorAmount = dustToBalance 2187500,
     st_MotherHiveAmount = dustToBalance 468750, st_EcosystemAmount = dustToBalance 468750\<rparr>"

lemma demo_task_fields [simp]:
  "ts_Manifest (demo_task i) = Some (demo_manifest i)" "ts_CatalogPaused (demo_task i) = False"
  "ts_RewardPoolAmount (demo_task i) = Fin 1" "ts_Submissions (demo_task i) = Map.empty"
  by (simp_all add: demo_task_def new_task_def)

lemma demo_acting: "pt_Stake (acting (demo_task i) (demo_submit i raw)) = Fin 1"
  by (simp add: acting_def Let_def participant_of_def demo_task_def demo_submit_def new_participant_def)

lemma submit_settles:
  assumes "action_guard s action = None" and "ta_Action action = ''submit''" and "t = task_entry s (ta_TaskID action)"
    and "pl = parseTaskActionPayload e (ta_Payload action)" and "p = acting t action"
    and "validateTaskSubmissionPolicyLocked e (put_task s (ta_TaskID action) t) t p action pl lg po h = Inr (Some st)"
    and "sub_lookup t (round_key (pl_Round pl)) (ta_Sender action) = None"
    and "\<not> value_reused t rs (round_key (pl_Round pl)) (ta_Sender action) (TrimSpace (pl_SubmissionValue pl))"
    and "0 < pl_RewardAmount pl" and "0 < pt_Stake p" and "\<not> taskAmountLessThan (ts_RewardPoolAmount t) (pl_RewardAmount pl)"
  obtains s' where "applyAction e rs s action lg po h = (s', Inr (Some st))"
    "tk_actionIDs s' = insert (ta_ID action) (tk_actionIDs s)" "\<forall>j. j \<noteq> ta_TaskID action \<longrightarrow> tk_tasks s' j = tk_tasks s j"
    "tk_settledPooledProofs s' = tk_settledPooledProofs (settle_store action (Some st) s)"
    "tk_settledPooledReceipts s' = tk_settledPooledReceipts (settle_store action (Some st) s)"
    "tk_pooledRelayBindings s' = tk_pooledRelayBindings (settle_store action (Some st) s)"
proof -
  have asym: "\<not> b < a" "\<not> b \<le> a" if "a < b" for a b :: float64
    using that by (cases a; cases b; auto simp: less_eq_float64_def)+
  obtain t' p' where "book_reward action (pl_RewardAmount pl) (Some st) (refund_existing None (t, p)) = (t', p')" by fastforce
  with assms have "applySubmissionLocked e rs (put_task s (ta_TaskID action) t) t p action lg po h =
      Inr (settle_store action (Some st) (put_task s (ta_TaskID action) t),
        put_submission t' (round_key (pl_Round pl)) (ta_Sender action) (submission_of action pl (Some st)), p', Some st)"
    by (simp add: applySubmissionLocked_def Let_def asym)
  then have sw: "task_switch e rs (put_task s (ta_TaskID action) t) t p action lg po h =
      Inr (settle_store action (Some st) (put_task s (ta_TaskID action) t),
        put_submission t' (round_key (pl_Round pl)) (ta_Sender action) (submission_of action pl (Some st)),
        p'\<lparr>pt_SubmissionCount := pt_SubmissionCount p' + 1, pt_ClaimCount := pt_ClaimCount p' + 1\<rparr>, Some st)"
    by (simp add: task_switch_def assms(2))
  have "\<not> isTaskCatalogAction (ta_Action action)"
    by (simp add: assms(2) isTaskCatalogAction_def TaskActionCatalogRegister_def TaskActionCatalogUpdate_def
        TaskActionCatalogPause_def TaskActionCatalogResume_def)
  with sw assms(1,3,5) obtain t'' where "applyAction e rs s action lg po h =
      (record_action action (put_task (settle_store action (Some st) (put_task s (ta_TaskID action) t)) (ta_TaskID action) t''),
       Inr (Some st))"
    by (simp add: applyAction_def getOrCreate_eq acting_def Let_def)
  then show thesis by (rule that) (simp_all add: record_action_def settle_store_def Let_def split: option.split)
qed

lemma amount_covers:
  assumes "rnd r = Fin r" and "r \<le> c" and "0 \<le> c" and "c \<le> 1"
  shows "\<not> taskAmountLessThan (Fin c) (Fin r)" and "\<not> taskAmountLessThan (rnd c) (Fin r)"
proof -
  have r: "rnd_q r = r" using assms(1) rnd_cases [of r] by auto
  obtain u where u: "taskAmountEpsilon = Fin u" "0 \<le> u" "u \<le> 1" by (rule epsilon_small)
  have "\<not> taskAmountLessThan (Fin x) (Fin r)" if x: "r \<le> x" "0 \<le> x" "x \<le> 1" for x
  proof -
    have "rnd_q r \<le> rnd_q (x + u)" using x u by (intro rnd_q_mono) simp
    moreover obtain z where "rnd (x + u) = Fin z" using rnd_upto_int [of "x + u" 2] x u by auto
    ultimately show ?thesis using r rnd_cases [of "x + u"] by (auto simp: taskAmountLessThan_def u(1))
  qed
  then show "\<not> taskAmountLessThan (Fin c) (Fin r)" using assms by simp
  obtain z where z: "rnd c = Fin z" "0 \<le> z" "z \<le> 1" using rnd_upto_int [of c 1] assms by auto
  moreover have "r \<le> z" using rnd_q_mono [OF assms(2)] r rnd_cases [of c] z by auto
  ultimately show "\<not> taskAmountLessThan (rnd c) (Fin r)"
    using \<open>\<And>x. r \<le> x \<Longrightarrow> 0 \<le> x \<Longrightarrow> x \<le> 1 \<Longrightarrow> \<not> taskAmountLessThan (Fin x) (Fin r)\<close> by simp
qed

lemma demo_32nd: "rnd (1 / 32) = Fin (1 / 32)"
proof -
  have "rnd (1 / 32) = Fin (of_int (2 ^ 52) * 2 powi (- 57))"
    by (rule rnd_certified) (simp_all add: power_int_minus field_simps)
  then show ?thesis by (simp add: power_int_minus)
qed

lemma demo_split: "splitPooledSettlementReward (\<lambda>x. 0) (Fin (1 / 32)) =
    Some (dustToBalance 2187500, dustToBalance 468750, dustToBalance 468750)"
proof -
  have cell: "f64_of_u64 DustPerCellInt = Fin 100000000" by (simp add: f64_of_u64_def DustPerCellInt_def)
  have "balanceToDust (\<lambda>x. 0) (Fin (1 / 32)) = 3125000"
    by (simp add: balanceToDust_def cell maxUint64_f_eq Let_def f64_to_u64_def zero_float64_def is_nan_def)
  moreover have "dustToBalance 3125000 = Fin (1 / 32)"
    using demo_32nd by (simp add: dustToBalance_def cell) (simp add: f64_of_u64_def)
  moreover obtain u where u: "taskAmountEpsilon = Fin u" "0 \<le> u" "u \<le> 1" by (rule epsilon_small)
  have "\<not> taskAmountEpsilon < Fin 0" unfolding u(1) using u(2) by simp
  ultimately show ?thesis by (simp add: splitPooledSettlementReward_def Let_def minus_float64_def)
qed

lemma demo_policy:
  assumes "(i, raw, res, c) \<in> {(''qsdm-edge-worker-gpu'', ''A'', ''gpu'', CHR 0x01), (''qsdm-edge-worker-ram'', ''B'', ''ram'', CHR 0x02)}"
    and "settlement_fresh s (demo_settlement res c)"
    and "\<forall>b. tk_pooledRelayBindings s (demo_id (CHR 0x00)) = Some b \<longrightarrow> binding_matches b (demo_pool_proof res c)"
    and "pl = parseTaskActionPayload demo_pool_env raw"
  shows "validateTaskSubmissionPolicyLocked demo_pool_env s (demo_task i) (acting (demo_task i) (demo_submit i raw)) (demo_submit i raw) pl
     lg True 1 = Inr (Some (demo_settlement res c))"
proof -
  have pl: "pl_RewardAmount pl = Fin (1 / 32)" "pl_Slot pl = 0" "pl_Round pl = 0"
    using assms(1,4) by (auto simp: parseTaskActionPayload_def demo_pool_env_def)
  have cat: "catalog_policy (demo_task i) (acting (demo_task i) (demo_submit i raw)) pl = None"
    using amount_covers(1) [of 0 1] amount_covers(1) [OF demo_32nd, of 1]
    by (simp add: catalog_policy_def demo_acting pl) (simp add: demo_manifest_def)
  have trim: "TrimSpace res = res" "ToLower res = res" "res \<noteq> []" "ResourceValid res"
    using assms(1) by (auto simp: plain_char_def ToLower_def lower_char_def less_eq_char_def ResourceValid_def ResourceCPU_def
        ResourceGPU_def ResourceRAM_def)
  have src: "TrimSpace SettlementProofSource = SettlementProofSource" "ToLower SettlementProofSource = SettlementProofSource"
    by (simp_all add: SettlementProofSource_def plain_char_def ToLower_def lower_char_def less_eq_char_def)
  have env: "te_envelope demo_pool_env raw = Some \<lparr>ev_Source = SettlementProofSource, ev_Resource = res,
      ev_SubmissionValue = demo_id (CHR 0x00), ev_Proof = raw\<rparr>" "te_pool_proof demo_pool_env raw = Some (demo_pool_proof res c)"
    "raw \<noteq> []" "te_relay demo_pool_env = demo_pool_relay" "te_oob demo_pool_env = (\<lambda>x. 0)"
    using assms(1) by (auto simp: demo_pool_env_def)
  have round: "round_time (demo_task i) = 60" by (simp add: round_time_def) (simp add: demo_manifest_def)
  have relay: "taskManifestAuthorizesRelay (ts_Manifest (demo_task i)) (demo_id (CHR 0x00))"
    by (simp add: taskManifestAuthorizesRelay_def demo_manifest_def EqualFold_def)
  have time: "validatePooledSettlementTime demo_pool_env [] (demo_pool_proof res c)"
    by (simp add: validatePooledSettlementTime_def demo_pool_env_def demo_pool_relay_def hour_ns_def)
  have act: "ta_Payload (demo_submit i raw) = raw" "ta_Sender (demo_submit i raw) = demo_id (CHR 0x00)"
    "ta_Timestamp (demo_submit i raw) = []" "ta_TaskID (demo_submit i raw) = i" by (simp_all add: demo_submit_def)
  have fresh: "tk_settledPooledProofs s (demo_id (last (demo_id c))) = None" "tk_settledPooledReceipts s (demo_id c) = None"
    using assms(2) by (simp_all add: settlement_fresh_def demo_settlement_def)
  have st: "pooled_settlement demo_pool_env s (demo_task i) (demo_submit i raw) pl \<lparr>ev_Source = SettlementProofSource,
      ev_Resource = res, ev_SubmissionValue = demo_id (CHR 0x00), ev_Proof = raw\<rparr> res 1 = Inr (demo_settlement res c)"
    using assms(3) demo_verified [OF trim(4)] relay time fresh demo_split
    by (simp add: pooled_settlement_def env act pl round EqualFold_def pooledSettlementMaxSlotLag_def demo_settlement_def
        split: option.split)
  have pol: "\<exists>cap. systemResourceTaskPolicies i = Some (res, cap) \<and> \<not> taskAmountLessThan cap (Fin (1 / 32))"
    using assms(1) amount_covers(2) [OF demo_32nd, of "1 / 10"] amount_covers(2) [OF demo_32nd, of "1 / 20"]
    by (auto simp: systemResourceTaskPolicies_def)
  then show ?thesis using st trim src cat
    by (auto simp: validateTaskSubmissionPolicyLocked_def act resource_policy_def env pl Let_def)
qed

lemma demo_settles:
  assumes "(i, raw, res, c) \<in> {(''qsdm-edge-worker-gpu'', ''A'', ''gpu'', CHR 0x01), (''qsdm-edge-worker-ram'', ''B'', ''ram'', CHR 0x02)}"
    and "settlement_fresh s (demo_settlement res c)" and "raw \<notin> tk_actionIDs s" and "tk_tasks s i = Some (demo_task i)"
    and "\<forall>b. tk_pooledRelayBindings s (demo_id (CHR 0x00)) = Some b \<longrightarrow> binding_matches b (demo_pool_proof res c)"
  obtains s' where "applyAction demo_pool_env [] s (demo_submit i raw) False True 1 = (s', Inr (Some (demo_settlement res c)))"
    "tk_actionIDs s' = insert raw (tk_actionIDs s)" "\<forall>j. j \<noteq> i \<longrightarrow> tk_tasks s' j = tk_tasks s j"
    "tk_settledPooledProofs s' = tk_settledPooledProofs (settle_store (demo_submit i raw) (Some (demo_settlement res c)) s)"
    "tk_settledPooledReceipts s' = tk_settledPooledReceipts (settle_store (demo_submit i raw) (Some (demo_settlement res c)) s)"
    "tk_pooledRelayBindings s' = tk_pooledRelayBindings (settle_store (demo_submit i raw) (Some (demo_settlement res c)) s)"
proof -
  have act: "ta_TaskID (demo_submit i raw) = i" "ta_Action (demo_submit i raw) = ''submit''" "ta_ID (demo_submit i raw) = raw"
    "ta_Payload (demo_submit i raw) = raw" by (simp_all add: demo_submit_def)
  have entry: "task_entry s i = demo_task i" using assms(4) by (simp add: task_entry_def)
  have guard: "action_guard s (demo_submit i raw) = None"
    using assms(1,3) by (auto simp: action_guard_def demo_submit_def)
  let ?pl = "parseTaskActionPayload demo_pool_env raw"
  have pl: "pl_RewardAmount ?pl = Fin (1 / 32)" using assms(1) by (auto simp: parseTaskActionPayload_def demo_pool_env_def)
  have pol: "validateTaskSubmissionPolicyLocked demo_pool_env (put_task s i (demo_task i)) (demo_task i)
      (acting (demo_task i) (demo_submit i raw)) (demo_submit i raw) ?pl False True 1 = Inr (Some (demo_settlement res c))"
    by (rule demo_policy [OF assms(1)]) (use assms(2,5) in \<open>simp_all add: settlement_fresh_def\<close>)
  show thesis
    by (rule submit_settles [of s "demo_submit i raw" "demo_task i" ?pl demo_pool_env "acting (demo_task i) (demo_submit i raw)"
          False True 1 "demo_settlement res c" "[]"])
      (use that in \<open>simp_all add: guard act entry pol pl sub_lookup_def value_reused_def demo_acting zero_float64_def
        amount_covers(1) [OF demo_32nd, of 1]\<close>)
qed

lemma demo_start: "settlement_fresh demo_tasks st" "tk_actionIDs demo_tasks = {}" "tk_pooledRelayBindings demo_tasks = Map.empty"
  "tk_tasks demo_tasks ''qsdm-edge-worker-gpu'' = Some (demo_task ''qsdm-edge-worker-gpu'')"
  "tk_tasks demo_tasks ''qsdm-edge-worker-ram'' = Some (demo_task ''qsdm-edge-worker-ram'')"
  by (simp_all add: demo_tasks_def NewTaskStateStore_def settlement_fresh_def)

text \<open>Two settlements, on two tasks, one after the other.\<close>

lemma demo_two:
  obtains s1 s2 where "applyAction demo_pool_env [] demo_tasks (demo_submit ''qsdm-edge-worker-gpu'' ''A'') False True 1 =
      (s1, Inr (Some (demo_settlement ''gpu'' (CHR 0x01))))"
    "applyAction demo_pool_env [] s1 (demo_submit ''qsdm-edge-worker-ram'' ''B'') False True 1 =
      (s2, Inr (Some (demo_settlement ''ram'' (CHR 0x02))))"
proof -
  let ?st = "demo_settlement ''gpu'' (CHR 0x01)" and ?st2 = "demo_settlement ''ram'' (CHR 0x02)"
  obtain s1 where s1: "applyAction demo_pool_env [] demo_tasks (demo_submit ''qsdm-edge-worker-gpu'' ''A'') False True 1 = (s1, Inr (Some ?st))"
    "tk_actionIDs s1 = {''A''}" "\<forall>j. j \<noteq> ''qsdm-edge-worker-gpu'' \<longrightarrow> tk_tasks s1 j = tk_tasks demo_tasks j"
    "tk_settledPooledProofs s1 = tk_settledPooledProofs (settle_store (demo_submit ''qsdm-edge-worker-gpu'' ''A'') (Some ?st) demo_tasks)"
    "tk_settledPooledReceipts s1 = tk_settledPooledReceipts (settle_store (demo_submit ''qsdm-edge-worker-gpu'' ''A'') (Some ?st) demo_tasks)"
    "tk_pooledRelayBindings s1 = tk_pooledRelayBindings (settle_store (demo_submit ''qsdm-edge-worker-gpu'' ''A'') (Some ?st) demo_tasks)"
    by (rule demo_settles [of "''qsdm-edge-worker-gpu''" "''A''" "''gpu''" "CHR 0x01" demo_tasks]) (simp_all add: demo_start)
  have ne: "demo_id c \<noteq> demo_id c'" if "c \<noteq> c'" for c c'
  proof
    assume "demo_id c = demo_id c'"
    then have "DecodeHex (demo_id c) = DecodeHex (demo_id c')" by (rule arg_cong)
    with that show False by (simp add: replicate_eq_replicate)
  qed
  have "last (demo_id c) = hex_digit (of_char c mod 16)" for c
  proof -
    have "replicate 32 c = replicate 31 c @ [c]" by (simp add: replicate_append_same flip: replicate_Suc)
    then show ?thesis by (simp add: EncodeToString_def hex_byte_def Let_def)
  qed
  then have last: "last (demo_id (CHR 0x01)) \<noteq> last (demo_id (CHR 0x02))" by (simp add: hex_digit_def char_of_eq_iff)
  have fresh: "settlement_fresh s1 ?st2"
    using ne [of "CHR 0x02" "CHR 0x01"] ne [OF last]
    by (auto simp: settlement_fresh_def s1(4,5) settle_store_def Let_def demo_settlement_def demo_tasks_def NewTaskStateStore_def)
  have bind: "\<forall>b. tk_pooledRelayBindings s1 (demo_id (CHR 0x00)) = Some b \<longrightarrow> binding_matches b (demo_pool_proof ''ram'' (CHR 0x02))"
    by (simp add: s1(6) settle_store_def Let_def demo_settlement_def demo_start binding_matches_def EqualFold_def)
  show thesis
    by (rule demo_settles [of "''qsdm-edge-worker-ram''" "''B''" "''ram''" "CHR 0x02" s1])
      (use that s1 fresh bind in \<open>simp_all add: demo_start\<close>)
qed

theorem settled_identifiers_not_reused_witness:
  "\<exists>s1 s2. applyAction demo_pool_env [] demo_tasks (demo_submit ''qsdm-edge-worker-gpu'' ''A'') False True 1 =
       (s1, Inr (Some (demo_settlement ''gpu'' (CHR 0x01)))) \<and>
     applyAction demo_pool_env [] (fst (foldl (run_task demo_pool_env) (s1, NewAccountStore) []))
       (demo_submit ''qsdm-edge-worker-ram'' ''B'') False True 1 = (s2, Inr (Some (demo_settlement ''ram'' (CHR 0x02)))) \<and>
     ToLower ` set (pp_ReceiptIDs (demo_pool_proof ''gpu'' (CHR 0x01))) \<inter>
       ToLower ` set (pp_ReceiptIDs (demo_pool_proof ''ram'' (CHR 0x02))) = {}"
proof -
  obtain s1 s2 where one: "applyAction demo_pool_env [] demo_tasks (demo_submit ''qsdm-edge-worker-gpu'' ''A'') False True 1 =
      (s1, Inr (Some (demo_settlement ''gpu'' (CHR 0x01))))"
    and two: "applyAction demo_pool_env [] s1 (demo_submit ''qsdm-edge-worker-ram'' ''B'') False True 1 =
      (s2, Inr (Some (demo_settlement ''ram'' (CHR 0x02))))" by (rule demo_two)
  from two have two': "applyAction demo_pool_env [] (fst (foldl (run_task demo_pool_env) (s1, NewAccountStore) []))
       (demo_submit ''qsdm-edge-worker-ram'' ''B'') False True 1 = (s2, Inr (Some (demo_settlement ''ram'' (CHR 0x02))))" by simp
  from settled_identifiers_not_reused [OF one two'] one two' show ?thesis by (auto simp: demo_settlement_def)
qed

text \<open>
  The gaps of the check. A receipt identifier with a blank behind it is, when a proof is verified, the receipt without it,
  but the store that has settled the receipt does not recognise it. And a relay identifier that differs from a bound one in
  letter case has no binding.\<close>

lemma padded_receipt_escapes:
  "canonical_receipt (demo_id (CHR 0x01) @ '' '') = canonical_receipt (demo_id (CHR 0x01))"
  "tk_settledPooledReceipts (settle_store action (Some (demo_settlement res (CHR 0x01))) demo_tasks)
     (ToLower (demo_id (CHR 0x01) @ '' '')) = None"
proof -
  show "canonical_receipt (demo_id (CHR 0x01) @ '' '') = canonical_receipt (demo_id (CHR 0x01))" by code_simp
  have "ToLower (demo_id (CHR 0x01) @ '' '') \<noteq> ToLower (demo_id (CHR 0x01))"
  proof
    assume "ToLower (demo_id (CHR 0x01) @ '' '') = ToLower (demo_id (CHR 0x01))"
    then have "length (ToLower (demo_id (CHR 0x01) @ '' '')) = length (ToLower (demo_id (CHR 0x01)))" by (rule arg_cong)
    then show False by (simp add: ToLower_def)
  qed
  then show "tk_settledPooledReceipts (settle_store action (Some (demo_settlement res (CHR 0x01))) demo_tasks)
     (ToLower (demo_id (CHR 0x01) @ '' '')) = None"
    by (simp add: settle_store_def Let_def demo_settlement_def demo_tasks_def NewTaskStateStore_def)
qed

lemma respelled_relay_escapes:
  "i \<noteq> pp_CoordinatorID (st_Proof st) \<Longrightarrow>
     tk_pooledRelayBindings (settle_store action (Some st) s) i = tk_pooledRelayBindings s i"
  by (simp add: settle_store_def Let_def split: option.split)

theorem pooled_settlement_terms_witness:
  "\<exists>s1. applyAction demo_pool_env [] demo_tasks (demo_submit ''qsdm-edge-worker-gpu'' ''A'') False True 1 =
       (s1, Inr (Some (demo_settlement ''gpu'' (CHR 0x01)))) \<and>
     VerifySettlementPoolProof (te_relay demo_pool_env) (demo_pool_proof ''gpu'' (CHR 0x01)) = None"
proof -
  obtain s1 s2 where one: "applyAction demo_pool_env [] demo_tasks (demo_submit ''qsdm-edge-worker-gpu'' ''A'') False True 1 =
      (s1, Inr (Some (demo_settlement ''gpu'' (CHR 0x01))))" by (rule demo_two)
  from pooled_settlement_terms [OF one refl refl refl] one show ?thesis by (auto simp: demo_settlement_def)
qed

section \<open>Properties of every run\<close>

text \<open>
  What a task keeps. Whatever actions, replays and economic transactions follow, a task stays in the store, a claimed
  submission never changes, and once a manifest is registered its manager is fixed and every other manifest that replaces it
  has a larger version.
\<close>

theorem task_record_final:
  assumes "tk_tasks (fst sa) i = Some t"
  shows "\<exists>t'. tk_tasks (fst (foldl (run_task e) sa cs)) i = Some t' \<and>
    (\<forall>r a v. sub_lookup t r a = Some v \<and> sub_Claimed v \<longrightarrow> sub_lookup t' r a = Some v) \<and>
    (\<forall>m. ts_Manifest t = Some m \<longrightarrow> (\<exists>m'. ts_Manifest t' = Some m' \<and> mf_Manager m' = mf_Manager m \<and>
       (m' = m \<or> mf_Version m < mf_Version m')))"
proof -
  have "task_history (fst sa) (fst (foldl (run_task e) sa cs))" by (rule task_log.run_rel)
  with assms obtain t' where "tk_tasks (fst (foldl (run_task e) sa cs)) i = Some t'" "task_follows t t'"
    unfolding task_history_def by blast
  then show ?thesis
    by (auto simp: task_follows_def claimed_kept_def manifest_follows_def split: option.splits)
qed

theorem task_record_final_witness:
  "\<exists>t'. tk_tasks (fst (foldl (run_task demo_pool_env) (demo_tasks, NewAccountStore)
        [CallAction [] (demo_submit ''qsdm-edge-worker-gpu'' ''A'')])) ''qsdm-edge-worker-gpu'' = Some t' \<and>
     (\<exists>m'. ts_Manifest t' = Some m' \<and> mf_Manager m' = ''m'')"
  using task_record_final [of "(demo_tasks, NewAccountStore)" "''qsdm-edge-worker-gpu''" "demo_task ''qsdm-edge-worker-gpu''"
      demo_pool_env "[CallAction [] (demo_submit ''qsdm-edge-worker-gpu'' ''A'')]"]
  by (auto simp: demo_start demo_manifest_def)

text \<open>
  An action is applied once. After an action is accepted, whatever follows, an action with the same identifier, or one of
  the same sender with a non-zero nonce that is not above its nonce, is refused and leaves the store as it is.
\<close>

theorem task_action_once:
  assumes "applyAction e rs s action lg po h = (s1, Inr w)"
    and "s2 = fst (foldl (run_task e) (s1, accts) cs)"
    and "ta_ID action2 = ta_ID action \<or>
      ta_Sender action2 = ta_Sender action \<and> 0 < ta_Nonce action2 \<and> ta_Nonce action2 \<le> ta_Nonce action"
  shows "\<exists>err. applyAction e rs2 s2 action2 lg2 po2 h2 = (s2, Inl err)"
proof -
  have known: "ta_ID action \<in> tk_actionIDs s1 \<and> (0 < ta_Nonce action \<longrightarrow> sender_nonce s1 (ta_Sender action) = ta_Nonce action)"
    using assms(1) by (cases rule: action_outcome) (auto simp: record_action_def sender_nonce_def)
  have "task_history s1 s2" using task_log.run_rel [of "(s1, accts)" e cs] by (simp add: assms(2))
  with known have later: "ta_ID action \<in> tk_actionIDs s2"
    "0 < ta_Nonce action \<Longrightarrow> ta_Nonce action \<le> sender_nonce s2 (ta_Sender action)"
    by (auto simp: task_history_def) metis
  have "action_guard s2 action2 \<noteq> None"
  proof (cases "ta_ID action2 = ta_ID action")
    case False
    with assms(3) have n: "ta_Sender action2 = ta_Sender action" "0 < ta_Nonce action2" "ta_Nonce action2 \<le> ta_Nonce action" by auto
    then have "0 < ta_Nonce action" by (meson order_less_le_trans)
    with n later(2) have "ta_Nonce action2 \<le> sender_nonce s2 (ta_Sender action2)" by (metis order_trans)
    with n(2) show ?thesis by (simp add: action_guard_def)
  qed (simp add: action_guard_def later(1))
  then show ?thesis by (auto simp: applyAction_def)
qed

theorem task_action_once_witness:
  "\<exists>s1 err. applyAction demo_pool_env [] demo_tasks (demo_submit ''qsdm-edge-worker-gpu'' ''A'') False True 1 =
       (s1, Inr (Some (demo_settlement ''gpu'' (CHR 0x01)))) \<and>
     applyAction demo_pool_env [] s1 (demo_submit ''qsdm-edge-worker-ram'' ''A'') False True 2 = (s1, Inl err)"
proof -
  obtain s1 s2 where one: "applyAction demo_pool_env [] demo_tasks (demo_submit ''qsdm-edge-worker-gpu'' ''A'') False True 1 =
      (s1, Inr (Some (demo_settlement ''gpu'' (CHR 0x01))))" by (rule demo_two)
  have "\<exists>err. applyAction demo_pool_env [] s1 (demo_submit ''qsdm-edge-worker-ram'' ''A'') False True 2 = (s1, Inl err)"
    by (rule task_action_once [OF one, where cs = "[]"]) (simp_all add: demo_submit_def)
  with one show ?thesis by blast
qed

text \<open>
  The running count is exact. In every store reached from the empty one by actions, replays and economic transactions,
  the running count of a task is the number of its participants that are running.
\<close>

theorem task_running_count_exact:
  "store_running_ok (fst (foldl (run_task e) (NewTaskStateStore, accts) cs))"
  by (rule task_running.run_inv) (simp add: store_running_ok_def NewTaskStateStore_def)

text \<open>
  An economic task transaction is all or nothing. A refused one leaves the tasks and the accounts as they were. An accepted
  one decodes to an action by a sender who was charged, with the nonce checked, the fee and the amount staked or funded; the action
  was applied at that height; and what was released or claimed, and the three shares of a settlement, were credited.
\<close>

theorem economic_task_tx_effect:
  "case applyEconomicTx e rs rs' (s, accts) tx h of
     (sa', Some err) \<Rightarrow> sa' = (s, accts)
   | (sa', None) \<Rightarrow> \<exists>action c rel cl a1 st. DecodeTaskActionTx e tx = Inr action \<and>
       economic_terms e rs s tx action = Inr (c, rel, cl) \<and>
       ChargeAndBumpNonce accts (ta_Sender action) c (tx_Nonce tx) = (a1, None) \<and>
       applyAction e rs' s action False True h = (fst sa', Inr st) \<and>
       snd sa' = pay_settlement e st
         (let a2 = (if 0 < rel then Credit (te_oob e) (te_fork e) a1 (ta_Sender action) rel else a1)
          in if 0 < cl then Credit (te_oob e) (te_fork e) a2 (ta_Sender action) cl else a2)"
proof -
  obtain sa' w where r: "applyEconomicTx e rs rs' (s, accts) tx h = (sa', w)" by fastforce
  then show ?thesis
  proof (cases rule: economic_outcome)
    case (paid action c rel cl a1 s' st)
    then show ?thesis unfolding r by (simp only: prod.case option.case fst_conv snd_conv) blast
  qed (simp add: r)
qed

section \<open>Claims\<close>

lemma claim_step_other:
  "r' \<noteq> r \<Longrightarrow> sub_lookup (fst (claim_step a ts n tr r)) r' b = sub_lookup (fst tr) r' b"
  by (auto simp: claim_step_def sub_lookup_put split: option.split)

text \<open>The loop that pays and the loop that quotes add the same amounts in the same order.\<close>

lemma claim_fold_quote:
  assumes "distinct rs" and "\<forall>r \<in> set rs. sub_lookup u r a = sub_lookup t r a"
  shows "snd (foldl (claim_step a ts n) (u, x) rs) = foldl (claimable_step t a n) x rs"
  using assms
proof (induction rs arbitrary: u x)
  case (Cons r rs)
  let ?tr = "claim_step a ts n (u, x) r"
  from Cons.prems have "\<forall>r' \<in> set rs. sub_lookup (fst ?tr) r' a = sub_lookup t r' a"
    using claim_step_other [of _ r a ts n "(u, x)" a] by fastforce
  with Cons.IH [of "fst ?tr" "snd ?tr"] Cons.prems
  have "snd (foldl (claim_step a ts n) ?tr rs) = foldl (claimable_step t a n) (snd ?tr) rs" by simp
  moreover from Cons.prems(2) have "sub_lookup u r a = sub_lookup t r a" by simp
  then have "snd ?tr = claimable_step t a n x r"
    by (cases "sub_lookup t r a") (auto simp: claim_step_def claimable_step_def)
  ultimately show ?case by simp
qed simp

definition unclaimable :: "TaskState \<Rightarrow> string \<Rightarrow> u64 \<Rightarrow> string \<Rightarrow> bool" where
  "unclaimable t a n r \<longleftrightarrow> (n \<noteq> 0 \<and> r \<noteq> round_key n) \<or>
     (case sub_lookup t r a of None \<Rightarrow> True | Some v \<Rightarrow> sub_Claimed v \<or> sub_RewardAmount v \<le> 0)"

lemma claim_step_unclaimable:
  "unclaimable (fst (claim_step a ts n tr r)) a n r"
  "unclaimable (fst tr) a n r' \<Longrightarrow> unclaimable (fst (claim_step a ts n tr r)) a n r'"
  by (auto simp: unclaimable_def claim_step_def sub_lookup_put split: option.splits)

lemma claim_fold_unclaimable:
  "unclaimable (fst tr) a n r \<or> r \<in> set rs \<Longrightarrow> unclaimable (fst (foldl (claim_step a ts n) tr rs)) a n r"
proof (induction rs arbitrary: tr)
  case (Cons r' rs)
  have "unclaimable (fst (claim_step a ts n tr r')) a n r \<or> r \<in> set rs"
    using Cons.prems claim_step_unclaimable(1) [of a ts n tr r'] claim_step_unclaimable(2) [of tr a n r ts r'] by auto
  from Cons.IH [OF this] show ?case by simp
qed simp

lemma claim_fold_paid: "ts_TotalRewardPaidAmount (fst (foldl (claim_step a ts n) tr rs)) = ts_TotalRewardPaidAmount (fst tr)"
  by (induction rs arbitrary: tr) (auto simp: claim_step_def put_submission_def split: option.split)

lemma nothing_claimable: "\<forall>r \<in> set rs. unclaimable t a n r \<Longrightarrow> foldl (claimable_step t a n) x rs = x"
  by (induction rs) (auto simp: unclaimable_def claimable_step_def split: option.splits)

text \<open>
  A claim pays what was quoted, and once. When a sender's claim is applied over the same order of the rounds as the quote,
  the reward it adds to what the task has paid and to what the participant has claimed is the quoted one; afterwards the
  quote for the same claim is zero, in whatever order the rounds are visited.
\<close>

theorem claim_pays_quote_once:
  assumes "ta_Action action = ''claim''" and "action_guard s action = None" and "tk_tasks s (ta_TaskID action) = Some t"
    and "iteration (ts_Submissions t) rs" and "0 < ClaimableReward e rs s action"
    and "applyAction e rs s action lg po h = (s', w)"
  shows "w = Inr None \<and> (\<exists>t'. tk_tasks s' (ta_TaskID action) = Some t' \<and>
      ts_TotalRewardPaidAmount t' = ts_TotalRewardPaidAmount t + ClaimableReward e rs s action \<and>
      pt_TotalRewardClaimedAmount (participant_of t' (ta_Sender action)) =
        pt_TotalRewardClaimedAmount (participant_of t (ta_Sender action)) + ClaimableReward e rs s action) \<and>
    (\<forall>rs2. ClaimableReward e rs2 s' action = 0)"
proof -
  let ?i = "ta_TaskID action" and ?a = "ta_Sender action" and ?n = "pl_Round (parseTaskActionPayload e (ta_Payload action))"
  define reward where "reward = ClaimableReward e rs s action"
  define t1 where "t1 = fst (foldl (claim_step ?a (ta_Timestamp action) ?n) (t, 0) rs)"
  have "distinct rs" using assms(4) by (simp add: iteration_def)
  then have fold: "foldl (claim_step ?a (ta_Timestamp action) ?n) (t, 0) rs = (t1, reward)"
    using claim_fold_quote [of rs t ?a t "ta_Timestamp action" ?n 0] assms(3)
    by (simp add: t1_def reward_def ClaimableReward_def claimableRewardLocked_def prod_eq_iff)
  have none: "unclaimable t1 ?a ?n r" for r
    using claim_fold_unclaimable [of "(t, 0)" ?a ?n r rs] assms(4)
    by (auto simp: t1_def iteration_def unclaimable_def sub_lookup_def domIff split: option.splits)
  have pos: "\<not> reward \<le> 0" using assms(5) by (cases reward) (auto simp: reward_def less_eq_float64_def zero_float64_def)
  define t2 where "t2 = clampTask (t1\<lparr>ts_PendingRewardAmount := ts_PendingRewardAmount t1 - reward,
    ts_TotalRewardPaidAmount := ts_TotalRewardPaidAmount t1 + reward\<rparr>)"
  define p2 where "p2 = clampParticipant ((acting t action)\<lparr>pt_PendingRewardAmount := pt_PendingRewardAmount (acting t action) - reward,
    pt_TotalRewardClaimedAmount := pt_TotalRewardClaimedAmount (acting t action) + reward, pt_LastClaimedAt := ta_Timestamp action\<rparr>)"
  have cl: "applyClaimLocked e rs t (acting t action) action = (t2, p2, Some reward)"
    using fold pos by (simp add: applyClaimLocked_def Let_def clampTaskRewardAccounting_def t2_def p2_def)
  have entry: "task_entry s ?i = t" using assms(3) by (simp add: task_entry_def)
  have "\<not> isTaskCatalogAction (ta_Action action)"
    by (simp add: assms(1) isTaskCatalogAction_def TaskActionCatalogRegister_def TaskActionCatalogUpdate_def
        TaskActionCatalogPause_def TaskActionCatalogResume_def)
  then have r: "applyAction e rs s action lg po h = (record_action action (put_task (put_task s ?i t) ?i
      (stamp_task action (t2\<lparr>ts_Participants := (ts_Participants t2)(?a \<mapsto> stamp_participant action (p2\<lparr>pt_ClaimCount := pt_ClaimCount p2 + 1\<rparr>))\<rparr>))), Inr None)"
    using assms(2) cl entry by (simp add: applyAction_def getOrCreate_eq task_switch_def assms(1) acting_def Let_def)
  define t3 where "t3 = stamp_task action (t2\<lparr>ts_Participants := (ts_Participants t2)(?a \<mapsto>
    stamp_participant action (p2\<lparr>pt_ClaimCount := pt_ClaimCount p2 + 1\<rparr>))\<rparr>)"
  have s': "tk_tasks s' ?i = Some t3" and w: "w = Inr None" using assms(6) r by (auto simp: record_action_def t3_def)
  have "sub_lookup t3 = sub_lookup t1" by (rule sub_lookup_cong) (simp add: t3_def t2_def stamp_task_def)
  then have "unclaimable t3 ?a ?n r" for r using none [of r] by (simp add: unclaimable_def)
  then have "ClaimableReward e rs2 s' action = 0" for rs2
    by (simp add: ClaimableReward_def claimableRewardLocked_def s' nothing_claimable)
  moreover have "ts_TotalRewardPaidAmount t3 = ts_TotalRewardPaidAmount t + reward"
    using claim_fold_paid [of ?a "ta_Timestamp action" ?n "(t, 0)" rs] by (simp add: t3_def t2_def t1_def stamp_task_def)
  moreover have "pt_TotalRewardClaimedAmount (participant_of t3 ?a) = pt_TotalRewardClaimedAmount (participant_of t ?a) + reward"
  proof -
    have "participant_of t3 ?a = stamp_participant action (p2\<lparr>pt_ClaimCount := pt_ClaimCount p2 + 1\<rparr>)"
      by (simp add: participant_of_def t3_def stamp_task_def)
    moreover have "pt_TotalRewardClaimedAmount (acting t action) = pt_TotalRewardClaimedAmount (participant_of t ?a)"
      by (simp add: acting_def Let_def)
    ultimately show ?thesis by (simp add: stamp_participant_def p2_def)
  qed
  ultimately show ?thesis using s' w by (simp add: reward_def)
qed

definition demo_claim :: TaskAction where
  "demo_claim = \<lparr>ta_ID = ''c'', ta_Sender = ''a'', ta_TaskID = ''i'', ta_Action = ''claim'', ta_Amount = Fin 0, ta_Payload = [],
     ta_Nonce = 1, ta_Timestamp = ''now''\<rparr>"

definition demo_claimable :: TaskStateStore where
  "demo_claimable = NewTaskStateStore\<lparr>tk_tasks := [''i'' \<mapsto> (new_task ''i'')\<lparr>ts_PendingRewardAmount := Fin 2,
     ts_Submissions := [''5'' \<mapsto> [''a'' \<mapsto> \<lparr>sub_ActionID = ''s'', sub_Sender = ''a'', sub_Round = 5, sub_Slot = 300,
       sub_SubmissionValue = ''v'', sub_Payload = [], sub_RewardAmount = Fin 2, sub_Claimed = False, sub_ClaimedAt = [],
       sub_Timestamp = [], sub_SettlementProofID = [], sub_SettlementCoordinatorID = [], sub_SettlementContributorWallet = [],
       sub_SettlementMotherHiveWallet = [], sub_SettlementEcosystemWallet = [], sub_SettlementContributorAmount = Fin 0,
       sub_SettlementMotherHiveAmount = Fin 0, sub_SettlementEcosystemAmount = Fin 0\<rparr>]]\<rparr>]\<rparr>"

theorem claim_pays_quote_once_witness:
  "\<exists>s' w. ClaimableReward demo_pool_env [''5''] demo_claimable demo_claim = Fin 2 \<and>
     applyAction demo_pool_env [''5''] demo_claimable demo_claim False True 1 = (s', w) \<and> w = Inr None \<and>
     ClaimableReward demo_pool_env [''5''] s' demo_claim = 0"
proof -
  obtain s' w where r: "applyAction demo_pool_env [''5''] demo_claimable demo_claim False True 1 = (s', w)" by fastforce
  have q: "ClaimableReward demo_pool_env [''5''] demo_claimable demo_claim = Fin 2"
    by (simp add: ClaimableReward_def demo_claimable_def demo_claim_def claimableRewardLocked_def claimable_step_def
        parseTaskActionPayload_def sub_lookup_def zero_float64_def)
  have t: "tk_tasks demo_claimable (ta_TaskID demo_claim) = Some (the (tk_tasks demo_claimable ''i''))"
    by (simp add: demo_claimable_def demo_claim_def)
  have "ta_Action demo_claim = ''claim''" "action_guard demo_claimable demo_claim = None"
    "iteration (ts_Submissions (the (tk_tasks demo_claimable ''i''))) [''5'']"
    by (simp_all add: demo_claim_def action_guard_def demo_claimable_def NewTaskStateStore_def sender_nonce_def
        iteration_def zero_float64_def word_le_nat_alt)
  note facts = this
  have "0 < ClaimableReward demo_pool_env [''5''] demo_claimable demo_claim" unfolding q by (simp add: zero_float64_def)
  from claim_pays_quote_once [OF facts(1,2) t facts(3) this r] q r show ?thesis by blast
qed

section \<open>The state root does not depend on map order\<close>

lemma orders_task:
  assumes "orders_ok ord s" and "tk_tasks s i = Some t"
  shows "iteration (ts_Participants t) (or_participants ord i)" "iteration (ts_Submissions t) (or_rounds ord i)"
    "ts_Submissions t r = Some m \<Longrightarrow> iteration m (or_senders ord i r)"
  using assms unfolding orders_ok_def by blast+

text \<open>
  The task state root is a function of the store: two validators that range over the maps in different orders hash
  the same bytes.
\<close>

theorem task_root_deterministic:
  assumes "orders_ok ord s" and "orders_ok ord' s"
  shows "TaskStateRoot e ord s = TaskStateRoot e ord' s"
proof -
  have tops: "sort (or_tasks ord) = sort (or_tasks ord')" "sort (or_relays ord) = sort (or_relays ord')"
    "sort (or_proofs ord) = sort (or_proofs ord')" "sort (or_receipts ord) = sort (or_receipts ord')"
    using assms by (auto simp: orders_ok_def intro: sort_iterations)
  have "task_preimage e ord t i = task_preimage e ord' t i" if "tk_tasks s i = Some t" for i t
  proof -
    have p: "sort (or_participants ord i) = sort (or_participants ord' i)" and r: "sort (or_rounds ord i) = sort (or_rounds ord' i)"
      using orders_task [OF assms(1) that] orders_task [OF assms(2) that] by (auto intro: sort_iterations)
    have "sort (or_senders ord i x) = sort (or_senders ord' i x)" if "x \<in> set (or_rounds ord' i)" for x
    proof -
      from orders_task(2) [OF assms(2) \<open>tk_tasks s i = Some t\<close>] that obtain m where "ts_Submissions t x = Some m"
        by (auto simp: iteration_def)
      from orders_task(3) [OF assms(1) \<open>tk_tasks s i = Some t\<close> this] orders_task(3) [OF assms(2) \<open>tk_tasks s i = Some t\<close> this]
      show ?thesis by (rule sort_iterations)
    qed
    then have "map (\<lambda>x. concat (map (f x) (sort (or_senders ord i x)))) (sort (or_rounds ord' i)) =
        map (\<lambda>x. concat (map (f x) (sort (or_senders ord' i x)))) (sort (or_rounds ord' i))" for f :: "string \<Rightarrow> string \<Rightarrow> string"
      by simp
    then show ?thesis
      unfolding task_preimage_def sortedParticipantIDs_def p r by (intro arg_cong2 [where f = append] refl arg_cong [where f = concat])
  qed
  moreover have "set (or_tasks ord') = dom (tk_tasks s)" using assms(2) by (simp add: orders_ok_def iteration_def)
  ultimately have "map (\<lambda>i. task_preimage e ord (the (tk_tasks s i)) i) (sort (or_tasks ord')) =
      map (\<lambda>i. task_preimage e ord' (the (tk_tasks s i)) i) (sort (or_tasks ord'))" by auto
  then show ?thesis unfolding TaskStateRoot_def tops clone_task by (simp only:)
qed

definition demo_orders :: "string list \<Rightarrow> task_orders" where
  "demo_orders ids = \<lparr>or_tasks = ids, or_participants = (\<lambda>i. [demo_id (CHR 0x00)]), or_rounds = (\<lambda>i. []),
     or_senders = (\<lambda>i r. []), or_relays = [], or_proofs = [], or_receipts = []\<rparr>"

theorem task_root_deterministic_witness:
  "TaskStateRoot demo_pool_env (demo_orders [''qsdm-edge-worker-gpu'', ''qsdm-edge-worker-ram'']) demo_tasks =
   TaskStateRoot demo_pool_env (demo_orders [''qsdm-edge-worker-ram'', ''qsdm-edge-worker-gpu'']) demo_tasks"
  by (rule task_root_deterministic)
    (auto simp: orders_ok_def demo_orders_def iteration_def demo_tasks_def NewTaskStateStore_def demo_task_def new_task_def
      split: if_splits)

end
