(* ===== verification/Tokens.thy ===== *)
theory Tokens
  imports Validators Go_Strings
begin

text \<open>
  The QSDM-20 tokens: the stateless half of \<open>pkg/chain/qsdm20.go\<close> (field rules, unit strings, token id,
  signing preimage, fee encoding, signature check, activation height, admission) and the token state of
  \<open>pkg/chain/qsdm20_state.go\<close> (plan and commit of every action, the fee, the queries, the state root).
  A \<open>big.Int\<close> is an integer. The closure that \<open>planLocked\<close> returns is a function on the store. JSON,
  SHA-256 and ML-DSA-87 are the fields of \<^typ>\<open>string\<close> functions of an environment; the text of an
  error is left out. The floats of the model have one zero, so the refusal of a negative zero as fee has
  no counterpart. Lemmas: unit strings have one spelling, the preimages are injective, every reachable
  store accounts for every unit, who may change what, and a refused transaction changes nothing.
\<close>

section \<open>Names and bounds\<close>

definition QSDM20ContractID :: string where "QSDM20ContractID = ''qsdm/token/v1''"
definition QSDM20ActionCreate :: string where "QSDM20ActionCreate = ''create''"
definition QSDM20ActionTransfer :: string where "QSDM20ActionTransfer = ''transfer''"
definition QSDM20ActionMint :: string where "QSDM20ActionMint = ''mint''"
definition QSDM20ActionBurn :: string where "QSDM20ActionBurn = ''burn''"
definition QSDM20ActionRenounce :: string where "QSDM20ActionRenounce = ''renounce''"
definition QSDM20MintNone :: string where "QSDM20MintNone = ''none''"
definition QSDM20MintIssuer :: string where "QSDM20MintIssuer = ''issuer''"
definition QSDM20MintOpen :: string where "QSDM20MintOpen = ''open''"
definition QSDM20TxIDPrefix :: string where "QSDM20TxIDPrefix = ''qsdm20-''"
definition qsdm20MaxSymbolLen :: nat where "qsdm20MaxSymbolLen = 12"
definition qsdm20MaxNameLen :: nat where "qsdm20MaxNameLen = 48"
definition qsdm20MaxDecimals :: "8 word" where "qsdm20MaxDecimals = 18"
definition qsdm20IDDomain :: string where "qsdm20IDDomain = ''qsdm/token/v1/id''"
definition qsdm20TxDomain :: string where "qsdm20TxDomain = ''qsdm/token/v1/tx''"
definition qsdm20StateDomain :: string where "qsdm20StateDomain = ''qsdm/token/v1/state''"
definition mldsa87PublicKeyLen :: nat where "mldsa87PublicKeyLen = 2592"
definition mldsa87SignatureLen :: nat where "mldsa87SignatureLen = 4627"

definition qsdm20MaxUnits :: int where "qsdm20MaxUnits = 2 ^ 256 - 1"

definition qsdm20MaxUnitDigits :: nat where
  "qsdm20MaxUnitDigits = length (show_nat (nat qsdm20MaxUnits))"

datatype qsdm20_error =
    NotQSDM20Tx string
  | QSDM20Inactive
  | QSDM20Field
  | QSDM20Signature
  | UnknownToken string
  | TokenExists string
  | NotIssuer
  | MintingOff
  | OpenMintRecipient
  | OverMintLimit
  | OverMaxSupply
  | InsufficientUnits
  | TokenHeightUnset
  | TokenCharge account_error
  | NextChecker string

section \<open>Activation\<close>

definition QSDM20ActiveAt :: "u64 \<Rightarrow> u64 \<Rightarrow> bool" where
  "QSDM20ActiveAt act height \<longleftrightarrow> act \<noteq> 0 \<and> act \<le> height"

definition checkQSDM20Active :: "u64 \<Rightarrow> u64 \<Rightarrow> qsdm20_error option" where
  "checkQSDM20Active act height = (if QSDM20ActiveAt act height then None else Some QSDM20Inactive)"

text \<open>A block-height source is absent (\<open>None\<close>) or answers with an optional height.\<close>

definition qsdm20HeightFrom :: "u64 \<Rightarrow> u64 option option \<Rightarrow> qsdm20_error + u64" where
  "qsdm20HeightFrom act src =
     (if act = 0 then (case checkQSDM20Active act 0 of Some e \<Rightarrow> Inl e | None \<Rightarrow> Inr 0)
      else (case src of
          None \<Rightarrow> Inl TokenHeightUnset
        | Some None \<Rightarrow> Inl TokenHeightUnset
        | Some (Some h) \<Rightarrow> (case checkQSDM20Active act h of Some e \<Rightarrow> Inl e | None \<Rightarrow> Inr h)))"

definition qsdm20RulesAt :: "u64 \<Rightarrow> u64 option option \<Rightarrow> qsdm20_error + bool \<times> u64" where
  "qsdm20RulesAt act src =
     (if act = 0 then Inr (False, 0)
      else (case src of
          None \<Rightarrow> Inl TokenHeightUnset
        | Some None \<Rightarrow> Inl TokenHeightUnset
        | Some (Some h) \<Rightarrow> Inr (QSDM20ActiveAt act h, h)))"

section \<open>Actions and their field rules\<close>

record QSDM20Action =
  qa_Action :: string
  qa_Symbol :: string
  qa_Name :: string
  qa_Decimals :: "8 word option"
  qa_MaxSupply :: string
  qa_InitialSupply :: string
  qa_Mint :: string
  qa_MintLimit :: string
  qa_Token :: string
  qa_To :: string
  qa_Amount :: string

definition digit_char :: "char \<Rightarrow> bool" where
  "digit_char c \<longleftrightarrow> of_char c \<in> {48..57::nat}"

definition lower_hex_char :: "char \<Rightarrow> bool" where
  "lower_hex_char c \<longleftrightarrow> digit_char c \<or> of_char c \<in> {97..102::nat}"

definition validQSDM20Symbol :: "string \<Rightarrow> bool" where
  "validQSDM20Symbol s \<longleftrightarrow> s \<noteq> [] \<and> length s \<le> qsdm20MaxSymbolLen \<and>
     list_all (\<lambda>c. of_char c \<in> {65..90::nat} \<or> digit_char c) s"

text \<open>
  The code points of a UTF-8 string as \<open>range\<close> yields them, \<open>None\<close> when \<open>utf8.ValidString\<close> refuses it:
  no overlong form, no surrogate, nothing above U+10FFFF.
\<close>

definition continuation :: "char \<Rightarrow> bool" where
  "continuation c \<longleftrightarrow> of_char c \<in> {128..191::nat}"

definition second_byte :: "nat \<Rightarrow> char \<Rightarrow> bool" where
  "second_byte a c \<longleftrightarrow> of_char c \<in> (if a = 224 then {160..191} else if a = 237 then {128..159}
     else if a = 240 then {144..191} else if a = 244 then {128..143} else {128..191::nat})"

fun utf8_runes :: "string \<Rightarrow> nat list option" where
  "utf8_runes [] = Some []"
| "utf8_runes (a # s) =
     (let n = of_char a in
      if n < 128 then map_option ((#) n) (utf8_runes s)
      else if 194 \<le> n \<and> n \<le> 223 then
        (case s of
           b # t \<Rightarrow> if continuation b
             then map_option ((#) (n mod 32 * 64 + of_char b mod 64)) (utf8_runes t) else None
         | _ \<Rightarrow> None)
      else if 224 \<le> n \<and> n \<le> 239 then
        (case s of
           b # c # t \<Rightarrow> if second_byte n b \<and> continuation c
             then map_option ((#) (n mod 16 * 4096 + of_char b mod 64 * 64 + of_char c mod 64)) (utf8_runes t) else None
         | _ \<Rightarrow> None)
      else if 240 \<le> n \<and> n \<le> 244 then
        (case s of
           b # c # d # t \<Rightarrow> if second_byte n b \<and> continuation c \<and> continuation d
             then map_option ((#) (n mod 8 * 262144 + of_char b mod 64 * 4096 + of_char c mod 64 * 64 + of_char d mod 64))
                    (utf8_runes t) else None
         | _ \<Rightarrow> None)
      else None)"

definition IsControl :: "nat \<Rightarrow> bool" where
  "IsControl r \<longleftrightarrow> r < 32 \<or> (127 \<le> r \<and> r < 160)"

definition validQSDM20Name :: "string \<Rightarrow> bool" where
  "validQSDM20Name s \<longleftrightarrow> s \<noteq> [] \<and>
     (case utf8_runes s of
        None \<Rightarrow> False
      | Some rs \<Rightarrow> list_all (\<lambda>r. \<not> IsControl r) rs \<and> length rs \<le> qsdm20MaxNameLen)"

definition validQSDM20Hex64 :: "string \<Rightarrow> bool" where
  "validQSDM20Hex64 s \<longleftrightarrow> length s = 2 * 32 \<and> list_all lower_hex_char s"

definition validQSDM20LowerHex :: "string \<Rightarrow> bool" where
  "validQSDM20LowerHex s \<longleftrightarrow> s \<noteq> [] \<and> length s mod 2 = 0 \<and> list_all lower_hex_char s"

text \<open>\<open>big.Int.SetString\<close> in base ten, on a string without sign.\<close>

definition SetString10 :: "string \<Rightarrow> int option" where
  "SetString10 s = (if s = [] \<or> \<not> list_all digit_char s then None
     else Some (foldl (\<lambda>v c. 10 * v + int (of_char c - 48)) 0 s))"

definition parseQSDM20Units :: "string \<Rightarrow> bool \<Rightarrow> qsdm20_error + int" where
  "parseQSDM20Units s allowZero =
     (if s = [] then Inl QSDM20Field
      else if qsdm20MaxUnitDigits < length s then Inl QSDM20Field
      else if \<not> list_all digit_char s then Inl QSDM20Field
      else if 1 < length s \<and> hd s = CHR ''0'' then Inl QSDM20Field
      else (case SetString10 s of
          None \<Rightarrow> Inl QSDM20Field
        | Some v \<Rightarrow>
            if v = 0 \<and> \<not> allowZero then Inl QSDM20Field
            else if qsdm20MaxUnits < v then Inl QSDM20Field
            else Inr v))"

definition hasQSDM20CreateFields :: "QSDM20Action \<Rightarrow> bool" where
  "hasQSDM20CreateFields a \<longleftrightarrow> qa_Symbol a \<noteq> [] \<or> qa_Name a \<noteq> [] \<or> qa_Decimals a \<noteq> None \<or> qa_MaxSupply a \<noteq> [] \<or>
     qa_InitialSupply a \<noteq> [] \<or> qa_Mint a \<noteq> [] \<or> qa_MintLimit a \<noteq> []"

definition units_error :: "string \<Rightarrow> qsdm20_error option" where
  "units_error s = (case parseQSDM20Units s False of Inl e \<Rightarrow> Some e | Inr _ \<Rightarrow> None)"

definition validate_create :: "QSDM20Action \<Rightarrow> qsdm20_error option" where
  "validate_create a =
     (if qa_Token a \<noteq> [] \<or> qa_To a \<noteq> [] \<or> qa_Amount a \<noteq> [] then Some QSDM20Field
      else if \<not> validQSDM20Symbol (qa_Symbol a) then Some QSDM20Field
      else if \<not> validQSDM20Name (qa_Name a) then Some QSDM20Field
      else if (case qa_Decimals a of None \<Rightarrow> True | Some d \<Rightarrow> qsdm20MaxDecimals < d) then Some QSDM20Field
      else (case parseQSDM20Units (qa_MaxSupply a) False of
          Inl e \<Rightarrow> Some e
        | Inr maxSupply \<Rightarrow>
            (case parseQSDM20Units (qa_InitialSupply a) True of
               Inl e \<Rightarrow> Some e
             | Inr initial \<Rightarrow>
                 if maxSupply < initial then Some QSDM20Field
                 else if qa_Mint a = QSDM20MintNone then
                   (if qa_MintLimit a \<noteq> [] then Some QSDM20Field
                    else if initial \<noteq> maxSupply then Some QSDM20Field else None)
                 else if qa_Mint a = QSDM20MintIssuer then
                   (if qa_MintLimit a \<noteq> [] then Some QSDM20Field else None)
                 else if qa_Mint a = QSDM20MintOpen then units_error (qa_MintLimit a)
                 else Some QSDM20Field)))"

definition ValidateQSDM20Action :: "QSDM20Action \<Rightarrow> qsdm20_error option" where
  "ValidateQSDM20Action a =
     (if qa_Action a = QSDM20ActionCreate then validate_create a
      else if qa_Action a = QSDM20ActionTransfer \<or> qa_Action a = QSDM20ActionMint then
        (if hasQSDM20CreateFields a then Some QSDM20Field
         else if \<not> validQSDM20Hex64 (qa_Token a) then Some QSDM20Field
         else if \<not> validQSDM20Hex64 (qa_To a) then Some QSDM20Field
         else units_error (qa_Amount a))
      else if qa_Action a = QSDM20ActionBurn then
        (if hasQSDM20CreateFields a \<or> qa_To a \<noteq> [] then Some QSDM20Field
         else if \<not> validQSDM20Hex64 (qa_Token a) then Some QSDM20Field
         else units_error (qa_Amount a))
      else if qa_Action a = QSDM20ActionRenounce then
        (if hasQSDM20CreateFields a \<or> qa_To a \<noteq> [] \<or> qa_Amount a \<noteq> [] then Some QSDM20Field
         else if \<not> validQSDM20Hex64 (qa_Token a) then Some QSDM20Field
         else None)
      else Some QSDM20Field)"

section \<open>Encodings, fees and signatures\<close>

record qsdm20_env =
  q_unmarshal :: "string \<Rightarrow> QSDM20Action option"
  q_marshal :: "QSDM20Action \<Rightarrow> string option"
  q_sha256 :: "string \<Rightarrow> string"
  q_mldsa_available :: bool
  q_mldsa_verify :: "string \<Rightarrow> string \<Rightarrow> string \<Rightarrow> bool option"
  q_activation :: u64
  q_oob :: "float64 \<Rightarrow> u64"

definition DecodeQSDM20Payload :: "qsdm20_env \<Rightarrow> string \<Rightarrow> qsdm20_error + QSDM20Action" where
  "DecodeQSDM20Payload v payload =
     (case q_unmarshal v payload of
        None \<Rightarrow> Inl QSDM20Field
      | Some a \<Rightarrow>
          (case q_marshal v a of
             None \<Rightarrow> Inl QSDM20Field
           | Some canonical \<Rightarrow>
               if canonical \<noteq> payload then Inl QSDM20Field
               else (case ValidateQSDM20Action a of Some e \<Rightarrow> Inl e | None \<Rightarrow> Inr a)))"

definition writeTagged :: "string \<Rightarrow> string \<Rightarrow> string" where
  "writeTagged tag val = CHR ''|'' # tag @ CHR '':'' # show_nat (length val) @ CHR '':'' # val"

definition FormatUint :: "'a::len word \<Rightarrow> string" where
  "FormatUint n = show_nat (unat n)"

definition QSDM20TokenID :: "(string \<Rightarrow> string) \<Rightarrow> string \<Rightarrow> u64 \<Rightarrow> string" where
  "QSDM20TokenID sha256 creator nonce =
     EncodeToString (sha256 (writeTagged ''domain'' qsdm20IDDomain @ writeTagged ''creator'' creator @
       writeTagged ''nonce'' (FormatUint nonce)))"

definition signing_tail :: "QSDM20Action \<Rightarrow> string" where
  "signing_tail a =
     (if qa_Action a = QSDM20ActionCreate then
        writeTagged ''symbol'' (qa_Symbol a) @ writeTagged ''name'' (qa_Name a) @
        writeTagged ''decimals'' (case qa_Decimals a of None \<Rightarrow> [] | Some d \<Rightarrow> FormatUint d) @
        writeTagged ''max_supply'' (qa_MaxSupply a) @ writeTagged ''initial_supply'' (qa_InitialSupply a) @
        writeTagged ''mint'' (qa_Mint a) @ writeTagged ''mint_limit'' (qa_MintLimit a)
      else if qa_Action a = QSDM20ActionTransfer \<or> qa_Action a = QSDM20ActionMint then
        writeTagged ''token'' (qa_Token a) @ writeTagged ''to'' (qa_To a) @ writeTagged ''amount'' (qa_Amount a)
      else if qa_Action a = QSDM20ActionBurn then
        writeTagged ''token'' (qa_Token a) @ writeTagged ''amount'' (qa_Amount a)
      else if qa_Action a = QSDM20ActionRenounce then writeTagged ''token'' (qa_Token a)
      else [])"

definition qsdm20SigningPreimage :: "string \<Rightarrow> u64 \<Rightarrow> u64 \<Rightarrow> QSDM20Action \<Rightarrow> string" where
  "qsdm20SigningPreimage sender nonce feeDust a =
     writeTagged ''domain'' qsdm20TxDomain @ writeTagged ''sender'' sender @
     writeTagged ''nonce'' (FormatUint nonce) @ writeTagged ''fee_dust'' (FormatUint feeDust) @
     writeTagged ''action'' (qa_Action a) @ signing_tail a"

definition QSDM20SigningDigest :: "(string \<Rightarrow> string) \<Rightarrow> string \<Rightarrow> u64 \<Rightarrow> u64 \<Rightarrow> QSDM20Action \<Rightarrow> string" where
  "QSDM20SigningDigest sha256 sender nonce feeDust a = sha256 (qsdm20SigningPreimage sender nonce feeDust a)"

definition QSDM20TxID :: "string \<Rightarrow> string" where
  "QSDM20TxID digest = QSDM20TxIDPrefix @ EncodeToString digest"

definition qsdm20FeeDust :: "(float64 \<Rightarrow> u64) \<Rightarrow> float64 \<Rightarrow> qsdm20_error + u64" where
  "qsdm20FeeDust oob fee =
     (if is_nan fee \<or> is_inf fee \<or> fee < 0 then Inl QSDM20Field
      else (case CellToDust oob fee of
          Inl _ \<Rightarrow> Inl QSDM20Field
        | Inr d \<Rightarrow> if Float64bits (DustToCell d) \<noteq> Float64bits fee then Inl QSDM20Field else Inr d))"

definition QSDM20FeeCell :: "(float64 \<Rightarrow> u64) \<Rightarrow> u64 \<Rightarrow> qsdm20_error + float64" where
  "QSDM20FeeCell oob feeDust =
     (let fee = DustToCell feeDust
      in case qsdm20FeeDust oob fee of
           Inl _ \<Rightarrow> Inl QSDM20Field
         | Inr d \<Rightarrow> if d \<noteq> feeDust then Inl QSDM20Field else Inr fee)"

definition decodeQSDM20Tx :: "qsdm20_env \<Rightarrow> Tx \<Rightarrow> qsdm20_error + QSDM20Action \<times> string" where
  "decodeQSDM20Tx v tx =
     (if tx_ContractID tx \<noteq> QSDM20ContractID then Inl (NotQSDM20Tx (tx_ContractID tx))
      else if Float64bits (tx_Amount tx) \<noteq> 0 \<or> tx_Recipient tx \<noteq> [] \<or> tx_GasLimit tx \<noteq> 0 then Inl QSDM20Field
      else if \<not> validQSDM20Hex64 (tx_Sender tx) then Inl QSDM20Field
      else (case qsdm20FeeDust (q_oob v) (tx_Fee tx) of
          Inl e \<Rightarrow> Inl e
        | Inr feeDust \<Rightarrow>
            (case DecodeQSDM20Payload v (tx_Payload tx) of
               Inl e \<Rightarrow> Inl e
             | Inr a \<Rightarrow>
                 (let digest = QSDM20SigningDigest (q_sha256 v) (tx_Sender tx) (tx_Nonce tx) feeDust a
                  in if tx_ID tx \<noteq> QSDM20TxID digest then Inl QSDM20Field else Inr (a, digest)))))"

definition DecodeQSDM20Tx :: "qsdm20_env \<Rightarrow> Tx \<Rightarrow> qsdm20_error + QSDM20Action" where
  "DecodeQSDM20Tx v tx = (case decodeQSDM20Tx v tx of Inl e \<Rightarrow> Inl e | Inr (a, _) \<Rightarrow> Inr a)"

definition BFTValidatorAddress :: "(string \<Rightarrow> string) \<Rightarrow> string \<Rightarrow> string" where
  "BFTValidatorAddress sha256 publicKey = EncodeToString (sha256 publicKey)"

definition verifyQSDM20Signature ::
  "qsdm20_env \<Rightarrow> string \<Rightarrow> string \<Rightarrow> string \<Rightarrow> string \<Rightarrow> qsdm20_error option" where
  "verifyQSDM20Signature v sender publicKeyHex signatureHex digest =
     (if \<not> validQSDM20LowerHex publicKeyHex \<or> \<not> validQSDM20LowerHex signatureHex then Some QSDM20Signature
      else (case DecodeHex publicKeyHex of
          None \<Rightarrow> Some QSDM20Signature
        | Some publicKey \<Rightarrow>
            (case DecodeHex signatureHex of
               None \<Rightarrow> Some QSDM20Signature
             | Some signature \<Rightarrow>
                 if length publicKey \<noteq> mldsa87PublicKeyLen \<or> length signature \<noteq> mldsa87SignatureLen
                 then Some QSDM20Signature
                 else if BFTValidatorAddress (q_sha256 v) publicKey \<noteq> sender then Some QSDM20Signature
                 else if \<not> q_mldsa_available v then Some QSDM20Signature
                 else (case q_mldsa_verify v digest signature publicKey of
                     None \<Rightarrow> Some QSDM20Signature
                   | Some ok \<Rightarrow> if \<not> ok then Some QSDM20Signature else None))))"

definition VerifyQSDM20Tx :: "qsdm20_env \<Rightarrow> Tx \<Rightarrow> qsdm20_error + QSDM20Action" where
  "VerifyQSDM20Tx v tx =
     (case decodeQSDM20Tx v tx of
        Inl e \<Rightarrow> Inl e
      | Inr (a, digest) \<Rightarrow>
          (case verifyQSDM20Signature v (tx_Sender tx) (tx_PublicKey tx) (tx_Signature tx) digest of
             Some e \<Rightarrow> Inl e
           | None \<Rightarrow> Inr a))"

text \<open>Other contracts go to the next checker, which may be absent.\<close>

definition QSDM20AdmissionChecker ::
  "qsdm20_env \<Rightarrow> u64 option option \<Rightarrow> (Tx \<Rightarrow> qsdm20_error option) option \<Rightarrow> Tx \<Rightarrow> qsdm20_error option" where
  "QSDM20AdmissionChecker v nextHeight nxt tx =
     (if tx_ContractID tx \<noteq> QSDM20ContractID then (case nxt of Some f \<Rightarrow> f tx | None \<Rightarrow> None)
      else (case qsdm20HeightFrom (q_activation v) nextHeight of
          Inl e \<Rightarrow> Some e
        | Inr _ \<Rightarrow> (case VerifyQSDM20Tx v tx of Inl e \<Rightarrow> Some e | Inr _ \<Rightarrow> None)))"

section \<open>The token state\<close>

record qsdm20Token =
  qt_id :: string
  qt_symbol :: string
  qt_name :: string
  qt_decimals :: "8 word"
  qt_issuer :: string
  qt_mint :: string
  qt_mintLimit :: "int option"
  qt_maxSupply :: int
  qt_minted :: int
  qt_burned :: int
  qt_createdHeight :: u64
  qt_balances :: "string \<rightharpoonup> int"

record QSDM20StateStore =
  qs_tokens :: "string \<rightharpoonup> qsdm20Token"

definition NewQSDM20StateStore :: QSDM20StateStore where
  "NewQSDM20StateStore = \<lparr>qs_tokens = Map.empty\<rparr>"

definition balanceOf :: "qsdm20Token \<Rightarrow> string \<Rightarrow> int" where
  "balanceOf t address = (case qt_balances t address of Some b \<Rightarrow> b | None \<Rightarrow> 0)"

definition setBalance :: "qsdm20Token \<Rightarrow> string \<Rightarrow> int \<Rightarrow> qsdm20Token" where
  "setBalance t address v =
     (if v = 0 then t\<lparr>qt_balances := (qt_balances t)(address := None)\<rparr>
      else t\<lparr>qt_balances := (qt_balances t)(address \<mapsto> v)\<rparr>)"

definition tokenLocked :: "QSDM20StateStore \<Rightarrow> string \<Rightarrow> qsdm20_error + qsdm20Token" where
  "tokenLocked s i = (case qs_tokens s i of None \<Rightarrow> Inl (UnknownToken i) | Some t \<Rightarrow> Inr t)"

text \<open>What a closure does to the token it captured.\<close>

definition change_token :: "string \<Rightarrow> (qsdm20Token \<Rightarrow> qsdm20Token) \<Rightarrow> QSDM20StateStore \<Rightarrow> QSDM20StateStore" where
  "change_token i f s = s\<lparr>qs_tokens := (qs_tokens s)(i := map_option f (qs_tokens s i))\<rparr>"

definition plan_create ::
  "qsdm20_env \<Rightarrow> QSDM20StateStore \<Rightarrow> QSDM20Action \<Rightarrow> string \<Rightarrow> u64 \<Rightarrow> u64 \<Rightarrow>
     qsdm20_error + (QSDM20StateStore \<Rightarrow> QSDM20StateStore)" where
  "plan_create v s a sender nonce height =
     (let i = QSDM20TokenID (q_sha256 v) sender nonce
      in if qs_tokens s i \<noteq> None then Inl (TokenExists i)
         else (case parseQSDM20Units (qa_MaxSupply a) False of
             Inl e \<Rightarrow> Inl e
           | Inr maxSupply \<Rightarrow>
               (case parseQSDM20Units (qa_InitialSupply a) True of
                  Inl e \<Rightarrow> Inl e
                | Inr initial \<Rightarrow>
                    (case (if qa_Mint a = QSDM20MintOpen
                           then map_sum id Some (parseQSDM20Units (qa_MintLimit a) False) else Inr None) of
                       Inl e \<Rightarrow> Inl e
                     | Inr limit \<Rightarrow>
                         (let tok = setBalance
                               \<lparr>qt_id = i, qt_symbol = qa_Symbol a, qt_name = qa_Name a, qt_decimals = the (qa_Decimals a),
                                qt_issuer = sender, qt_mint = qa_Mint a, qt_mintLimit = limit, qt_maxSupply = maxSupply,
                                qt_minted = initial, qt_burned = 0, qt_createdHeight = height, qt_balances = Map.empty\<rparr>
                               sender initial
                          in Inr (\<lambda>s. s\<lparr>qs_tokens := (qs_tokens s)(i \<mapsto> tok)\<rparr>))))))"

definition plan_transfer ::
  "QSDM20StateStore \<Rightarrow> QSDM20Action \<Rightarrow> string \<Rightarrow> qsdm20_error + (QSDM20StateStore \<Rightarrow> QSDM20StateStore)" where
  "plan_transfer s a sender =
     (case tokenLocked s (qa_Token a) of
        Inl e \<Rightarrow> Inl e
      | Inr tok \<Rightarrow>
          (case parseQSDM20Units (qa_Amount a) False of
             Inl e \<Rightarrow> Inl e
           | Inr amount \<Rightarrow>
               (let from_bal = balanceOf tok sender
                in if from_bal < amount then Inl InsufficientUnits
                   else if qa_To a = sender then Inr (\<lambda>s. s)
                   else (let newFrom = from_bal - amount;
                             newTo = balanceOf tok (qa_To a) + amount
                         in Inr (change_token (qa_Token a)
                              (\<lambda>t. setBalance (setBalance t sender newFrom) (qa_To a) newTo))))))"

definition mint_permission :: "qsdm20Token \<Rightarrow> QSDM20Action \<Rightarrow> string \<Rightarrow> int \<Rightarrow> qsdm20_error option" where
  "mint_permission tok a sender amount =
     (if qt_mint tok = QSDM20MintIssuer then (if sender \<noteq> qt_issuer tok then Some NotIssuer else None)
      else if qt_mint tok = QSDM20MintOpen then
        (if qa_To a \<noteq> sender then Some OpenMintRecipient
         else (case qt_mintLimit tok of
             None \<Rightarrow> Some OverMintLimit
           | Some l \<Rightarrow> if l < amount then Some OverMintLimit else None))
      else Some MintingOff)"

definition plan_mint ::
  "QSDM20StateStore \<Rightarrow> QSDM20Action \<Rightarrow> string \<Rightarrow> qsdm20_error + (QSDM20StateStore \<Rightarrow> QSDM20StateStore)" where
  "plan_mint s a sender =
     (case tokenLocked s (qa_Token a) of
        Inl e \<Rightarrow> Inl e
      | Inr tok \<Rightarrow>
          (case parseQSDM20Units (qa_Amount a) False of
             Inl e \<Rightarrow> Inl e
           | Inr amount \<Rightarrow>
               (case mint_permission tok a sender amount of
                  Some e \<Rightarrow> Inl e
                | None \<Rightarrow>
                    (let newMinted = qt_minted tok + amount
                     in if qt_maxSupply tok < newMinted then Inl OverMaxSupply
                        else (let newTo = balanceOf tok (qa_To a) + amount
                              in Inr (change_token (qa_Token a)
                                   (\<lambda>t. setBalance (t\<lparr>qt_minted := newMinted\<rparr>) (qa_To a) newTo)))))))"

definition plan_burn ::
  "QSDM20StateStore \<Rightarrow> QSDM20Action \<Rightarrow> string \<Rightarrow> qsdm20_error + (QSDM20StateStore \<Rightarrow> QSDM20StateStore)" where
  "plan_burn s a sender =
     (case tokenLocked s (qa_Token a) of
        Inl e \<Rightarrow> Inl e
      | Inr tok \<Rightarrow>
          (case parseQSDM20Units (qa_Amount a) False of
             Inl e \<Rightarrow> Inl e
           | Inr amount \<Rightarrow>
               (let from_bal = balanceOf tok sender
                in if from_bal < amount then Inl InsufficientUnits
                   else (let newFrom = from_bal - amount;
                             newBurned = qt_burned tok + amount
                         in Inr (change_token (qa_Token a)
                              (\<lambda>t. (setBalance t sender newFrom)\<lparr>qt_burned := newBurned\<rparr>))))))"

definition plan_renounce ::
  "QSDM20StateStore \<Rightarrow> QSDM20Action \<Rightarrow> string \<Rightarrow> qsdm20_error + (QSDM20StateStore \<Rightarrow> QSDM20StateStore)" where
  "plan_renounce s a sender =
     (case tokenLocked s (qa_Token a) of
        Inl e \<Rightarrow> Inl e
      | Inr tok \<Rightarrow>
          if sender \<noteq> qt_issuer tok then Inl NotIssuer
          else if qt_mint tok \<noteq> QSDM20MintIssuer \<and> qt_mint tok \<noteq> QSDM20MintOpen then Inl MintingOff
          else (let newMax = qt_minted tok
                in Inr (change_token (qa_Token a)
                     (\<lambda>t. t\<lparr>qt_mint := QSDM20MintNone, qt_mintLimit := None, qt_maxSupply := newMax\<rparr>))))"

definition planLocked ::
  "qsdm20_env \<Rightarrow> QSDM20StateStore \<Rightarrow> QSDM20Action \<Rightarrow> string \<Rightarrow> u64 \<Rightarrow> u64 \<Rightarrow>
     qsdm20_error + (QSDM20StateStore \<Rightarrow> QSDM20StateStore)" where
  "planLocked v s a sender nonce height =
     (case ValidateQSDM20Action a of
        Some e \<Rightarrow> Inl e
      | None \<Rightarrow>
          if qa_Action a = QSDM20ActionCreate then plan_create v s a sender nonce height
          else if qa_Action a = QSDM20ActionTransfer then plan_transfer s a sender
          else if qa_Action a = QSDM20ActionMint then plan_mint s a sender
          else if qa_Action a = QSDM20ActionBurn then plan_burn s a sender
          else if qa_Action a = QSDM20ActionRenounce then plan_renounce s a sender
          else Inl QSDM20Field)"

section \<open>Applying transactions\<close>

definition TokenApplyHistoricalTx ::
  "qsdm20_env \<Rightarrow> QSDM20StateStore \<Rightarrow> Tx \<Rightarrow> u64 \<Rightarrow> QSDM20StateStore \<times> qsdm20_error option" where
  "TokenApplyHistoricalTx v s tx height =
     (case checkQSDM20Active (q_activation v) height of
        Some e \<Rightarrow> (s, Some e)
      | None \<Rightarrow>
          (case VerifyQSDM20Tx v tx of
             Inl e \<Rightarrow> (s, Some e)
           | Inr a \<Rightarrow>
               (case planLocked v s a (tx_Sender tx) (tx_Nonce tx) height of
                  Inl e \<Rightarrow> (s, Some e)
                | Inr commit \<Rightarrow> (commit s, None))))"

definition TokenApplyTx :: "qsdm20_env \<Rightarrow> QSDM20StateStore \<Rightarrow> Tx \<Rightarrow> QSDM20StateStore \<times> qsdm20_error option" where
  "TokenApplyTx v s tx = TokenApplyHistoricalTx v s tx 0"

definition ApplyEconomicTxAtHeight ::
  "qsdm20_env \<Rightarrow> QSDM20StateStore \<times> AccountStore \<Rightarrow> Tx \<Rightarrow> u64 \<Rightarrow>
     (QSDM20StateStore \<times> AccountStore) \<times> qsdm20_error option" where
  "ApplyEconomicTxAtHeight v w tx height =
     (let (s, accounts) = w
      in case checkQSDM20Active (q_activation v) height of
           Some e \<Rightarrow> (w, Some e)
         | None \<Rightarrow>
             (case VerifyQSDM20Tx v tx of
                Inl e \<Rightarrow> (w, Some e)
              | Inr a \<Rightarrow>
                  (case planLocked v s a (tx_Sender tx) (tx_Nonce tx) height of
                     Inl e \<Rightarrow> (w, Some e)
                   | Inr commit \<Rightarrow>
                       (case ChargeAndBumpNonce accounts (tx_Sender tx) (tx_Fee tx) (tx_Nonce tx) of
                          (acc1, Some e) \<Rightarrow> ((s, acc1), Some (TokenCharge e))
                        | (acc1, None) \<Rightarrow> ((commit s, acc1), None)))))"

definition CheckEconomicTx ::
  "qsdm20_env \<Rightarrow> QSDM20StateStore \<Rightarrow> Tx \<Rightarrow> AccountStore option \<Rightarrow> qsdm20_error option" where
  "CheckEconomicTx v s tx accounts =
     (case VerifyQSDM20Tx v tx of
        Inl e \<Rightarrow> Some e
      | Inr a \<Rightarrow>
          (case planLocked v s a (tx_Sender tx) (tx_Nonce tx) 0 of
             Inl e \<Rightarrow> Some e
           | Inr _ \<Rightarrow>
               (case accounts of
                  None \<Rightarrow> None
                | Some acs \<Rightarrow>
                    (case as_accounts acs (tx_Sender tx) of
                       None \<Rightarrow> Some (TokenCharge (AccountNotFound (tx_Sender tx)))
                     | Some acc \<Rightarrow>
                         if acc_Nonce acc \<noteq> tx_Nonce tx
                         then Some (TokenCharge (NonceMismatch (tx_Sender tx) (acc_Nonce acc) (tx_Nonce tx)))
                         else if acc_Balance acc < tx_Fee tx then Some (TokenCharge InsufficientBalance)
                         else None))))"

section \<open>Queries, copies and the state root\<close>

definition big_String :: "int \<Rightarrow> string" where
  "big_String n = (if n < 0 then CHR ''-'' # show_nat (nat (- n)) else show_nat (nat n))"

definition qsdm20UnitsString :: "int option \<Rightarrow> string" where
  "qsdm20UnitsString u = (case u of None \<Rightarrow> [] | Some n \<Rightarrow> big_String n)"

record QSDM20Token =
  tv_ID :: string
  tv_Symbol :: string
  tv_Name :: string
  tv_Decimals :: "8 word"
  tv_Issuer :: string
  tv_Mint :: string
  tv_MintLimit :: string
  tv_MaxSupply :: string
  tv_Minted :: string
  tv_Burned :: string
  tv_Supply :: string
  tv_Holders :: nat
  tv_CreatedHeight :: u64

definition token_view :: "qsdm20Token \<Rightarrow> QSDM20Token" where
  "token_view t = \<lparr>tv_ID = qt_id t, tv_Symbol = qt_symbol t, tv_Name = qt_name t, tv_Decimals = qt_decimals t,
     tv_Issuer = qt_issuer t, tv_Mint = qt_mint t, tv_MintLimit = qsdm20UnitsString (qt_mintLimit t),
     tv_MaxSupply = big_String (qt_maxSupply t), tv_Minted = big_String (qt_minted t),
     tv_Burned = big_String (qt_burned t), tv_Supply = big_String (qt_minted t - qt_burned t),
     tv_Holders = card (dom (qt_balances t)), tv_CreatedHeight = qt_createdHeight t\<rparr>"

definition TokenCount :: "QSDM20StateStore \<Rightarrow> nat" where
  "TokenCount s = card (dom (qs_tokens s))"

definition TokenGet :: "QSDM20StateStore \<Rightarrow> string \<Rightarrow> QSDM20Token option" where
  "TokenGet s i = map_option token_view (qs_tokens s i)"

text \<open>The order of a Go map's iteration is the argument \<open>ks\<close>.\<close>

definition newest_before :: "QSDM20Token \<Rightarrow> QSDM20Token \<Rightarrow> bool" where
  "newest_before x y \<longleftrightarrow>
     (if tv_CreatedHeight x \<noteq> tv_CreatedHeight y then tv_CreatedHeight y < tv_CreatedHeight x else tv_ID x < tv_ID y)"

definition TokensList :: "QSDM20StateStore \<Rightarrow> string list \<Rightarrow> QSDM20Token list" where
  "TokensList s ks = sort_slice newest_before (map (\<lambda>k. token_view (the (qs_tokens s k))) ks)"

record QSDM20Holder =
  qh_Address :: string
  qh_Balance :: string

definition richer_before :: "string \<times> int \<Rightarrow> string \<times> int \<Rightarrow> bool" where
  "richer_before x y \<longleftrightarrow> (if snd x \<noteq> snd y then snd y < snd x else fst x < fst y)"

definition Holders :: "QSDM20StateStore \<Rightarrow> string \<Rightarrow> string list \<Rightarrow> QSDM20Holder list option" where
  "Holders s i ks =
     (case qs_tokens s i of
        None \<Rightarrow> None
      | Some tok \<Rightarrow>
          Some (map (\<lambda>(a, b). \<lparr>qh_Address = a, qh_Balance = big_String b\<rparr>)
            (sort_slice richer_before (map (\<lambda>k. (k, the (qt_balances tok k))) ks))))"

record QSDM20Balance =
  qb_Token :: string
  qb_Symbol :: string
  qb_Name :: string
  qb_Decimals :: "8 word"
  qb_Balance :: string

definition BalancesOf :: "QSDM20StateStore \<Rightarrow> string list \<Rightarrow> string \<Rightarrow> QSDM20Balance list" where
  "BalancesOf s ks address =
     sort_slice (\<lambda>x y. qb_Token x < qb_Token y)
       (List.map_filter (\<lambda>k. let tok = the (qs_tokens s k) in
          map_option (\<lambda>b. \<lparr>qb_Token = qt_id tok, qb_Symbol = qt_symbol tok, qb_Name = qt_name tok,
             qb_Decimals = qt_decimals tok, qb_Balance = big_String b\<rparr>) (qt_balances tok address)) ks)"

text \<open>The amounts are values, so the deep copy of a token is the token and that of a store its map.\<close>

definition TokensClone :: "QSDM20StateStore \<Rightarrow> QSDM20StateStore" where
  "TokensClone s = \<lparr>qs_tokens = map_option (\<lambda>t. t) \<circ> qs_tokens s\<rparr>"

definition TokensRestore :: "QSDM20StateStore \<Rightarrow> QSDM20StateStore \<Rightarrow> QSDM20StateStore" where
  "TokensRestore s other = s\<lparr>qs_tokens := map_option (\<lambda>t. t) \<circ> qs_tokens other\<rparr>"

definition token_listing :: "qsdm20Token \<Rightarrow> string" where
  "token_listing t =
     writeTagged ''token'' (qt_id t) @ writeTagged ''symbol'' (qt_symbol t) @ writeTagged ''name'' (qt_name t) @
     writeTagged ''decimals'' (FormatUint (qt_decimals t)) @ writeTagged ''issuer'' (qt_issuer t) @
     writeTagged ''mint'' (qt_mint t) @ writeTagged ''mint_limit'' (qsdm20UnitsString (qt_mintLimit t)) @
     writeTagged ''max_supply'' (big_String (qt_maxSupply t)) @ writeTagged ''minted'' (big_String (qt_minted t)) @
     writeTagged ''burned'' (big_String (qt_burned t)) @
     writeTagged ''created_height'' (FormatUint (qt_createdHeight t))"

definition holder_listing :: "qsdm20Token \<Rightarrow> string \<Rightarrow> string" where
  "holder_listing t a = writeTagged ''holder'' a @ writeTagged ''balance'' (big_String (the (qt_balances t a)))"

definition holders_of :: "qsdm20Token \<Rightarrow> string list \<Rightarrow> string list" where
  "holders_of t hs = sort (filter (\<lambda>a. 0 < the (qt_balances t a)) hs)"

definition state_listing :: "QSDM20StateStore \<Rightarrow> string list \<Rightarrow> (string \<Rightarrow> string list) \<Rightarrow> string" where
  "state_listing s ks hs =
     writeTagged ''domain'' qsdm20StateDomain @
     concat (map (\<lambda>i. let tok = the (qs_tokens s i) in
       token_listing tok @ concat (map (holder_listing tok) (holders_of tok (hs i)))) (sort ks))"

definition TokenStateRoot ::
  "(string \<Rightarrow> string) \<Rightarrow> QSDM20StateStore \<Rightarrow> string list \<Rightarrow> (string \<Rightarrow> string list) \<Rightarrow> string" where
  "TokenStateRoot sha256 s ks hs = EncodeToString (sha256 (state_listing s ks hs))"

section \<open>Unit strings have one spelling\<close>

lemma digit_char_of: "d < 10 \<Longrightarrow> digit_char (char_of (48 + d))"
  "d < 10 \<Longrightarrow> of_char (char_of (48 + d) :: char) - 48 = (d::nat)"
  by (auto simp: digit_char_def take_bit_eq_mod)

lemma zero_char: "of_char c = (48::nat) \<longleftrightarrow> c = CHR ''0''"
proof
  assume "of_char c = (48::nat)"
  then have "of_char c = (of_char (CHR ''0'') :: nat)" by simp
  then show "c = CHR ''0''" by (simp only: of_char_eq_iff)
qed simp

lemma show_nat_all_digits: "list_all digit_char (show_nat n)"
proof (induction n rule: show_nat.induct)
  case (1 n)
  then show ?case
    by (cases "n < 10") (simp_all add: show_nat_small show_nat_large digit_char_of)
qed

lemma SetString10_show: "SetString10 (show_nat n) = Some (int n)"
proof -
  have "foldl (\<lambda>v c. 10 * v + int (of_char c - 48)) 0 (show_nat n) = int n"
  proof (induction n rule: show_nat.induct)
    case (1 n)
    have "10 * int (n div 10) + int (n mod 10) = int n" by presburger
    with 1 show ?case
      using digit_char_of(2) [of n] digit_char_of(2) [of "n mod 10"]
      by (cases "n < 10") (simp_all add: show_nat_small show_nat_large)
  qed
  then show ?thesis by (simp add: SetString10_def show_nat_all_digits show_nat_nonempty)
qed

lemma show_nat_head: "10 \<le> n \<Longrightarrow> hd (show_nat n) \<noteq> CHR ''0''"
proof (induction n rule: show_nat.induct)
  case (1 n)
  then have n: "show_nat n = show_nat (n div 10) @ [char_of (48 + n mod 10)]" by (simp add: show_nat_large)
  show ?case
  proof (cases "10 \<le> n div 10")
    case True
    with 1 n show ?thesis by (simp add: show_nat_nonempty)
  next
    case False
    then have d: "n div 10 < 10" "0 < n div 10" using 1(2) by simp_all
    then have "of_char (char_of (48 + n div 10) :: char) \<noteq> (48::nat)" by (auto simp: take_bit_eq_mod)
    then have "char_of (48 + n div 10) \<noteq> CHR ''0''" using zero_char by blast
    then show ?thesis using n d by (simp add: show_nat_small)
  qed
qed

lemma show_nat_length_mono: "m \<le> n \<Longrightarrow> length (show_nat m) \<le> length (show_nat n)"
proof (induction n arbitrary: m rule: show_nat.induct)
  case (1 n)
  show ?case
  proof (cases "m < 10")
    case True
    then show ?thesis using show_nat_nonempty [of n] by (simp add: show_nat_small Suc_leI)
  next
    case False
    with 1 have "length (show_nat (m div 10)) \<le> length (show_nat (n div 10))"
      by (intro 1(1)) (simp_all add: div_le_mono)
    with False 1(2) show ?thesis by (simp add: show_nat_large)
  qed
qed

lemma digits_value_pos:
  assumes "list_all digit_char s" and "s \<noteq> []" and "hd s \<noteq> CHR ''0''"
  shows "0 < foldl (\<lambda>v c. 10 * v + int (of_char c - 48)) 0 s"
proof -
  have grow: "0 < (v::int) \<Longrightarrow> 0 < foldl (\<lambda>v c. 10 * v + int (of_char c - 48)) v t" for v t
    by (induction t arbitrary: v) (simp_all add: add_pos_nonneg)
  obtain c t where s: "s = c # t" using assms(2) by (cases s) auto
  have "of_char c \<noteq> (48::nat)" using assms(3) s by (simp add: zero_char)
  then have "0 < int (of_char c - 48)" using assms(1) s by (auto simp: digit_char_def)
  then show ?thesis using grow [of "int (of_char c - 48)" t] s by simp
qed

lemma show_digits_value:
  assumes "list_all digit_char s" and "s \<noteq> []" and "length s = 1 \<or> hd s \<noteq> CHR ''0''"
  shows "show_nat (nat (foldl (\<lambda>v c. 10 * v + int (of_char c - 48)) 0 s)) = s"
  using assms
proof (induction s rule: rev_induct)
  case (snoc c xs)
  let ?val = "foldl (\<lambda>v c. 10 * v + int (of_char c - 48)) 0"
  let ?d = "of_char c - (48::nat)"
  from snoc.prems(1) have d: "?d < 10" "48 + ?d = of_char c" by (auto simp: digit_char_def)
  then have c: "char_of (48 + ?d) = c" by simp
  show ?case
  proof (cases "xs = []")
    case True
    then show ?thesis using show_nat_small [OF d(1)] c by (simp del: of_nat_diff)
  next
    case False
    with snoc.prems have xs: "list_all digit_char xs" "hd xs \<noteq> CHR ''0''" by simp_all
    then have pos: "0 < ?val xs" using digits_value_pos False by blast
    have v: "nat (?val (xs @ [c])) = 10 * nat (?val xs) + ?d" using pos by (simp add: nat_add_distrib nat_mult_distrib)
    have "show_nat (nat (?val xs)) = xs" using snoc.IH xs False by simp
    moreover have "\<not> nat (?val (xs @ [c])) < 10" using v pos by simp
    moreover have "(10 * w + e) div 10 = w" "(10 * w + e) mod 10 = e" if "e < 10" for w e :: nat using that by simp_all
    then have "nat (?val (xs @ [c])) div 10 = nat (?val xs)" "nat (?val (xs @ [c])) mod 10 = ?d"
      unfolding v using d(1) by blast+
    ultimately show ?thesis using c show_nat_large by simp
  qed
qed simp

lemma parse_units_iff:
  "parseQSDM20Units s allowZero = Inr v \<longleftrightarrow>
     s = show_nat (nat v) \<and> (0 < v \<or> (v = 0 \<and> allowZero)) \<and> v \<le> 2 ^ 256 - 1"
proof
  assume p: "parseQSDM20Units s allowZero = Inr v"
  let ?val = "foldl (\<lambda>v c. 10 * v + int (of_char c - 48)) 0"
  from p have f: "s \<noteq> []" "list_all digit_char s" "\<not> (1 < length s \<and> hd s = CHR ''0'')" "v = ?val s"
    "\<not> (v = 0 \<and> \<not> allowZero)" "v \<le> 2 ^ 256 - 1"
    by (auto simp: parseQSDM20Units_def SetString10_def qsdm20MaxUnits_def split: if_splits)
  have "show_nat (nat v) = s" unfolding f(4)
    using f(1,2,3) by (intro show_digits_value) (auto simp: not_less le_Suc_eq Suc_le_eq)
  moreover have "0 \<le> v"
  proof -
    have "0 \<le> foldl (\<lambda>v c. 10 * v + int (of_char c - 48)) w t" if "0 \<le> w" for w t
      using that by (induction t arbitrary: w) simp_all
    then show ?thesis using f(4) by simp
  qed
  ultimately show "s = show_nat (nat v) \<and> (0 < v \<or> (v = 0 \<and> allowZero)) \<and> v \<le> 2 ^ 256 - 1" using f(5,6) by auto
next
  assume "s = show_nat (nat v) \<and> (0 < v \<or> (v = 0 \<and> allowZero)) \<and> v \<le> 2 ^ 256 - 1"
  then have s: "s = show_nat (nat v)" and v: "0 \<le> v" "v \<le> qsdm20MaxUnits" "\<not> (v = 0 \<and> \<not> allowZero)"
    by (auto simp: qsdm20MaxUnits_def)
  have "length s \<le> qsdm20MaxUnitDigits"
    unfolding s qsdm20MaxUnitDigits_def using v by (intro show_nat_length_mono nat_mono)
  moreover have "\<not> (1 < length s \<and> hd s = CHR ''0'')"
    using show_nat_head [of "nat v"] show_nat_length [of "nat v"] s by (cases "nat v < 10") auto
  ultimately show "parseQSDM20Units s allowZero = Inr v"
    using v s by (simp add: parseQSDM20Units_def show_nat_nonempty show_nat_all_digits SetString10_show)
qed

text \<open>
  A unit string is accepted exactly when it is the decimal numeral of its value, without sign or
  leading zero, and that value is at most two to the 256th less one and positive (or zero where zero is
  allowed): every amount has one spelling, and every amount in range has one.
\<close>

theorem unit_strings_canonical:
  "parseQSDM20Units s allowZero = Inr v \<longleftrightarrow>
     s = show_nat (nat v) \<and> (0 < v \<or> (v = 0 \<and> allowZero)) \<and> v \<le> 2 ^ 256 - 1"
  by (rule parse_units_iff)

section \<open>The encodings are unambiguous\<close>

lemma writeTagged_unique:
  assumes "CHR '':'' \<notin> set t" and "CHR '':'' \<notin> set t'" and "writeTagged t x @ us = writeTagged t' y @ vs"
  shows "t = t'" and "x = y" and "us = vs"
proof -
  from assms(3) have "t @ CHR '':'' # show_nat (length x) @ CHR '':'' # x @ us =
      t' @ CHR '':'' # show_nat (length y) @ CHR '':'' # y @ vs" by (simp add: writeTagged_def)
  from field_unique [OF assms(1,2) this] have t: "t = t'"
    and e: "show_nat (length x) @ CHR '':'' # x @ us = show_nat (length y) @ CHR '':'' # y @ vs" by simp_all
  from field_unique [OF show_nat_sep(1) show_nat_sep(1) e]
  have l: "length x = length y" and "x @ us = y @ vs" using show_nat_inj by blast+
  with t show "t = t'" and "x = y" and "us = vs" by simp_all
qed

lemma tagged_eq [simp]:
  assumes "CHR '':'' \<notin> set t"
  shows "writeTagged t x @ us = writeTagged t y @ vs \<longleftrightarrow> x = y \<and> us = vs"
    and "writeTagged t x = writeTagged t y \<longleftrightarrow> x = y"
  using writeTagged_unique [OF assms assms, of x us y vs] writeTagged_unique [OF assms assms, of x "[]" y "[]"] by auto

lemma tagged_neq [simp]:
  assumes "CHR '':'' \<notin> set t" and "CHR '':'' \<notin> set t'" and "t \<noteq> t'"
  shows "writeTagged t x @ us \<noteq> writeTagged t' y @ vs"
  using writeTagged_unique(1) [OF assms(1,2)] assms(3) by blast

lemma FormatUint_inj [simp]: "FormatUint a = FormatUint b \<longleftrightarrow> a = b"
  using show_nat_inj [of "unat a" "unat b"] by (auto simp: FormatUint_def word_unat_eq_iff)

lemma FormatUint_nonempty [simp]: "FormatUint a \<noteq> []"
  by (simp add: FormatUint_def show_nat_nonempty)

lemma optional_number_inj: 
  "(case d of None \<Rightarrow> [] | Some n \<Rightarrow> FormatUint n) = (case e of None \<Rightarrow> [] | Some n \<Rightarrow> FormatUint n) \<longleftrightarrow> d = e"
  using FormatUint_nonempty by (auto split: option.split) (metis FormatUint_nonempty)+

lemmas token_actions = QSDM20ActionCreate_def QSDM20ActionTransfer_def QSDM20ActionMint_def QSDM20ActionBurn_def
  QSDM20ActionRenounce_def

lemma valid_action_cases:
  assumes "ValidateQSDM20Action a = None"
  obtains (create) "qa_Action a = QSDM20ActionCreate" "validate_create a = None"
      "qa_Token a = []" "qa_To a = []" "qa_Amount a = []"
    | (move) "qa_Action a = QSDM20ActionTransfer \<or> qa_Action a = QSDM20ActionMint" "\<not> hasQSDM20CreateFields a"
        "units_error (qa_Amount a) = None"
    | (burn) "qa_Action a = QSDM20ActionBurn" "\<not> hasQSDM20CreateFields a" "qa_To a = []" "units_error (qa_Amount a) = None"
    | (renounce) "qa_Action a = QSDM20ActionRenounce" "\<not> hasQSDM20CreateFields a" "qa_To a = []" "qa_Amount a = []"
  using assms unfolding ValidateQSDM20Action_def
  by (auto split: if_splits simp: validate_create_def)

lemma signing_preimage_inj:
  assumes "ValidateQSDM20Action a = None" and "ValidateQSDM20Action b = None"
    and "qsdm20SigningPreimage s n f a = qsdm20SigningPreimage s' n' f' b"
  shows "s = s' \<and> n = n' \<and> f = f' \<and> a = b"
proof -
  from assms(3) have hd: "s = s'" "n = n'" "f = f'" "qa_Action a = qa_Action b" and tl: "signing_tail a = signing_tail b"
    by (simp_all add: qsdm20SigningPreimage_def)
  have "a = b" using assms(1)
  proof (cases rule: valid_action_cases)
    case create
    with assms(2) hd(4) have "qa_Token b = []" "qa_To b = []" "qa_Amount b = []"
      by (auto elim: valid_action_cases simp: token_actions)
    with create hd(4) tl show ?thesis
      by (intro QSDM20Action.equality) (simp_all add: signing_tail_def optional_number_inj)
  next
    case move
    with assms(2) hd(4) have "\<not> hasQSDM20CreateFields b"
      by (auto elim: valid_action_cases simp: token_actions)
    with move hd(4) tl show ?thesis
      by (intro QSDM20Action.equality) (auto simp: signing_tail_def hasQSDM20CreateFields_def token_actions)
  next
    case burn
    with assms(2) hd(4) have "\<not> hasQSDM20CreateFields b" "qa_To b = []"
      by (auto elim: valid_action_cases simp: token_actions)
    with burn hd(4) tl show ?thesis
      by (intro QSDM20Action.equality) (auto simp: signing_tail_def hasQSDM20CreateFields_def token_actions)
  next
    case renounce
    with assms(2) hd(4) have "\<not> hasQSDM20CreateFields b" "qa_To b = []" "qa_Amount b = []"
      by (auto elim: valid_action_cases simp: token_actions)
    with renounce hd(4) tl show ?thesis
      by (intro QSDM20Action.equality) (auto simp: signing_tail_def hasQSDM20CreateFields_def token_actions)
  qed
  with hd show ?thesis by simp
qed

lemma decode_payload_facts:
  assumes "DecodeQSDM20Payload v p = Inr a"
  shows "q_marshal v a = Some p" and "ValidateQSDM20Action a = None"
  using assms by (simp_all add: DecodeQSDM20Payload_def split: option.splits if_splits)

lemma decode_tx_facts:
  assumes "decodeQSDM20Tx v tx = Inr (a, d)"
  obtains f where "qsdm20FeeDust (q_oob v) (tx_Fee tx) = Inr f" "ValidateQSDM20Action a = None"
    "q_marshal v a = Some (tx_Payload tx)" "Float64bits (DustToCell f) = Float64bits (tx_Fee tx)"
    "d = q_sha256 v (qsdm20SigningPreimage (tx_Sender tx) (tx_Nonce tx) f a)"
    "tx_ID tx = QSDM20TxID d" "tx_ContractID tx = QSDM20ContractID" "validQSDM20Hex64 (tx_Sender tx)"
proof -
  from assms obtain f where f: "qsdm20FeeDust (q_oob v) (tx_Fee tx) = Inr f"
    by (cases "qsdm20FeeDust (q_oob v) (tx_Fee tx)") (simp_all add: decodeQSDM20Tx_def split: if_splits)
  with assms obtain b where b: "DecodeQSDM20Payload v (tx_Payload tx) = Inr b"
    by (cases "DecodeQSDM20Payload v (tx_Payload tx)") (simp_all add: decodeQSDM20Tx_def split: if_splits)
  let ?d = "QSDM20SigningDigest (q_sha256 v) (tx_Sender tx) (tx_Nonce tx) f b"
  from assms have c: "tx_ContractID tx = QSDM20ContractID" "validQSDM20Hex64 (tx_Sender tx)"
    by (simp_all add: decodeQSDM20Tx_def split: if_splits)
  from assms f b have "(if tx_ID tx \<noteq> QSDM20TxID ?d then Inl QSDM20Field else Inr (b, ?d)) = Inr (a, d)"
    by (simp only: decodeQSDM20Tx_def Let_def sum.case split: if_splits) simp_all
  then have "b = a" "d = ?d" "tx_ID tx = QSDM20TxID ?d" by (auto split: if_splits)
  then have "b = a" "d = q_sha256 v (qsdm20SigningPreimage (tx_Sender tx) (tx_Nonce tx) f a)" "tx_ID tx = QSDM20TxID d"
    by (simp_all only: QSDM20SigningDigest_def)
  moreover from f have "Float64bits (DustToCell f) = Float64bits (tx_Fee tx)"
    by (simp add: qsdm20FeeDust_def split: if_splits sum.splits)
  ultimately show thesis using that f c decode_payload_facts [OF b] by blast
qed

definition tx_preimage :: "qsdm20_env \<Rightarrow> Tx \<Rightarrow> QSDM20Action \<Rightarrow> string" where
  "tx_preimage v tx a = qsdm20SigningPreimage (tx_Sender tx) (tx_Nonce tx)
     (case qsdm20FeeDust (q_oob v) (tx_Fee tx) of Inr f \<Rightarrow> f | Inl _ \<Rightarrow> 0) a"

text \<open>
  The id of a token transaction fixes all of it: two transactions that pass the stateless checks
  under the same id, on whose signing preimages SHA-256 does not collide, have the same sender, nonce,
  fee and payload and carry the same action.
\<close>

theorem token_tx_id_binds:
  assumes "decodeQSDM20Tx v tx = Inr (a, d)" and "decodeQSDM20Tx v tx' = Inr (a', d')" and "tx_ID tx = tx_ID tx'"
    and "float_ok (tx_Fee tx)" and "float_ok (tx_Fee tx')"
    and "inj_on (q_sha256 v) {tx_preimage v tx a, tx_preimage v tx' a'}"
  shows "a = a' \<and> tx_Sender tx = tx_Sender tx' \<and> tx_Nonce tx = tx_Nonce tx' \<and> tx_Fee tx = tx_Fee tx' \<and>
    tx_Payload tx = tx_Payload tx'"
proof -
  obtain f where fee: "qsdm20FeeDust (q_oob v) (tx_Fee tx) = Inr f" and f: "ValidateQSDM20Action a = None"
    "q_marshal v a = Some (tx_Payload tx)" "Float64bits (DustToCell f) = Float64bits (tx_Fee tx)"
    "d = q_sha256 v (qsdm20SigningPreimage (tx_Sender tx) (tx_Nonce tx) f a)" "tx_ID tx = QSDM20TxID d"
    by (rule decode_tx_facts [OF assms(1)])
  obtain f' where fee': "qsdm20FeeDust (q_oob v) (tx_Fee tx') = Inr f'" and f': "ValidateQSDM20Action a' = None"
    "q_marshal v a' = Some (tx_Payload tx')" "Float64bits (DustToCell f') = Float64bits (tx_Fee tx')"
    "d' = q_sha256 v (qsdm20SigningPreimage (tx_Sender tx') (tx_Nonce tx') f' a')" "tx_ID tx' = QSDM20TxID d'"
    by (rule decode_tx_facts [OF assms(2)])
  have "EncodeToString d = EncodeToString d'" using f(5) f'(5) assms(3) by (simp only: QSDM20TxID_def same_append_eq)
  then have "d = d'" by (rule EncodeToString_inj)
  then have "qsdm20SigningPreimage (tx_Sender tx) (tx_Nonce tx) f a = qsdm20SigningPreimage (tx_Sender tx') (tx_Nonce tx') f' a'"
    using f(4) f'(4) inj_onD [OF assms(6), of "tx_preimage v tx a" "tx_preimage v tx' a'"]
    by (simp only: tx_preimage_def fee fee' sum.case insertI1 insertI2 simp_thms)
  from signing_preimage_inj [OF f(1) f'(1) this] have "tx_Sender tx = tx_Sender tx'" "tx_Nonce tx = tx_Nonce tx'" "f = f'" "a = a'"
    by simp_all
  moreover from this f(3) f'(3) have "tx_Fee tx = tx_Fee tx'" by (intro Float64bits_inj [OF assms(4,5)]) simp
  ultimately show ?thesis using f(2) f'(2) by simp
qed

section \<open>Every unit is accounted for\<close>

definition units_held :: "qsdm20Token \<Rightarrow> nat" where
  "units_held t = sum_over nat (qt_balances t)"

definition token_ok :: "string \<Rightarrow> qsdm20Token \<Rightarrow> bool" where
  "token_ok i t \<longleftrightarrow> qt_id t = i \<and> finite (dom (qt_balances t)) \<and> (\<forall>a b. qt_balances t a = Some b \<longrightarrow> 0 < b) \<and>
     int (units_held t) = qt_minted t - qt_burned t \<and> 0 \<le> qt_burned t \<and>
     qt_minted t \<le> qt_maxSupply t \<and> qt_maxSupply t \<le> qsdm20MaxUnits \<and>
     qt_mint t \<in> {QSDM20MintNone, QSDM20MintIssuer, QSDM20MintOpen} \<and>
     (qt_mint t = QSDM20MintNone \<longrightarrow> qt_minted t = qt_maxSupply t) \<and>
     (qt_mintLimit t \<noteq> None \<longleftrightarrow> qt_mint t = QSDM20MintOpen)"

definition tokens_ok :: "QSDM20StateStore \<Rightarrow> bool" where
  "tokens_ok s \<longleftrightarrow> finite (dom (qs_tokens s)) \<and> (\<forall>i t. qs_tokens s i = Some t \<longrightarrow> token_ok i t)"

lemmas token_mints = QSDM20MintNone_def QSDM20MintIssuer_def QSDM20MintOpen_def

lemma setBalance_frame [simp]:
  "qt_id (setBalance t a x) = qt_id t" "qt_minted (setBalance t a x) = qt_minted t" "qt_burned (setBalance t a x) = qt_burned t"
  "qt_maxSupply (setBalance t a x) = qt_maxSupply t" "qt_mint (setBalance t a x) = qt_mint t"
  "qt_mintLimit (setBalance t a x) = qt_mintLimit t" "qt_issuer (setBalance t a x) = qt_issuer t"
  "qt_symbol (setBalance t a x) = qt_symbol t" "qt_name (setBalance t a x) = qt_name t"
  "qt_decimals (setBalance t a x) = qt_decimals t" "qt_createdHeight (setBalance t a x) = qt_createdHeight t"
  by (simp_all add: setBalance_def)

lemma balanceOf_setBalance [simp]: "balanceOf (setBalance t a x) b = (if b = a then x else balanceOf t b)"
  by (simp add: balanceOf_def setBalance_def)

lemma setBalance_positive:
  assumes "\<forall>a b. qt_balances t a = Some b \<longrightarrow> 0 < b" and "0 \<le> x"
  shows "\<forall>a b. qt_balances (setBalance t c x) a = Some b \<longrightarrow> 0 < b"
  using assms by (simp add: setBalance_def)

lemma setBalance_finite [simp]: "finite (dom (qt_balances (setBalance t a x))) \<longleftrightarrow> finite (dom (qt_balances t))"
  by (simp add: setBalance_def)

lemma setBalance_held:
  assumes "finite (dom (qt_balances t))" and "\<forall>a b. qt_balances t a = Some b \<longrightarrow> 0 < b" and "0 \<le> x"
  shows "int (units_held (setBalance t a x)) = int (units_held t) - balanceOf t a + x"
proof -
  have b: "int (case qt_balances t a of None \<Rightarrow> 0 | Some w \<Rightarrow> nat w) = balanceOf t a"
    using assms(2) by (auto simp: balanceOf_def split: option.split) (meson nat_0_le order_less_imp_le)
  show ?thesis
  proof (cases "x = 0")
    case True
    then show ?thesis using sum_over_del [OF assms(1), of nat a] b by (simp add: setBalance_def units_held_def)
  next
    case False
    then show ?thesis using sum_over_upd [OF assms(1), of nat a x] b assms(3) by (simp add: setBalance_def units_held_def)
  qed
qed

lemma balanceOf_nonneg:
  assumes "\<forall>a b. qt_balances t a = Some b \<longrightarrow> 0 < b"
  shows "0 \<le> balanceOf t a"
  using assms by (auto simp: balanceOf_def split: option.split intro: order_less_imp_le)

lemma held_unaffected [simp]:
  "units_held (t\<lparr>qt_minted := m\<rparr>) = units_held t" "units_held (t\<lparr>qt_burned := m\<rparr>) = units_held t"
  "balanceOf (t\<lparr>qt_minted := m\<rparr>) a = balanceOf t a" "balanceOf (t\<lparr>qt_burned := m\<rparr>) a = balanceOf t a"
  by (simp_all add: units_held_def balanceOf_def)


lemma units_positive:
  assumes "parseQSDM20Units s z = Inr x"
  shows "0 \<le> x" and "x \<le> qsdm20MaxUnits" and "\<not> z \<Longrightarrow> 0 < x"
  using assms by (auto simp: parse_units_iff qsdm20MaxUnits_def)

lemma created_token_ok:
  assumes "validate_create a = None" and "plan_create v s a sender n h = Inr commit"
  obtains t where "qs_tokens s (QSDM20TokenID (q_sha256 v) sender n) = None"
    and "commit = (\<lambda>s. s\<lparr>qs_tokens := (qs_tokens s)(QSDM20TokenID (q_sha256 v) sender n \<mapsto> t)\<rparr>)"
    and "token_ok (QSDM20TokenID (q_sha256 v) sender n) t"
    and "qt_issuer t = sender" and "\<And>b. b \<noteq> sender \<Longrightarrow> balanceOf t b = 0"
proof -
  let ?i = "QSDM20TokenID (q_sha256 v) sender n"
  from assms(1) obtain mx ini where p: "parseQSDM20Units (qa_MaxSupply a) False = Inr mx"
    "parseQSDM20Units (qa_InitialSupply a) True = Inr ini" "ini \<le> mx"
    and m: "qa_Mint a = QSDM20MintNone \<and> ini = mx \<or> qa_Mint a = QSDM20MintIssuer \<or>
      qa_Mint a = QSDM20MintOpen \<and> units_error (qa_MintLimit a) = None"
    by (auto simp: validate_create_def not_less split: if_splits sum.splits)
  let ?limit = "if qa_Mint a = QSDM20MintOpen then Some (projr (parseQSDM20Units (qa_MintLimit a) False)) else None"
  define t0 where "t0 = \<lparr>qt_id = ?i, qt_symbol = qa_Symbol a, qt_name = qa_Name a, qt_decimals = the (qa_Decimals a),
     qt_issuer = sender, qt_mint = qa_Mint a, qt_mintLimit = ?limit, qt_maxSupply = mx,
     qt_minted = ini, qt_burned = 0, qt_createdHeight = h, qt_balances = Map.empty\<rparr>"
  have l: "(if qa_Mint a = QSDM20MintOpen then map_sum id Some (parseQSDM20Units (qa_MintLimit a) False) else Inr None) = Inr ?limit"
    using m by (auto simp: units_error_def token_mints split: sum.splits)
  from assms(2) have c: "qs_tokens s ?i = None"
    "commit = (\<lambda>s. s\<lparr>qs_tokens := (qs_tokens s)(?i \<mapsto> setBalance t0 sender ini)\<rparr>)"
    unfolding plan_create_def l p by (auto simp: Let_def t0_def split: if_splits)
  have "int (units_held (setBalance t0 sender ini)) = ini"
    using units_positive(1) [OF p(2)] by (subst setBalance_held) (simp_all add: units_held_def balanceOf_def t0_def)
  moreover have "\<forall>x b. qt_balances (setBalance t0 sender ini) x = Some b \<longrightarrow> 0 < b"
    using units_positive(1) [OF p(2)] by (intro setBalance_positive) (simp_all add: t0_def)
  ultimately have "token_ok ?i (setBalance t0 sender ini)"
    using p(3) units_positive(2) [OF p(1)] m by (auto simp: token_ok_def token_mints t0_def)
  moreover have "balanceOf t0 b = 0" for b by (simp add: balanceOf_def t0_def)
  moreover have "qt_issuer t0 = sender" by (simp add: t0_def)
  ultimately show thesis using c by (intro that [of "setBalance t0 sender ini"]) simp_all
qed

lemma tokenLocked_Inr: "tokenLocked s i = Inr t \<longleftrightarrow> qs_tokens s i = Some t"
  by (simp add: tokenLocked_def split: option.split)

lemma named_token:
  assumes "(case tokenLocked s i of Inl e \<Rightarrow> Inl e | Inr t \<Rightarrow>
      (case parseQSDM20Units u False of Inl e \<Rightarrow> Inl e | Inr x \<Rightarrow> f t x)) = Inr c"
  obtains t x where "qs_tokens s i = Some t" and "0 < x" and "f t x = Inr c"
  using assms units_positive(3) [of u False] by (auto simp: tokenLocked_Inr split: sum.splits)

lemma change_token_known:
  "qs_tokens s i = Some t \<Longrightarrow> change_token i f s = s\<lparr>qs_tokens := (qs_tokens s)(i \<mapsto> f t)\<rparr>"
  by (simp add: change_token_def)

lemma transfer_cases:
  assumes "plan_transfer s a sender = Inr commit"
  obtains (self) "qa_To a = sender" "commit s = s"
    | (other) t x where "qs_tokens s (qa_Token a) = Some t" "0 < x" "x \<le> balanceOf t sender" "qa_To a \<noteq> sender"
        "commit s = s\<lparr>qs_tokens := (qs_tokens s)(qa_Token a \<mapsto>
           setBalance (setBalance t sender (balanceOf t sender - x)) (qa_To a) (balanceOf t (qa_To a) + x))\<rparr>"
proof -
  from assms [unfolded plan_transfer_def] obtain t x where t: "qs_tokens s (qa_Token a) = Some t" "0 < x"
    and c: "(let from_bal = balanceOf t sender
      in if from_bal < x then Inl InsufficientUnits else if qa_To a = sender then Inr (\<lambda>s. s)
         else (let newFrom = from_bal - x; newTo = balanceOf t (qa_To a) + x
               in Inr (change_token (qa_Token a) (\<lambda>t. setBalance (setBalance t sender newFrom) (qa_To a) newTo)))) = Inr commit"
    by (rule named_token)
  from c have "x \<le> balanceOf t sender" by (simp add: Let_def split: if_splits)
  show thesis
  proof (cases "qa_To a = sender")
    case True
    with c have "commit s = s" by (auto simp: Let_def split: if_splits)
    then show thesis using that(1) True by blast
  next
    case False
    with c t have "commit s = s\<lparr>qs_tokens := (qs_tokens s)(qa_Token a \<mapsto>
         setBalance (setBalance t sender (balanceOf t sender - x)) (qa_To a) (balanceOf t (qa_To a) + x))\<rparr>"
      by (auto simp: Let_def change_token_known split: if_splits)
    then show thesis using that(2) t \<open>x \<le> balanceOf t sender\<close> False by blast
  qed
qed

lemma mint_cases:
  assumes "plan_mint s a sender = Inr commit"
  obtains t x where "qs_tokens s (qa_Token a) = Some t" "0 < x"
    "mint_permission t a sender x = None" "qt_minted t + x \<le> qt_maxSupply t"
    "commit s = s\<lparr>qs_tokens := (qs_tokens s)(qa_Token a \<mapsto>
       setBalance (t\<lparr>qt_minted := qt_minted t + x\<rparr>) (qa_To a) (balanceOf t (qa_To a) + x))\<rparr>"
proof -
  from assms [unfolded plan_mint_def] obtain t x where t: "qs_tokens s (qa_Token a) = Some t" "0 < x"
    and c: "(case mint_permission t a sender x of Some e \<Rightarrow> Inl e | None \<Rightarrow>
        (let newMinted = qt_minted t + x in if qt_maxSupply t < newMinted then Inl OverMaxSupply
         else (let newTo = balanceOf t (qa_To a) + x
               in Inr (change_token (qa_Token a) (\<lambda>t. setBalance (t\<lparr>qt_minted := newMinted\<rparr>) (qa_To a) newTo))))) = Inr commit"
    by (rule named_token)
  from c have "mint_permission t a sender x = None" "qt_minted t + x \<le> qt_maxSupply t"
    by (simp_all add: Let_def split: option.splits if_splits)
  moreover from this c t have "commit s = s\<lparr>qs_tokens := (qs_tokens s)(qa_Token a \<mapsto>
       setBalance (t\<lparr>qt_minted := qt_minted t + x\<rparr>) (qa_To a) (balanceOf t (qa_To a) + x))\<rparr>"
    by (auto simp: Let_def change_token_known split: if_splits)
  ultimately show thesis using that t by blast
qed

lemma burn_cases:
  assumes "plan_burn s a sender = Inr commit"
  obtains t x where "qs_tokens s (qa_Token a) = Some t" "0 < x" "x \<le> balanceOf t sender"
    "commit s = s\<lparr>qs_tokens := (qs_tokens s)(qa_Token a \<mapsto>
       (setBalance t sender (balanceOf t sender - x))\<lparr>qt_burned := qt_burned t + x\<rparr>)\<rparr>"
proof -
  from assms [unfolded plan_burn_def] obtain t x where t: "qs_tokens s (qa_Token a) = Some t" "0 < x"
    and c: "(let from_bal = balanceOf t sender in if from_bal < x then Inl InsufficientUnits
         else (let newFrom = from_bal - x; newBurned = qt_burned t + x
               in Inr (change_token (qa_Token a) (\<lambda>t. (setBalance t sender newFrom)\<lparr>qt_burned := newBurned\<rparr>)))) = Inr commit"
    by (rule named_token)
  from c have "x \<le> balanceOf t sender" by (simp add: Let_def split: if_splits)
  moreover from this c t have "commit s = s\<lparr>qs_tokens := (qs_tokens s)(qa_Token a \<mapsto>
       (setBalance t sender (balanceOf t sender - x))\<lparr>qt_burned := qt_burned t + x\<rparr>)\<rparr>"
    by (auto simp: Let_def change_token_known split: if_splits)
  ultimately show thesis using that t by blast
qed

lemma renounce_cases:
  assumes "plan_renounce s a sender = Inr commit"
  obtains t where "qs_tokens s (qa_Token a) = Some t" "sender = qt_issuer t" "qt_mint t \<noteq> QSDM20MintNone"
    "commit s = s\<lparr>qs_tokens := (qs_tokens s)(qa_Token a \<mapsto>
       t\<lparr>qt_mint := QSDM20MintNone, qt_mintLimit := None, qt_maxSupply := qt_minted t\<rparr>)\<rparr>"
proof -
  from assms obtain t where t: "qs_tokens s (qa_Token a) = Some t"
    by (auto simp: plan_renounce_def tokenLocked_def split: option.splits)
  with assms have "sender = qt_issuer t" "qt_mint t \<noteq> QSDM20MintNone"
    by (auto simp: plan_renounce_def tokenLocked_def token_mints split: if_splits)
  moreover from assms t have "commit s = s\<lparr>qs_tokens := (qs_tokens s)(qa_Token a \<mapsto>
       t\<lparr>qt_mint := QSDM20MintNone, qt_mintLimit := None, qt_maxSupply := qt_minted t\<rparr>)\<rparr>"
    by (auto simp: plan_renounce_def tokenLocked_def Let_def change_token_known split: if_splits)
  ultimately show thesis using that t by blast
qed

lemma plan_cases:
  assumes "planLocked v s a sender n h = Inr commit"
  obtains (create) t where "qa_Action a = QSDM20ActionCreate" "qs_tokens s (QSDM20TokenID (q_sha256 v) sender n) = None"
      "commit s = s\<lparr>qs_tokens := (qs_tokens s)(QSDM20TokenID (q_sha256 v) sender n \<mapsto> t)\<rparr>"
      "token_ok (QSDM20TokenID (q_sha256 v) sender n) t" "qt_issuer t = sender"
    | (self) "qa_Action a = QSDM20ActionTransfer" "commit s = s"
    | (transfer) t x where "qa_Action a = QSDM20ActionTransfer" "qs_tokens s (qa_Token a) = Some t" "0 < x"
        "x \<le> balanceOf t sender" "qa_To a \<noteq> sender"
        "commit s = s\<lparr>qs_tokens := (qs_tokens s)(qa_Token a \<mapsto>
           setBalance (setBalance t sender (balanceOf t sender - x)) (qa_To a) (balanceOf t (qa_To a) + x))\<rparr>"
    | (mint) t x where "qa_Action a = QSDM20ActionMint" "qs_tokens s (qa_Token a) = Some t" "0 < x"
        "mint_permission t a sender x = None" "qt_minted t + x \<le> qt_maxSupply t"
        "commit s = s\<lparr>qs_tokens := (qs_tokens s)(qa_Token a \<mapsto>
           setBalance (t\<lparr>qt_minted := qt_minted t + x\<rparr>) (qa_To a) (balanceOf t (qa_To a) + x))\<rparr>"
    | (burn) t x where "qa_Action a = QSDM20ActionBurn" "qs_tokens s (qa_Token a) = Some t" "0 < x"
        "x \<le> balanceOf t sender"
        "commit s = s\<lparr>qs_tokens := (qs_tokens s)(qa_Token a \<mapsto>
           (setBalance t sender (balanceOf t sender - x))\<lparr>qt_burned := qt_burned t + x\<rparr>)\<rparr>"
    | (renounce) t where "qa_Action a = QSDM20ActionRenounce" "qs_tokens s (qa_Token a) = Some t"
        "sender = qt_issuer t" "qt_mint t \<noteq> QSDM20MintNone"
        "commit s = s\<lparr>qs_tokens := (qs_tokens s)(qa_Token a \<mapsto>
           t\<lparr>qt_mint := QSDM20MintNone, qt_mintLimit := None, qt_maxSupply := qt_minted t\<rparr>)\<rparr>"
proof -
  from assms have val: "ValidateQSDM20Action a = None" by (auto simp: planLocked_def split: option.splits)
  note cont = create self transfer mint burn renounce
  from assms val consider "qa_Action a = QSDM20ActionCreate" "plan_create v s a sender n h = Inr commit"
    | "qa_Action a = QSDM20ActionTransfer" "plan_transfer s a sender = Inr commit"
    | "qa_Action a = QSDM20ActionMint" "plan_mint s a sender = Inr commit"
    | "qa_Action a = QSDM20ActionBurn" "plan_burn s a sender = Inr commit"
    | "qa_Action a = QSDM20ActionRenounce" "plan_renounce s a sender = Inr commit"
    unfolding planLocked_def by (auto split: if_splits)
  then show thesis
  proof cases
    case 1
    then have "validate_create a = None" using val by (simp add: ValidateQSDM20Action_def)
    then obtain t where "qs_tokens s (QSDM20TokenID (q_sha256 v) sender n) = None"
      and "commit = (\<lambda>s. s\<lparr>qs_tokens := (qs_tokens s)(QSDM20TokenID (q_sha256 v) sender n \<mapsto> t)\<rparr>)"
      and "token_ok (QSDM20TokenID (q_sha256 v) sender n) t" and "qt_issuer t = sender"
      using 1(2) by (rule created_token_ok)
    with 1(1) show thesis by (intro cont(1)) simp_all
  next
    case 2
    from 2(2) show thesis by (cases rule: transfer_cases) (use 2(1) cont(2,3) in blast)+
  next
    case 3
    from 3(2) show thesis by (cases rule: mint_cases) (use 3(1) cont(4) in blast)
  next
    case 4
    from 4(2) show thesis by (cases rule: burn_cases) (use 4(1) cont(5) in blast)
  next
    case 5
    from 5(2) show thesis by (cases rule: renounce_cases) (use 5(1) cont(6) in blast)
  qed
qed

lemma put_token_ok:
  assumes "tokens_ok s" and "token_ok i t"
  shows "tokens_ok (s\<lparr>qs_tokens := (qs_tokens s)(i \<mapsto> t)\<rparr>)"
  using assms by (auto simp: tokens_ok_def)

lemma token_okD:
  assumes "token_ok i t"
  shows "finite (dom (qt_balances t))" and "\<forall>a b. qt_balances t a = Some b \<longrightarrow> 0 < b" and "0 \<le> balanceOf t a"
  using assms balanceOf_nonneg [of t a] by (simp_all add: token_ok_def)

lemma transfer_ok:
  assumes "token_ok i t" and "0 < x" and "x \<le> balanceOf t a" and "b \<noteq> a"
  shows "token_ok i (setBalance (setBalance t a (balanceOf t a - x)) b (balanceOf t b + x))"
proof -
  note w = token_okD [OF assms(1)]
  let ?t1 = "setBalance t a (balanceOf t a - x)"
  have p: "\<forall>c d. qt_balances ?t1 c = Some d \<longrightarrow> 0 < d" using assms(3) by (intro setBalance_positive [OF w(2)]) simp
  have "int (units_held (setBalance ?t1 b (balanceOf t b + x))) = int (units_held t)"
    using w(1) w(3) [of b] assms(2,3,4) by (simp add: setBalance_held [OF _ p] setBalance_held [OF _ w(2)])
  with assms(1) setBalance_positive [OF p, of "balanceOf t b + x" b] w(3) [of b] assms(2) show ?thesis
    by (simp add: token_ok_def)
qed

lemma mint_ok:
  assumes "token_ok i t" and "0 < x" and "qt_minted t + x \<le> qt_maxSupply t"
  shows "token_ok i (setBalance (t\<lparr>qt_minted := qt_minted t + x\<rparr>) b (balanceOf t b + x))"
proof -
  note w = token_okD [OF assms(1)]
  let ?t1 = "t\<lparr>qt_minted := qt_minted t + x\<rparr>"
  have p: "\<forall>c d. qt_balances ?t1 c = Some d \<longrightarrow> 0 < d" using w(2) by simp
  have "int (units_held (setBalance ?t1 b (balanceOf t b + x))) = int (units_held t) + x"
    using w(1) w(3) [of b] assms(2) by (simp add: setBalance_held [OF _ p])
  with assms setBalance_positive [OF p, of "balanceOf t b + x" b] w(3) [of b] show ?thesis
    by (auto simp: token_ok_def)
qed

lemma burn_ok:
  assumes "token_ok i t" and "0 < x" and "x \<le> balanceOf t a"
  shows "token_ok i ((setBalance t a (balanceOf t a - x))\<lparr>qt_burned := qt_burned t + x\<rparr>)"
proof -
  note w = token_okD [OF assms(1)]
  have "int (units_held (setBalance t a (balanceOf t a - x))) = int (units_held t) - x"
    using w(1) assms(3) by (simp add: setBalance_held [OF _ w(2)])
  with assms setBalance_positive [OF w(2), of "balanceOf t a - x" a] show ?thesis
    by (simp add: token_ok_def)
qed

lemma renounce_ok:
  assumes "token_ok i t"
  shows "token_ok i (t\<lparr>qt_mint := QSDM20MintNone, qt_mintLimit := None, qt_maxSupply := qt_minted t\<rparr>)"
  using assms by (simp add: token_ok_def units_held_def token_mints)

lemma plan_keeps_ok:
  assumes "planLocked v s a sender n h = Inr commit" and "tokens_ok s"
  shows "tokens_ok (commit s)"
  using assms(1)
proof (cases rule: plan_cases)
  case (create t)
  then show ?thesis using put_token_ok [OF assms(2)] by simp
next
  case self
  then show ?thesis using assms(2) by simp
next
  case (transfer t x)
  then have "token_ok (qa_Token a) t" using assms(2) by (simp add: tokens_ok_def)
  from transfer_ok [OF this transfer(3,4,5)] transfer(6) show ?thesis using put_token_ok [OF assms(2)] by simp
next
  case (mint t x)
  then have "token_ok (qa_Token a) t" using assms(2) by (simp add: tokens_ok_def)
  from mint_ok [OF this mint(3,5)] mint(6) show ?thesis using put_token_ok [OF assms(2)] by simp
next
  case (burn t x)
  then have "token_ok (qa_Token a) t" using assms(2) by (simp add: tokens_ok_def)
  from burn_ok [OF this burn(3,4)] burn(5) show ?thesis using put_token_ok [OF assms(2)] by simp
next
  case (renounce t)
  then have "token_ok (qa_Token a) t" using assms(2) by (simp add: tokens_ok_def)
  from renounce_ok [OF this] renounce(5) show ?thesis using put_token_ok [OF assms(2)] by simp
qed

text \<open>The two ways a token transaction reaches the store.\<close>

datatype token_op = OpEconomic Tx u64 | OpHistorical Tx u64

definition token_step ::
  "qsdm20_env \<Rightarrow> QSDM20StateStore \<times> AccountStore \<Rightarrow> token_op \<Rightarrow> QSDM20StateStore \<times> AccountStore" where
  "token_step v w p = (case p of
       OpEconomic tx h \<Rightarrow> fst (ApplyEconomicTxAtHeight v w tx h)
     | OpHistorical tx h \<Rightarrow> (fst (TokenApplyHistoricalTx v (fst w) tx h), snd w))"

lemma token_step_cases:
  obtains (refused) "fst (token_step v w p) = fst w"
    | (planned) a sender n h commit where "planLocked v (fst w) a sender n h = Inr commit"
        "fst (token_step v w p) = commit (fst w)"
proof -
  have "fst (token_step v w p) = fst w \<or> (\<exists>a sender n h commit.
      planLocked v (fst w) a sender n h = Inr commit \<and> fst (token_step v w p) = commit (fst w))"
    by (cases w; cases p)
      (auto simp: token_step_def ApplyEconomicTxAtHeight_def TokenApplyHistoricalTx_def
        split: option.split sum.split prod.split, blast+)
  then show thesis using that by blast
qed

interpretation token_runs: invariant_kept "token_step v" "\<lambda>w. tokens_ok (fst w)" for v
proof
  fix w :: "QSDM20StateStore \<times> AccountStore" and p
  assume "tokens_ok (fst w)"
  then show "tokens_ok (fst (token_step v w p))"
    by (cases rule: token_step_cases [of v w p]) (auto simp: plan_keeps_ok)
qed

text \<open>
  C3. Whatever token transactions are applied to an empty token state, live or from history, every
  token of the state is stored under its id and accounts for every unit: the balances, all positive, add
  up to what was minted less what was burned, no more than the maximum supply was ever minted, a token
  without minting has reached its maximum, and a mint limit exists exactly for open minting.
\<close>

theorem token_units_accounted:
  "tokens_ok (fst (foldl (token_step v) (NewQSDM20StateStore, accounts) ps))"
  by (rule token_runs.run_inv) (simp add: tokens_ok_def NewQSDM20StateStore_def)

section \<open>Who may change what\<close>

definition allowed_change :: "string \<Rightarrow> qsdm20Token \<Rightarrow> qsdm20Token \<Rightarrow> bool" where
  "allowed_change sender t t' \<longleftrightarrow>
     (qt_id t', qt_symbol t', qt_name t', qt_decimals t', qt_issuer t', qt_createdHeight t') =
       (qt_id t, qt_symbol t, qt_name t, qt_decimals t, qt_issuer t, qt_createdHeight t) \<and>
     (\<forall>b. balanceOf t' b < balanceOf t b \<longrightarrow> b = sender) \<and>
     (qt_minted t' \<noteq> qt_minted t \<longrightarrow> qt_minted t < qt_minted t' \<and>
        (qt_mint t = QSDM20MintIssuer \<and> sender = qt_issuer t \<or>
         qt_mint t = QSDM20MintOpen \<and> (\<exists>l. qt_mintLimit t = Some l \<and> qt_minted t' - qt_minted t \<le> l) \<and>
           balanceOf t' sender = balanceOf t sender + (qt_minted t' - qt_minted t))) \<and>
     ((qt_mint t', qt_mintLimit t', qt_maxSupply t') \<noteq> (qt_mint t, qt_mintLimit t, qt_maxSupply t) \<longrightarrow>
        sender = qt_issuer t \<and> qt_mint t' = QSDM20MintNone \<and> qt_maxSupply t' = qt_minted t') \<and>
     (qt_burned t' \<noteq> qt_burned t \<longrightarrow> qt_burned t' - qt_burned t = balanceOf t sender - balanceOf t' sender)"

lemma allowed_refl [simp]: "allowed_change sender t t"
  by (simp add: allowed_change_def)

lemma mint_permission_None:
  assumes "mint_permission t a sender x = None"
  shows "qt_mint t = QSDM20MintIssuer \<and> sender = qt_issuer t \<or>
    qt_mint t = QSDM20MintOpen \<and> qa_To a = sender \<and> (\<exists>l. qt_mintLimit t = Some l \<and> x \<le> l)"
  using assms by (auto simp: mint_permission_def split: if_splits option.splits)

lemma plan_allowed:
  assumes "planLocked v s a sender n h = Inr commit" and "qs_tokens s i = Some t"
  shows "\<exists>t'. qs_tokens (commit s) i = Some t' \<and> allowed_change sender t t'"
  using assms(1)
proof (cases rule: plan_cases)
  case (create u)
  then have "i \<noteq> QSDM20TokenID (q_sha256 v) sender n" using assms(2) by auto
  with create assms(2) show ?thesis by simp
next
  case self
  with assms(2) show ?thesis by simp
next
  case (transfer u x)
  then show ?thesis using assms(2) by (cases "i = qa_Token a") (auto simp: allowed_change_def)
next
  case (mint u x)
  have "balanceOf (setBalance (u\<lparr>qt_minted := qt_minted u + x\<rparr>) (qa_To a) (balanceOf u (qa_To a) + x)) b =
      (if b = qa_To a then balanceOf u b + x else balanceOf u b)" for b by simp
  with mint mint_permission_None [OF mint(4)] show ?thesis
    using assms(2) by (cases "i = qa_Token a") (auto simp: allowed_change_def)
next
  case (burn u x)
  then show ?thesis using assms(2) by (cases "i = qa_Token a") (auto simp: allowed_change_def)
next
  case (renounce u)
  then show ?thesis using assms(2) by (cases "i = qa_Token a") (auto simp: allowed_change_def balanceOf_def)
qed

lemma plan_new_token:
  assumes "planLocked v s a sender n h = Inr commit" and "qs_tokens s i = None" and "qs_tokens (commit s) i = Some t"
  shows "i = QSDM20TokenID (q_sha256 v) sender n \<and> qt_issuer t = sender"
  using assms by (cases rule: plan_cases) (auto split: if_splits)

lemma economic_ok:
  assumes "ApplyEconomicTxAtHeight v (s, acs) tx h = ((s', acs'), None)"
  obtains a commit where "VerifyQSDM20Tx v tx = Inr a"
    "planLocked v s a (tx_Sender tx) (tx_Nonce tx) h = Inr commit" "s' = commit s"
    "ChargeAndBumpNonce acs (tx_Sender tx) (tx_Fee tx) (tx_Nonce tx) = (acs', None)"
  using assms
  by (auto simp: ApplyEconomicTxAtHeight_def split: option.splits sum.splits prod.splits)

lemma verified_key:
  assumes "VerifyQSDM20Tx v tx = Inr a"
  shows "\<exists>pk sig d. BFTValidatorAddress (q_sha256 v) pk = tx_Sender tx \<and> tx_ID tx = QSDM20TxID d \<and>
    q_mldsa_verify v d sig pk = Some True"
proof -
  from assms obtain d where "decodeQSDM20Tx v tx = Inr (a, d)"
    and "verifyQSDM20Signature v (tx_Sender tx) (tx_PublicKey tx) (tx_Signature tx) d = None"
    by (auto simp: VerifyQSDM20Tx_def split: sum.splits option.splits)
  then show ?thesis
    by (auto simp: verifyQSDM20Signature_def elim!: decode_tx_facts split: if_splits option.splits)
qed

text \<open>
  C26. A token transaction that is accepted was signed under a key whose hash is the sender, over the
  digest in its id. It lowers no balance but the sender's; units are minted only by the issuer, or in
  open mode to the sender within the limit per mint; the minting rules change only by the issuer's
  renouncing; what is burned leaves the sender's balance; name, issuer and decimals never change; and a
  new token has the id derived from the sender and the nonce, with the sender as issuer.
\<close>

theorem token_tx_authorised:
  assumes "ApplyEconomicTxAtHeight v (s, acs) tx h = ((s', acs'), None)"
  shows "(\<exists>pk sig d. BFTValidatorAddress (q_sha256 v) pk = tx_Sender tx \<and> tx_ID tx = QSDM20TxID d \<and>
      q_mldsa_verify v d sig pk = Some True) \<and>
    (\<forall>i t. qs_tokens s i = Some t \<longrightarrow> (\<exists>t'. qs_tokens s' i = Some t' \<and> allowed_change (tx_Sender tx) t t')) \<and>
    (\<forall>i t. qs_tokens s i = None \<and> qs_tokens s' i = Some t \<longrightarrow>
      i = QSDM20TokenID (q_sha256 v) (tx_Sender tx) (tx_Nonce tx) \<and> qt_issuer t = tx_Sender tx)"
proof -
  from economic_ok [OF assms] obtain a commit where p: "VerifyQSDM20Tx v tx = Inr a"
    "planLocked v s a (tx_Sender tx) (tx_Nonce tx) h = Inr commit" "s' = commit s" by metis
  show ?thesis
    using verified_key [OF p(1)] plan_allowed [OF p(2)] plan_new_token [OF p(2)] p(3) by blast
qed

section \<open>Frozen supply\<close>

definition frozen_from :: "qsdm20Token \<Rightarrow> qsdm20Token \<Rightarrow> bool" where
  "frozen_from t t' \<longleftrightarrow> qt_mint t' = QSDM20MintNone \<and> qt_minted t' = qt_minted t \<and> qt_maxSupply t' = qt_maxSupply t \<and>
     qt_burned t \<le> qt_burned t'"

lemma plan_frozen:
  assumes "planLocked v s a sender n h = Inr commit" and "qs_tokens s i = Some t" and "qt_mint t = QSDM20MintNone"
  shows "\<exists>t'. qs_tokens (commit s) i = Some t' \<and> frozen_from t t'"
  using assms(1)
proof (cases rule: plan_cases)
  case (create u)
  then have "i \<noteq> QSDM20TokenID (q_sha256 v) sender n" using assms(2) by auto
  with create assms(2,3) show ?thesis by (simp add: frozen_from_def)
next
  case (mint u x)
  then show ?thesis using assms(2,3) mint_permission_None [OF mint(4)]
    by (cases "i = qa_Token a") (auto simp: frozen_from_def token_mints)
qed (use assms(2,3) in \<open>auto simp: frozen_from_def\<close>)

lemma token_step_frozen:
  assumes "qs_tokens (fst w) i = Some t" and "qt_mint t = QSDM20MintNone"
  shows "\<exists>t'. qs_tokens (fst (token_step v w p)) i = Some t' \<and> frozen_from t t'"
  by (cases rule: token_step_cases [of v w p]) (use assms plan_frozen in \<open>auto simp: frozen_from_def\<close>)

definition frozen_kept :: "QSDM20StateStore \<times> AccountStore \<Rightarrow> QSDM20StateStore \<times> AccountStore \<Rightarrow> bool" where
  "frozen_kept w w' \<longleftrightarrow> (\<forall>i t. qs_tokens (fst w) i = Some t \<and> qt_mint t = QSDM20MintNone \<longrightarrow>
     (\<exists>t'. qs_tokens (fst w') i = Some t' \<and> frozen_from t t'))"

interpretation token_frozen: relation_kept "token_step v" frozen_kept for v
proof
  show "frozen_kept w w" for w by (auto simp: frozen_kept_def frozen_from_def)
  show "frozen_kept w (token_step v w p)" for w p using token_step_frozen by (auto simp: frozen_kept_def)
  fix w x y
  assume wx: "frozen_kept w x" and xy: "frozen_kept x y"
  show "frozen_kept w y"
    unfolding frozen_kept_def
  proof (intro allI impI)
    fix i t
    assume "qs_tokens (fst w) i = Some t \<and> qt_mint t = QSDM20MintNone"
    with wx obtain u where u: "qs_tokens (fst x) i = Some u" "frozen_from t u" by (auto simp: frozen_kept_def)
    then have "qt_mint u = QSDM20MintNone" by (simp add: frozen_from_def)
    with xy u(1) obtain t' where "qs_tokens (fst y) i = Some t'" "frozen_from u t'" by (auto simp: frozen_kept_def)
    with u(2) show "\<exists>t'. qs_tokens (fst y) i = Some t' \<and> frozen_from t t'" by (auto simp: frozen_from_def)
  qed
qed

text \<open>
  Once minting is off for a token (from its creation, or renounced), no sequence of token
  transactions ever mints another unit of it, raises its maximum or turns minting on again: its supply
  only shrinks, by burning.
\<close>

theorem token_supply_frozen:
  assumes "qs_tokens (fst w) i = Some t" and "qt_mint t = QSDM20MintNone"
  shows "\<exists>t'. qs_tokens (fst (foldl (token_step v) w ps)) i = Some t' \<and> qt_mint t' = QSDM20MintNone \<and>
    qt_minted t' = qt_minted t \<and> qt_maxSupply t' = qt_maxSupply t \<and> qt_burned t \<le> qt_burned t'"
  using assms token_frozen.run_rel [of w v ps] by (auto simp: frozen_kept_def frozen_from_def)

section \<open>Refusals\<close>

lemma charge_err_keeps: "ChargeAndBumpNonce acs b x n = (acs', Some e) \<Longrightarrow> acs' = acs"
  by (auto simp: ChargeAndBumpNonce_def split: if_splits option.splits)

text \<open>A refused token transaction changes neither the tokens nor the accounts.\<close>

lemma token_refused_same:
  assumes "ApplyEconomicTxAtHeight v w tx h = (w', Some e)"
  shows "w' = w"
  using assms charge_err_keeps
  by (auto simp: ApplyEconomicTxAtHeight_def split: option.splits sum.splits prod.splits)

lemma plan_height: "(\<exists>c. planLocked v s a sender n h = Inr c) \<longleftrightarrow> (\<exists>c. planLocked v s a sender n k = Inr c)"
  by (auto simp: planLocked_def plan_create_def Let_def split: option.splits sum.splits)

lemma verified_fee: "VerifyQSDM20Tx v tx = Inr a \<Longrightarrow> \<not> tx_Fee tx < 0"
  by (auto simp: VerifyQSDM20Tx_def decodeQSDM20Tx_def qsdm20FeeDust_def split: sum.splits if_splits)

lemma check_iff_apply:
  assumes "QSDM20ActiveAt (q_activation v) h"
  shows "CheckEconomicTx v s tx (Some acs) = None \<longleftrightarrow> snd (ApplyEconomicTxAtHeight v (s, acs) tx h) = None"
proof (cases "VerifyQSDM20Tx v tx")
  case (Inl e)
  then show ?thesis using assms by (simp add: CheckEconomicTx_def ApplyEconomicTxAtHeight_def checkQSDM20Active_def)
next
  case (Inr a)
  note ver = this verified_fee [OF this]
  show ?thesis
  proof (cases "planLocked v s a (tx_Sender tx) (tx_Nonce tx) h")
    case (Inl e)
    with plan_height [of v s a "tx_Sender tx" "tx_Nonce tx" h 0]
    obtain e' where "planLocked v s a (tx_Sender tx) (tx_Nonce tx) 0 = Inl e'"
      by (cases "planLocked v s a (tx_Sender tx) (tx_Nonce tx) 0") auto
    then show ?thesis using Inl ver assms
      by (simp add: CheckEconomicTx_def ApplyEconomicTxAtHeight_def checkQSDM20Active_def)
  next
    case (Inr c)
    with plan_height [of v s a "tx_Sender tx" "tx_Nonce tx" h 0]
    obtain c' where "planLocked v s a (tx_Sender tx) (tx_Nonce tx) 0 = Inr c'" by blast
    then show ?thesis using Inr ver assms
      by (auto simp: CheckEconomicTx_def ApplyEconomicTxAtHeight_def checkQSDM20Active_def ChargeAndBumpNonce_def
          split: option.split)
  qed
qed

text \<open>
  C27. The dry run of the mempool agrees with application: above the activation height
  \<open>CheckEconomicTx\<close> accepts a transaction on a state exactly when applying it there succeeds, and
  applying it changes nothing when it does not.
\<close>

theorem token_check_predicts_apply:
  assumes "QSDM20ActiveAt (q_activation v) h"
  shows "(CheckEconomicTx v s tx (Some acs) = None \<longleftrightarrow> snd (ApplyEconomicTxAtHeight v (s, acs) tx h) = None) \<and>
    (CheckEconomicTx v s tx (Some acs) \<noteq> None \<longrightarrow> fst (ApplyEconomicTxAtHeight v (s, acs) tx h) = (s, acs))"
proof -
  have "fst (ApplyEconomicTxAtHeight v (s, acs) tx h) = (s, acs)"
    if "snd (ApplyEconomicTxAtHeight v (s, acs) tx h) \<noteq> None"
    using that token_refused_same [of v "(s, acs)" tx h] by (metis not_None_eq prod.collapse)
  then show ?thesis using check_iff_apply [OF assms] by simp
qed

section \<open>A concrete token\<close>

definition demo_key :: string where "demo_key = replicate 2592 (CHR ''k'')"
definition demo_holder :: string where "demo_holder = EncodeToString (replicate 32 (CHR ''A''))"

definition demo_create :: QSDM20Action where
  "demo_create = \<lparr>qa_Action = QSDM20ActionCreate, qa_Symbol = ''A'', qa_Name = ''A'', qa_Decimals = Some 0,
     qa_MaxSupply = show_nat 5, qa_InitialSupply = show_nat 5, qa_Mint = QSDM20MintNone, qa_MintLimit = [],
     qa_Token = [], qa_To = [], qa_Amount = []\<rparr>"

definition demo_token_env :: qsdm20_env where
  "demo_token_env = \<lparr>q_unmarshal = (\<lambda>_. Some demo_create), q_marshal = (\<lambda>_. Some ''P''),
     q_sha256 = (\<lambda>x. replicate 32 (CHR ''A'')), q_mldsa_available = True,
     q_mldsa_verify = (\<lambda>_ _ _. Some True), q_activation = 1, q_oob = (\<lambda>_. 0)\<rparr>"

definition demo_token_tx :: Tx where
  "demo_token_tx = \<lparr>tx_ID = QSDM20TxID (replicate 32 (CHR ''A'')), tx_Sender = demo_holder, tx_Recipient = [],
     tx_Amount = Fin 0, tx_Fee = Fin 0, tx_GasLimit = 0, tx_Nonce = 4, tx_Payload = ''P'',
     tx_ContractID = QSDM20ContractID, tx_Signature = EncodeToString (replicate 4627 (CHR ''s'')),
     tx_PublicKey = EncodeToString demo_key, tx_AddedAt = 0\<rparr>"

definition demo_token_accounts :: AccountStore where
  "demo_token_accounts = put_account NewAccountStore demo_holder
     \<lparr>acc_Address = demo_holder, acc_Balance = Fin 10, acc_Nonce = 4, acc_BalanceDust = 0\<rparr>"

lemma lower_hex_Encode: "list_all lower_hex_char (EncodeToString bs)"
proof -
  have "n < 16 \<Longrightarrow> lower_hex_char (hex_digit n)" for n
    by (auto simp: lower_hex_char_def digit_char_def hex_digit_def take_bit_eq_mod)
  moreover have "of_char c div 16 < (16 :: nat)" for c :: char by (rule less_mult_imp_div_less) simp
  ultimately show ?thesis by (induction bs) (simp_all add: EncodeToString_def hex_byte_def Let_def)
qed

lemma math_Max_nonneg: "0 \<le> x \<Longrightarrow> \<not> math_Max x y < (0 :: float64)"
  by (cases x; cases y) (auto simp: math_Max_def zero_float64_def less_eq_float64_def)

lemma CellToDust_zero: "CellToDust oob (Fin 0) = Inr 0"
proof -
  have z: "Fin 0 * f64_of_u64 DustPerCellInt = Fin 0"
    by (simp add: f64_dust_unit)
  have "\<not> math_Max (rnd (1 / 1000000)) y < Fin 0" for y
    using math_Max_nonneg [OF rnd_nonneg, of "1 / 1000000" y] by (simp add: zero_float64_def)
  moreover have "\<lfloor>1 / 2 :: rat\<rfloor> = 0" by (simp add: floor_eq_iff)
  then have "math_Round (Fin 0) = Fin 0" "math_Abs (Fin 0 - Fin 0) = Fin 0" "f64_to_u64 oob (Fin 0) = 0"
    by (simp_all add: f64_to_u64_def minus_float64_def)
  ultimately show ?thesis
    by (simp add: CellToDust_def z maxUint64_f_eq is_nan_def is_inf_def Let_def zero_float64_def less_eq_float64_def
        del: math_NextUp.simps math_Round.simps f64_dust_unit)
qed

lemma demo_fee: "qsdm20FeeDust oob (Fin 0) = Inr 0"
proof -
  have "f64_of_u64 0 = Fin 0" by (simp add: f64_of_u64_def)
  then have "DustToCell 0 = Fin 0" by (simp add: DustToCell_def)
  then show ?thesis by (simp add: qsdm20FeeDust_def CellToDust_zero is_nan_def is_inf_def zero_float64_def)
qed

lemma demo_holder_hex: "validQSDM20Hex64 demo_holder"
  by (simp add: validQSDM20Hex64_def demo_holder_def EncodeToString_length lower_hex_Encode)

lemma Encode_lower_hex: "bs \<noteq> [] \<Longrightarrow> validQSDM20LowerHex (EncodeToString bs)"
  using EncodeToString_length [of bs] by (auto simp: validQSDM20LowerHex_def lower_hex_Encode)

lemma demo_create_valid: "ValidateQSDM20Action demo_create = None"
proof -
  have "parseQSDM20Units (show_nat 5) b = Inr 5" for b by (simp add: parse_units_iff)
  moreover have "validQSDM20Symbol ''A''" "validQSDM20Name ''A''"
    by (simp_all add: validQSDM20Symbol_def qsdm20MaxSymbolLen_def validQSDM20Name_def IsControl_def qsdm20MaxNameLen_def)
  ultimately show ?thesis
    by (simp add: ValidateQSDM20Action_def validate_create_def demo_create_def qsdm20MaxDecimals_def)
qed

lemma demo_decode: "decodeQSDM20Tx demo_token_env demo_token_tx = Inr (demo_create, replicate 32 (CHR ''A''))"
proof -
  have "DecodeQSDM20Payload demo_token_env ''P'' = Inr demo_create"
    by (simp add: DecodeQSDM20Payload_def demo_token_env_def demo_create_valid)
  moreover have "QSDM20SigningDigest (q_sha256 demo_token_env) x n f a = replicate 32 (CHR ''A'')" for x n f a
    by (simp add: QSDM20SigningDigest_def demo_token_env_def)
  moreover have "Float64bits (Fin 0) = 0" by (simp add: Float64bits_def)
  ultimately show ?thesis
    by (simp add: decodeQSDM20Tx_def demo_token_tx_def demo_holder_hex demo_fee Let_def)
qed

lemma demo_verify: "VerifyQSDM20Tx demo_token_env demo_token_tx = Inr demo_create"
proof -
  have "verifyQSDM20Signature demo_token_env demo_holder (EncodeToString demo_key) (EncodeToString (replicate 4627 (CHR ''s''))) d = None" for d
    by (simp add: verifyQSDM20Signature_def Encode_lower_hex demo_key_def mldsa87PublicKeyLen_def mldsa87SignatureLen_def
        BFTValidatorAddress_def demo_holder_def demo_token_env_def)
  then show ?thesis by (simp add: VerifyQSDM20Tx_def demo_decode) (simp add: demo_token_tx_def)
qed

lemma demo_check: "CheckEconomicTx demo_token_env NewQSDM20StateStore demo_token_tx (Some demo_token_accounts) = None"
proof -
  have units: "parseQSDM20Units (show_nat 5) b = Inr 5" for b by (simp add: parse_units_iff)
  have a: "qa_Action demo_create = QSDM20ActionCreate" "qa_MaxSupply demo_create = show_nat 5" "qa_InitialSupply demo_create = show_nat 5"
    "qa_Mint demo_create \<noteq> QSDM20MintOpen" by (simp_all add: demo_create_def token_mints)
  have "\<exists>c. planLocked demo_token_env NewQSDM20StateStore demo_create demo_holder 4 0 = Inr c"
    by (simp add: planLocked_def demo_create_valid a plan_create_def units NewQSDM20StateStore_def Let_def)
  then show ?thesis
    by (auto simp: CheckEconomicTx_def demo_verify demo_token_accounts_def) (auto simp: demo_token_tx_def)
qed

theorem token_check_predicts_apply_witness:
  "snd (ApplyEconomicTxAtHeight demo_token_env (NewQSDM20StateStore, demo_token_accounts) demo_token_tx 1) = None"
  using token_check_predicts_apply [of demo_token_env 1 NewQSDM20StateStore demo_token_tx demo_token_accounts] demo_check
  by (simp add: QSDM20ActiveAt_def demo_token_env_def)

theorem token_tx_authorised_witness:
  "\<exists>pk sig d. BFTValidatorAddress (q_sha256 demo_token_env) pk = demo_holder \<and>
     tx_ID demo_token_tx = QSDM20TxID d \<and> q_mldsa_verify demo_token_env d sig pk = Some True"
proof -
  let ?r = "ApplyEconomicTxAtHeight demo_token_env (NewQSDM20StateStore, demo_token_accounts) demo_token_tx 1"
  have "snd ?r = None"
    using check_iff_apply [of demo_token_env 1 NewQSDM20StateStore demo_token_tx demo_token_accounts] demo_check
    by (simp add: QSDM20ActiveAt_def demo_token_env_def)
  then have "?r = ((fst (fst ?r), snd (fst ?r)), None)" by (metis prod.collapse)
  from token_tx_authorised [OF this] show ?thesis by (simp add: demo_token_tx_def)
qed

theorem token_tx_id_binds_witness:
  "tx_Payload demo_token_tx = tx_Payload (demo_token_tx\<lparr>tx_AddedAt := 7\<rparr>) \<and>
   tx_Nonce demo_token_tx = tx_Nonce (demo_token_tx\<lparr>tx_AddedAt := 7\<rparr>)"
proof -
  have "decodeQSDM20Tx demo_token_env (demo_token_tx\<lparr>tx_AddedAt := 7\<rparr>) = decodeQSDM20Tx demo_token_env demo_token_tx"
    by (simp add: decodeQSDM20Tx_def Let_def cong: sum.case_cong)
  then have d: "decodeQSDM20Tx demo_token_env (demo_token_tx\<lparr>tx_AddedAt := 7\<rparr>) = Inr (demo_create, replicate 32 (CHR ''A''))"
    by (simp only: demo_decode)
  have ok: "float_ok (tx_Fee demo_token_tx)" "float_ok (tx_Fee (demo_token_tx\<lparr>tx_AddedAt := 7\<rparr>))"
    by (simp_all add: demo_token_tx_def float_ok_def finite_ok_def representable_def)
  have "tx_preimage demo_token_env (demo_token_tx\<lparr>tx_AddedAt := 7\<rparr>) demo_create = tx_preimage demo_token_env demo_token_tx demo_create"
    by (simp add: tx_preimage_def)
  then have "inj_on (q_sha256 demo_token_env) {tx_preimage demo_token_env demo_token_tx demo_create,
      tx_preimage demo_token_env (demo_token_tx\<lparr>tx_AddedAt := 7\<rparr>) demo_create}" by simp
  from token_tx_id_binds [OF demo_decode d _ ok this] show ?thesis by simp
qed

definition demo_token :: qsdm20Token where
  "demo_token = \<lparr>qt_id = ''t'', qt_symbol = ''A'', qt_name = ''A'', qt_decimals = 0, qt_issuer = demo_holder,
     qt_mint = QSDM20MintNone, qt_mintLimit = None, qt_maxSupply = 5, qt_minted = 5, qt_burned = 0,
     qt_createdHeight = 1, qt_balances = [demo_holder \<mapsto> 5]\<rparr>"

theorem token_supply_frozen_witness:
  "\<exists>t'. qs_tokens (fst (foldl (token_step demo_token_env) (\<lparr>qs_tokens = [''t'' \<mapsto> demo_token]\<rparr>, demo_token_accounts)
      [OpEconomic demo_token_tx 1, OpHistorical demo_token_tx 2])) ''t'' = Some t' \<and> qt_minted t' = 5"
proof -
  have "qs_tokens (fst (\<lparr>qs_tokens = [''t'' \<mapsto> demo_token]\<rparr>, demo_token_accounts)) ''t'' = Some demo_token"
    "qt_mint demo_token = QSDM20MintNone" by (simp_all add: demo_token_def)
  from token_supply_frozen [OF this, of demo_token_env "[OpEconomic demo_token_tx 1, OpHistorical demo_token_tx 2]"]
  show ?thesis by (auto simp: demo_token_def)
qed

end
