(* ===== verification/Recovery.thy ===== *)
theory Recovery
  imports Tokens
begin

text \<open>
  Wallet recovery: the recovery words and the encrypted capsule of \<open>pkg/walletrecovery\<close> (\<open>recovery.go\<close>,
  \<open>legacy_capsule.go\<close>) and the on-chain register of capsules (\<open>pkg/chain/recovery_capsule_state.go\<close>).

  AES-GCM, HKDF, HMAC, SHA-256, BIP-39, ML-DSA, base64, JSON and RFC 3339 are the fields of \<open>recovery_env\<close>.
  Random bytes and the clock are arguments. Erasing secrets from memory is not modelled.
\<close>

section \<open>Words\<close>

definition add_word :: "string \<Rightarrow> string list \<Rightarrow> string list" where
  "add_word w ws = (if w = [] then ws else w # ws)"

text \<open>\<open>strings.Fields\<close>: the words between white space; \<open>w\<close> is the word being read.\<close>

fun fields_from :: "string \<Rightarrow> string \<Rightarrow> string list" where
  "fields_from w [] = add_word w []"
| "fields_from w [a] = (if ascii_space a then add_word w [] else [w @ [a]])"
| "fields_from w [a, b] =
     (if ascii_space a then add_word w (fields_from [] [b])
      else if space2 a b then add_word w []
      else fields_from (w @ [a]) [b])"
| "fields_from w (a # b # c # s) =
     (if ascii_space a then add_word w (fields_from [] (b # c # s))
      else if space2 a b then add_word w (fields_from [] (c # s))
      else if space3 a b c then add_word w (fields_from [] s)
      else fields_from (w @ [a]) (b # c # s))"

definition Fields :: "string \<Rightarrow> string list" where "Fields s = fields_from [] s"

fun Join :: "string list \<Rightarrow> string \<Rightarrow> string" where
  "Join [] sep = []"
| "Join [w] sep = w"
| "Join (w # ws) sep = w @ sep @ Join ws sep"

definition bom :: string where "bom = [byte 239, byte 187, byte 191]"

definition TrimPrefix :: "string \<Rightarrow> string \<Rightarrow> string" where
  "TrimPrefix s p = (if take (length p) s = p then drop (length p) s else s)"

definition normalize_words :: "string \<Rightarrow> string" where
  "normalize_words words = ToLower (Join (Fields (TrimPrefix words bom)) '' '')"

definition EntropySize :: nat where "EntropySize = 256 div 8"
definition WordCount :: nat where "WordCount = 24"
definition mldsa87SeedSize :: nat where "mldsa87SeedSize = 32"
definition mldsa87PrivateKeyLen :: nat where "mldsa87PrivateKeyLen = 4896"

definition hkdfSalt :: string where "hkdfSalt = ''QSDM Wallet Recovery v1''"
definition hkdfInfo :: string where "hkdfInfo = ''CELL wallet / ML-DSA-87 deterministic seed''"

section \<open>Data\<close>

record LegacyCapsule =
  lc_Version :: int
  lc_Scheme :: string
  lc_Locator :: string
  lc_Address :: string
  lc_Cipher :: string
  lc_Nonce :: string
  lc_Ciphertext :: string
  lc_CreatedAt :: string

record RecoveryCapsuleAction =
  rca_ID :: string
  rca_Sender :: string
  rca_Action :: string
  rca_Locator :: string
  rca_Capsule :: LegacyCapsule
  rca_Nonce :: u64
  rca_Timestamp :: string

record RecoveryCapsuleState =
  rcs_Owner :: string
  rcs_Locator :: string
  rcs_Capsule :: LegacyCapsule
  rcs_ActionID :: string
  rcs_RegisteredAt :: string

record RecoveryCapsuleStateStore =
  rc_byLocator :: "string \<rightharpoonup> RecoveryCapsuleState"
  rc_ownerIndex :: "string \<rightharpoonup> string"
  rc_actionIDs :: "string set"

record Material =
  mt_Words :: string
  mt_Entropy :: string
  mt_PublicKey :: string
  mt_PrivateKey :: string
  mt_Address :: string

record LegacyCapsuleMaterial =
  lm_Words :: string
  lm_Entropy :: string
  lm_Capsule :: LegacyCapsule

record LegacyRecoveredKey =
  lr_PublicKey :: string
  lr_PrivateKey :: string
  lr_Address :: string

record recovery_env =
  rv_json :: "string \<Rightarrow> RecoveryCapsuleAction option"
  rv_marshal :: "RecoveryCapsuleAction \<Rightarrow> string option"
  rv_marshal_state :: "RecoveryCapsuleState \<Rightarrow> string"
  rv_parse_time :: "string \<Rightarrow> int option"
  rv_format_time :: "int \<Rightarrow> string"
  rv_sha256 :: "string \<Rightarrow> string"
  rv_mldsa_verify :: "string \<Rightarrow> string \<Rightarrow> string \<Rightarrow> bool"
  rv_key_from_seed :: "string \<Rightarrow> string \<times> string"
  rv_public_of :: "string \<Rightarrow> string option"
  rv_base64 :: "string \<Rightarrow> string"
  rv_base64_decode :: "string \<Rightarrow> string option"
  rv_hkdf :: "string \<Rightarrow> string \<Rightarrow> string \<Rightarrow> nat \<Rightarrow> string option"
  rv_hmac :: "string \<Rightarrow> string \<Rightarrow> string"
  rv_gcm_seal :: "string \<Rightarrow> string \<Rightarrow> string \<Rightarrow> string \<Rightarrow> string"
  rv_gcm_open :: "string \<Rightarrow> string \<Rightarrow> string \<Rightarrow> string \<Rightarrow> string option"
  rv_mnemonic :: "string \<Rightarrow> string option"
  rv_entropy_of :: "string \<Rightarrow> string option"

datatype recovery_error =
    RecoveryWords
  | RecoveryEntropy
  | RecoveryDerive
  | RecoveryKey string
  | CapsuleInvalid string
  | CapsuleMismatch
  | NotRecoveryTx string
  | RecoveryPayloadSize
  | RecoveryDecode
  | RecoveryNotCanonical
  | RecoveryFieldMismatch string
  | RecoveryTxFields
  | RecoverySignature
  | RecoveryShape string
  | DuplicateRecoveryAction
  | RecoveryLocatorConflict
  | RecoveryChargeRefused account_error
  | RecoveryNextRefused string

section \<open>Wallets made from words\<close>

definition materialFromEntropy :: "recovery_env \<Rightarrow> string \<Rightarrow> recovery_error + Material" where
  "materialFromEntropy e entropy =
     (if length entropy \<noteq> EntropySize then Inl RecoveryEntropy
      else (case rv_hkdf e entropy hkdfSalt hkdfInfo mldsa87SeedSize of
          None \<Rightarrow> Inl RecoveryDerive
        | Some seed \<Rightarrow>
            (case rv_key_from_seed e seed of (publicKey, privateKey) \<Rightarrow>
               Inr \<lparr>mt_Words = [], mt_Entropy = entropy, mt_PublicKey = publicKey, mt_PrivateKey = privateKey,
                    mt_Address = EncodeToString (rv_sha256 e publicKey)\<rparr>)))"

text \<open>\<open>Generate\<close> on the entropy the random source gave.\<close>

definition Generate :: "recovery_env \<Rightarrow> string \<Rightarrow> recovery_error + Material" where
  "Generate e entropy =
     (case rv_mnemonic e entropy of
        None \<Rightarrow> Inl RecoveryWords
      | Some words \<Rightarrow>
          (case materialFromEntropy e entropy of
             Inl err \<Rightarrow> Inl err
           | Inr material \<Rightarrow> Inr (material\<lparr>mt_Words := words\<rparr>)))"

definition legacyEntropyFromWords :: "recovery_env \<Rightarrow> string \<Rightarrow> recovery_error + string" where
  "legacyEntropyFromWords e words =
     (let normalized = normalize_words words
      in if length (Fields normalized) \<noteq> WordCount then Inl RecoveryWords
         else (case rv_entropy_of e normalized of
             None \<Rightarrow> Inl RecoveryWords
           | Some entropy \<Rightarrow> if length entropy \<noteq> EntropySize then Inl RecoveryEntropy else Inr entropy))"

definition Restore :: "recovery_env \<Rightarrow> string \<Rightarrow> recovery_error + Material" where
  "Restore e words =
     (case legacyEntropyFromWords e words of
        Inl err \<Rightarrow> Inl err
      | Inr entropy \<Rightarrow>
          (case materialFromEntropy e entropy of
             Inl err \<Rightarrow> Inl err
           | Inr material \<Rightarrow> Inr (material\<lparr>mt_Words := normalize_words words\<rparr>)))"

definition WordsFromEntropy :: "recovery_env \<Rightarrow> string \<Rightarrow> recovery_error + string" where
  "WordsFromEntropy e entropy =
     (if length entropy \<noteq> EntropySize then Inl RecoveryEntropy
      else (case rv_mnemonic e entropy of None \<Rightarrow> Inl RecoveryWords | Some words \<Rightarrow> Inr words))"

section \<open>Capsules\<close>

definition LegacyCapsuleScheme :: string where "LegacyCapsuleScheme = ''qsdm-legacy-wallet-recovery-v1''"
definition LegacyCapsuleVersion :: int where "LegacyCapsuleVersion = 1"
definition legacyCapsuleMaxCiphertextBytes :: nat where "legacyCapsuleMaxCiphertextBytes = 16 * 1024"
definition legacyCapsuleAddressBytes :: nat where "legacyCapsuleAddressBytes = 32 * 2"
definition legacyCapsulePlaintextBytes :: nat where
  "legacyCapsulePlaintextBytes = legacyCapsuleAddressBytes + mldsa87PublicKeyLen + mldsa87PrivateKeyLen"
definition legacyCapsuleSalt :: string where "legacyCapsuleSalt = ''QSDM Legacy Wallet Recovery v1''"
definition legacyCapsuleKeyInfo :: string where "legacyCapsuleKeyInfo = ''legacy wallet capsule / AES-256-GCM key''"
definition legacyCapsuleLocatorInfo :: string where "legacyCapsuleLocatorInfo = ''legacy wallet capsule / lookup locator''"

definition LegacyRecoveryEntropyFromWords :: "recovery_env \<Rightarrow> string \<Rightarrow> recovery_error + string" where
  "LegacyRecoveryEntropyFromWords e words = legacyEntropyFromWords e words"

definition deriveLegacyCapsuleKeys :: "recovery_env \<Rightarrow> string \<Rightarrow> recovery_error + string \<times> string" where
  "deriveLegacyCapsuleKeys e entropy =
     (if length entropy \<noteq> EntropySize then Inl RecoveryEntropy
      else (case rv_hkdf e entropy legacyCapsuleSalt legacyCapsuleKeyInfo 32 of
          None \<Rightarrow> Inl RecoveryDerive
        | Some encryptionKey \<Rightarrow>
            (case rv_hkdf e entropy legacyCapsuleSalt legacyCapsuleLocatorInfo 32 of
               None \<Rightarrow> Inl RecoveryDerive
             | Some locatorKey \<Rightarrow> Inr (encryptionKey, locatorKey))))"

definition legacyLocator :: "recovery_env \<Rightarrow> string \<Rightarrow> string" where
  "legacyLocator e locatorKey = EncodeToString (rv_hmac e locatorKey legacyCapsuleLocatorInfo)"

definition legacyCapsuleAAD :: "string \<Rightarrow> string \<Rightarrow> string" where
  "legacyCapsuleAAD address locator = LegacyCapsuleScheme @ '':'' @ ToLower address @ '':'' @ ToLower locator"

definition verifyLegacyKeyMaterial :: "recovery_env \<Rightarrow> string \<Rightarrow> string \<Rightarrow> string \<Rightarrow> recovery_error option" where
  "verifyLegacyKeyMaterial e address publicKey privateKey =
     (if length publicKey \<noteq> mldsa87PublicKeyLen then Some (RecoveryKey ''public key length'')
      else (case rv_public_of e privateKey of
          None \<Rightarrow> Some (RecoveryKey ''private key'')
        | Some recovered \<Rightarrow>
            if recovered \<noteq> publicKey then Some (RecoveryKey ''keys do not match'')
            else if \<not> EqualFold (EncodeToString (rv_sha256 e publicKey)) (TrimSpace address)
            then Some (RecoveryKey ''address'')
            else None))"

definition ValidateLegacyCapsule :: "recovery_env \<Rightarrow> LegacyCapsule \<Rightarrow> recovery_error option" where
  "ValidateLegacyCapsule e c =
     (if lc_Version c \<noteq> LegacyCapsuleVersion \<or> lc_Scheme c \<noteq> LegacyCapsuleScheme then Some (CapsuleInvalid ''scheme'')
      else if lc_Address c \<noteq> ToLower (TrimSpace (lc_Address c)) then Some (CapsuleInvalid ''address'')
      else if (case DecodeHex (lc_Address c) of None \<Rightarrow> True | Some a \<Rightarrow> length a \<noteq> 32) then Some (CapsuleInvalid ''address'')
      else if lc_Locator c \<noteq> ToLower (TrimSpace (lc_Locator c)) then Some (CapsuleInvalid ''locator'')
      else if (case DecodeHex (lc_Locator c) of None \<Rightarrow> True | Some l \<Rightarrow> length l \<noteq> 32) then Some (CapsuleInvalid ''locator'')
      else if lc_Cipher c \<noteq> ''aes-256-gcm'' then Some (CapsuleInvalid ''cipher'')
      else if (case rv_base64_decode e (lc_Nonce c) of None \<Rightarrow> True | Some n \<Rightarrow> length n \<noteq> 12)
      then Some (CapsuleInvalid ''nonce'')
      else if (case rv_base64_decode e (lc_Ciphertext c) of
                 None \<Rightarrow> True
               | Some t \<Rightarrow> length t < 32 \<or> legacyCapsuleMaxCiphertextBytes < length t)
      then Some (CapsuleInvalid ''ciphertext'')
      else if rv_parse_time e (lc_CreatedAt c) = None then Some (CapsuleInvalid ''created_at'')
      else None)"

text \<open>The plaintext buffer has a fixed length; what does not fit is cut off, what is missing is zero.\<close>

definition capsule_plaintext :: "string \<Rightarrow> string \<Rightarrow> string \<Rightarrow> string" where
  "capsule_plaintext address publicKey privateKey =
     take legacyCapsulePlaintextBytes
       (ToLower address @ publicKey @ privateKey @ replicate legacyCapsulePlaintextBytes (CHR 0x00))"

text \<open>\<open>nonce\<close> is what the random source gave, \<open>createdAt\<close> the clock.\<close>

definition legacyCapsuleFromEntropy ::
  "recovery_env \<Rightarrow> string \<Rightarrow> string \<Rightarrow> string \<Rightarrow> string \<Rightarrow> int \<Rightarrow> string \<Rightarrow> recovery_error + LegacyCapsule" where
  "legacyCapsuleFromEntropy e entropy address publicKey privateKey createdAt nonce =
     (if length entropy \<noteq> EntropySize then Inl RecoveryEntropy
      else (case verifyLegacyKeyMaterial e address publicKey privateKey of
          Some err \<Rightarrow> Inl err
        | None \<Rightarrow>
            (case deriveLegacyCapsuleKeys e entropy of
               Inl err \<Rightarrow> Inl err
             | Inr (encryptionKey, locatorKey) \<Rightarrow>
                 (let locator = legacyLocator e locatorKey;
                      ciphertext = rv_gcm_seal e encryptionKey nonce
                        (capsule_plaintext address publicKey privateKey) (legacyCapsuleAAD address locator)
                  in if legacyCapsuleMaxCiphertextBytes < length ciphertext then Inl (CapsuleInvalid ''ciphertext'')
                     else Inr \<lparr>lc_Version = LegacyCapsuleVersion, lc_Scheme = LegacyCapsuleScheme, lc_Locator = locator,
                               lc_Address = ToLower address, lc_Cipher = ''aes-256-gcm'', lc_Nonce = rv_base64 e nonce,
                               lc_Ciphertext = rv_base64 e ciphertext, lc_CreatedAt = rv_format_time e createdAt\<rparr>))))"

definition GenerateLegacyCapsule ::
  "recovery_env \<Rightarrow> string \<Rightarrow> string \<Rightarrow> string \<Rightarrow> string \<Rightarrow> int \<Rightarrow> string \<Rightarrow> recovery_error + LegacyCapsuleMaterial" where
  "GenerateLegacyCapsule e address publicKey privateKey entropy now nonce =
     (case verifyLegacyKeyMaterial e address publicKey privateKey of
        Some err \<Rightarrow> Inl err
      | None \<Rightarrow>
          (case rv_mnemonic e entropy of
             None \<Rightarrow> Inl RecoveryWords
           | Some words \<Rightarrow>
               (case legacyCapsuleFromEntropy e entropy address publicKey privateKey now nonce of
                  Inl err \<Rightarrow> Inl err
                | Inr capsule \<Rightarrow> Inr \<lparr>lm_Words = words, lm_Entropy = entropy, lm_Capsule = capsule\<rparr>)))"

definition RestoreLegacyCapsule :: "recovery_env \<Rightarrow> string \<Rightarrow> LegacyCapsule \<Rightarrow> recovery_error + LegacyRecoveredKey" where
  "RestoreLegacyCapsule e words capsule =
     (case ValidateLegacyCapsule e capsule of
        Some err \<Rightarrow> Inl err
      | None \<Rightarrow>
          (case legacyEntropyFromWords e words of
             Inl err \<Rightarrow> Inl err
           | Inr entropy \<Rightarrow>
               (case deriveLegacyCapsuleKeys e entropy of
                  Inl err \<Rightarrow> Inl err
                | Inr (encryptionKey, locatorKey) \<Rightarrow>
                    if legacyLocator e locatorKey \<noteq> lc_Locator capsule then Inl CapsuleMismatch
                    else (case rv_gcm_open e encryptionKey (the (rv_base64_decode e (lc_Nonce capsule)))
                                (the (rv_base64_decode e (lc_Ciphertext capsule)))
                                (legacyCapsuleAAD (lc_Address capsule) (lc_Locator capsule)) of
                        None \<Rightarrow> Inl CapsuleMismatch
                      | Some plaintext \<Rightarrow>
                          if length plaintext \<noteq> legacyCapsulePlaintextBytes then Inl (CapsuleInvalid ''plaintext'')
                          else (let address = take legacyCapsuleAddressBytes plaintext;
                                    publicKey = take mldsa87PublicKeyLen (drop legacyCapsuleAddressBytes plaintext);
                                    privateKey = drop (legacyCapsuleAddressBytes + mldsa87PublicKeyLen) plaintext
                                in if address \<noteq> lc_Address capsule then Inl (CapsuleInvalid ''address'')
                                   else (case verifyLegacyKeyMaterial e address publicKey privateKey of
                                       Some err \<Rightarrow> Inl err
                                     | None \<Rightarrow> Inr \<lparr>lr_PublicKey = publicKey, lr_PrivateKey = privateKey,
                                                    lr_Address = address\<rparr>))))))"

definition LegacyLocatorFromWords :: "recovery_env \<Rightarrow> string \<Rightarrow> recovery_error + string" where
  "LegacyLocatorFromWords e words =
     (case legacyEntropyFromWords e words of
        Inl err \<Rightarrow> Inl err
      | Inr entropy \<Rightarrow>
          (case deriveLegacyCapsuleKeys e entropy of
             Inl err \<Rightarrow> Inl err
           | Inr (encryptionKey, locatorKey) \<Rightarrow> Inr (legacyLocator e locatorKey)))"

section \<open>Transactions that register a capsule\<close>

definition RecoveryCapsuleContractID :: string where "RecoveryCapsuleContractID = ''qsdm/wallet-recovery/v1''"
definition RecoveryCapsuleActionRegister :: string where "RecoveryCapsuleActionRegister = ''register''"
definition RecoveryCapsuleMaxPayloadBytes :: nat where "RecoveryCapsuleMaxPayloadBytes = 32 * 1024"

definition NewRecoveryCapsuleStateStore :: RecoveryCapsuleStateStore where
  "NewRecoveryCapsuleStateStore = \<lparr>rc_byLocator = Map.empty, rc_ownerIndex = Map.empty, rc_actionIDs = {}\<rparr>"

definition DecodeRecoveryCapsuleTx :: "recovery_env \<Rightarrow> Tx \<Rightarrow> recovery_error + RecoveryCapsuleAction" where
  "DecodeRecoveryCapsuleTx e tx =
     (if tx_ContractID tx \<noteq> RecoveryCapsuleContractID then Inl (NotRecoveryTx (tx_ContractID tx))
      else if tx_Payload tx = [] \<or> RecoveryCapsuleMaxPayloadBytes < length (tx_Payload tx) then Inl RecoveryPayloadSize
      else (case rv_json e (tx_Payload tx) of
          None \<Rightarrow> Inl RecoveryDecode
        | Some action \<Rightarrow>
            (case rv_marshal e action of
               None \<Rightarrow> Inl RecoveryDecode
             | Some canonical \<Rightarrow>
                 if canonical \<noteq> tx_Payload tx then Inl RecoveryNotCanonical
                 else if rca_ID action = [] \<or> rca_ID action \<noteq> tx_ID tx then Inl (RecoveryFieldMismatch ''id'')
                 else if rca_Sender action = [] \<or> rca_Sender action \<noteq> tx_Sender tx
                 then Inl (RecoveryFieldMismatch ''sender'')
                 else if rca_Nonce action \<noteq> tx_Nonce tx then Inl (RecoveryFieldMismatch ''nonce'')
                 else Inr action)))"

definition recovery_id_char :: "char \<Rightarrow> bool" where
  "recovery_id_char c \<longleftrightarrow>
     of_char c \<in> {97..122::nat} \<or> of_char c \<in> {65..90::nat} \<or> digit_char c \<or> c \<in> set ''-_.:''"

definition validRecoveryIdentifier :: "string \<Rightarrow> nat \<Rightarrow> bool" where
  "validRecoveryIdentifier value max_len \<longleftrightarrow>
     \<not> (value = [] \<or> max_len < length value \<or> value \<noteq> TrimSpace value) \<and> list_all recovery_id_char value"

definition validRecoveryHash :: "string \<Rightarrow> bool" where
  "validRecoveryHash value \<longleftrightarrow>
     \<not> (value \<noteq> TrimSpace value \<or> value \<noteq> ToLower value) \<and>
     (case DecodeHex value of None \<Rightarrow> False | Some raw \<Rightarrow> length raw = 32)"

definition validateRecoveryCapsuleAction :: "recovery_env \<Rightarrow> RecoveryCapsuleAction \<Rightarrow> recovery_error option" where
  "validateRecoveryCapsuleAction e a =
     (if \<not> validRecoveryIdentifier (rca_ID a) 128 then Some (RecoveryShape ''id'')
      else if \<not> validRecoveryHash (rca_Sender a) then Some (RecoveryShape ''sender'')
      else if rca_Action a \<noteq> RecoveryCapsuleActionRegister then Some (RecoveryShape ''action'')
      else if \<not> validRecoveryHash (rca_Locator a) then Some (RecoveryShape ''locator'')
      else if lc_Locator (rca_Capsule a) \<noteq> rca_Locator a \<or> lc_Address (rca_Capsule a) \<noteq> rca_Sender a
      then Some (RecoveryShape ''capsule'')
      else (case ValidateLegacyCapsule e (rca_Capsule a) of
          Some err \<Rightarrow> Some err
        | None \<Rightarrow>
            (case rv_parse_time e (rca_Timestamp a) of
               None \<Rightarrow> Some (RecoveryShape ''timestamp'')
             | Some actionTime \<Rightarrow>
                 if actionTime < (case rv_parse_time e (lc_CreatedAt (rca_Capsule a)) of None \<Rightarrow> 0 | Some t \<Rightarrow> t)
                 then Some (RecoveryShape ''timestamp'')
                 else None)))"

definition VerifyRecoveryCapsuleTx :: "recovery_env \<Rightarrow> Tx \<Rightarrow> recovery_error option" where
  "VerifyRecoveryCapsuleTx e tx =
     (case DecodeRecoveryCapsuleTx e tx of
        Inl err \<Rightarrow> Some err
      | Inr action \<Rightarrow>
          (case validateRecoveryCapsuleAction e action of
             Some err \<Rightarrow> Some err
           | None \<Rightarrow>
               if \<not> feq (tx_Amount tx) 0 \<or> \<not> feq (tx_Fee tx) 0 \<or> tx_GasLimit tx \<noteq> 0 \<or> tx_Recipient tx \<noteq> []
               then Some RecoveryTxFields
               else (case DecodeHex (TrimSpace (tx_PublicKey tx)) of
                   None \<Rightarrow> Some RecoverySignature
                 | Some publicKey \<Rightarrow>
                     (case DecodeHex (TrimSpace (tx_Signature tx)) of
                        None \<Rightarrow> Some RecoverySignature
                      | Some signature \<Rightarrow>
                          if length publicKey \<noteq> mldsa87PublicKeyLen \<or> length signature \<noteq> mldsa87SignatureLen
                          then Some RecoverySignature
                          else if \<not> EqualFold (EncodeToString (rv_sha256 e publicKey)) (rca_Sender action)
                          then Some RecoverySignature
                          else (case rv_marshal e action of
                              None \<Rightarrow> Some RecoveryDecode
                            | Some message \<Rightarrow>
                                if rv_mldsa_verify e message signature publicKey then None else Some RecoverySignature)))))"

definition RecoveryCapsuleAdmissionChecker ::
  "recovery_env \<Rightarrow> (Tx \<Rightarrow> string option) option \<Rightarrow> Tx \<Rightarrow> recovery_error option" where
  "RecoveryCapsuleAdmissionChecker e next_check tx =
     (if tx_ContractID tx \<noteq> RecoveryCapsuleContractID
      then (case next_check of None \<Rightarrow> None | Some f \<Rightarrow> map_option RecoveryNextRefused (f tx))
      else VerifyRecoveryCapsuleTx e tx)"

section \<open>The register\<close>

definition registered :: "RecoveryCapsuleAction \<Rightarrow> RecoveryCapsuleState" where
  "registered a = \<lparr>rcs_Owner = rca_Sender a, rcs_Locator = rca_Locator a, rcs_Capsule = rca_Capsule a,
     rcs_ActionID = rca_ID a, rcs_RegisteredAt = rca_Timestamp a\<rparr>"

definition recovery_applyAction ::
  "recovery_env \<Rightarrow> RecoveryCapsuleStateStore \<Rightarrow> RecoveryCapsuleAction \<Rightarrow> RecoveryCapsuleStateStore \<times> recovery_error option" where
  "recovery_applyAction e s a =
     (case validateRecoveryCapsuleAction e a of
        Some err \<Rightarrow> (s, Some err)
      | None \<Rightarrow>
          if rca_ID a \<in> rc_actionIDs s then (s, Some DuplicateRecoveryAction)
          else if (case rc_byLocator s (rca_Locator a) of None \<Rightarrow> False | Some st \<Rightarrow> rcs_Owner st \<noteq> rca_Sender a)
          then (s, Some RecoveryLocatorConflict)
          else (let priorLocator = (case rc_ownerIndex s (rca_Sender a) of None \<Rightarrow> [] | Some l \<Rightarrow> l);
                    byLocator = (if priorLocator \<noteq> [] \<and> priorLocator \<noteq> rca_Locator a
                                 then (rc_byLocator s)(priorLocator := None) else rc_byLocator s)
                in (\<lparr>rc_byLocator = byLocator(rca_Locator a \<mapsto> registered a),
                     rc_ownerIndex = (rc_ownerIndex s)(rca_Sender a \<mapsto> rca_Locator a),
                     rc_actionIDs = insert (rca_ID a) (rc_actionIDs s)\<rparr>, None)))"

definition RecoveryApplyHistoricalTx ::
  "recovery_env \<Rightarrow> RecoveryCapsuleStateStore \<Rightarrow> Tx \<Rightarrow> RecoveryCapsuleStateStore \<times> recovery_error option" where
  "RecoveryApplyHistoricalTx e s tx =
     (case VerifyRecoveryCapsuleTx e tx of
        Some err \<Rightarrow> (s, Some err)
      | None \<Rightarrow>
          (case DecodeRecoveryCapsuleTx e tx of
             Inl err \<Rightarrow> (s, Some err)
           | Inr action \<Rightarrow> recovery_applyAction e s action))"

definition RecoveryApplyTx ::
  "recovery_env \<Rightarrow> RecoveryCapsuleStateStore \<Rightarrow> Tx \<Rightarrow> RecoveryCapsuleStateStore \<times> recovery_error option" where
  "RecoveryApplyTx e s tx = RecoveryApplyHistoricalTx e s tx"

definition RecoveryClone :: "RecoveryCapsuleStateStore \<Rightarrow> RecoveryCapsuleStateStore" where
  "RecoveryClone s =
     \<lparr>rc_byLocator = rc_byLocator s, rc_ownerIndex = rc_ownerIndex s, rc_actionIDs = rc_actionIDs s\<rparr>"

definition RecoveryRestore :: "RecoveryCapsuleStateStore \<Rightarrow> RecoveryCapsuleStateStore \<Rightarrow> RecoveryCapsuleStateStore" where
  "RecoveryRestore s other = RecoveryClone other"

definition RecoveryApplyEconomicTx ::
  "recovery_env \<Rightarrow> RecoveryCapsuleStateStore \<times> AccountStore \<Rightarrow> Tx \<Rightarrow>
     (RecoveryCapsuleStateStore \<times> AccountStore) \<times> recovery_error option" where
  "RecoveryApplyEconomicTx e w tx =
     (case w of (s, accounts) \<Rightarrow>
       (case VerifyRecoveryCapsuleTx e tx of
          Some err \<Rightarrow> (w, Some err)
        | None \<Rightarrow>
            (case DecodeRecoveryCapsuleTx e tx of
               Inl err \<Rightarrow> (w, Some err)
             | Inr action \<Rightarrow>
                 (case recovery_applyAction e (RecoveryClone s) action of
                    (_, Some err) \<Rightarrow> (w, Some err)
                  | (_, None) \<Rightarrow>
                      (let accountSnapshot = CloneStore accounts; recoverySnapshot = RecoveryClone s
                       in case ChargeAndBumpNonce accounts (rca_Sender action) 0 (rca_Nonce action) of
                            (accounts1, Some err) \<Rightarrow> ((s, accounts1), Some (RecoveryChargeRefused err))
                          | (accounts1, None) \<Rightarrow>
                              (case recovery_applyAction e s action of
                                 (s1, Some err) \<Rightarrow>
                                   ((RecoveryRestore s1 recoverySnapshot, RestoreFrom accounts1 accountSnapshot), Some err)
                               | (s1, None) \<Rightarrow> ((s1, accounts1), None)))))))"

definition GetByLocator :: "RecoveryCapsuleStateStore \<Rightarrow> string \<Rightarrow> RecoveryCapsuleState option" where
  "GetByLocator s locator = rc_byLocator s (ToLower (TrimSpace locator))"

definition GetByOwner :: "RecoveryCapsuleStateStore \<Rightarrow> string \<Rightarrow> RecoveryCapsuleState option" where
  "GetByOwner s owner =
     rc_byLocator s (case rc_ownerIndex s (ToLower (TrimSpace owner)) of None \<Rightarrow> [] | Some l \<Rightarrow> l)"

definition RecoveryCount :: "RecoveryCapsuleStateStore \<Rightarrow> nat" where
  "RecoveryCount s = card (dom (rc_byLocator s))"

definition RecoveryStateRoot :: "recovery_env \<Rightarrow> RecoveryCapsuleStateStore \<Rightarrow> string list \<Rightarrow> string" where
  "RecoveryStateRoot e s ks =
     EncodeToString (rv_sha256 e
       (concat (map (\<lambda>l. rv_marshal_state e (the (rc_byLocator s l)) @ [CHR 0x0A]) (sort ks))))"

section \<open>Words, in whatever spacing and case they were typed\<close>

declare fields_from.simps [simp del]

lemma fields_plain:
  assumes "plain_char a"
  shows "fields_from w (a # s) = fields_from (w @ [a]) s"
proof (cases s rule: trim_left.cases)
  case 1
  then show ?thesis using assms by (simp add: fields_from.simps plain_no_space add_word_def)
next
  case (2 b)
  show ?thesis unfolding 2 by (subst fields_from.simps) (simp add: assms plain_no_space)
next
  case (3 b c)
  show ?thesis unfolding 3 by (subst fields_from.simps) (simp add: assms plain_no_space)
next
  case (4 b c d t)
  show ?thesis unfolding 4 by (subst fields_from.simps) (simp add: assms plain_no_space)
qed

lemma blank_space: "ascii_space (CHR '' '')"
  by code_simp

lemma fields_space: "fields_from w (CHR '' '' # s) = add_word w (fields_from [] s)"
proof (cases s rule: trim_left.cases)
  case 1
  then show ?thesis by (simp add: fields_from.simps blank_space add_word_def)
next
  case (2 b)
  show ?thesis unfolding 2 by (subst fields_from.simps) (simp add: blank_space)
next
  case (3 b c)
  show ?thesis unfolding 3 by (subst fields_from.simps) (simp add: blank_space)
next
  case (4 b c d t)
  show ?thesis unfolding 4 by (subst fields_from.simps) (simp add: blank_space)
qed

lemma fields_word: "list_all plain_char u \<Longrightarrow> fields_from w (u @ s) = fields_from (w @ u) s"
  by (induction u arbitrary: w) (simp_all add: fields_plain)

lemma Fields_Join:
  "list_all (\<lambda>w. w \<noteq> [] \<and> list_all plain_char w) ws \<Longrightarrow> Fields (Join ws '' '') = ws"
proof (induction ws)
  case (Cons w ws)
  have one: "fields_from [] w = [w]" using Cons.prems fields_word [of w "[]" "[]"] by (simp add: fields_from.simps add_word_def)
  show ?case
  proof (cases ws)
    case (Cons v vs)
    then show ?thesis
      using Cons.IH Cons.prems fields_word [of w "[]" "CHR '' '' # Join (v # vs) '' ''"]
      by (simp add: Fields_def add_word_def fields_space)
  qed (simp add: Fields_def one)
qed (simp add: Fields_def fields_from.simps add_word_def)

lemma ToLower_Join: "ToLower (Join ws sep) = Join (map ToLower ws) (ToLower sep)"
  by (induction ws sep rule: Join.induct) (simp_all add: ToLower_def)

definition typed_words :: "string \<Rightarrow> string list \<Rightarrow> bool" where
  "typed_words typed ws \<longleftrightarrow> map ToLower (Fields (TrimPrefix typed bom)) = ws"

definition phrase_words :: "string list \<Rightarrow> bool" where
  "phrase_words ws \<longleftrightarrow> length ws = WordCount \<and> list_all (\<lambda>w. w \<noteq> [] \<and> list_all plain_char w) ws"

lemma normalize_typed: "typed_words typed ws \<Longrightarrow> normalize_words typed = Join ws '' ''"
  by (simp add: typed_words_def normalize_words_def ToLower_Join) (simp add: ToLower_def lower_char_def)

lemma entropy_of_typed:
  assumes "typed_words typed ws" and "phrase_words ws" and "rv_entropy_of e (Join ws '' '') = Some entropy"
    and "length entropy = EntropySize"
  shows "legacyEntropyFromWords e typed = Inr entropy"
  using assms by (simp add: legacyEntropyFromWords_def normalize_typed phrase_words_def Fields_Join Let_def)

section \<open>Capsules\<close>

lemma hash_text:
  assumes "length h = 32"
  shows "EncodeToString h = ToLower (TrimSpace (EncodeToString h))" and "length (EncodeToString h) = 64"
  using assms by (simp_all add: EncodeToString_length)

lemma verified_material:
  assumes "verifyLegacyKeyMaterial e address publicKey privateKey = None"
  shows "length publicKey = mldsa87PublicKeyLen" and "rv_public_of e privateKey = Some publicKey"
    and "ToLower (TrimSpace address) = EncodeToString (rv_sha256 e publicKey)"
  using assms by (auto simp: verifyLegacyKeyMaterial_def EqualFold_def split: option.splits if_splits)

lemma capsule_made:
  assumes "legacyCapsuleFromEntropy e entropy address publicKey privateKey t nonce = Inr c"
  obtains encryptionKey locatorKey where
    "length entropy = EntropySize"
    "verifyLegacyKeyMaterial e address publicKey privateKey = None"
    "deriveLegacyCapsuleKeys e entropy = Inr (encryptionKey, locatorKey)"
    "length (rv_gcm_seal e encryptionKey nonce (capsule_plaintext address publicKey privateKey)
       (legacyCapsuleAAD address (legacyLocator e locatorKey))) \<le> legacyCapsuleMaxCiphertextBytes"
    "c = \<lparr>lc_Version = LegacyCapsuleVersion, lc_Scheme = LegacyCapsuleScheme, lc_Locator = legacyLocator e locatorKey,
          lc_Address = ToLower address, lc_Cipher = ''aes-256-gcm'', lc_Nonce = rv_base64 e nonce,
          lc_Ciphertext = rv_base64 e (rv_gcm_seal e encryptionKey nonce (capsule_plaintext address publicKey privateKey)
            (legacyCapsuleAAD address (legacyLocator e locatorKey))), lc_CreatedAt = rv_format_time e t\<rparr>"
  using assms that
  by (auto simp: legacyCapsuleFromEntropy_def Let_def split: if_splits option.splits sum.splits)

lemma generated_capsule:
  assumes "GenerateLegacyCapsule e address publicKey privateKey entropy now nonce = Inr m"
  shows "legacyCapsuleFromEntropy e entropy address publicKey privateKey now nonce = Inr (lm_Capsule m)"
    and "rv_mnemonic e entropy = Some (lm_Words m)" and "lm_Entropy m = entropy"
  using assms by (auto simp: GenerateLegacyCapsule_def split: option.splits sum.splits)

lemma capsule_plaintext_exact:
  assumes "length address = 64" and "length publicKey = mldsa87PublicKeyLen" and "length privateKey = mldsa87PrivateKeyLen"
  shows "capsule_plaintext address publicKey privateKey = ToLower address @ publicKey @ privateKey"
  using assms
  by (simp add: capsule_plaintext_def legacyCapsulePlaintextBytes_def legacyCapsuleAddressBytes_def ToLower_def)

lemma validated_capsule:
  assumes "ValidateLegacyCapsule e c = None"
  shows "lc_Address c = ToLower (TrimSpace (lc_Address c))" and "lc_Locator c = ToLower (TrimSpace (lc_Locator c))"
    and "lc_Version c = LegacyCapsuleVersion" and "lc_Scheme c = LegacyCapsuleScheme"
  using assms by (auto simp: ValidateLegacyCapsule_def split: if_splits)

text \<open>
  What the capsule relies on: GCM opens what it sealed and adds a tag of 16 bytes, base64 round-trips, SHA-256 and
  HMAC-SHA-256 give 32 bytes, and \<open>UnmarshalBinary\<close> takes only private keys of the right length.
\<close>

definition recovery_libraries :: "recovery_env \<Rightarrow> bool" where
  "recovery_libraries e \<longleftrightarrow>
     (\<forall>k n p a. rv_gcm_open e k n (rv_gcm_seal e k n p a) a = Some p \<and> length (rv_gcm_seal e k n p a) = length p + 16) \<and>
     (\<forall>x. rv_base64_decode e (rv_base64 e x) = Some x) \<and>
     (\<forall>x. length (rv_sha256 e x) = 32) \<and> (\<forall>k x. length (rv_hmac e k x) = 32) \<and>
     (\<forall>k pub. rv_public_of e k = Some pub \<longrightarrow> length k = mldsa87PrivateKeyLen)"

text \<open>
  The BIP39 library on 32 bytes of entropy: the phrase is 24 words of lower-case letters with blanks between them, and it
  decodes to the entropy it was made from.
\<close>

definition bip39_library :: "recovery_env \<Rightarrow> bool" where
  "bip39_library e \<longleftrightarrow> (\<forall>entropy words. length entropy = EntropySize \<and> rv_mnemonic e entropy = Some words \<longrightarrow>
     rv_entropy_of e words = Some entropy \<and>
     (\<exists>ws. words = Join ws '' '' \<and> phrase_words ws \<and> list_all (\<lambda>w. ToLower w = w) ws))"

lemma typed_exactly:
  assumes "phrase_words ws" and "list_all (\<lambda>w. ToLower w = w) ws"
  shows "typed_words (Join ws '' '') ws"
proof -
  from assms(1) obtain c w r where ws: "ws = (c # w) # r" "plain_char c"
    by (cases ws; cases "hd ws") (auto simp: phrase_words_def WordCount_def)
  obtain y where "Join ws '' '' = c # y" unfolding ws(1) by (cases r) simp_all
  moreover have "c \<noteq> byte 239" using ws(2) by (auto simp: plain_char_def byte_def)
  ultimately have "TrimPrefix (Join ws '' '') bom = Join ws '' ''" by (simp add: TrimPrefix_def bom_def)
  moreover have "map ToLower ws = ws" using assms(2) by (simp add: list_all_iff map_idI)
  ultimately show ?thesis using assms(1) by (simp add: typed_words_def phrase_words_def Fields_Join)
qed

lemma lower_address:
  assumes "recovery_libraries e" and "verifyLegacyKeyMaterial e address publicKey privateKey = None"
    and "TrimSpace address = address"
  shows "ToLower address = EncodeToString (rv_sha256 e publicKey)" and "length address = 64"
proof -
  show eq: "ToLower address = EncodeToString (rv_sha256 e publicKey)" using verified_material [OF assms(2)] assms(3) by simp
  have "length (rv_sha256 e publicKey) = 32" using assms(1) by (simp add: recovery_libraries_def)
  then show "length address = 64" using eq EncodeToString_length [of "rv_sha256 e publicKey"]
    by (metis ToLower_def length_map mult_2 numeral_Bit0)
qed

lemma made_capsule_valid:
  assumes lib: "recovery_libraries e"
    and made: "legacyCapsuleFromEntropy e entropy address publicKey privateKey t nonce = Inr c"
    and "TrimSpace address = address" and "length nonce = 12" and "rv_parse_time e (rv_format_time e t) \<noteq> None"
  shows "ValidateLegacyCapsule e c = None"
proof -
  from made obtain encryptionKey locatorKey where c:
      "verifyLegacyKeyMaterial e address publicKey privateKey = None"
      "length (rv_gcm_seal e encryptionKey nonce (capsule_plaintext address publicKey privateKey)
         (legacyCapsuleAAD address (legacyLocator e locatorKey))) \<le> legacyCapsuleMaxCiphertextBytes"
      "c = \<lparr>lc_Version = LegacyCapsuleVersion, lc_Scheme = LegacyCapsuleScheme, lc_Locator = legacyLocator e locatorKey,
          lc_Address = ToLower address, lc_Cipher = ''aes-256-gcm'', lc_Nonce = rv_base64 e nonce,
          lc_Ciphertext = rv_base64 e (rv_gcm_seal e encryptionKey nonce (capsule_plaintext address publicKey privateKey)
            (legacyCapsuleAAD address (legacyLocator e locatorKey))), lc_CreatedAt = rv_format_time e t\<rparr>"
    by (rule capsule_made)
  note addr = lower_address [OF lib c(1) assms(3)]
  have hash: "length (rv_sha256 e publicKey) = 32" "length (rv_hmac e locatorKey legacyCapsuleLocatorInfo) = 32"
    using lib by (simp_all add: recovery_libraries_def)
  have b64: "rv_base64_decode e (rv_base64 e x) = Some x" for x using lib by (simp add: recovery_libraries_def)
  have "length (rv_gcm_seal e k n p a) = length p + 16" for k n p a using lib by (simp add: recovery_libraries_def)
  moreover have "length (capsule_plaintext address publicKey privateKey) = legacyCapsulePlaintextBytes"
    by (simp add: capsule_plaintext_def)
  ultimately have "32 \<le> length (rv_gcm_seal e encryptionKey nonce (capsule_plaintext address publicKey privateKey) a)" for a
    by (simp add: legacyCapsulePlaintextBytes_def legacyCapsuleAddressBytes_def)
  then show ?thesis
    using c(2) assms(4,5) hash
    by (simp add: ValidateLegacyCapsule_def c(3) addr(1) legacyLocator_def b64 not_less)
qed

lemma opened_capsule:
  assumes lib: "recovery_libraries e"
    and made: "legacyCapsuleFromEntropy e entropy address publicKey privateKey t nonce = Inr c"
    and "TrimSpace address = address" and "length nonce = 12" and "rv_parse_time e (rv_format_time e t) \<noteq> None"
    and words: "legacyEntropyFromWords e typed = Inr entropy"
  shows "RestoreLegacyCapsule e typed c =
      Inr \<lparr>lr_PublicKey = publicKey, lr_PrivateKey = privateKey, lr_Address = ToLower address\<rparr>"
    and "LegacyLocatorFromWords e typed = Inr (lc_Locator c)"
proof -
  note valid = made_capsule_valid [OF lib made assms(3-5)]
  from made obtain encryptionKey locatorKey where c:
      "verifyLegacyKeyMaterial e address publicKey privateKey = None"
      "deriveLegacyCapsuleKeys e entropy = Inr (encryptionKey, locatorKey)"
      "c = \<lparr>lc_Version = LegacyCapsuleVersion, lc_Scheme = LegacyCapsuleScheme, lc_Locator = legacyLocator e locatorKey,
          lc_Address = ToLower address, lc_Cipher = ''aes-256-gcm'', lc_Nonce = rv_base64 e nonce,
          lc_Ciphertext = rv_base64 e (rv_gcm_seal e encryptionKey nonce (capsule_plaintext address publicKey privateKey)
            (legacyCapsuleAAD address (legacyLocator e locatorKey))), lc_CreatedAt = rv_format_time e t\<rparr>"
    by (rule capsule_made)
  note addr = lower_address [OF lib c(1) assms(3)] and key = verified_material [OF c(1)]
  have privLen: "length privateKey = mldsa87PrivateKeyLen" using lib key(2) by (simp add: recovery_libraries_def)
  note plain = capsule_plaintext_exact [OF addr(2) key(1) privLen]
  have len: "length (ToLower address) = legacyCapsuleAddressBytes"
    using addr(2) by (simp add: ToLower_def legacyCapsuleAddressBytes_def)
  have again: "verifyLegacyKeyMaterial e (ToLower address) publicKey privateKey = None"
    by (simp add: verifyLegacyKeyMaterial_def EqualFold_def TrimSpace_ToLower key(1,2) assms(3) addr(1))
  have b64: "rv_base64_decode e (rv_base64 e x) = Some x" and opens: "rv_gcm_open e k n (rv_gcm_seal e k n p a) a = Some p"
    for x k n p a using lib by (simp_all add: recovery_libraries_def)
  have aad: "legacyCapsuleAAD (ToLower address) l = legacyCapsuleAAD address l" for l by (simp add: legacyCapsuleAAD_def)
  have sizes: "length (ToLower address @ publicKey @ privateKey) = legacyCapsulePlaintextBytes"
    "take legacyCapsuleAddressBytes (ToLower address @ publicKey @ privateKey) = ToLower address"
    "take mldsa87PublicKeyLen (drop legacyCapsuleAddressBytes (ToLower address @ publicKey @ privateKey)) = publicKey"
    "drop (legacyCapsuleAddressBytes + mldsa87PublicKeyLen) (ToLower address @ publicKey @ privateKey) = privateKey"
    using len key(1) privLen by (simp_all add: legacyCapsulePlaintextBytes_def)
  have fields: "lc_Locator c = legacyLocator e locatorKey" "lc_Address c = ToLower address" "lc_Nonce c = rv_base64 e nonce"
    "lc_Ciphertext c = rv_base64 e (rv_gcm_seal e encryptionKey nonce (ToLower address @ publicKey @ privateKey)
       (legacyCapsuleAAD address (legacyLocator e locatorKey)))" by (simp_all add: c(3) plain)
  show "RestoreLegacyCapsule e typed c =
      Inr \<lparr>lr_PublicKey = publicKey, lr_PrivateKey = privateKey, lr_Address = ToLower address\<rparr>"
    unfolding RestoreLegacyCapsule_def valid words fields
    by (simp only: option.case sum.case prod.case c(2) b64 option.sel aad opens sizes Let_def again refl not_True_eq_False if_False)
  show "LegacyLocatorFromWords e typed = Inr (lc_Locator c)"
    by (simp add: LegacyLocatorFromWords_def words c(2) fields(1))
qed

lemma restored_key:
  assumes "RestoreLegacyCapsule e words c = Inr k"
  shows "ValidateLegacyCapsule e c = None" and "lr_Address k = lc_Address c"
    and "verifyLegacyKeyMaterial e (lr_Address k) (lr_PublicKey k) (lr_PrivateKey k) = None"
proof -
  show valid: "ValidateLegacyCapsule e c = None"
    using assms by (simp add: RestoreLegacyCapsule_def split: option.splits)
  show "lr_Address k = lc_Address c"
    and "verifyLegacyKeyMaterial e (lr_Address k) (lr_PublicKey k) (lr_PrivateKey k) = None"
    using assms by (auto simp: RestoreLegacyCapsule_def Let_def split: option.splits sum.splits prod.splits if_splits)
qed

section \<open>The register\<close>

lemma valid_hash: "validRecoveryHash h \<Longrightarrow> h \<noteq> [] \<and> ToLower (TrimSpace h) = h"
  by (auto simp: validRecoveryHash_def)

lemma valid_action:
  assumes "validateRecoveryCapsuleAction e a = None"
  shows "validRecoveryHash (rca_Sender a)" and "validRecoveryHash (rca_Locator a)"
    and "lc_Locator (rca_Capsule a) = rca_Locator a" and "lc_Address (rca_Capsule a) = rca_Sender a"
    and "ValidateLegacyCapsule e (rca_Capsule a) = None"
  using assms by (auto simp: validateRecoveryCapsuleAction_def split: if_splits option.splits)

text \<open>Every record is filed under its own locator and its owner points back to it.\<close>

definition recovery_ok :: "recovery_env \<Rightarrow> RecoveryCapsuleStateStore \<Rightarrow> bool" where
  "recovery_ok e s \<longleftrightarrow> finite (dom (rc_byLocator s)) \<and>
     (\<forall>l st. rc_byLocator s l = Some st \<longrightarrow>
        rcs_Locator st = l \<and> rc_ownerIndex s (rcs_Owner st) = Some l \<and> rcs_ActionID st \<in> rc_actionIDs s \<and>
        validRecoveryHash l \<and> validRecoveryHash (rcs_Owner st) \<and>
        lc_Locator (rcs_Capsule st) = l \<and> lc_Address (rcs_Capsule st) = rcs_Owner st \<and>
        ValidateLegacyCapsule e (rcs_Capsule st) = None) \<and>
     (\<forall>w l. rc_ownerIndex s w = Some l \<longrightarrow> (\<exists>st. rc_byLocator s l = Some st \<and> rcs_Owner st = w))"

lemma recovery_record:
  assumes "recovery_ok e s" and "rc_byLocator s l = Some st"
  shows "rcs_Locator st = l" and "rc_ownerIndex s (rcs_Owner st) = Some l" and "rcs_ActionID st \<in> rc_actionIDs s"
    and "validRecoveryHash l" and "validRecoveryHash (rcs_Owner st)"
    and "lc_Locator (rcs_Capsule st) = l" and "lc_Address (rcs_Capsule st) = rcs_Owner st"
    and "ValidateLegacyCapsule e (rcs_Capsule st) = None"
  using assms by (simp_all add: recovery_ok_def)

lemma recovery_owner:
  assumes "recovery_ok e s" and "rc_ownerIndex s w = Some l"
  obtains st where "rc_byLocator s l = Some st" and "rcs_Owner st = w"
  using assms unfolding recovery_ok_def by blast

lemma recovery_applied:
  assumes "recovery_applyAction e s a = (s', None)"
  shows "validateRecoveryCapsuleAction e a = None" and "rca_ID a \<notin> rc_actionIDs s"
    and "rc_byLocator s (rca_Locator a) = Some st \<Longrightarrow> rcs_Owner st = rca_Sender a"
    and "rc_actionIDs s' = insert (rca_ID a) (rc_actionIDs s)"
    and "rc_ownerIndex s' = (rc_ownerIndex s)(rca_Sender a \<mapsto> rca_Locator a)"
    and "rc_byLocator s' l =
      (if l = rca_Locator a then Some (registered a)
       else if l \<noteq> [] \<and> rc_ownerIndex s (rca_Sender a) = Some l then None else rc_byLocator s l)"
  using assms
  by (auto simp: recovery_applyAction_def registered_def Let_def split: option.splits if_splits)

lemma recovery_refused: "recovery_applyAction e s a = (s', Some err) \<Longrightarrow> s' = s"
  by (auto simp: recovery_applyAction_def Let_def split: option.splits if_splits)

lemma recovery_kept_record:
  assumes ok: "recovery_ok e s" and app: "recovery_applyAction e s a = (s', None)"
    and "rc_byLocator s l = Some st" and other: "rcs_Owner st \<noteq> rca_Sender a"
  shows "rc_byLocator s' l = Some st"
proof -
  have "rc_ownerIndex s (rca_Sender a) \<noteq> Some l"
    using recovery_owner [OF ok, of "rca_Sender a" l] assms(3) other by auto
  moreover have "l \<noteq> rca_Locator a" using recovery_applied(3) [OF app] assms(3) other by auto
  ultimately show ?thesis using assms(3) by (simp add: recovery_applied(6) [OF app])
qed

lemma recovery_old_record:
  assumes ok: "recovery_ok e s" and app: "recovery_applyAction e s a = (s', None)"
    and new: "rc_byLocator s' l = Some st" and "l \<noteq> rca_Locator a"
  shows "rc_byLocator s l = Some st" and "rcs_Owner st \<noteq> rca_Sender a"
proof -
  have old: "rc_byLocator s l = Some st" "\<not> (l \<noteq> [] \<and> rc_ownerIndex s (rca_Sender a) = Some l)"
    using new assms(4) by (auto simp: recovery_applied(6) [OF app] split: if_splits)
  show "rc_byLocator s l = Some st" by (rule old)
  show "rcs_Owner st \<noteq> rca_Sender a"
    using recovery_record(2,4) [OF ok old(1)] old(2) valid_hash by auto
qed

lemma recovery_ok_applied:
  assumes ok: "recovery_ok e s" and app: "recovery_applyAction e s a = (s', None)"
  shows "recovery_ok e s'"
proof -
  note val = valid_action [OF recovery_applied(1) [OF app]]
  have "dom (rc_byLocator s') \<subseteq> insert (rca_Locator a) (dom (rc_byLocator s))"
    by (auto simp: recovery_applied(6) [OF app] split: if_splits)
  then have fin: "finite (dom (rc_byLocator s'))" using ok finite_subset by (auto simp: recovery_ok_def)
  have records: "rcs_Locator st = l \<and> rc_ownerIndex s' (rcs_Owner st) = Some l \<and> rcs_ActionID st \<in> rc_actionIDs s' \<and>
        validRecoveryHash l \<and> validRecoveryHash (rcs_Owner st) \<and>
        lc_Locator (rcs_Capsule st) = l \<and> lc_Address (rcs_Capsule st) = rcs_Owner st \<and>
        ValidateLegacyCapsule e (rcs_Capsule st) = None" if st: "rc_byLocator s' l = Some st" for l st
  proof (cases "l = rca_Locator a")
    case True
    then have "st = registered a" using st by (simp add: recovery_applied(6) [OF app])
    then show ?thesis using True val by (simp add: registered_def recovery_applied(4,5) [OF app])
  next
    case False
    note old = recovery_old_record [OF ok app st False]
    show ?thesis using recovery_record [OF ok old(1)] old(2) by (simp add: recovery_applied(4,5) [OF app])
  qed
  have owners: "\<exists>st. rc_byLocator s' l = Some st \<and> rcs_Owner st = w" if w: "rc_ownerIndex s' w = Some l" for w l
  proof (cases "w = rca_Sender a")
    case True
    then show ?thesis using w by (auto simp: recovery_applied(5,6) [OF app] registered_def)
  next
    case False
    then have "rc_ownerIndex s w = Some l" using w by (simp add: recovery_applied(5) [OF app])
    then obtain st where "rc_byLocator s l = Some st" "rcs_Owner st = w" using recovery_owner [OF ok] by blast
    then show ?thesis using recovery_kept_record [OF ok app] False by blast
  qed
  show ?thesis unfolding recovery_ok_def using fin records owners by blast
qed

lemma recovery_ok_action: "recovery_ok e s \<Longrightarrow> recovery_ok e (fst (recovery_applyAction e s a))"
  by (cases "recovery_applyAction e s a"; cases "snd (recovery_applyAction e s a)")
    (auto dest: recovery_ok_applied recovery_refused)

lemma recovery_ok_new: "recovery_ok e NewRecoveryCapsuleStateStore"
  by (simp add: recovery_ok_def NewRecoveryCapsuleStateStore_def)

lemma recovery_clone [simp]: "RecoveryClone s = s" "RecoveryRestore s t = t"
  by (simp_all add: RecoveryClone_def RecoveryRestore_def)

section \<open>Transactions\<close>

lemma decoded_action:
  assumes "DecodeRecoveryCapsuleTx e tx = Inr a"
  shows "rca_ID a = tx_ID tx" and "rca_Sender a = tx_Sender tx" and "rca_Nonce a = tx_Nonce tx"
    and "tx_ContractID tx = RecoveryCapsuleContractID" and "rv_json e (tx_Payload tx) = Some a"
    and "rv_marshal e a = Some (tx_Payload tx)"
  using assms by (auto simp: DecodeRecoveryCapsuleTx_def split: if_splits option.splits)

lemma verified_recovery_tx:
  assumes "VerifyRecoveryCapsuleTx e tx = None"
  obtains a publicKey signature where
    "DecodeRecoveryCapsuleTx e tx = Inr a" "validateRecoveryCapsuleAction e a = None"
    "DecodeHex (TrimSpace (tx_PublicKey tx)) = Some publicKey" "DecodeHex (TrimSpace (tx_Signature tx)) = Some signature"
    "EncodeToString (rv_sha256 e publicKey) = tx_Sender tx" "rv_mldsa_verify e (tx_Payload tx) signature publicKey"
proof -
  obtain a where a: "DecodeRecoveryCapsuleTx e tx = Inr a" "validateRecoveryCapsuleAction e a = None"
    using assms by (auto simp: VerifyRecoveryCapsuleTx_def split: sum.splits option.splits)
  note dec = decoded_action [OF a(1)]
  have lower: "ToLower (tx_Sender tx) = tx_Sender tx"
    using valid_action(1) [OF a(2)] dec(2) by (simp add: validRecoveryHash_def)
  obtain publicKey signature where k: "DecodeHex (TrimSpace (tx_PublicKey tx)) = Some publicKey"
      "DecodeHex (TrimSpace (tx_Signature tx)) = Some signature"
      "EqualFold (EncodeToString (rv_sha256 e publicKey)) (rca_Sender a)" "rv_mldsa_verify e (tx_Payload tx) signature publicKey"
    using assms dec(6) by (auto simp: VerifyRecoveryCapsuleTx_def a split: option.splits if_splits)
  have "EncodeToString (rv_sha256 e publicKey) = tx_Sender tx"
    using k(3) lower dec(2) by (simp add: EqualFold_def)
  then show thesis using that [OF a k(1,2) _ k(4)] by blast
qed

lemma recovery_economic_cases:
  obtains (refused) err where "RecoveryApplyEconomicTx e (s, acs) tx = ((s, acs), Some err)"
  | (applied) a s' acs' where
      "VerifyRecoveryCapsuleTx e tx = None" "DecodeRecoveryCapsuleTx e tx = Inr a"
      "recovery_applyAction e s a = (s', None)"
      "ChargeAndBumpNonce acs (tx_Sender tx) 0 (tx_Nonce tx) = (acs', None)"
      "RecoveryApplyEconomicTx e (s, acs) tx = ((s', acs'), None)"
proof (cases "VerifyRecoveryCapsuleTx e tx")
  case None
  then obtain a where a: "DecodeRecoveryCapsuleTx e tx = Inr a" by (rule verified_recovery_tx)
  note dec = decoded_action [OF a]
  show thesis
  proof (cases "recovery_applyAction e s a")
    case (Pair s' r)
    show thesis
    proof (cases r)
      case (Some err)
      then show thesis using refused None a Pair by (simp add: RecoveryApplyEconomicTx_def)
    next
      case ok: None
      show thesis
      proof (cases "ChargeAndBumpNonce acs (tx_Sender tx) 0 (tx_Nonce tx)")
        case (Pair acs' q)
        note charge = this
        show thesis
        proof (cases q)
          case (Some err)
          then have "acs' = acs" using charge charge_err_keeps by simp
          then show thesis
            using refused None a Some ok charge \<open>recovery_applyAction e s a = (s', r)\<close> dec
            by (simp add: RecoveryApplyEconomicTx_def Let_def)
        next
          case q: None
          then show thesis
            using applied [OF None a, of s' acs'] ok charge \<open>recovery_applyAction e s a = (s', r)\<close> dec None a
            by (simp add: RecoveryApplyEconomicTx_def Let_def)
        qed
      qed
    qed
  qed
next
  case (Some err)
  then show thesis using refused by (simp add: RecoveryApplyEconomicTx_def)
qed

text \<open>The states a node reaches by applying, replaying and rolling back to a state reached before.\<close>

inductive recovery_reach :: "recovery_env \<Rightarrow> RecoveryCapsuleStateStore \<Rightarrow> bool" for e where
  start: "recovery_reach e NewRecoveryCapsuleStateStore"
| economic: "recovery_reach e s \<Longrightarrow> recovery_reach e (fst (fst (RecoveryApplyEconomicTx e (s, acs) tx)))"
| historical: "recovery_reach e s \<Longrightarrow> recovery_reach e (fst (RecoveryApplyHistoricalTx e s tx))"
| rollback: "recovery_reach e s \<Longrightarrow> recovery_reach e t \<Longrightarrow> recovery_reach e (RecoveryRestore s (RecoveryClone t))"

lemma recovery_ok_economic: "recovery_ok e s \<Longrightarrow> recovery_ok e (fst (fst (RecoveryApplyEconomicTx e (s, acs) tx)))"
  by (cases rule: recovery_economic_cases [of e s acs tx]) (simp_all add: recovery_ok_applied)

lemma recovery_ok_historical: "recovery_ok e s \<Longrightarrow> recovery_ok e (fst (RecoveryApplyHistoricalTx e s tx))"
  by (simp add: RecoveryApplyHistoricalTx_def recovery_ok_action split: option.split sum.split)

lemma recovery_reach_ok: "recovery_reach e s \<Longrightarrow> recovery_ok e s"
  by (induction rule: recovery_reach.induct)
    (simp_all add: recovery_ok_new recovery_ok_economic recovery_ok_historical)

lemma get_by_owner:
  assumes "recovery_ok e s"
  shows "GetByOwner s w = (case rc_ownerIndex s (ToLower (TrimSpace w)) of None \<Rightarrow> None | Some l \<Rightarrow> rc_byLocator s l)"
proof -
  have "rc_byLocator s [] = None" using recovery_record(4) [OF assms, of "[]"] valid_hash by fastforce
  then show ?thesis by (simp add: GetByOwner_def split: option.split)
qed

lemma get_by_owner_applied:
  assumes ok: "recovery_ok e s" and app: "recovery_applyAction e s a = (s', None)"
  shows "GetByOwner s' w = (if ToLower (TrimSpace w) = rca_Sender a then Some (registered a) else GetByOwner s w)"
proof (cases "ToLower (TrimSpace w) = rca_Sender a")
  case True
  then show ?thesis by (simp add: get_by_owner [OF recovery_ok_applied [OF ok app]] recovery_applied(5,6) [OF app])
next
  case False
  show ?thesis
  proof (cases "rc_ownerIndex s (ToLower (TrimSpace w))")
    case (Some l)
    then obtain st where st: "rc_byLocator s l = Some st" "rcs_Owner st = ToLower (TrimSpace w)" by (rule recovery_owner [OF ok])
    then show ?thesis
      using recovery_kept_record [OF ok app st(1)] False Some
      by (simp add: get_by_owner [OF ok] get_by_owner [OF recovery_ok_applied [OF ok app]] recovery_applied(5) [OF app])
  qed (use False in \<open>simp add: get_by_owner [OF ok] get_by_owner [OF recovery_ok_applied [OF ok app]]
      recovery_applied(5) [OF app]\<close>)
qed

section \<open>A concrete capsule\<close>

definition demo_rc_locator :: string where "demo_rc_locator = EncodeToString (replicate 32 (CHR ''B''))"

definition demo_rc_capsule :: LegacyCapsule where
  "demo_rc_capsule = \<lparr>lc_Version = 1, lc_Scheme = LegacyCapsuleScheme, lc_Locator = demo_rc_locator, lc_Address = demo_holder,
     lc_Cipher = ''aes-256-gcm'', lc_Nonce = replicate 12 (CHR ''n''), lc_Ciphertext = replicate 40 (CHR ''c''),
     lc_CreatedAt = ''t''\<rparr>"

definition demo_rc_action :: RecoveryCapsuleAction where
  "demo_rc_action = \<lparr>rca_ID = ''r1'', rca_Sender = demo_holder, rca_Action = RecoveryCapsuleActionRegister,
     rca_Locator = demo_rc_locator, rca_Capsule = demo_rc_capsule, rca_Nonce = 4, rca_Timestamp = ''t''\<rparr>"

definition demo_rc_words :: "string list" where "demo_rc_words = replicate 24 ''ab''"
definition demo_private :: string where "demo_private = replicate 4896 (CHR ''p'')"

definition demo_recovery_env :: recovery_env where
  "demo_recovery_env = \<lparr>rv_json = (\<lambda>_. Some demo_rc_action), rv_marshal = (\<lambda>_. Some ''P''),
     rv_marshal_state = rcs_ActionID, rv_parse_time = (\<lambda>_. Some 0), rv_format_time = (\<lambda>_. ''t''),
     rv_sha256 = (\<lambda>_. replicate 32 (CHR ''A'')), rv_mldsa_verify = (\<lambda>_ _ _. True),
     rv_key_from_seed = (\<lambda>_. (demo_key, demo_private)),
     rv_public_of = (\<lambda>k. if length k = mldsa87PrivateKeyLen then Some demo_key else None),
     rv_base64 = (\<lambda>x. x), rv_base64_decode = Some, rv_hkdf = (\<lambda>ent salt info n. Some (replicate n (CHR ''h''))),
     rv_hmac = (\<lambda>_ _. replicate 32 (CHR ''B'')),
     rv_gcm_seal = (\<lambda>k n p a. p @ replicate 16 (CHR ''x'')), rv_gcm_open = (\<lambda>k n c a. Some (take (length c - 16) c)),
     rv_mnemonic = (\<lambda>x. if x = replicate 32 (CHR ''e'') then Some (Join demo_rc_words '' '') else None),
     rv_entropy_of = (\<lambda>_. Some (replicate 32 (CHR ''e'')))\<rparr>"

definition demo_rc_tx :: Tx where
  "demo_rc_tx = demo_token_tx\<lparr>tx_ID := ''r1'', tx_ContractID := RecoveryCapsuleContractID\<rparr>"

lemma demo_recovery_libraries: "recovery_libraries demo_recovery_env"
  by (simp add: recovery_libraries_def demo_recovery_env_def)

lemma demo_key_verifies: "verifyLegacyKeyMaterial demo_recovery_env demo_holder demo_key demo_private = None"
  by (simp add: verifyLegacyKeyMaterial_def demo_recovery_env_def demo_key_def demo_private_def mldsa87PublicKeyLen_def
      mldsa87PrivateKeyLen_def EqualFold_def demo_holder_def)

lemma demo_rc_valid: "validateRecoveryCapsuleAction demo_recovery_env demo_rc_action = None"
proof -
  have "validRecoveryIdentifier ''r1'' 128" by code_simp
  moreover have "validRecoveryHash demo_holder" "validRecoveryHash demo_rc_locator"
    by (simp_all add: validRecoveryHash_def demo_holder_def demo_rc_locator_def)
  moreover have "ValidateLegacyCapsule demo_recovery_env demo_rc_capsule = None"
    by (simp add: ValidateLegacyCapsule_def demo_rc_capsule_def LegacyCapsuleVersion_def demo_holder_def demo_rc_locator_def
        demo_recovery_env_def legacyCapsuleMaxCiphertextBytes_def)
  ultimately show ?thesis
    by (simp add: validateRecoveryCapsuleAction_def demo_rc_action_def) (simp add: demo_rc_capsule_def demo_recovery_env_def)
qed

lemma demo_rc_verified: "VerifyRecoveryCapsuleTx demo_recovery_env demo_rc_tx = None"
proof -
  have d: "DecodeRecoveryCapsuleTx demo_recovery_env demo_rc_tx = Inr demo_rc_action"
    by (simp add: DecodeRecoveryCapsuleTx_def demo_rc_tx_def demo_token_tx_def RecoveryCapsuleMaxPayloadBytes_def
        demo_recovery_env_def demo_rc_action_def) (simp add: demo_holder_def EncodeToString_def hex_byte_def Let_def)
  have "feq (Fin 0) 0" by (simp add: feq_def zero_float64_def)
  then show ?thesis
    by (simp add: VerifyRecoveryCapsuleTx_def d demo_rc_valid)
      (simp add: demo_rc_tx_def demo_token_tx_def demo_key_def mldsa87PublicKeyLen_def mldsa87SignatureLen_def
        demo_recovery_env_def EqualFold_def demo_rc_action_def demo_holder_def)
qed

lemma demo_rc_applies:
  "snd (RecoveryApplyEconomicTx demo_recovery_env (NewRecoveryCapsuleStateStore, demo_token_accounts) demo_rc_tx) = None"
proof -
  obtain a where a: "DecodeRecoveryCapsuleTx demo_recovery_env demo_rc_tx = Inr a"
      "validateRecoveryCapsuleAction demo_recovery_env a = None"
    using demo_rc_verified by (rule verified_recovery_tx)
  have "snd (recovery_applyAction demo_recovery_env NewRecoveryCapsuleStateStore a) = None"
    by (simp add: recovery_applyAction_def a NewRecoveryCapsuleStateStore_def Let_def)
  moreover have "snd (ChargeAndBumpNonce demo_token_accounts (rca_Sender a) 0 (rca_Nonce a)) = None"
    by (simp add: decoded_action [OF a(1)] ChargeAndBumpNonce_def demo_token_accounts_def demo_rc_tx_def)
      (simp add: demo_token_tx_def zero_float64_def)
  ultimately show ?thesis
    by (cases "recovery_applyAction demo_recovery_env NewRecoveryCapsuleStateStore a";
        cases "ChargeAndBumpNonce demo_token_accounts (rca_Sender a) 0 (rca_Nonce a)")
      (simp add: RecoveryApplyEconomicTx_def demo_rc_verified a Let_def)
qed

section \<open>Properties\<close>

text \<open>
  C33. In every state a node reaches by applying, replaying and rolling back registrations, owners and locators
  correspond one to one, the count is the number of owners, and every record is found under its locator and under its
  owner and holds a well-formed capsule for that owner and locator.\<close>

theorem recovery_register_consistent:
  assumes "recovery_reach e s"
  shows "bij_betw (\<lambda>w. the (rc_ownerIndex s w)) (dom (rc_ownerIndex s)) (dom (rc_byLocator s)) \<and>
    RecoveryCount s = card (dom (rc_ownerIndex s)) \<and>
    (\<forall>l st. rc_byLocator s l = Some st \<longrightarrow>
       GetByLocator s l = Some st \<and> GetByOwner s (rcs_Owner st) = Some st \<and>
       lc_Locator (rcs_Capsule st) = l \<and> lc_Address (rcs_Capsule st) = rcs_Owner st \<and>
       ValidateLegacyCapsule e (rcs_Capsule st) = None)"
proof -
  note ok = recovery_reach_ok [OF assms]
  have "inj_on (\<lambda>w. the (rc_ownerIndex s w)) (dom (rc_ownerIndex s))"
  proof (rule inj_onI)
    fix v w assume "v \<in> dom (rc_ownerIndex s)" "w \<in> dom (rc_ownerIndex s)"
      "the (rc_ownerIndex s v) = the (rc_ownerIndex s w)"
    then obtain l where "rc_ownerIndex s v = Some l" "rc_ownerIndex s w = Some l" by auto
    then show "v = w" using recovery_owner [OF ok] by (metis option.inject)
  qed
  moreover have "(\<lambda>w. the (rc_ownerIndex s w)) ` dom (rc_ownerIndex s) = dom (rc_byLocator s)"
  proof (intro equalityI subsetI)
    fix l assume "l \<in> dom (rc_byLocator s)"
    then obtain st where "rc_byLocator s l = Some st" by auto
    then have "rc_ownerIndex s (rcs_Owner st) = Some l" by (rule recovery_record(2) [OF ok])
    then show "l \<in> (\<lambda>w. the (rc_ownerIndex s w)) ` dom (rc_ownerIndex s)" by (intro image_eqI [of _ _ "rcs_Owner st"]) auto
  qed (auto, metis recovery_owner [OF ok])
  ultimately have bij: "bij_betw (\<lambda>w. the (rc_ownerIndex s w)) (dom (rc_ownerIndex s)) (dom (rc_byLocator s))"
    by (simp add: bij_betw_def)
  have "GetByLocator s l = Some st \<and> GetByOwner s (rcs_Owner st) = Some st" if st: "rc_byLocator s l = Some st" for l st
    using recovery_record(2,4,5) [OF ok st] valid_hash st by (simp add: GetByLocator_def get_by_owner [OF ok])
  then show ?thesis
    using bij bij_betw_same_card [OF bij] recovery_record(6-8) [OF ok] by (simp add: RecoveryCount_def)
qed

theorem recovery_register_consistent_witness:
  "RecoveryCount (fst (fst (RecoveryApplyEconomicTx demo_recovery_env (NewRecoveryCapsuleStateStore, demo_token_accounts) demo_rc_tx))) =
   card (dom (rc_ownerIndex (fst (fst (RecoveryApplyEconomicTx demo_recovery_env
     (NewRecoveryCapsuleStateStore, demo_token_accounts) demo_rc_tx)))))"
  using recovery_register_consistent [OF recovery_reach.economic [OF recovery_reach.start]] by blast

text \<open>
  C34. A registration that is applied was signed, over exactly its payload, with a key whose hash is the sender; its
  identifier is new and is used up, the sender's nonce advances, the sender's record becomes the new capsule, and what is
  registered for every other wallet stays as it was.\<close>

theorem capsule_registered_by_owner:
  assumes "recovery_reach e s" and "RecoveryApplyEconomicTx e (s, acs) tx = ((s', acs'), None)"
  shows "(\<exists>publicKey signature. DecodeHex (TrimSpace (tx_PublicKey tx)) = Some publicKey \<and>
      DecodeHex (TrimSpace (tx_Signature tx)) = Some signature \<and> EncodeToString (rv_sha256 e publicKey) = tx_Sender tx \<and>
      rv_mldsa_verify e (tx_Payload tx) signature publicKey) \<and>
    tx_ID tx \<notin> rc_actionIDs s \<and> rc_actionIDs s' = insert (tx_ID tx) (rc_actionIDs s) \<and>
    map_option acc_Nonce (as_accounts acs' (tx_Sender tx)) = Some (tx_Nonce tx + 1) \<and>
    (\<exists>a. rv_json e (tx_Payload tx) = Some a \<and> GetByOwner s' (tx_Sender tx) = Some (registered a) \<and>
       GetByLocator s' (rca_Locator a) = Some (registered a)) \<and>
    (\<forall>w. ToLower (TrimSpace w) \<noteq> tx_Sender tx \<longrightarrow> GetByOwner s' w = GetByOwner s w)"
proof (cases rule: recovery_economic_cases [of e s acs tx])
  case (refused err)
  then show ?thesis using assms(2) by simp
next
  case (applied a t bcs)
  then have eq: "t = s'" "bcs = acs'" using assms(2) by simp_all
  note ok = recovery_reach_ok [OF assms(1)] and app = applied(3) [unfolded eq] and dec = decoded_action [OF applied(2)]
  note val = valid_action [OF recovery_applied(1) [OF app]]
  from applied(1) have "\<exists>publicKey signature. DecodeHex (TrimSpace (tx_PublicKey tx)) = Some publicKey \<and>
      DecodeHex (TrimSpace (tx_Signature tx)) = Some signature \<and> EncodeToString (rv_sha256 e publicKey) = tx_Sender tx \<and>
      rv_mldsa_verify e (tx_Payload tx) signature publicKey" by (rule verified_recovery_tx) blast
  moreover have "map_option acc_Nonce (as_accounts acs' (tx_Sender tx)) = Some (tx_Nonce tx + 1)"
    using applied(4) eq by (auto simp: ChargeAndBumpNonce_def split: option.splits if_splits)
  moreover have "GetByOwner s' (tx_Sender tx) = Some (registered a)"
    using val(1) valid_hash dec(2) by (simp add: get_by_owner_applied [OF ok app])
  moreover have "GetByLocator s' (rca_Locator a) = Some (registered a)"
    using val(2) valid_hash by (simp add: GetByLocator_def recovery_applied(6) [OF app])
  ultimately show ?thesis
    using recovery_applied(2,4) [OF app] dec get_by_owner_applied [OF ok app] by simp
qed

theorem capsule_registered_by_owner_witness:
  "map_option acc_Nonce (as_accounts (snd (fst (RecoveryApplyEconomicTx demo_recovery_env
     (NewRecoveryCapsuleStateStore, demo_token_accounts) demo_rc_tx))) demo_holder) = Some 5"
proof -
  let ?r = "RecoveryApplyEconomicTx demo_recovery_env (NewRecoveryCapsuleStateStore, demo_token_accounts) demo_rc_tx"
  have "?r = ((fst (fst ?r), snd (fst ?r)), None)" using demo_rc_applies by (metis prod.collapse)
  from capsule_registered_by_owner [OF recovery_reach.start this] show ?thesis by (simp add: demo_rc_tx_def demo_token_tx_def)
qed

text \<open>
  A registration that is refused changes neither the register nor the accounts, what the admission check refuses is
  refused with the same error, and an identifier that was used before is always refused.\<close>

theorem recovery_tx_refused:
  shows "(\<forall>err. snd (RecoveryApplyEconomicTx e (s, acs) tx) = Some err \<longrightarrow>
      fst (RecoveryApplyEconomicTx e (s, acs) tx) = (s, acs)) \<and>
    (\<forall>next_check err. tx_ContractID tx = RecoveryCapsuleContractID \<longrightarrow>
       RecoveryCapsuleAdmissionChecker e next_check tx = Some err \<longrightarrow>
       RecoveryApplyEconomicTx e (s, acs) tx = ((s, acs), Some err)) \<and>
    (tx_ID tx \<in> rc_actionIDs s \<longrightarrow> (\<exists>err. RecoveryApplyEconomicTx e (s, acs) tx = ((s, acs), Some err)))"
proof (cases rule: recovery_economic_cases [of e s acs tx])
  case (refused err)
  then show ?thesis by (auto simp: RecoveryCapsuleAdmissionChecker_def) (simp add: RecoveryApplyEconomicTx_def)
next
  case (applied a t bcs)
  then show ?thesis
    using recovery_applied(2) [OF applied(3)] decoded_action(1) [OF applied(2)]
    by (simp add: RecoveryCapsuleAdmissionChecker_def)
qed

theorem recovery_tx_refused_witness:
  "\<exists>err. RecoveryApplyEconomicTx demo_recovery_env (NewRecoveryCapsuleStateStore\<lparr>rc_actionIDs := {''r1''}\<rparr>, demo_token_accounts)
     demo_rc_tx = ((NewRecoveryCapsuleStateStore\<lparr>rc_actionIDs := {''r1''}\<rparr>, demo_token_accounts), Some err)"
  using recovery_tx_refused [of demo_recovery_env "NewRecoveryCapsuleStateStore\<lparr>rc_actionIDs := {''r1''}\<rparr>" demo_token_accounts demo_rc_tx]
  by (simp add: demo_rc_tx_def)

text \<open>
  The keys a capsule gives back always belong to the address in the capsule: the private key has the public key, and
  the hash of the public key is the address, whoever made the capsule.\<close>

theorem restored_key_matches_address:
  assumes "RestoreLegacyCapsule e words c = Inr k"
  shows "rv_public_of e (lr_PrivateKey k) = Some (lr_PublicKey k) \<and> lr_Address k = lc_Address c \<and>
    lc_Address c = EncodeToString (rv_sha256 e (lr_PublicKey k))"
  using restored_key [OF assms] verified_material [OF restored_key(3) [OF assms]]
    validated_capsule(1) [OF restored_key(1) [OF assms]] by simp

lemma demo_typed_fields: "fields_from [] (concat (replicate n ''AB  '')) = replicate n ''AB''"
  by (induction n) (simp_all add: fields_plain fields_space plain_char_def add_word_def fields_from.simps(1))

lemma demo_rc_typed: "typed_words (concat (replicate 24 ''AB  '')) demo_rc_words" "phrase_words demo_rc_words"
proof -
  have "concat (replicate 24 ''AB  '') = CHR ''A'' # tl (concat (replicate 24 ''AB  ''))"
    using replicate_Suc [of 23 "''AB  ''"] by (simp del: replicate_Suc)
  then obtain t where "concat (replicate 24 ''AB  '') = CHR ''A'' # t" by blast
  moreover have "CHR ''A'' \<noteq> byte 239" by code_simp
  ultimately have "TrimPrefix (concat (replicate 24 ''AB  '')) bom = concat (replicate 24 ''AB  '')"
    by (simp only: TrimPrefix_def bom_def list.size take_Suc_Cons list.inject simp_thms if_False One_nat_def add_Suc_right add_0_right)
  moreover have "ToLower ''AB'' = ''ab''" by code_simp
  ultimately show "typed_words (concat (replicate 24 ''AB  '')) demo_rc_words"
    by (simp add: typed_words_def Fields_def demo_typed_fields demo_rc_words_def)
  show "phrase_words demo_rc_words"
    by (simp add: phrase_words_def demo_rc_words_def WordCount_def list_all_iff plain_char_def)
qed

definition demo_rc_material :: LegacyCapsuleMaterial where
  "demo_rc_material =
     (case GenerateLegacyCapsule demo_recovery_env demo_holder demo_key demo_private (replicate 32 (CHR ''e'')) 0
             (replicate 12 (CHR ''n'')) of
        Inr m \<Rightarrow> m | Inl _ \<Rightarrow> \<lparr>lm_Words = [], lm_Entropy = [], lm_Capsule = demo_rc_capsule\<rparr>)"

lemma generate_succeeds:
  assumes "recovery_libraries e" and "verifyLegacyKeyMaterial e address publicKey privateKey = None"
    and "rv_mnemonic e entropy = Some words" and "length entropy = EntropySize"
    and "rv_hkdf e entropy legacyCapsuleSalt legacyCapsuleKeyInfo 32 = Some k"
    and "rv_hkdf e entropy legacyCapsuleSalt legacyCapsuleLocatorInfo 32 = Some l"
  obtains m where "GenerateLegacyCapsule e address publicKey privateKey entropy now nonce = Inr m"
proof -
  have "length (rv_gcm_seal e ek n (capsule_plaintext address publicKey privateKey) a) \<le> legacyCapsuleMaxCiphertextBytes" for ek n a
    using assms(1) by (simp add: recovery_libraries_def capsule_plaintext_def legacyCapsulePlaintextBytes_def
        legacyCapsuleAddressBytes_def mldsa87PublicKeyLen_def mldsa87PrivateKeyLen_def legacyCapsuleMaxCiphertextBytes_def)
  then have "\<not> legacyCapsuleMaxCiphertextBytes < length (rv_gcm_seal e ek n (capsule_plaintext address publicKey privateKey) a)"
    for ek n a by (simp add: not_less)
  then show thesis
    using that assms(2-6) by (simp add: GenerateLegacyCapsule_def legacyCapsuleFromEntropy_def deriveLegacyCapsuleKeys_def Let_def)
qed

lemma demo_bip39: "bip39_library demo_recovery_env"
proof -
  have "list_all (\<lambda>w. ToLower w = w) demo_rc_words"
    by (simp add: demo_rc_words_def list_all_iff ToLower_def lower_char_def less_eq_char_def)
  then show ?thesis using demo_rc_typed(2)
    by (auto simp: bip39_library_def demo_recovery_env_def split: if_splits)
qed

lemma demo_rc_generated:
  "GenerateLegacyCapsule demo_recovery_env demo_holder demo_key demo_private (replicate 32 (CHR ''e'')) 0
     (replicate 12 (CHR ''n'')) = Inr demo_rc_material"
proof -
  have "rv_mnemonic demo_recovery_env (replicate 32 (CHR ''e'')) = Some (Join demo_rc_words '' '')"
    "rv_hkdf demo_recovery_env x y z n = Some (replicate n (CHR ''h''))" for x y z n by (simp_all add: demo_recovery_env_def)
  moreover have "length (replicate 32 (CHR ''e'')) = EntropySize" by (simp add: EntropySize_def)
  ultimately obtain m where "GenerateLegacyCapsule demo_recovery_env demo_holder demo_key demo_private (replicate 32 (CHR ''e'')) 0
     (replicate 12 (CHR ''n'')) = Inr m" using generate_succeeds [OF demo_recovery_libraries demo_key_verifies] by metis
  then show ?thesis by (simp add: demo_rc_material_def)
qed

text \<open>
  C35. A capsule made for a wallet whose address has no white space around it hands out 24 words that open it: those words, as they
  are or typed in any case and spacing, restore from the capsule exactly the wallet's keys and its address in lower case, and
  the words alone give the locator under which the capsule is filed. For an address with white space around it
  this fails, as the end of this theory shows.\<close>

theorem legacy_capsule_roundtrip:
  assumes "recovery_libraries e" and "bip39_library e" and "rv_parse_time e (rv_format_time e now) \<noteq> None"
    and "length nonce = 12" and "TrimSpace address = address"
    and "GenerateLegacyCapsule e address publicKey privateKey entropy now nonce = Inr m"
  shows "\<exists>ws. lm_Words m = Join ws '' '' \<and> phrase_words ws \<and> typed_words (lm_Words m) ws \<and>
    (\<forall>typed. typed_words typed ws \<longrightarrow>
       RestoreLegacyCapsule e typed (lm_Capsule m) =
         Inr \<lparr>lr_PublicKey = publicKey, lr_PrivateKey = privateKey, lr_Address = ToLower address\<rparr> \<and>
       LegacyLocatorFromWords e typed = Inr (lc_Locator (lm_Capsule m)))"
proof -
  note made = generated_capsule [OF assms(6)]
  from made(1) have len: "length entropy = EntropySize" by (rule capsule_made)
  with assms(2) made(2) obtain ws where ws: "lm_Words m = Join ws '' ''" "phrase_words ws" "list_all (\<lambda>w. ToLower w = w) ws"
    "rv_entropy_of e (Join ws '' '') = Some entropy" unfolding bip39_library_def by metis
  note open_with = opened_capsule [OF assms(1) made(1) assms(5,4,3) entropy_of_typed [OF _ ws(2,4) len]]
  show ?thesis using ws(1,2) typed_exactly [OF ws(2,3)] open_with by auto
qed

theorem legacy_capsule_roundtrip_witness:
  "RestoreLegacyCapsule demo_recovery_env (lm_Words demo_rc_material) (lm_Capsule demo_rc_material) =
     Inr \<lparr>lr_PublicKey = demo_key, lr_PrivateKey = demo_private, lr_Address = demo_holder\<rparr> \<and>
   RestoreLegacyCapsule demo_recovery_env (concat (replicate 24 ''AB  '')) (lm_Capsule demo_rc_material) =
     Inr \<lparr>lr_PublicKey = demo_key, lr_PrivateKey = demo_private, lr_Address = demo_holder\<rparr>"
proof -
  have time: "rv_parse_time demo_recovery_env x \<noteq> None" for x by (simp add: demo_recovery_env_def)
  have addr: "TrimSpace demo_holder = demo_holder" "ToLower demo_holder = demo_holder" by (simp_all add: demo_holder_def)
  obtain ws where ws: "lm_Words demo_rc_material = Join ws '' ''" "phrase_words ws" "typed_words (lm_Words demo_rc_material) ws"
    "\<And>typed. typed_words typed ws \<Longrightarrow> RestoreLegacyCapsule demo_recovery_env typed (lm_Capsule demo_rc_material) =
       Inr \<lparr>lr_PublicKey = demo_key, lr_PrivateKey = demo_private, lr_Address = demo_holder\<rparr>"
    using legacy_capsule_roundtrip [OF demo_recovery_libraries demo_bip39 time _ addr(1) demo_rc_generated] addr(2) by auto
  have "lm_Words demo_rc_material = Join demo_rc_words '' ''"
    using generated_capsule(2) [OF demo_rc_generated] by (simp add: demo_recovery_env_def)
  with ws(1,2) demo_rc_typed(2) have "ws = demo_rc_words" unfolding phrase_words_def by (metis Fields_Join)
  with ws(3,4) demo_rc_typed(1) show ?thesis by blast
qed

theorem restored_key_matches_address_witness:
  "rv_public_of demo_recovery_env demo_private = Some demo_key \<and> lc_Address (lm_Capsule demo_rc_material) = demo_holder"
proof -
  have "rv_parse_time demo_recovery_env x \<noteq> None" "rv_entropy_of demo_recovery_env x = Some (replicate 32 (CHR ''e''))" for x
    by (simp_all add: demo_recovery_env_def)
  moreover have "TrimSpace demo_holder = demo_holder" "ToLower demo_holder = demo_holder" by (simp_all add: demo_holder_def)
  ultimately have "RestoreLegacyCapsule demo_recovery_env (concat (replicate 24 ''AB  '')) (lm_Capsule demo_rc_material) =
     Inr \<lparr>lr_PublicKey = demo_key, lr_PrivateKey = demo_private, lr_Address = demo_holder\<rparr>"
    using opened_capsule(1) [OF demo_recovery_libraries generated_capsule(1) [OF demo_rc_generated] _ _ _
        entropy_of_typed [OF demo_rc_typed]] by (simp add: EntropySize_def)
  from restored_key_matches_address [OF this] show ?thesis by simp
qed

text \<open>
  A wallet made from fresh words is the wallet those words restore, in whatever case and spacing they are typed.\<close>

theorem recovery_words_roundtrip:
  assumes "Generate e entropy = Inr m" and "mt_Words m = Join ws '' ''" and "phrase_words ws"
    and "rv_entropy_of e (Join ws '' '') = Some entropy" and "typed_words typed ws"
  shows "Restore e typed = Inr m \<and> WordsFromEntropy e (mt_Entropy m) = Inr (mt_Words m)"
proof -
  obtain mat where g: "rv_mnemonic e entropy = Some (mt_Words m)" "materialFromEntropy e entropy = Inr mat"
      "m = mat\<lparr>mt_Words := mt_Words m\<rparr>"
    using assms(1) by (auto simp: Generate_def split: option.splits sum.splits)
  have len: "length entropy = EntropySize" "mt_Entropy mat = entropy"
    using g(2) by (auto simp: materialFromEntropy_def split: if_splits option.splits prod.splits)
  have "Restore e typed = Inr (mat\<lparr>mt_Words := mt_Words m\<rparr>)"
    using assms(2) by (simp add: Restore_def entropy_of_typed [OF assms(5,3,4) len(1)] g(2) normalize_typed [OF assms(5)])
  moreover have "mt_Entropy m = entropy" using g(3) len(2) by (metis Material.select_convs(2) Material.surjective Material.update_convs(1))
  ultimately show ?thesis using g len(1) by (simp add: WordsFromEntropy_def)
qed

theorem recovery_words_roundtrip_witness:
  "\<exists>m. Restore demo_recovery_env (concat (replicate 24 ''AB  '')) = Inr m \<and> mt_Address m = demo_holder"
proof -
  let ?m = "\<lparr>mt_Words = Join demo_rc_words '' '', mt_Entropy = replicate 32 (CHR ''e''), mt_PublicKey = demo_key,
    mt_PrivateKey = demo_private, mt_Address = demo_holder\<rparr>"
  have "Generate demo_recovery_env (replicate 32 (CHR ''e'')) = Inr ?m"
    by (simp add: Generate_def materialFromEntropy_def demo_recovery_env_def EntropySize_def demo_holder_def)
  moreover have "rv_entropy_of demo_recovery_env x = Some (replicate 32 (CHR ''e''))" for x by (simp add: demo_recovery_env_def)
  ultimately show ?thesis
    using recovery_words_roundtrip [OF _ _ demo_rc_typed(2) _ demo_rc_typed(1), of demo_recovery_env "replicate 32 (CHR ''e'')" ?m] by auto
qed

lemma trim_left_suffix: "\<exists>d. s = d @ trim_left s"
proof (induction s rule: trim_left.induct)
  case (3 a b)
  then show ?case by (auto intro: exI [of _ "[]"])
next
  case (4 a b c s)
  then show ?case by auto (metis append_Cons)+
qed auto

lemma TrimSpace_same_length:
  assumes "length (TrimSpace s) = length s"
  shows "TrimSpace s = s"
proof -
  obtain d where d: "s = d @ trim_left s" using trim_left_suffix by blast
  obtain f where f: "rev (trim_left s) = f @ trim_rev (rev (trim_left s))" using trim_rev_suffix by blast
  then have t: "trim_left s = TrimSpace s @ rev f" unfolding TrimSpace_def by (metis rev_append rev_rev_ident)
  have "length s = length d + length (TrimSpace s) + length f" using d t by (metis add.assoc length_append length_rev)
  then have "d = []" "f = []" using assms by simp_all
  then show ?thesis using d t by simp
qed

lemma trim_rev_blank: "trim_rev (CHR '' '' # s) = trim_rev s"
  by (cases s rule: trim_rev.cases) (simp_all add: blank_space)

lemma TrimSpace_padded: "list_all plain_char s \<Longrightarrow> s \<noteq> [] \<Longrightarrow> TrimSpace (s @ '' '') = s"
proof -
  assume s: "list_all plain_char s" "s \<noteq> []"
  then have "\<not> starts_space (s @ '' '')" by (cases s) (auto simp: starts_space_def plain_no_space split: list.split)
  then have "trim_left (s @ '' '') = s @ '' ''" by (simp add: trim_left_fixed)
  then show ?thesis using s(1) by (simp add: TrimSpace_def trim_rev_blank trim_rev_plain)
qed

text \<open>
  An address with white space around it passes the check of the key material, but the capsule made for it fails
  validation: it cannot be registered, and no words open it.\<close>

theorem padded_address_unrecoverable:
  assumes "GenerateLegacyCapsule e address publicKey privateKey entropy now nonce = Inr m" and "TrimSpace address \<noteq> address"
  shows "ValidateLegacyCapsule e (lm_Capsule m) \<noteq> None \<and>
    (\<forall>words. \<exists>err. RestoreLegacyCapsule e words (lm_Capsule m) = Inl err) \<and>
    (\<forall>a. rca_Capsule a = lm_Capsule m \<longrightarrow> validateRecoveryCapsuleAction e a \<noteq> None)"
proof -
  have addr: "lc_Address (lm_Capsule m) = ToLower address"
    using generated_capsule(1) [OF assms(1)] by (rule capsule_made) simp
  have "ToLower (TrimSpace (ToLower address)) \<noteq> ToLower address"
    using TrimSpace_same_length [of address] assms(2) by (metis TrimSpace_ToLower ToLower_idem ToLower_def length_map)
  then have bad: "ValidateLegacyCapsule e (lm_Capsule m) \<noteq> None" using validated_capsule(1) [of e "lm_Capsule m"] addr by auto
  then show ?thesis using valid_action(5) [of e] by (auto simp: RestoreLegacyCapsule_def) (metis option.exhaust)
qed

theorem padded_address_unrecoverable_witness:
  "\<exists>m err. GenerateLegacyCapsule demo_recovery_env (demo_holder @ '' '') demo_key demo_private (replicate 32 (CHR ''e'')) 0
     (replicate 12 (CHR ''n'')) = Inr m \<and> RestoreLegacyCapsule demo_recovery_env (Join demo_rc_words '' '') (lm_Capsule m) = Inl err"
proof -
  let ?padded = "demo_holder @ '' ''"
  have trim: "TrimSpace ?padded = demo_holder"
    unfolding demo_holder_def
    by (rule TrimSpace_padded [OF EncodeToString_plain]) (simp add: EncodeToString_def hex_byte_def Let_def)
  have "verifyLegacyKeyMaterial demo_recovery_env ?padded demo_key demo_private = None"
    by (simp add: verifyLegacyKeyMaterial_def trim demo_recovery_env_def demo_key_def demo_private_def mldsa87PublicKeyLen_def
        mldsa87PrivateKeyLen_def EqualFold_def) (simp add: demo_holder_def)
  moreover have "rv_mnemonic demo_recovery_env (replicate 32 (CHR ''e'')) = Some (Join demo_rc_words '' '')"
    "rv_hkdf demo_recovery_env x y z n = Some (replicate n (CHR ''h''))" for x y z n by (simp_all add: demo_recovery_env_def)
  moreover have "length (replicate 32 (CHR ''e'')) = EntropySize" by (simp add: EntropySize_def)
  ultimately obtain m where m: "GenerateLegacyCapsule demo_recovery_env ?padded demo_key demo_private (replicate 32 (CHR ''e'')) 0
     (replicate 12 (CHR ''n'')) = Inr m" using generate_succeeds [OF demo_recovery_libraries] by metis
  from padded_address_unrecoverable [OF m] trim m show ?thesis by fastforce
qed

fun recovery_accepted :: "recovery_env \<Rightarrow> RecoveryCapsuleStateStore \<times> AccountStore \<Rightarrow> Tx list \<Rightarrow> Tx list" where
  "recovery_accepted e w [] = []"
| "recovery_accepted e w (tx # txs) =
     (case RecoveryApplyEconomicTx e w tx of
        (w', None) \<Rightarrow> tx # recovery_accepted e w' txs
      | (w', Some _) \<Rightarrow> recovery_accepted e w' txs)"

lemma economic_then_historical:
  assumes "RecoveryApplyEconomicTx e (s, acs) tx = ((s', acs'), None)"
  shows "RecoveryApplyHistoricalTx e s tx = (s', None)"
  by (cases rule: recovery_economic_cases [of e s acs tx]) (use assms in \<open>simp_all add: RecoveryApplyHistoricalTx_def\<close>)

text \<open>
  Replaying the registrations that were accepted, without accounts, rebuilds the register that applying all of them
  with accounts gave.\<close>

theorem recovery_replay_rebuilds:
  "foldl (\<lambda>s tx. fst (RecoveryApplyHistoricalTx e s tx)) (fst w) (recovery_accepted e w txs) =
   fst (foldl (\<lambda>w tx. fst (RecoveryApplyEconomicTx e w tx)) w txs)"
proof (induction txs arbitrary: w)
  case (Cons tx txs)
  show ?case
  proof (cases w)
    case (Pair s acs)
    show ?thesis
    proof (cases rule: recovery_economic_cases [of e s acs tx])
      case (refused err)
      then show ?thesis using Cons.IH [of "(s, acs)"] Pair by simp
    next
      case (applied a s' acs')
      then show ?thesis using Cons.IH [of "(s', acs')"] economic_then_historical [OF applied(5)] Pair by simp
    qed
  qed
qed simp

text \<open>The root does not depend on the order in which the map gives its keys.\<close>

lemma recovery_root_order:
  assumes "mset ks = mset ks'"
  shows "RecoveryStateRoot e s ks = RecoveryStateRoot e s ks'"
proof -
  have "sort ks' = sort ks" by (rule properties_for_sort) (simp_all add: assms)
  then show ?thesis by (simp add: RecoveryStateRoot_def)
qed

end
