(* ===== verification/Wallet.thy ===== *)
theory Wallet
  imports Tokens
begin

text \<open>
  The node's wallet (\<open>pkg/wallet/wallet.go\<close>) and the self-custody transfer that carries its signed envelope into a
  block (\<open>pkg/chain/wallet_transfer.go\<close>).

  JSON, SHA-256 and ML-DSA-87 are the fields of \<open>wallet_env\<close>. A decoded document is returned with the input left
  after it. The clock is an argument. Compressed signatures and the locks are not modelled.
\<close>

section \<open>Data\<close>

record TransactionData =
  td_ID :: string
  td_Sender :: string
  td_Recipient :: string
  td_Amount :: float64
  td_Fee :: float64
  td_GeoTag :: string
  td_ParentCells :: "string list"
  td_Nonce :: u64
  td_Signature :: string
  td_PublicKey :: string
  td_Timestamp :: string

record WalletService =
  ws_address :: string
  ws_publicKey :: string
  ws_privateKey :: string
  ws_balance :: int

datatype trailing = TrailingEOF | TrailingValue | TrailingGarbage

record wallet_env =
  we_marshal :: "TransactionData \<Rightarrow> string option"
  we_decode :: "string \<Rightarrow> (TransactionData \<times> string) option"
  we_trailing :: "string \<Rightarrow> trailing"
  we_sha256 :: "string \<Rightarrow> string"
  we_mldsa_key :: "string \<Rightarrow> bool"
  we_mldsa_verify :: "string \<Rightarrow> string \<Rightarrow> string \<Rightarrow> bool"
  we_mldsa_sign :: "string \<Rightarrow> string \<Rightarrow> string option"

datatype wallet_error =
    WalletFields
  | WalletNonceZero
  | WalletAmounts
  | WalletPublicKey
  | WalletSenderMismatch
  | WalletSignatureShape
  | WalletCanonical
  | WalletMalformedKey
  | WalletSignatureInvalid
  | NotWalletTransfer
  | EnvelopeUndecodable
  | EnvelopeTrailing
  | EnvelopeMismatch
  | WalletTransferRefused account_error
  | RecipientRequired
  | WalletAmountNotPositive
  | WalletNegativeFee
  | WalletBalance int int
  | WalletMarshal
  | WalletSign
  | NegativeLedgerBalance

section \<open>The signed envelope\<close>

definition CanonicalBytes :: "wallet_env \<Rightarrow> TransactionData \<Rightarrow> string option" where
  "CanonicalBytes e tx = we_marshal e (tx\<lparr>td_Signature := [], td_PublicKey := []\<rparr>)"

definition VerifyTransactionData :: "wallet_env \<Rightarrow> TransactionData \<Rightarrow> wallet_error option" where
  "VerifyTransactionData e tx =
     (if td_ID tx = [] \<or> td_Sender tx = [] \<or> td_Recipient tx = [] then Some WalletFields
      else if td_Nonce tx = 0 then Some WalletNonceZero
      else if td_Amount tx \<le> 0 \<or> td_Fee tx < 0 then Some WalletAmounts
      else (case DecodeHex (td_PublicKey tx) of
          None \<Rightarrow> Some WalletPublicKey
        | Some pub \<Rightarrow>
            if length pub \<noteq> mldsa87PublicKeyLen then Some WalletPublicKey
            else if td_Sender tx \<noteq> EncodeToString (we_sha256 e pub) then Some WalletSenderMismatch
            else (case DecodeHex (td_Signature tx) of
                None \<Rightarrow> Some WalletSignatureShape
              | Some sig \<Rightarrow>
                  if length sig \<noteq> mldsa87SignatureLen then Some WalletSignatureShape
                  else (case CanonicalBytes e tx of
                      None \<Rightarrow> Some WalletCanonical
                    | Some canonical \<Rightarrow>
                        if \<not> we_mldsa_key e pub then Some WalletMalformedKey
                        else if \<not> we_mldsa_verify e pub canonical sig then Some WalletSignatureInvalid
                        else None))))"

section \<open>Transfers in a block\<close>

definition WalletTransferContractID :: string where "WalletTransferContractID = ''qsdm/wallet-transfer/v1''"

definition ensureJSONEOF :: "wallet_env \<Rightarrow> string \<Rightarrow> wallet_error option" where
  "ensureJSONEOF e rest = (if we_trailing e rest = TrailingEOF then None else Some EnvelopeTrailing)"

definition decodeWalletTransferEnvelope :: "wallet_env \<Rightarrow> string \<Rightarrow> wallet_error + TransactionData" where
  "decodeWalletTransferEnvelope e payload =
     (case we_decode e payload of
        None \<Rightarrow> Inl EnvelopeUndecodable
      | Some (env, rest) \<Rightarrow> (case ensureJSONEOF e rest of Some err \<Rightarrow> Inl err | None \<Rightarrow> Inr env))"

definition ApplyWalletTransferTx ::
  "wallet_env \<Rightarrow> u64 \<Rightarrow> AccountStore \<Rightarrow> Tx \<Rightarrow> AccountStore \<times> wallet_error option" where
  "ApplyWalletTransferTx e fork accounts tx =
     (if tx_ContractID tx \<noteq> WalletTransferContractID then (accounts, Some NotWalletTransfer)
      else (case decodeWalletTransferEnvelope e (tx_Payload tx) of
          Inl err \<Rightarrow> (accounts, Some err)
        | Inr env \<Rightarrow>
            (case VerifyTransactionData e env of
               Some err \<Rightarrow> (accounts, Some err)
             | None \<Rightarrow>
                 if td_ID env \<noteq> tx_ID tx \<or> td_Sender env \<noteq> tx_Sender tx \<or> td_Recipient env \<noteq> tx_Recipient tx \<or>
                    \<not> feq (td_Amount env) (tx_Amount tx) \<or> \<not> feq (td_Fee env) (tx_Fee tx) \<or>
                    td_Nonce env - 1 \<noteq> tx_Nonce tx \<or> td_Signature env \<noteq> tx_Signature tx \<or>
                    td_PublicKey env \<noteq> tx_PublicKey tx
                 then (accounts, Some EnvelopeMismatch)
                 else (case ApplyTx fork accounts tx of
                     (accounts1, Some err) \<Rightarrow> (accounts1, Some (WalletTransferRefused err))
                   | (accounts1, None) \<Rightarrow> (accounts1, None)))))"

section \<open>The wallet of a node\<close>

definition NewWalletService :: "wallet_env \<Rightarrow> (string \<times> string) option \<Rightarrow> WalletService option" where
  "NewWalletService e dilithium =
     map_option (\<lambda>(publicKey, privateKey).
       \<lparr>ws_address = EncodeToString (we_sha256 e publicKey), ws_publicKey = publicKey, ws_privateKey = privateKey,
        ws_balance = 0\<rparr>) dilithium"

definition SyncBalanceFromLedger :: "WalletService \<Rightarrow> int \<Rightarrow> WalletService \<times> wallet_error option" where
  "SyncBalanceFromLedger ws balance =
     (if balance < 0 then (ws, Some NegativeLedgerBalance) else (ws\<lparr>ws_balance := balance\<rparr>, None))"

text \<open>The transaction before it is signed; \<open>nano\<close> and \<open>stamp\<close> are the clock in nanoseconds and as text.\<close>

definition unsigned_tx ::
  "wallet_env \<Rightarrow> WalletService \<Rightarrow> string \<Rightarrow> int \<Rightarrow> float64 \<Rightarrow> string \<Rightarrow> string list \<Rightarrow> nat \<Rightarrow> string \<Rightarrow> TransactionData" where
  "unsigned_tx e ws recipient amount fee geotag parentCells nano stamp =
     \<lparr>td_ID = EncodeToString (take 16 (we_sha256 e (ws_address ws @ ''-'' @ recipient @ ''-'' @ show_nat nano))),
      td_Sender = ws_address ws, td_Recipient = recipient, td_Amount = f64_of_u64 (of_int amount), td_Fee = fee,
      td_GeoTag = geotag,
      td_ParentCells = (if length parentCells < 2 then [''parent1'', ''parent2''] else parentCells),
      td_Nonce = 0, td_Signature = [], td_PublicKey = [], td_Timestamp = stamp\<rparr>"

definition CreateTransaction ::
  "wallet_env \<Rightarrow> WalletService \<Rightarrow> string \<Rightarrow> int \<Rightarrow> float64 \<Rightarrow> string \<Rightarrow> string list \<Rightarrow> nat \<Rightarrow> string \<Rightarrow>
     WalletService \<times> (wallet_error + string)" where
  "CreateTransaction e ws recipient amount fee geotag parentCells nano stamp =
     (if recipient = [] then (ws, Inl RecipientRequired)
      else if amount \<le> 0 then (ws, Inl WalletAmountNotPositive)
      else if fee < 0 then (ws, Inl WalletNegativeFee)
      else if ws_balance ws < amount then (ws, Inl (WalletBalance (ws_balance ws) amount))
      else (let txData = unsigned_tx e ws recipient amount fee geotag parentCells nano stamp
            in case we_marshal e txData of
                 None \<Rightarrow> (ws, Inl WalletMarshal)
               | Some txBytes \<Rightarrow>
                   (case we_mldsa_sign e (ws_privateKey ws) txBytes of
                      None \<Rightarrow> (ws, Inl WalletSign)
                    | Some signature \<Rightarrow>
                        (case we_marshal e (txData\<lparr>td_Signature := EncodeToString signature,
                                                  td_PublicKey := EncodeToString (ws_publicKey ws)\<rparr>) of
                           None \<Rightarrow> (ws, Inl WalletMarshal)
                         | Some final \<Rightarrow> (ws\<lparr>ws_balance := ws_balance ws - amount\<rparr>, Inr final)))))"

datatype wallet_call =
    WalletSync int
  | WalletCreate string int float64 string "string list" nat string

fun run_wallet :: "wallet_env \<Rightarrow> WalletService \<Rightarrow> wallet_call \<Rightarrow> WalletService" where
  "run_wallet e ws (WalletSync b) = fst (SyncBalanceFromLedger ws b)"
| "run_wallet e ws (WalletCreate to amount fee geotag parents nano stamp) =
     fst (CreateTransaction e ws to amount fee geotag parents nano stamp)"

section \<open>Lemmas\<close>

lemma verified_envelope:
  assumes "VerifyTransactionData e tx = None"
  obtains pub sig canonical where
    "DecodeHex (td_PublicKey tx) = Some pub" "td_Sender tx = EncodeToString (we_sha256 e pub)"
    "DecodeHex (td_Signature tx) = Some sig" "CanonicalBytes e tx = Some canonical"
    "we_mldsa_verify e pub canonical sig" "td_Nonce tx \<noteq> 0" "\<not> td_Amount tx \<le> 0" "\<not> td_Fee tx < 0"
  using assms by (auto simp: VerifyTransactionData_def split: if_splits option.splits)

lemma wallet_tx_same: "ApplyTx fork s tx = (s', Some err) \<Longrightarrow> s' = s"
  using tx_nonce.run_err_same by blast

lemma wallet_transfer_cases:
  obtains (refused) err where "ApplyWalletTransferTx e fork accounts tx = (accounts, Some err)"
  | (applied) env accounts' where
      "tx_ContractID tx = WalletTransferContractID"
      "decodeWalletTransferEnvelope e (tx_Payload tx) = Inr env" "VerifyTransactionData e env = None"
      "td_ID env = tx_ID tx" "td_Sender env = tx_Sender tx" "td_Recipient env = tx_Recipient tx"
      "feq (td_Amount env) (tx_Amount tx)" "feq (td_Fee env) (tx_Fee tx)" "td_Nonce env - 1 = tx_Nonce tx"
      "td_Signature env = tx_Signature tx" "td_PublicKey env = tx_PublicKey tx"
      "ApplyTx fork accounts tx = (accounts', None)" "ApplyWalletTransferTx e fork accounts tx = (accounts', None)"
proof (cases "ApplyWalletTransferTx e fork accounts tx")
  case (Pair accounts' r)
  show thesis
  proof (cases r)
    case None
    then show thesis
      using Pair applied
      by (auto simp: ApplyWalletTransferTx_def split: if_splits option.splits sum.splits prod.splits)
  next
    case (Some err)
    then have "accounts' = accounts"
      using Pair by (auto simp: ApplyWalletTransferTx_def split: if_splits option.splits sum.splits prod.splits dest: wallet_tx_same)
    then show thesis using refused Pair Some by simp
  qed
qed

lemma created_tx:
  assumes "CreateTransaction e ws recipient amount fee geotag parents nano stamp = (ws', Inr bytes)"
  obtains txBytes signature where
    "0 < amount" "amount \<le> ws_balance ws" "ws' = ws\<lparr>ws_balance := ws_balance ws - amount\<rparr>"
    "we_marshal e (unsigned_tx e ws recipient amount fee geotag parents nano stamp) = Some txBytes"
    "we_mldsa_sign e (ws_privateKey ws) txBytes = Some signature"
    "we_marshal e ((unsigned_tx e ws recipient amount fee geotag parents nano stamp)
       \<lparr>td_Signature := EncodeToString signature, td_PublicKey := EncodeToString (ws_publicKey ws)\<rparr>) = Some bytes"
  using assms by (auto simp: CreateTransaction_def Let_def split: if_splits option.splits)

lemma failed_create: "CreateTransaction e ws recipient amount fee geotag parents nano stamp = (ws', Inl err) \<Longrightarrow> ws' = ws"
  by (auto simp: CreateTransaction_def Let_def split: if_splits option.splits)

interpretation wallet_run: invariant_kept "run_wallet e" "\<lambda>ws. 0 \<le> ws_balance ws" for e
proof
  show "0 \<le> ws_balance (run_wallet e ws c)" if "0 \<le> ws_balance ws" for ws c
    using that
    by (cases c) (auto simp: SyncBalanceFromLedger_def CreateTransaction_def Let_def split: option.split)
qed

section \<open>A concrete transfer\<close>

definition demo_wallet_data :: TransactionData where
  "demo_wallet_data = \<lparr>td_ID = ''t1'', td_Sender = demo_holder, td_Recipient = ''b'', td_Amount = Fin 1, td_Fee = Fin 0,
     td_GeoTag = [], td_ParentCells = [], td_Nonce = 5, td_Signature = EncodeToString (replicate 4627 (CHR ''s'')),
     td_PublicKey = EncodeToString demo_key, td_Timestamp = []\<rparr>"

definition demo_wallet_env :: wallet_env where
  "demo_wallet_env = \<lparr>we_marshal = (\<lambda>tx. Some (td_ID tx @ '':'' @ td_Signature tx)),
     we_decode = (\<lambda>_. Some (demo_wallet_data, [])), we_trailing = (\<lambda>_. TrailingEOF),
     we_sha256 = (\<lambda>_. replicate 32 (CHR ''A'')), we_mldsa_key = (\<lambda>_. True), we_mldsa_verify = (\<lambda>_ _ _. True),
     we_mldsa_sign = (\<lambda>_ _. Some (replicate 4627 (CHR ''s'')))\<rparr>"

definition demo_wallet_tx :: Tx where
  "demo_wallet_tx = demo_token_tx\<lparr>tx_ID := ''t1'', tx_Recipient := ''b'', tx_Amount := Fin 1,
     tx_ContractID := WalletTransferContractID\<rparr>"

definition demo_node_wallet :: WalletService where
  "demo_node_wallet = \<lparr>ws_address = demo_holder, ws_publicKey = demo_key, ws_privateKey = ''k'', ws_balance = 10\<rparr>"

lemma demo_wallet_verified: "VerifyTransactionData demo_wallet_env demo_wallet_data = None"
proof -
  have "demo_holder \<noteq> []" by (simp add: demo_holder_def EncodeToString_def hex_byte_def Let_def)
  then show ?thesis
    by (simp add: VerifyTransactionData_def demo_wallet_data_def CanonicalBytes_def demo_wallet_env_def zero_float64_def
        less_eq_float64_def demo_key_def mldsa87PublicKeyLen_def mldsa87SignatureLen_def) (simp add: demo_holder_def)
qed

section \<open>Properties\<close>

text \<open>
  C36. A wallet transfer that is applied carries an envelope that is its whole payload and agrees with the transaction in
  every field; the envelope is signed with a key whose hash is the sender, its nonce is one more than the nonce of the
  sender's account, the amount is positive, and the effect is that of a plain transfer. One that is refused changes
  nothing.\<close>

theorem wallet_transfer_authorised:
  "case ApplyWalletTransferTx e fork accounts tx of
     (accounts', Some _) \<Rightarrow> accounts' = accounts
   | (accounts', None) \<Rightarrow>
       ApplyTx fork accounts tx = (accounts', None) \<and>
       (\<exists>env rest pub sig canonical. we_decode e (tx_Payload tx) = Some (env, rest) \<and> we_trailing e rest = TrailingEOF \<and>
          td_ID env = tx_ID tx \<and> td_Recipient env = tx_Recipient tx \<and>
          feq (td_Amount env) (tx_Amount tx) \<and> feq (td_Fee env) (tx_Fee tx) \<and> \<not> td_Amount env \<le> 0 \<and> \<not> td_Fee env < 0 \<and>
          td_Nonce env = nonce_of accounts (tx_Sender tx) + 1 \<and> nonce_of accounts' (tx_Sender tx) = td_Nonce env \<and>
          DecodeHex (tx_PublicKey tx) = Some pub \<and> EncodeToString (we_sha256 e pub) = tx_Sender tx \<and>
          DecodeHex (tx_Signature tx) = Some sig \<and> CanonicalBytes e env = Some canonical \<and>
          we_mldsa_verify e pub canonical sig)"
proof (cases rule: wallet_transfer_cases [of e fork accounts tx])
  case (refused err)
  then show ?thesis by simp
next
  case (applied env accounts')
  obtain rest where d: "we_decode e (tx_Payload tx) = Some (env, rest)" "we_trailing e rest = TrailingEOF"
    using applied(2) by (auto simp: decodeWalletTransferEnvelope_def ensureJSONEOF_def split: option.splits if_splits)
  obtain pub sig canonical where v: "DecodeHex (td_PublicKey env) = Some pub" "td_Sender env = EncodeToString (we_sha256 e pub)"
      "DecodeHex (td_Signature env) = Some sig" "CanonicalBytes e env = Some canonical"
      "we_mldsa_verify e pub canonical sig" "\<not> td_Amount env \<le> 0" "\<not> td_Fee env < 0"
    using applied(3) by (rule verified_envelope)
  have "td_Nonce env = nonce_of accounts (tx_Sender tx) + 1"
    using tx_nonce.run_ok_nonce [OF applied(12)] applied(9) by (simp add: algebra_simps)
  moreover have "nonce_of accounts' (tx_Sender tx) = nonce_of accounts (tx_Sender tx) + 1"
    using tx_nonce.run_ok_bump [OF applied(12)] by simp
  ultimately show ?thesis
    using applied d v by simp
qed

text \<open>
  What the node's own wallet signs covers the envelope it hands out, its local balance never goes below zero and falls
  by the amount signed away; but its envelopes carry the nonce 0, so none of them is ever applied as a wallet transfer.\<close>

theorem wallet_created_envelope:
  assumes "CreateTransaction e ws recipient amount fee geotag parents nano stamp = (ws', Inr bytes)"
    and "\<And>msg sig. we_mldsa_sign e (ws_privateKey ws) msg = Some sig \<Longrightarrow> we_mldsa_verify e (ws_publicKey ws) msg sig"
    and "\<And>tx b. we_marshal e tx = Some b \<Longrightarrow> we_decode e b = Some (tx, [])"
  shows "ws_balance ws' = ws_balance ws - amount \<and> 0 \<le> ws_balance ws' \<and>
    (\<exists>env sig canonical. we_decode e bytes = Some (env, []) \<and> DecodeHex (td_Signature env) = Some sig \<and>
       CanonicalBytes e env = Some canonical \<and> we_mldsa_verify e (ws_publicKey ws) canonical sig) \<and>
    (\<forall>fork accounts tx. tx_Payload tx = bytes \<longrightarrow>
       (\<exists>err. ApplyWalletTransferTx e fork accounts tx = (accounts, Some err)))"
proof -
  let ?u = "unsigned_tx e ws recipient amount fee geotag parents nano stamp"
  from assms(1) obtain txBytes signature where c: "0 < amount" "amount \<le> ws_balance ws"
      "ws' = ws\<lparr>ws_balance := ws_balance ws - amount\<rparr>" "we_marshal e ?u = Some txBytes"
      "we_mldsa_sign e (ws_privateKey ws) txBytes = Some signature"
      "we_marshal e (?u\<lparr>td_Signature := EncodeToString signature, td_PublicKey := EncodeToString (ws_publicKey ws)\<rparr>) = Some bytes"
    by (rule created_tx)
  let ?env = "?u\<lparr>td_Signature := EncodeToString signature, td_PublicKey := EncodeToString (ws_publicKey ws)\<rparr>"
  have dec: "we_decode e bytes = Some (?env, [])" by (rule assms(3)) (rule c(6))
  have "?env\<lparr>td_Signature := [], td_PublicKey := []\<rparr> = ?u" by (simp add: unsigned_tx_def)
  then have can: "CanonicalBytes e ?env = Some txBytes" using c(4) by (simp add: CanonicalBytes_def)
  have zero: "td_Nonce ?env = 0" by (simp add: unsigned_tx_def)
  have "\<exists>err. ApplyWalletTransferTx e fork accounts tx = (accounts, Some err)" if "tx_Payload tx = bytes" for fork accounts tx
  proof (cases rule: wallet_transfer_cases [of e fork accounts tx])
    case (applied env accounts')
    then have "env = ?env" using dec that by (auto simp: decodeWalletTransferEnvelope_def split: option.splits)
    then show ?thesis using applied(3) zero by (auto simp: VerifyTransactionData_def split: if_splits)
  qed blast
  moreover have "we_mldsa_verify e (ws_publicKey ws) txBytes signature" by (rule assms(2)) (rule c(5))
  ultimately show ?thesis using c(2,3) dec can by (auto intro: exI [of _ ?env])
qed

definition demo_unsigned :: TransactionData where
  "demo_unsigned = unsigned_tx demo_wallet_env demo_node_wallet ''b'' 1 (Fin 0) [] [] 0 []"

definition demo_signed :: TransactionData where
  "demo_signed = demo_unsigned\<lparr>td_Signature := EncodeToString (replicate 4627 (CHR ''s'')), td_PublicKey := EncodeToString demo_key\<rparr>"

definition demo_sign_env :: wallet_env where
  "demo_sign_env = demo_wallet_env
     \<lparr>we_marshal := (\<lambda>tx. if tx = demo_unsigned then Some ''u'' else if tx = demo_signed then Some ''s'' else None),
      we_decode := (\<lambda>b. if b = ''u'' then Some (demo_unsigned, []) else if b = ''s'' then Some (demo_signed, []) else None)\<rparr>"

theorem wallet_created_envelope_witness:
  "\<exists>err. ApplyWalletTransferTx demo_sign_env 0 demo_token_accounts (demo_wallet_tx\<lparr>tx_Payload := ''s''\<rparr>) = (demo_token_accounts, Some err)"
proof -
  have u: "unsigned_tx demo_sign_env demo_node_wallet ''b'' 1 (Fin 0) [] [] 0 [] = demo_unsigned"
    by (simp add: demo_unsigned_def unsigned_tx_def demo_sign_env_def)
  have "td_Signature demo_unsigned = []" by (simp add: demo_unsigned_def unsigned_tx_def)
  moreover have "td_Signature demo_signed \<noteq> []"
    by (simp add: demo_signed_def EncodeToString_def hex_byte_def Let_def)
  ultimately have ne: "demo_signed \<noteq> demo_unsigned" by auto
  have "\<not> Fin 0 < (0 :: float64)" by (simp add: zero_float64_def)
  then have "CreateTransaction demo_sign_env demo_node_wallet ''b'' 1 (Fin 0) [] [] 0 [] =
      (demo_node_wallet\<lparr>ws_balance := 9\<rparr>, Inr ''s'')"
    unfolding CreateTransaction_def u
    by (simp add: Let_def demo_sign_env_def demo_wallet_env_def demo_node_wallet_def demo_signed_def [symmetric] ne)
  moreover have "we_mldsa_verify demo_sign_env x msg sig" for x msg sig by (simp add: demo_sign_env_def demo_wallet_env_def)
  moreover have "we_decode demo_sign_env b = Some (tx, [])" if "we_marshal demo_sign_env tx = Some b" for tx b
    using that by (auto simp: demo_sign_env_def split: if_splits)
  ultimately show ?thesis using wallet_created_envelope [of demo_sign_env demo_node_wallet "''b''" 1 "Fin 0"] by fastforce
qed

end
