(* ===== verification/Dispatch.thy ===== *)
theory Dispatch
  imports Governance Streams Tasks Recovery Wallet
begin

text \<open>
  The state of a node and the transactions that change it (\<open>pkg/chain/enrollment_aware_applier.go\<close>): the router from
  contract IDs to the modelled appliers, the combined state root, the sweep after a block, and the copy that speculative
  replay and rollback work with.

  The appliers of a node share one account store, and the enrollment and slash appliers share one enrollment state, as the
  comments of the code require. So the state holds \<open>da_accounts\<close> and \<open>da_state\<close> once. A component that is not
  wired is \<open>None\<close>. The height source is the height it returns now, if one is installed. A slash applier with a
  parameter store reads the active values of governance. The accounts inside a wired governance applier stand for the shared
  store and are never read.

  The hashes, codecs and activation heights that the components take as arguments are collected in \<open>dispatch_env\<close>, and
  the orders in which their maps are ranged over in \<open>dispatch_orders\<close>. Locks and nil receivers are not modelled.
\<close>

section \<open>Data\<close>

record EnrollmentAwareApplier =
  da_accounts :: AccountStore
  da_state :: EnrollState
  da_enrollment :: bool
  da_slasher :: "SlashApplier option"
  da_gov :: "GovApplier option"
  da_tasks :: "TaskStateStore option"
  da_streams :: "StreamStateStore option"
  da_recovery :: "RecoveryCapsuleStateStore option"
  da_tokens :: "QSDM20StateStore option"
  da_heightFn :: "u64 option"
  da_rootHeight :: u64

record dispatch_env =
  de_oob :: "float64 \<Rightarrow> u64"
  de_fork :: u64
  de_retention :: u64
  de_codec :: codec
  de_gov :: gov_codec
  de_task :: task_env
  de_stream :: stream_env
  de_retirement :: u64
  de_token :: qsdm20_env
  de_recovery :: recovery_env
  de_wallet :: wallet_env
  de_sha256 :: "string \<Rightarrow> string"
  de_enrollRoot :: u64

record dispatch_orders =
  do_nodes :: "string list"
  do_quote :: "string list"
  do_claim :: "string list"
  do_accounts :: "string list"
  do_tasks :: task_orders
  do_streams :: "string list"
  do_stream_actions :: "string list"
  do_locators :: "string list"
  do_tokens :: "string list"
  do_holders :: "string \<Rightarrow> string list"
  do_evidence :: "string list"

datatype dispatch_error =
    EnrollmentNotWired
  | EnrollmentHeightUnset
  | SlashingNotWired
  | GovernanceNotWired
  | TaskStateNotWired
  | StreamStateNotWired
  | RecoveryCapsuleStateNotWired
  | QSDM20StateNotWired
  | EnrollmentRefused enroll_apply_error
  | SlashRefused slash_error
  | GovRefused gov_error
  | TaskRefused task_error
  | StreamRefused stream_error
  | RecoveryRefused recovery_error
  | TokenRefused qsdm20_error
  | WalletRefused wallet_error
  | TransferRefused account_error
  | PresenceMismatch string

section \<open>Wiring\<close>

definition NewEnrollmentAwareApplier :: "AccountStore \<Rightarrow> EnrollState \<Rightarrow> bool \<Rightarrow> EnrollmentAwareApplier" where
  "NewEnrollmentAwareApplier accounts state ea =
     \<lparr>da_accounts = accounts, da_state = state, da_enrollment = ea, da_slasher = None, da_gov = None, da_tasks = None,
      da_streams = None, da_recovery = None, da_tokens = None, da_heightFn = None, da_rootHeight = 0\<rparr>"

definition SetDispatchHeightFn :: "EnrollmentAwareApplier \<Rightarrow> u64 option \<Rightarrow> EnrollmentAwareApplier" where
  "SetDispatchHeightFn a fn = a\<lparr>da_heightFn := fn\<rparr>"

definition SetStateRootHeight :: "EnrollmentAwareApplier \<Rightarrow> u64 \<Rightarrow> EnrollmentAwareApplier" where
  "SetStateRootHeight a height = a\<lparr>da_rootHeight := height\<rparr>"

definition SetTaskStateStore :: "EnrollmentAwareApplier \<Rightarrow> TaskStateStore option \<Rightarrow> EnrollmentAwareApplier" where
  "SetTaskStateStore a tasks = a\<lparr>da_tasks := tasks\<rparr>"

definition SetStreamStateStore :: "EnrollmentAwareApplier \<Rightarrow> StreamStateStore option \<Rightarrow> EnrollmentAwareApplier" where
  "SetStreamStateStore a streams = a\<lparr>da_streams := streams\<rparr>"

definition SetRecoveryCapsuleStateStore ::
  "EnrollmentAwareApplier \<Rightarrow> RecoveryCapsuleStateStore option \<Rightarrow> EnrollmentAwareApplier" where
  "SetRecoveryCapsuleStateStore a recovery = a\<lparr>da_recovery := recovery\<rparr>"

definition SetQSDM20StateStore :: "EnrollmentAwareApplier \<Rightarrow> QSDM20StateStore option \<Rightarrow> EnrollmentAwareApplier" where
  "SetQSDM20StateStore a tokens = a\<lparr>da_tokens := tokens\<rparr>"

definition SetGovApplier :: "EnrollmentAwareApplier \<Rightarrow> GovApplier option \<Rightarrow> EnrollmentAwareApplier" where
  "SetGovApplier a ga = a\<lparr>da_gov := ga\<rparr>"

definition SetSlashApplier :: "EnrollmentAwareApplier \<Rightarrow> SlashApplier option \<Rightarrow> EnrollmentAwareApplier" where
  "SetSlashApplier a sa = a\<lparr>da_slasher := sa\<rparr>"

definition currentHeight :: "EnrollmentAwareApplier \<Rightarrow> u64 option" where
  "currentHeight a = da_heightFn a"

definition NextBlockHeight :: "EnrollmentAwareApplier \<Rightarrow> u64 option" where
  "NextBlockHeight a = currentHeight a"

section \<open>Routing\<close>

definition chain_of :: "EnrollmentAwareApplier \<Rightarrow> Chain" where
  "chain_of a = \<lparr>ch_accounts = da_accounts a, ch_state = da_state a\<rparr>"

definition put_chain :: "EnrollmentAwareApplier \<Rightarrow> Chain \<Rightarrow> EnrollmentAwareApplier" where
  "put_chain a ch = a\<lparr>da_accounts := ch_accounts ch, da_state := ch_state ch\<rparr>"

definition slasher_params :: "EnrollmentAwareApplier \<Rightarrow> SlashApplier \<Rightarrow> SlashApplier" where
  "slasher_params a sa =
     (case (sa_Params sa, da_gov a) of
        (Some _, Some ga) \<Rightarrow> sa\<lparr>sa_Params := Some (ActiveValue (ga_Store ga))\<rparr>
      | _ \<Rightarrow> sa)"

definition dispatch_enrollment ::
  "dispatch_env \<Rightarrow> EnrollmentAwareApplier \<Rightarrow> Tx \<Rightarrow> EnrollmentAwareApplier \<times> dispatch_error option" where
  "dispatch_enrollment e a tx =
     (if \<not> da_enrollment a then (a, Some EnrollmentNotWired)
      else (case currentHeight a of
          None \<Rightarrow> (a, Some EnrollmentHeightUnset)
        | Some h \<Rightarrow>
            (case ApplyEnrollmentTx (de_oob e) (de_fork e) (de_retention e) (de_codec e) (chain_of a) tx h of
               (ch, r) \<Rightarrow> (put_chain a ch, map_option EnrollmentRefused r))))"

definition dispatch_reward ::
  "dispatch_env \<Rightarrow> dispatch_orders \<Rightarrow> EnrollmentAwareApplier \<Rightarrow> Tx \<Rightarrow> EnrollmentAwareApplier \<times> dispatch_error option" where
  "dispatch_reward e ord a tx =
     (if \<not> da_enrollment a then (a, Some EnrollmentNotWired)
      else (case ApplyMiningRewardTx (de_oob e) (chain_of a) (do_nodes ord) tx of
          (ch, r) \<Rightarrow> (put_chain a ch, map_option EnrollmentRefused r)))"

definition dispatch_slash ::
  "dispatch_env \<Rightarrow> EnrollmentAwareApplier \<Rightarrow> Tx \<Rightarrow> EnrollmentAwareApplier \<times> dispatch_error option" where
  "dispatch_slash e a tx =
     (case da_slasher a of
        None \<Rightarrow> (a, Some SlashingNotWired)
      | Some sa \<Rightarrow>
          (case currentHeight a of
             None \<Rightarrow> (a, Some EnrollmentHeightUnset)
           | Some h \<Rightarrow>
               (case ApplySlashTx (de_oob e) (de_fork e) (de_codec e) (slasher_params a sa) (chain_of a) tx h of
                  (ch, r) \<Rightarrow> (put_chain a ch, map_option SlashRefused r))))"

definition dispatch_gov ::
  "dispatch_env \<Rightarrow> EnrollmentAwareApplier \<Rightarrow> Tx \<Rightarrow> EnrollmentAwareApplier \<times> dispatch_error option" where
  "dispatch_gov e a tx =
     (case da_gov a of
        None \<Rightarrow> (a, Some GovernanceNotWired)
      | Some ga \<Rightarrow>
          (case currentHeight a of
             None \<Rightarrow> (a, Some EnrollmentHeightUnset)
           | Some h \<Rightarrow>
               (case ApplyGovTx (de_gov e) (ga\<lparr>ga_Accounts := da_accounts a\<rparr>) tx h of
                  (ga', r) \<Rightarrow> (a\<lparr>da_gov := Some (ga'\<lparr>ga_Accounts := ga_Accounts ga\<rparr>), da_accounts := ga_Accounts ga'\<rparr>,
                               map_option GovRefused r))))"

definition dispatch_task ::
  "dispatch_env \<Rightarrow> dispatch_orders \<Rightarrow> EnrollmentAwareApplier \<Rightarrow> Tx \<Rightarrow> EnrollmentAwareApplier \<times> dispatch_error option" where
  "dispatch_task e ord a tx =
     (case da_tasks a of
        None \<Rightarrow> (a, Some TaskStateNotWired)
      | Some tasks \<Rightarrow>
          (case currentHeight a of
             None \<Rightarrow> (a, Some EnrollmentHeightUnset)
           | Some h \<Rightarrow>
               (case DecodeTaskActionTx (de_task e) tx of
                  Inl err \<Rightarrow> (a, Some (TaskRefused err))
                | Inr action \<Rightarrow>
                    (case VerifyTaskActionSignature (de_task e) action (tx_Signature tx) (tx_PublicKey tx) h of
                       Some err \<Rightarrow> (a, Some (TaskRefused err))
                     | None \<Rightarrow>
                         (case applyEconomicTx (de_task e) (do_quote ord) (do_claim ord) (tasks, da_accounts a) tx h of
                            ((tasks', accounts'), r) \<Rightarrow>
                              (a\<lparr>da_tasks := Some tasks', da_accounts := accounts'\<rparr>, map_option TaskRefused r))))))"

definition session_key_check :: "dispatch_env \<Rightarrow> EnrollmentAwareApplier \<Rightarrow> Tx \<Rightarrow> dispatch_error option" where
  "session_key_check e a tx =
     (if de_retirement e = 0 then None
      else (case DecodeStreamActionTx (de_stream e) tx of
          Inl _ \<Rightarrow> None
        | Inr action \<Rightarrow>
            if sa_Action action \<noteq> StreamActionOpen then None
            else (case currentHeight a of
                None \<Rightarrow> Some EnrollmentHeightUnset
              | Some h \<Rightarrow> map_option StreamRefused (checkStreamEd25519Retirement (de_retirement e) action h))))"

definition dispatch_stream ::
  "dispatch_env \<Rightarrow> EnrollmentAwareApplier \<Rightarrow> Tx \<Rightarrow> EnrollmentAwareApplier \<times> dispatch_error option" where
  "dispatch_stream e a tx =
     (case da_streams a of
        None \<Rightarrow> (a, Some StreamStateNotWired)
      | Some streams \<Rightarrow>
          (case session_key_check e a tx of
             Some err \<Rightarrow> (a, Some err)
           | None \<Rightarrow>
               (case ApplyEconomicTx (de_oob e) (de_fork e) (de_stream e) (streams, da_accounts a) tx of
                  ((streams', accounts'), r) \<Rightarrow>
                    (a\<lparr>da_streams := Some streams', da_accounts := accounts'\<rparr>, map_option StreamRefused r))))"

definition dispatch_recovery ::
  "dispatch_env \<Rightarrow> EnrollmentAwareApplier \<Rightarrow> Tx \<Rightarrow> EnrollmentAwareApplier \<times> dispatch_error option" where
  "dispatch_recovery e a tx =
     (case da_recovery a of
        None \<Rightarrow> (a, Some RecoveryCapsuleStateNotWired)
      | Some recovery \<Rightarrow>
          (case RecoveryApplyEconomicTx (de_recovery e) (recovery, da_accounts a) tx of
             ((recovery', accounts'), r) \<Rightarrow>
               (a\<lparr>da_recovery := Some recovery', da_accounts := accounts'\<rparr>, map_option RecoveryRefused r)))"

definition dispatch_token ::
  "dispatch_env \<Rightarrow> EnrollmentAwareApplier \<Rightarrow> Tx \<Rightarrow> u64 \<Rightarrow> EnrollmentAwareApplier \<times> dispatch_error option" where
  "dispatch_token e a tx h =
     (case da_tokens a of
        None \<Rightarrow> (a, Some QSDM20StateNotWired)
      | Some tokens \<Rightarrow>
          (case ApplyEconomicTxAtHeight (de_token e) (tokens, da_accounts a) tx h of
             ((tokens', accounts'), r) \<Rightarrow>
               (a\<lparr>da_tokens := Some tokens', da_accounts := accounts'\<rparr>, map_option TokenRefused r)))"

text \<open>The branches after the token branch: wallet transfers, then plain transfers.\<close>

definition dispatch_transfer ::
  "dispatch_env \<Rightarrow> EnrollmentAwareApplier \<Rightarrow> Tx \<Rightarrow> EnrollmentAwareApplier \<times> dispatch_error option" where
  "dispatch_transfer e a tx =
     (if tx_ContractID tx = WalletTransferContractID
      then (case ApplyWalletTransferTx (de_wallet e) (de_fork e) (da_accounts a) tx of
          (accounts', r) \<Rightarrow> (a\<lparr>da_accounts := accounts'\<rparr>, map_option WalletRefused r))
      else (case ApplyTx (de_fork e) (da_accounts a) tx of
          (accounts', r) \<Rightarrow> (a\<lparr>da_accounts := accounts'\<rparr>, map_option TransferRefused r)))"

definition DispatchApplyTx ::
  "dispatch_env \<Rightarrow> dispatch_orders \<Rightarrow> EnrollmentAwareApplier \<Rightarrow> Tx \<Rightarrow> EnrollmentAwareApplier \<times> dispatch_error option" where
  "DispatchApplyTx e ord a tx =
     (if IsContractID (tx_ContractID tx) then dispatch_enrollment e a tx
      else if tx_ContractID tx = MiningRewardContractID then dispatch_reward e ord a tx
      else if tx_ContractID tx = SlashContractID then dispatch_slash e a tx
      else if tx_ContractID tx = GovContractID then dispatch_gov e a tx
      else if tx_ContractID tx = TaskContractID then dispatch_task e ord a tx
      else if tx_ContractID tx = StreamContractID then dispatch_stream e a tx
      else if tx_ContractID tx = RecoveryCapsuleContractID then dispatch_recovery e a tx
      else if tx_ContractID tx = QSDM20ContractID
      then (case qsdm20RulesAt (q_activation (de_token e)) (Some (NextBlockHeight a)) of
          Inl err \<Rightarrow> (a, Some (TokenRefused err))
        | Inr (active, h) \<Rightarrow> if active then dispatch_token e a tx h else dispatch_transfer e a tx)
      else dispatch_transfer e a tx)"

definition CheckQSDM20Tx :: "dispatch_env \<Rightarrow> EnrollmentAwareApplier \<Rightarrow> Tx \<Rightarrow> dispatch_error option" where
  "CheckQSDM20Tx e a tx =
     (case da_tokens a of
        None \<Rightarrow> Some QSDM20StateNotWired
      | Some tokens \<Rightarrow>
          (case qsdm20HeightFrom (q_activation (de_token e)) (Some (NextBlockHeight a)) of
             Inl err \<Rightarrow> Some (TokenRefused err)
           | Inr _ \<Rightarrow> map_option TokenRefused (CheckEconomicTx (de_token e) tokens tx (Some (da_accounts a)))))"

section \<open>The state root\<close>






section \<open>Sweeping after a block\<close>

definition Sweep ::
  "dispatch_env \<Rightarrow> dispatch_orders \<Rightarrow> EnrollmentAwareApplier \<Rightarrow> u64 \<Rightarrow> EnrollmentAwareApplier \<times> UnbondRelease list" where
  "Sweep e ord a height =
     (if \<not> da_enrollment a then (a, [])
      else (case SweepMaturedEnrollments (de_oob e) (de_fork e) (chain_of a) (do_nodes ord) height of
          (ch, released) \<Rightarrow> (put_chain a ch, released)))"

section \<open>Speculative replay\<close>

text \<open>\<open>None\<close> is the panic of \<open>NewSlashApplier\<close> on a reward above its cap.\<close>

definition ChainReplayClone :: "EnrollmentAwareApplier \<Rightarrow> EnrollmentAwareApplier option" where
  "ChainReplayClone a =
     (let c = \<lparr>da_accounts = CloneStore (da_accounts a), da_state = CloneState (da_state a), da_enrollment = da_enrollment a,
               da_slasher = None, da_gov = None, da_tasks = map_option ChainReplayCloneTasks (da_tasks a),
               da_streams = map_option StreamClone (da_streams a), da_recovery = map_option RecoveryClone (da_recovery a),
               da_tokens = map_option TokensClone (da_tokens a), da_heightFn = da_heightFn a,
               da_rootHeight = da_rootHeight a\<rparr>
      in case da_slasher a of
           None \<Rightarrow> Some c
         | Some sa \<Rightarrow> map_option (\<lambda>sa'. c\<lparr>da_slasher := Some sa'\<rparr>) (NewSlashApplier (sa_Dispatcher sa) (sa_RewardBPS sa)))"

text \<open>A store restored from another, or the refusal when only one of the two is wired.\<close>

definition restore_part :: "('s \<Rightarrow> 's \<Rightarrow> 's) \<Rightarrow> 's option \<Rightarrow> 's option \<Rightarrow> 's option option" where
  "restore_part restore live other =
     (case (live, other) of
        (None, None) \<Rightarrow> Some None
      | (Some s, Some t) \<Rightarrow> Some (Some (restore s t))
      | _ \<Rightarrow> None)"

definition RestoreFromChainReplay ::
  "EnrollmentAwareApplier \<Rightarrow> EnrollmentAwareApplier \<Rightarrow> EnrollmentAwareApplier \<times> dispatch_error option" where
  "RestoreFromChainReplay a other =
     (let a0 = a\<lparr>da_accounts := RestoreFrom (da_accounts a) (da_accounts other)\<rparr>
      in if da_enrollment a \<noteq> da_enrollment other then (a0, Some (PresenceMismatch ''enrollment''))
         else (let a1 = (if da_enrollment a then a0\<lparr>da_state := RestoreState (da_state a) (da_state other)\<rparr> else a0)
               in case restore_part RestoreTasks (da_tasks a) (da_tasks other) of
                    None \<Rightarrow> (a1, Some (PresenceMismatch ''tasks''))
                  | Some tasks \<Rightarrow>
                      (let a2 = a1\<lparr>da_tasks := tasks\<rparr>
                       in case restore_part StreamRestore (da_streams a) (da_streams other) of
                            None \<Rightarrow> (a2, Some (PresenceMismatch ''streams''))
                          | Some streams \<Rightarrow>
                              (let a3 = a2\<lparr>da_streams := streams\<rparr>
                               in case restore_part RecoveryRestore (da_recovery a) (da_recovery other) of
                                    None \<Rightarrow> (a3, Some (PresenceMismatch ''recovery''))
                                  | Some recovery \<Rightarrow>
                                      (let a4 = a3\<lparr>da_recovery := recovery\<rparr>
                                       in case restore_part TokensRestore (da_tokens a) (da_tokens other) of
                                            None \<Rightarrow> (a4, Some (PresenceMismatch ''tokens''))
                                          | Some tokens \<Rightarrow>
                                              (a4\<lparr>da_tokens := tokens, da_rootHeight := da_rootHeight other\<rparr>, None))))))"

section \<open>What enrollment transactions do to the enrollment state\<close>

lemma clone_enroll [simp]: "CloneState s = s" "RestoreState s t = t"
  by (simp_all add: CloneState_def RestoreState_def)

lemma applyEnroll_state:
  "ch_state (fst (applyEnroll oob fork ret cd ch tx h)) = ch_state ch \<or>
   (\<exists>p. ep_NodeID p \<noteq> [] \<and>
      ch_state (fst (applyEnroll oob fork ret cd ch tx h)) = fst (ApplyEnroll (ch_state ch) (enroll_record ret tx p h)))"
proof (cases "DecodeEnrollPayload cd (tx_Payload tx)")
  case (Inr p)
  show ?thesis
  proof (cases "ValidateEnrollFields (c_marshal cd) (c_sha256 cd) p (tx_Sender tx)")
    case None
    then have "ep_NodeID p \<noteq> []" by (auto simp: ValidateEnrollFields_def validateNodeID_def split: if_splits)
    then show ?thesis using Inr None
      by (auto simp: applyEnroll_def Let_def split: option.split prod.split)
  qed (simp add: applyEnroll_def Inr)
qed (simp add: applyEnroll_def)

lemma applyUnenroll_state:
  "ch_state (fst (applyUnenroll oob fork cd ch tx h)) = ch_state ch \<or>
   (\<exists>n. ch_state (fst (applyUnenroll oob fork cd ch tx h)) = fst (ApplyUnenroll (ch_state ch) n h))"
proof (cases "DecodeUnenrollPayload cd (tx_Payload tx)")
  case (Inr p)
  then have "ch_state (fst (applyUnenroll oob fork cd ch tx h)) = ch_state ch \<or>
      ch_state (fst (applyUnenroll oob fork cd ch tx h)) = fst (ApplyUnenroll (ch_state ch) (up_NodeID p) h)"
    by (simp add: applyUnenroll_def split: option.split prod.split)
  then show ?thesis by blast
qed (simp add: applyUnenroll_def)

lemma enrollment_tx_state:
  "ch_state (fst (ApplyEnrollmentTx oob fork ret cd ch tx h)) = ch_state ch \<or>
   (\<exists>p. ep_NodeID p \<noteq> [] \<and>
      ch_state (fst (ApplyEnrollmentTx oob fork ret cd ch tx h)) = fst (ApplyEnroll (ch_state ch) (enroll_record ret tx p h))) \<or>
   (\<exists>n. ch_state (fst (ApplyEnrollmentTx oob fork ret cd ch tx h)) = fst (ApplyUnenroll (ch_state ch) n h))"
  using applyEnroll_state [of oob fork ret cd ch tx h] applyUnenroll_state [of oob fork cd ch tx h]
  by (auto simp: ApplyEnrollmentTx_def split: sum.split)

lemma reward_tx_state:
  "ch_state (fst (ApplyMiningRewardTx oob ch ks tx)) = ch_state ch \<or>
   ch_state (fst (ApplyMiningRewardTx oob ch ks tx)) =
     fst (AccrueBondFromReward (ch_state ch) ks (tx_Recipient tx) (balanceToDust oob (tx_Amount tx)))"
  by (auto simp: ApplyMiningRewardTx_def Let_def split: prod.split option.split)

lemma commit_slash_state:
  "h \<noteq> 0 \<Longrightarrow> enroll_step\<^sup>*\<^sup>* (ch_state ch) (ch_state (fst (commit_slash oob fork cd a ch tx h p x)))"
proof -
  assume h: "h \<noteq> 0"
  obtain s1 m where m: "MarkEvidenceSeen (ch_state ch) (evidenceFingerprint cd p) = (s1, m)" by (rule prod.exhaust)
  obtain s2 r where r: "SlashStake s1 (sp_NodeID p) x = (s2, r)" by (rule prod.exhaust)
  have one: "enroll_step\<^sup>*\<^sup>* (ch_state ch) s1" using step_mark [of "ch_state ch" "evidenceFingerprint cd p"] m by auto
  have two: "enroll_step\<^sup>*\<^sup>* (ch_state ch) s2" using one step_slash [of s1 "sp_NodeID p" x] r by (auto intro: rtranclp.rtrancl_into_rtrancl)
  have three: "enroll_step\<^sup>*\<^sup>* (ch_state ch) (fst (RevokeIfUnderBonded s2 (sp_NodeID p) h t))" for t
    using two step_revoke [OF h, of s2 "sp_NodeID p" t] by (auto intro: rtranclp.rtrancl_into_rtrancl)
  show ?thesis using one two three
    by (cases m; cases r) (simp_all add: commit_slash_def m r Let_def)
qed

lemma slash_tx_state:
  "h \<noteq> 0 \<Longrightarrow> enroll_step\<^sup>*\<^sup>* (ch_state ch) (ch_state (fst (ApplySlashTx oob fork cd a ch tx h)))"
  using commit_slash_state [of h "ch\<lparr>ch_accounts := x\<rparr>" for x]
  by (simp add: ApplySlashTx_def split: option.split sum.split prod.split)

lemma slash_refused:
  assumes inv: "enroll_inv (ch_state ch)" and h: "h \<noteq> 0" and r: "ApplySlashTx oob fork cd a ch tx h = (ch', Some err)"
  shows "ch' = ch"
proof -
  have no: False
    if "commit_slash oob fork cd a (ch\<lparr>ch_accounts := acc\<rparr>) tx h p (slash_amount p cap rec) = (ch', Some err)"
      "LookupNode (ch_state ch) (sp_NodeID p) = Some rec" "\<not> EvidenceSeen (ch_state ch) (evidenceFingerprint cd p)" for acc p cap rec
    using commit_slash_effect(1) [of "ch\<lparr>ch_accounts := acc\<rparr>", simplified, OF inv _ h that(3) slash_amount_le(2) that(1)] that(2)
    by (simp add: LookupNode_def)
  show ?thesis
    using r by (auto simp: ApplySlashTx_def dest: charge_err_same no split: option.splits sum.splits prod.splits if_splits)
qed

lemma reward_refused: "ApplyMiningRewardTx oob ch ks tx = (ch', Some err) \<Longrightarrow> ch' = ch"
proof -
  assume r: "ApplyMiningRewardTx oob ch ks tx = (ch', Some err)"
  have "ApplyProtocolReward s t x = (s', Some y) \<Longrightarrow> s' = s" for s t x s' y
    by (auto simp: ApplyProtocolReward_def Let_def split: option.splits if_splits)
  with r show ?thesis by (auto simp: ApplyMiningRewardTx_def Let_def split: prod.splits option.splits if_splits)
qed

lemma sweep_state:
  assumes "iteration (es_byNodeID (ch_state ch)) ks"
    and "iteration (es_byNodeID (fst (RevokeLegacyOwners (ch_state ch) ks h))) ks"
  shows "enroll_step\<^sup>*\<^sup>* (ch_state ch) (ch_state (fst (SweepMaturedEnrollments oob fork ch ks h)))"
proof -
  let ?s1 = "fst (RevokeLegacyOwners (ch_state ch) ks h)"
  have "enroll_step\<^sup>*\<^sup>* (ch_state ch) ?s1" using step_legacy [OF assms(1)] by auto
  also have "enroll_step ?s1 (fst (SweepMaturedUnbonds ?s1 ks h))" by (rule step_sweep [OF assms(2)])
  finally show ?thesis by (simp add: SweepMaturedEnrollments_def Let_def case_prod_beta)
qed

section \<open>What each branch leaves alone\<close>

lemma put_chain_of [simp]: "put_chain a (chain_of a) = a"
  by (simp add: put_chain_def chain_of_def)

lemma put_chain_frame [simp]:
  "da_enrollment (put_chain a ch) = da_enrollment a" "da_slasher (put_chain a ch) = da_slasher a"
  "da_gov (put_chain a ch) = da_gov a" "da_tasks (put_chain a ch) = da_tasks a"
  "da_streams (put_chain a ch) = da_streams a" "da_recovery (put_chain a ch) = da_recovery a"
  "da_tokens (put_chain a ch) = da_tokens a" "da_heightFn (put_chain a ch) = da_heightFn a"
  "da_rootHeight (put_chain a ch) = da_rootHeight a" "da_state (put_chain a ch) = ch_state ch"
  by (simp_all add: put_chain_def)

text \<open>Which components are wired, and the settings of the node.\<close>

definition wiring :: "EnrollmentAwareApplier \<Rightarrow> bool \<times> SlashApplier option \<times> u64 option \<times> u64 \<times> bool list" where
  "wiring a = (da_enrollment a, da_slasher a, da_heightFn a, da_rootHeight a,
     [da_gov a = None, da_tasks a = None, da_streams a = None, da_recovery a = None, da_tokens a = None])"

text \<open>Everything of a node but its accounts and one component.\<close>

definition same_rest ::
  "bool \<Rightarrow> bool \<Rightarrow> bool \<Rightarrow> bool \<Rightarrow> bool \<Rightarrow> bool \<Rightarrow> EnrollmentAwareApplier \<Rightarrow> EnrollmentAwareApplier \<Rightarrow> bool" where
  "same_rest state gov tasks streams recovery tokens a b \<longleftrightarrow> wiring b = wiring a \<and>
     (state \<or> da_state b = da_state a) \<and> (gov \<or> da_gov b = da_gov a) \<and> (tasks \<or> da_tasks b = da_tasks a) \<and>
     (streams \<or> da_streams b = da_streams a) \<and> (recovery \<or> da_recovery b = da_recovery a) \<and>
     (tokens \<or> da_tokens b = da_tokens a)"

lemmas rest_defs = same_rest_def wiring_def

lemma rest_enrollment: "same_rest True False False False False False a (fst (dispatch_enrollment e a tx))"
  by (simp add: dispatch_enrollment_def rest_defs split: option.split prod.split)

lemma rest_reward: "same_rest True False False False False False a (fst (dispatch_reward e ord a tx))"
  by (simp add: dispatch_reward_def rest_defs split: prod.split)

lemma rest_slash: "same_rest True False False False False False a (fst (dispatch_slash e a tx))"
  by (simp add: dispatch_slash_def rest_defs split: option.split prod.split)

lemma rest_gov: "same_rest False True False False False False a (fst (dispatch_gov e a tx))"
  by (simp add: dispatch_gov_def rest_defs split: option.split prod.split)

lemma rest_task: "same_rest False False True False False False a (fst (dispatch_task e ord a tx))"
  by (simp add: dispatch_task_def rest_defs split: option.split prod.split sum.split)

lemma rest_stream: "same_rest False False False True False False a (fst (dispatch_stream e a tx))"
  by (simp add: dispatch_stream_def rest_defs split: option.split prod.split)

lemma rest_recovery: "same_rest False False False False True False a (fst (dispatch_recovery e a tx))"
  by (simp add: dispatch_recovery_def rest_defs split: option.split prod.split)

lemma rest_token: "same_rest False False False False False True a (fst (dispatch_token e a tx h))"
  by (simp add: dispatch_token_def rest_defs split: option.split prod.split)

lemma rest_transfer: "same_rest False False False False False False a (fst (dispatch_transfer e a tx))"
  by (simp add: dispatch_transfer_def rest_defs split: prod.split)

lemma rest_refl: "same_rest False False False False False False a a"
  by (simp add: same_rest_def)

lemma same_restI:
  assumes "same_rest s g t r c k a b" and "s \<longrightarrow> s'" and "g \<longrightarrow> g'" and "t \<longrightarrow> t'" and "r \<longrightarrow> r'" and "c \<longrightarrow> c'" and "k \<longrightarrow> k'"
  shows "same_rest s' g' t' r' c' k' a b"
  using assms by (auto simp: same_rest_def)

lemma rest_token_rules:
  "same_rest False False False False False True a
     (fst (case qsdm20RulesAt act src of Inl err \<Rightarrow> (a, Some (TokenRefused err))
       | Inr (active, h) \<Rightarrow> if active then dispatch_token e a tx h else dispatch_transfer e a tx))"
proof (cases "qsdm20RulesAt act src")
  case (Inl err)
  then show ?thesis using same_restI [OF rest_refl] by simp
next
  case (Inr r)
  obtain active h where "r = (active, h)" by (cases r)
  then show ?thesis using Inr rest_token [of a e tx h] same_restI [OF rest_transfer [of a e tx]] by simp
qed

definition chain_contract :: "string \<Rightarrow> bool" where
  "chain_contract c \<longleftrightarrow> IsContractID c \<or> c = MiningRewardContractID \<or> c = SlashContractID"

text \<open>A transaction touches, beside the accounts, only the component that its contract ID names.\<close>

lemma dispatch_rest:
  "same_rest (chain_contract (tx_ContractID tx)) (tx_ContractID tx = GovContractID) (tx_ContractID tx = TaskContractID)
     (tx_ContractID tx = StreamContractID) (tx_ContractID tx = RecoveryCapsuleContractID) (tx_ContractID tx = QSDM20ContractID)
     a (fst (DispatchApplyTx e ord a tx))"
proof -
  let ?c = "tx_ContractID tx"
  consider (enroll) "IsContractID ?c" | (reward) "\<not> IsContractID ?c" "?c = MiningRewardContractID"
    | (slash) "\<not> IsContractID ?c" "?c \<noteq> MiningRewardContractID" "?c = SlashContractID"
    | (rest) "\<not> chain_contract ?c" unfolding chain_contract_def by blast
  then show ?thesis
  proof cases
    case enroll
    then show ?thesis by (simp add: DispatchApplyTx_def same_restI [OF rest_enrollment] chain_contract_def)
  next
    case reward
    then show ?thesis by (simp add: DispatchApplyTx_def same_restI [OF rest_reward] chain_contract_def)
  next
    case slash
    then show ?thesis by (simp add: DispatchApplyTx_def same_restI [OF rest_slash] chain_contract_def)
  next
    case rest
    then have "DispatchApplyTx e ord a tx =
       (if ?c = GovContractID then dispatch_gov e a tx else if ?c = TaskContractID then dispatch_task e ord a tx
        else if ?c = StreamContractID then dispatch_stream e a tx
        else if ?c = RecoveryCapsuleContractID then dispatch_recovery e a tx
        else if ?c = QSDM20ContractID
        then (case qsdm20RulesAt (q_activation (de_token e)) (Some (NextBlockHeight a)) of
            Inl err \<Rightarrow> (a, Some (TokenRefused err))
          | Inr (active, h) \<Rightarrow> if active then dispatch_token e a tx h else dispatch_transfer e a tx)
        else dispatch_transfer e a tx)" by (simp add: DispatchApplyTx_def chain_contract_def)
    then show ?thesis
      by (simp add: same_restI [OF rest_gov] same_restI [OF rest_task] same_restI [OF rest_stream] same_restI [OF rest_recovery]
          same_restI [OF rest_token_rules] same_restI [OF rest_transfer])
  qed
qed

lemma dispatch_wiring [simp]: "wiring (fst (DispatchApplyTx e ord a tx)) = wiring a"
  using dispatch_rest [of tx a e ord] by (simp add: same_rest_def)

section \<open>Runs\<close>

fun dispatch_run ::
  "dispatch_env \<Rightarrow> EnrollmentAwareApplier \<Rightarrow> (dispatch_orders \<times> Tx) list \<Rightarrow> EnrollmentAwareApplier \<times> dispatch_error option list" where
  "dispatch_run e a [] = (a, [])"
| "dispatch_run e a ((ord, tx) # txs) =
     (case DispatchApplyTx e ord a tx of
        (a1, r) \<Rightarrow> (case dispatch_run e a1 txs of (a2, rs) \<Rightarrow> (a2, r # rs)))"

lemma run_wiring: "wiring (fst (dispatch_run e a txs)) = wiring a"
proof (induction txs arbitrary: a)
  case (Cons x txs)
  obtain ord tx where "x = (ord, tx)" by (cases x)
  then show ?case
    using Cons.IH [of "fst (DispatchApplyTx e ord a tx)"] by (simp add: case_prod_beta)
qed simp

section \<open>Replay on a copy\<close>

lemma clone_accounts [simp]: "CloneStore s = s"
  by (simp add: CloneStore_def)

lemma clone_streams [simp]: "StreamClone s = s" "StreamRestore s t = t"
  by (simp_all add: StreamClone_def StreamRestore_def)

lemma clone_tokens [simp]: "TokensClone s = s" "TokensRestore s t = t"
  by (simp_all add: TokensClone_def TokensRestore_def option.map_ident comp_def)

lemma restore_tasks [simp]: "RestoreTasks s t = t"
  by (simp add: RestoreTasks_def)

lemma some_clones [simp]:
  "map_option ChainReplayCloneTasks ts = ts" "map_option StreamClone ss = ss" "map_option RecoveryClone rs = rs"
  "map_option TokensClone qs = qs"
proof -
  show "map_option ChainReplayCloneTasks ts = ts" by (cases ts) simp_all
  show "map_option StreamClone ss = ss" by (cases ss) simp_all
  show "map_option RecoveryClone rs = rs" by (cases rs) simp_all
  show "map_option TokensClone qs = qs" by (cases qs) simp_all
qed

text \<open>The slash applier is as its constructor makes it: no parameter store, the default threshold.\<close>

definition replayable :: "EnrollmentAwareApplier \<Rightarrow> bool" where
  "replayable a \<longleftrightarrow> (case da_slasher a of
     None \<Rightarrow> True | Some sa \<Rightarrow> NewSlashApplier (sa_Dispatcher sa) (sa_RewardBPS sa) = Some sa)"

lemma clone_live: "replayable a \<Longrightarrow> ChainReplayClone a = Some (a\<lparr>da_gov := None\<rparr>)"
  by (auto simp: ChainReplayClone_def replayable_def Let_def split: option.splits)

lemma clone_parts:
  assumes "ChainReplayClone a = Some c"
  shows "da_accounts c = da_accounts a" "da_state c = da_state a" "da_enrollment c = da_enrollment a" "da_gov c = None"
    "da_tasks c = da_tasks a" "da_streams c = da_streams a" "da_recovery c = da_recovery a" "da_tokens c = da_tokens a"
    "da_heightFn c = da_heightFn a" "da_rootHeight c = da_rootHeight a" "da_slasher c = None \<longleftrightarrow> da_slasher a = None"
  using assms by (auto simp: ChainReplayClone_def Let_def split: option.splits)














text \<open>
  The slash applier of the copy has no parameter store: it pays the reporter the share of the configuration, and revokes below
  the default stake, where the node itself goes by the active values of governance.
\<close>

lemma copy_slashes_by_configuration:
  assumes "ChainReplayClone a = Some c" and "da_slasher a = Some sa"
  obtains sc where "da_slasher c = Some sc" "activeRewardBPS (slasher_params c sc) = sa_RewardBPS sa"
    "activeAutoRevokeMinStakeDust (slasher_params c sc) = MinEnrollStakeDust"
proof -
  obtain sc where sc: "NewSlashApplier (sa_Dispatcher sa) (sa_RewardBPS sa) = Some sc" "da_slasher c = Some sc"
    using assms by (auto simp: ChainReplayClone_def Let_def)
  then show thesis using that [of sc]
    by (auto simp: NewSlashApplier_def slasher_params_def activeRewardBPS_def activeAutoRevokeMinStakeDust_def split: if_splits)
qed

section \<open>Invariants of a node\<close>

definition orders_fit :: "dispatch_orders \<Rightarrow> EnrollmentAwareApplier \<Rightarrow> bool" where
  "orders_fit ord a \<longleftrightarrow> iteration (es_byNodeID (da_state a)) (do_nodes ord)"

definition node_ok :: "dispatch_env \<Rightarrow> EnrollmentAwareApplier \<Rightarrow> bool" where
  "node_ok e a \<longleftrightarrow> enroll_reach (da_state a) \<and>
     (\<forall>ga. da_gov a = Some ga \<longrightarrow> gov_ok ga) \<and>
     (\<forall>s. da_tasks a = Some s \<longrightarrow> store_running_ok s) \<and>
     (\<forall>s. da_streams a = Some s \<longrightarrow> stream_inv s) \<and>
     (\<forall>s. da_recovery a = Some s \<longrightarrow> recovery_ok (de_recovery e) s) \<and>
     (\<forall>s. da_tokens a = Some s \<longrightarrow> tokens_ok s)"

lemma node_okD:
  assumes "node_ok e a"
  shows "enroll_reach (da_state a)" and "da_gov a = Some ga \<Longrightarrow> gov_ok ga" and "da_tasks a = Some t \<Longrightarrow> store_running_ok t"
    and "da_streams a = Some s \<Longrightarrow> stream_inv s" and "da_recovery a = Some r \<Longrightarrow> recovery_ok (de_recovery e) r"
    and "da_tokens a = Some q \<Longrightarrow> tokens_ok q"
  using assms by (simp_all add: node_ok_def)

lemma enroll_reach_steps: "enroll_step\<^sup>*\<^sup>* s t \<Longrightarrow> enroll_reach s \<Longrightarrow> enroll_reach t"
  by (induction rule: rtranclp_induct) (auto intro: enroll_next)

lemma chain_branches_reach:
  assumes "enroll_reach (da_state a)" and "orders_fit ord a" and "da_heightFn a \<noteq> Some 0"
  shows "enroll_reach (da_state (fst (dispatch_enrollment e a tx)))"
    and "enroll_reach (da_state (fst (dispatch_reward e ord a tx)))"
    and "enroll_reach (da_state (fst (dispatch_slash e a tx)))"
proof -
  have st: "ch_state (chain_of a) = da_state a" by (simp add: chain_of_def)
  have it: "iteration (es_byNodeID (ch_state (chain_of a))) (do_nodes ord)" using assms(2) by (simp add: orders_fit_def st)
  have zero: "er_RevokedAtHeight (enroll_record ret tx p h) = 0" for ret p h by (simp add: enroll_record_def)
  have "enroll_reach (ch_state (fst (ApplyEnrollmentTx oob fork ret cd (chain_of a) tx h)))" if "h \<noteq> 0" for oob fork ret cd h
    using enrollment_tx_state [of oob fork ret cd "chain_of a" tx h] enroll_next [OF assms(1) step_enroll [OF zero]]
      enroll_next [OF assms(1) step_unenroll [OF that]] assms(1) st by auto
  then show "enroll_reach (da_state (fst (dispatch_enrollment e a tx)))"
    using assms(1,3) by (auto simp: dispatch_enrollment_def currentHeight_def case_prod_beta split: option.split)
  have "enroll_reach (ch_state (fst (ApplyMiningRewardTx oob (chain_of a) (do_nodes ord) tx)))" for oob
    using reward_tx_state [of oob "chain_of a" "do_nodes ord" tx] enroll_next [OF assms(1) step_accrue [OF it [unfolded st]]] assms(1) st
    by auto
  then show "enroll_reach (da_state (fst (dispatch_reward e ord a tx)))"
    using assms(1) by (simp add: dispatch_reward_def case_prod_beta)
  have "enroll_reach (ch_state (fst (ApplySlashTx oob fork cd sa (chain_of a) tx h)))" if "h \<noteq> 0" for oob fork cd sa h
    using enroll_reach_steps [OF slash_tx_state [OF that]] assms(1) st by metis
  then show "enroll_reach (da_state (fst (dispatch_slash e a tx)))"
    using assms(1,3) by (auto simp: dispatch_slash_def currentHeight_def case_prod_beta split: option.split)
qed

lemma dispatch_reach:
  assumes "enroll_reach (da_state a)" and "orders_fit ord a" and "da_heightFn a \<noteq> Some 0"
  shows "enroll_reach (da_state (fst (DispatchApplyTx e ord a tx)))"
proof (cases "IsContractID (tx_ContractID tx) \<or> tx_ContractID tx = MiningRewardContractID \<or> tx_ContractID tx = SlashContractID")
  case True
  then show ?thesis using chain_branches_reach [OF assms] by (auto simp: DispatchApplyTx_def)
next
  case False
  then show ?thesis using dispatch_rest [of tx a e ord] assms(1) by (auto simp: same_rest_def chain_contract_def)
qed

lemma gov_ok_accounts: "gov_ok (ga\<lparr>ga_Accounts := x\<rparr>) = gov_ok ga"
  by (simp add: gov_ok_def split: option.split)

lemma gov_branch_ok:
  assumes "\<And>ga. da_gov a = Some ga \<Longrightarrow> gov_ok ga" and "da_gov (fst (dispatch_gov e a tx)) = Some ga'"
  shows "gov_ok ga'"
  using assms by (auto intro!: gov_ok_tx simp: dispatch_gov_def gov_ok_accounts case_prod_beta split: option.splits)

lemma stream_branch_ok:
  assumes "\<And>s. da_streams a = Some s \<Longrightarrow> stream_inv s" and "da_streams (fst (dispatch_stream e a tx)) = Some s'"
  shows "stream_inv s'"
proof -
  have "stream_inv (fst (fst (ApplyEconomicTx oob fork v (s, acc) tx)))" if "stream_inv s" for oob fork v s acc
  proof (cases "ApplyEconomicTx oob fork v (s, acc) tx")
    case (Pair w r)
    obtain t acc' where w: "w = (t, acc')" by (cases w)
    have "t = s \<or> (\<exists>x y. Streams.applyAction v s x = (t, y))"
      using stream_tx_atomic [where oob = oob and fork = fork and v = v and s = s and acc = acc and tx = tx] Pair w by (auto split: option.splits)
    then show ?thesis using stream_flow.inv_step [OF that, of v] that Pair w by (auto simp: stream_step_def) (metis fst_conv)
  qed
  then show ?thesis
    using assms by (auto simp: dispatch_stream_def case_prod_beta split: option.splits)
qed

lemma task_branch_ok:
  assumes "\<And>s. da_tasks a = Some s \<Longrightarrow> store_running_ok s" and "da_tasks (fst (dispatch_task e ord a tx)) = Some s'"
  shows "store_running_ok s'"
proof -
  have "store_running_ok (fst (fst (applyEconomicTx te rs rs' (s, acc) tx h)))" if "store_running_ok s" for te rs rs' s acc h
    using task_running.inv_step [of "(s, acc)" te "CallEconomic rs rs' tx h"] that by (simp add: run_task_def)
  then show ?thesis
    using assms by (auto simp: dispatch_task_def case_prod_beta split: option.splits sum.splits)
qed

lemma recovery_branch_ok:
  assumes "\<And>s. da_recovery a = Some s \<Longrightarrow> recovery_ok (de_recovery e) s"
    and "da_recovery (fst (dispatch_recovery e a tx)) = Some s'"
  shows "recovery_ok (de_recovery e) s'"
  using assms recovery_ok_economic [of "de_recovery e" s acs tx for s acs]
  by (auto simp: dispatch_recovery_def case_prod_beta split: option.splits)

lemma token_branch_ok:
  assumes "\<And>s. da_tokens a = Some s \<Longrightarrow> tokens_ok s" and "da_tokens (fst (dispatch_token e a tx h)) = Some s'"
  shows "tokens_ok s'"
proof -
  have "tokens_ok (fst (fst (ApplyEconomicTxAtHeight v (s, acc) tx h)))" if "tokens_ok s" for v s acc
    using token_runs.inv_step [of "(s, acc)" v "OpEconomic tx h"] that by (simp add: token_step_def)
  then show ?thesis using assms by (auto simp: dispatch_token_def case_prod_beta split: option.splits)
qed

lemmas contract_ids = IsContractID_def ContractID_def SignedContractID_def MiningRewardContractID_def SlashContractID_def
  GovContractID_def TaskContractID_def StreamContractID_def RecoveryCapsuleContractID_def QSDM20ContractID_def
  WalletTransferContractID_def

lemma routes:
  "IsContractID (tx_ContractID tx) \<Longrightarrow> DispatchApplyTx e ord a tx = dispatch_enrollment e a tx"
  "tx_ContractID tx = MiningRewardContractID \<Longrightarrow> DispatchApplyTx e ord a tx = dispatch_reward e ord a tx"
  "tx_ContractID tx = SlashContractID \<Longrightarrow> DispatchApplyTx e ord a tx = dispatch_slash e a tx"
  "tx_ContractID tx = GovContractID \<Longrightarrow> DispatchApplyTx e ord a tx = dispatch_gov e a tx"
  "tx_ContractID tx = TaskContractID \<Longrightarrow> DispatchApplyTx e ord a tx = dispatch_task e ord a tx"
  "tx_ContractID tx = StreamContractID \<Longrightarrow> DispatchApplyTx e ord a tx = dispatch_stream e a tx"
  "tx_ContractID tx = RecoveryCapsuleContractID \<Longrightarrow> DispatchApplyTx e ord a tx = dispatch_recovery e a tx"
  "tx_ContractID tx = WalletTransferContractID \<Longrightarrow> DispatchApplyTx e ord a tx = dispatch_transfer e a tx"
  by (simp_all add: DispatchApplyTx_def) (simp_all add: contract_ids)

lemma token_route:
  assumes "tx_ContractID tx = QSDM20ContractID"
  obtains (unset) err where "DispatchApplyTx e ord a tx = (a, Some (TokenRefused err))"
  | (active) h where "DispatchApplyTx e ord a tx = dispatch_token e a tx h"
  | (inactive) "DispatchApplyTx e ord a tx = dispatch_transfer e a tx"
proof -
  have "DispatchApplyTx e ord a tx = (case qsdm20RulesAt (q_activation (de_token e)) (Some (NextBlockHeight a)) of
      Inl err \<Rightarrow> (a, Some (TokenRefused err))
    | Inr (active, h) \<Rightarrow> if active then dispatch_token e a tx h else dispatch_transfer e a tx)"
    using assms by (simp add: DispatchApplyTx_def) (simp add: contract_ids)
  then show thesis using that by (auto split: sum.splits prod.splits if_splits)
qed

lemma route_cases:
  obtains (chain) "chain_contract (tx_ContractID tx)" | (gov) "tx_ContractID tx = GovContractID"
  | (task) "tx_ContractID tx = TaskContractID" | (stream) "tx_ContractID tx = StreamContractID"
  | (recovery) "tx_ContractID tx = RecoveryCapsuleContractID" | (token) "tx_ContractID tx = QSDM20ContractID"
  | (plain) "DispatchApplyTx e ord a tx = dispatch_transfer e a tx"
proof -
  have "chain_contract (tx_ContractID tx) \<or> tx_ContractID tx = GovContractID \<or> tx_ContractID tx = TaskContractID \<or>
      tx_ContractID tx = StreamContractID \<or> tx_ContractID tx = RecoveryCapsuleContractID \<or>
      tx_ContractID tx = QSDM20ContractID \<or> DispatchApplyTx e ord a tx = dispatch_transfer e a tx"
    by (auto simp: DispatchApplyTx_def chain_contract_def)
  then show thesis using that by blast
qed

lemma dispatch_node_ok:
  assumes ok: "node_ok e a" and "orders_fit ord a" and "da_heightFn a \<noteq> Some 0"
  shows "node_ok e (fst (DispatchApplyTx e ord a tx))"
proof -
  let ?b = "fst (DispatchApplyTx e ord a tx)" and ?c = "tx_ContractID tx"
  note okD = node_okD [OF ok] and rest = dispatch_rest [of tx a e ord, unfolded same_rest_def]
  have "enroll_reach (da_state ?b)" using dispatch_reach [OF okD(1) assms(2,3)] .
  moreover have "gov_ok ga" if "da_gov ?b = Some ga" for ga
    using that okD(2) rest gov_branch_ok [of a e tx ga] by (cases "?c = GovContractID") (auto simp: routes(4))
  moreover have "store_running_ok s" if "da_tasks ?b = Some s" for s
    using that okD(3) rest task_branch_ok [of a e ord tx s] by (cases "?c = TaskContractID") (auto simp: routes(5))
  moreover have "stream_inv s" if "da_streams ?b = Some s" for s
    using that okD(4) rest stream_branch_ok [of a e tx s] by (cases "?c = StreamContractID") (auto simp: routes(6))
  moreover have "recovery_ok (de_recovery e) s" if "da_recovery ?b = Some s" for s
    using that okD(5) rest recovery_branch_ok [of a e tx s] by (cases "?c = RecoveryCapsuleContractID") (auto simp: routes(7))
  moreover have "tokens_ok s" if s: "da_tokens ?b = Some s" for s
  proof (cases "?c = QSDM20ContractID")
    case True
    then show ?thesis
    proof (cases rule: token_route [of tx e ord a])
      case (active h)
      then show ?thesis using s token_branch_ok [of a e tx h s] okD(6) by simp
    qed (use s okD(6) rest_transfer [of a e tx] in \<open>auto simp: same_rest_def\<close>)
  qed (use s okD(6) rest in auto)
  ultimately show ?thesis by (simp add: node_ok_def)
qed

lemma revoke_legacy_dom:
  "set ns \<subseteq> dom (es_byNodeID s) \<Longrightarrow> dom (es_byNodeID (fst (revoke_legacy_loop s ns acc))) = dom (es_byNodeID s)"
proof (induction ns arbitrary: s acc)
  case (Cons n ns)
  have "dom (es_byNodeID (revoke_record s n r h)) = dom (es_byNodeID s)" for r h
    using Cons.prems by (auto simp: revoke_record_def)
  then show ?case using Cons by (simp add: Let_def)
qed simp

lemma sweep_node_ok:
  assumes ok: "node_ok e a" and fit: "orders_fit ord a"
  shows "node_ok e (fst (Sweep e ord a h))"
proof -
  let ?ch = "chain_of a"
  have it: "iteration (es_byNodeID (ch_state ?ch)) (do_nodes ord)" using fit by (simp add: orders_fit_def chain_of_def)
  then have "set (sort (do_nodes ord)) \<subseteq> dom (es_byNodeID (ch_state ?ch))" by (simp add: iteration_def)
  then have "dom (es_byNodeID (fst (RevokeLegacyOwners (ch_state ?ch) (do_nodes ord) h))) = dom (es_byNodeID (ch_state ?ch))"
    using revoke_legacy_dom by (simp add: RevokeLegacyOwners_def)
  then have "iteration (es_byNodeID (fst (RevokeLegacyOwners (ch_state ?ch) (do_nodes ord) h))) (do_nodes ord)"
    using it by (simp add: iteration_def)
  from enroll_reach_steps [OF sweep_state [OF it this]] have "enroll_reach (ch_state (fst (SweepMaturedEnrollments (de_oob e) (de_fork e) ?ch (do_nodes ord) h)))"
    using node_okD(1) [OF ok] by (simp add: chain_of_def)
  then show ?thesis using ok by (simp add: Sweep_def node_ok_def case_prod_beta)
qed

section \<open>Refusals\<close>

lemma transfer_refused: "dispatch_transfer e a tx = (a', Some err) \<Longrightarrow> a' = a"
  by (cases rule: wallet_transfer_cases [of "de_wallet e" "de_fork e" "da_accounts a" tx])
    (auto simp: dispatch_transfer_def split: if_splits prod.splits dest: wallet_tx_same)

lemma chain_refused:
  assumes ok: "node_ok e a" and "es_byNodeID (da_state a) [] = None" and "da_heightFn a \<noteq> Some 0"
    and c: "chain_contract (tx_ContractID tx)" and r: "DispatchApplyTx e ord a tx = (a', Some err)"
  shows "a' = a"
proof -
  have inv: "enroll_inv (ch_state (chain_of a))" "es_byNodeID (ch_state (chain_of a)) [] = None"
    using enroll_reach_inv [OF node_okD(1) [OF ok]] assms(2) by (simp_all add: chain_of_def)
  have "a' = a" if "dispatch_enrollment e a tx = (a', Some err)"
    using that enrollment_tx_atomic [OF inv]
    by (auto simp: dispatch_enrollment_def currentHeight_def split: option.splits prod.splits if_splits) (metis put_chain_of)
  moreover have "a' = a" if "dispatch_reward e ord a tx = (a', Some err)"
    using that reward_refused by (auto simp: dispatch_reward_def split: prod.splits if_splits) (metis put_chain_of)
  moreover have "a' = a" if "dispatch_slash e a tx = (a', Some err)"
    using that slash_refused [OF inv(1)] assms(3)
    by (auto simp: dispatch_slash_def currentHeight_def split: option.splits prod.splits) (metis put_chain_of)
  ultimately show ?thesis using c r by (auto simp: chain_contract_def routes(1-3))
qed

lemma gov_refused:
  assumes ok: "node_ok e a" and r: "dispatch_gov e a tx = (a', Some err)"
  shows "a' = a \<or> err = GovRefused (DuplicateVote (tx_Sender tx)) \<and>
    (\<exists>acc. DebitAndBumpNonce (da_accounts a) (tx_Sender tx) (tx_Fee tx) (tx_Nonce tx) = (acc, None) \<and> a' = a\<lparr>da_accounts := acc\<rparr>)"
proof (cases "da_gov a")
  case None
  then show ?thesis using r by (simp add: dispatch_gov_def)
next
  case (Some ga)
  show ?thesis
  proof (cases "da_heightFn a")
    case None
    then show ?thesis using r Some by (simp add: dispatch_gov_def currentHeight_def)
  next
    case h: (Some h)
    let ?ga = "ga\<lparr>ga_Accounts := da_accounts a\<rparr>"
    obtain ga' x where g: "ApplyGovTx (de_gov e) ?ga tx h = (ga', x)" by (rule prod.exhaust)
    then obtain err' where e: "x = Some err'" "err = GovRefused err'"
      and a': "a' = a\<lparr>da_gov := Some (ga'\<lparr>ga_Accounts := ga_Accounts ga\<rparr>), da_accounts := ga_Accounts ga'\<rparr>"
      using r Some h by (auto simp: dispatch_gov_def currentHeight_def)
    have "gov_ok ?ga" using node_okD(2) [OF ok Some] by (simp add: gov_ok_accounts)
    from gov_tx_refused [OF this g [unfolded e(1)]] show ?thesis using a' e(2) Some by auto
  qed
qed

lemma store_refused:
  "dispatch_task e ord a tx = (a', Some err) \<Longrightarrow> a' = a"
  "dispatch_stream e a tx = (a', Some err) \<Longrightarrow> a' = a"
  "dispatch_recovery e a tx = (a', Some err) \<Longrightarrow> a' = a"
  "dispatch_token e a tx h = (a', Some err) \<Longrightarrow> a' = a"
proof -
  have task: "w = (s, acc)" if "applyEconomicTx te rs rs' (s, acc) tx k = (w, Some x)" for te rs rs' s acc k w x
    using that by (cases rule: economic_outcome) simp_all
  then show "dispatch_task e ord a tx = (a', Some err) \<Longrightarrow> a' = a"
    by (auto simp: dispatch_task_def split: option.splits prod.splits sum.splits)
  have stream: "w = (s, acc)" if "ApplyEconomicTx oob fork v (s, acc) tx = (w, Some x)" for oob fork v s acc w x
    using that stream_tx_atomic [where oob = oob and fork = fork and v = v and s = s and acc = acc and tx = tx]
    by (auto split: prod.splits)
  then show "dispatch_stream e a tx = (a', Some err) \<Longrightarrow> a' = a"
    by (auto simp: dispatch_stream_def split: option.splits prod.splits)
  have recovery: "w = (s, acc)" if "RecoveryApplyEconomicTx re (s, acc) tx = (w, Some x)" for re s acc w x
    by (cases rule: recovery_economic_cases [of re s acc tx]) (use that in simp_all)
  then show "dispatch_recovery e a tx = (a', Some err) \<Longrightarrow> a' = a"
    by (auto simp: dispatch_recovery_def split: option.splits prod.splits)
  show "dispatch_token e a tx h = (a', Some err) \<Longrightarrow> a' = a"
    using token_refused_same by (auto simp: dispatch_token_def split: option.splits prod.splits)
qed

section \<open>Reachable nodes\<close>

text \<open>A node that starts: empty stores where a store is wired, governance as booted from a configuration.\<close>

definition node_start :: "EnrollmentAwareApplier \<Rightarrow> bool" where
  "node_start a \<longleftrightarrow> da_state a = NewInMemoryState \<and>
     (\<forall>ga. da_gov a = Some ga \<longrightarrow> (\<exists>accounts bps fork authorities.
        boot_governance accounts (NewInMemoryParamStore, NewInMemoryAuthorityVoteStore) bps fork authorities = Some ga)) \<and>
     (\<forall>s. da_tasks a = Some s \<longrightarrow> s = NewTaskStateStore) \<and> (\<forall>s. da_streams a = Some s \<longrightarrow> s = NewStreamStateStore) \<and>
     (\<forall>s. da_recovery a = Some s \<longrightarrow> s = NewRecoveryCapsuleStateStore) \<and>
     (\<forall>s. da_tokens a = Some s \<longrightarrow> s = NewQSDM20StateStore)"

text \<open>
  What happens to it: transactions, the sweep and the promotion of governance changes after a block, heights, and rollback to
  a copy taken of a state it was in before. Transactions are not applied at height 0, the genesis block.
\<close>

inductive node_reach :: "dispatch_env \<Rightarrow> EnrollmentAwareApplier \<Rightarrow> bool" for e where
  start: "node_start a \<Longrightarrow> node_reach e a"
| transaction: "node_reach e a \<Longrightarrow> orders_fit ord a \<Longrightarrow> da_heightFn a \<noteq> Some 0 \<Longrightarrow> node_reach e (fst (DispatchApplyTx e ord a tx))"
| swept: "node_reach e a \<Longrightarrow> orders_fit ord a \<Longrightarrow> node_reach e (fst (Sweep e ord a h))"
| promoted: "node_reach e a \<Longrightarrow> da_gov a = Some ga \<Longrightarrow> valid_param_orders pord \<Longrightarrow> valid_orders vord \<Longrightarrow>
    node_reach e (SetGovApplier a (Some (fst (PromotePending pord vord ga h))))"
| moved: "node_reach e a \<Longrightarrow> node_reach e (SetDispatchHeightFn a fn)"
| committing: "node_reach e a \<Longrightarrow> node_reach e (SetStateRootHeight a h)"
| rolled_back: "node_reach e a \<Longrightarrow> node_reach e b \<Longrightarrow> ChainReplayClone b = Some c \<Longrightarrow>
    node_reach e (fst (RestoreFromChainReplay a c))"

lemma start_ok: "node_start a \<Longrightarrow> node_ok e a"
proof -
  assume s: "node_start a"
  have "store_running_ok NewTaskStateStore" by (simp add: store_running_ok_def NewTaskStateStore_def)
  moreover have "tokens_ok NewQSDM20StateStore" by (simp add: tokens_ok_def NewQSDM20StateStore_def)
  moreover have "gov_ok ga" if "da_gov a = Some ga" for ga using s that boot_ok(1) unfolding node_start_def by blast
  ultimately show ?thesis
    using s new_streams_inv(1) recovery_ok_new enroll_start by (auto simp: node_start_def node_ok_def)
qed

lemma restore_part_from:
  "restore_part (\<lambda>_ t. t) live other = Some r \<Longrightarrow> r = other"
  by (auto simp: restore_part_def split: option.splits)

lemma restores [simp]:
  "RestoreTasks = (\<lambda>_ t. t)" "StreamRestore = (\<lambda>_ t. t)" "RecoveryRestore = (\<lambda>_ t. t)" "TokensRestore = (\<lambda>_ t. t)"
  by (simp_all add: fun_eq_iff)

lemma restore_node_ok:
  assumes "node_ok e a" and "node_ok e b" and "ChainReplayClone b = Some c"
  shows "node_ok e (fst (RestoreFromChainReplay a c))"
proof -
  note c = clone_parts [OF assms(3)]
  show ?thesis
    using assms(1,2)
    by (auto simp: RestoreFromChainReplay_def Let_def node_ok_def c split: option.split dest: restore_part_from)
qed

lemma node_reach_ok: "node_reach e a \<Longrightarrow> node_ok e a"
proof (induction rule: node_reach.induct)
  case (promoted a ga pord vord h)
  then have "gov_ok (fst (PromotePending pord vord ga h))" by (intro gov_ok_promote) (auto simp: node_ok_def)
  then show ?case using promoted.IH by (simp add: SetGovApplier_def node_ok_def)
next
  case (moved a fn)
  then show ?case by (simp add: SetDispatchHeightFn_def node_ok_def)
next
  case (committing a h)
  then show ?case by (simp add: SetStateRootHeight_def node_ok_def)
qed (simp_all add: start_ok dispatch_node_ok sweep_node_ok restore_node_ok)

lemma unwired_state: "\<not> da_enrollment a \<Longrightarrow> da_slasher a = None \<Longrightarrow> da_state (fst (dispatch_run e a txs)) = da_state a"
proof (induction txs arbitrary: a)
  case (Cons x txs)
  obtain ord tx where x: "x = (ord, tx)" by (cases x)
  let ?b = "fst (DispatchApplyTx e ord a tx)"
  have "\<not> da_enrollment ?b" "da_slasher ?b = None" using dispatch_wiring [of e ord a tx] Cons.prems by (simp_all add: wiring_def)
  moreover have "da_state ?b = da_state a"
  proof (cases "chain_contract (tx_ContractID tx)")
    case True
    then show ?thesis using Cons.prems
      by (auto simp: chain_contract_def routes(1-3) dispatch_enrollment_def dispatch_reward_def dispatch_slash_def)
  qed (use dispatch_rest [of tx a e ord] in \<open>simp add: same_rest_def\<close>)
  ultimately show ?case using Cons.IH [of ?b] x by (simp add: case_prod_beta)
qed simp

section \<open>Nonces\<close>

text \<open>An accepted transaction spends the nonce of its sender and no other; whatever else happens, a nonce stands or advances by one.\<close>

definition spends_nonce :: "string \<Rightarrow> u64 \<Rightarrow> AccountStore \<Rightarrow> AccountStore \<Rightarrow> bool" where
  "spends_nonce a n s s' \<longleftrightarrow> nonce_of s a = n \<and> (\<forall>b. nonce_of s' b = (if b = a then nonce_of s b + 1 else nonce_of s b))"

definition nonces_advance :: "AccountStore \<Rightarrow> AccountStore \<Rightarrow> bool" where
  "nonces_advance s s' \<longleftrightarrow> (\<forall>b. nonce_of s' b = nonce_of s b \<or> nonce_of s' b = nonce_of s b + 1)"

definition nonce_outcome :: "Tx \<Rightarrow> AccountStore \<Rightarrow> AccountStore \<times> 'e option \<Rightarrow> bool" where
  "nonce_outcome tx s w \<longleftrightarrow>
     (if snd w = None then spends_nonce (tx_Sender tx) (tx_Nonce tx) s (fst w) else nonces_advance s (fst w))"

lemma nonces_stay [simp]: "nonces_advance s s"
  by (simp add: nonces_advance_def)



lemma credit_nonces [simp]:
  "spends_nonce a n s (Credit oob fork s' b x) = spends_nonce a n s s'"
  "nonces_advance s (Credit oob fork s' b x) = nonces_advance s s'"
  by (simp_all add: spends_nonce_def nonces_advance_def debit_credit_nonce)




lemmas charge_same = charge_err_same enroll_charge_err




lemma settlement_nonces [simp]: "spends_nonce a n s (pay_settlement e st s') = spends_nonce a n s s'"
  by (simp add: pay_settlement_def Let_def split: option.split)










lemma outcome_map [simp]: "nonce_outcome tx s (s', map_option f r) = nonce_outcome tx s (s', r)"
  by (simp add: nonce_outcome_def)

lemma outcome_err [simp]: "nonce_outcome tx s (s, Some err)"
  by (simp add: nonce_outcome_def)








section \<open>A concrete node\<close>

definition demo_dispatch :: dispatch_env where
  "demo_dispatch = \<lparr>de_oob = (\<lambda>_. 0), de_fork = 100, de_retention = 0, de_codec = demo_codec, de_gov = demo_gov_codec,
     de_task = demo_pool_env, de_stream = demo_stream_env, de_retirement = 0, de_token = demo_token_env,
     de_recovery = demo_recovery_env, de_wallet = demo_wallet_env, de_sha256 = (\<lambda>x. x), de_enrollRoot = 0\<rparr>"

definition demo_key_lists :: dispatch_orders where
  "demo_key_lists = \<lparr>do_nodes = [], do_quote = [], do_claim = [], do_accounts = [],
     do_tasks = \<lparr>or_tasks = [], or_participants = (\<lambda>_. []), or_rounds = (\<lambda>_. []), or_senders = (\<lambda>_ _. []),
       or_relays = [], or_proofs = [], or_receipts = []\<rparr>,
     do_streams = [], do_stream_actions = [], do_locators = [], do_tokens = [], do_holders = (\<lambda>_. []), do_evidence = []\<rparr>"

definition demo_node :: EnrollmentAwareApplier where
  "demo_node = (NewEnrollmentAwareApplier demo_store NewInMemoryState True)
     \<lparr>da_gov := Some demo_gov, da_recovery := Some NewRecoveryCapsuleStateStore, da_heightFn := Some 10\<rparr>"

lemma demo_node_start: "node_start demo_node" "orders_fit demo_key_lists demo_node" "da_heightFn demo_node \<noteq> Some 0"
  using demo_boot
  by (auto simp: node_start_def demo_node_def NewEnrollmentAwareApplier_def orders_fit_def demo_key_lists_def NewInMemoryState_def
      iteration_def)

lemma demo_gov_tx: "tx_ContractID demo_param_tx = GovContractID"
  by (simp add: demo_param_tx_def)

lemma demo_gov_applies: "snd (DispatchApplyTx demo_dispatch demo_key_lists demo_node demo_param_tx) = None"
proof -
  have "demo_gov\<lparr>ga_Accounts := demo_store\<rparr> = demo_gov" by (simp add: demo_gov_def SetAuthorityVoteStore_def NewGovApplier_def)
  then show ?thesis
    using demo_param_ok
    by (simp add: routes(4) [OF demo_gov_tx] dispatch_gov_def demo_node_def NewEnrollmentAwareApplier_def currentHeight_def
        demo_dispatch_def case_prod_beta)
qed

section \<open>Properties\<close>






text \<open>
  A transaction changes, beside the accounts, at most the component that its contract ID names, and never the wiring of
  the node. Where that component is not wired, or a height is needed and no height source is installed, it is refused and
  the node stays as it is.\<close>

theorem dispatch_isolated_fail_closed:
  "let (b, r) = DispatchApplyTx e ord a tx; c = tx_ContractID tx in
     wiring b = wiring a \<and> (da_state b \<noteq> da_state a \<longrightarrow> chain_contract c) \<and> (da_gov b \<noteq> da_gov a \<longrightarrow> c = GovContractID) \<and>
     (da_tasks b \<noteq> da_tasks a \<longrightarrow> c = TaskContractID) \<and> (da_streams b \<noteq> da_streams a \<longrightarrow> c = StreamContractID) \<and>
     (da_recovery b \<noteq> da_recovery a \<longrightarrow> c = RecoveryCapsuleContractID) \<and>
     (da_tokens b \<noteq> da_tokens a \<longrightarrow> c = QSDM20ContractID) \<and>
     ((IsContractID c \<or> c = MiningRewardContractID) \<and> \<not> da_enrollment a \<longrightarrow> (b, r) = (a, Some EnrollmentNotWired)) \<and>
     (c = SlashContractID \<and> da_slasher a = None \<longrightarrow> (b, r) = (a, Some SlashingNotWired)) \<and>
     (c = GovContractID \<and> da_gov a = None \<longrightarrow> (b, r) = (a, Some GovernanceNotWired)) \<and>
     (c = TaskContractID \<and> da_tasks a = None \<longrightarrow> (b, r) = (a, Some TaskStateNotWired)) \<and>
     (c = StreamContractID \<and> da_streams a = None \<longrightarrow> (b, r) = (a, Some StreamStateNotWired)) \<and>
     (c = RecoveryCapsuleContractID \<and> da_recovery a = None \<longrightarrow> (b, r) = (a, Some RecoveryCapsuleStateNotWired)) \<and>
     (da_heightFn a = None \<and> (IsContractID c \<or> c = SlashContractID \<or> c = GovContractID \<or> c = TaskContractID) \<longrightarrow>
        b = a \<and> r \<noteq> None)"
proof -
  have closed: "(IsContractID (tx_ContractID tx) \<or> tx_ContractID tx = MiningRewardContractID) \<and> \<not> da_enrollment a \<Longrightarrow>
      DispatchApplyTx e ord a tx = (a, Some EnrollmentNotWired)"
    "tx_ContractID tx = SlashContractID \<Longrightarrow> da_slasher a = None \<Longrightarrow> DispatchApplyTx e ord a tx = (a, Some SlashingNotWired)"
    "tx_ContractID tx = GovContractID \<Longrightarrow> da_gov a = None \<Longrightarrow> DispatchApplyTx e ord a tx = (a, Some GovernanceNotWired)"
    "tx_ContractID tx = TaskContractID \<Longrightarrow> da_tasks a = None \<Longrightarrow> DispatchApplyTx e ord a tx = (a, Some TaskStateNotWired)"
    "tx_ContractID tx = StreamContractID \<Longrightarrow> da_streams a = None \<Longrightarrow> DispatchApplyTx e ord a tx = (a, Some StreamStateNotWired)"
    "tx_ContractID tx = RecoveryCapsuleContractID \<Longrightarrow> da_recovery a = None \<Longrightarrow>
      DispatchApplyTx e ord a tx = (a, Some RecoveryCapsuleStateNotWired)"
    by (auto simp: routes dispatch_enrollment_def dispatch_reward_def dispatch_slash_def dispatch_gov_def dispatch_task_def
        dispatch_stream_def dispatch_recovery_def)
  have "\<exists>err. DispatchApplyTx e ord a tx = (a, Some err)"
    if "da_heightFn a = None" "IsContractID (tx_ContractID tx) \<or> tx_ContractID tx = SlashContractID \<or>
      tx_ContractID tx = GovContractID \<or> tx_ContractID tx = TaskContractID"
    using that by (auto simp: routes dispatch_enrollment_def dispatch_slash_def dispatch_gov_def dispatch_task_def currentHeight_def
        split: option.split)
  then show ?thesis
    using dispatch_rest [of tx a e ord] closed
    by (cases "DispatchApplyTx e ord a tx") (auto simp: same_rest_def Let_def)
qed

theorem dispatch_isolated_fail_closed_witness:
  "DispatchApplyTx demo_dispatch demo_key_lists (demo_node\<lparr>da_gov := None\<rparr>) demo_param_tx =
     (demo_node\<lparr>da_gov := None\<rparr>, Some GovernanceNotWired)"
  using dispatch_isolated_fail_closed [of demo_dispatch demo_key_lists "demo_node\<lparr>da_gov := None\<rparr>" demo_param_tx] demo_gov_tx
  by (cases "DispatchApplyTx demo_dispatch demo_key_lists (demo_node\<lparr>da_gov := None\<rparr>) demo_param_tx") (simp add: Let_def)

text \<open>
  C38. A transaction that a reachable node refuses, whatever component refuses it, leaves the whole node as it was, except
  that a second vote of an authority on the same proposal costs its fee and its nonce.\<close>

theorem dispatch_refused_atomic:
  assumes "node_reach e a" and "es_byNodeID (da_state a) [] = None" and "da_heightFn a \<noteq> Some 0"
    and r: "DispatchApplyTx e ord a tx = (a', Some err)"
  shows "a' = a \<or> err = GovRefused (DuplicateVote (tx_Sender tx)) \<and>
    (\<exists>acc. DebitAndBumpNonce (da_accounts a) (tx_Sender tx) (tx_Fee tx) (tx_Nonce tx) = (acc, None) \<and> a' = a\<lparr>da_accounts := acc\<rparr>)"
proof (cases rule: route_cases [where tx = tx and e = e and ord = ord and a = a])
  case chain
  then show ?thesis using chain_refused [OF node_reach_ok [OF assms(1)] assms(2,3) _ r] by blast
next
  case gov
  then show ?thesis using gov_refused [OF node_reach_ok [OF assms(1)]] r by (simp add: routes(4))
next
  case task
  then show ?thesis using store_refused(1) r by (auto simp: routes(5))
next
  case stream
  then show ?thesis using store_refused(2) r by (auto simp: routes(6))
next
  case recovery
  then show ?thesis using store_refused(3) r by (auto simp: routes(7))
next
  case token
  then show ?thesis
  proof (cases rule: token_route [of tx e ord a])
    case (active h)
    then have "dispatch_token e a tx h = (a', Some err)" using r by simp
    then show ?thesis using store_refused(4) by blast
  next
    case inactive
    then have "dispatch_transfer e a tx = (a', Some err)" using r by simp
    then show ?thesis using transfer_refused by blast
  qed (use r in simp)
next
  case plain
  then show ?thesis using transfer_refused r by (metis (no_types))
qed

definition demo_bad_tx :: Tx where
  "demo_bad_tx = demo_param_tx\<lparr>tx_ContractID := RecoveryCapsuleContractID, tx_Payload := []\<rparr>"

lemma demo_bad_refused:
  "DispatchApplyTx demo_dispatch demo_key_lists demo_node demo_bad_tx =
     (fst (DispatchApplyTx demo_dispatch demo_key_lists demo_node demo_bad_tx), Some (RecoveryRefused RecoveryPayloadSize))"
proof -
  have "tx_ContractID demo_bad_tx = RecoveryCapsuleContractID" "tx_Payload demo_bad_tx = []" by (simp_all add: demo_bad_tx_def)
  moreover from this have "VerifyRecoveryCapsuleTx v demo_bad_tx = Some RecoveryPayloadSize" for v
    by (simp add: VerifyRecoveryCapsuleTx_def DecodeRecoveryCapsuleTx_def)
  ultimately show ?thesis
    by (simp add: routes(7) dispatch_recovery_def demo_node_def NewEnrollmentAwareApplier_def RecoveryApplyEconomicTx_def)
qed

theorem dispatch_refused_atomic_witness:
  "fst (DispatchApplyTx demo_dispatch demo_key_lists demo_node demo_bad_tx) = demo_node"
proof -
  have "es_byNodeID (da_state demo_node) [] = None" by (simp add: demo_node_def NewEnrollmentAwareApplier_def NewInMemoryState_def)
  from dispatch_refused_atomic [OF node_reach.start [OF demo_node_start(1)] this demo_node_start(3) demo_bad_refused]
  show ?thesis by simp
qed


lemma demo_clone: "ChainReplayClone demo_node = Some (demo_node\<lparr>da_gov := None\<rparr>)"
  by (rule clone_live) (simp add: replayable_def demo_node_def NewEnrollmentAwareApplier_def)



text \<open>
  C40. Restoring the copy taken before a run of transactions undoes it: accounts, enrollment, tasks, streams, recovery, tokens
  and the height of the root are as before, and the node's settings too. Only governance is not undone: it keeps what the
  run did to it.\<close>

theorem rollback_restores:
  assumes "ChainReplayClone a = Some c" and "da_enrollment a \<or> da_slasher a = None" and "b = fst (dispatch_run e a txs)"
  shows "RestoreFromChainReplay b c =
    (a\<lparr>da_gov := da_gov b, da_accounts := (da_accounts a)\<lparr>as_heightFn := as_heightFn (da_accounts b)\<rparr>\<rparr>, None)"
proof -
  note c = clone_parts [OF assms(1)]
  have w: "wiring b = wiring a" using run_wiring assms(3) by simp
  have state: "\<not> da_enrollment a \<longrightarrow> da_state b = da_state a" using assms(2,3) unwired_state by blast
  have part: "restore_part (\<lambda>_ t. t) x y = Some y" if "(x = None) = (y = None)" for x y :: "'s option"
    using that by (cases x; cases y) (simp_all add: restore_part_def)
  have restored: "restore_part (\<lambda>_ t. t) (da_tasks b) (da_tasks c) = Some (da_tasks a)"
    "restore_part (\<lambda>_ t. t) (da_streams b) (da_streams c) = Some (da_streams a)"
    "restore_part (\<lambda>_ t. t) (da_recovery b) (da_recovery c) = Some (da_recovery a)"
    "restore_part (\<lambda>_ t. t) (da_tokens b) (da_tokens c) = Some (da_tokens a)"
    using w by (auto simp: part c wiring_def)
  have acc: "RestoreFrom (da_accounts b) (da_accounts a) = (da_accounts a)\<lparr>as_heightFn := as_heightFn (da_accounts b)\<rparr>"
    by (rule AccountStore.equality) (simp_all add: RestoreFrom_def)
  show ?thesis
  proof (rule prod_eqI)
    show "fst (RestoreFromChainReplay b c) =
      fst (a\<lparr>da_gov := da_gov b, da_accounts := (da_accounts a)\<lparr>as_heightFn := as_heightFn (da_accounts b)\<rparr>\<rparr>, None :: dispatch_error option)"
      by (rule EnrollmentAwareApplier.equality)
        (use restored w state in \<open>simp_all add: RestoreFromChainReplay_def Let_def c wiring_def acc\<close>)
  qed (use restored w in \<open>simp add: RestoreFromChainReplay_def Let_def c wiring_def\<close>)
qed

theorem rollback_restores_witness:
  "\<exists>ga. RestoreFromChainReplay (fst (dispatch_run demo_dispatch demo_node [(demo_key_lists, demo_param_tx)]))
       (demo_node\<lparr>da_gov := None\<rparr>) = (ga, None) \<and> da_state ga = NewInMemoryState"
proof -
  have "da_enrollment demo_node" "da_state demo_node = NewInMemoryState"
    by (simp_all add: demo_node_def NewEnrollmentAwareApplier_def)
  then show ?thesis
    using rollback_restores [OF demo_clone _ refl, of demo_dispatch "[(demo_key_lists, demo_param_tx)]"] by simp
qed

text \<open>
  A governance transaction is refused on every copy, also when the node itself accepts it: a block that holds an applied
  governance transaction does not replay to its outcome.\<close>

theorem replay_refuses_governance:
  assumes "ChainReplayClone a = Some c" and "tx_ContractID tx = GovContractID"
  shows "DispatchApplyTx e ord c tx = (c, Some GovernanceNotWired)"
  using clone_parts(4) [OF assms(1)] by (simp add: routes(4) [OF assms(2)] dispatch_gov_def)

theorem replay_refuses_governance_witness:
  "snd (DispatchApplyTx demo_dispatch demo_key_lists demo_node demo_param_tx) = None \<and>
   snd (DispatchApplyTx demo_dispatch demo_key_lists (demo_node\<lparr>da_gov := None\<rparr>) demo_param_tx) = Some GovernanceNotWired"
  using replay_refuses_governance [OF demo_clone demo_gov_tx] demo_gov_applies by simp

end
