(* ===== verification/Spec2Isabelle.thy ===== *)
theory Spec2Isabelle
  imports Emission Mempool Merkle Consensus Dispatch
begin

text \<open>
  A verification library for the core of the QSDM node, a proof-of-work chain with a CELL currency,
  written in Go under \<open>src/QSDM/source/pkg\<close>.

  \<^bold>\<open>The program.\<close> Transactions arrive in the mempool, which orders them by fee and is guarded by a
  validator of nonces and balances. A block applies them to the account store, which keeps balances
  as floats or, after a fork, as integer dust. Transactions that carry a contract ID are applied by
  other components, which charge and credit the account store: miner enrollment with its bonds, the
  sweep of matured unbonds, mining rewards and slashing; payment streams, which hold an escrow; QSDM20
  tokens, with their own ledger of units; and edge tasks, whose participants are paid for submissions,
  some of them backed by a proof of relayed work that settles receipts of an edge pool. A list of
  authorities changes chain parameters, and itself, by transactions that take effect at a later height. Wallets
  sign transfers themselves, and can register an encrypted capsule from which 24 words recover their key. New
  coins come from the emission schedule, under a supply cap. A block commits to its transactions by
  a Merkle root. Validators with stake vote on blocks in rounds; their voting power is recomputed from
  locked stake and delegations.

  \<^bold>\<open>Theories.\<close>

  \<^item> \<open>Go_Prelude\<close>: 64-bit words, iteration over Go maps, sums over finite maps, and the locales
    \<open>conserving\<close> (accounts fed and drained step by step), \<open>invariant_kept\<close> and \<open>relation_kept\<close> (what every
    operation keeps holds after any sequence of them).
  \<^item> \<open>Float64\<close>: Go's \<open>float64\<close> as exact rationals with one rounding per operation, and its bit patterns.
  \<^item> \<open>Go_Strings\<close>: trimming, case folding, hexadecimal and length-prefixed fields of byte strings.
  \<^item> \<open>Go_Heap\<close>: \<open>container/heap\<close> over a list, for any order that meets the locale \<open>heap_order\<close>.
  \<^item> \<open>Emission\<close>: \<open>chain/emission.go\<close>. The closed form of cumulative emission is the sum of the block
    rewards, and it stays below the cap.
  \<^item> \<open>Accounts\<close>: \<open>chain/account.go\<close>, \<open>account_dust.go\<close>, \<open>dustfork.go\<close>, \<open>account_supply.go\<close>. Balances stay
    non-negative under non-negative amounts, failing operations change nothing, transactions cannot be replayed, dust is
    conserved, the migration is all or nothing, and concurrent minting respects the cap. The locales
    \<open>nonce_counter\<close> and \<open>nonce_ledger\<close> state what the appliers rely on.
  \<^item> \<open>Mempool\<close>: \<open>mempool/mempool.go\<close> over \<open>Go_Heap\<close>, and \<open>chain/poolvalidator.go\<close>.
  \<^item> \<open>Enrollment\<close>: \<open>mining/enrollment/types.go\<close>, \<open>registry.go\<close>, \<open>deferred_bond.go\<close>, \<open>validate.go\<close>. The
    registry as a state machine, bonds, unbonding, slashing, paging and the work search.
  \<^item> \<open>Enrollment_Apply\<close>: \<open>chain/enrollment_apply.go\<close>, \<open>mining_reward.go\<close>, \<open>slash_apply.go\<close> and the
    envelopes and admission checks of \<open>mining/enrollment\<close> and \<open>mining/slashing\<close>: transactions on the
    registry and the accounts together.
  \<^item> \<open>Governance\<close>: \<open>governance/chainparams\<close> and \<open>chain/gov_apply.go\<close>, with the boot code of \<open>internal/v2wiring\<close>.
    Parameters stay within their bounds, authorities change by majority and are never all removed, refused
    transactions change nothing, snapshots load back, and slashing follows the governed parameters. Two
    theorems show how the majority can be bypassed.
  \<^item> \<open>Streams\<close>: \<open>chain/stream_state.go\<close>, \<open>stream_ed25519_retirement.go\<close>. Escrow is conserved, actions are
    authorised and applied once, transactions are atomic.
  \<^item> \<open>Merkle\<close>: \<open>chain/merkle.go\<close>, \<open>tx_content_root.go\<close> and the transaction root of \<open>block.go\<close>. Inclusion
    proofs are complete and sound, and the content root binds the transactions.
  \<^item> \<open>Tokens\<close>: \<open>chain/qsdm20.go\<close>, \<open>qsdm20_state.go\<close>. Amounts as 128-bit unit strings, deploy, mint, transfer and
    burn. Units are accounted for, actions are authorised, a frozen supply stays frozen, and the check
    of a transaction predicts its application.
  \<^item> \<open>Settlement\<close>: the protocol, settlement and Mother Hive context of \<open>edgepool\<close>. Relay receipts and
    settlement proofs, their verification, and the ledger in which a receipt is spent once.
  \<^item> \<open>Task_Catalog\<close>: \<open>chain/task_catalog.go\<close>, \<open>task_action_auth.go\<close> and the data of \<open>task_state.go\<close>:
    manifests, their validation, and the authorisation of actions.
  \<^item> \<open>Tasks\<close>: \<open>chain/task_state.go\<close>. The task store as a state machine: funding, submission, pooled
    settlement, claims and refunds. Records are final, settled proof and receipt identifiers are not
    settled again, claims pay what they quoted, the number of running tasks is exact.
  \<^item> \<open>Recovery\<close>: \<open>walletrecovery/recovery.go\<close>, \<open>legacy_capsule.go\<close> and \<open>chain/recovery_capsule_state.go\<close>.
    Words restore the wallet they were made for, in any case and spacing; a capsule opens to exactly the
    keys it was made from; the register keeps one capsule per owner, changed only by its owner, and
    replay rebuilds it. One theorem shows capsules that can never be opened.
  \<^item> \<open>Wallet\<close>: \<open>wallet/wallet.go\<close>, \<open>chain/wallet_transfer.go\<close>. The signed envelope, transfers in a block, and
    the wallet of a node.
  \<^item> \<open>Dispatch\<close>: \<open>chain/enrollment_aware_applier.go\<close>. The node as a whole: the router from contract IDs to the
    appliers above, the combined state root, the sweep, and the copy that replay and rollback work with. A
    transaction of any component spends its sender's nonce in the shared accounts, so none is accepted twice
    while the node goes forward; refused transactions change nothing; the invariants of the components hold together in
    every reachable node; replay on a copy agrees for transactions other than governance and, under a parameter
    store, slashes; rollback restores everything but governance.
  \<^item> \<open>Validators\<close>: \<open>chain/validator.go\<close>, \<open>staking_ledger.go\<close> and the recomputation of voting power.
  \<^item> \<open>Consensus\<close>: \<open>chain/consensus.go\<close>, \<open>consensus_certificate.go\<close>. Votes, locks, commits and timeouts as
    a state machine: commits need a quorum and are final, retired rounds stay retired, decisions do
    not depend on map order, every validator gets its turn, no two hashes have a quorum.

  \<^bold>\<open>Conventions.\<close> Go structs are records with a prefix per type, operations are functions from state to
  state and result, errors are constructors of a datatype per component. Unsigned integers are words,
  Go's \<open>int\<close> is \<open>int\<close>. Methods that take a lock are sequential; the supply counter, which uses
  compare-and-swap, is a step relation over interleaved callers. Ranging over a map takes the list of its
  keys in the order met. Instants are nanoseconds since Go's zero time; \<open>time.Now\<close> is the argument
  \<open>now\<close>. SHA-256, ML-DSA, Ed25519, JSON and RFC 3339 parsing are arguments; where a theorem needs
  something of them (digests of 32 bytes, no collision among the strings at hand) it is a hypothesis.
  A conversion of a float outside the integer range, which Go leaves to the implementation, is the
  argument \<open>oob\<close>. Values that Go keeps in package variables (fork heights) are arguments.

  \<^bold>\<open>Termination.\<close> Every function is total. Loops are structural or carry a measure (the levels of a
  Merkle tree shrink, the paging walk moves its cursor, the work search ends at the last nonce); no
  definition uses fuel.

  \<^bold>\<open>Not modelled.\<close> Persistence, metrics and event publishing, which change no modelled state; the
  HTTP API, command line, dashboard and networking; block sealing, external append and replay in
  \<open>block.go\<close>; the gossip loop around consensus; proof of entanglement,
  evidence verification, mining proof of work, bridge and contracts; the edge pool beyond its
  settlement. The evidence verifiers are arguments of the slash applier, and so is the parameter store, for which \<open>Governance\<close> instantiates it.
\<close>

end
